(* ===== verification/Mso_Prelude.thy ===== *)
theory Mso_Prelude
  imports Main "HOL-Library.Word"
begin

text \<open>
  Vocabulary shared by the components: how a call can end (\<open>outcome\<close>), how calls are
  sequenced (\<open>and_then\<close>), the fact collections the proofs draw on, and generic facts on
  lists, maps and functions that more than one component needs.
\<close>

section \<open>How a call ends\<close>

text \<open>
  The library is built without exceptions on most paths: a broken contract is a process
  crash raised by \<open>VerifyElseCrash\<close> and its variants (\<open>libs/crash\<close>), so a call either
  returns a value or stops the program. A null dereference, an access outside of an array, the
  overflow of a signed counter, the use of memory that was freed and of a variable that holds no
  object, and a thread that waits for itself are separate outcomes: the code does not check for them, the machine does. \<open>Unfinished\<close>
  is not an outcome of the program: it is what an executable model says when the amount of
  fuel it was given ran out, and every theorem about a fuelled model either shows that this
  value does not occur or excludes it explicitly.
\<close>

datatype crash_reason =
    VerifyElseCrash string
  | NullDereference
  | OutOfBounds
  | SignedOverflow
  | DanglingPointer
  | NotConstructed
  | UnreleasedResource string
  | SelfDeadlock
  | SelfJoin

datatype 'a outcome = Returns 'a | Crashes crash_reason | Unfinished

fun and_then :: "'a outcome \<Rightarrow> ('a \<Rightarrow> 'b outcome) \<Rightarrow> 'b outcome" where
  "and_then (Returns x) f = f x"
| "and_then (Crashes r) f = Crashes r"
| "and_then Unfinished f = Unfinished"

definition verify_else_crash :: "bool \<Rightarrow> string \<Rightarrow> unit outcome" where
  "verify_else_crash c msg = (if c then Returns () else Crashes (VerifyElseCrash msg))"

fun returns :: "'a outcome \<Rightarrow> bool" where
  "returns (Returns x) = True"
| "returns _ = False"

fun crashes :: "'a outcome \<Rightarrow> bool" where
  "crashes (Crashes r) = True"
| "crashes _ = False"

named_theorems outcome_simps "rewrite rules for sequencing calls"
named_theorems component_inv "preservation of component invariants"
named_theorems frame_simps "fields an operation leaves alone"

lemma and_then_eq_Returns [outcome_simps]:
  "and_then m f = Returns y \<longleftrightarrow> (\<exists>x. m = Returns x \<and> f x = Returns y)"
  by (cases m) auto

lemma and_then_eq_Crashes [outcome_simps]:
  "and_then m f = Crashes r \<longleftrightarrow> m = Crashes r \<or> (\<exists>x. m = Returns x \<and> f x = Crashes r)"
  by (cases m) auto

lemma and_then_eq_Unfinished [outcome_simps]:
  "and_then m f = Unfinished \<longleftrightarrow> m = Unfinished \<or> (\<exists>x. m = Returns x \<and> f x = Unfinished)"
  by (cases m) auto

lemma and_then_assoc: "and_then (and_then m f) g = and_then m (\<lambda>x. and_then (f x) g)"
  by (cases m) auto

lemma verify_else_crash_Returns [outcome_simps]:
  "verify_else_crash c msg = Returns u \<longleftrightarrow> c"
  by (simp add: verify_else_crash_def)

lemma verify_else_crash_True [simp]: "verify_else_crash True msg = Returns ()"
  by (simp add: verify_else_crash_def)

lemma verify_else_crash_False [simp]:
  "verify_else_crash False msg = Crashes (VerifyElseCrash msg)"
  by (simp add: verify_else_crash_def)

lemma returns_iff: "returns m \<longleftrightarrow> (\<exists>x. m = Returns x)"
  by (cases m) auto

lemma crashes_iff: "crashes m \<longleftrightarrow> (\<exists>r. m = Crashes r)"
  by (cases m) auto

section \<open>Threads, lists and maps\<close>

type_synonym thread_id = nat

text \<open>An address; the null pointer is 0.\<close>

type_synonym ptr = "64 word"

lemma take_Suc_drop_nth: "i < length xs \<Longrightarrow> drop i xs = xs ! i # drop (Suc i) xs"
  by (simp add: Cons_nth_drop_Suc)

lemma drop_update_before: "i < j \<Longrightarrow> drop j (xs[i := x]) = drop j xs"
  by (simp add: drop_update_cancel)

text \<open>
  A quantity summed over the threads changes by what it changes for the one thread that moves.
\<close>

lemma sum_one_thread:
  fixes f g :: "thread_id \<Rightarrow> 'a::comm_monoid_add"
  assumes "tid < n" and "\<And>u. u \<noteq> tid \<Longrightarrow> f u = g u"
  shows "(\<Sum>u<n. f u) + g tid = (\<Sum>u<n. g u) + f tid"
proof -
  have "(\<Sum>u<n. f u) = f tid + (\<Sum>u\<in>{..<n} - {tid}. f u)"
    and "(\<Sum>u<n. g u) = g tid + (\<Sum>u\<in>{..<n} - {tid}. g u)"
    using assms(1) by (simp_all add: sum.remove)
  moreover have "(\<Sum>u\<in>{..<n} - {tid}. f u) = (\<Sum>u\<in>{..<n} - {tid}. g u)"
    using assms(2) by (intro sum.cong) auto
  ultimately show ?thesis by (simp add: ac_simps)
qed

end
