(* ===== verification/Task_Queue.thy ===== *)
theory Task_Queue
  imports Mso_Prelude
begin

text \<open>
  \<open>TaskReadBuffer\<close> and \<open>TaskQueue\<close> of \<open>libs/dispatchQueue/src/taskQueue.h\<close> and
  \<open>taskQueue.cpp\<close>: the queue of a dispatch queue, two buffers that swap roles when the one
  being read runs dry. A \<open>DispatchTask\<close> is a functor object that can be empty, hence
  \<open>'a option\<close>; moving a task out of a buffer slot leaves an empty functor there.
  The owner of the queue is kept alive by a strong pointer exactly while tasks are queued;
  \<open>WeakPtr::GetStrongPtr\<close> is the argument \<open>get_strong\<close>.
\<close>

section \<open>Data\<close>

type_synonym 'a functor_object = "'a option"

record 'a TaskReadBuffer =
  m_buffer :: "'a functor_object list"
  m_index :: nat

record ('a, 'w, 'o) TaskQueue =
  m_writeBuffer :: "'a functor_object list"
  m_readBuffer :: "'a TaskReadBuffer"
  m_weakOwnerPtr :: 'w
  m_strongOwnerPtr :: "'o option"

section \<open>TaskReadBuffer\<close>

definition TaskReadBuffer_TryDequeue ::
  "'a TaskReadBuffer \<Rightarrow> 'a functor_object \<Rightarrow> bool \<times> 'a functor_object \<times> 'a TaskReadBuffer" where
  "TaskReadBuffer_TryDequeue b item =
     (if m_index b < length (m_buffer b)
      then (True, m_buffer b ! m_index b,
            b\<lparr>m_buffer := (m_buffer b)[m_index b := None], m_index := m_index b + 1\<rparr>)
      else (False, item, b))"

definition TaskReadBuffer_SwapBuffer ::
  "'a TaskReadBuffer \<Rightarrow> 'a functor_object list \<Rightarrow> 'a TaskReadBuffer \<times> 'a functor_object list" where
  "TaskReadBuffer_SwapBuffer b buffer =
     (let rest = drop (m_index b) (m_buffer b)
      in (b\<lparr>m_buffer := buffer, m_index := 0\<rparr>, rest))"

definition TaskReadBuffer_Size :: "'a TaskReadBuffer \<Rightarrow> nat" where
  "TaskReadBuffer_Size b = length (m_buffer b) - m_index b"

definition TaskReadBuffer_IsEmpty :: "'a TaskReadBuffer \<Rightarrow> bool" where
  "TaskReadBuffer_IsEmpty b \<longleftrightarrow> m_index b = length (m_buffer b)"

section \<open>TaskQueue\<close>

definition TaskQueue_new :: "'w \<Rightarrow> ('a, 'w, 'o) TaskQueue" where
  "TaskQueue_new w =
     \<lparr>m_writeBuffer = [], m_readBuffer = \<lparr>m_buffer = [], m_index = 0\<rparr>,
      m_weakOwnerPtr = w, m_strongOwnerPtr = None\<rparr>"

definition TaskQueue_Size :: "('a, 'w, 'o) TaskQueue \<Rightarrow> nat" where
  "TaskQueue_Size q = TaskReadBuffer_Size (m_readBuffer q) + length (m_writeBuffer q)"

definition TaskQueue_IsEmpty :: "('a, 'w, 'o) TaskQueue \<Rightarrow> bool" where
  "TaskQueue_IsEmpty q \<longleftrightarrow> TaskReadBuffer_IsEmpty (m_readBuffer q) \<and> m_writeBuffer q = []"

definition TaskQueue_destroy :: "('a, 'w, 'o) TaskQueue \<Rightarrow> unit outcome" where
  "TaskQueue_destroy q =
     verify_else_crash (TaskQueue_IsEmpty q) ''Queue must be empty before destruction.''"

definition TaskQueue_Enqueue ::
  "('w \<Rightarrow> 'o option) \<Rightarrow> 'a functor_object \<Rightarrow> ('a, 'w, 'o) TaskQueue \<Rightarrow> ('a, 'w, 'o) TaskQueue" where
  "TaskQueue_Enqueue get_strong task q =
     (let queueWasEmpty = TaskQueue_IsEmpty q;
          q1 = q\<lparr>m_writeBuffer := m_writeBuffer q @ [task]\<rparr>
      in if queueWasEmpty then q1\<lparr>m_strongOwnerPtr := get_strong (m_weakOwnerPtr q1)\<rparr> else q1)"

definition TaskQueue_TryDequeue ::
  "('a, 'w, 'o) TaskQueue \<Rightarrow> 'a functor_object \<Rightarrow>
   bool \<times> 'a functor_object \<times> ('a, 'w, 'o) TaskQueue" where
  "TaskQueue_TryDequeue q task =
     (let q1 = (if TaskReadBuffer_IsEmpty (m_readBuffer q) \<and> m_writeBuffer q \<noteq> []
                then (case TaskReadBuffer_SwapBuffer (m_readBuffer q) (m_writeBuffer q) of
                        (rb, wb) \<Rightarrow> q\<lparr>m_readBuffer := rb, m_writeBuffer := wb\<rparr>)
                else q)
      in case TaskReadBuffer_TryDequeue (m_readBuffer q1) task of
           (result, task', rb) \<Rightarrow>
             let q2 = q1\<lparr>m_readBuffer := rb\<rparr>
             in (result, task',
                 if result \<and> TaskQueue_IsEmpty q2 then q2\<lparr>m_strongOwnerPtr := None\<rparr> else q2))"

definition TaskQueue_DequeueAll ::
  "('a, 'w, 'o) TaskQueue \<Rightarrow> 'a functor_object list \<Rightarrow>
   bool \<times> 'a functor_object list \<times> ('a, 'w, 'o) TaskQueue" where
  "TaskQueue_DequeueAll q tasks =
     (if TaskQueue_IsEmpty q then (False, tasks, q)
      else
        let (tasks1, q1) =
              (if \<not> TaskReadBuffer_IsEmpty (m_readBuffer q)
               then (case TaskReadBuffer_SwapBuffer (m_readBuffer q) [] of
                       (rb, readBuffer) \<Rightarrow> (tasks @ readBuffer, q\<lparr>m_readBuffer := rb\<rparr>))
               else (tasks, q));
            (tasks2, q2) =
              (if m_writeBuffer q1 \<noteq> []
               then (tasks1 @ m_writeBuffer q1, q1\<lparr>m_writeBuffer := []\<rparr>)
               else (tasks1, q1))
        in (True, tasks2, q2\<lparr>m_strongOwnerPtr := None\<rparr>))"

section \<open>Invariant and content\<close>

text \<open>
  The read index never passes the end of the read buffer, and an empty queue never holds
  its owner. The content of the queue is what is left of the read buffer followed by the
  write buffer.
\<close>

definition queue_inv :: "('a, 'w, 'o) TaskQueue \<Rightarrow> bool" where
  "queue_inv q \<longleftrightarrow> m_index (m_readBuffer q) \<le> length (m_buffer (m_readBuffer q))
     \<and> (TaskQueue_IsEmpty q \<longrightarrow> m_strongOwnerPtr q = None)"

definition queue_content :: "('a, 'w, 'o) TaskQueue \<Rightarrow> 'a functor_object list" where
  "queue_content q = drop (m_index (m_readBuffer q)) (m_buffer (m_readBuffer q)) @ m_writeBuffer q"

lemmas task_buffer_defs =
  TaskReadBuffer_TryDequeue_def TaskReadBuffer_SwapBuffer_def TaskReadBuffer_Size_def
  TaskReadBuffer_IsEmpty_def

lemmas task_queue_defs =
  task_buffer_defs TaskQueue_Size_def TaskQueue_IsEmpty_def queue_inv_def queue_content_def

lemma queue_inv_new [simp, component_inv]: "queue_inv (TaskQueue_new w)"
  by (simp add: TaskQueue_new_def task_queue_defs)

lemma queue_content_new [simp]: "queue_content (TaskQueue_new w) = []"
  by (simp add: TaskQueue_new_def queue_content_def)

lemma TaskQueue_IsEmpty_content:
  "queue_inv q \<Longrightarrow> TaskQueue_IsEmpty q \<longleftrightarrow> queue_content q = []"
  by (auto simp: task_queue_defs)

lemma TaskQueue_Size_content: "TaskQueue_Size q = length (queue_content q)"
  by (simp add: task_queue_defs)

lemma queue_content_Enqueue [simp]:
  "queue_content (TaskQueue_Enqueue g task q) = queue_content q @ [task]"
  by (simp add: TaskQueue_Enqueue_def queue_content_def Let_def)

lemma queue_inv_Enqueue [component_inv]:
  "queue_inv q \<Longrightarrow> queue_inv (TaskQueue_Enqueue g task q)"
  by (simp add: TaskQueue_Enqueue_def task_queue_defs Let_def)

text \<open>Dequeueing from an empty queue changes nothing and leaves the out parameter alone.\<close>

lemma TaskQueue_TryDequeue_empty:
  "queue_inv q \<Longrightarrow> queue_content q = [] \<Longrightarrow> TaskQueue_TryDequeue q task = (False, task, q)"
  by (simp add: TaskQueue_TryDequeue_def task_queue_defs Let_def)

text \<open>Otherwise it delivers the oldest task, whichever buffer it is in.\<close>

lemma TaskQueue_TryDequeue_Cons:
  assumes inv: "queue_inv q" and content: "queue_content q = x # xs"
  obtains q' where "TaskQueue_TryDequeue q task = (True, x, q')"
    and "queue_inv q'" and "queue_content q' = xs"
    and "xs = [] \<Longrightarrow> m_strongOwnerPtr q' = None"
    and "xs \<noteq> [] \<Longrightarrow> m_strongOwnerPtr q' = m_strongOwnerPtr q"
    and "m_weakOwnerPtr q' = m_weakOwnerPtr q"
proof (cases "m_index (m_readBuffer q) = length (m_buffer (m_readBuffer q))")
  case True
  with inv content that show thesis
    by (cases xs) (auto simp: TaskQueue_TryDequeue_def task_queue_defs Let_def)
next
  case False
  with inv have lt: "m_index (m_readBuffer q) < length (m_buffer (m_readBuffer q))"
    by (simp add: queue_inv_def)
  with content have x: "m_buffer (m_readBuffer q) ! m_index (m_readBuffer q) = x"
    and xs: "drop (Suc (m_index (m_readBuffer q))) (m_buffer (m_readBuffer q)) @ m_writeBuffer q = xs"
    by (simp_all add: queue_content_def take_Suc_drop_nth)
  from xs lt have "TaskQueue_IsEmpty (q\<lparr>m_readBuffer :=
      \<lparr>m_buffer = b, m_index = Suc (m_index (m_readBuffer q))\<rparr>\<rparr>) \<longleftrightarrow> xs = []"
    if "length b = length (m_buffer (m_readBuffer q))" for b
    using that by (auto simp: task_queue_defs)
  with lt x xs that show thesis
    by (auto simp: TaskQueue_TryDequeue_def task_queue_defs Let_def drop_update_before)
qed

lemma TaskQueue_DequeueAll_content:
  assumes "queue_inv q" and "TaskQueue_DequeueAll q tasks = (b, tasks', q')"
  shows "tasks' = tasks @ queue_content q" and "queue_content q' = []" and "queue_inv q'"
    and "b \<longleftrightarrow> queue_content q \<noteq> []" and "m_weakOwnerPtr q' = m_weakOwnerPtr q"
    and "m_strongOwnerPtr q' = None"
  using assms
  by (auto simp: TaskQueue_DequeueAll_def task_queue_defs Let_def split: if_splits)

section \<open>The queue interface\<close>

text \<open>
  What a dispatch queue relies on: a first-in first-out container with its content and
  invariant. The laws are proved for \<open>TaskQueue\<close> below; clients reason with them alone.
\<close>

locale fifo =
  fixes enq :: "'t \<Rightarrow> 'q \<Rightarrow> 'q"
    and deq :: "'q \<Rightarrow> ('t \<times> 'q) option"
    and content :: "'q \<Rightarrow> 't list"
    and invar :: "'q \<Rightarrow> bool"
  assumes content_enq: "invar q \<Longrightarrow> content (enq t q) = content q @ [t]"
    and invar_enq: "invar q \<Longrightarrow> invar (enq t q)"
    and deq_None: "invar q \<Longrightarrow> deq q = None \<longleftrightarrow> content q = []"
    and deq_Some: "invar q \<Longrightarrow> deq q = Some (t, q') \<Longrightarrow> content q = t # content q' \<and> invar q'"
begin

text \<open>Tasks enqueued one by one are appended in order.\<close>

lemma fold_enq: "invar q \<Longrightarrow> content (fold enq ts q) = content q @ ts \<and> invar (fold enq ts q)"
  by (induction ts arbitrary: q) (auto simp: content_enq invar_enq)

text \<open>Taking a number of tasks delivers a prefix of the content, in order.\<close>

lemma deq_prefix:
  assumes "invar q" and "content q = t # ts"
  shows "\<exists>q'. deq q = Some (t, q') \<and> content q' = ts \<and> invar q'"
proof (cases "deq q")
  case None
  with assms show ?thesis by (simp add: deq_None)
next
  case (Some p)
  then obtain u q' where "deq q = Some (u, q')" by (cases p) auto
  with assms deq_Some [OF assms(1) this] show ?thesis by simp
qed

end

text \<open>A queue of tasks that are not empty functors, as \<open>QueueService::Post\<close> demands.\<close>

definition TaskQueue_deq :: "('a, 'w, 'o) TaskQueue \<Rightarrow>
    ('a functor_object \<times> ('a, 'w, 'o) TaskQueue) option" where
  "TaskQueue_deq q = (case TaskQueue_TryDequeue q None of
     (True, t, q') \<Rightarrow> Some (t, q') | (False, t, q') \<Rightarrow> None)"

lemma TaskQueue_deq_None: "queue_inv q \<Longrightarrow> TaskQueue_deq q = None \<longleftrightarrow> queue_content q = []"
proof (cases "queue_content q")
  case Nil
  then show "queue_inv q \<Longrightarrow> TaskQueue_deq q = None \<longleftrightarrow> queue_content q = []"
    by (simp add: TaskQueue_deq_def TaskQueue_TryDequeue_empty)
next
  case (Cons x xs)
  assume "queue_inv q"
  from this Cons obtain q' where "TaskQueue_TryDequeue q None = (True, x, q')"
    by (rule TaskQueue_TryDequeue_Cons)
  with Cons show "TaskQueue_deq q = None \<longleftrightarrow> queue_content q = []"
    by (simp add: TaskQueue_deq_def)
qed

lemma TaskQueue_deq_Some:
  assumes "queue_inv q" and "TaskQueue_deq q = Some (t, q')"
  shows "queue_content q = t # queue_content q' \<and> queue_inv q'"
proof (cases "queue_content q")
  case Nil
  with assms show ?thesis by (simp add: TaskQueue_deq_None [OF assms(1), symmetric])
next
  case (Cons x xs)
  with assms(1) obtain q1 where "TaskQueue_TryDequeue q None = (True, x, q1)"
    "queue_inv q1" "queue_content q1 = xs" by (rule TaskQueue_TryDequeue_Cons)
  with assms(2) Cons show ?thesis by (simp add: TaskQueue_deq_def)
qed

interpretation task_fifo: fifo "TaskQueue_Enqueue g" TaskQueue_deq queue_content queue_inv
  by unfold_locales (simp_all add: component_inv TaskQueue_deq_None TaskQueue_deq_Some)

end
