(* ===== verification/Dispatch_Task.thy ===== *)
theory Dispatch_Task
  imports Task_Queue "HOL-Library.Multiset"
begin

text \<open>
  What a dispatch queue runs: the tasks themselves, \<open>TaskBatch\<close> (\<open>taskBatch.h/.cpp\<close>),
  \<open>TaskContext\<close> (\<open>taskContext.h/.cpp\<close>) and the two task classes built from function objects,
  \<open>DispatchTaskImpl\<close> and \<open>DispatchCleanupTaskImpl\<close> (\<open>dispatchQueue.h\<close>).

  User code is not part of the library: a user task is a number, and what its \<open>Invoke()\<close>
  and \<open>OnCancel()\<close> do is an argument of the definitions that run it. A task that
  implements \<open>ICancellationListener\<close> and one that does not are told apart by constructor,
  as \<open>query_cast<ICancellationListener*>\<close> does.
\<close>

section \<open>Tasks and batches\<close>

datatype task =
    UserTask nat
  | CancellableTask nat
  | BatchTask "task option list"

text \<open>A task batch under construction: its tasks and the batch it is nested in.\<close>

datatype TaskBatch = TaskBatch (m_tasks: "task option list") (m_enclosingBatch: "TaskBatch option")

definition TaskBatch_new :: TaskBatch where
  "TaskBatch_new = TaskBatch [] None"

definition TaskBatch_AddTask :: "task option \<Rightarrow> TaskBatch \<Rightarrow> TaskBatch" where
  "TaskBatch_AddTask t b = TaskBatch (m_tasks b @ [t]) (m_enclosingBatch b)"

definition TaskBatch_SetEnclosingBatch :: "TaskBatch option \<Rightarrow> TaskBatch \<Rightarrow> TaskBatch" where
  "TaskBatch_SetEnclosingBatch e b = TaskBatch (m_tasks b) e"

definition TaskBatch_TakeEnclosingBatch :: "TaskBatch \<Rightarrow> TaskBatch option \<times> TaskBatch" where
  "TaskBatch_TakeEnclosingBatch b = (m_enclosingBatch b, TaskBatch (m_tasks b) None)"

text \<open>
  The user tasks a task stands for. Every task of a batch counts once; an empty functor
  counts for nothing.
\<close>

fun task_tokens :: "task \<Rightarrow> nat multiset" where
  "task_tokens (UserTask i) = {#i#}"
| "task_tokens (CancellableTask i) = {#i#}"
| "task_tokens (BatchTask ts) = sum_list (map (\<lambda>t. case t of None \<Rightarrow> {#} | Some u \<Rightarrow> task_tokens u) ts)"

definition opt_tokens :: "task option \<Rightarrow> nat multiset" where
  "opt_tokens t = (case t of None \<Rightarrow> {#} | Some u \<Rightarrow> task_tokens u)"

definition list_tokens :: "task option list \<Rightarrow> nat multiset" where
  "list_tokens ts = sum_list (map opt_tokens ts)"

fun batch_tokens :: "TaskBatch \<Rightarrow> nat multiset" where
  "batch_tokens (TaskBatch ts e) =
     list_tokens ts + (case e of None \<Rightarrow> {#} | Some b \<Rightarrow> batch_tokens b)"

lemma opt_tokens_simps [simp]: "opt_tokens None = {#}" "opt_tokens (Some u) = task_tokens u"
  by (simp_all add: opt_tokens_def)

lemma task_tokens_Batch [simp]: "task_tokens (BatchTask ts) = list_tokens ts"
  by (simp add: list_tokens_def opt_tokens_def [abs_def])

declare task_tokens.simps(3) [simp del]

lemma list_tokens_simps [simp]:
  "list_tokens [] = {#}" "list_tokens (t # ts) = opt_tokens t + list_tokens ts"
  "list_tokens (ts @ us) = list_tokens ts + list_tokens us"
  by (simp_all add: list_tokens_def)

lemma batch_tokens_AddTask [simp]:
  "batch_tokens (TaskBatch_AddTask t b) = batch_tokens b + opt_tokens t"
  by (cases b) (simp add: TaskBatch_AddTask_def)

lemma batch_tokens_new [simp]: "batch_tokens TaskBatch_new = {#}"
  by (simp add: TaskBatch_new_def)

lemma batch_tokens_TakeEnclosing:
  "TaskBatch_TakeEnclosingBatch b = (e, b') \<Longrightarrow>
     batch_tokens b = list_tokens (m_tasks b') + (case e of None \<Rightarrow> {#} | Some c \<Rightarrow> batch_tokens c)"
  by (cases b) (auto simp: TaskBatch_TakeEnclosingBatch_def)

section \<open>TaskContext\<close>

text \<open>
  The execution context of a running task: the queue it runs for, when it should yield, and
  the tasks deferred to its end. \<open>tls_context\<close> and the \<open>m_prevContext\<close> links form a stack
  per thread, its head the current context.
\<close>

record TaskContext =
  ctx_queue :: nat
  m_endTime :: "int option"
  m_deferQueue :: "task option list"
  m_readIndex :: nat

definition TaskContext_new :: "nat \<Rightarrow> int option \<Rightarrow> TaskContext" where
  "TaskContext_new queue endTime =
     \<lparr>ctx_queue = queue, m_endTime = endTime, m_deferQueue = [], m_readIndex = 0\<rparr>"

definition TaskContext_enter :: "nat \<Rightarrow> int option \<Rightarrow> TaskContext list \<Rightarrow> TaskContext list" where
  "TaskContext_enter queue endTime tls_context = TaskContext_new queue endTime # tls_context"

definition TaskContext_leave :: "TaskContext list \<Rightarrow> TaskContext list" where
  "TaskContext_leave tls_context = tl tls_context"

definition TaskContext_Defer :: "task option \<Rightarrow> TaskContext \<Rightarrow> TaskContext" where
  "TaskContext_Defer t c = c\<lparr>m_deferQueue := m_deferQueue c @ [t]\<rparr>"

definition TaskContext_TakeNextDeferredTask :: "TaskContext \<Rightarrow> task option \<times> TaskContext" where
  "TaskContext_TakeNextDeferredTask c =
     (if m_readIndex c < length (m_deferQueue c)
      then (m_deferQueue c ! m_readIndex c,
            c\<lparr>m_deferQueue := (m_deferQueue c)[m_readIndex c := None], m_readIndex := m_readIndex c + 1\<rparr>)
      else (None, c))"

definition TaskContext_CurrentContext :: "TaskContext list \<Rightarrow> TaskContext option" where
  "TaskContext_CurrentContext tls_context = (case tls_context of [] \<Rightarrow> None | c # _ \<Rightarrow> Some c)"

definition TaskContext_CurrentQueue :: "TaskContext list \<Rightarrow> nat option" where
  "TaskContext_CurrentQueue tls_context =
     (case TaskContext_CurrentContext tls_context of Some c \<Rightarrow> Some (ctx_queue c) | None \<Rightarrow> None)"

definition ctx_pending :: "TaskContext \<Rightarrow> task option list" where
  "ctx_pending c = drop (m_readIndex c) (m_deferQueue c)"

definition ctx_inv :: "TaskContext \<Rightarrow> bool" where
  "ctx_inv c \<longleftrightarrow> m_readIndex c \<le> length (m_deferQueue c) \<and> None \<notin> set (ctx_pending c)"

lemma ctx_new [simp]: "ctx_pending (TaskContext_new q e) = []" "ctx_inv (TaskContext_new q e)"
  by (simp_all add: ctx_pending_def ctx_inv_def TaskContext_new_def)

lemma ctx_pending_Defer [simp]:
  "m_readIndex c \<le> length (m_deferQueue c) \<Longrightarrow>
     ctx_pending (TaskContext_Defer t c) = ctx_pending c @ [t]"
  by (simp add: ctx_pending_def TaskContext_Defer_def)

lemma ctx_inv_Defer [component_inv]:
  "ctx_inv c \<Longrightarrow> ctx_inv (TaskContext_Defer (Some t) c)"
  by (auto simp: ctx_inv_def ctx_pending_def TaskContext_Defer_def)

text \<open>
  Deferred tasks come out in the order they were deferred; an empty functor says there is
  none left, since \<open>DeferElsePost\<close> is never given one that is looked at again.
\<close>

lemma TakeNextDeferred_Cons:
  assumes "ctx_inv c" and "ctx_pending c = t # ts"
  obtains c' where "TaskContext_TakeNextDeferredTask c = (t, c')" and "ctx_pending c' = ts"
    and "ctx_inv c'" and "t \<noteq> None" and "ctx_queue c' = ctx_queue c"
proof -
  from assms have lt: "m_readIndex c < length (m_deferQueue c)"
    by (auto simp: ctx_pending_def intro: ccontr)
  with assms have "t = m_deferQueue c ! m_readIndex c"
    and "ts = drop (Suc (m_readIndex c)) (m_deferQueue c)"
    by (simp_all add: ctx_pending_def take_Suc_drop_nth)
  with lt assms that show thesis
    by (auto simp: TaskContext_TakeNextDeferredTask_def ctx_pending_def ctx_inv_def
        drop_update_before simp del: not_None_eq)
qed

lemma TakeNextDeferred_Nil:
  "ctx_inv c \<Longrightarrow> ctx_pending c = [] \<Longrightarrow> TaskContext_TakeNextDeferredTask c = (None, c)"
  by (simp add: TaskContext_TakeNextDeferredTask_def ctx_pending_def)

section \<open>Tasks made of function objects\<close>

text \<open>
  \<open>MakeDispatchTask(invoke, onCancel)\<close>: \<open>m_isCalled\<close> records that one of the two has run, so
  that the destructor cancels a task that was dropped. The events of a run of calls on one
  such object are listed in the order they happen.
\<close>

datatype task_call = CallInvoke | CallOnCancel

datatype task_effect = RanInvoke | RanOnCancel

fun DispatchTaskImpl_call :: "task_call \<Rightarrow> bool \<Rightarrow> task_effect \<times> bool" where
  "DispatchTaskImpl_call CallInvoke m_isCalled = (RanInvoke, True)"
| "DispatchTaskImpl_call CallOnCancel m_isCalled = (RanOnCancel, True)"

definition DispatchTaskImpl_destroy :: "bool \<Rightarrow> task_effect list" where
  "DispatchTaskImpl_destroy m_isCalled = (if \<not> m_isCalled then [RanOnCancel] else [])"

fun DispatchTaskImpl_life :: "task_call list \<Rightarrow> bool \<Rightarrow> task_effect list" where
  "DispatchTaskImpl_life [] m_isCalled = DispatchTaskImpl_destroy m_isCalled"
| "DispatchTaskImpl_life (c # cs) m_isCalled =
     (case DispatchTaskImpl_call c m_isCalled of
        (e, m_isCalled') \<Rightarrow> e # DispatchTaskImpl_life cs m_isCalled')"

fun DispatchCleanupTaskImpl_call :: "task_call \<Rightarrow> task_effect" where
  "DispatchCleanupTaskImpl_call CallInvoke = RanInvoke"
| "DispatchCleanupTaskImpl_call CallOnCancel = RanInvoke"

fun DispatchCleanupTaskImpl_life :: "task_call list \<Rightarrow> task_effect list" where
  "DispatchCleanupTaskImpl_life [] = []"
| "DispatchCleanupTaskImpl_life (c # cs) =
     DispatchCleanupTaskImpl_call c # DispatchCleanupTaskImpl_life cs"

lemma DispatchTaskImpl_life_called:
  "length (DispatchTaskImpl_life cs True) = length cs"
proof (induction cs)
  case Nil
  then show ?case by (simp add: DispatchTaskImpl_destroy_def)
next
  case (Cons c cs)
  then show ?case by (cases c) simp_all
qed

lemma DispatchTaskImpl_life_length:
  "length (DispatchTaskImpl_life cs False) = max 1 (length cs)"
proof (cases cs)
  case Nil
  then show ?thesis by (simp add: DispatchTaskImpl_destroy_def)
next
  case (Cons c ds)
  then show ?thesis by (cases c) (simp_all add: DispatchTaskImpl_life_called)
qed

end
