(* ===== verification/Queue_Service.thy ===== *)
theory Queue_Service
  imports Dispatch_Task
begin

text \<open>
  \<open>QueueService\<close> (\<open>libs/dispatchQueue/src/queueService.h\<close> and \<open>queueService.cpp\<close>): the one
  implementation of \<open>IDispatchQueueService\<close>, shared by every kind of dispatch queue; the
  schedulers that call it are in the theories \<open>Thread_Pool\<close>, \<open>Windows_Pool\<close> and \<open>Looper\<close>.

  Every method takes \<open>m_mutex\<close> for the part that touches the members and makes its calls
  to other code (the scheduler, a task, a cancellation listener) after releasing it. A
  method is therefore a function from the calling thread and the state before the lock to
  the state after it, together with the list of calls left to make (\<open>item\<close>), in order.
  Whoever runs the calls (theory \<open>Queue_System\<close>) may let other threads in between two of
  them, as the unlocked code does.
\<close>

section \<open>State\<close>

datatype PendingTaskAction = Complete | CancelPending

datatype TaskYieldReason = QueueShutdown | QueueSuspended | TimeExpired

datatype LocalValueSwapAction = Lock | Unlock

text \<open>
  A queue local value: the callback given when the entry was made (a null function pointer
  is \<open>None\<close>), the value held by the queue and the lock flag. The callback swaps the queue's
  value with a thread's; it is code of the client.
\<close>

record 'v QueueLocalValueEntry =
  m_swapLocalValue :: "nat option"
  m_data :: "'v option"
  m_isLocked :: bool

record 'v QueueService =
  m_queue :: "(task, nat, nat) TaskQueue"
  m_shutdownAction :: "PendingTaskAction option"
  m_suspendCounter :: int
  m_taskBatches :: "thread_id \<Rightarrow> TaskBatch option option"
  m_localValues :: "(int \<times> 'v QueueLocalValueEntry) list"

text \<open>What a method leaves to do once the lock is released.\<close>

datatype scheduler_call = SchedulerPost | SchedulerShutdown | SchedulerAwaitTermination

datatype item =
    ICallScheduler scheduler_call
  | IInvoke "task option"
  | ICancel "task option"
  | IDrainDeferred

text \<open>
  The parts of the program a queue method sees: its own members and the calling thread's
  stack of task contexts. A queue is identified by a number, as \<open>this\<close> is by its address.
\<close>

definition QueueService_new :: "nat \<Rightarrow> 'v QueueService" where
  "QueueService_new this =
     \<lparr>m_queue = TaskQueue_new this, m_shutdownAction = None, m_suspendCounter = 0,
      m_taskBatches = (\<lambda>_. None), m_localValues = []\<rparr>"

text \<open>
  The caller of a method holds a reference to the queue, so the queue's weak pointer to
  itself, when locked inside a method, succeeds.
\<close>

definition self_strong :: "nat \<Rightarrow> nat option" where
  "self_strong this = Some this"

section \<open>Posting, deferring, invoking, cancelling\<close>

definition QueueService_CancelTask :: "task option \<Rightarrow> item list" where
  "QueueService_CancelTask t = [ICancel t]"

definition QueueService_Post ::
  "thread_id \<Rightarrow> task option \<Rightarrow> 'v QueueService \<Rightarrow> (item list \<times> 'v QueueService) outcome" where
  "QueueService_Post tid t s =
     and_then (verify_else_crash (t \<noteq> None) ''The task is empty'') (\<lambda>_.
       case m_taskBatches s tid of
         Some None \<Rightarrow> Crashes NullDereference
       | Some (Some b) \<Rightarrow>
           Returns ([], s\<lparr>m_taskBatches := (m_taskBatches s)(tid := Some (Some (TaskBatch_AddTask t b)))\<rparr>)
       | None \<Rightarrow>
           let isShutdown = (m_shutdownAction s \<noteq> None) in
           if \<not> isShutdown
           then let s1 = s\<lparr>m_queue := TaskQueue_Enqueue self_strong t (m_queue s)\<rparr>;
                    shouldSchedule = (m_suspendCounter s = 0)
                in Returns (if shouldSchedule then [ICallScheduler SchedulerPost] else [], s1)
           else Returns (QueueService_CancelTask t, s))"

definition QueueService_ShouldYield :: "'v QueueService \<Rightarrow> bool \<times> TaskYieldReason option" where
  "QueueService_ShouldYield s =
     (if m_shutdownAction s \<noteq> None then (True, Some QueueShutdown)
      else if m_suspendCounter s > 0 then (True, Some QueueSuspended)
      else (False, None))"

definition QueueService_IsCurrentQueue :: "nat \<Rightarrow> TaskContext list \<Rightarrow> bool" where
  "QueueService_IsCurrentQueue this tls \<longleftrightarrow> TaskContext_CurrentQueue tls = Some this"

text \<open>
  \<open>InvokeTask\<close> enters a context and leaves the call of the task and the loop over its
  deferred tasks; the context is left when the loop finds none.
\<close>

definition QueueService_InvokeTask ::
  "nat \<Rightarrow> task option \<Rightarrow> int option \<Rightarrow> TaskContext list \<Rightarrow> item list \<times> TaskContext list" where
  "QueueService_InvokeTask this t endTime tls =
     ([IInvoke t, IDrainDeferred], TaskContext_enter this endTime tls)"

definition QueueService_DrainDeferred ::
  "TaskContext list \<Rightarrow> (item list \<times> TaskContext list) outcome" where
  "QueueService_DrainDeferred tls =
     (case tls of
        [] \<Rightarrow> Crashes NullDereference
      | c # cs \<Rightarrow>
          (case TaskContext_TakeNextDeferredTask c of
             (Some t, c') \<Rightarrow> Returns ([IInvoke (Some t), IDrainDeferred], c' # cs)
           | (None, c') \<Rightarrow> Returns ([], TaskContext_leave (c' # cs))))"

definition QueueService_InvokeElsePost ::
  "nat \<Rightarrow> bool \<Rightarrow> thread_id \<Rightarrow> task option \<Rightarrow> TaskContext list \<Rightarrow> 'v QueueService
     \<Rightarrow> (item list \<times> TaskContext list \<times> 'v QueueService) outcome" where
  "QueueService_InvokeElsePost this hasThreadAccess tid t tls s =
     (if hasThreadAccess
      then if TaskContext_CurrentQueue tls = Some this
           then Returns ([IInvoke t], tls, s)
           else (case QueueService_InvokeTask this t None tls of (is, tls') \<Rightarrow> Returns (is, tls', s))
      else and_then (QueueService_Post tid t s) (\<lambda>(is, s'). Returns (is, tls, s')))"

definition QueueService_DeferElsePost ::
  "nat \<Rightarrow> thread_id \<Rightarrow> task option \<Rightarrow> TaskContext list \<Rightarrow> 'v QueueService
     \<Rightarrow> (item list \<times> TaskContext list \<times> 'v QueueService) outcome" where
  "QueueService_DeferElsePost this tid t tls s =
     (if TaskContext_CurrentQueue tls = Some this
      then (case tls of
              c # cs \<Rightarrow> Returns ([], TaskContext_Defer t c # cs, s)
            | [] \<Rightarrow> Crashes NullDereference)
      else and_then (QueueService_Post tid t s) (\<lambda>(is, s'). Returns (is, tls, s')))"

section \<open>Task batching\<close>

text \<open>
  \<open>m_taskBatches.try_emplace(id, std::move(taskBatch))\<close> moves the new batch into the map
  exactly when the thread had none (\<open>result.second\<close>), and the branch taken then goes on to
  use the moved-from pointer. When the thread has a batch, the new one is dropped.
\<close>

definition QueueService_BeginTaskBatching ::
  "thread_id \<Rightarrow> 'v QueueService \<Rightarrow> 'v QueueService outcome" where
  "QueueService_BeginTaskBatching tid s =
     (let inserted = (m_taskBatches s tid = None);
          taskBatch = (if inserted then None else Some TaskBatch_new)
      in if inserted
         then (case taskBatch of
                 None \<Rightarrow> Crashes NullDereference
               | Some b \<Rightarrow>
                   Returns (s\<lparr>m_taskBatches := (m_taskBatches s)(tid :=
                      Some (Some (TaskBatch_SetEnclosingBatch (Some TaskBatch_new) b)))\<rparr>))
         else Returns s)"

definition QueueService_EndTaskBatching ::
  "thread_id \<Rightarrow> 'v QueueService \<Rightarrow> (task option \<times> 'v QueueService) outcome" where
  "QueueService_EndTaskBatching tid s =
     (case m_taskBatches s tid of
        Some None \<Rightarrow> Crashes NullDereference
      | Some (Some taskBatch) \<Rightarrow>
          (case TaskBatch_TakeEnclosingBatch taskBatch of
             (Some enclosingBatch, b) \<Rightarrow>
               Returns (Some (BatchTask (m_tasks b)),
                        s\<lparr>m_taskBatches := (m_taskBatches s)(tid := Some (Some enclosingBatch))\<rparr>)
           | (None, b) \<Rightarrow>
               Returns (Some (BatchTask (m_tasks b)),
                        s\<lparr>m_taskBatches := (m_taskBatches s)(tid := None)\<rparr>))
      | None \<Rightarrow> Returns (Some (BatchTask (m_tasks TaskBatch_new)), s))"

definition QueueService_HasTaskBatching :: "thread_id \<Rightarrow> 'v QueueService \<Rightarrow> bool" where
  "QueueService_HasTaskBatching tid s \<longleftrightarrow> m_taskBatches s tid \<noteq> None"

section \<open>Suspending, resuming, shutting down\<close>

text \<open>The counter is an \<open>int32_t\<close>; incrementing its largest value has no defined result.\<close>

definition QueueService_Suspend :: "'v QueueService \<Rightarrow> 'v QueueService outcome" where
  "QueueService_Suspend s =
     (if m_suspendCounter s = 2 ^ 31 - 1 then Crashes SignedOverflow
      else Returns (s\<lparr>m_suspendCounter := m_suspendCounter s + 1\<rparr>))"

definition QueueService_Resume :: "'v QueueService \<Rightarrow> (item list \<times> 'v QueueService) outcome" where
  "QueueService_Resume s =
     and_then (verify_else_crash (m_suspendCounter s > 0) ''m_suspendCounter must not be negative'') (\<lambda>_.
       let s1 = s\<lparr>m_suspendCounter := m_suspendCounter s - 1\<rparr>;
           postCount = (if m_suspendCounter s1 = 0 then TaskQueue_Size (m_queue s1) else 0)
       in Returns (replicate postCount (ICallScheduler SchedulerPost), s1))"

definition QueueService_Shutdown ::
  "PendingTaskAction \<Rightarrow> 'v QueueService \<Rightarrow> item list \<times> 'v QueueService" where
  "QueueService_Shutdown pendingTaskAction s =
     (let s1 = s\<lparr>m_shutdownAction := Some pendingTaskAction\<rparr>;
          (tasksToCancel, s2) =
            (if pendingTaskAction = CancelPending
             then (case TaskQueue_DequeueAll (m_queue s1) [] of
                     (b, ts, q) \<Rightarrow> (ts, s1\<lparr>m_queue := q\<rparr>))
             else ([], s1))
      in (concat (map QueueService_CancelTask tasksToCancel) @ [ICallScheduler SchedulerShutdown], s2))"

definition QueueService_AwaitTermination :: "'v QueueService \<Rightarrow> item list \<times> 'v QueueService" where
  "QueueService_AwaitTermination s =
     (case QueueService_Shutdown Complete s of
        (is, s1) \<Rightarrow> (is @ [ICallScheduler SchedulerAwaitTermination], s1))"

section \<open>The scheduler's side\<close>

definition QueueService_HasTasks :: "'v QueueService \<Rightarrow> bool" where
  "QueueService_HasTasks s \<longleftrightarrow> m_suspendCounter s = 0 \<and> \<not> TaskQueue_IsEmpty (m_queue s)"

definition QueueService_TryDequeTask ::
  "'v QueueService \<Rightarrow> task option \<Rightarrow> bool \<times> task option \<times> 'v QueueService" where
  "QueueService_TryDequeTask s task =
     (if m_suspendCounter s = 0
      then (case TaskQueue_TryDequeue (m_queue s) task of
              (b, task', q) \<Rightarrow> (b, task', s\<lparr>m_queue := q\<rparr>))
      else (False, task, s))"

section \<open>Queue local values\<close>

text \<open>
  \<open>SwapQueueLocalValue<TValue>\<close> of \<open>dispatchQueue.h\<close>, the swap callback the header offers:
  a null thread value asks it to delete the queue's value, and it then goes on to swap
  through the null pointer.
\<close>

definition SwapQueueLocalValue ::
  "'v \<Rightarrow> 'v option \<Rightarrow> 'v option \<Rightarrow> ('v option \<times> 'v option) outcome" where
  "SwapQueueLocalValue new_value localValue tlsValue =
     (let localValue1 =
            (if tlsValue = None then None
             else if localValue = None then Some new_value else localValue)
      in case (localValue1, tlsValue) of
           (Some l, Some t) \<Rightarrow> Returns (Some t, Some l)
         | _ \<Rightarrow> Crashes NullDereference)"

definition QueueLocalValueEntry_TrySwapLocalValue ::
  "('v option \<Rightarrow> 'v \<Rightarrow> ('v option \<times> 'v) outcome) \<Rightarrow> 'v \<Rightarrow> LocalValueSwapAction
     \<Rightarrow> 'v QueueLocalValueEntry \<Rightarrow> (bool \<times> 'v \<times> 'v QueueLocalValueEntry) outcome" where
  "QueueLocalValueEntry_TrySwapLocalValue swap tlsValue action e =
     (let go = (\<lambda>e1. case m_swapLocalValue e1 of
                  None \<Rightarrow> Crashes NullDereference
                | Some f \<Rightarrow> and_then (swap (m_data e1) tlsValue) (\<lambda>(d, t).
                              Returns (True, t, e1\<lparr>m_data := d\<rparr>)))
      in if action = Lock \<and> \<not> m_isLocked e then go (e\<lparr>m_isLocked := True\<rparr>)
         else if action = Unlock \<and> m_isLocked e then go (e\<lparr>m_isLocked := False\<rparr>)
         else Returns (False, tlsValue, e))"

definition QueueLocalValueEntry_new :: "nat option \<Rightarrow> 'v QueueLocalValueEntry" where
  "QueueLocalValueEntry_new f = \<lparr>m_swapLocalValue = f, m_data = None, m_isLocked = False\<rparr>"

definition QueueLocalValueEntry_destroy ::
  "('v option \<Rightarrow> 'v option \<Rightarrow> ('v option \<times> 'v option) outcome) \<Rightarrow> 'v QueueLocalValueEntry
     \<Rightarrow> unit outcome" where
  "QueueLocalValueEntry_destroy swap e =
     (case m_swapLocalValue e of
        None \<Rightarrow> Crashes NullDereference
      | Some f \<Rightarrow> and_then (swap (m_data e) None) (\<lambda>_. Returns ()))"

text \<open>
  The key of a local value is the distance of the thread's variable from the thread's
  anchor; the model takes the key itself.
\<close>

definition QueueService_TrySwapLocalValue ::
  "('v option \<Rightarrow> 'v \<Rightarrow> ('v option \<times> 'v) outcome) \<Rightarrow> nat option \<Rightarrow> int \<Rightarrow> 'v \<Rightarrow> LocalValueSwapAction
     \<Rightarrow> 'v QueueService \<Rightarrow> (bool \<times> 'v \<times> 'v QueueService) outcome" where
  "QueueService_TrySwapLocalValue swap swapLocalValue key tlsValue action s =
     (let entries = (case map_of (m_localValues s) key of
             None \<Rightarrow> m_localValues s @ [(key, QueueLocalValueEntry_new swapLocalValue)]
           | Some _ \<Rightarrow> m_localValues s)
      in case map_of entries key of
           None \<Rightarrow> Crashes OutOfBounds
         | Some e \<Rightarrow>
             and_then (QueueLocalValueEntry_TrySwapLocalValue swap tlsValue action e) (\<lambda>(ok, t, e1).
               Returns (ok, t, s\<lparr>m_localValues :=
                 map (\<lambda>(k, e0). if k = key then (k, e1) else (k, e0)) entries\<rparr>)))"

definition QueueService_TryLockQueueLocalValue ::
  "('v option \<Rightarrow> 'v \<Rightarrow> ('v option \<times> 'v) outcome) \<Rightarrow> nat option \<Rightarrow> int \<Rightarrow> 'v
     \<Rightarrow> 'v QueueService \<Rightarrow> (bool \<times> 'v \<times> 'v QueueService) outcome" where
  "QueueService_TryLockQueueLocalValue swap swapLocalValue key tlsValue s =
     QueueService_TrySwapLocalValue swap swapLocalValue key tlsValue Unlock s"

definition QueueService_UnlockLocalValue ::
  "('v option \<Rightarrow> 'v \<Rightarrow> ('v option \<times> 'v) outcome) \<Rightarrow> int \<Rightarrow> 'v
     \<Rightarrow> 'v QueueService \<Rightarrow> ('v \<times> 'v QueueService) outcome" where
  "QueueService_UnlockLocalValue swap key tlsValue s =
     and_then (QueueService_TrySwapLocalValue swap None key tlsValue Unlock s)
       (\<lambda>(ok, t, s1). Returns (t, s1))"

fun destroy_local_values ::
  "('v option \<Rightarrow> 'v option \<Rightarrow> ('v option \<times> 'v option) outcome)
     \<Rightarrow> (int \<times> 'v QueueLocalValueEntry) list \<Rightarrow> unit outcome" where
  "destroy_local_values swap [] = Returns ()"
| "destroy_local_values swap ((k, e) # es) =
     and_then (QueueLocalValueEntry_destroy swap e) (\<lambda>_. destroy_local_values swap es)"

text \<open>
  The destructor calls \<open>AwaitTermination\<close>, whose calls are left to the caller as ever, and then
  destroys the members: the local values first, the task queue later.
\<close>

definition QueueService_destroy ::
  "('v option \<Rightarrow> 'v option \<Rightarrow> ('v option \<times> 'v option) outcome) \<Rightarrow> 'v QueueService
     \<Rightarrow> (item list \<times> unit outcome)" where
  "QueueService_destroy swap s =
     (case QueueService_AwaitTermination s of
        (is, s1) \<Rightarrow> (is, and_then (destroy_local_values swap (m_localValues s1)) (\<lambda>_. TaskQueue_destroy (m_queue s1))))"

lemmas service_defs =
  QueueService_Post_def QueueService_CancelTask_def QueueService_BeginTaskBatching_def
  QueueService_EndTaskBatching_def QueueService_Suspend_def QueueService_Resume_def
  QueueService_Shutdown_def QueueService_AwaitTermination_def QueueService_TryDequeTask_def

end
