(* ===== verification/Queue_System.thy ===== *)
theory Queue_System
  imports Queue_Service
begin

text \<open>
  A dispatch queue in use: any number of threads calling the methods of \<open>Queue_Service\<close>,
  tasks whose bodies call them again, and the scheduler's threads taking tasks out. Each
  thread has the stack of what it still has to do; one step lets one thread execute the
  next entry of its stack, so every interleaving of the lock-protected parts is a run.

  User code is the argument \<open>env\<close>: what each user task does when it is invoked or
  cancelled, written as the list of calls it makes on the queue, and what the scheduler
  answers to \<open>HasThreadAccess\<close>.
\<close>

section \<open>Calls and their execution\<close>

datatype call =
    CPost "task option"
  | CInvokeElsePost "task option"
  | CDeferElsePost "task option"
  | CBeginTaskBatching
  | CBatchPost
  | CBatchInvokeElsePost
  | CBatchDeferElsePost
  | CBatchCancel
  | CSuspend
  | CResume
  | CShutdown PendingTaskAction
  | CAwaitTermination
  | CRunTasks "int option"

datatype work = WItem item | WCall call

datatype event =
    Submitted "task option"
  | Invoked nat
  | Cancelled nat
  | Dropped nat
  | Dequeued
  | SchedulerCalled scheduler_call

record env =
  this_queue :: nat
  invoke_body :: "nat \<Rightarrow> call list"
  cancel_body :: "nat \<Rightarrow> call list"
  thread_access :: "thread_id \<Rightarrow> bool"

record 'v world =
  service :: "'v QueueService"
  contexts :: "thread_id \<Rightarrow> TaskContext list"
  stack :: "thread_id \<Rightarrow> work list"
  log :: "event list"

text \<open>\<open>task.Get()->Invoke()\<close>; a batch invokes its tasks in order.\<close>

fun exec_invoke :: "env \<Rightarrow> task option \<Rightarrow> (work list \<times> event list) outcome" where
  "exec_invoke env None = Crashes NullDereference"
| "exec_invoke env (Some (UserTask i)) = Returns (map WCall (invoke_body env i), [Invoked i])"
| "exec_invoke env (Some (CancellableTask i)) = Returns (map WCall (invoke_body env i), [Invoked i])"
| "exec_invoke env (Some (BatchTask ts)) = Returns (map (WItem \<circ> IInvoke) ts, [])"

text \<open>
  The cancellation of a task: \<open>OnCancel()\<close> of one that listens, the mere destruction of one
  that does not; a batch passes it on to each of its tasks in order.
\<close>

fun exec_cancel :: "env \<Rightarrow> task option \<Rightarrow> work list \<times> event list" where
  "exec_cancel env None = ([], [])"
| "exec_cancel env (Some (UserTask i)) = ([], [Dropped i])"
| "exec_cancel env (Some (CancellableTask i)) = (map WCall (cancel_body env i), [Cancelled i])"
| "exec_cancel env (Some (BatchTask ts)) = (map (WItem \<circ> ICancel) ts, [])"

fun exec_item :: "env \<Rightarrow> thread_id \<Rightarrow> item \<Rightarrow> 'v world \<Rightarrow> (work list \<times> 'v world) outcome" where
  "exec_item env tid (ICallScheduler c) w = Returns ([], w\<lparr>log := log w @ [SchedulerCalled c]\<rparr>)"
| "exec_item env tid (IInvoke t) w =
     and_then (exec_invoke env t) (\<lambda>(ws, es). Returns (ws, w\<lparr>log := log w @ es\<rparr>))"
| "exec_item env tid (ICancel t) w =
     (case exec_cancel env t of (ws, es) \<Rightarrow> Returns (ws, w\<lparr>log := log w @ es\<rparr>))"
| "exec_item env tid IDrainDeferred w =
     and_then (QueueService_DrainDeferred (contexts w tid)) (\<lambda>(is, tls).
       Returns (map WItem is, w\<lparr>contexts := (contexts w)(tid := tls)\<rparr>))"

text \<open>\<open>CRunTasks\<close> is the loop the schedulers run: dequeue, invoke, repeat.\<close>

fun exec_call :: "env \<Rightarrow> thread_id \<Rightarrow> call \<Rightarrow> 'v world \<Rightarrow> (work list \<times> 'v world) outcome" where
  "exec_call env tid (CPost t) w =
     and_then (QueueService_Post tid t (service w)) (\<lambda>(is, s).
       Returns (map WItem is, w\<lparr>service := s, log := log w @ [Submitted t]\<rparr>))"
| "exec_call env tid (CInvokeElsePost t) w =
     and_then (QueueService_InvokeElsePost (this_queue env) (thread_access env tid) tid t
                 (contexts w tid) (service w)) (\<lambda>(is, tls, s).
       Returns (map WItem is, w\<lparr>service := s, contexts := (contexts w)(tid := tls),
                                log := log w @ [Submitted t]\<rparr>))"
| "exec_call env tid (CDeferElsePost t) w =
     and_then (QueueService_DeferElsePost (this_queue env) tid t (contexts w tid) (service w))
       (\<lambda>(is, tls, s).
       Returns (map WItem is, w\<lparr>service := s, contexts := (contexts w)(tid := tls),
                                log := log w @ [Submitted t]\<rparr>))"
| "exec_call env tid CBeginTaskBatching w =
     and_then (QueueService_BeginTaskBatching tid (service w)) (\<lambda>s. Returns ([], w\<lparr>service := s\<rparr>))"
| "exec_call env tid CBatchPost w =
     and_then (QueueService_EndTaskBatching tid (service w)) (\<lambda>(t, s).
     and_then (QueueService_Post tid t s) (\<lambda>(is, s1).
       Returns (map WItem is, w\<lparr>service := s1\<rparr>)))"
| "exec_call env tid CBatchInvokeElsePost w =
     and_then (QueueService_EndTaskBatching tid (service w)) (\<lambda>(t, s).
     and_then (QueueService_InvokeElsePost (this_queue env) (thread_access env tid) tid t
                 (contexts w tid) s) (\<lambda>(is, tls, s1).
       Returns (map WItem is, w\<lparr>service := s1, contexts := (contexts w)(tid := tls)\<rparr>)))"
| "exec_call env tid CBatchDeferElsePost w =
     and_then (QueueService_EndTaskBatching tid (service w)) (\<lambda>(t, s).
     and_then (QueueService_DeferElsePost (this_queue env) tid t (contexts w tid) s) (\<lambda>(is, tls, s1).
       Returns (map WItem is, w\<lparr>service := s1, contexts := (contexts w)(tid := tls)\<rparr>)))"
| "exec_call env tid CBatchCancel w =
     and_then (QueueService_EndTaskBatching tid (service w)) (\<lambda>(t, s).
       Returns (map WItem (QueueService_CancelTask t), w\<lparr>service := s\<rparr>))"
| "exec_call env tid CSuspend w =
     and_then (QueueService_Suspend (service w)) (\<lambda>s. Returns ([], w\<lparr>service := s\<rparr>))"
| "exec_call env tid CResume w =
     and_then (QueueService_Resume (service w)) (\<lambda>(is, s).
       Returns (map WItem is, w\<lparr>service := s\<rparr>))"
| "exec_call env tid (CShutdown a) w =
     (case QueueService_Shutdown a (service w) of (is, s) \<Rightarrow>
       Returns (map WItem is, w\<lparr>service := s\<rparr>))"
| "exec_call env tid CAwaitTermination w =
     (case QueueService_AwaitTermination (service w) of (is, s) \<Rightarrow>
       Returns (map WItem is, w\<lparr>service := s\<rparr>))"
| "exec_call env tid (CRunTasks endTime) w =
     (case QueueService_TryDequeTask (service w) None of
        (True, t, s) \<Rightarrow>
          (case QueueService_InvokeTask (this_queue env) t endTime (contexts w tid) of (is, tls) \<Rightarrow>
             Returns (map WItem is @ [WCall (CRunTasks endTime)],
                      w\<lparr>service := s, contexts := (contexts w)(tid := tls), log := log w @ [Dequeued]\<rparr>))
      | (False, t, s) \<Rightarrow> Returns ([], w\<lparr>service := s\<rparr>))"

fun exec_work :: "env \<Rightarrow> thread_id \<Rightarrow> work \<Rightarrow> 'v world \<Rightarrow> (work list \<times> 'v world) outcome" where
  "exec_work env tid (WItem i) w = exec_item env tid i w"
| "exec_work env tid (WCall c) w = exec_call env tid c w"

section \<open>Runs\<close>

definition initial_world :: "nat \<Rightarrow> (thread_id \<Rightarrow> TaskContext list) \<Rightarrow> 'v world" where
  "initial_world this base =
     \<lparr>service = QueueService_new this, contexts = base, stack = (\<lambda>_. []), log = []\<rparr>"

text \<open>
  A step: a thread that has nothing left starts on a list of calls (a client's code, or a
  scheduler thread's loop), or a thread executes its next entry. The calls clients may
  start with are those of a predicate \<open>allowed\<close>; the theorems say what they need of it.
\<close>

inductive sys_step :: "(call \<Rightarrow> bool) \<Rightarrow> env \<Rightarrow> nat \<Rightarrow> 'v world \<Rightarrow> 'v world \<Rightarrow> bool"
  for allowed env n where
  start: "tid < n \<Longrightarrow> stack w tid = [] \<Longrightarrow> list_all allowed cs \<Longrightarrow>
     sys_step allowed env n w (w\<lparr>stack := (stack w)(tid := map WCall cs)\<rparr>)"
| exec: "tid < n \<Longrightarrow> stack w tid = x # xs \<Longrightarrow> exec_work env tid x w = Returns (new, w1) \<Longrightarrow>
     sys_step allowed env n w (w1\<lparr>stack := (stack w1)(tid := new @ xs)\<rparr>)"

inductive sys_reachable ::
    "(call \<Rightarrow> bool) \<Rightarrow> env \<Rightarrow> nat \<Rightarrow> (thread_id \<Rightarrow> TaskContext list) \<Rightarrow> 'v world \<Rightarrow> bool"
  for allowed env n base where
  initial: "sys_reachable allowed env n base (initial_world (this_queue env) base)"
| step: "sys_reachable allowed env n base w \<Longrightarrow> sys_step allowed env n w w' \<Longrightarrow>
     sys_reachable allowed env n base w'"

inductive_cases sys_stepE: "sys_step allowed env n w w'"

text \<open>
  The bodies of the tasks make allowed calls only, and the contexts a thread starts with
  belong to other queues.
\<close>

definition env_allows :: "(call \<Rightarrow> bool) \<Rightarrow> env \<Rightarrow> bool" where
  "env_allows allowed env \<longleftrightarrow>
     (\<forall>i. list_all allowed (invoke_body env i) \<and> list_all allowed (cancel_body env i))"

definition foreign_base :: "env \<Rightarrow> (thread_id \<Rightarrow> TaskContext list) \<Rightarrow> bool" where
  "foreign_base env base \<longleftrightarrow> (\<forall>tid. \<forall>c \<in> set (base tid). ctx_queue c \<noteq> this_queue env)"

text \<open>At most \<open>k\<close> steps of one thread, to evaluate scenarios.\<close>

fun run_thread :: "env \<Rightarrow> nat \<Rightarrow> thread_id \<Rightarrow> 'v world \<Rightarrow> 'v world outcome" where
  "run_thread env 0 tid w = Returns w"
| "run_thread env (Suc k) tid w =
     (case stack w tid of
        [] \<Rightarrow> Returns w
      | x # xs \<Rightarrow>
          and_then (exec_work env tid x w) (\<lambda>(new, w1).
            run_thread env k tid (w1\<lparr>stack := (stack w1)(tid := new @ xs)\<rparr>)))"

lemma run_thread_steps:
  "run_thread env k tid w = Returns w' \<Longrightarrow> tid < n \<Longrightarrow> (sys_step allowed env n)\<^sup>*\<^sup>* w w'"
proof (induction k arbitrary: w)
  case (Suc k)
  show ?case
  proof (cases "stack w tid")
    case (Cons x xs)
    with Suc.prems obtain new w1 where e: "exec_work env tid x w = Returns (new, w1)"
      and r: "run_thread env k tid (w1\<lparr>stack := (stack w1)(tid := new @ xs)\<rparr>) = Returns w'"
      by (auto simp: outcome_simps)
    from Suc.prems(2) Cons e have "sys_step allowed env n w (w1\<lparr>stack := (stack w1)(tid := new @ xs)\<rparr>)"
      by (rule sys_step.exec)
    with Suc.IH [OF r Suc.prems(2)] show ?thesis by (rule converse_rtranclp_into_rtranclp [rotated])
  qed (use Suc.prems in simp)
qed simp

lemma sys_reachable_steps:
  "(sys_step allowed env n)\<^sup>*\<^sup>* w w' \<Longrightarrow> sys_reachable allowed env n base w \<Longrightarrow>
     sys_reachable allowed env n base w'"
  by (induction rule: rtranclp_induct) (auto intro: sys_reachable.step)

section \<open>The invariant of the service\<close>

text \<open>
  The task queue is well formed and holds no empty functor, the suspend counter is in
  range, and no thread ever has a batch: \<open>BeginTaskBatching\<close> crashes instead of making one.
\<close>

definition service_inv :: "'v QueueService \<Rightarrow> bool" where
  "service_inv s \<longleftrightarrow> queue_inv (m_queue s) \<and> None \<notin> set (queue_content (m_queue s))
     \<and> 0 \<le> m_suspendCounter s \<and> m_suspendCounter s < 2 ^ 31 \<and> m_taskBatches s = (\<lambda>_. None)"

definition queue_tokens :: "'v QueueService \<Rightarrow> nat multiset" where
  "queue_tokens s = list_tokens (queue_content (m_queue s))"

fun work_tokens :: "work \<Rightarrow> nat multiset" where
  "work_tokens (WItem (IInvoke t)) = opt_tokens t"
| "work_tokens (WItem (ICancel t)) = opt_tokens t"
| "work_tokens _ = {#}"

definition works_tokens :: "work list \<Rightarrow> nat multiset" where
  "works_tokens ws = sum_list (map work_tokens ws)"

lemma works_tokens_simps [simp]:
  "works_tokens [] = {#}" "works_tokens (x # ws) = work_tokens x + works_tokens ws"
  "works_tokens (ws @ vs) = works_tokens ws + works_tokens vs"
  "works_tokens (map WCall cs) = {#}"
  "works_tokens (map (WItem \<circ> IInvoke) ts) = list_tokens ts"
  "works_tokens (map (WItem \<circ> ICancel) ts) = list_tokens ts"
  "works_tokens (replicate k (WItem (ICallScheduler c))) = {#}"
proof -
  show "works_tokens (map WCall cs) = {#}" by (induction cs) (simp_all add: works_tokens_def)
  show "works_tokens (map (WItem \<circ> IInvoke) ts) = list_tokens ts"
    by (induction ts) (simp_all add: works_tokens_def list_tokens_def)
  show "works_tokens (map (WItem \<circ> ICancel) ts) = list_tokens ts"
    by (induction ts) (simp_all add: works_tokens_def list_tokens_def)
  show "works_tokens (replicate k (WItem (ICallScheduler c))) = {#}"
    by (induction k) (simp_all add: works_tokens_def)
qed (simp_all add: works_tokens_def)

definition drains :: "work list \<Rightarrow> nat" where
  "drains ws = length (filter (\<lambda>x. x = WItem IDrainDeferred) ws)"

lemma drains_simps [simp]:
  "drains [] = 0" "drains (x # ws) = (if x = WItem IDrainDeferred then 1 else 0) + drains ws"
  "drains (ws @ vs) = drains ws + drains vs" "drains (map WCall cs) = 0"
  "drains (map (WItem \<circ> IInvoke) ts) = 0" "drains (map (WItem \<circ> ICancel) ts) = 0"
  "drains (replicate k (WItem (ICallScheduler c))) = 0"
  by (simp_all add: drains_def)

lemma service_inv_new [simp]: "service_inv (QueueService_new this)"
  by (simp add: service_inv_def QueueService_new_def)

text \<open>\<open>Post\<close>: into the queue, or to cancellation once the queue is shut down.\<close>

lemma Post_cases:
  assumes "QueueService_Post tid t s = Returns (is, s')" and "service_inv s"
  obtains (queued) u where "t = Some u" and "m_shutdownAction s = None"
      and "s' = s\<lparr>m_queue := TaskQueue_Enqueue self_strong t (m_queue s)\<rparr>"
      and "is = (if m_suspendCounter s = 0 then [ICallScheduler SchedulerPost] else [])"
    | (refused) u where "t = Some u" and "m_shutdownAction s \<noteq> None" and "s' = s" and "is = [ICancel t]"
proof (cases t)
  case None
  with assms show thesis by (simp add: QueueService_Post_def)
next
  case (Some u)
  from assms(2) have "m_taskBatches s tid = None" by (simp add: service_inv_def)
  note post = assms(1) [unfolded QueueService_Post_def QueueService_CancelTask_def this]
  show thesis
  proof (cases "m_shutdownAction s")
    case None
    with post Some have
      "s' = s\<lparr>m_queue := TaskQueue_Enqueue self_strong t (m_queue s)\<rparr>"
      "is = (if m_suspendCounter s = 0 then [ICallScheduler SchedulerPost] else [])"
      by (simp_all add: Let_def split: if_splits)
    with Some None show thesis by (rule that(1))
  next
    case (Some a)
    with post \<open>t = Some u\<close> have "s' = s" "is = [ICancel t]" by (simp_all add: Let_def)
    with \<open>t = Some u\<close> Some show thesis by (intro that(2)) simp_all
  qed
qed

lemma Post_inv [component_inv]:
  "QueueService_Post tid t s = Returns (is, s') \<Longrightarrow> service_inv s \<Longrightarrow> service_inv s'"
  by (erule (1) Post_cases) (auto simp: service_inv_def component_inv)

lemma Post_tokens:
  "QueueService_Post tid t s = Returns (is, s') \<Longrightarrow> service_inv s \<Longrightarrow>
     queue_tokens s' + works_tokens (map WItem is) = queue_tokens s + opt_tokens t"
  by (erule (1) Post_cases) (auto simp: queue_tokens_def)

lemma Post_drains:
  "QueueService_Post tid t s = Returns (is, s') \<Longrightarrow> service_inv s \<Longrightarrow> drains (map WItem is) = 0"
  by (erule (1) Post_cases) auto

lemma EndTaskBatching_eq [simp]:
  "service_inv s \<Longrightarrow> QueueService_EndTaskBatching tid s = Returns (Some (BatchTask []), s)"
  by (simp add: QueueService_EndTaskBatching_def service_inv_def TaskBatch_new_def)

lemma BeginTaskBatching_crashes:
  "service_inv s \<Longrightarrow> QueueService_BeginTaskBatching tid s = Crashes NullDereference"
  by (simp add: QueueService_BeginTaskBatching_def service_inv_def)

lemma Suspend_inv [component_inv]:
  "QueueService_Suspend s = Returns s' \<Longrightarrow> service_inv s \<Longrightarrow> service_inv s'"
  by (auto simp: QueueService_Suspend_def service_inv_def split: if_splits)

lemma Resume_cases:
  assumes "QueueService_Resume s = Returns (is, s')"
  obtains "m_suspendCounter s > 0" and "s' = s\<lparr>m_suspendCounter := m_suspendCounter s - 1\<rparr>"
    and "is = replicate (if m_suspendCounter s = 1 then TaskQueue_Size (m_queue s) else 0)
                 (ICallScheduler SchedulerPost)"
  using assms by (auto simp: QueueService_Resume_def Let_def outcome_simps split: if_splits)

lemma Resume_inv [component_inv]:
  "QueueService_Resume s = Returns (is, s') \<Longrightarrow> service_inv s \<Longrightarrow> service_inv s'"
  by (erule Resume_cases) (auto simp: service_inv_def)

lemma Shutdown_Complete:
  "QueueService_Shutdown Complete s =
     ([ICallScheduler SchedulerShutdown], s\<lparr>m_shutdownAction := Some Complete\<rparr>)"
  by (simp add: QueueService_Shutdown_def)

lemma concat_map_cancel: "concat (map QueueService_CancelTask ts) = map ICancel ts"
  by (induction ts) (simp_all add: QueueService_CancelTask_def)

lemma Shutdown_Cancel_cases:
  assumes "service_inv s" and "QueueService_Shutdown CancelPending s = (is, s')"
  obtains q where "is = map ICancel (queue_content (m_queue s)) @ [ICallScheduler SchedulerShutdown]"
    and "s' = s\<lparr>m_shutdownAction := Some CancelPending, m_queue := q\<rparr>"
    and "queue_content q = []" and "queue_inv q"
proof -
  obtain b ts q where d: "TaskQueue_DequeueAll (m_queue s) [] = (b, ts, q)"
    using prod_cases3 by blast
  from assms(1) have "queue_inv (m_queue s)" by (simp add: service_inv_def)
  note all = TaskQueue_DequeueAll_content [OF this d]
  from d assms(2) have "is = map ICancel ts @ [ICallScheduler SchedulerShutdown]"
    and "s' = s\<lparr>m_shutdownAction := Some CancelPending, m_queue := q\<rparr>"
    by (auto simp: QueueService_Shutdown_def Let_def concat_map_cancel)
  with all that show thesis by simp
qed

lemma Shutdown_inv [component_inv]:
  "QueueService_Shutdown a s = (is, s') \<Longrightarrow> service_inv s \<Longrightarrow> service_inv s'"
proof (cases a)
  case Complete
  then show "QueueService_Shutdown a s = (is, s') \<Longrightarrow> service_inv s \<Longrightarrow> service_inv s'"
    by (auto simp: Shutdown_Complete service_inv_def)
next
  case CancelPending
  assume "QueueService_Shutdown a s = (is, s')" and inv: "service_inv s"
  with CancelPending obtain q where
    "s' = s\<lparr>m_shutdownAction := Some CancelPending, m_queue := q\<rparr>" "queue_content q = []" "queue_inv q"
    by (auto elim: Shutdown_Cancel_cases)
  with inv show "service_inv s'" by (simp add: service_inv_def)
qed

lemma Shutdown_tokens:
  assumes "QueueService_Shutdown a s = (is, s')" and "service_inv s"
  shows "queue_tokens s' + works_tokens (map WItem is) = queue_tokens s \<and> drains (map WItem is) = 0"
proof (cases a)
  case Complete
  with assms show ?thesis by (auto simp: Shutdown_Complete queue_tokens_def)
next
  case CancelPending
  with assms obtain q where
    "is = map ICancel (queue_content (m_queue s)) @ [ICallScheduler SchedulerShutdown]"
    "s' = s\<lparr>m_shutdownAction := Some CancelPending, m_queue := q\<rparr>" "queue_content q = []"
    by (auto elim: Shutdown_Cancel_cases)
  moreover have "map WItem (map ICancel ts) = map (WItem \<circ> ICancel) ts" for ts by simp
  ultimately show ?thesis by (simp add: queue_tokens_def del: map_map)
qed

text \<open>\<open>TryDequeTask\<close>: the oldest task, and only while the queue is not suspended.\<close>

lemma TryDequeTask_cases:
  assumes "service_inv s"
  obtains (none) "QueueService_TryDequeTask s None = (False, None, s)"
      and "m_suspendCounter s > 0 \<or> queue_content (m_queue s) = []"
    | (task) u q ts where
      "QueueService_TryDequeTask s None = (True, Some u, s\<lparr>m_queue := q\<rparr>)"
      and "m_suspendCounter s = 0" and "queue_content (m_queue s) = Some u # ts"
      and "queue_content q = ts" and "queue_inv q"
proof (cases "m_suspendCounter s = 0 \<and> queue_content (m_queue s) \<noteq> []")
  case True
  then obtain t ts where c: "queue_content (m_queue s) = t # ts" by (meson neq_Nil_conv)
  with assms obtain u where t: "t = Some u" by (cases t) (auto simp: service_inv_def)
  from assms have "queue_inv (m_queue s)" by (simp add: service_inv_def)
  from this c obtain q where "TaskQueue_TryDequeue (m_queue s) None = (True, t, q)"
    "queue_inv q" "queue_content q = ts" by (rule TaskQueue_TryDequeue_Cons)
  with True t c that(2) show thesis by (simp add: QueueService_TryDequeTask_def)
next
  case False
  with assms that(1) show thesis
    by (auto simp: QueueService_TryDequeTask_def service_inv_def TaskQueue_TryDequeue_empty)
qed

section \<open>Context stacks\<close>

text \<open>
  Above the contexts a thread started with there is one context of this queue for every
  drain loop the thread still has to finish.
\<close>

definition ctxs_ok :: "nat \<Rightarrow> TaskContext list \<Rightarrow> TaskContext list \<Rightarrow> nat \<Rightarrow> bool" where
  "ctxs_ok this base tls k \<longleftrightarrow>
     (\<exists>pushed. tls = pushed @ base \<and> length pushed = k
        \<and> (\<forall>c \<in> set pushed. ctx_inv c \<and> ctx_queue c = this))"

definition ctx_tokens :: "nat \<Rightarrow> TaskContext list \<Rightarrow> nat multiset" where
  "ctx_tokens this tls =
     sum_list (map (list_tokens \<circ> ctx_pending) (filter (\<lambda>c. ctx_queue c = this) tls))"

lemma ctx_tokens_simps [simp]:
  "ctx_tokens this [] = {#}"
  "ctx_tokens this (c # cs) =
     (if ctx_queue c = this then list_tokens (ctx_pending c) else {#}) + ctx_tokens this cs"
  by (simp_all add: ctx_tokens_def)

lemma ctx_queue_simps [simp]:
  "ctx_queue (TaskContext_new q e) = q" "ctx_queue (TaskContext_Defer t c) = ctx_queue c"
  by (simp_all add: TaskContext_new_def TaskContext_Defer_def)

lemma ctxs_ok_base [simp]: "ctxs_ok this base base 0"
  by (simp add: ctxs_ok_def)

lemma ctxs_ok_push:
  "ctxs_ok this base tls k \<Longrightarrow> ctxs_ok this base (TaskContext_enter this e tls) (Suc k)"
  unfolding ctxs_ok_def TaskContext_enter_def
  by (elim exE, rule_tac x = "TaskContext_new this e # pushed" in exI) simp

lemma ctxs_ok_Suc:
  assumes "ctxs_ok this base tls (Suc k)"
  obtains c cs where "tls = c # cs" and "ctx_inv c" and "ctx_queue c = this" and "ctxs_ok this base cs k"
  using assms by (auto simp: ctxs_ok_def length_Suc_conv)

lemma ctxs_ok_Cons:
  "ctxs_ok this base cs k \<Longrightarrow> ctx_inv c \<Longrightarrow> ctx_queue c = this \<Longrightarrow> ctxs_ok this base (c # cs) (Suc k)"
  unfolding ctxs_ok_def by (elim exE, rule_tac x = "c # pushed" in exI) simp

text \<open>
  When the queue is the current one of a thread, the head of the thread's contexts is one
  of this queue's.
\<close>

lemma CurrentQueue_this:
  assumes "ctxs_ok this base tls k" and "\<forall>c \<in> set base. ctx_queue c \<noteq> this"
    and "TaskContext_CurrentQueue tls = Some this"
  obtains c cs j where "tls = c # cs" and "ctx_inv c" and "ctx_queue c = this" and "k = Suc j"
    and "ctxs_ok this base cs j"
proof (cases k)
  case 0
  with assms have "tls = base" by (simp add: ctxs_ok_def)
  with assms(2,3) show thesis
    by (cases base) (auto simp: TaskContext_CurrentQueue_def TaskContext_CurrentContext_def)
next
  case (Suc j)
  with assms(1) that show thesis by (auto elim: ctxs_ok_Suc)
qed

lemma ctxs_ok_take:
  assumes "ctxs_ok this base tls (Suc k)"
  shows "(\<exists>t c cs c'. tls = c # cs \<and> QueueService_DrainDeferred tls = Returns ([IInvoke (Some t), IDrainDeferred], c' # cs)
            \<and> ctxs_ok this base (c' # cs) (Suc k)
            \<and> ctx_tokens this tls = task_tokens t + ctx_tokens this (c' # cs))
       \<or> (\<exists>c cs. tls = c # cs \<and> QueueService_DrainDeferred tls = Returns ([], cs)
            \<and> ctxs_ok this base cs k \<and> ctx_tokens this tls = ctx_tokens this cs)"
proof -
  from assms obtain c cs where tls: "tls = c # cs" and inv: "ctx_inv c"
    and q: "ctx_queue c = this" and ok: "ctxs_ok this base cs k"
    by (rule ctxs_ok_Suc)
  show ?thesis
  proof (cases "ctx_pending c")
    case Nil
    with inv q ok tls show ?thesis
      by (simp add: QueueService_DrainDeferred_def TakeNextDeferred_Nil TaskContext_leave_def)
  next
    case (Cons t ts)
    with inv obtain c' where "TaskContext_TakeNextDeferredTask c = (t, c')" "ctx_pending c' = ts"
      "ctx_inv c'" "t \<noteq> None" "ctx_queue c' = ctx_queue c" by (rule TakeNextDeferred_Cons)
    moreover from this obtain u where "t = Some u" by auto
    ultimately show ?thesis using Cons q ok tls
      by (intro disjI1 exI [of _ u] exI [of _ c] exI [of _ cs] exI [of _ c'])
        (simp add: QueueService_DrainDeferred_def ctxs_ok_Cons)
  qed
qed

section \<open>What one entry does to the invariants and the tasks\<close>

text \<open>
  The tasks a log has seen submitted, and those it has seen to an end: invoked, cancelled,
  or destroyed by a cancellation they do not listen to.
\<close>

fun submitted_of :: "event \<Rightarrow> nat multiset" where
  "submitted_of (Submitted t) = opt_tokens t"
| "submitted_of _ = {#}"

fun finished_of :: "event \<Rightarrow> nat multiset" where
  "finished_of (Invoked i) = {#i#}"
| "finished_of (Cancelled i) = {#i#}"
| "finished_of (Dropped i) = {#i#}"
| "finished_of _ = {#}"

definition submitted :: "event list \<Rightarrow> nat multiset" where
  "submitted es = sum_list (map submitted_of es)"

definition finished :: "event list \<Rightarrow> nat multiset" where
  "finished es = sum_list (map finished_of es)"

lemma log_tokens_simps [simp]:
  "submitted [] = {#}" "submitted (es @ fs) = submitted es + submitted fs"
  "submitted (e # es) = submitted_of e + submitted es"
  "finished [] = {#}" "finished (es @ fs) = finished es + finished fs"
  "finished (e # es) = finished_of e + finished es"
  by (simp_all add: submitted_def finished_def)

text \<open>
  Calls whose task is never an empty functor where the code does not check: \<open>Post\<close> verifies
  its task, \<open>DeferElsePost\<close> does not.
\<close>

fun defers_nonempty :: "call \<Rightarrow> bool" where
  "defers_nonempty (CDeferElsePost t) = (t \<noteq> None)"
| "defers_nonempty _ = True"

text \<open>
  One entry \<open>x\<close>, executed by a thread that has \<open>k\<close> further drain loops to finish, leaves
  the service and the contexts in order, and moves tasks without losing or copying any.
\<close>

definition entry_ok ::
  "env \<Rightarrow> TaskContext list \<Rightarrow> nat \<Rightarrow> thread_id \<Rightarrow> work \<Rightarrow> work list \<Rightarrow> 'v world \<Rightarrow> 'v world \<Rightarrow> bool" where
  "entry_ok env base k tid x new w w1 \<longleftrightarrow>
     service_inv (service w1)
   \<and> ctxs_ok (this_queue env) base (contexts w1 tid) (drains new + k)
   \<and> submitted (log w1) + queue_tokens (service w) + ctx_tokens (this_queue env) (contexts w tid)
        + work_tokens x + finished (log w)
     = submitted (log w) + queue_tokens (service w1) + ctx_tokens (this_queue env) (contexts w1 tid)
        + works_tokens new + finished (log w1)"

lemma exec_item_ok:
  assumes inv: "service_inv (service w)"
    and ctx: "ctxs_ok (this_queue env) base (contexts w tid) (drains [WItem i] + k)"
    and exec: "exec_item env tid i w = Returns (new, w1)"
  shows "entry_ok env base k tid (WItem i) new w w1"
proof (cases i)
  case (ICallScheduler c)
  with assms show ?thesis by (auto simp: entry_ok_def)
next
  case (IInvoke t)
  with assms show ?thesis
    by (cases "(env, t)" rule: exec_invoke.cases) (auto simp: entry_ok_def)
next
  case (ICancel t)
  with assms show ?thesis
    by (cases "(env, t)" rule: exec_cancel.cases) (auto simp: entry_ok_def)
next
  case IDrainDeferred
  with ctx have "ctxs_ok (this_queue env) base (contexts w tid) (Suc k)" by simp
  from ctxs_ok_take [OF this] IDrainDeferred inv exec show ?thesis
    by (elim disjE exE conjE) (auto simp: entry_ok_def)
qed

text \<open>The three ways a task reaches the queue, for any task that is not empty.\<close>

lemma InvokeElsePost_ok:
  assumes inv: "service_inv s" and ctx: "ctxs_ok this base tls k"
    and exec: "QueueService_InvokeElsePost this access tid t tls s = Returns (is, tls', s')"
  shows "service_inv s' \<and> ctxs_ok this base tls' (drains (map WItem is) + k)
    \<and> queue_tokens s' + ctx_tokens this tls' + works_tokens (map WItem is)
      = queue_tokens s + ctx_tokens this tls + opt_tokens t"
proof (cases access)
  case True
  with assms show ?thesis
    by (auto simp: QueueService_InvokeElsePost_def QueueService_InvokeTask_def ctxs_ok_push
        TaskContext_enter_def [symmetric] split: if_splits) (auto simp: TaskContext_enter_def)
next
  case False
  with assms show ?thesis
    by (auto simp: QueueService_InvokeElsePost_def outcome_simps Post_drains component_inv
        dest: Post_tokens)
qed

lemma DeferElsePost_ok:
  assumes inv: "service_inv s" and ctx: "ctxs_ok this base tls k"
    and base: "\<forall>c \<in> set base. ctx_queue c \<noteq> this" and t: "t \<noteq> None"
    and exec: "QueueService_DeferElsePost this tid t tls s = Returns (is, tls', s')"
  shows "service_inv s' \<and> ctxs_ok this base tls' (drains (map WItem is) + k)
    \<and> queue_tokens s' + ctx_tokens this tls' + works_tokens (map WItem is)
      = queue_tokens s + ctx_tokens this tls + opt_tokens t"
proof (cases "TaskContext_CurrentQueue tls = Some this")
  case True
  with ctx base obtain c cs j where tls: "tls = c # cs" and c: "ctx_inv c" "ctx_queue c = this"
    and k: "k = Suc j" and cs: "ctxs_ok this base cs j" by (rule CurrentQueue_this)
  from t obtain u where u: "t = Some u" by auto
  from exec True tls have "is = []" "s' = s" "tls' = TaskContext_Defer t c # cs"
    by (simp_all add: QueueService_DeferElsePost_def)
  moreover have "ctxs_ok this base (TaskContext_Defer t c # cs) (Suc j)"
    using c cs u by (auto intro!: ctxs_ok_Cons component_inv)
  moreover have "m_readIndex c \<le> length (m_deferQueue c)" using c by (simp add: ctx_inv_def)
  ultimately show ?thesis using inv c tls k by (simp add: ac_simps)
next
  case False
  with assms show ?thesis
    by (auto simp: QueueService_DeferElsePost_def outcome_simps Post_drains component_inv
        dest: Post_tokens)
qed

lemma RunTasks_ok:
  assumes inv: "service_inv (service w)"
    and ctx: "ctxs_ok (this_queue env) base (contexts w tid) k"
    and exec: "exec_call env tid (CRunTasks e) w = Returns (new, w1)"
  shows "entry_ok env base k tid (WCall (CRunTasks e)) new w w1"
  using inv
proof (cases rule: TryDequeTask_cases)
  case none
  with assms show ?thesis by (simp add: entry_ok_def)
next
  case (task u q ts)
  with exec have "new = [WItem (IInvoke (Some u)), WItem IDrainDeferred, WCall (CRunTasks e)]"
    and "w1 = w\<lparr>service := (service w)\<lparr>m_queue := q\<rparr>,
      contexts := (contexts w)(tid := TaskContext_enter (this_queue env) e (contexts w tid)),
      log := log w @ [Dequeued]\<rparr>"
    by (simp_all add: QueueService_InvokeTask_def)
  moreover have "service_inv ((service w)\<lparr>m_queue := q\<rparr>)"
    using inv task by (auto simp: service_inv_def)
  moreover have "queue_tokens (service w) = task_tokens u + queue_tokens ((service w)\<lparr>m_queue := q\<rparr>)"
    using task by (simp add: queue_tokens_def)
  ultimately show ?thesis using ctxs_ok_push [OF ctx]
    by (simp add: entry_ok_def) (simp add: TaskContext_enter_def)
qed

text \<open>A call that goes through the service and the contexts of the calling thread.\<close>

lemma entry_okI:
  assumes "service_inv s' \<and> ctxs_ok (this_queue env) base tls' (drains (map WItem is) + k)
      \<and> queue_tokens s' + ctx_tokens (this_queue env) tls' + works_tokens (map WItem is)
        = queue_tokens (service w) + ctx_tokens (this_queue env) (contexts w tid) + submitted es"
    and "finished es = {#}" and "work_tokens x = {#}"
    and "service w1 = s'" and "contexts w1 tid = tls'" and "log w1 = log w @ es"
  shows "entry_ok env base k tid x (map WItem is) w w1"
proof -
  from assms(1) have "submitted es + (queue_tokens (service w) + ctx_tokens (this_queue env) (contexts w tid))
      = queue_tokens s' + ctx_tokens (this_queue env) tls' + works_tokens (map WItem is)"
    by (simp add: ac_simps)
  with assms show ?thesis by (simp add: entry_ok_def add.assoc)
qed

lemma Post_ok:
  assumes "service_inv s" and "ctxs_ok this base tls k" and "QueueService_Post tid t s = Returns (is, s')"
  shows "service_inv s' \<and> ctxs_ok this base tls (drains (map WItem is) + k)
    \<and> queue_tokens s' + ctx_tokens this tls + works_tokens (map WItem is)
      = queue_tokens s + ctx_tokens this tls + opt_tokens t"
  using assms Post_tokens [OF assms(3,1)] by (simp add: Post_drains component_inv ac_simps)

lemma exec_call_ok:
  assumes inv: "service_inv (service w)"
    and ctx: "ctxs_ok (this_queue env) base (contexts w tid) k"
    and base: "\<forall>c \<in> set base. ctx_queue c \<noteq> this_queue env"
    and c: "defers_nonempty c" and exec: "exec_call env tid c w = Returns (new, w1)"
  shows "entry_ok env base k tid (WCall c) new w w1"
proof (cases c)
  case (CRunTasks e)
  with inv ctx exec show ?thesis by (simp add: RunTasks_ok)
next
  case (CInvokeElsePost t)
  with exec obtain "is" tls s where r: "QueueService_InvokeElsePost (this_queue env)
      (thread_access env tid) tid t (contexts w tid) (service w) = Returns (is, tls, s)"
    and w: "new = map WItem is" "w1 = w\<lparr>service := s, contexts := (contexts w)(tid := tls),
      log := log w @ [Submitted t]\<rparr>"
    by (auto simp: outcome_simps)
  show ?thesis
    unfolding w using InvokeElsePost_ok [OF inv ctx r]
    by (intro entry_okI [where es = "[Submitted t]"]) simp_all
next
  case (CDeferElsePost t)
  with exec obtain "is" tls s where r: "QueueService_DeferElsePost (this_queue env)
      tid t (contexts w tid) (service w) = Returns (is, tls, s)"
    and w: "new = map WItem is" "w1 = w\<lparr>service := s, contexts := (contexts w)(tid := tls),
      log := log w @ [Submitted t]\<rparr>"
    by (auto simp: outcome_simps)
  from c CDeferElsePost have "t \<noteq> None" by simp
  from DeferElsePost_ok [OF inv ctx base this r] show ?thesis
    unfolding w by (intro entry_okI [where es = "[Submitted t]"]) simp_all
next
  case (CPost t)
  with exec obtain "is" s where r: "QueueService_Post tid t (service w) = Returns (is, s)"
    and w: "new = map WItem is" "w1 = w\<lparr>service := s, log := log w @ [Submitted t]\<rparr>"
    by (auto simp: outcome_simps)
  show ?thesis
    unfolding w using Post_ok [OF inv ctx r]
    by (intro entry_okI [where es = "[Submitted t]"]) simp_all
next
  case CBatchInvokeElsePost
  with exec inv obtain "is" tls s where r: "QueueService_InvokeElsePost (this_queue env)
      (thread_access env tid) tid (Some (BatchTask [])) (contexts w tid) (service w) = Returns (is, tls, s)"
    and w: "new = map WItem is" "w1 = w\<lparr>service := s, contexts := (contexts w)(tid := tls)\<rparr>"
    by (auto simp: outcome_simps)
  show ?thesis
    unfolding w using InvokeElsePost_ok [OF inv ctx r] by (intro entry_okI [where es = "[]"]) simp_all
next
  case CBatchDeferElsePost
  with exec inv obtain "is" tls s where r: "QueueService_DeferElsePost (this_queue env)
      tid (Some (BatchTask [])) (contexts w tid) (service w) = Returns (is, tls, s)"
    and w: "new = map WItem is" "w1 = w\<lparr>service := s, contexts := (contexts w)(tid := tls)\<rparr>"
    by (auto simp: outcome_simps)
  show ?thesis
    unfolding w using DeferElsePost_ok [OF inv ctx base _ r]
    by (intro entry_okI [where es = "[]"]) simp_all
next
  case CBatchPost
  with exec inv obtain "is" s where r: "QueueService_Post tid (Some (BatchTask [])) (service w) = Returns (is, s)"
    and w: "new = map WItem is" "w1 = w\<lparr>service := s\<rparr>"
    by (auto simp: outcome_simps)
  show ?thesis
    unfolding w using Post_ok [OF inv ctx r] by (intro entry_okI [where es = "[]"]) simp_all
next
  case CBeginTaskBatching
  with inv ctx exec show ?thesis by (simp add: BeginTaskBatching_crashes)
next
  case CBatchCancel
  with inv ctx exec show ?thesis by (auto simp: entry_ok_def outcome_simps QueueService_CancelTask_def)
next
  case CSuspend
  with inv ctx exec show ?thesis
    by (auto simp: entry_ok_def outcome_simps component_inv)
      (auto simp: QueueService_Suspend_def queue_tokens_def split: if_splits)
next
  case CResume
  with inv ctx exec show ?thesis
    by (auto simp: entry_ok_def outcome_simps component_inv)
      (auto elim!: Resume_cases simp: queue_tokens_def)
next
  case (CShutdown a)
  with exec obtain "is" s where r: "QueueService_Shutdown a (service w) = (is, s)"
    and w: "new = map WItem is" "w1 = w\<lparr>service := s\<rparr>"
    by (auto split: prod.splits)
  show ?thesis
    unfolding w using Shutdown_tokens [OF r inv] Shutdown_inv [OF r inv] ctx
    by (intro entry_okI [where es = "[]"]) (simp_all add: ac_simps)
next
  case CAwaitTermination
  with inv ctx exec show ?thesis
    by (auto simp: entry_ok_def QueueService_AwaitTermination_def Shutdown_Complete service_inv_def
        queue_tokens_def)
qed

section \<open>What an entry leaves alone\<close>

lemma exec_work_stack [frame_simps]:
  "exec_work env tid x w = Returns (new, w1) \<Longrightarrow> stack w1 = stack w"
  by (cases x; rename_tac y; case_tac y)
    (auto simp: outcome_simps split: prod.splits bool.splits)

lemma exec_work_contexts_other [frame_simps]:
  "exec_work env tid x w = Returns (new, w1) \<Longrightarrow> u \<noteq> tid \<Longrightarrow> contexts w1 u = contexts w u"
  by (cases x; rename_tac y; case_tac y)
    (auto simp: outcome_simps split: prod.splits bool.splits)

end
