(* ===== verification/Queue_Properties.thy ===== *)
theory Queue_Properties
  imports Queue_System
begin

text \<open>
  What holds of a dispatch queue in every reachable state of the system of
  \<open>Queue_System\<close>: no task is lost or run twice, tasks leave in the order they came, the
  scheduler is woken often enough, shutdown is final, and no call crashes that the
  documentation allows.
\<close>

section \<open>The invariant of the whole system\<close>

definition live_tokens :: "env \<Rightarrow> nat \<Rightarrow> 'v world \<Rightarrow> nat multiset" where
  "live_tokens env n w = queue_tokens (service w)
     + (\<Sum>tid<n. ctx_tokens (this_queue env) (contexts w tid) + works_tokens (stack w tid))"

fun work_allowed :: "(call \<Rightarrow> bool) \<Rightarrow> work \<Rightarrow> bool" where
  "work_allowed allowed (WCall c) = allowed c"
| "work_allowed allowed (WItem i) = True"

definition world_inv ::
    "(call \<Rightarrow> bool) \<Rightarrow> env \<Rightarrow> nat \<Rightarrow> (thread_id \<Rightarrow> TaskContext list) \<Rightarrow> 'v world \<Rightarrow> bool" where
  "world_inv allowed env n base w \<longleftrightarrow>
     service_inv (service w)
   \<and> (\<forall>tid. ctxs_ok (this_queue env) (base tid) (contexts w tid) (drains (stack w tid)))
   \<and> (\<forall>tid. list_all (work_allowed allowed) (stack w tid))
   \<and> submitted (log w) = live_tokens env n w + finished (log w)"

lemma list_all_map_WCall [simp]:
  "list_all (work_allowed allowed) (map WCall cs) \<longleftrightarrow> list_all allowed cs"
  by (induction cs) simp_all

lemma list_all_map_WItem [simp]: "list_all (work_allowed allowed) (map WItem is)"
  by (induction "is") simp_all

text \<open>What an entry leaves to do is allowed: items, task bodies, and the loop itself.\<close>

lemma exec_work_allowed:
  assumes env: "env_allows allowed env" and x: "work_allowed allowed x"
    and exec: "exec_work env tid x w = Returns (new, w1)"
  shows "list_all (work_allowed allowed) new"
proof (cases x)
  case (WCall c)
  with x exec show ?thesis
    by (cases c) (auto simp: outcome_simps list_all_append split: prod.splits bool.splits)
next
  case (WItem i)
  with exec env show ?thesis
  proof (cases i)
    case (IInvoke t)
    with WItem exec env show ?thesis
      by (cases "(env, t)" rule: exec_invoke.cases) (auto simp: env_allows_def list_all_iff)
  next
    case (ICancel t)
    with WItem exec env show ?thesis
      by (cases "(env, t)" rule: exec_cancel.cases) (auto simp: env_allows_def list_all_iff)
  qed (auto simp: outcome_simps)
qed

lemma world_inv_initial: "world_inv allowed env n base (initial_world (this_queue env) base)"
  if "foreign_base env base"
proof -
  have none: "filter (\<lambda>c. ctx_queue c = this_queue env) (base tid) = []" for tid
    using that by (auto simp: foreign_base_def filter_empty_conv)
  show ?thesis
    by (simp add: world_inv_def initial_world_def live_tokens_def queue_tokens_def
        QueueService_new_def service_inv_def ctx_tokens_def none)
qed

lemma exec_work_ok:
  assumes "service_inv (service w)" and "foreign_base env base"
    and "ctxs_ok (this_queue env) (base tid) (contexts w tid) (drains (x # xs))"
    and "work_allowed defers_nonempty x" and "exec_work env tid x w = Returns (new, w1)"
  shows "entry_ok env (base tid) (drains xs) tid x new w w1"
proof (cases x)
  case (WItem i)
  show ?thesis
    unfolding WItem using assms WItem by (intro exec_item_ok) (simp_all add: ac_simps)
next
  case (WCall c)
  show ?thesis
    unfolding WCall using assms WCall by (intro exec_call_ok) (simp_all add: foreign_base_def)
qed

lemma tokens_balance:
  fixes s0 :: "'a multiset"
  assumes "s0 = q0 + f + n0" and "f + (c1 + (wn + wx)) = g + (c0 + (x + wx))"
    and "s1 + q0 + c0 + x + n0 = s0 + q1 + c1 + wn + n1"
  shows "s1 = q1 + g + n1"
proof (rule multiset_eqI)
  fix a
  show "count s1 a = count (q1 + g + n1) a"
    using assms [THEN arg_cong [where f = "\<lambda>m. count m a"]] by simp
qed

lemma world_inv_step [component_inv]:
  assumes step: "sys_step allowed env n w w'" and inv: "world_inv allowed env n base w"
    and env: "env_allows allowed env" and base: "foreign_base env base"
    and allowed: "\<And>c. allowed c \<Longrightarrow> defers_nonempty c"
  shows "world_inv allowed env n base w'"
  using step
proof cases
  case (start tid cs)
  let ?f = "\<lambda>s u. ctx_tokens (this_queue env) (contexts w u) + works_tokens (s u)"
  have "(\<Sum>u<n. ?f ((stack w)(tid := map WCall cs)) u) = (\<Sum>u<n. ?f (stack w) u)"
    using start by (intro sum.cong) auto
  moreover have "ctxs_ok (this_queue env) (base tid) (contexts w tid) (drains [])"
    using inv start(3) by (metis world_inv_def)
  ultimately show ?thesis using start inv by (simp add: world_inv_def live_tokens_def)
next
  case (exec tid x xs new w1)
  have "list_all (work_allowed allowed) (stack w tid)" using inv by (simp add: world_inv_def)
  with exec(3) have x_ok: "work_allowed allowed x" by simp
  then have x: "work_allowed defers_nonempty x" using allowed by (cases x) auto
  have ctx: "ctxs_ok (this_queue env) (base tid) (contexts w tid) (drains (x # xs))"
    using inv exec(3) by (metis world_inv_def)
  have ok: "entry_ok env (base tid) (drains xs) tid x new w w1"
    using inv base ctx x exec(4) by (intro exec_work_ok) (simp_all add: world_inv_def)
  have stack: "stack w1 = stack w" using exec(4) by (rule exec_work_stack)
  have other: "contexts w1 u = contexts w u" if "u \<noteq> tid" for u
    using exec(4) that by (rule exec_work_contexts_other)
  have all: "list_all (work_allowed allowed) new"
    using env x_ok exec(4) by (rule exec_work_allowed)
  define f where "f u = ctx_tokens (this_queue env) (contexts w u) + works_tokens (stack w u)" for u
  define g where "g u = ctx_tokens (this_queue env) (contexts w1 u)
    + works_tokens (((stack w)(tid := new @ xs)) u)" for u
  have f_tid: "f tid = ctx_tokens (this_queue env) (contexts w tid) + (work_tokens x + works_tokens xs)"
    by (simp add: f_def exec(3))
  have g_tid: "g tid = ctx_tokens (this_queue env) (contexts w1 tid) + (works_tokens new + works_tokens xs)"
    by (simp add: g_def)
  have sum: "(\<Sum>u<n. f u) + g tid = (\<Sum>u<n. g u) + f tid"
    using exec(2) other by (intro sum_one_thread) (simp_all add: f_def g_def)
  have bal: "submitted (log w) = queue_tokens (service w) + (\<Sum>u<n. f u) + finished (log w)"
    using inv by (simp add: world_inv_def live_tokens_def f_def)
  have entry: "submitted (log w1) + queue_tokens (service w) + ctx_tokens (this_queue env) (contexts w tid)
        + work_tokens x + finished (log w)
      = submitted (log w) + queue_tokens (service w1) + ctx_tokens (this_queue env) (contexts w1 tid)
        + works_tokens new + finished (log w1)"
    using ok unfolding entry_ok_def by blast
  have "submitted (log w1) = queue_tokens (service w1) + (\<Sum>u<n. g u) + finished (log w1)"
    by (rule tokens_balance [OF bal sum [unfolded f_tid g_tid] entry])
  moreover have "ctxs_ok (this_queue env) (base u) (contexts w1 u) (drains (((stack w)(tid := new @ xs)) u))" for u
  proof (cases "u = tid")
    case True
    then show ?thesis using ok by (simp add: entry_ok_def)
  next
    case False
    then show ?thesis using inv other by (simp add: world_inv_def)
  qed
  moreover have "list_all (work_allowed allowed) (((stack w)(tid := new @ xs)) u)" for u
  proof (cases "u = tid")
    case True
    have "list_all (work_allowed allowed) (stack w tid)" using inv by (simp add: world_inv_def)
    with True all exec(3) show ?thesis by simp
  next
    case False
    then show ?thesis using inv by (simp add: world_inv_def)
  qed
  moreover have "service_inv (service w1)" using ok by (simp add: entry_ok_def)
  ultimately show ?thesis
    unfolding world_inv_def live_tokens_def exec(1) g_def by (simp add: stack)
qed

lemma world_inv_reachable:
  assumes "sys_reachable allowed env n base w" and "env_allows allowed env" and "foreign_base env base"
    and "\<And>c. allowed c \<Longrightarrow> defers_nonempty c"
  shows "world_inv allowed env n base w"
  using assms(1)
proof induction
  case initial
  show ?case by (rule world_inv_initial) (rule assms(3))
next
  case (step w w')
  show ?case by (rule world_inv_step [OF step.hyps(2) step.IH assms(2,3,4)])
qed

section \<open>The abstract queue\<close>

text \<open>
  What a client may think a dispatch queue is: the list of waiting tasks, oldest first, the
  action given when it was shut down, and how often it is suspended. Each call is a function of
  this queue; \<open>current\<close> tells whether the calling thread runs a task of the queue, and \<open>access\<close>
  whether the scheduler lets it run one. A task that is submitted is appended while the queue is
  open, and cancelled once it is shut down.
\<close>

type_synonym abstract_queue = "task option list \<times> PendingTaskAction option \<times> int"

fun spec_submit :: "task option \<Rightarrow> abstract_queue \<Rightarrow> work list \<times> abstract_queue" where
  "spec_submit t (ts, None, k) =
     (if k = 0 then [WItem (ICallScheduler SchedulerPost)] else [], (ts @ [t], None, k))"
| "spec_submit t (ts, Some a, k) = ([WItem (ICancel t)], (ts, Some a, k))"

definition spec_invoke :: "bool \<Rightarrow> bool \<Rightarrow> task option \<Rightarrow> abstract_queue \<Rightarrow> work list \<times> abstract_queue" where
  "spec_invoke current access t q =
     (if access then (if current then [WItem (IInvoke t)] else [WItem (IInvoke t), WItem IDrainDeferred], q)
      else spec_submit t q)"

definition spec_defer :: "bool \<Rightarrow> task option \<Rightarrow> abstract_queue \<Rightarrow> work list \<times> abstract_queue" where
  "spec_defer current t q = (if current then ([], q) else spec_submit t q)"

text \<open>No thread ever has a batch of its own, so the batches that are ended are empty.\<close>

fun spec_call :: "bool \<Rightarrow> bool \<Rightarrow> call \<Rightarrow> abstract_queue \<Rightarrow> work list \<times> abstract_queue" where
  "spec_call current access (CPost t) q = spec_submit t q"
| "spec_call current access (CInvokeElsePost t) q = spec_invoke current access t q"
| "spec_call current access (CDeferElsePost t) q = spec_defer current t q"
| "spec_call current access CBatchPost q = spec_submit (Some (BatchTask [])) q"
| "spec_call current access CBatchInvokeElsePost q = spec_invoke current access (Some (BatchTask [])) q"
| "spec_call current access CBatchDeferElsePost q = spec_defer current (Some (BatchTask [])) q"
| "spec_call current access CBatchCancel q = ([WItem (ICancel (Some (BatchTask [])))], q)"
| "spec_call current access CBeginTaskBatching q = ([], q)"
| "spec_call current access CSuspend (ts, a, k) = ([], (ts, a, k + 1))"
| "spec_call current access CResume (ts, a, k) =
     (replicate (if k = 1 then length ts else 0) (WItem (ICallScheduler SchedulerPost)), (ts, a, k - 1))"
| "spec_call current access (CShutdown Complete) (ts, a, k) =
     ([WItem (ICallScheduler SchedulerShutdown)], (ts, Some Complete, k))"
| "spec_call current access (CShutdown CancelPending) (ts, a, k) =
     (map (WItem \<circ> ICancel) ts @ [WItem (ICallScheduler SchedulerShutdown)], ([], Some CancelPending, k))"
| "spec_call current access CAwaitTermination (ts, a, k) =
     ([WItem (ICallScheduler SchedulerShutdown), WItem (ICallScheduler SchedulerAwaitTermination)],
      (ts, Some Complete, k))"
| "spec_call current access (CRunTasks e) ([], a, k) = ([], ([], a, k))"
| "spec_call current access (CRunTasks e) (t # ts, a, k) =
     (if k = 0 then ([WItem (IInvoke t), WItem IDrainDeferred, WCall (CRunTasks e)], (ts, a, k))
      else ([], (t # ts, a, k)))"

definition abs_queue :: "'v QueueService \<Rightarrow> abstract_queue" where
  "abs_queue s = (queue_content (m_queue s), m_shutdownAction s, m_suspendCounter s)"

lemma Post_refines:
  assumes "QueueService_Post tid t s = Returns (is, s1)" and "service_inv s"
  shows "spec_submit t (abs_queue s) = (map WItem is, abs_queue s1)"
  using assms by (rule Post_cases) (auto simp: abs_queue_def)

lemma InvokeElsePost_refines:
  assumes "QueueService_InvokeElsePost this access tid t tls s = Returns (is, tls1, s1)"
    and "service_inv s"
  shows "spec_invoke (QueueService_IsCurrentQueue this tls) access t (abs_queue s)
    = (map WItem is, abs_queue s1)"
proof (cases access)
  case True
  with assms show ?thesis
    by (auto simp: spec_invoke_def QueueService_InvokeElsePost_def QueueService_InvokeTask_def QueueService_IsCurrentQueue_def
        split: if_splits)
next
  case False
  with assms show ?thesis
    by (auto simp: spec_invoke_def QueueService_InvokeElsePost_def outcome_simps intro: Post_refines)
qed

lemma DeferElsePost_refines:
  assumes "QueueService_DeferElsePost this tid t tls s = Returns (is, tls1, s1)"
    and "service_inv s"
  shows "spec_defer (QueueService_IsCurrentQueue this tls) t (abs_queue s)
    = (map WItem is, abs_queue s1)"
proof (cases "TaskContext_CurrentQueue tls = Some this")
  case True
  with assms show ?thesis
    by (auto simp: spec_defer_def QueueService_DeferElsePost_def QueueService_IsCurrentQueue_def split: list.splits)
next
  case False
  with assms show ?thesis
    by (auto simp: spec_defer_def QueueService_DeferElsePost_def QueueService_IsCurrentQueue_def outcome_simps intro: Post_refines)
qed

lemma exec_item_service [frame_simps]:
  "exec_item env tid i w = Returns (new, w1) \<Longrightarrow> service w1 = service w"
  by (cases i) (auto simp: outcome_simps split: prod.splits)

lemma exec_call_refines:
  assumes inv: "service_inv (service w)" and exec: "exec_call env tid c w = Returns (new, w1)"
  shows "spec_call (QueueService_IsCurrentQueue (this_queue env) (contexts w tid)) (thread_access env tid) c
      (abs_queue (service w)) = (new, abs_queue (service w1))"
proof (cases c)
  case (CRunTasks e)
  show ?thesis using inv
  proof (cases rule: TryDequeTask_cases)
    case none
    with CRunTasks exec show ?thesis
      by (cases "queue_content (m_queue (service w))") (auto simp: abs_queue_def)
  next
    case (task u q ts)
    with CRunTasks exec show ?thesis by (auto simp: abs_queue_def QueueService_InvokeTask_def)
  qed
next
  case (CShutdown a)
  obtain "is" s where r: "QueueService_Shutdown a (service w) = (is, s)" by force
  with CShutdown exec have w: "new = map WItem is" "service w1 = s" by auto
  show ?thesis
  proof (cases a)
    case Complete
    with r have "s = (service w)\<lparr>m_shutdownAction := Some Complete\<rparr>" "is = [ICallScheduler SchedulerShutdown]"
      by (simp_all add: Shutdown_Complete)
    with Complete w CShutdown show ?thesis by (simp add: abs_queue_def)
  next
    case CancelPending
    with inv r obtain q
      where "is = map ICancel (queue_content (m_queue (service w))) @ [ICallScheduler SchedulerShutdown]"
        and "s = (service w)\<lparr>m_shutdownAction := Some CancelPending, m_queue := q\<rparr>"
        and "queue_content q = []" using Shutdown_Cancel_cases by blast
    with w CShutdown CancelPending show ?thesis by (simp add: abs_queue_def)
  qed
next
  case (CPost t)
  with exec inv show ?thesis by (auto simp: outcome_simps Post_refines)
next
  case (CInvokeElsePost t)
  with exec inv show ?thesis by (auto simp: outcome_simps InvokeElsePost_refines)
next
  case (CDeferElsePost t)
  with exec inv show ?thesis by (auto simp: outcome_simps DeferElsePost_refines)
next
  case CBatchPost
  with exec inv show ?thesis by (auto simp: outcome_simps Post_refines)
next
  case CBatchInvokeElsePost
  with exec inv show ?thesis
    by (auto simp: outcome_simps InvokeElsePost_refines)
next
  case CBatchDeferElsePost
  with exec inv show ?thesis
    by (auto simp: outcome_simps DeferElsePost_refines)
next
  case CAwaitTermination
  with exec show ?thesis
    by (auto simp: QueueService_AwaitTermination_def Shutdown_Complete abs_queue_def)
next
  case CResume
  with exec inv show ?thesis
    by (auto simp: outcome_simps abs_queue_def service_inv_def TaskQueue_Size_content elim!: Resume_cases)
next
  case CSuspend
  with exec show ?thesis
    by (auto simp: outcome_simps abs_queue_def QueueService_Suspend_def split: if_splits)
next
  case CBatchCancel
  with exec inv show ?thesis by (auto simp: outcome_simps abs_queue_def QueueService_CancelTask_def)
next
  case CBeginTaskBatching
  with exec inv show ?thesis by (simp add: BeginTaskBatching_crashes)
qed

text \<open>The entries that are no calls leave the queue alone.\<close>

lemma exec_work_refines:
  assumes "service_inv (service w)" and "exec_work env tid x w = Returns (new, w1)"
  shows "case x of
      WCall c \<Rightarrow> spec_call (QueueService_IsCurrentQueue (this_queue env) (contexts w tid)) (thread_access env tid) c
        (abs_queue (service w)) = (new, abs_queue (service w1))
    | WItem i \<Rightarrow> abs_queue (service w1) = abs_queue (service w)"
  using assms by (cases x) (auto simp: exec_call_refines dest!: exec_item_service)

text \<open>Once shut down, always shut down, and nothing is added.\<close>

lemma spec_call_shut:
  assumes "spec_call current access c (ts, Some a, k) = (new, us, b, j)"
  shows "b \<noteq> None \<and> (\<exists>i. us = drop i ts)"
proof (cases c)
  case (CRunTasks e)
  with assms show ?thesis
    by (cases ts) (auto split: if_splits intro: exI [of _ "0::nat"] exI [of _ "1::nat"])
next
  case (CShutdown b)
  with assms show ?thesis
    by (cases b) (auto intro: exI [of _ "0::nat"] exI [of _ "length ts"])
qed (use assms in \<open>auto simp: spec_invoke_def spec_defer_def split: if_splits intro: exI [of _ "0::nat"]\<close>)

end
