(* ===== verification/Queue_Guarantees.thy ===== *)
theory Queue_Guarantees
  imports Queue_Properties
begin

text \<open>
  Further guarantees of a dispatch queue in use, each an invariant of the runs of
  \<open>Queue_System\<close>: enough calls of the scheduler for the tasks that wait, and no crash as long
  as clients keep to the calls that are safe. Then the properties of the dispatch queue.
\<close>

section \<open>Waking the scheduler\<close>

text \<open>
  A scheduler runs one task per \<open>Post\<close> it was called for. The calls already made are in the
  log, those a thread is about to make are on its stack.
\<close>

definition posted :: "event list \<Rightarrow> nat" where
  "posted es = length (filter (\<lambda>e. e = SchedulerCalled SchedulerPost) es)"

definition dequeued :: "event list \<Rightarrow> nat" where
  "dequeued es = length (filter (\<lambda>e. e = Dequeued) es)"

definition post_calls :: "work list \<Rightarrow> nat" where
  "post_calls ws = length (filter (\<lambda>x. x = WItem (ICallScheduler SchedulerPost)) ws)"

definition due :: "'v QueueService \<Rightarrow> nat" where
  "due s = (if m_suspendCounter s = 0 then length (queue_content (m_queue s)) else 0)"

definition wakes_ok :: "nat \<Rightarrow> 'v world \<Rightarrow> bool" where
  "wakes_ok n w \<longleftrightarrow>
     dequeued (log w) + due (service w) \<le> posted (log w) + (\<Sum>u<n. post_calls (stack w u))"

lemma count_simps [simp]:
  "posted [] = 0" "posted (e # es) = (if e = SchedulerCalled SchedulerPost then 1 else 0) + posted es"
  "posted (es @ fs) = posted es + posted fs"
  "dequeued [] = 0" "dequeued (e # es) = (if e = Dequeued then 1 else 0) + dequeued es"
  "dequeued (es @ fs) = dequeued es + dequeued fs"
  "post_calls [] = 0"
  "post_calls (x # ws) = (if x = WItem (ICallScheduler SchedulerPost) then 1 else 0) + post_calls ws"
  "post_calls (ws @ vs) = post_calls ws + post_calls vs"
  "post_calls (map WCall cs) = 0" "post_calls (map (WItem \<circ> IInvoke) ts) = 0"
  "post_calls (map (WItem \<circ> ICancel) ts) = 0"
  "post_calls (replicate k (WItem (ICallScheduler SchedulerPost))) = k"
  by (simp_all add: posted_def dequeued_def post_calls_def)

text \<open>An entry that makes room for more due tasks brings the calls for them.\<close>

definition wakes_enough :: "work list \<Rightarrow> 'v QueueService \<Rightarrow> 'v QueueService \<Rightarrow> bool" where
  "wakes_enough new s s1 \<longleftrightarrow> due s1 \<le> due s + post_calls new"

lemma wakes_enough_refl [simp]: "wakes_enough new s s"
  by (simp add: wakes_enough_def)

lemma Post_wakes:
  "QueueService_Post tid t s = Returns (is, s1) \<Longrightarrow> service_inv s \<Longrightarrow> wakes_enough (map WItem is) s s1"
  by (erule (1) Post_cases) (auto simp: wakes_enough_def due_def)

lemma InvokeElsePost_wakes:
  "QueueService_InvokeElsePost this access tid t tls s = Returns (is, tls1, s1) \<Longrightarrow> service_inv s \<Longrightarrow>
     wakes_enough (map WItem is) s s1"
  by (auto simp: QueueService_InvokeElsePost_def QueueService_InvokeTask_def outcome_simps
      dest: Post_wakes split: if_splits)

lemma DeferElsePost_wakes:
  "QueueService_DeferElsePost this tid t tls s = Returns (is, tls1, s1) \<Longrightarrow> service_inv s \<Longrightarrow>
     wakes_enough (map WItem is) s s1"
  by (auto simp: QueueService_DeferElsePost_def outcome_simps
      dest: Post_wakes split: if_splits list.splits)

lemma Resume_wakes:
  "QueueService_Resume s = Returns (is, s1) \<Longrightarrow> service_inv s \<Longrightarrow> wakes_enough (map WItem is) s s1"
  by (erule Resume_cases)
    (auto simp: wakes_enough_def due_def TaskQueue_Size_content service_inv_def)

lemma Shutdown_wakes:
  assumes "QueueService_Shutdown a s = (is, s1)" and "service_inv s"
  shows "wakes_enough (map WItem is) s s1"
proof (cases a)
  case Complete
  with assms show ?thesis by (auto simp: Shutdown_Complete wakes_enough_def due_def)
next
  case CancelPending
  with assms obtain q where "s1 = s\<lparr>m_shutdownAction := Some CancelPending, m_queue := q\<rparr>"
    and "queue_content q = []" using Shutdown_Cancel_cases by blast
  then show ?thesis by (simp add: wakes_enough_def due_def)
qed

definition entry_wakes :: "work \<Rightarrow> work list \<Rightarrow> 'v world \<Rightarrow> 'v world \<Rightarrow> bool" where
  "entry_wakes x new w w1 \<longleftrightarrow>
     dequeued (log w1) + due (service w1) + posted (log w) + post_calls [x]
       \<le> posted (log w1) + post_calls new + dequeued (log w) + due (service w)"

lemma entry_wakesI:
  assumes "wakes_enough (map WItem is) (service w) (service w1)" and "log w1 = log w @ es"
    and "dequeued es = 0" and "posted es = 0"
  shows "entry_wakes (WCall c) (map WItem is) w w1"
  using assms by (simp add: entry_wakes_def wakes_enough_def)

lemma exec_item_wakes: "exec_item env tid i w = Returns (new, w1) \<Longrightarrow> entry_wakes (WItem i) new w w1"
proof (cases i)
  case (IInvoke t)
  assume "exec_item env tid i w = Returns (new, w1)"
  with IInvoke show ?thesis
    by (cases "(env, t)" rule: exec_invoke.cases) (auto simp: entry_wakes_def)
next
  case (ICancel t)
  assume "exec_item env tid i w = Returns (new, w1)"
  with ICancel show ?thesis
    by (cases "(env, t)" rule: exec_cancel.cases) (auto simp: entry_wakes_def)
next
  case IDrainDeferred
  assume "exec_item env tid i w = Returns (new, w1)"
  with IDrainDeferred show ?thesis
    by (auto simp: entry_wakes_def outcome_simps QueueService_DrainDeferred_def
        split: list.splits option.splits prod.splits)
qed (auto simp: entry_wakes_def)

lemma RunTasks_wakes:
  assumes inv: "service_inv (service w)" and exec: "exec_call env tid (CRunTasks e) w = Returns (new, w1)"
  shows "entry_wakes (WCall (CRunTasks e)) new w w1"
  using inv
proof (cases rule: TryDequeTask_cases)
  case none
  with exec show ?thesis by (simp add: entry_wakes_def)
next
  case (task u q ts)
  with exec show ?thesis by (auto simp: entry_wakes_def QueueService_InvokeTask_def due_def)
qed

lemma exec_call_wakes:
  assumes inv: "service_inv (service w)" and exec: "exec_call env tid c w = Returns (new, w1)"
  shows "entry_wakes (WCall c) new w w1"
proof (cases c)
  case (CRunTasks e)
  with assms show ?thesis by (simp add: RunTasks_wakes)
next
  case (CPost t)
  with exec inv show ?thesis
    by (auto simp: outcome_simps intro!: entry_wakesI [where es = "[Submitted t]"] Post_wakes)
next
  case (CInvokeElsePost t)
  with exec inv show ?thesis
    by (auto simp: outcome_simps intro!: entry_wakesI [where es = "[Submitted t]"] intro: InvokeElsePost_wakes)
next
  case (CDeferElsePost t)
  with exec inv show ?thesis
    by (auto simp: outcome_simps intro!: entry_wakesI [where es = "[Submitted t]"] intro: DeferElsePost_wakes)
next
  case CBatchPost
  with exec inv show ?thesis
    by (auto simp: outcome_simps intro!: entry_wakesI [where es = "[]"] intro: Post_wakes)
next
  case CBatchInvokeElsePost
  with exec inv show ?thesis
    by (auto simp: outcome_simps intro!: entry_wakesI [where es = "[]"] intro: InvokeElsePost_wakes)
next
  case CBatchDeferElsePost
  with exec inv show ?thesis
    by (auto simp: outcome_simps intro!: entry_wakesI [where es = "[]"] intro: DeferElsePost_wakes)
next
  case CBatchCancel
  with exec inv show ?thesis by (auto simp: outcome_simps entry_wakes_def)
next
  case CBeginTaskBatching
  with exec inv show ?thesis by (simp add: BeginTaskBatching_crashes)
next
  case CSuspend
  with exec inv show ?thesis
    by (auto simp: outcome_simps QueueService_Suspend_def service_inv_def entry_wakes_def due_def split: if_splits)
next
  case CResume
  with exec inv show ?thesis
    by (auto simp: outcome_simps intro!: entry_wakesI [where es = "[]"] intro: Resume_wakes)
next
  case (CShutdown a)
  with exec inv show ?thesis
    by (auto split: prod.splits intro!: entry_wakesI [where es = "[]"] intro: Shutdown_wakes)
next
  case CAwaitTermination
  with exec show ?thesis
    by (auto simp: QueueService_AwaitTermination_def Shutdown_Complete entry_wakes_def due_def)
qed

lemma exec_work_wakes:
  "service_inv (service w) \<Longrightarrow> exec_work env tid x w = Returns (new, w1) \<Longrightarrow> entry_wakes x new w w1"
  by (cases x) (auto intro: exec_item_wakes exec_call_wakes)

lemma wakes_ok_step:
  assumes step: "sys_step allowed env n w w'" and inv: "service_inv (service w)"
    and ok: "wakes_ok n w"
  shows "wakes_ok n w'"
  using step
proof cases
  case (start tid cs)
  have "(\<Sum>u<n. post_calls (((stack w)(tid := map WCall cs)) u)) = (\<Sum>u<n. post_calls (stack w u))"
    using start by (intro sum.cong) auto
  with start ok show ?thesis by (simp add: wakes_ok_def)
next
  case (exec tid x xs new w1)
  have entry: "entry_wakes x new w w1" using inv exec(4) by (rule exec_work_wakes)
  define g where "g u = post_calls (((stack w)(tid := new @ xs)) u)" for u
  have "(\<Sum>u<n. post_calls (stack w u)) + g tid = (\<Sum>u<n. g u) + post_calls (stack w tid)"
    using exec(2) by (intro sum_one_thread) (simp_all add: g_def)
  moreover have "g tid = post_calls new + post_calls xs"
    and "post_calls (stack w tid) = post_calls [x] + post_calls xs"
    by (simp_all add: g_def exec(3))
  moreover have "stack w1 = stack w" using exec(4) by (rule exec_work_stack)
  ultimately show ?thesis
    using ok entry unfolding wakes_ok_def entry_wakes_def exec(1) by (simp add: g_def)
qed

section \<open>No crash\<close>

text \<open>Tasks without an empty functor anywhere in them, and the calls that are safe to make.\<close>

fun task_complete :: "task \<Rightarrow> bool" where
  "task_complete (UserTask i) = True"
| "task_complete (CancellableTask i) = True"
| "task_complete (BatchTask ts) = list_all (\<lambda>t. case t of None \<Rightarrow> False | Some u \<Rightarrow> task_complete u) ts"

definition opt_complete :: "task option \<Rightarrow> bool" where
  "opt_complete t = (case t of None \<Rightarrow> False | Some u \<Rightarrow> task_complete u)"

fun safe_call :: "call \<Rightarrow> bool" where
  "safe_call (CPost t) = opt_complete t"
| "safe_call (CInvokeElsePost t) = opt_complete t"
| "safe_call (CDeferElsePost t) = opt_complete t"
| "safe_call CBeginTaskBatching = False"
| "safe_call _ = True"

fun item_complete :: "item \<Rightarrow> bool" where
  "item_complete (IInvoke t) = opt_complete t"
| "item_complete _ = True"

fun work_complete :: "work \<Rightarrow> bool" where
  "work_complete (WItem i) = item_complete i"
| "work_complete (WCall c) = safe_call c"

definition queue_complete :: "'v QueueService \<Rightarrow> bool" where
  "queue_complete s \<longleftrightarrow> list_all opt_complete (queue_content (m_queue s))"

definition contexts_complete :: "nat \<Rightarrow> TaskContext list \<Rightarrow> bool" where
  "contexts_complete this tls \<longleftrightarrow> (\<forall>c \<in> set tls. ctx_queue c = this \<longrightarrow>
     ctx_inv c \<and> list_all opt_complete (ctx_pending c))"

definition complete_inv :: "env \<Rightarrow> 'v world \<Rightarrow> bool" where
  "complete_inv env w \<longleftrightarrow> queue_complete (service w)
     \<and> (\<forall>tid. contexts_complete (this_queue env) (contexts w tid) \<and> list_all work_complete (stack w tid))"

lemma opt_complete_simps [simp]: "\<not> opt_complete None" "opt_complete (Some u) = task_complete u"
  by (simp_all add: opt_complete_def)

lemma task_complete_Batch [simp]: "task_complete (BatchTask ts) = list_all opt_complete ts"
  by (simp add: opt_complete_def [abs_def])

declare task_complete.simps(3) [simp del]

lemma safe_defers_nonempty: "safe_call c \<Longrightarrow> defers_nonempty c"
  by (cases c) (auto simp: opt_complete_def split: option.splits)

lemma list_all_complete [simp]:
  "list_all work_complete (map WItem is) = list_all item_complete is"
  "list_all work_complete (map WCall cs) = list_all safe_call cs"
  "list_all work_complete (map (WItem \<circ> IInvoke) ts) = list_all opt_complete ts"
  "list_all work_complete (map (WItem \<circ> ICancel) ts)"
  "list_all item_complete (replicate k (ICallScheduler c))"
  "list_all item_complete (map ICancel ts)"
  "list_all work_complete (replicate k (WItem (ICallScheduler c)))"
  by (simp_all add: list_all_iff)

lemma contexts_complete_simps [simp]:
  "contexts_complete this (c # cs) \<longleftrightarrow> (ctx_queue c = this \<longrightarrow>
     ctx_inv c \<and> list_all opt_complete (ctx_pending c)) \<and> contexts_complete this cs"
  by (auto simp: contexts_complete_def)

lemma contexts_complete_enter [simp]:
  "contexts_complete this tls \<Longrightarrow> contexts_complete this (TaskContext_enter this e tls)"
  by (simp add: TaskContext_enter_def)

lemma Post_complete:
  assumes "QueueService_Post tid t s = Returns (is, s1)" and "service_inv s"
    and "queue_complete s" and "opt_complete t"
  shows "queue_complete s1 \<and> list_all item_complete is"
  using assms(1,2) by (rule Post_cases) (use assms(3,4) in \<open>auto simp: queue_complete_def\<close>)

lemma InvokeElsePost_complete:
  assumes "QueueService_InvokeElsePost this access tid t tls s = Returns (is, tls1, s1)"
    and "service_inv s" and "queue_complete s" and "opt_complete t" and "contexts_complete this tls"
  shows "queue_complete s1 \<and> contexts_complete this tls1 \<and> list_all item_complete is"
  using assms by (auto simp: QueueService_InvokeElsePost_def QueueService_InvokeTask_def outcome_simps
      dest: Post_complete split: if_splits)

lemma DeferElsePost_complete:
  assumes "QueueService_DeferElsePost this tid t tls s = Returns (is, tls1, s1)"
    and "service_inv s" and "queue_complete s" and "opt_complete t" and "contexts_complete this tls"
  shows "queue_complete s1 \<and> contexts_complete this tls1 \<and> list_all item_complete is"
proof (cases "TaskContext_CurrentQueue tls = Some this")
  case True
  then obtain c cs where tls: "tls = c # cs" and "ctx_queue c = this"
    by (cases tls) (auto simp: TaskContext_CurrentQueue_def TaskContext_CurrentContext_def)
  from assms(4) obtain u where "t = Some u" by (cases t) auto
  moreover from tls assms(5) \<open>ctx_queue c = this\<close> have "ctx_inv c" by simp
  ultimately show ?thesis
    using True tls assms by (auto simp: QueueService_DeferElsePost_def component_inv ctx_inv_def [of c])
next
  case False
  with assms show ?thesis
    by (auto simp: QueueService_DeferElsePost_def outcome_simps dest: Post_complete)
qed

lemma Drain_complete:
  assumes "QueueService_DrainDeferred tls = Returns (is, tls1)" and "ctxs_ok this base tls (Suc k)"
    and "contexts_complete this tls"
  shows "contexts_complete this tls1 \<and> list_all item_complete is"
proof -
  from assms(2) obtain c cs where tls: "tls = c # cs" and inv: "ctx_inv c" and q: "ctx_queue c = this"
    by (rule ctxs_ok_Suc)
  show ?thesis
  proof (cases "ctx_pending c")
    case Nil
    with inv tls assms show ?thesis
      by (auto simp: QueueService_DrainDeferred_def TakeNextDeferred_Nil TaskContext_leave_def)
  next
    case (Cons t ts)
    with inv obtain c' where "TaskContext_TakeNextDeferredTask c = (t, c')" "ctx_pending c' = ts"
      "ctx_inv c'" "t \<noteq> None" by (rule TakeNextDeferred_Cons)
    with Cons q tls assms show ?thesis by (auto simp: QueueService_DrainDeferred_def)
  qed
qed

definition entry_complete :: "env \<Rightarrow> thread_id \<Rightarrow> work list \<Rightarrow> 'v world \<Rightarrow> bool" where
  "entry_complete env tid new w1 \<longleftrightarrow> queue_complete (service w1)
     \<and> contexts_complete (this_queue env) (contexts w1 tid) \<and> list_all work_complete new"

lemma exec_item_complete:
  assumes exec: "exec_item env tid i w = Returns (new, w1)" and env: "env_allows safe_call env"
    and ctx: "ctxs_ok (this_queue env) base (contexts w tid) (drains (WItem i # xs))"
    and ok: "entry_complete env tid [WItem i] w"
  shows "entry_complete env tid new w1"
proof (cases i)
  case (IInvoke t)
  with exec env ok show ?thesis
    by (cases "(env, t)" rule: exec_invoke.cases) (auto simp: entry_complete_def env_allows_def)
next
  case (ICancel t)
  with exec env ok show ?thesis
    by (cases "(env, t)" rule: exec_cancel.cases) (auto simp: entry_complete_def env_allows_def)
next
  case IDrainDeferred
  with exec ctx ok show ?thesis
    by (auto simp: entry_complete_def outcome_simps dest!: Drain_complete)
next
  case (ICallScheduler c)
  with exec ok show ?thesis by (auto simp: entry_complete_def)
qed

lemma exec_call_complete:
  assumes exec: "exec_call env tid c w = Returns (new, w1)" and inv: "service_inv (service w)"
    and ok: "entry_complete env tid [WCall c] w"
  shows "entry_complete env tid new w1"
proof (cases c)
  case (CRunTasks e)
  show ?thesis using inv
    by (cases rule: TryDequeTask_cases)
      (use CRunTasks exec ok in \<open>auto simp: entry_complete_def QueueService_InvokeTask_def queue_complete_def\<close>)
next
  case (CShutdown a)
  obtain "is" s where r: "QueueService_Shutdown a (service w) = (is, s)" by force
  with CShutdown exec have w: "new = map WItem is" "w1 = w\<lparr>service := s\<rparr>" by auto
  show ?thesis
  proof (cases a)
    case Complete
    with r ok show ?thesis unfolding w
      by (auto simp: Shutdown_Complete entry_complete_def queue_complete_def)
  next
    case CancelPending
    with inv r obtain q
      where "is = map ICancel (queue_content (m_queue (service w))) @ [ICallScheduler SchedulerShutdown]"
        and "s = (service w)\<lparr>m_shutdownAction := Some CancelPending, m_queue := q\<rparr>"
        and "queue_content q = []" using Shutdown_Cancel_cases by blast
    with ok show ?thesis unfolding w by (simp add: entry_complete_def queue_complete_def)
  qed
next
  case (CPost t)
  with assms show ?thesis by (auto simp: outcome_simps entry_complete_def dest: Post_complete)
next
  case (CInvokeElsePost t)
  with assms show ?thesis by (auto simp: outcome_simps entry_complete_def dest: InvokeElsePost_complete)
next
  case (CDeferElsePost t)
  with assms show ?thesis by (auto simp: outcome_simps entry_complete_def dest: DeferElsePost_complete)
next
  case CBatchPost
  with assms show ?thesis by (auto simp: outcome_simps entry_complete_def dest: Post_complete)
next
  case CBatchInvokeElsePost
  with assms show ?thesis by (auto simp: outcome_simps entry_complete_def dest: InvokeElsePost_complete)
next
  case CBatchDeferElsePost
  with assms show ?thesis by (auto simp: outcome_simps entry_complete_def dest: DeferElsePost_complete)
next
  case CAwaitTermination
  with exec ok show ?thesis
    by (auto simp: QueueService_AwaitTermination_def Shutdown_Complete entry_complete_def queue_complete_def)
next
  case CResume
  with exec ok show ?thesis
    by (auto simp: outcome_simps entry_complete_def queue_complete_def elim!: Resume_cases)
next
  case CSuspend
  with exec ok show ?thesis
    by (auto simp: outcome_simps entry_complete_def queue_complete_def QueueService_Suspend_def split: if_splits)
next
  case CBatchCancel
  with exec inv ok show ?thesis by (auto simp: outcome_simps entry_complete_def QueueService_CancelTask_def)
next
  case CBeginTaskBatching
  with exec inv show ?thesis by (simp add: BeginTaskBatching_crashes)
qed

lemma complete_inv_step:
  assumes step: "sys_step safe_call env n w w'" and inv: "world_inv safe_call env n base w"
    and env: "env_allows safe_call env" and ok: "complete_inv env w"
  shows "complete_inv env w'"
  using step
proof cases
  case (start tid cs)
  with ok show ?thesis by (simp add: complete_inv_def)
next
  case (exec tid x xs new w1)
  have ctx: "ctxs_ok (this_queue env) (base tid) (contexts w tid) (drains (x # xs))"
    using inv exec(3) by (metis world_inv_def)
  have stack_ok: "list_all work_complete (x # xs)" using ok exec(3) by (metis complete_inv_def)
  then have "entry_complete env tid [x] w" using ok by (simp add: complete_inv_def entry_complete_def)
  with exec(4) inv env ctx have "entry_complete env tid new w1"
    by (cases x) (auto simp: world_inv_def intro: exec_call_complete exec_item_complete)
  moreover have "stack w1 = stack w" using exec(4) by (rule exec_work_stack)
  moreover have "contexts w1 u = contexts w u" if "u \<noteq> tid" for u
    using exec(4) that by (rule exec_work_contexts_other)
  then have "contexts_complete (this_queue env) (contexts w1 u)" for u
    using ok \<open>entry_complete env tid new w1\<close>
    by (cases "u = tid") (simp_all add: complete_inv_def entry_complete_def)
  ultimately show ?thesis
    using ok stack_ok unfolding exec(1) by (simp add: complete_inv_def entry_complete_def)
qed

lemma complete_inv_reachable:
  assumes reach: "sys_reachable safe_call env n base w" and env: "env_allows safe_call env"
    and base: "foreign_base env base"
  shows "complete_inv env w"
  using reach
proof induction
  case initial
  show ?case using base
    by (auto simp: complete_inv_def initial_world_def queue_complete_def QueueService_new_def
        contexts_complete_def foreign_base_def)
next
  case (step w w')
  have "world_inv safe_call env n base w"
    by (rule world_inv_reachable [OF step.hyps(1) env base safe_defers_nonempty])
  then show ?case by (rule complete_inv_step [OF step.hyps(2) _ env step.IH])
qed

text \<open>What still crashes: \<open>Resume\<close> of a queue that is not suspended, one \<open>Suspend\<close> too many.\<close>

fun misused :: "call \<Rightarrow> 'v QueueService \<Rightarrow> bool" where
  "misused CResume s = (m_suspendCounter s = 0)"
| "misused CSuspend s = (m_suspendCounter s = 2 ^ 31 - 1)"
| "misused _ s = False"

lemma Post_returns:
  "service_inv s \<Longrightarrow> opt_complete t \<Longrightarrow> returns (QueueService_Post tid t s)"
  by (cases t) (auto simp: QueueService_Post_def service_inv_def Let_def)

lemma returns_and_then: "returns m \<Longrightarrow> (\<And>x. m = Returns x \<Longrightarrow> returns (f x)) \<Longrightarrow> returns (and_then m f)"
  by (cases m) auto

lemma InvokeElsePost_returns:
  "service_inv s \<Longrightarrow> opt_complete t \<Longrightarrow> returns (QueueService_InvokeElsePost this access tid t tls s)"
  by (auto simp: QueueService_InvokeElsePost_def Post_returns split: prod.splits intro: returns_and_then)

lemma DeferElsePost_returns:
  "service_inv s \<Longrightarrow> opt_complete t \<Longrightarrow> returns (QueueService_DeferElsePost this tid t tls s)"
  by (auto simp: QueueService_DeferElsePost_def Post_returns TaskContext_CurrentQueue_def
      TaskContext_CurrentContext_def split: prod.splits list.splits intro: returns_and_then)

lemma exec_call_returns:
  assumes inv: "service_inv (service w)" and c: "safe_call c" and ok: "\<not> misused c (service w)"
  shows "returns (exec_call env tid c w)"
proof -
  have neg: "0 \<le> m_suspendCounter (service w)" using inv by (simp add: service_inv_def)
  show ?thesis
  proof (cases c)
    case (CPost t)
    with inv c show ?thesis by (auto simp: Post_returns intro!: returns_and_then)
  next
    case (CInvokeElsePost t)
    with inv c show ?thesis by (auto simp: InvokeElsePost_returns intro!: returns_and_then)
  next
    case (CDeferElsePost t)
    with inv c show ?thesis by (auto simp: DeferElsePost_returns intro!: returns_and_then)
  next
    case CBatchPost
    with inv show ?thesis by (auto simp: Post_returns intro!: returns_and_then)
  next
    case CBatchInvokeElsePost
    with inv show ?thesis by (auto simp: InvokeElsePost_returns intro!: returns_and_then)
  next
    case CBatchDeferElsePost
    with inv show ?thesis by (auto simp: DeferElsePost_returns intro!: returns_and_then)
  next
    case CResume
    with ok neg show ?thesis by (auto simp: QueueService_Resume_def Let_def intro!: returns_and_then)
  next
    case CSuspend
    with ok show ?thesis by (auto simp: QueueService_Suspend_def)
  qed (use inv c in \<open>auto split: prod.splits bool.splits\<close>)
qed

lemma exec_work_returns:
  assumes inv: "world_inv safe_call env n base w" and ok: "complete_inv env w"
    and stack: "stack w tid = x # xs" and use_ok: "\<And>c. x = WCall c \<Longrightarrow> \<not> misused c (service w)"
  shows "returns (exec_work env tid x w)"
proof (cases x)
  case (WCall c)
  have "list_all work_complete (x # xs)" using ok stack by (metis complete_inv_def)
  with WCall inv use_ok show ?thesis by (simp add: world_inv_def exec_call_returns)
next
  case (WItem i)
  show ?thesis
  proof (cases i)
    case (IInvoke t)
    have "list_all work_complete (x # xs)" using ok stack by (metis complete_inv_def)
    with WItem IInvoke show ?thesis by (cases "(env, t)" rule: exec_invoke.cases) auto
  next
    case IDrainDeferred
    have "ctxs_ok (this_queue env) (base tid) (contexts w tid) (drains (x # xs))"
      using inv stack by (metis world_inv_def)
    with WItem IDrainDeferred have
      "ctxs_ok (this_queue env) (base tid) (contexts w tid) (Suc (drains xs))" by simp
    from ctxs_ok_take [OF this] WItem IDrainDeferred show ?thesis by (elim disjE exE conjE) simp_all
  qed (use WItem in \<open>auto split: prod.splits\<close>)
qed

section \<open>A queue to evaluate\<close>

text \<open>
  One thread and no other queue's contexts; the task 7, when invoked, defers the task 8.
  \<open>demo_world k cs\<close> is the state after \<open>k\<close> steps of the calls \<open>cs\<close>.
\<close>

definition demo_env :: env where
  "demo_env = \<lparr>this_queue = 1,
     invoke_body = (\<lambda>i. if i = 7 then [CDeferElsePost (Some (UserTask 8))] else []),
     cancel_body = (\<lambda>_. []), thread_access = (\<lambda>_. False)\<rparr>"

definition demo_world :: "nat \<Rightarrow> call list \<Rightarrow> nat world" where
  "demo_world k cs =
     (let w0 = initial_world 1 (\<lambda>_. []) in
      case run_thread demo_env k 0 (w0\<lparr>stack := (stack w0)(0 := map WCall cs)\<rparr>) of
        Returns w \<Rightarrow> w | _ \<Rightarrow> w0)"

lemma demo_reachable:
  assumes "list_all allowed cs"
  shows "sys_reachable allowed demo_env 1 (\<lambda>_. []) (demo_world k cs)"
proof -
  let ?w0 = "initial_world 1 (\<lambda>_. []) :: nat world"
  have init: "sys_reachable allowed demo_env 1 (\<lambda>_. []) ?w0"
    using sys_reachable.initial [of allowed demo_env 1] by (simp add: demo_env_def)
  have "sys_step allowed demo_env 1 ?w0 (?w0\<lparr>stack := (stack ?w0)(0 := map WCall cs)\<rparr>)"
    using assms by (intro sys_step.start) (simp_all add: initial_world_def)
  with init have "sys_reachable allowed demo_env 1 (\<lambda>_. []) (?w0\<lparr>stack := (stack ?w0)(0 := map WCall cs)\<rparr>)"
    by (rule sys_reachable.step)
  with init show ?thesis
    by (auto simp: demo_world_def Let_def split: outcome.splits
        intro: sys_reachable_steps [OF run_thread_steps])
qed

lemma demo_env_ok [simp]: "env_allows defers_nonempty demo_env" "env_allows safe_call demo_env"
  "foreign_base demo_env (\<lambda>_. [])"
  by (simp_all add: env_allows_def demo_env_def foreign_base_def)

section \<open>The properties\<close>

text \<open>C1: Tasks are conserved. In every state a dispatch queue can get into, whatever the
  threads do and however their steps interleave, the user tasks handed to the queue are
  exactly those that still wait somewhere (in the queue, in a task's deferred tasks, or about
  to be invoked or cancelled) and those that were invoked, cancelled or dropped; so none is
  lost and none runs twice. The clients defer no empty functor.\<close>

theorem dispatch_tasks_conserved:
  assumes "sys_reachable defers_nonempty env n base w"
    and "env_allows defers_nonempty env" and "foreign_base env base"
  shows "submitted (log w) = live_tokens env n w + finished (log w)
    \<and> finished (log w) \<subseteq># submitted (log w)"
  using world_inv_reachable [OF assms] by (simp add: world_inv_def)

lemma dispatch_tasks_conserved_witness:
  "finished (log (demo_world 20 [CPost (Some (UserTask 7)), CRunTasks None])) = {#7, 8#}
   \<and> live_tokens demo_env 1 (demo_world 20 [CPost (Some (UserTask 7)), CRunTasks None]) = {#}"
proof -
  let ?w = "demo_world 20 [CPost (Some (UserTask 7)), CRunTasks None]"
  have f: "finished (log ?w) = {#7, 8#}" and s: "submitted (log ?w) = {#7, 8#}" by code_simp+
  have "sys_reachable defers_nonempty demo_env 1 (\<lambda>_. []) ?w" by (rule demo_reachable) simp
  from dispatch_tasks_conserved [OF this] f s show ?thesis by simp
qed

text \<open>C2: A dispatch queue is the queue of tasks it promises to be. Whatever call a thread makes in
  a reachable state, the locked state of the code (two buffers, the read index, the counters)
  and the work it leaves are what the abstract queue says of that call: a task posted while the
  queue is open is appended, and the scheduler told unless the queue is suspended; one posted
  after a shutdown goes to its cancellation; the scheduler takes the oldest task, if the queue is
  not suspended; a shutdown that cancels takes all tasks, oldest first; and what is no call leaves
  the queue as it is.\<close>

theorem dispatch_queue_refines:
  assumes "sys_reachable defers_nonempty env n base w"
    and "env_allows defers_nonempty env" and "foreign_base env base"
    and "stack w tid = x # xs" and "exec_work env tid x w = Returns (new, w1)"
  shows "case x of
      WCall c \<Rightarrow> spec_call (QueueService_IsCurrentQueue (this_queue env) (contexts w tid)) (thread_access env tid) c
        (abs_queue (service w)) = (new, abs_queue (service w1))
    | WItem i \<Rightarrow> abs_queue (service w1) = abs_queue (service w)"
proof -
  have "world_inv defers_nonempty env n base w" by (rule world_inv_reachable [OF assms(1-3)])
  then show ?thesis using assms(5) by (intro exec_work_refines) (simp_all add: world_inv_def)
qed

lemma dispatch_queue_refines_witness:
  "\<exists>new w1. exec_work demo_env 0 (WCall (CRunTasks None))
       (demo_world 2 [CPost (Some (UserTask 3)), CRunTasks None]) = Returns (new, w1)
     \<and> new = [WItem (IInvoke (Some (UserTask 3))), WItem IDrainDeferred, WCall (CRunTasks None)]
     \<and> abs_queue (service w1) = ([], None, 0)"
proof -
  let ?w = "demo_world 2 [CPost (Some (UserTask 3)), CRunTasks None]"
  have r: "returns (exec_work demo_env 0 (WCall (CRunTasks None)) ?w)" by code_simp
  then obtain new w1 where e: "exec_work demo_env 0 (WCall (CRunTasks None)) ?w = Returns (new, w1)"
    by (auto simp: returns_iff)
  have a0: "abs_queue (service ?w) = ([Some (UserTask 3)], None, 0)" by code_simp
  have s: "stack ?w 0 = WCall (CRunTasks None) # []" by code_simp
  have "sys_reachable defers_nonempty demo_env 1 (\<lambda>_. []) ?w" by (rule demo_reachable) simp
  from dispatch_queue_refines [OF this demo_env_ok(1,3) s e] have "new = [WItem (IInvoke (Some (UserTask 3))),
      WItem IDrainDeferred, WCall (CRunTasks None)] \<and> abs_queue (service w1) = ([], None, 0)"
    by (simp add: a0)
  with e show ?thesis by blast
qed

text \<open>C11: The scheduler is woken often enough. In every reachable state the number of
  \<open>Post\<close> calls the scheduler got or is about to get covers the tasks already taken from the
  queue and, unless the queue is suspended, those still in it; so a task never waits for a
  call that does not come, also when it was posted while the queue was suspended.\<close>

theorem dispatch_wakes_scheduler:
  assumes "sys_reachable defers_nonempty env n base w"
    and "env_allows defers_nonempty env" and "foreign_base env base"
  shows "dequeued (log w) + (if m_suspendCounter (service w) = 0
            then TaskQueue_Size (m_queue (service w)) else 0)
       \<le> posted (log w) + (\<Sum>tid<n. post_calls (stack w tid))"
proof -
  have "wakes_ok n w" using assms(1)
  proof induction
    case initial
    show ?case by (simp add: wakes_ok_def initial_world_def QueueService_new_def due_def)
  next
    case (step w w')
    have "world_inv defers_nonempty env n base w"
      by (rule world_inv_reachable [OF step.hyps(1) assms(2,3)])
    then show ?case using wakes_ok_step [OF step.hyps(2)] step.IH by (simp add: world_inv_def)
  qed
  then show ?thesis by (simp add: wakes_ok_def due_def TaskQueue_Size_content split: if_splits)
qed

lemma dispatch_wakes_scheduler_witness:
  "(1::nat) \<le> posted (log (demo_world 4 [CSuspend, CPost (Some (UserTask 3)), CResume]))"
proof -
  let ?w = "demo_world 4 [CSuspend, CPost (Some (UserTask 3)), CResume]"
  have "sys_reachable defers_nonempty demo_env 1 (\<lambda>_. []) ?w" by (rule demo_reachable) simp
  note dispatch_wakes_scheduler [OF this demo_env_ok(1,3)]
  moreover have "TaskQueue_Size (m_queue (service ?w)) = 1" and "m_suspendCounter (service ?w) = 0"
    and "post_calls (stack ?w 0) = 0" by code_simp+
  ultimately show ?thesis by simp
qed

text \<open>C12: Which calls crash. As long as no task anywhere is an empty functor and nobody calls
  \<open>BeginTaskBatching\<close>, the next entry of a thread in a reachable state crashes only when it
  is a \<open>Resume\<close> of a queue that is not suspended, or the \<open>Suspend\<close> that overflows the
  32-bit counter; every other call, invocation and drain returns.\<close>

theorem dispatch_no_crash:
  assumes "sys_reachable safe_call env n base w"
    and "env_allows safe_call env" and "foreign_base env base"
    and "stack w tid = x # xs"
  shows "returns (exec_work env tid x w)
    \<or> (x = WCall CResume \<and> m_suspendCounter (service w) = 0)
    \<or> (x = WCall CSuspend \<and> m_suspendCounter (service w) = 2 ^ 31 - 1)"
proof -
  have inv: "world_inv safe_call env n base w"
    by (rule world_inv_reachable [OF assms(1-3) safe_defers_nonempty])
  have ok: "complete_inv env w" using assms(1-3) by (rule complete_inv_reachable)
  show ?thesis
  proof (cases "\<exists>c. x = WCall c \<and> misused c (service w)")
    case True
    then obtain c where "x = WCall c" and "misused c (service w)" by blast
    then show ?thesis by (cases c) auto
  next
    case False
    then show ?thesis using exec_work_returns [OF inv ok assms(4)] by blast
  qed
qed

lemma dispatch_no_crash_witness:
  "returns (exec_work demo_env 0 (WItem IDrainDeferred)
      (demo_world 5 [CPost (Some (UserTask 7)), CRunTasks None]))"
proof -
  let ?w = "demo_world 5 [CPost (Some (UserTask 7)), CRunTasks None]"
  have s: "stack ?w 0 = WItem IDrainDeferred # [WCall (CRunTasks None)]" by code_simp
  have "sys_reachable safe_call demo_env 1 (\<lambda>_. []) ?w" by (rule demo_reachable) simp
  from dispatch_no_crash [OF this demo_env_ok(2,3) s] show ?thesis by simp
qed

text \<open>C13: The current queue is the one whose task runs. In every reachable state the queue is
  the current one of a thread exactly when the thread has a loop over deferred tasks of this
  queue to finish, and a thread that has nothing left has its task contexts back.\<close>

theorem dispatch_current_queue:
  assumes "sys_reachable defers_nonempty env n base w"
    and "env_allows defers_nonempty env" and "foreign_base env base"
  shows "(QueueService_IsCurrentQueue (this_queue env) (contexts w tid)
            \<longleftrightarrow> WItem IDrainDeferred \<in> set (stack w tid))
       \<and> (stack w tid = [] \<longrightarrow> contexts w tid = base tid)"
proof -
  have ok: "ctxs_ok (this_queue env) (base tid) (contexts w tid) (drains (stack w tid))"
    using world_inv_reachable [OF assms] by (simp add: world_inv_def)
  have drains: "drains (stack w tid) = 0 \<longleftrightarrow> WItem IDrainDeferred \<notin> set (stack w tid)"
    by (auto simp: drains_def filter_empty_conv)
  have foreign: "ctx_queue c \<noteq> this_queue env" if "c \<in> set (base tid)" for c
    using that assms(3) by (simp add: foreign_base_def)
  show ?thesis
  proof (cases "drains (stack w tid)")
    case 0
    with ok have "contexts w tid = base tid" by (simp add: ctxs_ok_def)
    with 0 drains foreign show ?thesis
      by (cases "base tid") (auto simp: QueueService_IsCurrentQueue_def TaskContext_CurrentQueue_def
          TaskContext_CurrentContext_def)
  next
    case (Suc k)
    with ok obtain c cs where "contexts w tid = c # cs" and "ctx_queue c = this_queue env"
      by (metis ctxs_ok_Suc)
    with Suc drains show ?thesis
      by (auto simp: QueueService_IsCurrentQueue_def TaskContext_CurrentQueue_def
          TaskContext_CurrentContext_def drains_def)
  qed
qed

lemma dispatch_current_queue_witness:
  "QueueService_IsCurrentQueue 1 (contexts (demo_world 5 [CPost (Some (UserTask 7)), CRunTasks None]) 0)"
proof -
  let ?w = "demo_world 5 [CPost (Some (UserTask 7)), CRunTasks None]"
  have s: "stack ?w 0 = WItem IDrainDeferred # [WCall (CRunTasks None)]" by code_simp
  have "sys_reachable defers_nonempty demo_env 1 (\<lambda>_. []) ?w" by (rule demo_reachable) simp
  from dispatch_current_queue [OF this demo_env_ok(1,3), of 0] s show ?thesis
    by (simp add: demo_env_def)
qed

text \<open>C17: A shutdown is final. However the system runs on from a state where the queue was shut
  down, it stays shut down, and what waits in it are the last of the tasks that waited then:
  nothing is ever added, so a task posted later goes to its cancellation instead.\<close>

theorem dispatch_shutdown_final:
  assumes "sys_reachable defers_nonempty env n base w"
    and "env_allows defers_nonempty env" and "foreign_base env base"
    and "(sys_step defers_nonempty env n)\<^sup>*\<^sup>* w w'"
    and "m_shutdownAction (service w) \<noteq> None"
  shows "m_shutdownAction (service w') \<noteq> None
    \<and> (\<exists>k. queue_content (m_queue (service w')) = drop k (queue_content (m_queue (service w))))"
proof -
  from assms(4) have "sys_reachable defers_nonempty env n base w'
    \<and> m_shutdownAction (service w') \<noteq> None
    \<and> (\<exists>k. queue_content (m_queue (service w')) = drop k (queue_content (m_queue (service w))))"
  proof (induction rule: rtranclp_induct)
    case base
    show ?case using assms(1,5) by (auto intro: exI [of _ 0])
  next
    case (step v v')
    then obtain a where a: "m_shutdownAction (service v) = Some a" by auto
    have inv: "service_inv (service v)"
      using world_inv_reachable [OF _ assms(2,3)] step.IH by (auto simp: world_inv_def)
    have "m_shutdownAction (service v') \<noteq> None
      \<and> (\<exists>k. queue_content (m_queue (service v')) = drop k (queue_content (m_queue (service v))))"
      using step.hyps(2)
    proof cases
      case (start tid cs)
      with a show ?thesis by (auto intro: exI [of _ 0])
    next
      case (exec tid x xs new w1)
      have "case x of
          WCall c \<Rightarrow> spec_call (QueueService_IsCurrentQueue (this_queue env) (contexts v tid)) (thread_access env tid) c
            (abs_queue (service v)) = (new, abs_queue (service w1))
        | WItem i \<Rightarrow> abs_queue (service w1) = abs_queue (service v)"
        using inv exec(4) by (rule exec_work_refines)
      with a exec(1) show ?thesis
        by (cases x) (auto simp: abs_queue_def dest!: spec_call_shut intro: exI [of _ "0::nat"])
    qed
    with step.IH step.hyps(2) show ?case by (auto intro: sys_reachable.step)
  qed
  then show ?thesis by simp
qed

lemma dispatch_shutdown_final_witness:
  "\<exists>w'. run_thread demo_env 9 0 (demo_world 1 [CShutdown Complete, CPost (Some (UserTask 3))]) = Returns w'
    \<and> m_shutdownAction (service w') \<noteq> None \<and> queue_content (m_queue (service w')) = []"
proof -
  let ?w = "demo_world 1 [CShutdown Complete, CPost (Some (UserTask 3))]"
  have "returns (run_thread demo_env 9 0 ?w)" by code_simp
  then obtain w' where run: "run_thread demo_env 9 0 ?w = Returns w'" by (auto simp: returns_iff)
  have "sys_reachable defers_nonempty demo_env 1 (\<lambda>_. []) ?w" by (rule demo_reachable) simp
  moreover have "m_shutdownAction (service ?w) \<noteq> None" by code_simp
  moreover have "queue_content (m_queue (service ?w)) = []" by code_simp
  ultimately show ?thesis
    using dispatch_shutdown_final [OF _ demo_env_ok(1,3) run_thread_steps [OF run]] run by simp
qed

text \<open>Task batching does not work. Where the calling thread has no batch,
  \<open>BeginTaskBatching\<close> dereferences the pointer it has just moved into the map; where it has
  one, a nested batch changes nothing; and \<open>EndTaskBatching\<close> without a batch hands out an
  empty one, which is all a thread can ever get.\<close>

theorem BeginTaskBatching_never_begins:
  "(m_taskBatches s tid = None \<longrightarrow> QueueService_BeginTaskBatching tid s = Crashes NullDereference)
   \<and> (m_taskBatches s tid \<noteq> None \<longrightarrow> QueueService_BeginTaskBatching tid s = Returns s)
   \<and> (m_taskBatches s tid = None \<longrightarrow>
        QueueService_EndTaskBatching tid s = Returns (Some (BatchTask []), s))"
  by (simp add: QueueService_BeginTaskBatching_def QueueService_EndTaskBatching_def TaskBatch_new_def
      Let_def)

lemma BeginTaskBatching_never_begins_witness:
  "QueueService_BeginTaskBatching 4 (QueueService_new 1 :: nat QueueService) = Crashes NullDereference"
  using BeginTaskBatching_never_begins [of "QueueService_new 1 :: nat QueueService" 4]
  by (simp add: QueueService_new_def)

definition none_locked :: "'v QueueService \<Rightarrow> bool" where
  "none_locked s \<longleftrightarrow> list_all (\<lambda>(k, e). \<not> m_isLocked e) (m_localValues s)"

lemma TrySwapLocalValue_Unlock:
  assumes "none_locked s"
  obtains s1 where "QueueService_TrySwapLocalValue swap f key v Unlock s = Returns (False, v, s1)"
    and "none_locked s1"
proof -
  let ?es = "case map_of (m_localValues s) key of
      None \<Rightarrow> m_localValues s @ [(key, QueueLocalValueEntry_new f)] | Some _ \<Rightarrow> m_localValues s"
  have unlocked: "\<not> m_isLocked e" if "(k, e) \<in> set ?es" for k e
    using that assms by (auto simp: none_locked_def list_all_iff QueueLocalValueEntry_new_def
        split: option.splits)
  obtain e where e: "map_of ?es key = Some e"
    by (cases "map_of (m_localValues s) key") (auto simp: map_add_def)
  then have "(key, e) \<in> set ?es" by (rule map_of_SomeD)
  then have "\<not> m_isLocked e" by (rule unlocked)
  with e unlocked have "QueueService_TrySwapLocalValue swap f key v Unlock s = Returns (False, v,
        s\<lparr>m_localValues := map (\<lambda>(k, e0). if k = key then (k, e) else (k, e0)) ?es\<rparr>)"
    by (simp add: QueueService_TrySwapLocalValue_def QueueLocalValueEntry_TrySwapLocalValue_def Let_def)
  moreover have "none_locked (s\<lparr>m_localValues := map (\<lambda>(k, e0). if k = key then (k, e) else (k, e0)) ?es\<rparr>)"
    using unlocked \<open>\<not> m_isLocked e\<close> by (auto simp: none_locked_def list_all_iff split: if_splits)
  ultimately show thesis by (rule that)
qed

text \<open>A queue local value is never locked. \<open>TryLockQueueLocalValue\<close> passes the action
  \<open>Unlock\<close>, so as long as no value is locked, which is so when the queue is made, it reports
  failure, leaves the thread's value alone and locks nothing; nor does an unlock.\<close>

theorem TryLockQueueLocalValue_never_locks:
  assumes "none_locked s"
  shows "(\<exists>s1. QueueService_TryLockQueueLocalValue swap f key v s = Returns (False, v, s1) \<and> none_locked s1)
    \<and> (\<exists>s1. QueueService_UnlockLocalValue swap key v s = Returns (v, s1) \<and> none_locked s1)"
proof
  show "\<exists>s1. QueueService_TryLockQueueLocalValue swap f key v s = Returns (False, v, s1) \<and> none_locked s1"
    using assms by (metis QueueService_TryLockQueueLocalValue_def TrySwapLocalValue_Unlock)
  obtain s1 where "QueueService_TrySwapLocalValue swap None key v Unlock s = Returns (False, v, s1)"
    and "none_locked s1" using assms by (rule TrySwapLocalValue_Unlock)
  then show "\<exists>s1. QueueService_UnlockLocalValue swap key v s = Returns (v, s1) \<and> none_locked s1"
    by (simp add: QueueService_UnlockLocalValue_def)
qed

lemma TryLockQueueLocalValue_never_locks_witness:
  "\<exists>s1. QueueService_TryLockQueueLocalValue (\<lambda>l t. Returns (Some t, t)) (Some 1) 16 (5 :: nat) (QueueService_new 1)
      = Returns (False, 5, s1) \<and> none_locked s1"
proof -
  have "none_locked (QueueService_new 1 :: nat QueueService)"
    by (simp add: QueueService_new_def none_locked_def)
  from TryLockQueueLocalValue_never_locks [OF this] show ?thesis by blast
qed

text \<open>A queue with a local value cannot be destroyed. The entry's destructor asks the swap
  callback of the header to delete the value by passing a null thread value; the callback
  deletes it and then swaps through the null pointer. An entry made by an unlock has no
  callback at all. So the destructor of a queue service crashes when it has any entry.\<close>

theorem local_value_destruction_crashes:
  assumes "m_localValues s \<noteq> []"
  shows "snd (QueueService_destroy (SwapQueueLocalValue new_value) s) = Crashes NullDereference"
proof -
  from assms obtain k e es where "m_localValues s = (k, e) # es" by (metis neq_Nil_conv surj_pair)
  then show ?thesis
    by (simp add: QueueService_destroy_def QueueService_AwaitTermination_def Shutdown_Complete QueueLocalValueEntry_destroy_def SwapQueueLocalValue_def
        split: option.splits)
qed

lemma local_value_destruction_crashes_witness:
  "\<exists>s1. QueueService_TryLockQueueLocalValue (\<lambda>l t. Returns (Some t, t)) (Some 1) 16 (5 :: nat) (QueueService_new 1)
      = Returns (False, 5, s1) \<and> snd (QueueService_destroy (SwapQueueLocalValue 0) s1) = Crashes NullDereference"
proof -
  let ?r = "QueueService_TryLockQueueLocalValue (\<lambda>l t. Returns (Some t, t)) (Some 1) 16 (5 :: nat) (QueueService_new 1)"
  obtain s1 where "?r = Returns (False, 5, s1)" and "m_localValues s1 \<noteq> []"
    by (simp add: QueueService_TryLockQueueLocalValue_def QueueService_TrySwapLocalValue_def
        QueueLocalValueEntry_TrySwapLocalValue_def QueueLocalValueEntry_new_def QueueService_new_def)
  then show ?thesis using local_value_destruction_crashes [of s1 0] by blast
qed

end
