(* ===== verification/Future_State.thy ===== *)
theory Future_State
  imports Mso_Prelude
begin

unbundle bit_operations_syntax

text \<open>
  The state word of a future (\<open>FuturePackedData\<close>, \<open>libs/future/src/futureImpl.h\<close> and
  \<open>futureImpl.cpp\<close>) and the layout of the block of memory \<open>MakeFuture\<close> allocates.

  A future keeps its state in the lowest three bits of a pointer-sized word and the head of
  its list of continuations in the others, so that one compare-and-exchange changes both.
\<close>

section \<open>States\<close>

datatype FutureState =
    Pending | Posting | Posted | Invoking | Awaiting | SettingResult | Succeeded | Failed

definition state_code :: "FutureState \<Rightarrow> 64 word" where
  "state_code s =
     (case s of Pending \<Rightarrow> 0 | Posting \<Rightarrow> 1 | Posted \<Rightarrow> 2 | Invoking \<Rightarrow> 3 | Awaiting \<Rightarrow> 4
      | SettingResult \<Rightarrow> 5 | Succeeded \<Rightarrow> 6 | Failed \<Rightarrow> 7)"

definition state_of_code :: "64 word \<Rightarrow> FutureState" where
  "state_of_code c =
     (if c = 0 then Pending else if c = 1 then Posting else if c = 2 then Posted
      else if c = 3 then Invoking else if c = 4 then Awaiting else if c = 5 then SettingResult
      else if c = 6 then Succeeded else Failed)"

text \<open>The order in which states follow each other; both final states are last.\<close>

fun state_rank :: "FutureState \<Rightarrow> nat" where
  "state_rank Pending = 0"
| "state_rank Posting = 1"
| "state_rank Posted = 2"
| "state_rank Invoking = 3"
| "state_rank Awaiting = 4"
| "state_rank SettingResult = 5"
| "state_rank Succeeded = 6"
| "state_rank Failed = 6"

section \<open>Packing\<close>

definition StateMask :: "64 word" where "StateMask = 0b0111"

definition ContinuationMask :: "64 word" where "ContinuationMask = NOT StateMask"

definition ContinuationInvoked :: ptr where "ContinuationInvoked = (-1) AND ContinuationMask"

definition GetState :: "64 word \<Rightarrow> FutureState" where
  "GetState v = state_of_code (v AND StateMask)"

definition GetContinuation :: "64 word \<Rightarrow> ptr" where
  "GetContinuation v = v AND ContinuationMask"

definition packed_IsDone :: "64 word \<Rightarrow> bool" where
  "packed_IsDone v \<longleftrightarrow> GetState v = Succeeded \<or> GetState v = Failed"

definition packed_IsSucceded :: "64 word \<Rightarrow> bool" where
  "packed_IsSucceded v \<longleftrightarrow> GetState v = Succeeded"

definition packed_IsFailed :: "64 word \<Rightarrow> bool" where
  "packed_IsFailed v \<longleftrightarrow> GetState v = Failed"

definition Make :: "FutureState \<Rightarrow> ptr \<Rightarrow> 64 word" where
  "Make s continuation = continuation OR state_code s"

definition VerifyAlignment :: "ptr \<Rightarrow> unit outcome" where
  "VerifyAlignment continuation =
     verify_else_crash (continuation AND ContinuationMask = continuation)
       ''Continuation instance is not aligned by 8 bytes.''"

definition aligned :: "ptr \<Rightarrow> bool" where
  "aligned p \<longleftrightarrow> p AND ContinuationMask = p"

lemma mask_eqs: "StateMask = mask 3" "ContinuationMask = NOT (mask 3)"
  by (simp_all add: StateMask_def ContinuationMask_def mask_eq_exp_minus_1)

lemma and_NOT_mask: "x AND NOT (mask k) = x - take_bit k (x :: 'a :: len word)"
proof -
  have "x AND NOT (mask k) = push_bit k (drop_bit k x)"
    by (rule bit_word_eqI) (auto simp: bit_simps)
  then show ?thesis by (metis bits_ident add_diff_cancel_right')
qed

lemma aligned_iff: "aligned p \<longleftrightarrow> take_bit 3 p = 0"
  by (simp add: aligned_def mask_eqs and_NOT_mask)

lemma aligned_mask: "aligned p \<Longrightarrow> p AND StateMask = 0"
  by (simp add: aligned_iff mask_eqs take_bit_eq_mask [symmetric])

lemma state_code_mask [simp]: "state_code s AND StateMask = state_code s"
  "state_code s AND ContinuationMask = 0"
  by (cases s; simp add: state_code_def StateMask_def ContinuationMask_def)+

lemma state_of_code_code [simp]: "state_of_code (state_code s) = s"
  by (cases s) (simp_all add: state_of_code_def state_code_def)

lemma aligned_0 [simp]: "aligned 0"
  by (simp add: aligned_def)

lemma aligned_ContinuationInvoked [simp]: "aligned ContinuationInvoked" "ContinuationInvoked \<noteq> 0"
  by (simp_all add: aligned_def ContinuationInvoked_def ContinuationMask_def StateMask_def)

lemma aligned_GetContinuation [simp]: "aligned (GetContinuation v)"
  by (simp add: aligned_def GetContinuation_def and.assoc)

lemma GetState_Make [simp]: "aligned c \<Longrightarrow> GetState (Make s c) = s"
  by (simp add: GetState_def Make_def aligned_mask bit.conj_disj_distrib2)

lemma GetContinuation_Make [simp]: "aligned c \<Longrightarrow> GetContinuation (Make s c) = c"
  by (simp add: GetContinuation_def Make_def bit.conj_disj_distrib2) (simp add: aligned_def)

lemma state_code_of_code: "state_code (state_of_code (v AND StateMask)) = v AND StateMask"
proof -
  have "unat (take_bit 3 v) < 8" using take_bit_nat_less_exp [of 3 "unat v"]
    by (simp add: unsigned_take_bit_eq)
  then have "unat (take_bit 3 v) \<in> {0, 1, 2, 3, 4, 5, 6, 7}" by auto
  then have "take_bit 3 v \<in> {0, 1, 2, 3, 4, 5, 6, 7}"
    by (auto simp: word_unat_eq_iff)
  then show ?thesis
    by (auto simp: mask_eqs take_bit_eq_mask state_code_def state_of_code_def)
qed

lemma Make_GetState [simp]: "Make (GetState v) (GetContinuation v) = v"
proof -
  have "Make (GetState v) (GetContinuation v) = (v AND ContinuationMask) OR (v AND StateMask)"
    by (simp add: Make_def GetState_def GetContinuation_def state_code_of_code)
  also have "\<dots> = v" unfolding mask_eqs by (rule bit_word_eqI) (auto simp: bit_simps)
  finally show ?thesis .
qed

lemma packed_simps [simp]:
  "GetState 0 = Pending" "GetContinuation 0 = 0"
  by (simp_all add: GetState_def GetContinuation_def state_of_code_def)

section \<open>The layout of a future's memory\<close>

definition ObjectAlignment :: "64 word" where "ObjectAlignment = 8"

definition IsAligned :: "64 word \<Rightarrow> bool" where
  "IsAligned ptrInt \<longleftrightarrow> ptrInt AND (ObjectAlignment - 1) = 0"

definition GetAlignedSize :: "64 word \<Rightarrow> 64 word" where
  "GetAlignedSize n = (n + ObjectAlignment - 1) AND NOT (ObjectAlignment - 1)"

text \<open>
  The sizes of \<open>FutureImpl\<close> and \<open>FutureCallback\<close> are the compiler's: they are arguments, as
  are the sizes of value and task and whether the traits have a \<open>TaskPost\<close>. \<open>MakeFuture\<close>
  computes offsets from the start of the block, where the reference counts are.
\<close>

record layout =
  futureImplOffset :: "64 word"
  futureCallbackOffset :: "64 word"
  valueOffset :: "64 word"
  taskOffset :: "64 word"
  memorySize :: "64 word"

definition MakeFuture_layout ::
  "64 word \<Rightarrow> 64 word \<Rightarrow> bool \<Rightarrow> 64 word \<Rightarrow> 64 word \<Rightarrow> layout" where
  "MakeFuture_layout sizeof_FutureImpl sizeof_FutureCallback taskPost valueSize taskSize =
     (let memorySize1 = ObjectAlignment;
          implOffset = GetAlignedSize memorySize1;
          memorySize2 = implOffset + sizeof_FutureImpl;
          callbackOffset = GetAlignedSize memorySize2;
          memorySize3 = callbackOffset + (if taskPost then sizeof_FutureCallback else 0);
          valOffset = GetAlignedSize memorySize3;
          memorySize4 = valOffset + valueSize;
          tskOffset = GetAlignedSize memorySize4;
          memorySize5 = tskOffset + taskSize
      in \<lparr>futureImplOffset = implOffset, futureCallbackOffset = callbackOffset,
          valueOffset = valOffset, taskOffset = tskOffset, memorySize = memorySize5\<rparr>)"

text \<open>The accessors compute offsets again, from the address of the \<open>FutureImpl\<close>.\<close>

definition GetCallback_offset :: "64 word \<Rightarrow> bool \<Rightarrow> 64 word option" where
  "GetCallback_offset sizeof_FutureImpl taskPost =
     (if taskPost then Some (GetAlignedSize sizeof_FutureImpl) else None)"

definition GetValueInternal_offset :: "64 word \<Rightarrow> 64 word \<Rightarrow> bool \<Rightarrow> 64 word \<Rightarrow> 64 word option" where
  "GetValueInternal_offset sizeof_FutureImpl sizeof_FutureCallback taskPost valueSize =
     (if valueSize > 0
      then let m1 = sizeof_FutureImpl;
               m2 = (if taskPost then sizeof_FutureCallback + GetAlignedSize m1 else m1)
           in Some (GetAlignedSize m2)
      else None)"

definition GetTask_offset ::
  "64 word \<Rightarrow> 64 word \<Rightarrow> bool \<Rightarrow> 64 word \<Rightarrow> 64 word \<Rightarrow> 64 word option" where
  "GetTask_offset sizeof_FutureImpl sizeof_FutureCallback taskPost valueSize taskSize =
     (if taskSize > 0
      then let m1 = sizeof_FutureImpl;
               m2 = (if taskPost then sizeof_FutureCallback + GetAlignedSize m1 else m1);
               m3 = (if valueSize > 0 then valueSize + GetAlignedSize m2 else m2)
           in Some (GetAlignedSize m3)
      else None)"

text \<open>A callback finds its future by going back the plain size of a \<open>FutureImpl\<close>.\<close>

definition GetFutureImpl :: "64 word \<Rightarrow> 64 word \<Rightarrow> 64 word" where
  "GetFutureImpl sizeof_FutureImpl callback = callback - sizeof_FutureImpl"

lemma GetAlignedSize_eq: "GetAlignedSize n = n + 7 - take_bit 3 (n + 7)"
proof -
  have "ObjectAlignment - 1 = mask 3" by (simp add: ObjectAlignment_def mask_eq_exp_minus_1)
  moreover have "n + ObjectAlignment - 1 = n + 7" by (simp add: ObjectAlignment_def)
  ultimately show ?thesis unfolding GetAlignedSize_def by (simp only: and_NOT_mask)
qed

lemma GetAlignedSize_IsAligned [simp]: "IsAligned (GetAlignedSize n)"
  by (simp add: IsAligned_def GetAlignedSize_def and.assoc)

lemma GetAlignedSize_add8 [simp]: "GetAlignedSize (8 + n) = 8 + GetAlignedSize n"
proof -
  have "take_bit 3 (8 + m) = take_bit 3 m" for m :: "64 word"
    by transfer (simp add: take_bit_eq_mod)
  from this [of "n + 7"] show ?thesis by (simp add: GetAlignedSize_eq add.assoc)
qed

lemma unat_GetAlignedSize:
  assumes "unat n < 2 ^ 63"
  shows "unat (GetAlignedSize n) = (unat n + 7) div 8 * 8"
proof -
  have "unat (n + 7) = unat n + 7" using assms by (simp add: unat_add_lem [THEN iffD1] unat_word_ariths)
  moreover have "unat (take_bit 3 (n + 7)) = unat (n + 7) mod 8"
    by (simp only: unsigned_take_bit_eq) (simp add: take_bit_eq_mod)
  moreover have "unat (n + 7 - take_bit 3 (n + 7)) = unat (n + 7) - unat (take_bit 3 (n + 7))"
    by (rule unat_sub) (simp add: word_le_nat_alt calculation(2))
  ultimately show ?thesis by (simp add: GetAlignedSize_eq minus_mod_eq_div_mult)
qed

lemma GetAlignedSize_8 [simp]: "GetAlignedSize 8 = 8"
  using GetAlignedSize_add8 [of 0] by (simp add: GetAlignedSize_def ObjectAlignment_def)

lemma IsAligned_iff: "IsAligned n \<longleftrightarrow> take_bit 3 n = 0"
  by (simp add: IsAligned_def ObjectAlignment_def take_bit_eq_mask mask_eq_exp_minus_1)

lemma GetAlignedSize_of_aligned:
  assumes "IsAligned m"
  shows "GetAlignedSize m = m"
proof -
  have low: "\<not> bit m k" if "k < 3" for k
    using assms that by (metis IsAligned_iff bit_0_eq bit_take_bit_iff bot_apply bot_bool_def)
  have "m + mask 3 = m OR mask 3"
    by (rule disjunctive_add) (auto simp: bit_simps dest: low)
  moreover have "take_bit 3 (m OR mask 3) = mask 3"
    by (rule bit_word_eqI) (auto simp: bit_simps)
  ultimately have "take_bit 3 (m + mask 3) = mask 3" by simp
  moreover have "GetAlignedSize m = m + mask 3 - take_bit 3 (m + mask 3)"
    unfolding GetAlignedSize_eq by (simp add: mask_eq_exp_minus_1)
  ultimately show ?thesis by (simp only: add_diff_cancel_right')
qed

lemma GetAlignedSize_idem [simp]: "GetAlignedSize (GetAlignedSize n) = GetAlignedSize n"
  by (rule GetAlignedSize_of_aligned) simp

text \<open>Sizes that add up to less than half the address space.\<close>

lemma layout_steps:
  assumes "unat m + 8 < 2 ^ 63" and "unat a + unat m + 16 < 2 ^ 63"
  shows "unat m \<le> unat (GetAlignedSize m) \<and> unat (GetAlignedSize m) < unat m + 8
    \<and> unat (GetAlignedSize m + a) = unat (GetAlignedSize m) + unat a"
proof -
  have "unat (GetAlignedSize m) = (unat m + 7) div 8 * 8"
    using assms by (intro unat_GetAlignedSize) simp
  moreover have "(unat m + 7) div 8 * 8 \<le> unat m + 7" and "unat m \<le> (unat m + 7) div 8 * 8"
    by presburger+
  moreover from this assms have "unat (GetAlignedSize m) + unat a < 2 ^ LENGTH(64)"
    using calculation(1) by simp
  then have "unat (GetAlignedSize m + a) = unat (GetAlignedSize m) + unat a"
    by (rule unat_add_lem [THEN iffD1])
  ultimately show ?thesis by linarith
qed

section \<open>The properties\<close>

text \<open>C34: The state word is a faithful pair. Packing a state with an aligned continuation and
  reading either back yields what was packed, the reserved mark of an invoked continuation
  included; packing what was read from any word restores the word; and the word a new future
  starts with says: pending, without continuation.\<close>

theorem FuturePackedData_roundtrip:
  "(\<forall>c. aligned c \<longrightarrow> GetState (Make s c) = s \<and> GetContinuation (Make s c) = c)
   \<and> aligned ContinuationInvoked \<and> ContinuationInvoked \<noteq> 0
   \<and> Make (GetState v) (GetContinuation v) = v \<and> aligned (GetContinuation v)
   \<and> GetState 0 = Pending \<and> GetContinuation 0 = 0"
  by simp

lemma FuturePackedData_roundtrip_witness:
  "GetState (Make SettingResult 0x7F0012345678) = SettingResult
   \<and> GetContinuation (Make SettingResult 0x7F0012345678) = 0x7F0012345678"
proof -
  have "aligned 0x7F0012345678" by (simp add: aligned_def ContinuationMask_def StateMask_def)
  then show ?thesis using FuturePackedData_roundtrip [of SettingResult 0] by blast
qed

definition layout_agrees :: "64 word \<Rightarrow> 64 word \<Rightarrow> bool \<Rightarrow> 64 word \<Rightarrow> 64 word \<Rightarrow> bool" where
  "layout_agrees impl cb post val task \<longleftrightarrow>
     (let l = MakeFuture_layout impl cb post val task;
          at = (\<lambda>accessor place. case accessor of None \<Rightarrow> True | Some off \<Rightarrow> futureImplOffset l + off = place)
      in at (GetCallback_offset impl post) (futureCallbackOffset l)
       \<and> at (GetValueInternal_offset impl cb post val) (valueOffset l)
       \<and> at (GetTask_offset impl cb post val task) (taskOffset l))"

definition layout_disjoint :: "64 word \<Rightarrow> 64 word \<Rightarrow> bool \<Rightarrow> 64 word \<Rightarrow> 64 word \<Rightarrow> bool" where
  "layout_disjoint impl cb post val task \<longleftrightarrow>
     (let l = MakeFuture_layout impl cb post val task
      in list_all IsAligned [futureImplOffset l, futureCallbackOffset l, valueOffset l, taskOffset l]
       \<and> 8 \<le> unat (futureImplOffset l)
       \<and> unat (futureImplOffset l) + unat impl \<le> unat (futureCallbackOffset l)
       \<and> unat (futureCallbackOffset l) + (if post then unat cb else 0) \<le> unat (valueOffset l)
       \<and> unat (valueOffset l) + unat val \<le> unat (taskOffset l)
       \<and> unat (taskOffset l) + unat task \<le> unat (memorySize l))"

lemma layout_agrees_any: "layout_agrees impl cb post val task"
  by (cases post; cases "val = 0"; cases "task = 0")
    (simp_all add: layout_agrees_def MakeFuture_layout_def Let_def GetCallback_offset_def
      GetValueInternal_offset_def GetTask_offset_def ObjectAlignment_def add.assoc
      word_gt_0 add.commute [of cb] add.commute [of val])

lemma layout_disjoint_small:
  assumes "unat impl + unat cb + unat val + unat task < 2 ^ 62"
  shows "layout_disjoint impl cb post val task"
proof -
  define l where "l = MakeFuture_layout impl cb post val task"
  define c where "c = (if post then cb else 0)"
  have l: "futureImplOffset l = 8" "futureCallbackOffset l = GetAlignedSize (8 + impl)"
    "valueOffset l = GetAlignedSize (futureCallbackOffset l + c)"
    "taskOffset l = GetAlignedSize (valueOffset l + val)" "memorySize l = taskOffset l + task"
    by (simp_all add: l_def MakeFuture_layout_def Let_def ObjectAlignment_def c_def)
  have c: "unat c \<le> unat cb" by (simp add: c_def)
  have impl: "unat (8 + impl) = 8 + unat impl"
    using assms by (intro unat_add_lem [THEN iffD1, of 8 impl, simplified]) simp
  have "unat (8 + impl) + 8 < 2 ^ 63" and "unat c + unat (8 + impl) + 16 < 2 ^ 63"
    using impl assms c by simp_all
  note 1 = layout_steps [OF this, folded l(2-5)]
  have "unat (futureCallbackOffset l + c) + 8 < 2 ^ 63"
    and "unat val + unat (futureCallbackOffset l + c) + 16 < 2 ^ 63"
    using 1 impl assms c by simp_all
  note 2 = layout_steps [OF this, folded l(2-5)]
  have "unat (valueOffset l + val) + 8 < 2 ^ 63" and "unat task + unat (valueOffset l + val) + 16 < 2 ^ 63"
    using 1 2 impl assms c by simp_all
  note 3 = layout_steps [OF this, folded l(2-5)]
  have "IsAligned 8" and "IsAligned (8 + GetAlignedSize impl)"
    using GetAlignedSize_IsAligned [of "8 + impl"]
    by (simp_all add: IsAligned_def ObjectAlignment_def)
  then show ?thesis
    unfolding layout_disjoint_def Let_def l_def [symmetric]
    using 1 2 3 impl by (simp add: l c_def split: if_splits)
qed

text \<open>C35: The parts of a future's memory are where its accessors look for them, whatever the
  sizes: the callback, the value and the task buffer have the offsets \<open>MakeFuture\<close> laid them
  out at. If the sizes add up to less than the address space, the parts are aligned, follow
  each other without overlap and lie in the allocated block.\<close>

theorem MakeFuture_layout_sound:
  "layout_agrees impl cb post val task
   \<and> (unat impl + unat cb + unat val + unat task < 2 ^ 62 \<longrightarrow> layout_disjoint impl cb post val task)"
  by (simp add: layout_agrees_any layout_disjoint_small)

lemma MakeFuture_layout_sound_witness: "layout_disjoint 60 16 True 4 24"
  using MakeFuture_layout_sound [of 60 16 True 4 24] by simp

text \<open>A callback finds its future exactly when the size of \<open>FutureImpl\<close> is a multiple of
  eight: \<open>GetFutureImpl\<close> goes back the plain size from the callback, which was placed at the
  rounded one.\<close>

theorem GetFutureImpl_correct_iff:
  "GetFutureImpl impl (futureCallbackOffset (MakeFuture_layout impl cb True val task))
     = futureImplOffset (MakeFuture_layout impl cb True val task) \<longleftrightarrow> IsAligned impl"
proof -
  have "GetAlignedSize impl = impl \<longleftrightarrow> IsAligned impl"
    using GetAlignedSize_of_aligned GetAlignedSize_IsAligned by metis
  then show ?thesis
    by (simp add: GetFutureImpl_def MakeFuture_layout_def Let_def ObjectAlignment_def) 
qed

end
