(* ===== verification/Future_Impl.thy ===== *)
theory Future_Impl
  imports Future_State
begin

text \<open>
  \<open>FutureImpl\<close> (\<open>libs/future/src/futureImpl.h\<close>, \<open>futureImpl.cpp\<close>): the traits, the future
  object, and for every method that loops on the state word the decision one round of the
  loop takes. The loops compare and exchange the word they decided on, so a round that
  changes the word is one atomic step on the current word; a round that loses the race or
  waits changes nothing and is tried again.
\<close>

section \<open>Traits and objects\<close>

type_synonym FutureOptions = "32 word"

definition IsShared :: FutureOptions where "IsShared = 0x01"
definition UseParentValue :: FutureOptions where "UseParentValue = 0x02"
definition IsMultiPost :: FutureOptions where "IsMultiPost = 0x04"
definition DestroyTaskAfterInvoke :: FutureOptions where "DestroyTaskAfterInvoke = 0x08"
definition CancelIfUnfulfilled :: FutureOptions where "CancelIfUnfulfilled = 0x10"
definition CallTaskInvokeOnError :: FutureOptions where "CallTaskInvokeOnError = 0x20"

definition IsSet :: "FutureOptions \<Rightarrow> FutureOptions \<Rightarrow> bool" where
  "IsSet options value \<longleftrightarrow> options AND value \<noteq> 0"

text \<open>The callbacks of the traits are user code; the state machine asks only whether they are there.\<close>

record FutureTraits =
  Options :: FutureOptions
  ValueSize :: "32 word"
  ValueDestroy :: bool
  TaskDestroy :: bool
  TaskPost :: bool
  TaskInvoke :: bool
  TaskCatch :: bool

text \<open>
  A future object. An empty \<open>ErrorCode\<close> is \<open>None\<close>. \<open>callback\<close> is the \<open>FutureCallback\<close> once it
  was made in its place: its flag \<open>m_isCalled\<close>.
\<close>

record 'e FutureImpl =
  m_traits :: FutureTraits
  m_stateAndContinuation :: "64 word"
  m_link :: ptr
  m_error :: "'e option"
  m_taskSize :: nat
  callback :: "bool option"

definition FutureImpl_new :: "FutureTraits \<Rightarrow> nat \<Rightarrow> 'e FutureImpl" where
  "FutureImpl_new traits taskSize =
     \<lparr>m_traits = traits, m_stateAndContinuation = 0, m_link = 0, m_error = None,
      m_taskSize = taskSize, callback = None\<rparr>"

definition fstate :: "'e FutureImpl \<Rightarrow> FutureState" where
  "fstate o1 = GetState (m_stateAndContinuation o1)"

definition fcont :: "'e FutureImpl \<Rightarrow> ptr" where
  "fcont o1 = GetContinuation (m_stateAndContinuation o1)"

definition HasContinuation :: "'e FutureImpl \<Rightarrow> bool" where
  "HasContinuation o1 \<longleftrightarrow> fcont o1 \<noteq> 0 \<and> fcont o1 \<noteq> ContinuationInvoked"

definition IsVoidValue :: "FutureTraits \<Rightarrow> bool" where
  "IsVoidValue t \<longleftrightarrow> ValueSize t = 0"

text \<open>What \<open>MakeFuture\<close> requires of its arguments.\<close>

definition MakeFuture_check :: "FutureTraits \<Rightarrow> nat \<Rightarrow> bool \<Rightarrow> unit outcome" where
  "MakeFuture_check traits taskSize taskBuffer =
     and_then (verify_else_crash (IsSet (Options traits) UseParentValue \<longrightarrow> ValueSize traits = 0)
       ''FutureOptions::UseParentValue requires that future does not have its own value.'') (\<lambda>_.
     and_then (verify_else_crash (TaskPost traits \<longrightarrow> TaskInvoke traits \<or> TaskCatch traits)
       ''TaskInvoke or TaskCatch callback is required if TaskPost callback is present.'') (\<lambda>_.
     and_then (verify_else_crash (IsSet (Options traits) IsMultiPost \<longrightarrow> \<not> TaskPost traits)
       ''MultiPost must not have TaskPost callback'') (\<lambda>_.
     and_then (verify_else_crash (IsSet (Options traits) IsMultiPost \<longrightarrow> TaskInvoke traits)
       ''MultiPost must have TaskInvoke callback'') (\<lambda>_.
     and_then (verify_else_crash (IsSet (Options traits) IsMultiPost \<longrightarrow> TaskCatch traits)
       ''MultiPost must have TaskCatch callback'') (\<lambda>_.
     and_then (verify_else_crash (IsSet (Options traits) IsMultiPost \<longrightarrow> \<not> IsSet (Options traits) UseParentValue)
       ''MultiPost cannot use parent value'') (\<lambda>_.
     and_then (verify_else_crash (taskSize = 0 \<or> taskBuffer)
       ''taskBuffer pointer must not be null for not zero taskSize'') (\<lambda>_.
     verify_else_crash (taskSize = 0 \<longrightarrow> \<not> taskBuffer) ''taskBuffer must be null'')))))))"

section \<open>Errors\<close>

fun AppendFutureStateToString :: "string \<Rightarrow> FutureState \<Rightarrow> string" where
  "AppendFutureStateToString str Pending = str @ ''Pending''"
| "AppendFutureStateToString str Posting = str @ ''Posting''"
| "AppendFutureStateToString str Posted = str @ ''Posted''"
| "AppendFutureStateToString str Invoking = str @ ''Invoking''"
| "AppendFutureStateToString str Awaiting = str @ ''Awaiting''"
| "AppendFutureStateToString str SettingResult = str @ ''SettingResult''"
| "AppendFutureStateToString str Succeeded = str @ ''Succeeded''"
| "AppendFutureStateToString str Failed = str @ ''Failed''"

definition UnexpectedState :: "FutureState \<Rightarrow> bool \<Rightarrow> string \<Rightarrow> bool outcome" where
  "UnexpectedState state crashIfFailed errorMessage =
     (if crashIfFailed
      then Crashes (VerifyElseCrash
        (AppendFutureStateToString ''State: '' state @ ''. '' @ errorMessage))
      else Returns False)"

section \<open>Decisions\<close>

text \<open>
  The outcome of one round: move to a state, wait a millisecond and look again, give up by
  returning, or stop the program; \<open>Unexpected\<close> stands for the call of \<open>UnexpectedState\<close>,
  which does one or the other depending on \<open>crashIfFailed\<close>.
\<close>

datatype decision =
    MoveTo FutureState
  | WaitAndRetry
  | GiveUp
  | Unexpected string
  | MustCrash string

text \<open>\<open>CheckFutureStateTag(condition, \<dots>)\<close> in front of what follows it.\<close>

definition check_state :: "bool \<Rightarrow> string \<Rightarrow> decision \<Rightarrow> decision" where
  "check_state condition msg d = (if \<not> condition then Unexpected msg else d)"

text \<open>\<open>sync\<close> is \<open>IsSynchronousCall()\<close>: the thread's current future is this one.\<close>

definition TrySetInvoking :: "bool \<Rightarrow> nat \<Rightarrow> FutureState \<Rightarrow> decision" where
  "TrySetInvoking sync waitCycles state =
     (case state of
        Posting \<Rightarrow>
          (if \<not> sync
           then if waitCycles - 1 = 0 then Unexpected ''Cannot move to Invoking state'' else WaitAndRetry
           else MoveTo Invoking)
      | Posted \<Rightarrow> MoveTo Invoking
      | _ \<Rightarrow> Unexpected ''Cannot move to Invoking state'')"

definition TryStartSetValue :: "FutureTraits \<Rightarrow> bool \<Rightarrow> bool \<Rightarrow> FutureState \<Rightarrow> decision" where
  "TryStartSetValue traits sync crashIfFailed state =
     (if ValueSize traits = 0
      then if crashIfFailed then MustCrash ''Value must not be of void type'' else GiveUp
      else case state of
        Pending \<Rightarrow>
          (if \<not> IsSet (Options traits) IsMultiPost
           then check_state (\<not> TaskInvoke traits) ''TaskInvoke must be called before setting value.''
                  (MoveTo SettingResult)
           else MoveTo SettingResult)
      | Invoking \<Rightarrow>
          check_state sync ''Value can be set from Invoking state only synchronously'' (MoveTo SettingResult)
      | Awaiting \<Rightarrow> MoveTo SettingResult
      | _ \<Rightarrow> Unexpected ''We cannot move to SettingResult from this state.'')"

definition StartAwaiting :: "FutureState \<Rightarrow> decision" where
  "StartAwaiting state =
     (if state \<noteq> Invoking then MustCrash ''Current state must be FutureState::Invoking''
      else MoveTo Awaiting)"

definition TrySetSuccess :: "FutureTraits \<Rightarrow> bool \<Rightarrow> FutureState \<Rightarrow> decision" where
  "TrySetSuccess traits sync state =
     (let voidValue = (\<lambda>d. check_state (IsVoidValue traits)
            ''Non-void value must be set before moving to Succeeded state.'' d)
      in case state of
        Pending \<Rightarrow>
          (if \<not> IsSet (Options traits) IsMultiPost
           then check_state (\<not> TaskInvoke traits) ''Task must be invoked before moving to Succeeded state.''
                (check_state (\<not> IsSet (Options traits) UseParentValue)
                  ''Futures that use parent value must move to Posting state before moving to Succeeded state.''
                (voidValue (MoveTo Succeeded)))
           else voidValue (MoveTo Succeeded))
      | Posting \<Rightarrow>
          check_state (\<not> TaskInvoke traits) ''Task must be invoked before moving to Succeeded state.''
          (check_state sync ''From Posting state we can move to Succeeded state only synchronously.''
          (check_state (IsSet (Options traits) UseParentValue)
             ''We can only move to Succeeded state from Posting state if future uses parent value.''
          (MoveTo Succeeded)))
      | Invoking \<Rightarrow>
          check_state sync ''From Invoking state we can move to Succeeded state only synchronously.''
          (voidValue (MoveTo Succeeded))
      | Awaiting \<Rightarrow> voidValue (MoveTo Succeeded)
      | SettingResult \<Rightarrow> MoveTo Succeeded
      | _ \<Rightarrow> Unexpected ''Cannot move to Succeeded state.'')"

definition TryStartSetError :: "bool \<Rightarrow> ptr \<Rightarrow> FutureState \<Rightarrow> decision" where
  "TryStartSetError sync link state =
     (case state of
        Pending \<Rightarrow>
          check_state (link = 0) ''Error cannot be set from Pending state if future is a part of linked list''
            (MoveTo SettingResult)
      | Posted \<Rightarrow> MoveTo SettingResult
      | Awaiting \<Rightarrow> MoveTo SettingResult
      | Posting \<Rightarrow> (if \<not> sync then WaitAndRetry else MoveTo SettingResult)
      | Invoking \<Rightarrow>
          check_state sync ''Error can be set from Invoking state only synchronously'' (MoveTo SettingResult)
      | _ \<Rightarrow> Unexpected ''From this state we cannot set error'')"

definition SetFailed :: "FutureState \<Rightarrow> decision" where
  "SetFailed state =
     (if state \<noteq> SettingResult then Unexpected ''Cannot move to Failed state'' else MoveTo Failed)"

definition TrySetPosted :: "bool \<Rightarrow> FutureState \<Rightarrow> decision" where
  "TrySetPosted sync state =
     (if \<not> sync then MustCrash ''Current future must own the thread''
      else if state \<noteq> Posting then GiveUp
      else MoveTo Posted)"

text \<open>The first loop of \<open>TryPostInternal\<close>.\<close>

definition TryStartPosting :: "ptr \<Rightarrow> FutureState \<Rightarrow> decision" where
  "TryStartPosting link state =
     (if state \<noteq> Pending
      then if link \<noteq> 0 then MustCrash ''State must be FutureState::Pending if m_link is not null''
           else Unexpected ''Post expects Pending state''
      else MoveTo Posting)"

text \<open>
  \<open>AddContinuation\<close>: whether another continuation is welcome. The traits are those of the
  parent and of the new continuation.
\<close>

definition AddContinuation_check :: "FutureTraits \<Rightarrow> FutureTraits \<Rightarrow> ptr \<Rightarrow> unit outcome" where
  "AddContinuation_check traits contTraits currentContinuation =
     verify_else_crash
       (currentContinuation \<noteq> 0 \<longrightarrow> IsSet (Options traits) IsShared
          \<or> (IsSet (Options contTraits) IsShared \<and> IsSet (Options contTraits) UseParentValue))
       ''AddContinuation called more than once for unique future.''"

lemmas decision_defs = TrySetInvoking_def TryStartSetValue_def StartAwaiting_def TrySetSuccess_def
  TryStartSetError_def SetFailed_def TrySetPosted_def TryStartPosting_def check_state_def

section \<open>The documented transitions\<close>

text \<open>The diagram in the header file, both parts of it.\<close>

definition documented_transition :: "FutureState \<Rightarrow> FutureState \<Rightarrow> bool" where
  "documented_transition s s' \<longleftrightarrow>
     (s, s') \<in> {(Pending, Succeeded), (Pending, SettingResult), (Pending, Posting),
                (Posting, Succeeded), (Posting, Invoking), (Posting, Posted), (Posting, SettingResult),
                (Posted, Invoking), (Posted, SettingResult),
                (Invoking, Succeeded), (Invoking, Awaiting), (Invoking, SettingResult),
                (Awaiting, Succeeded), (Awaiting, SettingResult),
                (SettingResult, Succeeded), (SettingResult, Failed)}"

lemma decisions_documented:
  "TrySetInvoking sync k s = MoveTo s' \<Longrightarrow> documented_transition s s'"
  "TryStartSetValue traits sync c s = MoveTo s' \<Longrightarrow> documented_transition s s'"
  "StartAwaiting s = MoveTo s' \<Longrightarrow> documented_transition s s'"
  "TrySetSuccess traits sync s = MoveTo s' \<Longrightarrow> documented_transition s s'"
  "TryStartSetError sync link s = MoveTo s' \<Longrightarrow> documented_transition s s'"
  "SetFailed s = MoveTo s' \<Longrightarrow> documented_transition s s'"
  "TrySetPosted sync s = MoveTo s' \<Longrightarrow> documented_transition s s'"
  "TryStartPosting link s = MoveTo s' \<Longrightarrow> documented_transition s s'"
  by (cases s; auto simp: decision_defs Let_def documented_transition_def split: if_splits)+

lemma documented_rank: "documented_transition s s' \<Longrightarrow> state_rank s < state_rank s'"
  by (auto simp: documented_transition_def)

lemma documented_target: "documented_transition s s' \<Longrightarrow> s' \<noteq> Pending"
  by (auto simp: documented_transition_def)

end
