(* ===== verification/Future_System.thy ===== *)
theory Future_System
  imports Future_Impl "HOL-Library.Multiset"
begin

text \<open>
  Futures in use: a heap of \<open>FutureImpl\<close> objects and any number of threads calling their
  methods. Each thread has the stack of what it still has to do; an entry is one round of a
  loop on the state word together with what the code does before its next call or its next
  access to a state word, so all interleavings at that grain are runs.

  Callbacks of the traits, destructors of tasks and the threads' own code are code of the
  client: an entry \<open>Client\<close> stands for a piece of it, which makes any calls it likes (that a
  predicate \<open>allowed\<close> lets it make) before it returns. Memory is not reclaimed: a destructor
  runs, but the object stays in the heap.
\<close>

section \<open>Threads and their work\<close>

text \<open>Where an error passed by rvalue reference lives: in a variable, or in a future.\<close>

datatype 'e error_ref = EValue "'e option" | EField ptr

datatype 'e fwork =
    Client
  | DoMakeFuture ptr FutureTraits nat bool
  | DoTryStartSetValue ptr bool
  | DoTrySetSuccess ptr bool
  | DoAfterSuccess ptr ptr
  | DoTrySetError ptr "'e error_ref" bool
  | DoSetError ptr "'e error_ref"
  | DoSetFailed ptr
  | DoAfterFailed ptr ptr
  | DoStartAwaiting ptr
  | DoAddContinuation ptr ptr
  | DoPost ptr
  | DoDeliver ptr ptr
  | DoPostContinuation ptr ptr
  | DoTaskPost ptr
  | DoTrySetPosted ptr
  | DoInvoke ptr nat
  | DoTaskInvoke ptr ptr
  | DoTaskCatch ptr "'e error_ref"
  | DoCallbackInvoke ptr
  | DoCallbackOnCancel ptr
  | DoCallbackDestroy ptr
  | DoLeaveCurrent
  | DoDestruct ptr
  | DoDestructRest ptr

datatype 'e fevent =
    Created ptr
  | ValueStarted ptr
  | Completed ptr FutureState
  | Added ptr ptr
  | Delivered ptr ptr
  | TaskInvoked ptr ptr
  | TaskCaught ptr
  | TaskDestroyed ptr
  | ValueDestroyed ptr

record 'e fworld =
  heap :: "ptr \<Rightarrow> 'e FutureImpl option"
  tls :: "thread_id \<Rightarrow> ptr list"
  fstack :: "thread_id \<Rightarrow> 'e fwork list"
  flog :: "'e fevent list"

definition with_future ::
  "'e fworld \<Rightarrow> ptr \<Rightarrow> ('e FutureImpl \<Rightarrow> 'b outcome) \<Rightarrow> 'b outcome" where
  "with_future w f k = (case heap w f of None \<Rightarrow> Crashes NullDereference | Some o1 \<Rightarrow> k o1)"

definition set_future :: "ptr \<Rightarrow> 'e FutureImpl \<Rightarrow> 'e fworld \<Rightarrow> 'e fworld" where
  "set_future f o1 w = w\<lparr>heap := (heap w)(f \<mapsto> o1)\<rparr>"

definition modify_future :: "ptr \<Rightarrow> ('e FutureImpl \<Rightarrow> 'e FutureImpl) \<Rightarrow> 'e fworld \<Rightarrow> 'e fworld" where
  "modify_future f g w = w\<lparr>heap := (heap w)(f := map_option g (heap w f))\<rparr>"

definition log_event :: "'e fevent \<Rightarrow> 'e fworld \<Rightarrow> 'e fworld" where
  "log_event e w = w\<lparr>flog := flog w @ [e]\<rparr>"

text \<open>The current future of a thread, \<open>s_currentFutureTls\<close>, as a stack of \<open>CurrentFutureImpl\<close>.\<close>

definition IsCurrent :: "thread_id \<Rightarrow> ptr \<Rightarrow> 'e fworld \<Rightarrow> bool" where
  "IsCurrent tid f w \<longleftrightarrow> (case tls w tid of [] \<Rightarrow> False | c # _ \<Rightarrow> c = f)"

definition push_current :: "thread_id \<Rightarrow> ptr \<Rightarrow> 'e fworld \<Rightarrow> 'e fworld" where
  "push_current tid f w = w\<lparr>tls := (tls w)(tid := f # tls w tid)\<rparr>"

definition pop_current :: "thread_id \<Rightarrow> 'e fworld \<Rightarrow> 'e fworld" where
  "pop_current tid w = w\<lparr>tls := (tls w)(tid := tl (tls w tid))\<rparr>"

text \<open>
  A round of a loop on the state word of \<open>f\<close>. A move keeps the continuation unless it
  completes the future, which takes the list of continuations and leaves the mark.
\<close>

definition completes :: "FutureState \<Rightarrow> bool" where
  "completes s \<longleftrightarrow> s = Succeeded \<or> s = Failed"

definition new_continuation :: "FutureState \<Rightarrow> ptr \<Rightarrow> ptr" where
  "new_continuation s continuation =
     (if completes s then if continuation \<noteq> 0 then ContinuationInvoked else 0 else continuation)"

definition move_state :: "ptr \<Rightarrow> FutureState \<Rightarrow> 'e FutureImpl \<Rightarrow> 'e fworld \<Rightarrow> 'e fworld" where
  "move_state f s o1 w =
     (let w1 = set_future f (o1\<lparr>m_stateAndContinuation := Make s (new_continuation s (fcont o1))\<rparr>) w
      in if completes s then log_event (Completed f s) w1 else w1)"

definition round_of ::
  "ptr \<Rightarrow> bool \<Rightarrow> 'e fwork \<Rightarrow> decision \<Rightarrow> 'e FutureImpl \<Rightarrow> 'e fworld
     \<Rightarrow> ('e FutureImpl \<Rightarrow> 'e fworld \<Rightarrow> ('e fwork list \<times> 'e fworld) outcome)
     \<Rightarrow> ('e fwork list \<times> 'e fworld) outcome" where
  "round_of f crashIfFailed again d o1 w k =
     (case d of
        MoveTo s \<Rightarrow> k (o1\<lparr>m_stateAndContinuation := Make s (new_continuation s (fcont o1))\<rparr>) (move_state f s o1 w)
      | WaitAndRetry \<Rightarrow> Returns ([again], w)
      | GiveUp \<Rightarrow> Returns ([], w)
      | Unexpected msg \<Rightarrow> and_then (UnexpectedState (fstate o1) crashIfFailed msg) (\<lambda>_. Returns ([], w))
      | MustCrash msg \<Rightarrow> Crashes (VerifyElseCrash msg))"

section \<open>What the entries do\<close>

definition exec_MakeFuture ::
  "ptr \<Rightarrow> FutureTraits \<Rightarrow> nat \<Rightarrow> bool \<Rightarrow> 'e fworld \<Rightarrow> ('e fwork list \<times> 'e fworld) outcome" where
  "exec_MakeFuture f traits taskSize taskBuffer w =
     and_then (MakeFuture_check traits taskSize taskBuffer) (\<lambda>_.
       Returns ([], log_event (Created f) (set_future f (FutureImpl_new traits taskSize) w)))"

definition exec_TryStartSetValue ::
  "thread_id \<Rightarrow> ptr \<Rightarrow> bool \<Rightarrow> 'e fworld \<Rightarrow> ('e fwork list \<times> 'e fworld) outcome" where
  "exec_TryStartSetValue tid f crashIfFailed w = with_future w f (\<lambda>o1.
     round_of f crashIfFailed (DoTryStartSetValue f crashIfFailed)
       (TryStartSetValue (m_traits o1) (IsCurrent tid f w) crashIfFailed (fstate o1)) o1 w
       (\<lambda>_ w1. Returns ([], log_event (ValueStarted f) w1)))"

definition exec_TrySetSuccess ::
  "thread_id \<Rightarrow> ptr \<Rightarrow> bool \<Rightarrow> 'e fworld \<Rightarrow> ('e fwork list \<times> 'e fworld) outcome" where
  "exec_TrySetSuccess tid f crashIfFailed w = with_future w f (\<lambda>o1.
     round_of f crashIfFailed (DoTrySetSuccess f crashIfFailed)
       (TrySetSuccess (m_traits o1) (IsCurrent tid f w) (fstate o1)) o1 w
       (\<lambda>_ w1. Returns ([DoAfterSuccess f (fcont o1)], w1)))"

text \<open>
  \<open>DestroyTask\<close>: the task is destroyed, by code of the client, at most once.
\<close>

definition DestroyTask ::
  "ptr \<Rightarrow> bool \<Rightarrow> 'e FutureImpl \<Rightarrow> 'e fworld \<Rightarrow> 'e fwork list \<times> 'e fworld" where
  "DestroyTask f isAfterInvoke o1 w =
     (if m_taskSize o1 > 0 \<and> TaskDestroy (m_traits o1)
         \<and> (\<not> isAfterInvoke \<or> IsSet (Options (m_traits o1)) DestroyTaskAfterInvoke)
      then ([Client], log_event (TaskDestroyed f) (set_future f (o1\<lparr>m_taskSize := 0\<rparr>) w))
      else ([], set_future f o1 w))"

definition exec_AfterSuccess ::
  "ptr \<Rightarrow> ptr \<Rightarrow> 'e fworld \<Rightarrow> ('e fwork list \<times> 'e fworld) outcome" where
  "exec_AfterSuccess f continuation w = with_future w f (\<lambda>o1.
     let o2 = (if m_link o1 \<noteq> 0 \<and> \<not> IsSet (Options (m_traits o1)) UseParentValue
               then o1\<lparr>m_link := 0\<rparr> else o1)
     in case DestroyTask f True (o2\<lparr>m_error := None\<rparr>) w of
          (ws, w1) \<Rightarrow> Returns (ws @ [DoDeliver f continuation], w1))"

definition exec_TrySetError ::
  "thread_id \<Rightarrow> ptr \<Rightarrow> 'e error_ref \<Rightarrow> bool \<Rightarrow> 'e fworld \<Rightarrow> ('e fwork list \<times> 'e fworld) outcome" where
  "exec_TrySetError tid f futureError crashIfFailed w = with_future w f (\<lambda>o1.
     round_of f crashIfFailed (DoTrySetError f futureError crashIfFailed)
       (TryStartSetError (IsCurrent tid f w) (m_link o1) (fstate o1)) o1 w
       (\<lambda>_ w1. Returns ([DoSetError f futureError], w1)))"

text \<open>\<open>m_error = std::move(futureError)\<close>: the source is emptied, unless it is \<open>m_error\<close> itself.\<close>

definition exec_SetError ::
  "ptr \<Rightarrow> 'e error_ref \<Rightarrow> 'e fworld \<Rightarrow> ('e fwork list \<times> 'e fworld) outcome" where
  "exec_SetError f futureError w = with_future w f (\<lambda>o1.
     case futureError of
       EValue e \<Rightarrow> Returns ([DoSetFailed f], set_future f (o1\<lparr>m_error := e\<rparr>) w)
     | EField p \<Rightarrow>
         if p = f then Returns ([DoSetFailed f], w)
         else with_future w p (\<lambda>o2.
           Returns ([DoSetFailed f],
             set_future p (o2\<lparr>m_error := None\<rparr>) (set_future f (o1\<lparr>m_error := m_error o2\<rparr>) w))))"

definition exec_SetFailed :: "ptr \<Rightarrow> 'e fworld \<Rightarrow> ('e fwork list \<times> 'e fworld) outcome" where
  "exec_SetFailed f w = with_future w f (\<lambda>o1.
     round_of f True (DoSetFailed f) (SetFailed (fstate o1)) o1 w
       (\<lambda>_ w1. Returns ([DoAfterFailed f (fcont o1)], w1)))"

definition exec_AfterFailed ::
  "ptr \<Rightarrow> ptr \<Rightarrow> 'e fworld \<Rightarrow> ('e fwork list \<times> 'e fworld) outcome" where
  "exec_AfterFailed f continuation w = with_future w f (\<lambda>o1.
     case DestroyTask f True (o1\<lparr>m_link := 0\<rparr>) w of
       (ws, w1) \<Rightarrow> Returns (ws @ [DoDeliver f continuation], w1))"

definition exec_Deliver ::
  "ptr \<Rightarrow> ptr \<Rightarrow> 'e fworld \<Rightarrow> ('e fwork list \<times> 'e fworld) outcome" where
  "exec_Deliver f continuation w =
     and_then (verify_else_crash (continuation \<noteq> ContinuationInvoked) ''Continuation must not be invoked yet.'')
       (\<lambda>_. Returns ([DoPostContinuation f continuation], w))"

definition exec_StartAwaiting :: "ptr \<Rightarrow> 'e fworld \<Rightarrow> ('e fwork list \<times> 'e fworld) outcome" where
  "exec_StartAwaiting f w = with_future w f (\<lambda>o1.
     round_of f True (DoStartAwaiting f) (StartAwaiting (fstate o1)) o1 w (\<lambda>_ w1. Returns ([], w1)))"

text \<open>
  \<open>AddContinuation\<close>: the new continuation is linked in front of the present ones, or, when the
  future is done, posted at once.
\<close>

definition exec_AddContinuation ::
  "ptr \<Rightarrow> ptr \<Rightarrow> 'e fworld \<Rightarrow> ('e fwork list \<times> 'e fworld) outcome" where
  "exec_AddContinuation f cont w =
     and_then (VerifyAlignment cont) (\<lambda>_.
     with_future w f (\<lambda>o1. with_future w cont (\<lambda>c1.
     and_then (AddContinuation_check (m_traits o1) (m_traits c1) (fcont o1)) (\<lambda>_.
       let isDone = completes (fstate o1);
           newContinuation = (if \<not> isDone then cont else ContinuationInvoked);
           w1 = modify_future cont (\<lambda>c. c\<lparr>m_link := if \<not> isDone then fcont o1 else 0\<rparr>) w;
           w2 = modify_future f (\<lambda>o2. o2\<lparr>m_stateAndContinuation := Make (fstate o1) newContinuation\<rparr>) w1
       in Returns (if isDone then [DoPostContinuation f cont] else [], log_event (Added f cont) w2)))))"

text \<open>What \<open>TryPostInternal\<close> takes over from the parent before it runs or schedules the task.\<close>

definition take_parent ::
  "ptr \<Rightarrow> 'e FutureImpl \<Rightarrow> 'e fworld \<Rightarrow> ('e FutureImpl) outcome" where
  "take_parent parent o1 w =
     (if parent = 0 then Returns o1
      else with_future w parent (\<lambda>p1.
        if completes (fstate p1)
        then if \<not> IsSet (Options (m_traits o1)) CallTaskInvokeOnError
             then if fstate p1 = Succeeded then Returns (o1\<lparr>m_link := parent\<rparr>)
                  else Returns (o1\<lparr>m_error := m_error p1\<rparr>)
             else Returns (o1\<lparr>m_link := parent\<rparr>)
        else and_then (UnexpectedState (fstate p1) True ''Unexpected parent state while posting'')
               (\<lambda>_. Returns o1)))"

text \<open>
  \<open>TryPostInternal(parent, next, crashIfFailed)\<close> on \<open>f\<close>, with \<open>rest next\<close> what the caller goes
  on with. In the multi-post branch \<open>next\<close> stays the null pointer it was.
\<close>

definition TryPostInternal ::
  "thread_id \<Rightarrow> ptr \<Rightarrow> ptr \<Rightarrow> bool \<Rightarrow> (ptr \<Rightarrow> 'e fwork list) \<Rightarrow> 'e fworld
     \<Rightarrow> ('e fwork list \<times> 'e fworld) outcome" where
  "TryPostInternal tid f parent crashIfFailed rest w = with_future w f (\<lambda>o1.
     if \<not> IsSet (Options (m_traits o1)) IsMultiPost
     then (case TryStartPosting (m_link o1) (fstate o1) of
             MoveTo s \<Rightarrow>
               and_then (verify_else_crash (parent \<noteq> 0 \<or> m_link o1 = 0)
                 ''Future must not be part of a list if parent is null'') (\<lambda>_.
               let next = m_link o1;
                   o2 = o1\<lparr>m_stateAndContinuation := Make s (new_continuation s (fcont o1)), m_link := 0\<rparr>;
                   w1 = push_current tid f (set_future f o2 w)
               in and_then (take_parent parent o2 w1) (\<lambda>o3.
                    if TaskPost (m_traits o1)
                    then Returns ([DoTaskPost f, DoTrySetPosted f, DoLeaveCurrent] @ rest next,
                                  set_future f (o3\<lparr>callback := Some False\<rparr>) w1)
                    else Returns ([DoInvoke f 10000, DoLeaveCurrent] @ rest next, set_future f o3 w1)))
           | Unexpected msg \<Rightarrow>
               and_then (UnexpectedState (fstate o1) crashIfFailed msg) (\<lambda>_. Returns (rest 0, w))
           | MustCrash msg \<Rightarrow> Crashes (VerifyElseCrash msg)
           | _ \<Rightarrow> Returns (rest 0, w))
     else and_then (verify_else_crash (parent \<noteq> 0) ''MultiPost parent must not be null'') (\<lambda>_.
          with_future w parent (\<lambda>p1.
            if fstate p1 = Succeeded
            then Returns ([DoTaskInvoke f parent, DoLeaveCurrent] @ rest 0, push_current tid f w)
            else if fstate p1 = Failed
            then Returns ([DoTaskCatch f (EField parent), DoLeaveCurrent] @ rest 0, push_current tid f w)
            else Crashes (VerifyElseCrash ''MultiPost parent is in unexpected state''))))"

definition exec_Post :: "thread_id \<Rightarrow> ptr \<Rightarrow> 'e fworld \<Rightarrow> ('e fwork list \<times> 'e fworld) outcome" where
  "exec_Post tid f w = TryPostInternal tid f 0 True (\<lambda>_. []) w"

text \<open>One round of the loop of \<open>PostContinuation\<close>.\<close>

definition exec_PostContinuation ::
  "thread_id \<Rightarrow> ptr \<Rightarrow> ptr \<Rightarrow> 'e fworld \<Rightarrow> ('e fwork list \<times> 'e fworld) outcome" where
  "exec_PostContinuation tid f continuation w =
     (if continuation = 0 then Returns ([], w)
      else TryPostInternal tid continuation f False (\<lambda>next. [DoPostContinuation f next])
             (log_event (Delivered f continuation) w))"

definition exec_TrySetPosted ::
  "thread_id \<Rightarrow> ptr \<Rightarrow> 'e fworld \<Rightarrow> ('e fwork list \<times> 'e fworld) outcome" where
  "exec_TrySetPosted tid f w = with_future w f (\<lambda>o1.
     round_of f False (DoTrySetPosted f) (TrySetPosted (IsCurrent tid f w) (fstate o1)) o1 w
       (\<lambda>_ w1. Returns ([], w1)))"

text \<open>\<open>Invoke\<close>: the task, or its error handler, is called once the state says \<open>Invoking\<close>.\<close>

definition exec_Invoke ::
  "thread_id \<Rightarrow> ptr \<Rightarrow> nat \<Rightarrow> 'e fworld \<Rightarrow> ('e fwork list \<times> 'e fworld) outcome" where
  "exec_Invoke tid f waitCycles w = with_future w f (\<lambda>o1.
     round_of f (IsCurrent tid f w) (DoInvoke f (waitCycles - 1))
       (TrySetInvoking (IsCurrent tid f w) waitCycles (fstate o1)) o1 w
       (\<lambda>o2 w1.
          let w2 = push_current tid f w1; t = m_traits o2 in
          case m_error o2 of
            None \<Rightarrow>
              if TaskInvoke t then Returns ([DoTaskInvoke f (m_link o2), DoLeaveCurrent], w2)
              else if IsSet (Options t) UseParentValue
              then and_then (verify_else_crash (m_link o2 \<noteq> 0) ''Parent must not be null'') (\<lambda>_.
                     Returns ([DoTrySetSuccess f True, DoLeaveCurrent], w2))
              else Crashes (VerifyElseCrash ''Invoke the future'')
          | Some e \<Rightarrow>
              if TaskCatch t then Returns ([DoTaskCatch f (EField f), DoLeaveCurrent], w2)
              else Returns ([DoTrySetError f (EField f) True, DoLeaveCurrent], w2)))"

text \<open>The calls into client code.\<close>

definition exec_TaskInvoke ::
  "ptr \<Rightarrow> ptr \<Rightarrow> 'e fworld \<Rightarrow> ('e fwork list \<times> 'e fworld) outcome" where
  "exec_TaskInvoke f parent w = Returns ([Client], log_event (TaskInvoked f parent) w)"

definition exec_TaskCatch ::
  "ptr \<Rightarrow> 'e fworld \<Rightarrow> ('e fwork list \<times> 'e fworld) outcome" where
  "exec_TaskCatch f w = Returns ([Client], log_event (TaskCaught f) w)"

text \<open>
  The destructor: an unfulfilled future must be one that may be cancelled, and is cancelled
  if somebody waits for it.
\<close>

definition exec_Destruct :: "'e \<Rightarrow> ptr \<Rightarrow> 'e fworld \<Rightarrow> ('e fwork list \<times> 'e fworld) outcome" where
  "exec_Destruct cancelled f w = with_future w f (\<lambda>o1.
     if \<not> completes (fstate o1)
     then and_then (verify_else_crash (IsSet (Options (m_traits o1)) CancelIfUnfulfilled)
            ''Cannot destroy unfulfilled future.'') (\<lambda>_.
          Returns ((if HasContinuation o1 then [DoTrySetError f (EValue (Some cancelled)) True] else [])
                   @ [DoDestructRest f], w))
     else Returns ([DoDestructRest f], w))"

definition exec_DestructRest :: "ptr \<Rightarrow> 'e fworld \<Rightarrow> ('e fwork list \<times> 'e fworld) outcome" where
  "exec_DestructRest f w = with_future w f (\<lambda>o1.
     let destroysValue = (ValueDestroy (m_traits o1) \<and> fstate o1 = Succeeded);
         w1 = (if destroysValue then log_event (ValueDestroyed f) w else w)
     in case DestroyTask f False o1 w1 of
          (ws, w2) \<Rightarrow> Returns ((if destroysValue then [Client] else []) @ ws, w2))"

section \<open>The callback object\<close>

definition with_callback ::
  "'e fworld \<Rightarrow> ptr \<Rightarrow> ('e FutureImpl \<Rightarrow> bool \<Rightarrow> 'b outcome) \<Rightarrow> 'b outcome" where
  "with_callback w f k = with_future w f (\<lambda>o1.
     case callback o1 of None \<Rightarrow> Crashes NullDereference | Some m_isCalled \<Rightarrow> k o1 m_isCalled)"

definition exec_CallbackInvoke :: "ptr \<Rightarrow> 'e fworld \<Rightarrow> ('e fwork list \<times> 'e fworld) outcome" where
  "exec_CallbackInvoke f w = with_callback w f (\<lambda>o1 m_isCalled.
     and_then (verify_else_crash (\<not> m_isCalled) ''FutureCallback is called twice'') (\<lambda>_.
       Returns ([DoInvoke f 10000], set_future f (o1\<lparr>callback := Some True\<rparr>) w)))"

text \<open>\<open>cancelled\<close> is \<open>CancellationErrorProvider().MakeErrorCode(true)\<close>, of the error library.\<close>

definition exec_CallbackOnCancel :: "'e \<Rightarrow> ptr \<Rightarrow> 'e fworld \<Rightarrow> ('e fwork list \<times> 'e fworld) outcome" where
  "exec_CallbackOnCancel cancelled f w = with_callback w f (\<lambda>o1 m_isCalled.
     and_then (verify_else_crash (\<not> m_isCalled) ''FutureCallback is called twice'') (\<lambda>_.
       Returns ([DoTrySetError f (EValue (Some cancelled)) False],
                set_future f (o1\<lparr>callback := Some True\<rparr>) w)))"

definition exec_CallbackDestroy :: "'e \<Rightarrow> ptr \<Rightarrow> 'e fworld \<Rightarrow> ('e fwork list \<times> 'e fworld) outcome" where
  "exec_CallbackDestroy cancelled f w = with_callback w f (\<lambda>o1 m_isCalled.
     Returns (if \<not> m_isCalled then [DoTrySetError f (EValue (Some cancelled)) False] else [],
              set_future f (o1\<lparr>callback := None\<rparr>) w))"

text \<open>\<open>TaskPost\<close> is client code that was given the callback.\<close>

fun exec_fwork ::
  "'e \<Rightarrow> thread_id \<Rightarrow> 'e fwork \<Rightarrow> 'e fworld \<Rightarrow> ('e fwork list \<times> 'e fworld) outcome" where
  "exec_fwork cancelled tid Client w = Returns ([], w)"
| "exec_fwork cancelled tid (DoMakeFuture f t n b) w = exec_MakeFuture f t n b w"
| "exec_fwork cancelled tid (DoTryStartSetValue f c) w = exec_TryStartSetValue tid f c w"
| "exec_fwork cancelled tid (DoTrySetSuccess f c) w = exec_TrySetSuccess tid f c w"
| "exec_fwork cancelled tid (DoAfterSuccess f c) w = exec_AfterSuccess f c w"
| "exec_fwork cancelled tid (DoTrySetError f e c) w = exec_TrySetError tid f e c w"
| "exec_fwork cancelled tid (DoSetError f e) w = exec_SetError f e w"
| "exec_fwork cancelled tid (DoSetFailed f) w = exec_SetFailed f w"
| "exec_fwork cancelled tid (DoAfterFailed f c) w = exec_AfterFailed f c w"
| "exec_fwork cancelled tid (DoStartAwaiting f) w = exec_StartAwaiting f w"
| "exec_fwork cancelled tid (DoAddContinuation f c) w = exec_AddContinuation f c w"
| "exec_fwork cancelled tid (DoPost f) w = exec_Post tid f w"
| "exec_fwork cancelled tid (DoDeliver f c) w = exec_Deliver f c w"
| "exec_fwork cancelled tid (DoPostContinuation f c) w = exec_PostContinuation tid f c w"
| "exec_fwork cancelled tid (DoTaskPost f) w = Returns ([Client], w)"
| "exec_fwork cancelled tid (DoTrySetPosted f) w = exec_TrySetPosted tid f w"
| "exec_fwork cancelled tid (DoInvoke f k) w = exec_Invoke tid f k w"
| "exec_fwork cancelled tid (DoTaskInvoke f p) w = exec_TaskInvoke f p w"
| "exec_fwork cancelled tid (DoTaskCatch f e) w = exec_TaskCatch f w"
| "exec_fwork cancelled tid (DoCallbackInvoke f) w = exec_CallbackInvoke f w"
| "exec_fwork cancelled tid (DoCallbackOnCancel f) w = exec_CallbackOnCancel cancelled f w"
| "exec_fwork cancelled tid (DoCallbackDestroy f) w = exec_CallbackDestroy cancelled f w"
| "exec_fwork cancelled tid DoLeaveCurrent w = Returns ([], pop_current tid w)"
| "exec_fwork cancelled tid (DoDestruct f) w = exec_Destruct cancelled f w"
| "exec_fwork cancelled tid (DoDestructRest f) w = exec_DestructRest f w"

section \<open>Runs\<close>

text \<open>The calls a client can make.\<close>

fun client_call :: "'e fwork \<Rightarrow> bool" where
  "client_call (DoMakeFuture f t n b) = True"
| "client_call (DoTryStartSetValue f c) = True"
| "client_call (DoTrySetSuccess f c) = True"
| "client_call (DoTrySetError f e c) = True"
| "client_call (DoStartAwaiting f) = True"
| "client_call (DoAddContinuation f c) = True"
| "client_call (DoPost f) = True"
| "client_call (DoCallbackInvoke f) = True"
| "client_call (DoCallbackOnCancel f) = True"
| "client_call (DoCallbackDestroy f) = True"
| "client_call (DoDestruct f) = True"
| "client_call _ = False"

definition initial_fworld :: "'e fworld" where
  "initial_fworld = \<lparr>heap = Map.empty, tls = (\<lambda>_. []), fstack = (\<lambda>_. []), flog = []\<rparr>"

text \<open>
  A step: a thread in client code (its own, or a callback's) starts a call, which takes its
  first round at once, or returns; or a thread goes on with an entry of the library. What a
  client may call, and when, is a predicate \<open>allowed\<close> on the state and the call.
\<close>

inductive fut_step ::
  "('e fworld \<Rightarrow> 'e fwork \<Rightarrow> bool) \<Rightarrow> 'e \<Rightarrow> nat \<Rightarrow> 'e fworld \<Rightarrow> 'e fworld \<Rightarrow> bool"
  for allowed cancelled n where
  client: "tid < n \<Longrightarrow> fstack w tid = xs \<Longrightarrow> xs = [] \<or> hd xs = Client \<Longrightarrow> client_call c \<Longrightarrow> allowed w c \<Longrightarrow>
     exec_fwork cancelled tid c w = Returns (new, w1) \<Longrightarrow>
     fut_step allowed cancelled n w (w1\<lparr>fstack := (fstack w1)(tid := new @ xs)\<rparr>)"
| exec: "tid < n \<Longrightarrow> fstack w tid = x # xs \<Longrightarrow> exec_fwork cancelled tid x w = Returns (new, w1) \<Longrightarrow>
     fut_step allowed cancelled n w (w1\<lparr>fstack := (fstack w1)(tid := new @ xs)\<rparr>)"

inductive fut_reachable ::
  "('e fworld \<Rightarrow> 'e fwork \<Rightarrow> bool) \<Rightarrow> 'e \<Rightarrow> nat \<Rightarrow> 'e fworld \<Rightarrow> bool"
  for allowed cancelled n where
  initial: "fut_reachable allowed cancelled n initial_fworld"
| step: "fut_reachable allowed cancelled n w \<Longrightarrow> fut_step allowed cancelled n w w' \<Longrightarrow>
     fut_reachable allowed cancelled n w'"

section \<open>Reading results\<close>

text \<open>
  \<open>GetValue\<close> yields the future whose memory holds the value: a future that uses its parent's
  value asks the parent. Each round follows one link.
\<close>

fun GetValue :: "nat \<Rightarrow> 'e fworld \<Rightarrow> ptr \<Rightarrow> ptr outcome" where
  "GetValue 0 w f = Unfinished"
| "GetValue (Suc k) w f = with_future w f (\<lambda>o1.
     if fstate o1 = Succeeded
     then if IsSet (Options (m_traits o1)) UseParentValue then GetValue k w (m_link o1) else Returns f
     else Crashes (VerifyElseCrash ''Value is not initialized''))"

definition GetError :: "'e fworld \<Rightarrow> ptr \<Rightarrow> 'e outcome" where
  "GetError w f = with_future w f (\<lambda>o1.
     case m_error o1 of
       Some e \<Rightarrow> if fstate o1 = Failed then Returns e
                 else Crashes (VerifyElseCrash ''Error is not initialized'')
     | None \<Rightarrow> Crashes (VerifyElseCrash ''Error is not initialized''))"

end
