(* ===== verification/Future_Transitions.thy ===== *)
theory Future_Transitions
  imports Future_System
begin

text \<open>
  What every step of a system of futures keeps: states move along the documented diagram, a
  future completes at most once, and the task of a future is called at most once.
\<close>

section \<open>One entry\<close>

lemma case_Returns [outcome_simps]:
  "(case p of (a, b) \<Rightarrow> k a b) = Returns r \<longleftrightarrow> (\<exists>a b. p = (a, b) \<and> k a b = Returns r)"
  "(case e of EValue v \<Rightarrow> h v | EField q \<Rightarrow> g q) = Returns r \<longleftrightarrow>
     (\<exists>v. e = EValue v \<and> h v = Returns r) \<or> (\<exists>q. e = EField q \<and> g q = Returns r)"
  by (cases p; simp) (cases e; simp)

lemma with_future_Returns [outcome_simps]:
  "with_future w f k = Returns r \<longleftrightarrow> (\<exists>o1. heap w f = Some o1 \<and> k o1 = Returns r)"
  by (auto simp: with_future_def split: option.splits)

lemma with_callback_Returns [outcome_simps]:
  "with_callback w f k = Returns r \<longleftrightarrow>
     (\<exists>o1 b. heap w f = Some o1 \<and> callback o1 = Some b \<and> k o1 b = Returns r)"
  by (auto simp: with_callback_def outcome_simps split: option.splits)

lemma UnexpectedState_Returns [outcome_simps]:
  "UnexpectedState s c msg = Returns b \<longleftrightarrow> \<not> c \<and> \<not> b"
  by (auto simp: UnexpectedState_def)

text \<open>A round of a loop moves, waits, or gives up.\<close>

lemma round_of_cases:
  assumes "round_of f c again d o1 w k = Returns (new, w1)"
  obtains (move) s where "d = MoveTo s"
      and "k (o1\<lparr>m_stateAndContinuation := Make s (new_continuation s (fcont o1))\<rparr>) (move_state f s o1 w)
             = Returns (new, w1)"
    | (wait) "d = WaitAndRetry" and "new = [again]" and "w1 = w"
    | (stop) "new = []" and "w1 = w"
  using assms by (cases d) (auto simp: round_of_def outcome_simps)

lemma world_simps [simp, frame_simps]:
  "heap (set_future f o1 w) = (heap w)(f \<mapsto> o1)" "tls (set_future f o1 w) = tls w"
  "fstack (set_future f o1 w) = fstack w" "flog (set_future f o1 w) = flog w"
  "heap (modify_future f g w) = (heap w)(f := map_option g (heap w f))"
  "tls (modify_future f g w) = tls w" "fstack (modify_future f g w) = fstack w"
  "flog (modify_future f g w) = flog w"
  "heap (log_event e w) = heap w" "tls (log_event e w) = tls w"
  "fstack (log_event e w) = fstack w" "flog (log_event e w) = flog w @ [e]"
  "heap (push_current tid f w) = heap w" "fstack (push_current tid f w) = fstack w"
  "flog (push_current tid f w) = flog w"
  "heap (pop_current tid w) = heap w" "fstack (pop_current tid w) = fstack w"
  "flog (pop_current tid w) = flog w"
  by (simp_all add: set_future_def modify_future_def log_event_def push_current_def pop_current_def)

lemma move_state_simps [simp]:
  "heap (move_state f s o1 w) =
     (heap w)(f \<mapsto> o1\<lparr>m_stateAndContinuation := Make s (new_continuation s (fcont o1))\<rparr>)"
  "tls (move_state f s o1 w) = tls w" "fstack (move_state f s o1 w) = fstack w"
  "flog (move_state f s o1 w) = flog w @ (if completes s then [Completed f s] else [])"
  by (simp_all add: move_state_def Let_def)

lemma aligned_fcont [simp]: "aligned (fcont o1)" "aligned (new_continuation s (fcont o1))"
  by (simp_all add: fcont_def new_continuation_def)

lemma fstate_simps [simp]:
  "fstate (o1\<lparr>m_stateAndContinuation := Make s (new_continuation s (fcont o1))\<rparr>) = s"
  "aligned c \<Longrightarrow> fstate (o2\<lparr>m_stateAndContinuation := Make s c\<rparr>) = s"
  "fstate (o2\<lparr>m_link := l\<rparr>) = fstate o2" "fstate (o2\<lparr>m_error := e\<rparr>) = fstate o2"
  "fstate (o2\<lparr>m_taskSize := n\<rparr>) = fstate o2" "fstate (o2\<lparr>callback := b\<rparr>) = fstate o2"
  "fcont (o1\<lparr>m_stateAndContinuation := Make s (new_continuation s (fcont o1))\<rparr>) = new_continuation s (fcont o1)"
  "aligned c \<Longrightarrow> fcont (o2\<lparr>m_stateAndContinuation := Make s c\<rparr>) = c"
  "fcont (o2\<lparr>m_link := l\<rparr>) = fcont o2" "fcont (o2\<lparr>m_error := e\<rparr>) = fcont o2"
  "fcont (o2\<lparr>m_taskSize := n\<rparr>) = fcont o2" "fcont (o2\<lparr>callback := b\<rparr>) = fcont o2"
  by (simp_all add: fstate_def fcont_def new_continuation_def)

lemma fstate_new [simp]: "fstate (FutureImpl_new t n) = Pending" "fcont (FutureImpl_new t n) = 0"
  by (simp_all add: fstate_def fcont_def FutureImpl_new_def)

lemma VerifyAlignment_aligned [outcome_simps]: "VerifyAlignment c = Returns u \<longleftrightarrow> aligned c"
  by (simp add: VerifyAlignment_def aligned_def outcome_simps)

text \<open>How an object can change in one step.\<close>

definition evolves :: "'e FutureImpl \<Rightarrow> 'e FutureImpl \<Rightarrow> bool" where
  "evolves o1 o2 \<longleftrightarrow> m_traits o2 = m_traits o1
     \<and> (fstate o2 = fstate o1 \<or> documented_transition (fstate o1) (fstate o2))"

lemma evolves_refl [simp]: "evolves o1 o1"
  by (simp add: evolves_def)

definition heap_evolves :: "'e fworld \<Rightarrow> 'e fworld \<Rightarrow> bool" where
  "heap_evolves w w1 \<longleftrightarrow> (\<forall>f o1. heap w f = Some o1 \<longrightarrow> (\<exists>o2. heap w1 f = Some o2 \<and> evolves o1 o2))"

lemma heap_evolvesI:
  assumes "heap w1 = (heap w)(f \<mapsto> o2)" and "heap w f = None \<or> (\<exists>o1. heap w f = Some o1 \<and> evolves o1 o2)"
  shows "heap_evolves w w1"
  using assms by (auto simp: heap_evolves_def)

lemma heap_evolves_same: "heap w1 = heap w \<Longrightarrow> heap_evolves w w1"
  by (auto simp: heap_evolves_def)

lemma round_evolves:
  assumes "round_of f c again d o1 w k = Returns (new, w1)" and "heap w f = Some o1"
    and "\<And>s. d = MoveTo s \<Longrightarrow> documented_transition (fstate o1) s"
    and "\<And>s o2 w2. o2 = o1\<lparr>m_stateAndContinuation := Make s (new_continuation s (fcont o1))\<rparr> \<Longrightarrow>
        k o2 w2 = Returns (new, w1) \<Longrightarrow> heap w1 = heap w2"
  shows "heap_evolves w w1"
  using assms(1)
proof (cases rule: round_of_cases)
  case (move s)
  then have "heap w1 = heap (move_state f s o1 w)" using assms(4) by blast
  moreover have "evolves o1 (o1\<lparr>m_stateAndContinuation := Make s (new_continuation s (fcont o1))\<rparr>)"
    using assms(3) [OF move(1)] by (simp add: evolves_def)
  ultimately show ?thesis using assms(2) by (intro heap_evolvesI [where f = f]) auto
qed (auto intro: heap_evolves_same)

lemma evolves_simps [simp]:
  "evolves o1 (o2\<lparr>m_link := l\<rparr>) \<longleftrightarrow> evolves o1 o2" "evolves o1 (o2\<lparr>m_error := e\<rparr>) \<longleftrightarrow> evolves o1 o2"
  "evolves o1 (o2\<lparr>m_taskSize := n\<rparr>) \<longleftrightarrow> evolves o1 o2" "evolves o1 (o2\<lparr>callback := b\<rparr>) \<longleftrightarrow> evolves o1 o2"
  "aligned c \<Longrightarrow> evolves o1 (o1\<lparr>m_stateAndContinuation := Make (fstate o1) c\<rparr>)"
  by (simp_all add: evolves_def)

lemma heap_evolves_set: "heap w f = Some o1 \<Longrightarrow> evolves o1 o2 \<Longrightarrow> heap_evolves w (set_future f o2 w)"
  by (intro heap_evolvesI [where f = f]) auto

lemma heap_evolves_modify:
  "(\<And>o1. heap w f = Some o1 \<Longrightarrow> evolves o1 (g o1)) \<Longrightarrow> heap_evolves w (modify_future f g w)"
  by (auto simp: heap_evolves_def)

lemma heap_evolves_heap_eq: "heap_evolves w w1 \<Longrightarrow> heap w2 = heap w1 \<Longrightarrow> heap_evolves w w2"
  by (simp add: heap_evolves_def)

lemma DestroyTask_cases:
  assumes "DestroyTask f b o1 w = (ws, w1)"
  obtains "ws = []" and "w1 = set_future f o1 w"
    | "ws = [Client]" and "w1 = log_event (TaskDestroyed f) (set_future f (o1\<lparr>m_taskSize := 0\<rparr>) w)"
  using assms by (auto simp: DestroyTask_def split: if_splits)

text \<open>Only making a future at an address in use would go wrong.\<close>

fun makes_fresh :: "'e fworld \<Rightarrow> 'e fwork \<Rightarrow> bool" where
  "makes_fresh w (DoMakeFuture f t n b) = (heap w f = None)"
| "makes_fresh w _ = True"

lemma take_parent_same:
  "take_parent p o1 w = Returns o2 \<Longrightarrow>
     m_traits o2 = m_traits o1 \<and> fstate o2 = fstate o1 \<and> fcont o2 = fcont o1"
  by (auto simp: take_parent_def outcome_simps split: if_splits)

text \<open>The ways a post can go: into the posting state, into a multi-post callback, or nowhere.\<close>

lemma TryPostInternal_cases:
  assumes "TryPostInternal tid f p c rest w = Returns (new, w1)"
  obtains (posting) o1 o2 o3 ws where "heap w f = Some o1" and "fstate o1 = Pending"
      and "\<not> IsSet (Options (m_traits o1)) IsMultiPost" and "p \<noteq> 0 \<or> m_link o1 = 0"
      and "o2 = o1\<lparr>m_stateAndContinuation := Make Posting (fcont o1), m_link := 0\<rparr>"
      and "take_parent p o2 (push_current tid f (set_future f o2 w)) = Returns o3"
      and "ws \<in> {[DoTaskPost f, DoTrySetPosted f, DoLeaveCurrent], [DoInvoke f 10000, DoLeaveCurrent]}"
      and "new = ws @ rest (m_link o1)"
      and "w1 = set_future f o3 (push_current tid f (set_future f o2 w))
           \<or> w1 = set_future f (o3\<lparr>callback := Some False\<rparr>) (push_current tid f (set_future f o2 w))"
    | (multi) o1 p1 ws where "heap w f = Some o1" and "heap w p = Some p1"
      and "IsSet (Options (m_traits o1)) IsMultiPost" and "p \<noteq> 0" and "w1 = push_current tid f w"
      and "ws \<in> {[DoTaskInvoke f p, DoLeaveCurrent], [DoTaskCatch f (EField p), DoLeaveCurrent]}"
      and "new = ws @ rest 0"
    | (nothing) o1 where "heap w f = Some o1" and "fstate o1 \<noteq> Pending" and "m_link o1 = 0"
      and "\<not> IsSet (Options (m_traits o1)) IsMultiPost" and "new = rest 0" and "w1 = w"
proof -
  from assms obtain o1 where o1: "heap w f = Some o1"
    by (auto simp: TryPostInternal_def outcome_simps)
  show thesis
  proof (cases "IsSet (Options (m_traits o1)) IsMultiPost")
    case True
    with assms o1 that(2) show thesis
      by (auto simp: TryPostInternal_def outcome_simps split: if_splits)
  next
    case multi: False
    show thesis
    proof (cases "fstate o1 = Pending")
      case True
      let ?o2 = "o1\<lparr>m_stateAndContinuation := Make Posting (fcont o1), m_link := 0\<rparr>"
      let ?w = "push_current tid f (set_future f ?o2 w)"
      from True multi assms o1 obtain o3 where o3: "take_parent p ?o2 ?w = Returns o3"
        and p: "p \<noteq> 0 \<or> m_link o1 = 0"
        and r: "(if TaskPost (m_traits o1)
          then ([DoTaskPost f, DoTrySetPosted f, DoLeaveCurrent] @ rest (m_link o1),
                set_future f (o3\<lparr>callback := Some False\<rparr>) ?w)
          else ([DoInvoke f 10000, DoLeaveCurrent] @ rest (m_link o1), set_future f o3 ?w)) = (new, w1)"
        by (auto simp: TryPostInternal_def outcome_simps TryStartPosting_def Let_def
            new_continuation_def completes_def split: if_splits)
      show thesis
        by (rule that(1) [OF o1 True multi p refl o3, where ws = "if TaskPost (m_traits o1)
            then [DoTaskPost f, DoTrySetPosted f, DoLeaveCurrent] else [DoInvoke f 10000, DoLeaveCurrent]"])
          (use r in \<open>auto split: if_splits\<close>)
    next
      case False
      with multi assms o1 show thesis
        by (intro that(3) [OF o1])
          (auto simp: TryPostInternal_def outcome_simps TryStartPosting_def split: if_splits)
    qed
  qed
qed

lemma TryPostInternal_evolves:
  assumes "TryPostInternal tid f p c rest w = Returns (new, w1)"
  shows "heap_evolves w w1"
  using assms
proof (cases rule: TryPostInternal_cases)
  case (posting o1 o2 o3 ws)
  have "evolves o1 o3" using take_parent_same [OF posting(6)] posting(2,5)
    by (auto simp: evolves_def documented_transition_def fcont_def)
  with posting show ?thesis by (auto simp: heap_evolves_def)
qed (auto intro: heap_evolves_same)

lemma exec_round_evolves:
  "exec_TryStartSetValue tid f c w = Returns (new, w1) \<Longrightarrow> heap_evolves w w1"
  "exec_TrySetSuccess tid f c w = Returns (new, w1) \<Longrightarrow> heap_evolves w w1"
  "exec_TrySetError tid f e c w = Returns (new, w1) \<Longrightarrow> heap_evolves w w1"
  "exec_SetFailed f w = Returns (new, w1) \<Longrightarrow> heap_evolves w w1"
  "exec_StartAwaiting f w = Returns (new, w1) \<Longrightarrow> heap_evolves w w1"
  "exec_TrySetPosted tid f w = Returns (new, w1) \<Longrightarrow> heap_evolves w w1"
  unfolding exec_TryStartSetValue_def exec_TrySetSuccess_def exec_TrySetError_def exec_SetFailed_def
    exec_StartAwaiting_def exec_TrySetPosted_def with_future_Returns
  by (elim exE conjE, erule (1) round_evolves; auto dest: decisions_documented)+

lemma exec_Invoke_evolves:
  "exec_Invoke tid f k w = Returns (new, w1) \<Longrightarrow> heap_evolves w w1"
  unfolding exec_Invoke_def with_future_Returns
  by (elim exE conjE, erule (1) round_evolves)
    (auto dest: decisions_documented simp: Let_def outcome_simps split: option.splits if_splits)

lemma exec_plain_evolves:
  "exec_AfterSuccess f c w = Returns (new, w1) \<Longrightarrow> heap_evolves w w1"
  "exec_AfterFailed f c w = Returns (new, w1) \<Longrightarrow> heap_evolves w w1"
  "exec_DestructRest f w = Returns (new, w1) \<Longrightarrow> heap_evolves w w1"
  "exec_Destruct cancelled f w = Returns (new, w1) \<Longrightarrow> heap_evolves w w1"
  by (auto simp: exec_AfterSuccess_def exec_AfterFailed_def exec_DestructRest_def exec_Destruct_def
      outcome_simps Let_def heap_evolves_def split: if_split_asm elim!: DestroyTask_cases)

lemma exec_SetError_evolves:
  "exec_SetError f e w = Returns (new, w1) \<Longrightarrow> heap_evolves w w1"
  by (auto simp: exec_SetError_def outcome_simps heap_evolves_def
      split: if_split_asm)

lemma exec_AddContinuation_evolves:
  "exec_AddContinuation f c w = Returns (new, w1) \<Longrightarrow> heap_evolves w w1"
  by (auto simp: exec_AddContinuation_def outcome_simps Let_def heap_evolves_def evolves_def split: if_splits)

lemma exec_Callback_evolves:
  "exec_CallbackInvoke f w = Returns (new, w1) \<Longrightarrow> heap_evolves w w1"
  "exec_CallbackOnCancel cancelled f w = Returns (new, w1) \<Longrightarrow> heap_evolves w w1"
  "exec_CallbackDestroy cancelled f w = Returns (new, w1) \<Longrightarrow> heap_evolves w w1"
  by (auto simp: exec_CallbackInvoke_def exec_CallbackOnCancel_def exec_CallbackDestroy_def
      outcome_simps intro!: heap_evolves_set)

lemma exec_fwork_evolves:
  assumes exec: "exec_fwork cancelled tid x w = Returns (new, w1)" and fresh: "makes_fresh w x"
  shows "heap_evolves w w1"
proof (cases x)
  case (DoMakeFuture f t n b)
  with assms show ?thesis
    by (auto simp: exec_MakeFuture_def outcome_simps intro!: heap_evolvesI [where f = f])
next
  case (DoPostContinuation f c)
  with exec show ?thesis
    by (auto simp: exec_PostContinuation_def heap_evolves_def split: if_splits
        dest!: TryPostInternal_evolves)
next
  case (DoPost f)
  with exec show ?thesis by (auto simp: exec_Post_def intro: TryPostInternal_evolves)
next
  case (DoDeliver f c)
  with exec show ?thesis by (auto simp: exec_Deliver_def outcome_simps intro: heap_evolves_same)
qed (use exec in \<open>auto simp: exec_TaskInvoke_def exec_TaskCatch_def
      intro: exec_round_evolves exec_Invoke_evolves exec_plain_evolves exec_SetError_evolves
        exec_AddContinuation_evolves exec_Callback_evolves heap_evolves_same\<close>)

end
