(* ===== verification/Future_Once.thy ===== *)
theory Future_Once
  imports Future_Transitions
begin

text \<open>
  Counting what happens to one future: it completes once, and its task or its error handler
  is called at most once, on whatever threads, unless it is a multi-post future.
\<close>

definition completions :: "ptr \<Rightarrow> 'e fevent list \<Rightarrow> nat" where
  "completions f es = length (filter (\<lambda>e. case e of Completed g s \<Rightarrow> g = f | _ \<Rightarrow> False) es)"

definition task_calls :: "ptr \<Rightarrow> 'e fevent list \<Rightarrow> nat" where
  "task_calls f es = length (filter (\<lambda>e. case e of TaskInvoked g p \<Rightarrow> g = f | TaskCaught g \<Rightarrow> g = f
     | _ \<Rightarrow> False) es)"

definition due_calls :: "ptr \<Rightarrow> 'e fwork list \<Rightarrow> nat" where
  "due_calls f ws = length (filter (\<lambda>x. case x of DoTaskInvoke g p \<Rightarrow> g = f | DoTaskCatch g e \<Rightarrow> g = f
     | _ \<Rightarrow> False) ws)"

text \<open>The traits and the state at an address.\<close>

definition state_at :: "'e fworld \<Rightarrow> ptr \<Rightarrow> (FutureTraits \<times> FutureState) option" where
  "state_at w f = map_option (\<lambda>o1. (m_traits o1, fstate o1)) (heap w f)"

definition is_done :: "'e fworld \<Rightarrow> ptr \<Rightarrow> bool" where
  "is_done w f \<longleftrightarrow> (case state_at w f of Some (t, s) \<Rightarrow> completes s | None \<Rightarrow> False)"

definition was_invoking :: "'e fworld \<Rightarrow> ptr \<Rightarrow> bool" where
  "was_invoking w f \<longleftrightarrow> (case state_at w f of Some (t, s) \<Rightarrow> state_rank s \<ge> 3 | None \<Rightarrow> False)"

definition multi_post :: "'e fworld \<Rightarrow> ptr \<Rightarrow> bool" where
  "multi_post w f \<longleftrightarrow> (case state_at w f of Some (t, s) \<Rightarrow> IsSet (Options t) IsMultiPost | None \<Rightarrow> False)"

text \<open>A step moves a future to \<open>Invoking\<close>, from a state before it.\<close>

definition enters_invoking :: "ptr \<Rightarrow> 'e fworld \<Rightarrow> 'e fworld \<Rightarrow> bool" where
  "enters_invoking f w w1 \<longleftrightarrow>
     (case (state_at w f, state_at w1 f) of
        (Some (t, s), Some (t1, s1)) \<Rightarrow> state_rank s < state_rank Invoking \<and> s1 = Invoking
      | _ \<Rightarrow> False)"

lemmas view_defs = is_done_def was_invoking_def multi_post_def

lemma state_at_set [simp]: "state_at (set_future f o1 w) = (state_at w)(f \<mapsto> (m_traits o1, fstate o1))"
  by (auto simp: state_at_def)

lemma state_at_same [simp]:
  "state_at (log_event e w) = state_at w" "state_at (push_current tid f w) = state_at w"
  "state_at (pop_current tid w) = state_at w" "state_at (w\<lparr>fstack := s\<rparr>) = state_at w"
  by (auto simp: state_at_def)

lemma state_at_triv [simp]: "heap w f = Some o1 \<Longrightarrow> (state_at w)(f \<mapsto> (m_traits o1, fstate o1)) = state_at w"
  by (auto simp: state_at_def)

lemma state_at_triv2 [simp]:
  "heap w f = Some o1 \<Longrightarrow> fstate o1 = s \<Longrightarrow> (state_at w)(f \<mapsto> (m_traits o1, s)) = state_at w"
  by auto

lemma state_at_Some: "heap w f = Some o1 \<Longrightarrow> state_at w f = Some (m_traits o1, fstate o1)"
  by (simp add: state_at_def)

lemma state_at_move [simp]: "state_at (move_state f s o1 w) = (state_at w)(f \<mapsto> (m_traits o1, s))"
  by (auto simp: state_at_def)

lemma DestroyTask_state_at:
  "DestroyTask f b o1 w = (ws, w1) \<Longrightarrow> state_at w1 = (state_at w)(f \<mapsto> (m_traits o1, fstate o1))"
  by (elim DestroyTask_cases) simp_all

text \<open>Most entries change no state.\<close>

lemma exec_plain_state_at:
  "exec_AfterSuccess f c w = Returns (new, w1) \<Longrightarrow> state_at w1 = state_at w"
  "exec_AfterFailed f c w = Returns (new, w1) \<Longrightarrow> state_at w1 = state_at w"
  "exec_DestructRest f w = Returns (new, w1) \<Longrightarrow> state_at w1 = state_at w"
  "exec_Destruct cancelled f w = Returns (new, w1) \<Longrightarrow> state_at w1 = state_at w"
  "exec_CallbackInvoke f w = Returns (new, w1) \<Longrightarrow> state_at w1 = state_at w"
  "exec_CallbackOnCancel cancelled f w = Returns (new, w1) \<Longrightarrow> state_at w1 = state_at w"
  "exec_CallbackDestroy cancelled f w = Returns (new, w1) \<Longrightarrow> state_at w1 = state_at w"
  by (auto simp: exec_AfterSuccess_def exec_AfterFailed_def exec_DestructRest_def exec_Destruct_def
      exec_CallbackInvoke_def exec_CallbackOnCancel_def exec_CallbackDestroy_def
      outcome_simps Let_def split: if_split_asm dest!: DestroyTask_state_at)

lemma exec_SetError_state_at: "exec_SetError f e w = Returns (new, w1) \<Longrightarrow> state_at w1 = state_at w"
  by (auto simp: exec_SetError_def outcome_simps state_at_def fun_eq_iff split: if_split_asm)

lemma exec_AddContinuation_state_at:
  "exec_AddContinuation f c w = Returns (new, w1) \<Longrightarrow> state_at w1 = state_at w"
  by (auto simp: exec_AddContinuation_def outcome_simps Let_def state_at_def fun_eq_iff split: if_split_asm)

lemma counting_simps [simp]:
  "completions f [] = 0" "completions f (es @ fs) = completions f es + completions f fs"
  "completions f (e # es) = (case e of Completed g s \<Rightarrow> if g = f then 1 else 0 | _ \<Rightarrow> 0) + completions f es"
  "task_calls f [] = 0" "task_calls f (es @ fs) = task_calls f es + task_calls f fs"
  "task_calls f (e # es) = (case e of TaskInvoked g p \<Rightarrow> if g = f then 1 else 0
     | TaskCaught g \<Rightarrow> if g = f then 1 else 0 | _ \<Rightarrow> 0) + task_calls f es"
  "due_calls f [] = 0" "due_calls f (ws @ vs) = due_calls f ws + due_calls f vs"
  "due_calls f (x # ws) = (case x of DoTaskInvoke g p \<Rightarrow> if g = f then 1 else 0
     | DoTaskCatch g e \<Rightarrow> if g = f then 1 else 0 | _ \<Rightarrow> 0) + due_calls f ws"
  by (simp_all add: completions_def task_calls_def due_calls_def split: fevent.split fwork.split)

text \<open>The balance of one entry \<open>x\<close>.\<close>

definition once_ok :: "ptr \<Rightarrow> 'e fwork \<Rightarrow> 'e fwork list \<Rightarrow> 'e fworld \<Rightarrow> 'e fworld \<Rightarrow> bool" where
  "once_ok f x new w w1 \<longleftrightarrow>
     completions f (flog w1) + of_bool (is_done w f) = completions f (flog w) + of_bool (is_done w1 f)
   \<and> (\<not> multi_post w1 f \<longrightarrow> task_calls f (flog w1) + due_calls f new + of_bool (was_invoking w f)
        \<le> task_calls f (flog w) + due_calls f [x] + of_bool (was_invoking w1 f))
   \<and> (\<not> multi_post w1 f \<longrightarrow> task_calls f (flog w1) + due_calls f new
        \<le> task_calls f (flog w) + due_calls f [x] + of_bool (enters_invoking f w w1))"

text \<open>Entries that change no state and log nothing of interest.\<close>

lemma once_okI:
  assumes "state_at w1 = state_at w" and "flog w1 = flog w @ es" and "completions f es = 0"
    and "\<not> multi_post w1 f \<Longrightarrow> task_calls f es + due_calls f new \<le> due_calls f [x]"
  shows "once_ok f x new w w1"
  using assms by (auto simp: once_ok_def view_defs)

text \<open>Rounds that move the state.\<close>

lemma round_once:
  assumes r: "round_of g c again d o1 w k = Returns (new, w1)" and g: "heap w g = Some o1"
    and doc: "\<And>s. d = MoveTo s \<Longrightarrow> documented_transition (fstate o1) s"
    and k: "\<And>s o2 w2. d = MoveTo s \<Longrightarrow> k o2 w2 = Returns (new, w1) \<Longrightarrow>
        heap w1 = heap w2 \<and> (\<exists>es. flog w1 = flog w2 @ es \<and> completions f es = 0 \<and> task_calls f es = 0)
        \<and> due_calls f new \<le> of_bool (f = g \<and> s = Invoking)"
    and again: "due_calls f [again] = 0"
  shows "once_ok f x new w w1"
  using r
proof (cases rule: round_of_cases)
  case (move s)
  from k [OF move] obtain es where k': "heap w1 = heap (move_state g s o1 w)"
    "flog w1 = flog (move_state g s o1 w) @ es" "completions f es = 0" "task_calls f es = 0"
    "due_calls f new \<le> of_bool (f = g \<and> s = Invoking)" by blast
  have rank: "state_rank (fstate o1) < state_rank s" using doc [OF move(1)] by (rule documented_rank)
  have running: "\<not> completes (fstate o1)"
    using doc [OF move(1)] by (auto simp: documented_transition_def completes_def)
  have st: "state_at w1 = (state_at w)(g \<mapsto> (m_traits o1, s))"
    using k'(1) by (auto simp: state_at_def)
  show ?thesis
  proof (cases "f = g")
    case True
    have "s = Invoking \<Longrightarrow> state_rank (fstate o1) < 3" using rank by simp
    then show ?thesis using True k' g rank running st
      by (cases "s = Invoking") (auto simp: once_ok_def view_defs state_at_Some enters_invoking_def)
  next
    case False
    with k' st show ?thesis by (auto simp: once_ok_def view_defs)
  qed
qed (use again in \<open>auto simp: once_ok_def\<close>)

lemma exec_round_once:
  "exec_TryStartSetValue tid g c w = Returns (new, w1) \<Longrightarrow> once_ok f (DoTryStartSetValue g c) new w w1"
  "exec_TrySetSuccess tid g c w = Returns (new, w1) \<Longrightarrow> once_ok f (DoTrySetSuccess g c) new w w1"
  "exec_TrySetError tid g e c w = Returns (new, w1) \<Longrightarrow> once_ok f (DoTrySetError g e c) new w w1"
  "exec_SetFailed g w = Returns (new, w1) \<Longrightarrow> once_ok f (DoSetFailed g) new w w1"
  "exec_StartAwaiting g w = Returns (new, w1) \<Longrightarrow> once_ok f (DoStartAwaiting g) new w w1"
  "exec_TrySetPosted tid g w = Returns (new, w1) \<Longrightarrow> once_ok f (DoTrySetPosted g) new w w1"
  unfolding exec_TryStartSetValue_def exec_TrySetSuccess_def exec_TrySetError_def exec_SetFailed_def
    exec_StartAwaiting_def exec_TrySetPosted_def with_future_Returns
  by (elim exE conjE, erule (1) round_once; auto dest: decisions_documented)+

lemma exec_Invoke_once:
  assumes "exec_Invoke tid g k w = Returns (new, w1)"
  shows "once_ok f (DoInvoke g k) new w w1"
proof -
  have target: "TrySetInvoking sync j s = MoveTo s' \<Longrightarrow> s' = Invoking" for sync j s s'
    by (auto simp: TrySetInvoking_def split: FutureState.splits if_splits)
  show ?thesis
    using assms unfolding exec_Invoke_def with_future_Returns
    apply (elim exE conjE)
    apply (erule (1) round_once)
    by (auto dest: decisions_documented target simp: Let_def outcome_simps split: option.splits if_splits)
qed

lemma TryPostInternal_once:
  assumes "TryPostInternal tid g p c rest w = Returns (new, w1)" and "\<And>q. due_calls f (rest q) = 0"
    and "due_calls f [x] = 0"
  shows "once_ok f x new w w1"
  using assms(1)
proof (cases rule: TryPostInternal_cases)
  case (posting o1 o2 o3 ws)
  have "m_traits o3 = m_traits o1" and "fstate o3 = Posting"
    using take_parent_same [OF posting(6)] posting(5) by (simp_all add: fcont_def)
  with posting(9) have "state_at w1 = (state_at w)(g \<mapsto> (m_traits o1, Posting))"
    by (auto simp: state_at_def)
  moreover have "flog w1 = flog w" using posting(9) by auto
  moreover have "due_calls f new = 0" using posting(7,8) assms(2) by auto
  ultimately show ?thesis using posting(1,2) assms(3)
    by (cases "f = g") (simp_all add: once_ok_def view_defs state_at_Some completes_def)
next
  case (multi o1 p1 ws)
  then have "f = g \<Longrightarrow> multi_post w1 f" by (simp add: multi_post_def state_at_Some)
  with multi assms(2) show ?thesis by (intro once_okI [where es = "[]"]) auto
next
  case (nothing o1)
  then show ?thesis using assms(2,3) by (intro once_okI [where es = "[]"]) auto
qed

lemma exec_plain_once:
  "exec_AfterSuccess g c w = Returns (new, w1) \<Longrightarrow> once_ok f (DoAfterSuccess g c) new w w1"
  "exec_AfterFailed g c w = Returns (new, w1) \<Longrightarrow> once_ok f (DoAfterFailed g c) new w w1"
  "exec_DestructRest g w = Returns (new, w1) \<Longrightarrow> once_ok f (DoDestructRest g) new w w1"
proof -
  note log = exec_AfterSuccess_def exec_AfterFailed_def exec_DestructRest_def outcome_simps Let_def
  show "once_ok f (DoAfterSuccess g c) new w w1" if r: "exec_AfterSuccess g c w = Returns (new, w1)"
    using exec_plain_state_at(1) [OF r] r
    by (auto simp: log once_ok_def view_defs split: if_split_asm elim!: DestroyTask_cases)
  show "once_ok f (DoAfterFailed g c) new w w1" if r: "exec_AfterFailed g c w = Returns (new, w1)"
    using exec_plain_state_at(2) [OF r] r
    by (auto simp: log once_ok_def view_defs split: if_split_asm elim!: DestroyTask_cases)
  show "once_ok f (DoDestructRest g) new w w1" if r: "exec_DestructRest g w = Returns (new, w1)"
    using exec_plain_state_at(3) [OF r] r
    by (auto simp: log once_ok_def view_defs split: if_split_asm elim!: DestroyTask_cases)
qed

lemma once_quietI:
  "state_at w1 = state_at w \<Longrightarrow> flog w1 = flog w \<and> due_calls f new = 0 \<Longrightarrow> once_ok f x new w w1"
  by (rule once_okI [where es = "[]"]) simp_all

lemma exec_silent_once:
  "exec_Destruct cancelled g w = Returns (new, w1) \<Longrightarrow> once_ok f (DoDestruct g) new w w1"
  "exec_CallbackInvoke g w = Returns (new, w1) \<Longrightarrow> once_ok f (DoCallbackInvoke g) new w w1"
  "exec_CallbackOnCancel cancelled g w = Returns (new, w1) \<Longrightarrow> once_ok f (DoCallbackOnCancel g) new w w1"
  "exec_CallbackDestroy cancelled g w = Returns (new, w1) \<Longrightarrow> once_ok f (DoCallbackDestroy g) new w w1"
  "exec_SetError g e w = Returns (new, w1) \<Longrightarrow> once_ok f (DoSetError g e) new w w1"
proof -
  note defs = exec_Destruct_def exec_CallbackInvoke_def exec_CallbackOnCancel_def
    exec_CallbackDestroy_def exec_SetError_def outcome_simps
  show "exec_Destruct cancelled g w = Returns (new, w1) \<Longrightarrow> once_ok f (DoDestruct g) new w w1"
    by (rule once_quietI, erule exec_plain_state_at) (auto simp: defs split: if_split_asm)
  show "exec_CallbackInvoke g w = Returns (new, w1) \<Longrightarrow> once_ok f (DoCallbackInvoke g) new w w1"
    by (rule once_quietI, erule exec_plain_state_at) (auto simp: defs)
  show "exec_CallbackOnCancel cancelled g w = Returns (new, w1) \<Longrightarrow> once_ok f (DoCallbackOnCancel g) new w w1"
    by (rule once_quietI, erule exec_plain_state_at) (auto simp: defs)
  show "exec_CallbackDestroy cancelled g w = Returns (new, w1) \<Longrightarrow> once_ok f (DoCallbackDestroy g) new w w1"
    by (rule once_quietI, erule exec_plain_state_at) (auto simp: defs)
  show "exec_SetError g e w = Returns (new, w1) \<Longrightarrow> once_ok f (DoSetError g e) new w w1"
    by (rule once_quietI, erule exec_SetError_state_at) (auto simp: defs split: if_split_asm)
qed

lemma exec_AddContinuation_once:
  "exec_AddContinuation g c w = Returns (new, w1) \<Longrightarrow> once_ok f (DoAddContinuation g c) new w w1"
  by (frule exec_AddContinuation_state_at, rule once_okI [where es = "[Added g c]"], assumption)
    (auto simp: exec_AddContinuation_def outcome_simps Let_def split: if_split_asm)

lemma exec_PostContinuation_once:
  assumes "exec_PostContinuation tid g c w = Returns (new, w1)"
  shows "once_ok f (DoPostContinuation g c) new w w1"
proof (cases "c = 0")
  case True
  with assms show ?thesis by (simp add: exec_PostContinuation_def once_ok_def)
next
  case False
  with assms have
    "TryPostInternal tid c g False (\<lambda>next. [DoPostContinuation g next]) (log_event (Delivered g c) w)
       = Returns (new, w1)" by (simp add: exec_PostContinuation_def)
  from TryPostInternal_once [OF this, where f = f and x = "DoPostContinuation g c"]
  show ?thesis by (simp add: once_ok_def view_defs enters_invoking_def)
qed

lemma exec_fwork_once:
  assumes exec: "exec_fwork cancelled tid x w = Returns (new, w1)" and fresh: "makes_fresh w x"
  shows "once_ok f x new w w1"
proof (cases x)
  case (DoMakeFuture g t n b)
  with assms have w1: "w1 = log_event (Created g) (set_future g (FutureImpl_new t n) w)"
    and "new = []" and "state_at w g = None"
    by (auto simp: exec_MakeFuture_def outcome_simps state_at_def)
  then show ?thesis using DoMakeFuture
    by (cases "f = g") (simp_all add: once_ok_def view_defs completes_def)
next
  case (DoPost g)
  with exec show ?thesis
    using TryPostInternal_once [where f = f and x = x and rest = "\<lambda>_. []"] by (simp add: exec_Post_def)
next
  case (DoDeliver g c)
  with exec show ?thesis by (auto simp: exec_Deliver_def outcome_simps once_ok_def)
next
  case Client
  with exec show ?thesis by (simp add: once_ok_def)
next
  case (DoTaskPost g)
  with exec show ?thesis by (auto simp: once_ok_def)
next
  case (DoTaskInvoke g p)
  with exec show ?thesis
    by (auto simp: exec_TaskInvoke_def intro!: once_okI [where es = "[TaskInvoked g p]"])
next
  case (DoTaskCatch g e)
  with exec show ?thesis
    by (auto simp: exec_TaskCatch_def intro!: once_okI [where es = "[TaskCaught g]"])
next
  case DoLeaveCurrent
  with exec show ?thesis by (auto intro!: once_okI [where es = "[]"])
qed (use exec in \<open>simp_all add: exec_round_once exec_Invoke_once exec_plain_once exec_silent_once
      exec_AddContinuation_once exec_PostContinuation_once\<close>)

section \<open>Runs\<close>

text \<open>
  Futures are made and continuations added by client calls only: no entry of the library
  leaves such a call to do.
\<close>

fun client_only :: "'e fwork \<Rightarrow> bool" where
  "client_only (DoMakeFuture f t n b) = True"
| "client_only (DoAddContinuation f c) = True"
| "client_only _ = False"

lemma makes_fresh_other [simp]: "\<not> client_only x \<Longrightarrow> makes_fresh w x"
  by (cases x) simp_all

lemma round_client_only:
  assumes "round_of f c again d o1 w k = Returns (new, w1)" and "\<not> client_only again"
    and "\<And>o2 w2. k o2 w2 = Returns (new, w1) \<Longrightarrow> list_all (\<lambda>x. \<not> client_only x) new"
  shows "list_all (\<lambda>x. \<not> client_only x) new"
  using assms(1) by (cases rule: round_of_cases) (use assms(2,3) in auto)

lemma TryPostInternal_client_only:
  assumes "TryPostInternal tid f p c rest w = Returns (new, w1)"
    and "\<And>q. list_all (\<lambda>x. \<not> client_only x) (rest q)"
  shows "list_all (\<lambda>x. \<not> client_only x) new"
  using assms(1) by (cases rule: TryPostInternal_cases) (use assms(2) in auto)

lemma exec_fwork_client_only:
  assumes "exec_fwork cancelled tid x w = Returns (new, w1)"
  shows "list_all (\<lambda>x. \<not> client_only x) new"
proof -
  note rounds = exec_TryStartSetValue_def exec_TrySetSuccess_def exec_TrySetError_def exec_SetFailed_def
    exec_StartAwaiting_def exec_TrySetPosted_def exec_Invoke_def Let_def
  note plain = exec_MakeFuture_def exec_AfterSuccess_def exec_AfterFailed_def exec_DestructRest_def
    exec_Destruct_def exec_CallbackInvoke_def exec_CallbackOnCancel_def exec_CallbackDestroy_def
    exec_SetError_def exec_AddContinuation_def exec_Deliver_def exec_TaskInvoke_def exec_TaskCatch_def
  show ?thesis
  proof (cases x)
    case (DoPost f)
    with assms show ?thesis by (auto simp: exec_Post_def elim: TryPostInternal_client_only)
  next
    case (DoPostContinuation f c)
    with assms show ?thesis
      by (auto simp: exec_PostContinuation_def split: if_split_asm elim: TryPostInternal_client_only)
  next
    case (DoInvoke f k)
    with assms show ?thesis
      by (auto simp: rounds outcome_simps split: option.split_asm if_split_asm elim!: round_client_only)
  qed (use assms in \<open>auto simp: rounds plain outcome_simps split: if_split_asm
      elim!: round_client_only DestroyTask_cases\<close>)
qed

text \<open>What is asked of the clients: memory for a new future is not in use.\<close>

definition allocates_fresh :: "('e fworld \<Rightarrow> 'e fwork \<Rightarrow> bool) \<Rightarrow> bool" where
  "allocates_fresh allowed \<longleftrightarrow> (\<forall>w c. allowed w c \<longrightarrow> makes_fresh w c)"

definition library_stacks :: "'e fworld \<Rightarrow> bool" where
  "library_stacks w \<longleftrightarrow> (\<forall>tid. list_all (\<lambda>x. \<not> client_only x) (fstack w tid))"

lemma exec_fwork_fstack [frame_simps]:
  assumes "exec_fwork cancelled tid x w = Returns (new, w1)"
  shows "fstack w1 = fstack w"
proof -
  have round: "fstack w1 = fstack w" if "round_of f c again d o1 w k = Returns (new, w1)"
    and "\<And>o2 w2. k o2 w2 = Returns (new, w1) \<Longrightarrow> fstack w1 = fstack w2" for f c again d o1 k
    using that(1) by (cases rule: round_of_cases) (use that(2) in auto)
  have post: "fstack w1 = fstack v" if "TryPostInternal tid f p c rest v = Returns (new, w1)" for f p c rest v
    using that by (cases rule: TryPostInternal_cases) auto
  note rounds = exec_TryStartSetValue_def exec_TrySetSuccess_def exec_TrySetError_def exec_SetFailed_def
    exec_StartAwaiting_def exec_TrySetPosted_def exec_Invoke_def Let_def
  note plain = exec_MakeFuture_def exec_AfterSuccess_def exec_AfterFailed_def exec_DestructRest_def
    exec_Destruct_def exec_CallbackInvoke_def exec_CallbackOnCancel_def exec_CallbackDestroy_def
    exec_SetError_def exec_AddContinuation_def exec_Deliver_def exec_TaskInvoke_def exec_TaskCatch_def
  show ?thesis
  proof (cases x)
    case (DoPost f)
    with assms show ?thesis by (auto simp: exec_Post_def dest: post)
  next
    case (DoPostContinuation f c)
    with assms show ?thesis by (auto simp: exec_PostContinuation_def split: if_split_asm dest: post)
  next
    case (DoInvoke f k)
    with assms show ?thesis
      by (auto simp: rounds outcome_simps split: option.split_asm if_split_asm elim!: round)
  qed (use assms in \<open>auto simp: rounds plain outcome_simps split: if_split_asm
      elim!: round DestroyTask_cases\<close>)
qed

text \<open>A step is an entry \<open>x\<close> (a call or the top of a stack) executed on a stack \<open>ys\<close>.\<close>

lemma fut_step_exec:
  assumes "fut_step allowed cancelled n w w'" and "allocates_fresh allowed" and "library_stacks w"
  obtains tid x new w1 ys where "tid < n" and "exec_fwork cancelled tid x w = Returns (new, w1)"
    and "makes_fresh w x" and "w' = w1\<lparr>fstack := (fstack w)(tid := new @ ys)\<rparr>"
    and "fstack w tid = ys \<and> client_call x \<or> fstack w tid = x # ys"
    and "client_call x \<and> fstack w tid = ys \<longrightarrow> allowed w x" and "list_all (\<lambda>x. \<not> client_only x) ys"
  using assms(1)
proof cases
  case (client tid xs c new w1)
  have "makes_fresh w c" using assms(2) client(6) by (simp add: allocates_fresh_def)
  moreover have "list_all (\<lambda>x. \<not> client_only x) xs" using assms(3) client(3) by (auto simp: library_stacks_def)
  ultimately show thesis
    using client exec_fwork_fstack [OF client(7)] by (intro that [of tid c new w1 xs]) auto
next
  case (exec tid x xs new w1)
  have "list_all (\<lambda>x. \<not> client_only x) (x # xs)" using assms(3) exec(3) by (metis library_stacks_def)
  then show thesis
    using exec exec_fwork_fstack [OF exec(4)] by (intro that [of tid x new w1 xs]) auto
qed

lemma library_stacks_reachable:
  assumes "fut_reachable allowed cancelled n w" and "allocates_fresh allowed"
  shows "library_stacks w"
  using assms(1)
proof induction
  case initial
  show ?case by (simp add: library_stacks_def initial_fworld_def)
next
  case (step w w')
  from step.hyps(2) assms(2) step.IH obtain tid x new w1 ys where
    r: "exec_fwork cancelled tid x w = Returns (new, w1)"
    and "w' = w1\<lparr>fstack := (fstack w)(tid := new @ ys)\<rparr>" and "list_all (\<lambda>x. \<not> client_only x) ys"
    by (rule fut_step_exec)
  with exec_fwork_client_only [OF r] step.IH show ?case by (auto simp: library_stacks_def)
qed

definition once_inv :: "nat \<Rightarrow> 'e fworld \<Rightarrow> bool" where
  "once_inv n w \<longleftrightarrow> (\<forall>f. completions f (flog w) = of_bool (is_done w f)
     \<and> (\<not> multi_post w f \<longrightarrow>
          task_calls f (flog w) + (\<Sum>u<n. due_calls f (fstack w u)) \<le> of_bool (was_invoking w f)))"

lemma multi_post_evolves:
  assumes "heap_evolves w w1" and "multi_post w f"
  shows "multi_post w1 f"
proof -
  from assms(2) obtain o1 where o1: "heap w f = Some o1" and "IsSet (Options (m_traits o1)) IsMultiPost"
    by (auto simp: multi_post_def state_at_def split: option.splits)
  moreover from o1 assms(1) obtain o2 where "heap w1 f = Some o2" and "evolves o1 o2"
    by (auto simp: heap_evolves_def)
  ultimately show ?thesis by (simp add: multi_post_def state_at_Some evolves_def)
qed

lemma once_inv_step:
  assumes step: "fut_step allowed cancelled n w w'" and fresh: "allocates_fresh allowed"
    and makes: "library_stacks w" and inv: "once_inv n w"
  shows "once_inv n w'"
proof -
  from step fresh makes obtain tid x new w1 ys where tid: "tid < n"
    and exec: "exec_fwork cancelled tid x w = Returns (new, w1)" and x: "makes_fresh w x"
    and w': "w' = w1\<lparr>fstack := (fstack w)(tid := new @ ys)\<rparr>"
    and stack: "fstack w tid = ys \<and> client_call x \<or> fstack w tid = x # ys"
    by (rule fut_step_exec)
  show ?thesis
    unfolding once_inv_def
  proof (intro allI conjI impI)
    fix f
    have once: "once_ok f x new w w1" using exec x by (rule exec_fwork_once)
    have views: "is_done w' f = is_done w1 f" "was_invoking w' f = was_invoking w1 f"
      "multi_post w' f = multi_post w1 f" "flog w' = flog w1"
      by (simp_all add: w' view_defs)
    show "completions f (flog w') = of_bool (is_done w' f)"
      using once inv by (simp add: views once_ok_def once_inv_def)
    assume "\<not> multi_post w' f"
    then have m1: "\<not> multi_post w1 f" by (simp add: views)
    then have m: "\<not> multi_post w f" using multi_post_evolves exec_fwork_evolves [OF exec x] by blast
    define g where "g u = due_calls f (((fstack w)(tid := new @ ys)) u)" for u
    have "(\<Sum>u<n. due_calls f (fstack w u)) + g tid = (\<Sum>u<n. g u) + due_calls f (fstack w tid)"
      using tid by (intro sum_one_thread) (simp_all add: g_def)
    moreover have "g tid = due_calls f new + due_calls f ys" by (simp add: g_def)
    moreover have "due_calls f (fstack w tid) = due_calls f [x] + due_calls f ys"
      using stack by (cases x) auto
    moreover have "(\<Sum>u<n. due_calls f (fstack w' u)) = (\<Sum>u<n. g u)" by (simp add: w' g_def)
    moreover have "task_calls f (flog w) + (\<Sum>u<n. due_calls f (fstack w u)) \<le> of_bool (was_invoking w f)"
      using inv m by (simp add: once_inv_def)
    ultimately show "task_calls f (flog w') + (\<Sum>u<n. due_calls f (fstack w' u)) \<le> of_bool (was_invoking w' f)"
      using once m1 by (simp add: views once_ok_def)
  qed
qed

lemma once_inv_reachable:
  assumes "fut_reachable allowed cancelled n w" and "allocates_fresh allowed"
  shows "once_inv n w"
  using assms(1)
proof induction
  case initial
  show ?case by (simp add: once_inv_def initial_fworld_def view_defs state_at_def)
next
  case (step w w')
  show ?case
    by (rule once_inv_step [OF step.hyps(2) assms(2) library_stacks_reachable [OF step.hyps(1) assms(2)] step.IH])
qed

section \<open>When a call becomes due\<close>

text \<open>The calls of the task of \<open>f\<close>, with those that are still to come.\<close>

definition calls_of :: "nat \<Rightarrow> ptr \<Rightarrow> 'e fworld \<Rightarrow> nat" where
  "calls_of n f w = task_calls f (flog w) + (\<Sum>u<n. due_calls f (fstack w u))"

text \<open>A step adds a call only when it moves the future to \<open>Invoking\<close>.\<close>

lemma calls_of_step:
  assumes "fut_step allowed cancelled n w w'" and "allocates_fresh allowed" and "library_stacks w"
    and "\<not> multi_post w' f"
  shows "calls_of n f w' \<le> calls_of n f w + of_bool (enters_invoking f w w')"
    and "\<not> multi_post w f"
proof -
  from assms(1-3) obtain tid x new w1 ys where tid: "tid < n"
    and exec: "exec_fwork cancelled tid x w = Returns (new, w1)" and x: "makes_fresh w x"
    and w': "w' = w1\<lparr>fstack := (fstack w)(tid := new @ ys)\<rparr>"
    and stack: "fstack w tid = ys \<and> client_call x \<or> fstack w tid = x # ys"
    by (rule fut_step_exec)
  have m1: "\<not> multi_post w1 f" and e: "enters_invoking f w w' = enters_invoking f w w1"
    using assms(4) by (simp_all add: w' view_defs enters_invoking_def)
  then show "\<not> multi_post w f" using multi_post_evolves exec_fwork_evolves [OF exec x] by blast
  have once: "task_calls f (flog w1) + due_calls f new
      \<le> task_calls f (flog w) + due_calls f [x] + of_bool (enters_invoking f w w1)"
    using exec_fwork_once [OF exec x] m1 by (simp add: once_ok_def)
  define g where "g u = due_calls f (((fstack w)(tid := new @ ys)) u)" for u
  have "(\<Sum>u<n. due_calls f (fstack w u)) + g tid = (\<Sum>u<n. g u) + due_calls f (fstack w tid)"
    using tid by (intro sum_one_thread) (simp_all add: g_def)
  moreover have "g tid = due_calls f new + due_calls f ys" by (simp add: g_def)
  moreover have "due_calls f (fstack w tid) = due_calls f [x] + due_calls f ys"
    using stack by (cases x) auto
  moreover have "(\<Sum>u<n. due_calls f (fstack w' u)) = (\<Sum>u<n. g u)" by (simp add: w' g_def)
  moreover have "flog w' = flog w1" by (simp add: w')
  ultimately show "calls_of n f w' \<le> calls_of n f w + of_bool (enters_invoking f w w')"
    using once unfolding calls_of_def e by simp
qed

text \<open>A run is a sequence of states from the initial one.\<close>

definition fut_run :: "('e fworld \<Rightarrow> 'e fwork \<Rightarrow> bool) \<Rightarrow> 'e \<Rightarrow> nat \<Rightarrow> (nat \<Rightarrow> 'e fworld) \<Rightarrow> nat \<Rightarrow> bool" where
  "fut_run allowed cancelled n run k \<longleftrightarrow>
     run 0 = initial_fworld \<and> (\<forall>i<k. fut_step allowed cancelled n (run i) (run (Suc i)))"

lemma fut_run_reachable:
  "fut_run allowed cancelled n run k \<Longrightarrow> i \<le> k \<Longrightarrow> fut_reachable allowed cancelled n (run i)"
proof (induction i)
  case (Suc i)
  then have "fut_step allowed cancelled n (run i) (run (Suc i))" by (simp add: fut_run_def)
  with Suc show ?case by (meson Suc_leD fut_reachable.step)
qed (simp add: fut_run_def fut_reachable.initial)

lemma fut_reachable_run:
  assumes "fut_reachable allowed cancelled n w"
  obtains run k where "fut_run allowed cancelled n run k" and "run k = w"
  using assms
proof (induction arbitrary: thesis)
  case initial
  show ?case by (rule initial [of "\<lambda>_. initial_fworld" 0]) (simp_all add: fut_run_def)
next
  case (step w w')
  then obtain run k where r: "fut_run allowed cancelled n run k" "run k = w" by blast
  show ?case
    by (rule step.prems [of "run(Suc k := w')" "Suc k"])
      (use r step.hyps(2) in \<open>auto simp: fut_run_def less_Suc_eq\<close>)
qed

text \<open>The first step of a run in which a call becomes due, if one does.\<close>

lemma call_due_when_invoking:
  assumes "fut_run allowed cancelled n run k" and "allocates_fresh allowed" and "\<not> multi_post (run k) f"
    and "0 < calls_of n f (run k)"
  shows "\<exists>i<k. calls_of n f (run i) = 0 \<and> enters_invoking f (run i) (run (Suc i))"
  using assms
proof (induction k)
  case 0
  then show ?case by (simp add: fut_run_def calls_of_def initial_fworld_def)
next
  case (Suc k)
  have run: "fut_run allowed cancelled n run k" and s: "fut_step allowed cancelled n (run k) (run (Suc k))"
    using Suc.prems(1) by (auto simp: fut_run_def)
  have lib: "library_stacks (run k)"
    using library_stacks_reachable [OF fut_run_reachable [OF run order_refl] assms(2)] .
  note step = calls_of_step [OF s assms(2) lib Suc.prems(3)]
  show ?case
  proof (cases "calls_of n f (run k) = 0")
    case True
    with step(1) Suc.prems(4) have "enters_invoking f (run k) (run (Suc k))" by (cases "enters_invoking f (run k) (run (Suc k))") auto
    with True show ?thesis by blast
  next
    case False
    with Suc.IH [OF run assms(2) step(2)] show ?thesis using less_Suc_eq by blast
  qed
qed

end
