(* ===== verification/Future_Chains.thy ===== *)
theory Future_Chains
  imports Future_Once
begin

text \<open>
  The lists of continuations. A future that is not done holds the list of continuations that
  were added to it, linked through \<open>m_link\<close>; the thread that completes it takes the list and
  posts its members one by one. The invariant says that every continuation added is in
  exactly one of these lists or was posted.
\<close>

section \<open>Lists in the heap\<close>

definition links :: "'e fworld \<Rightarrow> ptr \<Rightarrow> ptr option" where
  "links w p = map_option m_link (heap w p)"

fun chain :: "'e fworld \<Rightarrow> ptr list \<Rightarrow> ptr \<Rightarrow> bool" where
  "chain w [] p \<longleftrightarrow> p = 0"
| "chain w (x # xs) p \<longleftrightarrow> p = x \<and> x \<noteq> 0 \<and> x \<noteq> ContinuationInvoked
     \<and> (\<exists>l. links w x = Some l \<and> chain w xs l)"

lemma chain_unique: "chain w L p \<Longrightarrow> chain w M p \<Longrightarrow> L = M"
proof (induction L arbitrary: M p)
  case Nil
  then show ?case by (cases M) auto
next
  case (Cons x L)
  then show ?case by (cases M) auto
qed

lemma chain_nonzero:
  assumes "chain w L p" and "p \<noteq> 0"
  obtains M l where "L = p # M" and "links w p = Some l" and "chain w M l"
  using assms by (cases L) auto

lemma chain_0 [simp]: "chain w L 0 \<longleftrightarrow> L = []"
  by (cases L) auto

lemma chain_Invoked [simp]: "\<not> chain w L ContinuationInvoked"
  by (cases L) auto

lemma chain_frame: "chain w L p \<Longrightarrow> \<forall>q \<in> set L. links w1 q = links w q \<Longrightarrow> chain w1 L p"
  by (induction L arbitrary: p) auto

lemma chain_heap: "heap w1 = heap w \<Longrightarrow> chain w1 = chain w"
proof (intro ext)
  fix L p
  assume "heap w1 = heap w"
  then show "chain w1 L p = chain w L p" by (induction L arbitrary: p) (simp_all add: links_def)
qed

lemma chain_exists: "chain w L p \<Longrightarrow> q \<in> set L \<Longrightarrow> \<exists>o1. heap w q = Some o1"
  by (induction L arbitrary: p) (auto simp: links_def)

definition linked :: "'e fworld \<Rightarrow> ptr \<Rightarrow> bool" where
  "linked w p \<longleftrightarrow> (\<exists>L. chain w L p)"

definition conts :: "'e fworld \<Rightarrow> ptr \<Rightarrow> ptr list" where
  "conts w p = (THE L. chain w L p)"

lemma conts_eq: "chain w L p \<Longrightarrow> conts w p = L"
  unfolding conts_def by (rule the_equality) (auto dest: chain_unique)

lemma linked_chain: "linked w p \<longleftrightarrow> chain w (conts w p) p"
  by (auto simp: linked_def dest: conts_eq)

lemma conts_0 [simp]: "conts w 0 = []" "linked w 0"
  by (auto intro: conts_eq simp: linked_def)

lemma conts_frame:
  assumes "linked w p" and "\<forall>q \<in> set (conts w p). links w1 q = links w q"
  shows "linked w1 p \<and> conts w1 p = conts w p"
  using assms chain_frame [of w "conts w p" p w1] conts_eq by (auto simp: linked_chain)

section \<open>Accounting\<close>

fun added_of :: "'e fevent \<Rightarrow> (ptr \<times> ptr) multiset" where
  "added_of (Added f c) = {#(f, c)#}"
| "added_of _ = {#}"

fun delivered_of :: "'e fevent \<Rightarrow> (ptr \<times> ptr) multiset" where
  "delivered_of (Delivered f c) = {#(f, c)#}"
| "delivered_of _ = {#}"

definition added :: "'e fevent list \<Rightarrow> (ptr \<times> ptr) multiset" where
  "added es = sum_list (map added_of es)"

definition delivered :: "'e fevent list \<Rightarrow> (ptr \<times> ptr) multiset" where
  "delivered es = sum_list (map delivered_of es)"

lemma added_simps [simp]:
  "added [] = {#}" "added (es @ fs) = added es + added fs" "added (e # es) = added_of e + added es"
  "delivered [] = {#}" "delivered (es @ fs) = delivered es + delivered fs"
  "delivered (e # es) = delivered_of e + delivered es"
  by (simp_all add: added_def delivered_def)

text \<open>Entries that carry a list on its way to be posted.\<close>

fun flight_of :: "'e fwork \<Rightarrow> (ptr \<times> ptr) option" where
  "flight_of (DoAfterSuccess f c) = Some (f, c)"
| "flight_of (DoAfterFailed f c) = Some (f, c)"
| "flight_of (DoDeliver f c) = Some (f, c)"
| "flight_of (DoPostContinuation f c) = Some (f, c)"
| "flight_of _ = None"

definition pairs :: "'e fworld \<Rightarrow> ptr \<Rightarrow> ptr \<Rightarrow> (ptr \<times> ptr) multiset" where
  "pairs w f c = mset (map (Pair f) (conts w c))"

definition entry_pairs :: "'e fworld \<Rightarrow> 'e fwork \<Rightarrow> (ptr \<times> ptr) multiset" where
  "entry_pairs w x = (case flight_of x of None \<Rightarrow> {#} | Some (f, c) \<Rightarrow> pairs w f c)"

definition stack_pairs :: "'e fworld \<Rightarrow> 'e fwork list \<Rightarrow> (ptr \<times> ptr) multiset" where
  "stack_pairs w xs = sum_list (map (entry_pairs w) xs)"

definition future_pairs :: "'e fworld \<Rightarrow> ptr \<Rightarrow> (ptr \<times> ptr) multiset" where
  "future_pairs w f = (case heap w f of
     Some o1 \<Rightarrow> if completes (fstate o1) then {#} else pairs w f (fcont o1) | None \<Rightarrow> {#})"

definition waiting :: "nat \<Rightarrow> 'e fworld \<Rightarrow> (ptr \<times> ptr) multiset" where
  "waiting n w = (\<Sum>f\<in>UNIV. future_pairs w f) + (\<Sum>u<n. stack_pairs w (fstack w u))"

lemma stack_pairs_simps [simp]:
  "stack_pairs w [] = {#}" "stack_pairs w (x # xs) = entry_pairs w x + stack_pairs w xs"
  "stack_pairs w (xs @ ys) = stack_pairs w xs + stack_pairs w ys"
  by (simp_all add: stack_pairs_def)

lemma pairs_0 [simp]: "pairs w f 0 = {#}"
  by (simp add: pairs_def)

section \<open>The invariant\<close>

text \<open>
  A continuation that is in a list waits for its parent: it has a task to invoke, or takes
  the parent's value, and is not one of the futures that are posted by many parents.
\<close>

definition deliverable :: "FutureTraits \<Rightarrow> bool" where
  "deliverable t \<longleftrightarrow> (TaskInvoke t \<or> (IsSet (Options t) UseParentValue \<and> ValueSize t = 0))
     \<and> \<not> IsSet (Options t) IsMultiPost"

definition cont_ok :: "'e fworld \<Rightarrow> ptr \<Rightarrow> bool" where
  "cont_ok w c \<longleftrightarrow> (\<exists>o1. heap w c = Some o1 \<and> deliverable (m_traits o1)
     \<and> (c \<notin># image_mset snd (delivered (flog w)) \<longrightarrow> fstate o1 \<noteq> Pending \<longrightarrow> m_link o1 = 0))"

definition root_ok :: "'e fworld \<Rightarrow> ptr \<Rightarrow> bool" where
  "root_ok w f \<longleftrightarrow> (\<forall>o1. heap w f = Some o1 \<longrightarrow>
     (if completes (fstate o1) then fcont o1 \<in> {0, ContinuationInvoked} else linked w (fcont o1)))"

definition flight_ok :: "'e fworld \<Rightarrow> 'e fwork \<Rightarrow> bool" where
  "flight_ok w x \<longleftrightarrow> (case flight_of x of None \<Rightarrow> True | Some (f, c) \<Rightarrow> linked w c \<and> is_done w f)"

definition chains_inv :: "nat \<Rightarrow> 'e fworld \<Rightarrow> bool" where
  "chains_inv n w \<longleftrightarrow> (\<forall>f. root_ok w f) \<and> (\<forall>u. list_all (flight_ok w) (fstack w u))
     \<and> (\<forall>u. n \<le> u \<longrightarrow> fstack w u = [])
     \<and> added (flog w) = waiting n w + delivered (flog w)
     \<and> (\<forall>c. count (image_mset snd (added (flog w))) c \<le> 1)
     \<and> (\<forall>c. c \<in># image_mset snd (added (flog w)) \<longrightarrow> cont_ok w c)"

text \<open>What is asked of the clients: a continuation is added once, while it is pending.\<close>

definition adds_ok :: "'e fworld \<Rightarrow> 'e fwork \<Rightarrow> bool" where
  "adds_ok w x \<longleftrightarrow> (\<forall>f c. x = DoAddContinuation f c \<longrightarrow>
     c \<notin># image_mset snd (added (flog w)) \<and> c \<noteq> 0 \<and> c \<noteq> ContinuationInvoked
     \<and> (\<exists>o1. heap w c = Some o1 \<and> deliverable (m_traits o1) \<and> fstate o1 = Pending))"

text \<open>The members of any list are continuations still to be posted.\<close>

lemma waiting_undelivered:
  assumes inv: "chains_inv n w" and "(f, c) \<in># waiting n w"
  shows "c \<in># image_mset snd (added (flog w))" and "c \<notin># image_mset snd (delivered (flog w))"
proof -
  have eq: "image_mset snd (added (flog w))
      = image_mset snd (waiting n w) + image_mset snd (delivered (flog w))"
    using inv by (simp add: chains_inv_def)
  have w: "c \<in># image_mset snd (waiting n w)" using assms(2) by force
  with eq show "c \<in># image_mset snd (added (flog w))" by simp
  have "count (image_mset snd (added (flog w))) c \<le> 1" using inv unfolding chains_inv_def by blast
  moreover have "count (image_mset snd (waiting n w)) c \<ge> 1" using w by simp
  ultimately have "count (image_mset snd (delivered (flog w))) c = 0" unfolding eq count_union by linarith
  then show "c \<notin># image_mset snd (delivered (flog w))" by (simp only: not_in_iff)
qed

lemma future_pairs_waiting: "future_pairs w f \<subseteq># waiting n w"
proof -
  have "(\<Sum>g\<in>UNIV. future_pairs w g) = future_pairs w f + (\<Sum>g\<in>UNIV - {f}. future_pairs w g)"
    by (simp add: sum.remove)
  then show ?thesis by (simp add: waiting_def)
qed

lemma stack_pairs_waiting: "u < n \<Longrightarrow> stack_pairs w (fstack w u) \<subseteq># waiting n w"
proof -
  assume "u < n"
  then have "(\<Sum>v<n. stack_pairs w (fstack w v))
      = stack_pairs w (fstack w u) + (\<Sum>v\<in>{..<n} - {u}. stack_pairs w (fstack w v))"
    by (simp add: sum.remove)
  then show ?thesis by (simp add: waiting_def)
qed

lemma pairs_member: "q \<in> set (conts w c) \<longleftrightarrow> (f, q) \<in># pairs w f c"
  by (auto simp: pairs_def)

section \<open>One step\<close>

definition safe_list :: "'e fworld \<Rightarrow> 'e fworld \<Rightarrow> ptr \<Rightarrow> bool" where
  "safe_list w w1 c \<longleftrightarrow> (\<forall>q \<in> set (conts w c). links w1 q = links w q)"

definition safe_entry :: "'e fworld \<Rightarrow> 'e fworld \<Rightarrow> 'e fwork \<Rightarrow> bool" where
  "safe_entry w w1 x \<longleftrightarrow> (case flight_of x of None \<Rightarrow> True | Some (f, c) \<Rightarrow> safe_list w w1 c)"

definition safe_future :: "'e fworld \<Rightarrow> 'e fworld \<Rightarrow> ptr \<Rightarrow> bool" where
  "safe_future w w1 f \<longleftrightarrow>
     (case heap w f of
        None \<Rightarrow> heap w1 f = None
      | Some o1 \<Rightarrow> \<exists>o2. heap w1 f = Some o2 \<and> completes (fstate o2) = completes (fstate o1)
          \<and> fcont o2 = fcont o1 \<and> (\<not> completes (fstate o1) \<longrightarrow> safe_list w w1 (fcont o1)))"

lemma safe_pairs: "linked w c \<Longrightarrow> safe_list w w1 c \<Longrightarrow> linked w1 c \<and> pairs w1 f c = pairs w f c"
  using conts_frame [of w c w1] by (simp add: safe_list_def pairs_def)

lemma safe_entry_pairs:
  "flight_ok w x \<Longrightarrow> safe_entry w w1 x \<Longrightarrow> (\<And>f. is_done w f \<Longrightarrow> is_done w1 f) \<Longrightarrow>
     flight_ok w1 x \<and> entry_pairs w1 x = entry_pairs w x"
  by (auto simp: flight_ok_def safe_entry_def entry_pairs_def safe_pairs split: option.splits)

lemma safe_stack_pairs:
  "list_all (flight_ok w) xs \<Longrightarrow> list_all (safe_entry w w1) xs \<Longrightarrow> (\<And>f. is_done w f \<Longrightarrow> is_done w1 f) \<Longrightarrow>
     list_all (flight_ok w1) xs \<and> stack_pairs w1 xs = stack_pairs w xs"
proof (induction xs)
  case (Cons x xs)
  then have "flight_ok w1 x \<and> entry_pairs w1 x = entry_pairs w x" by (intro safe_entry_pairs) auto
  with Cons show ?case by simp
qed simp

lemma safe_future_pairs:
  "root_ok w f \<Longrightarrow> safe_future w w1 f \<Longrightarrow> root_ok w1 f \<and> future_pairs w1 f = future_pairs w f"
  by (cases "heap w f") (auto simp: root_ok_def safe_future_def future_pairs_def safe_pairs)

lemma same_heap_views:
  "heap w' = heap w1 \<Longrightarrow> pairs w' f c = pairs w1 f c \<and> linked w' c = linked w1 c"
  using chain_heap [of w' w1] by (simp add: pairs_def conts_def linked_def)

lemma sum_at:
  fixes F G :: "'b \<Rightarrow> 'c :: comm_monoid_add"
  assumes "finite A" and "a \<in> A" and "\<And>b. b \<noteq> a \<Longrightarrow> F b = G b"
  shows "(\<Sum>b\<in>A. F b) + G a = (\<Sum>b\<in>A. G b) + F a"
proof -
  have "(\<Sum>b\<in>A. F b) = F a + (\<Sum>b\<in>A - {a}. F b)" and "(\<Sum>b\<in>A. G b) = G a + (\<Sum>b\<in>A - {a}. G b)"
    using assms(1,2) by (simp_all add: sum.remove)
  moreover have "(\<Sum>b\<in>A - {a}. F b) = (\<Sum>b\<in>A - {a}. G b)"
    using assms(3) by (intro sum.cong) auto
  ultimately show ?thesis by (simp add: ac_simps)
qed

lemma chains_balance:
  fixes a0 :: "'b multiset"
  assumes "a0 = (fs + us) + d0" and "fs + g1 = gs + g0" and "us + (n1 + y) = vs + (e0 + y)"
    and "a1 + g0 + e0 + d0 = a0 + g1 + n1 + d1"
  shows "a1 = (gs + vs) + d1"
proof (rule multiset_eqI)
  fix z
  show "count a1 z = count ((gs + vs) + d1) z"
    using assms [THEN arg_cong [where f = "\<lambda>m. count m z"]] by simp
qed

lemma chains_step:
  assumes inv: "chains_inv n w" and tid: "tid < n" and stack: "fstack w1 = fstack w"
    and top: "fstack w tid = ys \<and> flight_of x = None \<or> fstack w tid = x # ys"
    and others: "\<And>u. u \<noteq> tid \<Longrightarrow> list_all (safe_entry w w1) (fstack w u)" and ys: "list_all (safe_entry w w1) ys"
    and futures: "\<And>f. f \<noteq> f0 \<Longrightarrow> safe_future w w1 f" and root: "root_ok w1 f0"
    and done_mono: "\<And>f. is_done w f \<Longrightarrow> is_done w1 f" and new: "list_all (flight_ok w1) new"
    and local: "added (flog w1) + future_pairs w f0 + entry_pairs w x + delivered (flog w)
      = added (flog w) + future_pairs w1 f0 + stack_pairs w1 new + delivered (flog w1)"
    and once: "\<And>c. count (image_mset snd (added (flog w1))) c \<le> 1"
    and conts: "\<And>c. c \<in># image_mset snd (added (flog w1)) \<Longrightarrow> cont_ok w1 c"
  shows "chains_inv n (w1\<lparr>fstack := (fstack w)(tid := new @ ys)\<rparr>)"
proof -
  let ?w' = "w1\<lparr>fstack := (fstack w)(tid := new @ ys)\<rparr>"
  have same: "pairs ?w' f c = pairs w1 f c" "linked ?w' c = linked w1 c" for f c
    using same_heap_views [of ?w' w1] by simp_all
  have same_done: "is_done ?w' = is_done w1" by (rule ext) (simp add: is_done_def)
  have same_stack: "stack_pairs ?w' xs = stack_pairs w1 xs" "flight_ok ?w' = flight_ok w1" for xs
    by (auto simp: stack_pairs_def entry_pairs_def same flight_ok_def same_done fun_eq_iff
        intro!: arg_cong [where f = sum_list] split: option.splits)
  have same_futures: "future_pairs ?w' f = future_pairs w1 f" "root_ok ?w' f = root_ok w1 f" for f
    by (simp_all add: future_pairs_def root_ok_def same split: option.split)
  have stack_ok: "list_all (flight_ok w) (fstack w u)" for u using inv by (simp add: chains_inv_def)
  have ys_ok: "list_all (flight_ok w) ys" using top stack_ok [of tid] by auto
  note ys' = safe_stack_pairs [OF ys_ok ys done_mono]
  note others' = safe_stack_pairs [OF stack_ok others done_mono]
  have futures': "root_ok w1 f \<and> future_pairs w1 f = future_pairs w f" if "f \<noteq> f0" for f
    using safe_future_pairs [OF _ futures [OF that]] inv by (simp add: chains_inv_def)
  define g where "g u = stack_pairs w1 (((fstack w)(tid := new @ ys)) u)" for u
  have "(\<Sum>u<n. stack_pairs w (fstack w u)) + g tid = (\<Sum>u<n. g u) + stack_pairs w (fstack w tid)"
    using tid others' by (intro sum_one_thread) (simp_all add: g_def)
  moreover have "g tid = stack_pairs w1 new + stack_pairs w ys" using ys' by (simp add: g_def)
  moreover have "stack_pairs w (fstack w tid) = entry_pairs w x + stack_pairs w ys"
    using top by (auto simp: entry_pairs_def)
  ultimately have us: "(\<Sum>u<n. stack_pairs w (fstack w u)) + (stack_pairs w1 new + stack_pairs w ys)
      = (\<Sum>u<n. g u) + (entry_pairs w x + stack_pairs w ys)" by simp
  have fs: "(\<Sum>f\<in>UNIV. future_pairs w f) + future_pairs w1 f0
      = (\<Sum>f\<in>UNIV. future_pairs w1 f) + future_pairs w f0"
    using futures' by (intro sum_at) auto
  have "added (flog w) = ((\<Sum>f\<in>UNIV. future_pairs w f) + (\<Sum>u<n. stack_pairs w (fstack w u))) + delivered (flog w)"
    using inv by (simp add: chains_inv_def waiting_def)
  from chains_balance [OF this fs us local]
  have "added (flog w1) = waiting n ?w' + delivered (flog w1)"
    by (simp add: waiting_def same_futures same_stack g_def)
  moreover have "root_ok ?w' f" for f using futures' root by (cases "f = f0") (auto simp: same_futures)
  moreover have "list_all (flight_ok ?w') (((fstack w)(tid := new @ ys)) u)" for u
    using others' ys' new by (cases "u = tid") (auto simp: same_stack)
  moreover have "cont_ok ?w' c \<longleftrightarrow> cont_ok w1 c" for c by (simp add: cont_ok_def)
  moreover have "((fstack w)(tid := new @ ys)) u = []" if "n \<le> u" for u
    using inv tid that by (simp add: chains_inv_def)
  ultimately show ?thesis using once conts by (simp add: chains_inv_def)
qed

text \<open>Steps that leave the links of all waiting continuations alone.\<close>

definition links_kept :: "nat \<Rightarrow> 'e fworld \<Rightarrow> 'e fworld \<Rightarrow> bool" where
  "links_kept n w w1 \<longleftrightarrow> (\<forall>q \<in># image_mset snd (waiting n w). links w1 q = links w q)"

lemma entry_pairs_stack: "x \<in> set xs \<Longrightarrow> z \<in># entry_pairs w x \<Longrightarrow> z \<in># stack_pairs w xs"
  by (induction xs) auto

lemma links_keptD: "links_kept n w w1 \<Longrightarrow> (f, q) \<in># waiting n w \<Longrightarrow> links w1 q = links w q"
  by (force simp: links_kept_def)

lemma safe_stack:
  assumes idle: "\<And>v. n \<le> v \<Longrightarrow> fstack w v = []" and kept: "links_kept n w w1"
  shows "list_all (safe_entry w w1) (fstack w u)"
proof (cases "u < n")
  case True
  have "safe_entry w w1 x" if x: "x \<in> set (fstack w u)" for x
  proof -
    have "links w1 q = links w q" if f: "flight_of x = Some (f, c)" and q: "q \<in> set (conts w c)" for f c q
    proof -
      have "(f, q) \<in># entry_pairs w x" using f q by (simp add: entry_pairs_def pairs_def)
      with x have "(f, q) \<in># stack_pairs w (fstack w u)" by (rule entry_pairs_stack)
      then have "(f, q) \<in># waiting n w" using stack_pairs_waiting [OF True] by (meson mset_subset_eqD)
      with kept show ?thesis by (rule links_keptD)
    qed
    then show ?thesis by (auto simp: safe_entry_def safe_list_def split: option.splits)
  qed
  then show ?thesis by (simp add: list_all_iff)
next
  case False
  then show ?thesis using idle by simp
qed

lemma chains_idle: "chains_inv n w \<Longrightarrow> n \<le> v \<Longrightarrow> fstack w v = []"
  by (simp add: chains_inv_def)

lemma safe_future_list:
  assumes kept: "links_kept n w w1" and o1: "heap w f = Some o1" and running: "\<not> completes (fstate o1)"
  shows "safe_list w w1 (fcont o1)"
proof -
  have "links w1 q = links w q" if "q \<in> set (conts w (fcont o1))" for q
  proof -
    from that have "(f, q) \<in># future_pairs w f" using o1 running by (simp add: future_pairs_def pairs_def)
    then have "(f, q) \<in># waiting n w" using future_pairs_waiting [of w f n] by (meson mset_subset_eqD)
    with kept show ?thesis by (rule links_keptD)
  qed
  then show ?thesis by (simp add: safe_list_def)
qed

text \<open>A continuation may change, but not get a link when it is no longer pending.\<close>

definition cont_stable :: "'e FutureImpl \<Rightarrow> 'e FutureImpl \<Rightarrow> bool" where
  "cont_stable o1 o2 \<longleftrightarrow> m_traits o2 = m_traits o1
     \<and> (deliverable (m_traits o1) \<longrightarrow> fstate o2 \<noteq> Pending \<longrightarrow>
          m_link o2 = 0 \<or> fstate o1 \<noteq> Pending \<and> m_link o2 = m_link o1)"

definition conts_stable :: "'e fworld \<Rightarrow> 'e fworld \<Rightarrow> bool" where
  "conts_stable w w1 \<longleftrightarrow> (\<forall>c o1. heap w c = Some o1 \<longrightarrow> (\<exists>o2. heap w1 c = Some o2 \<and> cont_stable o1 o2))"

lemma cont_ok_stable:
  assumes "conts_stable w w1" and "delivered (flog w) \<subseteq># delivered (flog w1)" and "cont_ok w c"
  shows "cont_ok w1 c"
proof -
  from assms(3) obtain o1 where o1: "heap w c = Some o1" and d: "deliverable (m_traits o1)"
    and l: "c \<notin># image_mset snd (delivered (flog w)) \<longrightarrow> fstate o1 \<noteq> Pending \<longrightarrow> m_link o1 = 0"
    by (auto simp: cont_ok_def)
  from assms(1) o1 obtain o2 where "heap w1 c = Some o2" and "cont_stable o1 o2"
    by (auto simp: conts_stable_def)
  moreover have "c \<notin># image_mset snd (delivered (flog w1)) \<longrightarrow> c \<notin># image_mset snd (delivered (flog w))"
    using assms(2) by (meson image_mset_subseteq_mono mset_subset_eqD)
  ultimately show ?thesis using d l by (auto simp: cont_ok_def cont_stable_def)
qed

lemma cont_stable_simps [simp]:
  "cont_stable o1 o1" "cont_stable o1 (o2\<lparr>m_error := e\<rparr>) = cont_stable o1 o2"
  "cont_stable o1 (o2\<lparr>m_taskSize := k\<rparr>) = cont_stable o1 o2"
  "cont_stable o1 (o2\<lparr>callback := b\<rparr>) = cont_stable o1 o2"
  "cont_stable o1 (o1\<lparr>m_link := 0\<rparr>)"
  by (auto simp: cont_stable_def)

lemma conts_stable_refl [simp]: "conts_stable w w"
  by (auto simp: conts_stable_def)

text \<open>A quiet step: no future completes, no list moves, at most one future is made.\<close>

lemma chains_quiet:
  assumes inv: "chains_inv n w" and tid: "tid < n" and stack: "fstack w1 = fstack w"
    and top: "fstack w tid = ys \<and> flight_of x = None \<or> fstack w tid = x # ys"
    and kept: "links_kept n w w1" and stable: "conts_stable w w1"
    and futures: "\<And>f o1. heap w f = Some o1 \<Longrightarrow>
       \<exists>o2. heap w1 f = Some o2 \<and> completes (fstate o2) = completes (fstate o1) \<and> fcont o2 = fcont o1"
    and fresh: "\<And>f. heap w f = None \<Longrightarrow> f \<noteq> f0 \<Longrightarrow> heap w1 f = None"
    and made: "heap w f0 = None \<Longrightarrow>
       heap w1 f0 = None \<or> (\<exists>o2. heap w1 f0 = Some o2 \<and> fstate o2 = Pending \<and> fcont o2 = 0)"
    and flights: "stack_pairs w1 new = entry_pairs w1 x" "list_all (flight_ok w1) new \<or> \<not> flight_ok w1 x"
    and log: "added (flog w1) = added (flog w)" "delivered (flog w1) = delivered (flog w)"
  shows "chains_inv n (w1\<lparr>fstack := (fstack w)(tid := new @ ys)\<rparr>)"
proof -
  have safe: "safe_future w w1 f" if "f \<noteq> f0 \<or> heap w f \<noteq> None" for f
  proof (cases "heap w f")
    case None
    then show ?thesis using that fresh by (simp add: safe_future_def)
  next
    case (Some o1)
    then show ?thesis using futures [OF Some] safe_future_list [OF kept Some] by (simp add: safe_future_def)
  qed
  have done_mono: "is_done w f \<Longrightarrow> is_done w1 f" for f
    using futures by (cases "heap w f") (fastforce simp: is_done_def state_at_def)+
  have root: "root_ok w1 f0 \<and> future_pairs w1 f0 = future_pairs w f0"
  proof (cases "heap w f0")
    case None
    then show ?thesis using made by (auto simp: root_ok_def future_pairs_def completes_def)
  next
    case (Some o1)
    then show ?thesis using safe_future_pairs [OF _ safe] inv by (simp add: chains_inv_def)
  qed
  have x: "flight_ok w1 x \<and> entry_pairs w1 x = entry_pairs w x"
  proof (cases "flight_of x = None")
    case True
    then show ?thesis by (simp add: flight_ok_def entry_pairs_def)
  next
    case False
    with top have "x \<in> set (fstack w tid)" by auto
    moreover have "list_all (flight_ok w) (fstack w tid)" using inv by (simp add: chains_inv_def)
    ultimately have "flight_ok w x" and "safe_entry w w1 x"
      using safe_stack [OF chains_idle [OF inv] kept, of tid] by (auto simp: list_all_iff)
    then show ?thesis using done_mono by (rule safe_entry_pairs)
  qed
  show ?thesis
  proof (rule chains_step [OF inv tid stack top])
    show "list_all (safe_entry w w1) (fstack w u)" for u using safe_stack [OF chains_idle [OF inv] kept] .
    show "list_all (safe_entry w w1) ys" using safe_stack [OF chains_idle [OF inv] kept, of tid] top by auto
    show "safe_future w w1 f" if "f \<noteq> f0" for f using safe that by blast
    show "cont_ok w1 c" if "c \<in># image_mset snd (added (flog w1))" for c
      using that inv cont_ok_stable [OF stable] log by (auto simp: chains_inv_def)
    show "count (image_mset snd (added (flog w1))) c \<le> 1" for c
      using inv unfolding log(1) chains_inv_def by blast
  qed (use root x flights log done_mono in \<open>auto simp: ac_simps\<close>)
qed

section \<open>The entries\<close>

definition at_top :: "'e fworld \<Rightarrow> thread_id \<Rightarrow> 'e fwork \<Rightarrow> 'e fwork list \<Rightarrow> bool" where
  "at_top w tid x ys \<longleftrightarrow> fstack w tid = ys \<and> flight_of x = None \<or> fstack w tid = x # ys"

lemma links_kept_update:
  assumes inv: "chains_inv n w" and f: "heap w f = Some o1" and w1: "heap w1 = (heap w)(f \<mapsto> o2)"
    and stable: "cont_stable o1 o2" and pending: "fstate o1 = Pending \<Longrightarrow> m_link o2 = m_link o1"
    and running: "fstate o1 \<noteq> Pending \<Longrightarrow> fstate o2 \<noteq> Pending"
  shows "links_kept n w w1"
proof -
  have "links w1 q = links w q" if "(g, q) \<in># waiting n w" for g q
  proof (cases "q = f")
    case True
    have "cont_ok w q" and "q \<notin># image_mset snd (delivered (flog w))"
      using waiting_undelivered [OF inv that] inv by (simp_all add: chains_inv_def)
    with True f have "deliverable (m_traits o1)" and "fstate o1 \<noteq> Pending \<longrightarrow> m_link o1 = 0"
      by (auto simp: cont_ok_def)
    then have "m_link o2 = m_link o1" using stable pending running by (auto simp: cont_stable_def)
    then show ?thesis using True f w1 by (simp add: links_def)
  qed (simp add: links_def w1)
  then show ?thesis by (force simp: links_kept_def)
qed

text \<open>A quiet step that changes one object.\<close>

lemma chains_update:
  assumes inv: "chains_inv n w" and tid: "tid < n" and stack: "fstack w1 = fstack w"
    and top: "at_top w tid x ys" and f: "heap w f = Some o1" and w1: "heap w1 = (heap w)(f \<mapsto> o2)"
    and stable: "cont_stable o1 o2" and pending: "fstate o1 = Pending \<Longrightarrow> m_link o2 = m_link o1"
    and running: "fstate o1 \<noteq> Pending \<Longrightarrow> fstate o2 \<noteq> Pending"
    and same: "completes (fstate o2) = completes (fstate o1)" "fcont o2 = fcont o1"
    and flights: "stack_pairs w1 new = entry_pairs w1 x" "list_all (flight_ok w1) new \<or> \<not> flight_ok w1 x"
    and log: "added (flog w1) = added (flog w)" "delivered (flog w1) = delivered (flog w)"
  shows "chains_inv n (w1\<lparr>fstack := (fstack w)(tid := new @ ys)\<rparr>)"
proof (rule chains_quiet [OF inv tid stack top [unfolded at_top_def]])
  show "links_kept n w w1"
    using inv f w1 stable pending running by (rule links_kept_update)
  show "conts_stable w w1" using f w1 stable by (auto simp: conts_stable_def)
  show "\<exists>o2. heap w1 g = Some o2 \<and> completes (fstate o2) = completes (fstate o3) \<and> fcont o2 = fcont o3"
    if "heap w g = Some o3" for g o3 using that f w1 same by auto
  show "heap w1 g = None" if "heap w g = None" "g \<noteq> f" for g using that w1 by simp
qed (use f flights log in auto)

lemma chains_same_heap:
  assumes inv: "chains_inv n w" and tid: "tid < n" and stack: "fstack w1 = fstack w"
    and top: "at_top w tid x ys" and w1: "heap w1 = heap w"
    and flights: "stack_pairs w1 new = entry_pairs w1 x" "list_all (flight_ok w1) new \<or> \<not> flight_ok w1 x"
    and log: "added (flog w1) = added (flog w)" "delivered (flog w1) = delivered (flog w)"
  shows "chains_inv n (w1\<lparr>fstack := (fstack w)(tid := new @ ys)\<rparr>)"
proof (rule chains_quiet [OF inv tid stack top [unfolded at_top_def]])
  show "links_kept n w w1" by (simp add: links_kept_def links_def w1)
  show "conts_stable w w1" by (auto simp: conts_stable_def w1)
qed (use w1 flights log in auto)

text \<open>Rounds that move a future without completing it.\<close>

definition pending_move_ok :: "decision \<Rightarrow> 'e FutureImpl \<Rightarrow> bool" where
  "pending_move_ok d o1 \<longleftrightarrow> (\<forall>s. d = MoveTo s \<longrightarrow> documented_transition (fstate o1) s
     \<and> (fstate o1 = Pending \<longrightarrow> deliverable (m_traits o1) \<longrightarrow> m_link o1 = 0))"

lemma deliverable_stays_pending:
  "deliverable t \<Longrightarrow> TryStartSetValue t sync c Pending \<noteq> MoveTo s"
  "deliverable t \<Longrightarrow> TrySetSuccess t sync Pending \<noteq> MoveTo s"
  by (auto simp: deliverable_def decision_defs Let_def)

lemma pending_move_decisions:
  "pending_move_ok (TryStartSetValue (m_traits o1) sync c (fstate o1)) o1"
  "pending_move_ok (TrySetSuccess (m_traits o1) sync (fstate o1)) o1"
  "pending_move_ok (TryStartSetError sync (m_link o1) (fstate o1)) o1"
  "pending_move_ok (StartAwaiting (fstate o1)) o1"
  "pending_move_ok (SetFailed (fstate o1)) o1"
  "pending_move_ok (TrySetPosted sync (fstate o1)) o1"
  "pending_move_ok (TrySetInvoking sync k (fstate o1)) o1"
  by (auto simp: pending_move_ok_def decisions_documented deliverable_stays_pending)
    (auto simp: decision_defs split: if_splits)

lemma moved_stable:
  assumes "pending_move_ok (MoveTo s) o1"
  shows "cont_stable o1 (o1\<lparr>m_stateAndContinuation := Make s (new_continuation s (fcont o1))\<rparr>)"
  using assms by (auto simp: cont_stable_def pending_move_ok_def)

lemma chains_round:
  assumes inv: "chains_inv n w" and tid: "tid < n" and top: "at_top w tid x ys"
    and r: "round_of f c again d o1 w k = Returns (new, w1)" and f: "heap w f = Some o1"
    and d: "pending_move_ok d o1" and quiet: "\<And>s. d = MoveTo s \<Longrightarrow> \<not> completes s"
    and k: "\<And>o2 w2. k o2 w2 = Returns (new, w1) \<Longrightarrow> heap w1 = heap w2 \<and> fstack w1 = fstack w2
        \<and> (\<exists>es. flog w1 = flog w2 @ es \<and> added es = {#} \<and> delivered es = {#})
        \<and> list_all (\<lambda>y. flight_of y = None) new"
    and x: "flight_of x = None" "flight_of again = None"
  shows "chains_inv n (w1\<lparr>fstack := (fstack w)(tid := new @ ys)\<rparr>)"
proof -
  have none: "stack_pairs v xs = {#} \<and> list_all (flight_ok v) xs" if "list_all (\<lambda>y. flight_of y = None) xs"
    for v :: "'a fworld" and xs
    using that by (induction xs) (auto simp: entry_pairs_def flight_ok_def)
  have x0: "entry_pairs v x = {#}" "flight_ok v x" for v :: "'a fworld"
    using x(1) by (simp_all add: entry_pairs_def flight_ok_def)
  from r show ?thesis
  proof (cases rule: round_of_cases)
    case (move s)
    let ?o2 = "o1\<lparr>m_stateAndContinuation := Make s (new_continuation s (fcont o1))\<rparr>"
    from k [OF move(2)] obtain es where w1: "heap w1 = (heap w)(f \<mapsto> ?o2)" "fstack w1 = fstack w"
      "flog w1 = flog (move_state f s o1 w) @ es" "added es = {#}" "delivered es = {#}"
      "list_all (\<lambda>y. flight_of y = None) new" by auto
    have nc: "\<not> completes s" using quiet [OF move(1)] .
    have doc: "documented_transition (fstate o1) s" using d move(1) by (simp add: pending_move_ok_def)
    show ?thesis
    proof (rule chains_update [OF inv tid w1(2) top f w1(1)])
      show "cont_stable o1 ?o2" using d move(1) by (intro moved_stable) simp
      show "completes (fstate ?o2) = completes (fstate o1)"
        using doc nc by (auto simp: documented_transition_def completes_def)
      show "fcont ?o2 = fcont o1" using nc by (simp add: new_continuation_def)
      show "fstate ?o2 \<noteq> Pending" using doc by (auto dest: documented_target)
      show "stack_pairs w1 new = entry_pairs w1 x" "list_all (flight_ok w1) new \<or> \<not> flight_ok w1 x"
        using none [OF w1(6)] x0 by simp_all
      show "added (flog w1) = added (flog w)" "delivered (flog w1) = delivered (flog w)"
        using w1(3-5) nc by simp_all
    qed simp
  next
    case wait
    then show ?thesis using x x0
      by (intro chains_same_heap [OF inv tid _ top]) (simp_all add: entry_pairs_def flight_ok_def)
  next
    case stop
    then show ?thesis using x0 by (intro chains_same_heap [OF inv tid _ top]) simp_all
  qed
qed

text \<open>Rounds that complete a future: its list moves to the thread.\<close>

lemma chains_complete:
  assumes inv: "chains_inv n w" and tid: "tid < n" and top: "at_top w tid x ys"
    and r: "round_of f c again d o1 w k = Returns (new, w1)" and f: "heap w f = Some o1"
    and d: "pending_move_ok d o1" and final: "\<And>s. d = MoveTo s \<Longrightarrow> completes s"
    and k: "\<And>o2 w2. k o2 w2 = Returns (new, w1) \<Longrightarrow>
        w1 = w2 \<and> (\<exists>y. new = [y] \<and> flight_of y = Some (f, fcont o1))"
    and x: "flight_of x = None" "flight_of again = None"
  shows "chains_inv n (w1\<lparr>fstack := (fstack w)(tid := new @ ys)\<rparr>)"
proof -
  have x0: "entry_pairs v x = {#}" "flight_ok v x" for v :: "'a fworld"
    using x(1) by (simp_all add: entry_pairs_def flight_ok_def)
  from r show ?thesis
  proof (cases rule: round_of_cases)
    case (move s)
    let ?o2 = "o1\<lparr>m_stateAndContinuation := Make s (new_continuation s (fcont o1))\<rparr>"
    have w1: "w1 = move_state f s o1 w" using k [OF move(2)] by simp
    obtain y where y: "new = [y]" "flight_of y = Some (f, fcont o1)" using k [OF move(2)] by blast
    have fin: "completes s" using final [OF move(1)] .
    have doc: "documented_transition (fstate o1) s" using d move(1) by (simp add: pending_move_ok_def)
    then have run: "\<not> completes (fstate o1)" by (auto simp: documented_transition_def completes_def)
    have linked: "linked w (fcont o1)" using inv f run by (auto simp: chains_inv_def root_ok_def)
    have stable: "cont_stable o1 ?o2" using d move(1) by (intro moved_stable) simp
    have links: "links w1 = links w" using f by (auto simp: links_def w1)
    then have kept: "links_kept n w w1" by (simp add: links_kept_def)
    have list: "linked w1 (fcont o1) \<and> pairs w1 f (fcont o1) = pairs w f (fcont o1)"
      by (rule safe_pairs [OF linked]) (simp add: safe_list_def links)
    have log: "added (flog w1) = added (flog w)" "delivered (flog w1) = delivered (flog w)"
      by (simp_all add: w1)
    have done_f: "is_done w1 f" using fin by (simp add: is_done_def state_at_def w1)
    have done_mono: "is_done w g \<Longrightarrow> is_done w1 g" for g
      using done_f by (cases "g = f") (simp_all add: is_done_def state_at_def w1)
    show ?thesis
    proof (rule chains_step [OF inv tid _ top [unfolded at_top_def], where ?f0.0 = f])
      show "fstack w1 = fstack w" by (simp add: w1)
      show "list_all (safe_entry w w1) (fstack w u)" for u using safe_stack [OF chains_idle [OF inv] kept] .
      show "list_all (safe_entry w w1) ys"
        using safe_stack [OF chains_idle [OF inv] kept, of tid] top by (auto simp: at_top_def)
      show "safe_future w w1 g" if "g \<noteq> f" for g
        using that safe_future_list [OF kept] by (auto simp: safe_future_def w1 split: option.split)
      show "root_ok w1 f" using fin by (simp add: root_ok_def w1 new_continuation_def)
      show "list_all (flight_ok w1) new" using y list done_f by (simp add: flight_ok_def)
      show "added (flog w1) + future_pairs w f + entry_pairs w x + delivered (flog w)
          = added (flog w) + future_pairs w1 f + stack_pairs w1 new + delivered (flog w1)"
        using f run fin y list x0 by (simp add: future_pairs_def entry_pairs_def w1)
      show "cont_ok w1 c" if "c \<in># image_mset snd (added (flog w1))" for c
      proof (rule cont_ok_stable)
        show "conts_stable w w1" using f stable by (auto simp: conts_stable_def w1)
        show "cont_ok w c" using that inv unfolding log chains_inv_def by blast
      qed (simp add: log)
      show "count (image_mset snd (added (flog w1))) c \<le> 1" for c
        using inv unfolding log chains_inv_def by blast
    qed (rule done_mono)
  next
    case wait
    then show ?thesis using x x0
      by (intro chains_same_heap [OF inv tid _ top]) (simp_all add: entry_pairs_def flight_ok_def)
  next
    case stop
    then show ?thesis using x0 by (intro chains_same_heap [OF inv tid _ top]) simp_all
  qed
qed

lemma TrySetSuccess_target: "TrySetSuccess t sync s = MoveTo s' \<Longrightarrow> s' = Succeeded"
  by (auto simp: decision_defs Let_def split: FutureState.splits if_splits)

lemma SetFailed_target: "SetFailed s = MoveTo s' \<Longrightarrow> s' = Failed"
  by (auto simp: decision_defs split: if_splits)

lemma running_targets:
  "TryStartSetValue t sync c s = MoveTo s' \<Longrightarrow> \<not> completes s'"
  "TryStartSetError sync l s = MoveTo s' \<Longrightarrow> \<not> completes s'"
  "StartAwaiting s = MoveTo s' \<Longrightarrow> \<not> completes s'"
  "TrySetPosted sync s = MoveTo s' \<Longrightarrow> \<not> completes s'"
  "TrySetInvoking sync k s = MoveTo s' \<Longrightarrow> \<not> completes s'"
  by (cases s; auto simp: decision_defs completes_def split: if_splits)+

lemma chains_rounds:
  assumes inv: "chains_inv n w" and tid: "tid < n" and top: "at_top w tid x ys"
  shows "x = DoTrySetSuccess f c \<Longrightarrow> exec_TrySetSuccess tid f c w = Returns (new, w1) \<Longrightarrow>
      chains_inv n (w1\<lparr>fstack := (fstack w)(tid := new @ ys)\<rparr>)"
    and "x = DoSetFailed f \<Longrightarrow> exec_SetFailed f w = Returns (new, w1) \<Longrightarrow>
      chains_inv n (w1\<lparr>fstack := (fstack w)(tid := new @ ys)\<rparr>)"
    and "x = DoTryStartSetValue f c \<Longrightarrow> exec_TryStartSetValue tid f c w = Returns (new, w1) \<Longrightarrow>
      chains_inv n (w1\<lparr>fstack := (fstack w)(tid := new @ ys)\<rparr>)"
    and "x = DoTrySetError f e c \<Longrightarrow> exec_TrySetError tid f e c w = Returns (new, w1) \<Longrightarrow>
      chains_inv n (w1\<lparr>fstack := (fstack w)(tid := new @ ys)\<rparr>)"
    and "x = DoStartAwaiting f \<Longrightarrow> exec_StartAwaiting f w = Returns (new, w1) \<Longrightarrow>
      chains_inv n (w1\<lparr>fstack := (fstack w)(tid := new @ ys)\<rparr>)"
    and "x = DoTrySetPosted f \<Longrightarrow> exec_TrySetPosted tid f w = Returns (new, w1) \<Longrightarrow>
      chains_inv n (w1\<lparr>fstack := (fstack w)(tid := new @ ys)\<rparr>)"
    and "x = DoInvoke f j \<Longrightarrow> exec_Invoke tid f j w = Returns (new, w1) \<Longrightarrow>
      chains_inv n (w1\<lparr>fstack := (fstack w)(tid := new @ ys)\<rparr>)"
proof -
  let ?goal = "chains_inv n (w1\<lparr>fstack := (fstack w)(tid := new @ ys)\<rparr>)"
  note complete = chains_complete [OF inv tid top] and round = chains_round [OF inv tid top]
  show ?goal if "x = DoTrySetSuccess f c" "exec_TrySetSuccess tid f c w = Returns (new, w1)"
    using that(2) unfolding exec_TrySetSuccess_def with_future_Returns
    by (elim exE conjE, elim complete)
      (auto simp: that(1) pending_move_decisions completes_def dest: TrySetSuccess_target)
  show ?goal if "x = DoSetFailed f" "exec_SetFailed f w = Returns (new, w1)"
    using that(2) unfolding exec_SetFailed_def with_future_Returns
    by (elim exE conjE, elim complete)
      (auto simp: that(1) pending_move_decisions completes_def dest: SetFailed_target)
  show ?goal if "x = DoTryStartSetValue f c" "exec_TryStartSetValue tid f c w = Returns (new, w1)"
    using that(2) unfolding exec_TryStartSetValue_def with_future_Returns
    by (elim exE conjE, elim round) (auto simp: that(1) pending_move_decisions dest: running_targets)
  show ?goal if "x = DoTrySetError f e c" "exec_TrySetError tid f e c w = Returns (new, w1)"
    using that(2) unfolding exec_TrySetError_def with_future_Returns
    by (elim exE conjE, elim round) (auto simp: that(1) pending_move_decisions dest: running_targets)
  show ?goal if "x = DoStartAwaiting f" "exec_StartAwaiting f w = Returns (new, w1)"
    using that(2) unfolding exec_StartAwaiting_def with_future_Returns
    by (elim exE conjE, elim round) (auto simp: that(1) pending_move_decisions dest: running_targets)
  show ?goal if "x = DoTrySetPosted f" "exec_TrySetPosted tid f w = Returns (new, w1)"
    using that(2) unfolding exec_TrySetPosted_def with_future_Returns
    by (elim exE conjE, elim round) (auto simp: that(1) pending_move_decisions dest: running_targets)
  show ?goal if "x = DoInvoke f j" "exec_Invoke tid f j w = Returns (new, w1)"
    using that(2) unfolding exec_Invoke_def with_future_Returns
    by (elim exE conjE, elim round)
      (auto simp: that(1) pending_move_decisions Let_def outcome_simps dest: running_targets
        split: option.split_asm if_split_asm)
qed

text \<open>The rest of a completion, and the entries that only touch other fields.\<close>

lemma flight_done:
  assumes "chains_inv n w" and "at_top w tid x ys" and "flight_of x = Some (f, c)"
  shows "is_done w f \<and> linked w c"
proof -
  have "x \<in> set (fstack w tid)" using assms(2,3) by (auto simp: at_top_def)
  then have "flight_ok w x" using assms(1) by (auto simp: chains_inv_def list_all_iff)
  then show ?thesis using assms(3) by (simp add: flight_ok_def)
qed

lemma chains_after:
  assumes inv: "chains_inv n w" and tid: "tid < n" and top: "at_top w tid x ys"
    and x: "flight_of x = Some (f, c)" and f: "heap w f = Some o1"
    and o2: "o2 = o1 \<or> o2 = o1\<lparr>m_link := 0\<rparr>"
    and w1: "heap w1 = (heap w)(f \<mapsto> o2\<lparr>m_error := e, m_taskSize := k\<rparr>)" "fstack w1 = fstack w"
    and new: "new = ws @ [DoDeliver f c]" "ws \<in> {[], [Client]}"
    and log: "added (flog w1) = added (flog w)" "delivered (flog w1) = delivered (flog w)"
  shows "chains_inv n (w1\<lparr>fstack := (fstack w)(tid := new @ ys)\<rparr>)"
proof (rule chains_update [OF inv tid w1(2) top f w1(1)])
  have "completes (fstate o1)" using flight_done [OF inv top x] f by (simp add: is_done_def state_at_def)
  then show "fstate (o2\<lparr>m_error := e, m_taskSize := k\<rparr>) \<noteq> Pending"
    using o2 by (auto simp: completes_def)
  show "m_link (o2\<lparr>m_error := e, m_taskSize := k\<rparr>) = m_link o1" if "fstate o1 = Pending"
    using that \<open>completes (fstate o1)\<close> by (simp add: completes_def)
  show "stack_pairs w1 new = entry_pairs w1 x" using new x by (auto simp: entry_pairs_def)
  show "list_all (flight_ok w1) new \<or> \<not> flight_ok w1 x" using new x by (auto simp: flight_ok_def)
qed (use o2 log in auto)

lemma record_same [simp]:
  "o1\<lparr>m_error := m_error o1\<rparr> = o1" "o1\<lparr>m_taskSize := m_taskSize o1\<rparr> = o1"
  by simp_all

lemma chains_plain:
  assumes inv: "chains_inv n w" and tid: "tid < n" and top: "at_top w tid x ys"
  shows "x = DoAfterSuccess f c \<Longrightarrow> exec_AfterSuccess f c w = Returns (new, w1) \<Longrightarrow>
      chains_inv n (w1\<lparr>fstack := (fstack w)(tid := new @ ys)\<rparr>)"
    and "x = DoAfterFailed f c \<Longrightarrow> exec_AfterFailed f c w = Returns (new, w1) \<Longrightarrow>
      chains_inv n (w1\<lparr>fstack := (fstack w)(tid := new @ ys)\<rparr>)"
proof -
  let ?goal = "chains_inv n (w1\<lparr>fstack := (fstack w)(tid := new @ ys)\<rparr>)"
  show ?goal if x: "x = DoAfterSuccess f c" and r: "exec_AfterSuccess f c w = Returns (new, w1)"
  proof -
    from r obtain o1 o2 ws where f: "heap w f = Some o1" and o2: "o2 = o1 \<or> o2 = o1\<lparr>m_link := 0\<rparr>"
      and d: "DestroyTask f True (o2\<lparr>m_error := None\<rparr>) w = (ws, w1)" and new: "new = ws @ [DoDeliver f c]"
      by (auto simp: exec_AfterSuccess_def outcome_simps Let_def split: if_split_asm)
    from d show ?thesis
    proof (cases rule: DestroyTask_cases)
      case 1
      then show ?thesis using x f o2 new
        by (intro chains_after [OF inv tid top _ f o2, where ws = ws and e = None and k = "m_taskSize o2"]) auto
    next
      case 2
      then show ?thesis using x f o2 new
        by (intro chains_after [OF inv tid top _ f o2, where ws = ws and e = None and k = 0]) auto
    qed
  qed
  show ?goal if x: "x = DoAfterFailed f c" and r: "exec_AfterFailed f c w = Returns (new, w1)"
  proof -
    from r obtain o1 ws where f: "heap w f = Some o1"
      and d: "DestroyTask f True (o1\<lparr>m_link := 0\<rparr>) w = (ws, w1)" and new: "new = ws @ [DoDeliver f c]"
      by (auto simp: exec_AfterFailed_def outcome_simps)
    let ?o2 = "o1\<lparr>m_link := 0\<rparr>"
    have same: "?o2\<lparr>m_error := m_error o1, m_taskSize := j\<rparr> = ?o2\<lparr>m_taskSize := j\<rparr>"
      "?o2\<lparr>m_taskSize := m_taskSize o1\<rparr> = ?o2" for j by simp_all
    from d show ?thesis
    proof (cases rule: DestroyTask_cases)
      case 1
      then show ?thesis using x f new
        by (intro chains_after [OF inv tid top _ f, where ws = ws and e = "m_error o1" and k = "m_taskSize o1"
              and ?o2.0 = ?o2]) (auto simp: same)
    next
      case 2
      then show ?thesis using x f new
        by (intro chains_after [OF inv tid top _ f, where ws = ws and e = "m_error o1" and k = 0
              and ?o2.0 = ?o2]) (auto simp: same)
    qed
  qed
qed

lemma no_flights:
  "list_all (\<lambda>y. flight_of y = None) new \<Longrightarrow> stack_pairs w1 new = {#} \<and> list_all (flight_ok w1) new"
  by (induction new) (auto simp: entry_pairs_def flight_ok_def)

text \<open>Entries that touch only the error, the task or the callback of a future.\<close>

lemma chains_field:
  assumes inv: "chains_inv n w" and tid: "tid < n" and top: "at_top w tid x ys" and x: "flight_of x = None"
    and f: "heap w f = Some o1" and w1: "heap w1 = (heap w)(f \<mapsto> o2)" "fstack w1 = fstack w"
    and o2: "m_traits o2 = m_traits o1" "m_link o2 = m_link o1"
      "m_stateAndContinuation o2 = m_stateAndContinuation o1"
    and new: "list_all (\<lambda>y. flight_of y = None) new"
    and log: "added (flog w1) = added (flog w)" "delivered (flog w1) = delivered (flog w)"
  shows "chains_inv n (w1\<lparr>fstack := (fstack w)(tid := new @ ys)\<rparr>)"
proof -
  have same: "fstate o2 = fstate o1" "fcont o2 = fcont o1" using o2(3) by (simp_all add: fstate_def fcont_def)
  show ?thesis
  proof (rule chains_update [OF inv tid w1(2) top f w1(1)])
    show "cont_stable o1 o2" using o2 same by (simp add: cont_stable_def)
    show "stack_pairs w1 new = entry_pairs w1 x" "list_all (flight_ok w1) new \<or> \<not> flight_ok w1 x"
      using no_flights [OF new] x by (simp_all add: entry_pairs_def)
  qed (use o2 same log in simp_all)
qed

lemma chains_none:
  assumes inv: "chains_inv n w" and tid: "tid < n" and top: "at_top w tid x ys" and x: "flight_of x = None"
    and w1: "heap w1 = heap w" "fstack w1 = fstack w" and new: "list_all (\<lambda>y. flight_of y = None) new"
    and log: "added (flog w1) = added (flog w)" "delivered (flog w1) = delivered (flog w)"
  shows "chains_inv n (w1\<lparr>fstack := (fstack w)(tid := new @ ys)\<rparr>)"
  using no_flights [OF new] x log
  by (intro chains_same_heap [OF inv tid w1(2) top w1(1)]) (simp_all add: entry_pairs_def)

section \<open>Adding a continuation\<close>

lemma not_waiting:
  assumes "chains_inv n w" and "c \<notin># image_mset snd (added (flog w))" and "(f, q) \<in># waiting n w"
  shows "q \<noteq> c"
  using assms waiting_undelivered(1) [OF assms(1,3)] by blast

lemma chains_AddContinuation:
  assumes inv: "chains_inv n w" and tid: "tid < n" and top: "at_top w tid (DoAddContinuation f c) ys"
    and r: "exec_AddContinuation f c w = Returns (new, w1)" and guard: "adds_ok w (DoAddContinuation f c)"
  shows "chains_inv n (w1\<lparr>fstack := (fstack w)(tid := new @ ys)\<rparr>)"
proof -
  from guard obtain c1 where fresh: "c \<notin># image_mset snd (added (flog w))" and c: "c \<noteq> 0" "c \<noteq> ContinuationInvoked"
    and c1: "heap w c = Some c1" "deliverable (m_traits c1)" "fstate c1 = Pending"
    by (auto simp: adds_ok_def)
  from r obtain o1 where f: "heap w f = Some o1" and al: "aligned c"
    by (auto simp: exec_AddContinuation_def outcome_simps)
  let ?done = "completes (fstate o1)"
  let ?l = "if ?done then 0 else fcont o1" and ?head = "if ?done then ContinuationInvoked else c"
  have new: "new = (if ?done then [DoPostContinuation f c] else [])"
    and w1: "w1 = log_event (Added f c) (modify_future f (\<lambda>o2. o2\<lparr>m_stateAndContinuation := Make (fstate o1) ?head\<rparr>)
        (modify_future c (\<lambda>c. c\<lparr>m_link := ?l\<rparr>) w))"
    using r f c1 by (auto simp: exec_AddContinuation_def outcome_simps Let_def split: if_split_asm)
  have heap_f: "\<exists>o2. heap w1 f = Some o2 \<and> m_traits o2 = m_traits o1 \<and> fstate o2 = fstate o1
      \<and> fcont o2 = ?head \<and> m_link o2 = (if f = c then ?l else m_link o1)"
    using f c1 al by (auto simp: w1)
  have heap_c: "\<exists>c2. heap w1 c = Some c2 \<and> m_traits c2 = m_traits c1 \<and> fstate c2 = Pending
      \<and> m_link c2 = ?l \<and> (f \<noteq> c \<longrightarrow> fcont c2 = fcont c1)"
    using f c1 al by (cases "f = c") (auto simp: w1)
  have heap_other: "heap w1 g = heap w g" if "g \<noteq> f" "g \<noteq> c" for g using that by (simp add: w1)
  have links: "links w1 q = links w q" if "q \<noteq> c" for q
    using that f heap_f heap_other [of q] by (cases "q = f") (auto simp: links_def)
  have link_c: "links w1 c = Some ?l" using heap_c by (auto simp: links_def)
  have kept: "links_kept n w w1" using links not_waiting [OF inv fresh] by (force simp: links_kept_def)
  have stable: "conts_stable w w1"
  proof -
    have "\<exists>o2. heap w1 q = Some o2 \<and> cont_stable o3 o2" if q: "heap w q = Some o3" for q o3
    proof (cases "q = c")
      case True
      then show ?thesis using q c1 heap_c by (auto simp: cont_stable_def)
    next
      case False
      then show ?thesis using q f heap_f heap_other by (cases "q = f") (auto simp: cont_stable_def)
    qed
    then show ?thesis by (simp add: conts_stable_def)
  qed
  have views: "is_done w1 g = is_done w g" for g
    using f c1 heap_f heap_c heap_other [of g] by (cases "g = f"; cases "g = c") (auto simp: is_done_def state_at_def)
  have log: "added (flog w1) = {#(f, c)#} + added (flog w)" "delivered (flog w1) = delivered (flog w)"
    by (simp_all add: w1)
  have list: "linked w1 c \<and> pairs w1 f c = {#(f, c)#} + (if ?done then {#} else pairs w f (fcont o1))"
  proof (cases ?done)
    case True
    then have single: "chain w1 [c] c" using c link_c by simp
    then have "linked w1 c" unfolding linked_def by blast
    with conts_eq [OF single] True show ?thesis by (simp add: pairs_def)
  next
    case False
    then have "linked w (fcont o1)" using inv f by (auto simp: chains_inv_def root_ok_def)
    moreover have "safe_list w w1 (fcont o1)" using kept f False by (rule safe_future_list)
    ultimately have "linked w1 (fcont o1) \<and> conts w1 (fcont o1) = conts w (fcont o1)"
      by (intro conts_frame) (simp_all add: safe_list_def)
    then have "chain w1 (conts w (fcont o1)) (fcont o1)" unfolding linked_chain by metis
    then have more: "chain w1 (c # conts w (fcont o1)) c" using c link_c False by simp
    then have "linked w1 c" unfolding linked_def by blast
    with conts_eq [OF more] False show ?thesis by (simp add: pairs_def)
  qed
  show ?thesis
  proof (rule chains_step [OF inv tid _ top [unfolded at_top_def], where ?f0.0 = f])
    show "fstack w1 = fstack w" by (simp add: w1)
    show "list_all (safe_entry w w1) (fstack w u)" for u using safe_stack [OF chains_idle [OF inv] kept] .
    show "list_all (safe_entry w w1) ys"
      using safe_stack [OF chains_idle [OF inv] kept, of tid] top by (auto simp: at_top_def)
    show "safe_future w w1 g" if "g \<noteq> f" for g
    proof (cases "g = c")
      case True
      then show ?thesis using that c1 heap_c safe_future_list [OF kept c1(1)] by (auto simp: safe_future_def)
    next
      case False
      then show ?thesis using that heap_other safe_future_list [OF kept]
        by (auto simp: safe_future_def split: option.split)
    qed
    show "root_ok w1 f" using heap_f list by (auto simp: root_ok_def)
    show "list_all (flight_ok w1) new"
      using new list f views by (auto simp: flight_ok_def is_done_def state_at_def)
    show "added (flog w1) + future_pairs w f + entry_pairs w (DoAddContinuation f c) + delivered (flog w)
        = added (flog w) + future_pairs w1 f + stack_pairs w1 new + delivered (flog w1)"
      using f heap_f list new by (auto simp: log future_pairs_def entry_pairs_def)
    show "count (image_mset snd (added (flog w1))) d \<le> 1" for d
    proof (cases "d = c")
      case True
      have "count (image_mset snd (added (flog w))) c = 0" using fresh by (simp only: not_in_iff)
      then show ?thesis using True by (simp add: log)
    next
      case False
      have "count (image_mset snd (added (flog w))) d \<le> 1" using inv unfolding chains_inv_def by blast
      then show ?thesis using False by (simp add: log)
    qed
    show "cont_ok w1 d" if "d \<in># image_mset snd (added (flog w1))" for d
    proof (cases "d = c")
      case True
      then show ?thesis using heap_c c1 by (auto simp: cont_ok_def)
    next
      case False
      then have "d \<in># image_mset snd (added (flog w))" using that by (auto simp: log)
      then have "cont_ok w d" using inv unfolding chains_inv_def by blast
      then show ?thesis by (rule cont_ok_stable [OF stable, rotated]) (simp add: log)
    qed
  qed (simp add: views)
qed

section \<open>Delivering\<close>

text \<open>The first of a list on a thread is in no other list.\<close>

lemma count_pairs: "count (image_mset snd (pairs w f c)) q = count (mset (conts w c)) q"
  by (simp add: pairs_def multiset.map_comp comp_def flip: mset_map)

lemma waiting_pop:
  assumes tid: "tid < n" and top: "fstack w tid = x # ys"
  shows "waiting n w = entry_pairs w x + waiting n (w\<lparr>fstack := (fstack w)(tid := ys)\<rparr>)"
proof -
  let ?v = "w\<lparr>fstack := (fstack w)(tid := ys)\<rparr>"
  have same: "pairs ?v f c = pairs w f c" for f c using same_heap_views [of ?v w] by simp
  have stack: "stack_pairs ?v xs = stack_pairs w xs" for xs
    by (auto simp: stack_pairs_def entry_pairs_def same intro!: arg_cong [where f = sum_list] split: option.splits)
  have "(\<Sum>u<n. stack_pairs w (fstack w u)) + stack_pairs w ys
      = (\<Sum>u<n. stack_pairs w (((fstack w)(tid := ys)) u)) + stack_pairs w (fstack w tid)"
    using tid sum_one_thread [of tid n "\<lambda>u. stack_pairs w (fstack w u)" "\<lambda>u. stack_pairs w (((fstack w)(tid := ys)) u)"]
    by simp
  then have "(\<Sum>u<n. stack_pairs w (fstack w u))
      = entry_pairs w x + (\<Sum>u<n. stack_pairs w (((fstack w)(tid := ys)) u))"
    by (simp add: top)
  moreover have "future_pairs ?v f = future_pairs w f" for f
    by (simp add: future_pairs_def same split: option.split)
  ultimately show ?thesis by (simp add: waiting_def stack)
qed

lemma head_alone:
  assumes inv: "chains_inv n w" and tid: "tid < n" and top: "fstack w tid = x # ys"
    and x: "flight_of x = Some (f, c)" and chain: "chain w (c # L) c"
  shows "c \<notin> set L" and "(g, c) \<notin># waiting n (w\<lparr>fstack := (fstack w)(tid := ys)\<rparr>)"
proof -
  let ?v = "w\<lparr>fstack := (fstack w)(tid := ys)\<rparr>"
  have "count (image_mset snd (entry_pairs w x)) c = count (mset (c # L)) c"
    using x conts_eq [OF chain] by (simp add: entry_pairs_def count_pairs)
  moreover have "count (image_mset snd (waiting n w)) c
      = count (image_mset snd (entry_pairs w x)) c + count (image_mset snd (waiting n ?v)) c"
    by (simp add: waiting_pop [OF tid top])
  moreover have "count (image_mset snd (waiting n w)) c \<le> count (image_mset snd (added (flog w))) c"
    using inv by (simp add: chains_inv_def)
  moreover have "count (image_mset snd (added (flog w))) c \<le> 1" using inv unfolding chains_inv_def by blast
  moreover have "count (mset (c # L)) c = Suc (count (mset L) c)" by simp
  ultimately have "count (mset L) c = 0" and "count (image_mset snd (waiting n ?v)) c = 0" by linarith+
  then show "c \<notin> set L" and "(g, c) \<notin># waiting n ?v"
    by (simp, metis count_eq_zero_iff image_eqI set_image_mset snd_conv)
qed

lemma chains_deliver:
  assumes inv: "chains_inv n w" and tid: "tid < n" and top: "fstack w tid = x # ys"
    and x: "flight_of x = Some (f, c)" and c: "c \<noteq> 0" and heap_c: "heap w c = Some o1"
    and w1: "heap w1 = (heap w)(c \<mapsto> o3)" "fstack w1 = fstack w"
      "added (flog w1) = added (flog w)" "delivered (flog w1) = delivered (flog w) + {#(f, c)#}"
    and o3: "m_traits o3 = m_traits o1" "fcont o3 = fcont o1" "completes (fstate o3) = completes (fstate o1)"
    and new: "new = ws @ [DoPostContinuation f (m_link o1)]" "list_all (\<lambda>y. flight_of y = None) ws"
  shows "chains_inv n (w1\<lparr>fstack := (fstack w)(tid := new @ ys)\<rparr>)"
proof -
  let ?v = "w\<lparr>fstack := (fstack w)(tid := ys)\<rparr>"
  have top': "at_top w tid x ys" using top by (simp add: at_top_def)
  have done_f: "is_done w f" and "linked w c" using flight_done [OF inv top' x] by simp_all
  then obtain M where "chain w M c" by (auto simp: linked_def)
  then obtain L where L: "chain w (c # L) c" "chain w L (m_link o1)"
    using c heap_c by (metis chain_nonzero links_def option.map(2) option.inject)
  note alone = head_alone [OF inv tid top x L(1)]
  have links: "links w1 q = links w q" if "q \<noteq> c" for q using that by (simp add: links_def w1)
  have same: "pairs ?v g p = pairs w g p" "linked ?v p = linked w p" "conts ?v p = conts w p" for g p
    using same_heap_views [of ?v w] by (simp_all add: conts_def chain_heap [of ?v w])
  have kept: "links_kept n ?v w1"
    unfolding links_kept_def using alone(2) by (auto simp: links_def w1)
  have idle: "n \<le> u \<Longrightarrow> fstack ?v u = []" for u using inv tid by (simp add: chains_inv_def)
  have safe_v: "safe_entry ?v w1 = safe_entry w w1" "safe_list ?v w1 p = safe_list w w1 p" for p
    by (simp_all add: fun_eq_iff safe_entry_def safe_list_def same links_def split: option.split)
  have stacks: "list_all (safe_entry w w1) (fstack ?v u)" for u
    using safe_stack [OF idle kept] by (simp add: safe_v)
  have futures: "safe_future w w1 g" for g
  proof (cases "heap w g")
    case None
    then show ?thesis using heap_c by (auto simp: safe_future_def w1)
  next
    case (Some o4)
    have "\<not> completes (fstate o4) \<longrightarrow> safe_list w w1 (fcont o4)"
      using safe_future_list [OF kept, of g o4] Some by (auto simp: safe_v)
    then show ?thesis using Some heap_c o3 by (cases "g = c") (auto simp: safe_future_def w1)
  qed
  have done_mono: "is_done w g \<Longrightarrow> is_done w1 g" for g
    using heap_c o3 by (cases "g = c") (auto simp: is_done_def state_at_def w1)
  have root: "root_ok w1 c \<and> future_pairs w1 c = future_pairs w c"
    using safe_future_pairs [OF _ futures] inv by (simp add: chains_inv_def)
  have "\<forall>q \<in> set L. links w1 q = links w q" using alone(1) links by metis
  with L(2) have "chain w1 L (m_link o1)" by (rule chain_frame)
  then have rest: "linked w1 (m_link o1)" "conts w1 (m_link o1) = L"
    by (auto simp: linked_def dest: conts_eq)
  note ws = no_flights [OF new(2)]
  show ?thesis
  proof (rule chains_step [OF inv tid w1(2), where ?f0.0 = c and x = x])
    show "fstack w tid = ys \<and> flight_of x = None \<or> fstack w tid = x # ys" using top by simp
    show "list_all (safe_entry w w1) (fstack w u)" if "u \<noteq> tid" for u using stacks [of u] that by simp
    show "list_all (safe_entry w w1) ys" using stacks [of tid] by simp
    show "list_all (flight_ok w1) new"
      using new ws rest(1) done_mono [OF done_f] by (simp add: flight_ok_def)
    show "added (flog w1) + future_pairs w c + entry_pairs w x + delivered (flog w)
        = added (flog w) + future_pairs w1 c + stack_pairs w1 new + delivered (flog w1)"
      using root ws new x rest(2) conts_eq [OF L(1)] by (simp add: entry_pairs_def pairs_def w1)
    show "count (image_mset snd (added (flog w1))) d \<le> 1" for d
      using inv unfolding w1(3) chains_inv_def by blast
    show "cont_ok w1 d" if "d \<in># image_mset snd (added (flog w1))" for d
    proof -
      have "cont_ok w d" using that inv unfolding w1(3) chains_inv_def by blast
      then show ?thesis using heap_c o3 by (cases "d = c") (auto simp: cont_ok_def w1)
    qed
  qed (use futures root done_mono in simp_all)
qed

lemma chains_PostContinuation:
  assumes inv: "chains_inv n w" and tid: "tid < n" and top: "at_top w tid (DoPostContinuation f c) ys"
    and r: "exec_PostContinuation tid f c w = Returns (new, w1)"
  shows "chains_inv n (w1\<lparr>fstack := (fstack w)(tid := new @ ys)\<rparr>)"
proof (cases "c = 0")
  case True
  then show ?thesis using r by (intro chains_same_heap [OF inv tid _ top])
      (simp_all add: exec_PostContinuation_def entry_pairs_def)
next
  case False
  let ?x = "DoPostContinuation f c" and ?w0 = "log_event (Delivered f c) w"
  have stack: "fstack w tid = ?x # ys" using top by (simp add: at_top_def)
  have "(f, c) \<in># entry_pairs w ?x"
  proof -
    have "linked w c" using flight_done [OF inv top] by simp
    then obtain M where "chain w M c" by (auto simp: linked_def)
    then obtain L where "chain w (c # L) c" using False by (metis chain_nonzero)
    from conts_eq [OF this] show ?thesis by (simp add: entry_pairs_def pairs_def)
  qed
  then have "(f, c) \<in># waiting n w" by (simp add: waiting_pop [OF tid stack])
  then have "cont_ok w c" using waiting_undelivered(1) [OF inv] inv unfolding chains_inv_def by blast
  then obtain o1 where o1: "heap w c = Some o1" and d: "deliverable (m_traits o1)" by (auto simp: cont_ok_def)
  from r False have post: "TryPostInternal tid c f False (\<lambda>next. [DoPostContinuation f next]) ?w0
      = Returns (new, w1)" by (simp add: exec_PostContinuation_def)
  from post show ?thesis
  proof (cases rule: TryPostInternal_cases)
    case (posting o4 o2 o3 ws)
    then have [simp]: "o4 = o1" using o1 by simp
    note same = take_parent_same [OF posting(6)]
    let ?o5 = "\<lambda>b. if b then o3\<lparr>callback := Some False\<rparr> else o3"
    from posting(9) obtain b where w1: "w1 = set_future c (?o5 b) (push_current tid c (set_future c o2 ?w0))"
      by (metis (full_types))
    show ?thesis
      by (rule chains_deliver [OF inv tid stack _ False o1, where f = f and ws = ws and ?o3.0 = "?o5 b"])
        (use posting same in \<open>auto simp: w1 completes_def\<close>)
  next
    case (multi o4 p1 ws)
    then show ?thesis using o1 d by (simp add: deliverable_def)
  next
    case (nothing o4)
    then show ?thesis using o1
      by (intro chains_deliver [OF inv tid stack _ False o1, where f = f and ws = "[]" and ?o3.0 = o1]) auto
  qed
qed

section \<open>All entries\<close>

lemma chains_Post:
  assumes inv: "chains_inv n w" and tid: "tid < n" and top: "at_top w tid (DoPost f) ys"
    and r: "exec_Post tid f w = Returns (new, w1)"
  shows "chains_inv n (w1\<lparr>fstack := (fstack w)(tid := new @ ys)\<rparr>)"
  using r unfolding exec_Post_def
proof (cases rule: TryPostInternal_cases)
  case (posting o1 o2 o3 ws)
  have o3: "o3 = o2" using posting(6) by (simp add: take_parent_def)
  from posting(4) have link: "m_link o1 = 0" by simp
  from posting(9) obtain o5 where w1: "heap w1 = (heap w)(f \<mapsto> o5)" "fstack w1 = fstack w" "flog w1 = flog w"
    and o5: "m_traits o5 = m_traits o1" "fstate o5 = Posting" "fcont o5 = fcont o1" "m_link o5 = 0"
    using o3 posting(5) by (auto simp: fcont_def)
  note new = no_flights [of new w1]
  show ?thesis
  proof (rule chains_update [OF inv tid w1(2) top posting(1) w1(1)])
    show "stack_pairs w1 new = entry_pairs w1 (DoPost f)"
      "list_all (flight_ok w1) new \<or> \<not> flight_ok w1 (DoPost f)"
      using new posting(7,8) by (auto simp: entry_pairs_def)
  qed (use o5 w1 link posting(2) in \<open>auto simp: cont_stable_def completes_def\<close>)
next
  case (multi o1 p1 ws)
  then show ?thesis by simp
next
  case (nothing o1)
  then show ?thesis by (intro chains_none [OF inv tid top]) auto
qed

lemma chains_MakeFuture:
  assumes inv: "chains_inv n w" and tid: "tid < n" and top: "at_top w tid (DoMakeFuture f t k b) ys"
    and r: "exec_MakeFuture f t k b w = Returns (new, w1)" and fresh: "heap w f = None"
  shows "chains_inv n (w1\<lparr>fstack := (fstack w)(tid := new @ ys)\<rparr>)"
proof -
  from r have new: "new = []" and w1: "w1 = log_event (Created f) (set_future f (FutureImpl_new t k) w)"
    by (auto simp: exec_MakeFuture_def outcome_simps)
  have "links w1 q = links w q" if "(g, q) \<in># waiting n w" for g q
  proof -
    have "cont_ok w q" using waiting_undelivered(1) [OF inv that] inv unfolding chains_inv_def by blast
    then show ?thesis using fresh by (auto simp: cont_ok_def links_def w1)
  qed
  then have kept: "links_kept n w w1" by (force simp: links_kept_def)
  show ?thesis
    by (rule chains_quiet [OF inv tid _ top [unfolded at_top_def] kept, where ?f0.0 = f])
      (use fresh in \<open>auto simp: w1 new conts_stable_def entry_pairs_def\<close>)
qed

lemma chains_fields:
  assumes inv: "chains_inv n w" and tid: "tid < n" and top: "at_top w tid x ys"
  shows "x = DoSetError f e \<Longrightarrow> exec_SetError f e w = Returns (new, w1) \<Longrightarrow>
      chains_inv n (w1\<lparr>fstack := (fstack w)(tid := new @ ys)\<rparr>)"
    and "x = DoCallbackInvoke f \<Longrightarrow> exec_CallbackInvoke f w = Returns (new, w1) \<Longrightarrow>
      chains_inv n (w1\<lparr>fstack := (fstack w)(tid := new @ ys)\<rparr>)"
    and "x = DoCallbackOnCancel f \<Longrightarrow> exec_CallbackOnCancel cancelled f w = Returns (new, w1) \<Longrightarrow>
      chains_inv n (w1\<lparr>fstack := (fstack w)(tid := new @ ys)\<rparr>)"
    and "x = DoCallbackDestroy f \<Longrightarrow> exec_CallbackDestroy cancelled f w = Returns (new, w1) \<Longrightarrow>
      chains_inv n (w1\<lparr>fstack := (fstack w)(tid := new @ ys)\<rparr>)"
    and "x = DoDestructRest f \<Longrightarrow> exec_DestructRest f w = Returns (new, w1) \<Longrightarrow>
      chains_inv n (w1\<lparr>fstack := (fstack w)(tid := new @ ys)\<rparr>)"
proof -
  let ?goal = "chains_inv n (w1\<lparr>fstack := (fstack w)(tid := new @ ys)\<rparr>)"
  note field = chains_field [OF inv tid top] and same = chains_none [OF inv tid top]
  show ?goal if x: "x = DoSetError f e" and r: "exec_SetError f e w = Returns (new, w1)"
  proof (cases e)
    case (EValue v)
    then show ?thesis using x r
      by (auto simp: exec_SetError_def outcome_simps intro!: field)
  next
    case (EField p)
    show ?thesis
    proof (cases "p = f")
      case True
      then have "w1 = w" and "new = [DoSetFailed f]"
        using r EField by (auto simp: exec_SetError_def outcome_simps)
      then show ?thesis using x by (intro same) simp_all
    next
      case False
      with r EField obtain o1 o2 where "heap w f = Some o1" and "heap w p = Some o2" and new: "new = [DoSetFailed f]"
        and w1: "w1 = set_future p (o2\<lparr>m_error := None\<rparr>) (set_future f (o1\<lparr>m_error := m_error o2\<rparr>) w)"
        by (auto simp: exec_SetError_def outcome_simps)
      moreover from this have "links w1 = links w" using False by (auto simp: links_def)
      ultimately show ?thesis using x False
        by (intro chains_quiet [OF inv tid _ top [unfolded at_top_def], where ?f0.0 = f])
          (auto simp: links_kept_def conts_stable_def entry_pairs_def flight_ok_def)
    qed
  qed
  show ?goal if "x = DoCallbackInvoke f" "exec_CallbackInvoke f w = Returns (new, w1)"
    using that by (auto simp: exec_CallbackInvoke_def outcome_simps intro!: field)
  show ?goal if "x = DoCallbackOnCancel f" "exec_CallbackOnCancel cancelled f w = Returns (new, w1)"
    using that by (auto simp: exec_CallbackOnCancel_def outcome_simps intro!: field)
  show ?goal if "x = DoCallbackDestroy f" "exec_CallbackDestroy cancelled f w = Returns (new, w1)"
    using that by (auto simp: exec_CallbackDestroy_def outcome_simps intro!: field)
  show ?goal if x: "x = DoDestructRest f" and r: "exec_DestructRest f w = Returns (new, w1)"
  proof -
    from r obtain o1 where f: "heap w f = Some o1" by (auto simp: exec_DestructRest_def outcome_simps)
    from r f have new: "list_all (\<lambda>y. flight_of y = None) new" and w1: "fstack w1 = fstack w"
      "added (flog w1) = added (flog w)" "delivered (flog w1) = delivered (flog w)"
      "heap w1 = (heap w)(f \<mapsto> o1) \<or> heap w1 = (heap w)(f \<mapsto> o1\<lparr>m_taskSize := 0\<rparr>)"
      by (auto simp: exec_DestructRest_def outcome_simps Let_def split: if_split_asm elim!: DestroyTask_cases)
    then show ?thesis using x f by (auto intro: field)
  qed
qed

lemma chains_entry:
  assumes inv: "chains_inv n w" and tid: "tid < n" and top: "at_top w tid x ys"
    and exec: "exec_fwork cancelled tid x w = Returns (new, w1)" and fresh: "makes_fresh w x"
    and guard: "adds_ok w x"
  shows "chains_inv n (w1\<lparr>fstack := (fstack w)(tid := new @ ys)\<rparr>)"
proof -
  note same = chains_none [OF inv tid top]
  show ?thesis
  proof (cases x)
    case (DoMakeFuture f t k b)
    with assms show ?thesis by (auto intro: chains_MakeFuture)
  next
    case (DoAddContinuation f c)
    with assms show ?thesis by (auto intro: chains_AddContinuation)
  next
    case (DoPostContinuation f c)
    with assms show ?thesis by (auto intro: chains_PostContinuation)
  next
    case (DoPost f)
    with assms show ?thesis by (auto intro: chains_Post)
  next
    case (DoDeliver f c)
    with exec have w1: "w1 = w" "new = [DoPostContinuation f c]" by (auto simp: exec_Deliver_def outcome_simps)
    show ?thesis
      using DoDeliver by (intro chains_same_heap [OF inv tid _ top]) (auto simp: w1 entry_pairs_def flight_ok_def)
  next
    case Client
    with exec show ?thesis by (intro same) auto
  next
    case (DoTaskPost f)
    with exec show ?thesis by (intro same) auto
  next
    case (DoTaskInvoke f p)
    with exec show ?thesis by (intro same) (auto simp: exec_TaskInvoke_def)
  next
    case (DoTaskCatch f e)
    with exec show ?thesis by (intro same) (auto simp: exec_TaskCatch_def)
  next
    case DoLeaveCurrent
    with exec show ?thesis by (intro same) auto
  next
    case (DoDestruct f)
    with exec show ?thesis
      by (intro same) (auto simp: exec_Destruct_def outcome_simps split: if_split_asm)
  qed (use exec in \<open>simp_all add: chains_rounds [OF inv tid top] chains_plain [OF inv tid top]
        chains_fields [OF inv tid top]\<close>)
qed

text \<open>What is asked of the clients, of every call they make.\<close>

definition adds_pending :: "('e fworld \<Rightarrow> 'e fwork \<Rightarrow> bool) \<Rightarrow> bool" where
  "adds_pending allowed \<longleftrightarrow> (\<forall>w c. allowed w c \<longrightarrow> adds_ok w c)"

lemma adds_ok_other: "\<not> client_only x \<Longrightarrow> adds_ok w x"
  by (auto simp: adds_ok_def)

lemma chains_inv_step:
  assumes step: "fut_step allowed cancelled n w w'" and fresh: "allocates_fresh allowed"
    and pending: "adds_pending allowed" and lib: "library_stacks w" and inv: "chains_inv n w"
  shows "chains_inv n w'"
proof -
  from step fresh lib obtain tid x new w1 ys where tid: "tid < n"
    and exec: "exec_fwork cancelled tid x w = Returns (new, w1)" and x: "makes_fresh w x"
    and w': "w' = w1\<lparr>fstack := (fstack w)(tid := new @ ys)\<rparr>"
    and stack: "fstack w tid = ys \<and> client_call x \<or> fstack w tid = x # ys"
    and allowed: "client_call x \<and> fstack w tid = ys \<longrightarrow> allowed w x"
    and ys: "list_all (\<lambda>x. \<not> client_only x) ys"
    by (rule fut_step_exec)
  have "flight_of x = None" if "client_call x" using that by (cases x) simp_all
  then have top: "at_top w tid x ys" using stack by (auto simp: at_top_def)
  have "adds_ok w x"
  proof (cases "fstack w tid = x # ys")
    case True
    have "list_all (\<lambda>x. \<not> client_only x) (fstack w tid)" using lib by (simp add: library_stacks_def)
    with True have "\<not> client_only x" by simp
    then show ?thesis by (rule adds_ok_other)
  next
    case False
    then show ?thesis using stack allowed pending by (auto simp: adds_pending_def)
  qed
  with inv tid top exec x show ?thesis unfolding w' by (rule chains_entry)
qed

lemma chains_inv_initial: "chains_inv n (initial_fworld :: 'e fworld)"
  by (simp add: chains_inv_def initial_fworld_def root_ok_def waiting_def future_pairs_def)

lemma chains_inv_reachable:
  assumes "fut_reachable allowed cancelled n w" and "allocates_fresh allowed" and "adds_pending allowed"
  shows "chains_inv n w"
  using assms(1)
proof induction
  case initial
  show ?case by (rule chains_inv_initial)
next
  case (step w w')
  show ?case
    by (rule chains_inv_step [OF step.hyps(2) assms(2,3) library_stacks_reachable [OF step.hyps(1) assms(2)] step.IH])
qed

end
