(* ===== verification/Future_Guarantees.thy ===== *)
theory Future_Guarantees
  imports Future_Chains
begin

text \<open>
  The properties of futures, and a run of a promise with one continuation that shows that
  what they ask of the clients can be had.
\<close>

section \<open>A run\<close>

definition promise_traits :: FutureTraits where
  "promise_traits = \<lparr>Options = CancelIfUnfulfilled, ValueSize = 0, ValueDestroy = False,
     TaskDestroy = False, TaskPost = False, TaskInvoke = False, TaskCatch = False\<rparr>"

definition then_traits :: FutureTraits where
  "then_traits = \<lparr>Options = DestroyTaskAfterInvoke, ValueSize = 0, ValueDestroy = False,
     TaskDestroy = True, TaskPost = False, TaskInvoke = True, TaskCatch = False\<rparr>"

text \<open>Clients that do what is asked of them.\<close>

definition guarded :: "'e fworld \<Rightarrow> 'e fwork \<Rightarrow> bool" where
  "guarded w x \<longleftrightarrow> makes_fresh w x \<and> adds_ok w x"

lemma guarded_ok [simp]: "allocates_fresh guarded" "adds_pending guarded"
  by (simp_all add: allocates_fresh_def adds_pending_def guarded_def)

text \<open>A promise at address 8, its continuation at 16, and one thread.\<close>

definition promise_obj :: "FutureState \<Rightarrow> ptr \<Rightarrow> nat FutureImpl" where
  "promise_obj s c = (FutureImpl_new promise_traits 0)\<lparr>m_stateAndContinuation := Make s c\<rparr>"

definition then_obj :: "FutureState \<Rightarrow> ptr \<Rightarrow> nat \<Rightarrow> nat FutureImpl" where
  "then_obj s l n = (FutureImpl_new then_traits n)\<lparr>m_stateAndContinuation := Make s 0, m_link := l\<rparr>"

definition demo_fworld ::
  "nat FutureImpl \<Rightarrow> nat FutureImpl \<Rightarrow> ptr list \<Rightarrow> nat fwork list \<Rightarrow> nat fevent list \<Rightarrow> nat fworld" where
  "demo_fworld p c t s l = \<lparr>heap = [8 \<mapsto> p, 16 \<mapsto> c], tls = (\<lambda>_. [])(0 := t),
     fstack = (\<lambda>_. [])(0 := s), flog = l\<rparr>"

definition demo_log :: "nat fevent list" where
  "demo_log = [Created 8, Created 16, Added 8 16, Completed 8 Succeeded]"

lemma reach_exec:
  assumes "fut_reachable allowed cancelled n w" and "fstack w tid = x # xs" and "tid < n"
    and "exec_fwork cancelled tid x w = Returns (new, w1)"
    and "w' = w1\<lparr>fstack := (fstack w1)(tid := new @ xs)\<rparr>"
  shows "fut_reachable allowed cancelled n w'"
  unfolding assms(5) by (rule fut_reachable.step [OF assms(1) fut_step.exec [OF assms(3,2,4)]])

lemma step_client:
  assumes "fstack w tid = xs" and "tid < n"
    and "xs = [] \<or> hd xs = Client" and "client_call c" and "allowed w c"
    and "exec_fwork cancelled tid c w = Returns (new, w1)"
    and "w' = w1\<lparr>fstack := (fstack w1)(tid := new @ xs)\<rparr>"
  shows "fut_step allowed cancelled n w w'"
  unfolding assms(7)
  by (rule fut_step.client [where w = w and tid = tid and xs = xs and c = c and new = new])
    (use assms in auto)

lemma reach_client:
  assumes "fut_reachable allowed cancelled n w" and "fstack w tid = xs" and "tid < n"
    and "xs = [] \<or> hd xs = Client" and "client_call c" and "allowed w c"
    and "exec_fwork cancelled tid c w = Returns (new, w1)"
    and "w' = w1\<lparr>fstack := (fstack w1)(tid := new @ xs)\<rparr>"
  shows "fut_reachable allowed cancelled n w'"
  by (rule fut_reachable.step [OF assms(1)], rule step_client [where tid = tid and xs = xs and c = c and new = new])
    (use assms in simp_all)

lemma demo_options [simp]:
  "IsSet DestroyTaskAfterInvoke IsMultiPost = False" "IsSet DestroyTaskAfterInvoke UseParentValue = False"
  "IsSet DestroyTaskAfterInvoke CallTaskInvokeOnError = False"
  "IsSet DestroyTaskAfterInvoke DestroyTaskAfterInvoke = True"
  "IsSet CancelIfUnfulfilled IsMultiPost = False" "IsSet CancelIfUnfulfilled UseParentValue = False"
  by (simp_all add: IsSet_def IsMultiPost_def CallTaskInvokeOnError_def DestroyTaskAfterInvoke_def
      UseParentValue_def CancelIfUnfulfilled_def)

lemma aligned_16 [simp]: "aligned 16"
  by (simp add: aligned_def ContinuationMask_def StateMask_def)

lemmas exec_defs = exec_MakeFuture_def exec_TrySetSuccess_def exec_AfterSuccess_def exec_Deliver_def
  exec_AddContinuation_def TryPostInternal_def exec_PostContinuation_def exec_Invoke_def exec_TaskInvoke_def
  take_parent_def DestroyTask_def round_of_def with_future_def move_state_def new_continuation_def
  completes_def set_future_def modify_future_def log_event_def IsCurrent_def push_current_def pop_current_def
  decision_defs IsVoidValue_def MakeFuture_check_def VerifyAlignment_def AddContinuation_check_def

lemmas demo_fdefs = exec_defs demo_fworld_def promise_obj_def then_obj_def promise_traits_def then_traits_def
  FutureImpl_new_def fstate_def fcont_def demo_log_def fun_upd_twist

lemma Make_Pending_0: "Make Pending 0 = 0"
  by (simp add: Make_def state_code_def)

lemmas demo_start = Let_def guarded_def adds_ok_def initial_fworld_def demo_fdefs fun_upd_idem deliverable_def
  Make_Pending_0 ContinuationInvoked_def ContinuationMask_def StateMask_def

lemma demo_added:
  "fut_reachable guarded cancelled 1
     (demo_fworld (promise_obj Pending 16) (then_obj Pending 0 4) [] [] [Created 8, Created 16, Added 8 16])"
proof -
  let ?w1 = "initial_fworld\<lparr>heap := [8 \<mapsto> FutureImpl_new promise_traits 0], flog := [Created 8]\<rparr>"
  let ?w2 = "demo_fworld (promise_obj Pending 0) (then_obj Pending 0 4) [] [] [Created 8, Created 16]"
  have "fut_reachable guarded cancelled 1 ?w1"
    by (rule reach_client [OF fut_reachable.initial, where tid = 0 and c = "DoMakeFuture 8 promise_traits 0 False"])
      (simp add: demo_start)+
  then have "fut_reachable guarded cancelled 1 ?w2"
    by (rule reach_client [where tid = 0 and c = "DoMakeFuture 16 then_traits 4 True"]) (simp add: demo_start)+
  then show ?thesis
    by (rule reach_client [where tid = 0 and c = "DoAddContinuation 8 16"]) (simp add: demo_start)+
qed

lemma Make_done [simp]:
  "GetState (Make s (- 8)) = s" "GetContinuation (Make s (- 8)) = - 8"
proof -
  have "ContinuationInvoked = - 8"
    by (simp add: ContinuationInvoked_def ContinuationMask_def StateMask_def)
  then show "GetState (Make s (- 8)) = s" "GetContinuation (Make s (- 8)) = - 8"
    using GetState_Make [of ContinuationInvoked s] GetContinuation_Make [of ContinuationInvoked s] by simp_all
qed

lemma demo_invoking:
  "fut_reachable guarded cancelled 1 (demo_fworld (promise_obj Succeeded ContinuationInvoked)
     (then_obj Invoking 8 4) [16, 16]
     [Client, DoLeaveCurrent, DoLeaveCurrent, DoPostContinuation 8 0]
     (demo_log @ [Delivered 8 16, TaskInvoked 16 8]))"
proof -
  from demo_added have "fut_reachable guarded cancelled 1
      (demo_fworld (promise_obj Succeeded ContinuationInvoked) (then_obj Pending 0 4)
        [] [DoAfterSuccess 8 16] (demo_log))"
    by (rule reach_client [where tid = 0 and c = "DoTrySetSuccess 8 True"]) (simp add: demo_start)+
  then have "fut_reachable guarded cancelled 1
      (demo_fworld (promise_obj Succeeded ContinuationInvoked) (then_obj Pending 0 4)
        [] [DoDeliver 8 16] (demo_log))"
    by (rule reach_exec [where tid = 0]) (simp add: demo_start)+
  then have "fut_reachable guarded cancelled 1
      (demo_fworld (promise_obj Succeeded ContinuationInvoked) (then_obj Pending 0 4)
        [] [DoPostContinuation 8 16] (demo_log))"
    by (rule reach_exec [where tid = 0]) (simp add: demo_start)+
  then have "fut_reachable guarded cancelled 1
      (demo_fworld (promise_obj Succeeded ContinuationInvoked) (then_obj Posting 8 4)
        [16] [DoInvoke 16 10000, DoLeaveCurrent, DoPostContinuation 8 0] (demo_log @ [Delivered 8 16]))"
    by (rule reach_exec [where tid = 0]) (simp add: demo_start)+
  then have "fut_reachable guarded cancelled 1
      (demo_fworld (promise_obj Succeeded ContinuationInvoked) (then_obj Invoking 8 4)
        [16, 16] [DoTaskInvoke 16 8, DoLeaveCurrent, DoLeaveCurrent, DoPostContinuation 8 0] (demo_log @ [Delivered 8 16]))"
    by (rule reach_exec [where tid = 0]) (simp add: demo_start)+
  then show ?thesis
    by (rule reach_exec [where tid = 0]) (simp add: demo_start)+
qed

definition then_done :: "nat FutureImpl" where
  "then_done = (FutureImpl_new then_traits 0)\<lparr>m_stateAndContinuation := Make Succeeded 0\<rparr>"

definition demo_end_log :: "nat fevent list" where
  "demo_end_log = demo_log @ [Delivered 8 16, TaskInvoked 16 8, Completed 16 Succeeded, TaskDestroyed 16]"

definition demo_tail :: "ptr list \<Rightarrow> nat fwork list \<Rightarrow> nat fworld" where
  "demo_tail t s = demo_fworld (promise_obj Succeeded ContinuationInvoked) then_done t s demo_end_log"

lemmas demo_end = demo_start then_done_def demo_end_log_def demo_tail_def

lemma demo_destroying:
  "fut_reachable guarded cancelled 1
     (demo_tail [16, 16] [Client, DoDeliver 16 0, Client, DoLeaveCurrent, DoLeaveCurrent, DoPostContinuation 8 0])"
proof -
  from demo_invoking have "fut_reachable guarded cancelled 1 (demo_fworld (promise_obj Succeeded ContinuationInvoked)
      ((then_obj Invoking 8 4)\<lparr>m_stateAndContinuation := Make Succeeded 0\<rparr>) [16, 16]
      [DoAfterSuccess 16 0, Client, DoLeaveCurrent, DoLeaveCurrent, DoPostContinuation 8 0]
      (demo_log @ [Delivered 8 16, TaskInvoked 16 8, Completed 16 Succeeded]))"
    by (rule reach_client [where tid = 0 and c = "DoTrySetSuccess 16 True"]) (simp add: demo_end)+
  then show ?thesis
    by (rule reach_exec [where tid = 0]) (simp add: demo_end)+
qed

text \<open>The last steps of the run.\<close>

lemma demo_finished:
  "fut_reachable guarded cancelled 1 (demo_tail [] [])"
proof -
  note step = reach_exec [where tid = 0]
  from demo_destroying have "fut_reachable guarded cancelled 1
      (demo_tail [16, 16] [DoDeliver 16 0, Client, DoLeaveCurrent, DoLeaveCurrent, DoPostContinuation 8 0])"
    by (rule step) (simp add: demo_end)+
  then have "fut_reachable guarded cancelled 1
      (demo_tail [16, 16] [DoPostContinuation 16 0, Client, DoLeaveCurrent, DoLeaveCurrent, DoPostContinuation 8 0])"
    by (rule step) (simp add: demo_end)+
  then have "fut_reachable guarded cancelled 1
      (demo_tail [16, 16] [Client, DoLeaveCurrent, DoLeaveCurrent, DoPostContinuation 8 0])"
    by (rule step) (simp add: demo_end)+
  then have "fut_reachable guarded cancelled 1
      (demo_tail [16, 16] [DoLeaveCurrent, DoLeaveCurrent, DoPostContinuation 8 0])"
    by (rule step) (simp add: demo_end)+
  then have "fut_reachable guarded cancelled 1
      (demo_tail [16] [DoLeaveCurrent, DoPostContinuation 8 0])"
    by (rule step) (simp add: demo_end)+
  then have "fut_reachable guarded cancelled 1 (demo_tail [] [DoPostContinuation 8 0])"
    by (rule step) (simp add: demo_end)+
  then show ?thesis
    by (rule step) (simp add: demo_end)+
qed

section \<open>State changes\<close>

lemma fut_step_evolves:
  assumes "fut_reachable allowed cancelled n w" and "fut_step allowed cancelled n w w'"
    and "allocates_fresh allowed"
  shows "heap_evolves w w'"
proof -
  obtain tid x new w1 ys where "exec_fwork cancelled tid x w = Returns (new, w1)"
    and "makes_fresh w x" and "w' = w1\<lparr>fstack := (fstack w)(tid := new @ ys)\<rparr>"
    by (rule fut_step_exec [OF assms(2,3) library_stacks_reachable [OF assms(1,3)]])
  then show ?thesis
    by (intro heap_evolves_heap_eq [OF exec_fwork_evolves]) simp_all
qed

text \<open>
  C6: In any run of any number of threads, every change of the state of a future is one of the
  transitions the header file documents, and the traits of a future never change.
\<close>

theorem future_states_documented:
  assumes "fut_reachable allowed cancelled n w" and "allocates_fresh allowed"
    and "fut_step allowed cancelled n w w'" and "heap w f = Some o1"
  shows "\<exists>o2. heap w' f = Some o2 \<and> m_traits o2 = m_traits o1
    \<and> (fstate o2 = fstate o1 \<or> documented_transition (fstate o1) (fstate o2))"
  using fut_step_evolves [OF assms(1,3,2)] assms(4) by (auto simp: heap_evolves_def evolves_def)

definition demo_before :: "nat fworld" where
  "demo_before = demo_fworld (promise_obj Pending 16) (then_obj Pending 0 4) [] []
     [Created 8, Created 16, Added 8 16]"

definition demo_after :: "nat fworld" where
  "demo_after = demo_fworld (promise_obj Succeeded ContinuationInvoked) (then_obj Pending 0 4)
     [] [DoAfterSuccess 8 16] demo_log"

lemma demo_success_step: "fut_step guarded cancelled 1 demo_before demo_after"
  by (rule step_client [where tid = 0 and c = "DoTrySetSuccess 8 True"])
    (simp add: demo_start demo_before_def demo_after_def)+

lemma demo_heaps [simp]:
  "heap demo_before 8 = Some (promise_obj Pending 16)"
  "heap demo_after 8 = Some (promise_obj Succeeded ContinuationInvoked)"
  "fstate (promise_obj Pending 16) = Pending" "fstate (promise_obj Succeeded ContinuationInvoked) = Succeeded"
  by (simp_all add: demo_before_def demo_after_def demo_fworld_def promise_obj_def)

theorem future_states_documented_witness:
  "documented_transition (fstate (promise_obj Pending 16)) (fstate (promise_obj Succeeded ContinuationInvoked))"
proof -
  have "fut_reachable guarded 0 1 demo_before" unfolding demo_before_def by (rule demo_added)
  from future_states_documented [OF this guarded_ok(1) demo_success_step demo_heaps(1)] demo_heaps
  show ?thesis by simp
qed

section \<open>Completion\<close>

lemma done_step:
  assumes "fut_reachable allowed cancelled n w" and "fut_step allowed cancelled n w w'"
    and "allocates_fresh allowed" and "is_done w f"
  shows "state_at w' f = state_at w f"
proof -
  from assms(4) obtain o1 where o1: "heap w f = Some o1" and "completes (fstate o1)"
    by (auto simp: is_done_def state_at_def split: option.splits)
  moreover from o1 fut_step_evolves [OF assms(1,2,3)] obtain o2
    where "heap w' f = Some o2" and "evolves o1 o2" by (auto simp: heap_evolves_def)
  ultimately show ?thesis
    by (auto simp: state_at_def evolves_def completes_def documented_transition_def)
qed

lemma done_steps:
  assumes "(fut_step allowed cancelled n)\<^sup>*\<^sup>* w w'" and "fut_reachable allowed cancelled n w"
    and "allocates_fresh allowed" and "is_done w f"
  shows "fut_reachable allowed cancelled n w' \<and> state_at w' f = state_at w f"
  using assms(1)
proof induction
  case base
  show ?case using assms(2) by simp
next
  case (step v v')
  then have "is_done v f" using assms(4) by (simp add: is_done_def)
  with done_step [of allowed cancelled n v v' f] step show ?case
    using assms(3) fut_reachable.step by metis
qed

text \<open>
  C5: A future completes exactly once: the run contains one completion of it, with success or
  with failure, if it is done and none if it is not; and no later step of any thread changes the
  state of a future that is done.
\<close>

theorem future_completes_once:
  assumes "fut_reachable allowed cancelled n w" and "allocates_fresh allowed"
  shows "completions f (flog w) = of_bool (is_done w f)
    \<and> (\<forall>w'. (fut_step allowed cancelled n)\<^sup>*\<^sup>* w w' \<longrightarrow> is_done w f \<longrightarrow> state_at w' f = state_at w f)"
proof (intro conjI allI impI)
  show "completions f (flog w) = of_bool (is_done w f)"
    using once_inv_reachable [OF assms] unfolding once_inv_def by blast
  show "state_at w' f = state_at w f" if "(fut_step allowed cancelled n)\<^sup>*\<^sup>* w w'" and "is_done w f" for w'
    using done_steps [OF that(1) assms that(2)] by (rule conjunct2)
qed

lemma demo_end_done: "is_done (demo_tail t s) 16" "is_done (demo_tail t s) 8"
  by (simp_all add: is_done_def state_at_def demo_tail_def demo_fworld_def then_done_def promise_obj_def
      fstate_def completes_def)

theorem future_completes_once_witness: "completions 16 (flog (demo_tail [] [])) = 1"
  using future_completes_once [OF demo_finished guarded_ok(1), of 16] demo_end_done by simp

text \<open>
  C4: The task of a future that is not multi-post, its \<open>TaskInvoke\<close> or its \<open>TaskCatch\<close>, is called
  at most once, counting the calls that are still to come. If it is, the run has a step that moves
  the future to the state \<open>Invoking\<close>, and until that step no call was made or due: a future that
  was completed before it came to \<open>Invoking\<close> is never called.
\<close>

theorem future_task_called_once:
  assumes "fut_run allowed cancelled n run k" and "allocates_fresh allowed" and "\<not> multi_post (run k) f"
  shows "calls_of n f (run k) \<le> 1
    \<and> (calls_of n f (run k) = 1 \<longrightarrow>
         (\<exists>i<k. calls_of n f (run i) = 0 \<and> enters_invoking f (run i) (run (Suc i))))"
proof -
  have "once_inv n (run k)"
    using once_inv_reachable [OF fut_run_reachable [OF assms(1) order_refl] assms(2)] .
  then have "calls_of n f (run k) \<le> of_bool (was_invoking (run k) f)"
    using assms(3) by (simp add: once_inv_def calls_of_def)
  then show ?thesis
    using call_due_when_invoking [OF assms] by (cases "was_invoking (run k) f") auto
qed

lemma demo_end_simps:
  "\<not> multi_post (demo_tail t s) 16" "task_calls 16 (flog (demo_tail t s)) = 1"
  "fstack (demo_tail t []) tid = []"
  by (simp_all add: multi_post_def state_at_def demo_tail_def demo_fworld_def then_done_def then_traits_def
      FutureImpl_new_def demo_end_log_def demo_log_def)

theorem future_task_called_once_witness:
  "\<exists>run k. run k = demo_tail [] [] \<and> calls_of 1 16 (run k) = 1
     \<and> (\<exists>i<k. enters_invoking 16 (run i) (run (Suc i)))"
proof -
  from demo_finished obtain run k where run: "fut_run guarded (0 :: nat) 1 run k" "run k = demo_tail [] []"
    by (rule fut_reachable_run)
  have "calls_of 1 16 (demo_tail [] []) = 1" by (simp add: calls_of_def demo_end_simps)
  with future_task_called_once [OF run(1) guarded_ok(1), of 16] run(2) demo_end_simps(1) show ?thesis
    by (intro exI [of _ run] exI [of _ k]) auto
qed

section \<open>Continuations\<close>

lemma count_image_mset_ge: "count M x \<le> count (image_mset g M) (g x)"
  by (induction M) auto

lemma future_pairs_fst: "(f, c) \<in># future_pairs w g \<Longrightarrow> f = g \<and> \<not> is_done w f"
  by (auto simp: future_pairs_def pairs_def is_done_def state_at_def split: option.splits if_splits)

lemma waiting_idle:
  assumes "\<forall>u. fstack w u = []" and "is_done w f"
  shows "count (waiting n w) (f, c) = 0"
proof -
  have "(f, c) \<notin># future_pairs w g" for g using future_pairs_fst assms(2) by blast
  then show ?thesis
    using assms(1) by (simp add: waiting_def count_sum not_in_iff)
qed

text \<open>
  C3: Continuations are posted exactly once: a continuation is posted by a future only if it was
  added to it, never twice, and when all threads are idle every continuation of a future that is
  done has been posted. Clients add a future as a continuation at most once, while it is pending,
  and no multi-post future.
\<close>

theorem continuations_posted_once:
  assumes "fut_reachable allowed cancelled n w" and "allocates_fresh allowed" and "adds_pending allowed"
  shows "delivered (flog w) \<subseteq># added (flog w) \<and> count (delivered (flog w)) (f, c) \<le> 1
    \<and> ((\<forall>u. fstack w u = []) \<longrightarrow> is_done w f \<longrightarrow>
         count (delivered (flog w)) (f, c) = count (added (flog w)) (f, c))"
proof (intro conjI impI)
  from chains_inv_reachable [OF assms] have eq: "added (flog w) = waiting n w + delivered (flog w)"
    and one: "count (image_mset snd (added (flog w))) c \<le> 1" by (auto simp: chains_inv_def)
  from eq show "delivered (flog w) \<subseteq># added (flog w)" by simp
  from eq have "count (delivered (flog w)) (f, c) \<le> count (added (flog w)) (f, c)" by simp
  also have "\<dots> \<le> count (image_mset snd (added (flog w))) c"
    using count_image_mset_ge [of "added (flog w)" "(f, c)" snd] by simp
  finally show "count (delivered (flog w)) (f, c) \<le> 1" using one by simp
  show "count (delivered (flog w)) (f, c) = count (added (flog w)) (f, c)"
    if "\<forall>u. fstack w u = []" and "is_done w f"
    using eq waiting_idle [OF that] by simp
qed

theorem continuations_posted_once_witness: "count (delivered (flog (demo_tail [] []))) (8, 16) = 1"
proof -
  have "count (added (flog (demo_tail [] []))) (8, 16) = 1"
    by (simp add: demo_tail_def demo_fworld_def demo_end_log_def demo_log_def)
  with continuations_posted_once [OF demo_finished guarded_ok, of 8 16] show ?thesis
    using demo_end_done demo_end_simps by simp
qed

section \<open>What a continuation gets\<close>

text \<open>The call \<open>Invoke\<close> makes for a continuation \<open>c\<close> of the future \<open>p\<close>.\<close>

definition call_for :: "ptr \<Rightarrow> ptr \<Rightarrow> 'e FutureImpl \<Rightarrow> 'e FutureImpl \<Rightarrow> 'e fwork" where
  "call_for p c p1 c1 =
     (if fstate p1 = Failed \<and> \<not> IsSet (Options (m_traits c1)) CallTaskInvokeOnError
      then if FutureTraits.TaskCatch (m_traits c1) then DoTaskCatch c (EField c)
           else DoTrySetError c (EField c) True
      else if TaskInvoke (m_traits c1) then DoTaskInvoke c p
      else DoTrySetSuccess c True)"

text \<open>
  C18: A pending continuation that runs inline gets the result of the future it continues. The
  rest of the list is kept for later; the task is called with the parent as argument if the
  parent succeeded, or if it asked to be called on errors; otherwise the error of the parent goes
  to the handler, or, when there is none, becomes the error of the continuation.
\<close>

theorem continuation_gets_parent_result:
  assumes "heap w c = Some c1" and "heap w p = Some p1" and "p \<noteq> c" and "c \<noteq> 0" and "p \<noteq> 0"
    and "deliverable (m_traits c1)" and "\<not> TaskPost (m_traits c1)"
    and "fstate c1 = Pending" and "m_error c1 = None"
    and "fstate p1 = Succeeded \<or> fstate p1 = Failed \<and> m_error p1 = Some e"
  shows "\<exists>w1 w2 c2.
      exec_PostContinuation tid p c w
        = Returns ([DoInvoke c 10000, DoLeaveCurrent, DoPostContinuation p (m_link c1)], w1)
    \<and> exec_Invoke tid c 10000 w1 = Returns ([call_for p c p1 c1, DoLeaveCurrent], w2)
    \<and> heap w2 c = Some c2 \<and> fstate c2 = Invoking
    \<and> m_error c2 = (if fstate p1 = Failed \<and> \<not> IsSet (Options (m_traits c1)) CallTaskInvokeOnError
                     then Some e else None)"
  using assms
  by (auto simp: exec_PostContinuation_def TryPostInternal_def with_future_def exec_Invoke_def round_of_def
      take_parent_def decision_defs deliverable_def IsCurrent_def push_current_def call_for_def Let_def
      completes_def new_continuation_def move_state_def set_future_def log_event_def)

definition failed_parent :: "nat FutureImpl" where
  "failed_parent = (promise_obj Failed ContinuationInvoked)\<lparr>m_error := Some 7\<rparr>"

definition failed_world :: "nat fworld" where
  "failed_world = demo_fworld failed_parent (then_obj Pending 0 4) [] [] []"

lemma failed_world_simps:
  "heap failed_world 16 = Some (then_obj Pending 0 4)" "heap failed_world 8 = Some failed_parent"
  "deliverable (m_traits (then_obj Pending 0 4))" "\<not> TaskPost (m_traits (then_obj Pending 0 4))"
  "fstate (then_obj Pending 0 4) = Pending" "m_error (then_obj Pending 0 4) = None"
  "fstate failed_parent = Failed" "m_error failed_parent = Some 7" "m_link (then_obj Pending 0 4) = 0"
  "call_for 8 16 failed_parent (then_obj Pending 0 4) = DoTrySetError 16 (EField 16) True"
  by (simp_all add: failed_world_def demo_fworld_def failed_parent_def then_obj_def promise_obj_def
      deliverable_def then_traits_def FutureImpl_new_def fstate_def call_for_def)

theorem continuation_gets_parent_result_witness:
  "\<exists>w1 w2. exec_PostContinuation 0 8 16 failed_world
        = Returns ([DoInvoke 16 10000, DoLeaveCurrent, DoPostContinuation 8 0], w1)
    \<and> exec_Invoke 0 16 10000 w1 = Returns ([DoTrySetError 16 (EField 16) True, DoLeaveCurrent], w2)"
  using continuation_gets_parent_result [OF failed_world_simps(1,2), of 7 0] failed_world_simps by auto

text \<open>
  C19: An error that a continuation does not handle becomes its own result. A pending continuation
  that runs inline and has no handler takes the error of its failed parent, moves through
  \<open>Posting\<close>, \<open>Invoking\<close> and \<open>SettingResult\<close> to \<open>Failed\<close>, destroys its task if it has one, lets go of
  its parent and passes the error on to its own list of continuations; \<open>GetError\<close> gives that error.
\<close>

theorem unhandled_error_propagates:
  assumes "heap w c = Some c1" and "heap w p = Some p1" and "p \<noteq> c" and "c \<noteq> 0" and "p \<noteq> 0"
    and "deliverable (m_traits c1)" and "\<not> TaskPost (m_traits c1)"
    and "\<not> FutureTraits.TaskCatch (m_traits c1)" and "\<not> IsSet (Options (m_traits c1)) CallTaskInvokeOnError"
    and "fstate c1 = Pending" and "m_error c1 = None" and "fstate p1 = Failed" and "m_error p1 = Some e"
  shows "\<exists>w1 w2 w3 w4 w5.
      exec_PostContinuation tid p c w
        = Returns ([DoInvoke c 10000, DoLeaveCurrent, DoPostContinuation p (m_link c1)], w1)
    \<and> exec_Invoke tid c 10000 w1 = Returns ([DoTrySetError c (EField c) True, DoLeaveCurrent], w2)
    \<and> exec_TrySetError tid c (EField c) True w2 = Returns ([DoSetError c (EField c)], w3)
    \<and> exec_SetError c (EField c) w3 = Returns ([DoSetFailed c], w3)
    \<and> exec_SetFailed c w3 = Returns ([DoAfterFailed c (fcont c1)], w4)
    \<and> exec_AfterFailed c (fcont c1) w4
        = Returns ((if m_taskSize c1 > 0 \<and> TaskDestroy (m_traits c1)
                       \<and> IsSet (Options (m_traits c1)) DestroyTaskAfterInvoke then [Client] else [])
                   @ [DoDeliver c (fcont c1)], w5)
    \<and> GetError w5 c = Returns e \<and> map_option m_link (heap w5 c) = Some 0 \<and> heap w5 p = Some p1"
  using assms
  by (auto simp: exec_PostContinuation_def TryPostInternal_def with_future_def exec_Invoke_def round_of_def
      take_parent_def decision_defs deliverable_def IsCurrent_def push_current_def Let_def
      completes_def new_continuation_def move_state_def set_future_def log_event_def
      exec_TrySetError_def exec_SetError_def exec_SetFailed_def exec_AfterFailed_def DestroyTask_def GetError_def)

text \<open>A continuation as \<open>Then\<close> makes it, with a task to destroy after the call.\<close>

theorem unhandled_error_propagates_witness:
  "\<exists>w4 w5. exec_AfterFailed 16 0 w4 = Returns ([Client, DoDeliver 16 0], w5) \<and> GetError w5 16 = Returns (7 :: nat)"
proof -
  let ?c = "then_obj Pending 0 4 :: nat FutureImpl"
  have t: "\<not> FutureTraits.TaskCatch (m_traits ?c)" "\<not> IsSet (Options (m_traits ?c)) CallTaskInvokeOnError"
    "m_taskSize ?c = 4" "TaskDestroy (m_traits ?c)" "IsSet (Options (m_traits ?c)) DestroyTaskAfterInvoke" "fcont ?c = 0"
    by (simp_all add: then_obj_def then_traits_def FutureImpl_new_def fcont_def)
  from unhandled_error_propagates [OF failed_world_simps(1,2) _ _ _ failed_world_simps(3,4) t(1,2)
      failed_world_simps(5-8), of 0] t(3-6)
  show ?thesis by auto
qed

section \<open>A multi-post continuation\<close>

definition shared_obj :: "FutureState \<Rightarrow> ptr \<Rightarrow> nat FutureImpl" where
  "shared_obj s c = (FutureImpl_new (promise_traits\<lparr>Options := IsShared\<rparr>) 0)\<lparr>m_stateAndContinuation := Make s c\<rparr>"

definition any_traits :: FutureTraits where
  "any_traits = \<lparr>Options = IsMultiPost, ValueSize = 0, ValueDestroy = False,
     TaskDestroy = False, TaskPost = False, TaskInvoke = True, TaskCatch = True\<rparr>"

definition any_obj :: "ptr \<Rightarrow> nat FutureImpl" where
  "any_obj l = (FutureImpl_new any_traits 4)\<lparr>m_link := l\<rparr>"

definition any_fworld ::
  "nat FutureImpl \<Rightarrow> ptr \<Rightarrow> ptr list \<Rightarrow> nat fwork list \<Rightarrow> nat fevent list \<Rightarrow> nat fworld" where
  "any_fworld p l t s es = \<lparr>heap = [8 \<mapsto> p, 16 \<mapsto> FutureImpl_new then_traits 4, 24 \<mapsto> any_obj l],
     tls = (\<lambda>_. [])(0 := t), fstack = (\<lambda>_. [])(0 := s),
     flog = [Created 8, Created 16, Created 24] @ es\<rparr>"

definition any_log :: "nat fevent list" where
  "any_log = [Added 8 16, Added 8 24, Completed 8 Succeeded]"

lemma any_options [simp]:
  "IsSet IsMultiPost IsMultiPost = True" "IsSet IsMultiPost UseParentValue = False"
  "IsSet IsShared IsShared = True" "IsSet IsShared IsMultiPost = False" "IsSet IsShared UseParentValue = False"
  "aligned 24"
  by (simp_all add: IsSet_def IsMultiPost_def IsShared_def UseParentValue_def aligned_def
      ContinuationMask_def StateMask_def)

lemma new_fstate: "m_stateAndContinuation (FutureImpl_new t n) = Make Pending 0"
  by (simp add: FutureImpl_new_def Make_Pending_0)

lemmas any_start = Let_def exec_defs any_fworld_def shared_obj_def any_obj_def any_traits_def promise_traits_def
  FutureImpl_new_def fstate_def fcont_def any_log_def fun_upd_twist initial_fworld_def fun_upd_idem Make_Pending_0
  ContinuationInvoked_def ContinuationMask_def StateMask_def then_traits_def

lemma any_added:
  "fut_reachable makes_fresh cancelled 1 (any_fworld (shared_obj Pending 24) 16 [] [] [Added 8 16, Added 8 24])"
proof -
  let ?T = "promise_traits\<lparr>Options := IsShared\<rparr>"
  let ?w1 = "initial_fworld\<lparr>heap := [8 \<mapsto> FutureImpl_new ?T 0], flog := [Created 8]\<rparr>"
  let ?w2 = "initial_fworld\<lparr>heap := [8 \<mapsto> FutureImpl_new ?T 0, 16 \<mapsto> FutureImpl_new then_traits 4],
    flog := [Created 8, Created 16]\<rparr>"
  have "fut_reachable makes_fresh cancelled 1 ?w1"
    by (rule reach_client [OF fut_reachable.initial, where tid = 0 and c = "DoMakeFuture 8 ?T 0 False"])
      (simp add: any_start)+
  then have "fut_reachable makes_fresh cancelled 1 ?w2"
    by (rule reach_client [where tid = 0 and c = "DoMakeFuture 16 then_traits 4 True"]) (simp add: any_start)+
  then have "fut_reachable makes_fresh cancelled 1 (any_fworld (shared_obj Pending 0) 0 [] [] [])"
    by (rule reach_client [where tid = 0 and c = "DoMakeFuture 24 any_traits 4 True"]) (simp add: any_start)+
  then have "fut_reachable makes_fresh cancelled 1 (any_fworld (shared_obj Pending 16) 0 [] [] [Added 8 16])"
    by (rule reach_client [where tid = 0 and c = "DoAddContinuation 8 16"]) (simp add: any_start)+
  then show ?thesis
    by (rule reach_client [where tid = 0 and c = "DoAddContinuation 8 24"]) (simp add: any_start)+
qed

lemma any_finished:
  "fut_reachable makes_fresh cancelled 1
     (any_fworld (shared_obj Succeeded ContinuationInvoked) 16 [] [] (any_log @ [Delivered 8 24, TaskInvoked 24 8]))"
proof -
  note step = reach_exec [where tid = 0]
  let ?W = "any_fworld (shared_obj Succeeded ContinuationInvoked) 16"
  from any_added have "fut_reachable makes_fresh cancelled 1 (?W [] [DoAfterSuccess 8 24] any_log)"
    by (rule reach_client [where tid = 0 and c = "DoTrySetSuccess 8 True"]) (simp add: any_start)+
  then have "fut_reachable makes_fresh cancelled 1 (?W [] [DoDeliver 8 24] any_log)"
    by (rule step) (simp add: any_start)+
  then have "fut_reachable makes_fresh cancelled 1 (?W [] [DoPostContinuation 8 24] any_log)"
    by (rule step) (simp add: any_start)+
  then have "fut_reachable makes_fresh cancelled 1 (?W [24]
      [DoTaskInvoke 24 8, DoLeaveCurrent, DoPostContinuation 8 0] (any_log @ [Delivered 8 24]))"
    by (rule step) (simp add: any_start)+
  then have "fut_reachable makes_fresh cancelled 1 (?W [24] [Client, DoLeaveCurrent, DoPostContinuation 8 0]
      (any_log @ [Delivered 8 24, TaskInvoked 24 8]))"
    by (rule step) (simp add: any_start)+
  then have "fut_reachable makes_fresh cancelled 1 (?W [24] [DoLeaveCurrent, DoPostContinuation 8 0]
      (any_log @ [Delivered 8 24, TaskInvoked 24 8]))"
    by (rule step) (simp add: any_start)+
  then have "fut_reachable makes_fresh cancelled 1 (?W [] [DoPostContinuation 8 0]
      (any_log @ [Delivered 8 24, TaskInvoked 24 8]))"
    by (rule step) (simp add: any_start)+
  then show ?thesis
    by (rule step) (simp add: any_start)+
qed

text \<open>
  A multi-post continuation ends the list it is in: there is a run in which a shared future
  gets an ordinary continuation, then a multi-post one, and succeeds; all threads are idle in the
  end, and the ordinary continuation was never posted and never will be, though the future is done.
\<close>

theorem multi_post_loses_continuations:
  "\<exists>w :: nat fworld. fut_reachable makes_fresh cancelled 1 w \<and> (\<forall>u. fstack w u = []) \<and> is_done w 8
    \<and> (8, 16) \<in># added (flog w) \<and> (8, 16) \<notin># delivered (flog w)"
  by (rule exI, intro conjI, rule any_finished)
    (auto simp: any_fworld_def any_log_def is_done_def state_at_def shared_obj_def fstate_def completes_def)

end
