(* ===== verification/Ref_Count.thy ===== *)
theory Ref_Count
  imports Mso_Prelude
begin

text \<open>
  Reference counted objects (\<open>libs/object/include/object/objectRefCount.h\<close>,
  \<open>objectWithWeakRef.h\<close>, and \<open>FutureWeakRef\<close> in \<open>libs/future/src/futureImpl.cpp\<close>): the counters
  with their operations, in a release build, where the checks inside \<open>Debug(...)\<close> are left out.
  The interface the smart pointers use is the locale \<open>ref_counted\<close>; the strong counts and the weak
  counts of the three kinds of object are its interpretations.
\<close>

section \<open>The interface\<close>

text \<open>
  What a smart pointer calls, \<open>IRefCounted\<close>. \<open>refs\<close> reads the number of references to an address
  off the memory, 0 where there is no object. A count goes up by one with \<open>AddRef\<close> and down by one
  with \<open>Release\<close>, for this object only. The bound leaves room in the 32 bits for the one weak
  reference a live object has of its own.
\<close>

record 'h IRefCounted =
  AddRef :: "ptr \<Rightarrow> 'h \<Rightarrow> 'h outcome"
  Release :: "ptr \<Rightarrow> 'h \<Rightarrow> 'h outcome"

locale ref_counted =
  fixes I :: "'h IRefCounted" and ok :: "'h \<Rightarrow> bool" and refs :: "'h \<Rightarrow> ptr \<Rightarrow> nat"
  assumes add_ref: "ok h \<Longrightarrow> 0 < refs h p \<Longrightarrow> refs h p < 2 ^ 32 - 2 \<Longrightarrow>
      \<exists>h'. AddRef I p h = Returns h' \<and> ok h' \<and> refs h' = (refs h)(p := refs h p + 1)"
    and release: "ok h \<Longrightarrow> 0 < refs h p \<Longrightarrow>
      \<exists>h'. Release I p h = Returns h' \<and> ok h' \<and> refs h' = (refs h)(p := refs h p - 1)"

section \<open>Counters\<close>

lemma unat_inc: "unat (n :: 32 word) < 2 ^ 32 - 1 \<Longrightarrow> unat (n + 1) = unat n + 1"
  by (subst unat_add_lem [THEN iffD1]) simp_all

lemma unat_dec: "0 < unat (n :: 32 word) \<Longrightarrow> unat (n - 1) = unat n - 1"
  by (metis One_nat_def Suc_leI unat_1 unat_sub_if' word_le_nat_alt)

lemma dec_zero: "n - 1 = 0 \<longleftrightarrow> n = (1 :: 32 word)"
  by auto

section \<open>Simple counting\<close>

text \<open>
  Objects with one counter, \<open>RefCountedWrapperBase\<close>: the counters of the live objects, and the
  objects that were deleted, in order.
\<close>

record counted_heap =
  m_refCount :: "ptr \<Rightarrow> 32 word option"
  deleted :: "ptr list"

definition with_count :: "counted_heap \<Rightarrow> ptr \<Rightarrow> (32 word \<Rightarrow> 'b outcome) \<Rightarrow> 'b outcome" where
  "with_count h p k = (case m_refCount h p of None \<Rightarrow> Crashes DanglingPointer | Some n \<Rightarrow> k n)"

text \<open>\<open>SimpleRefCountPolicy::Delete\<close>: the destructor runs and the memory is freed.\<close>

definition SimpleRefCount_Delete :: "ptr \<Rightarrow> counted_heap \<Rightarrow> counted_heap" where
  "SimpleRefCount_Delete p h = h\<lparr>m_refCount := (m_refCount h)(p := None), deleted := deleted h @ [p]\<rparr>"

definition SimpleRefCount_AddRef :: "ptr \<Rightarrow> counted_heap \<Rightarrow> counted_heap outcome" where
  "SimpleRefCount_AddRef p h = with_count h p (\<lambda>n.
     Returns (h\<lparr>m_refCount := (m_refCount h)(p \<mapsto> n + 1)\<rparr>))"

definition SimpleRefCount_Release :: "ptr \<Rightarrow> counted_heap \<Rightarrow> counted_heap outcome" where
  "SimpleRefCount_Release p h = with_count h p (\<lambda>n.
     let refCount = n - 1; h1 = h\<lparr>m_refCount := (m_refCount h)(p \<mapsto> refCount)\<rparr>
     in Returns (if refCount = 0 then SimpleRefCount_Delete p h1 else h1))"

definition SimpleRefCount_IsUniqueRef :: "ptr \<Rightarrow> counted_heap \<Rightarrow> bool outcome" where
  "SimpleRefCount_IsUniqueRef p h = with_count h p (\<lambda>n. Returns (n = 1))"

definition SimpleRefCount :: "counted_heap IRefCounted" where
  "SimpleRefCount = \<lparr>AddRef = SimpleRefCount_AddRef, Release = SimpleRefCount_Release\<rparr>"

definition simple_refs :: "counted_heap \<Rightarrow> ptr \<Rightarrow> nat" where
  "simple_refs h p = (case m_refCount h p of None \<Rightarrow> 0 | Some n \<Rightarrow> unat n)"

interpretation simple: ref_counted SimpleRefCount "\<lambda>_. True" simple_refs
proof unfold_locales
  fix h p assume pos: "0 < simple_refs h p"
  then obtain n where n: "m_refCount h p = Some n" and "0 < unat n"
    by (auto simp: simple_refs_def split: option.splits)
  show "\<exists>h'. AddRef SimpleRefCount p h = Returns h' \<and> True \<and> simple_refs h' = (simple_refs h)(p := simple_refs h p + 1)"
    if "simple_refs h p < 2 ^ 32 - 2"
    using that n unat_inc [of n]
    by (simp add: SimpleRefCount_def SimpleRefCount_AddRef_def with_count_def simple_refs_def fun_eq_iff)
  show "\<exists>h'. Release SimpleRefCount p h = Returns h' \<and> True \<and> simple_refs h' = (simple_refs h)(p := simple_refs h p - 1)"
    using n \<open>0 < unat n\<close> unat_dec [of n] dec_zero [of n]
    by (auto simp: SimpleRefCount_def SimpleRefCount_Release_def SimpleRefCount_Delete_def with_count_def
        simple_refs_def fun_eq_iff Let_def)
qed

section \<open>The interface with weak references\<close>

text \<open>
  \<open>weaks\<close> is the number of weak references besides the one the live object itself holds. A weak
  reference can be made from a live object or from another weak one; it keeps nothing alive but
  the counters; \<open>expired\<close> tells whether the object is gone, and \<open>upgrade\<close>,
  \<open>IncrementRefCountIfNotZero\<close>, makes a strong reference if it is not. \<open>weak_ref_of\<close> finds the
  counters of a live object.
\<close>

locale weak_counted = ref_counted I ok refs
  for I :: "'h IRefCounted" and ok :: "'h \<Rightarrow> bool" and refs :: "'h \<Rightarrow> ptr \<Rightarrow> nat" +
  fixes W :: "'h IRefCounted" and weaks :: "'h \<Rightarrow> ptr \<Rightarrow> nat"
    and upgrade :: "ptr \<Rightarrow> 'h \<Rightarrow> (bool \<times> 'h) outcome" and expired :: "ptr \<Rightarrow> 'h \<Rightarrow> bool outcome"
    and weak_ref_of :: "ptr \<Rightarrow> 'h \<Rightarrow> ptr outcome"
  assumes strong_add_weaks: "ok h \<Longrightarrow> 0 < refs h p \<Longrightarrow> refs h p < 2 ^ 32 - 1 \<Longrightarrow>
      AddRef I p h = Returns h' \<Longrightarrow> weaks h' = weaks h"
    and strong_release_weaks: "ok h \<Longrightarrow> 0 < refs h p \<Longrightarrow> Release I p h = Returns h' \<Longrightarrow> weaks h' = weaks h"
    and add_weak: "ok h \<Longrightarrow> 0 < weaks h p + refs h p \<Longrightarrow> weaks h p < 2 ^ 32 - 2 \<Longrightarrow>
      \<exists>h'. AddRef W p h = Returns h' \<and> ok h' \<and> refs h' = refs h \<and> weaks h' = (weaks h)(p := weaks h p + 1)"
    and release_weak: "ok h \<Longrightarrow> 0 < weaks h p \<Longrightarrow>
      \<exists>h'. Release W p h = Returns h' \<and> ok h' \<and> refs h' = refs h \<and> weaks h' = (weaks h)(p := weaks h p - 1)"
    and upgrade: "ok h \<Longrightarrow> 0 < weaks h p \<Longrightarrow> refs h p < 2 ^ 32 - 1 \<Longrightarrow>
      \<exists>h'. upgrade p h = Returns (0 < refs h p, h') \<and> ok h' \<and> weaks h' = weaks h
        \<and> refs h' = (if 0 < refs h p then (refs h)(p := refs h p + 1) else refs h)"
    and expired: "ok h \<Longrightarrow> 0 < weaks h p \<Longrightarrow> expired p h = Returns (refs h p = 0)"
    and weak_ref_of: "ok h \<Longrightarrow> 0 < refs h p \<Longrightarrow> weak_ref_of p h = Returns p"

sublocale weak_counted \<subseteq> weak: ref_counted W ok weaks
proof unfold_locales
  fix h p
  assume "ok h" and "0 < weaks h p"
  then show "\<exists>h'. AddRef W p h = Returns h' \<and> ok h' \<and> weaks h' = (weaks h)(p := weaks h p + 1)"
    if "weaks h p < 2 ^ 32 - 2" using add_weak [of h p] that by auto
  from \<open>ok h\<close> \<open>0 < weaks h p\<close> show "\<exists>h'. Release W p h = Returns h' \<and> ok h' \<and> weaks h' = (weaks h)(p := weaks h p - 1)"
    using release_weak [of h p] by blast
qed

section \<open>Counting with weak references\<close>

text \<open>
  The counters of an object with weak references: a block at an address. \<open>weakRefSlot\<close> is the
  pointer to the block in front of an object: whether it is set. The block is its own container
  here, so it is named by the address of the object.
\<close>

record weak_ref =
  w_refCount :: "32 word"
  w_weakRefCount :: "32 word"

record weak_heap =
  blocks :: "ptr \<Rightarrow> weak_ref option"
  weakRefSlot :: "ptr \<Rightarrow> bool"
  destroyed :: "ptr list"
  freed :: "ptr list"

definition with_block :: "weak_heap \<Rightarrow> ptr \<Rightarrow> (weak_ref \<Rightarrow> 'b outcome) \<Rightarrow> 'b outcome" where
  "with_block h p k = (case blocks h p of None \<Rightarrow> Crashes DanglingPointer | Some b \<Rightarrow> k b)"

definition set_block :: "ptr \<Rightarrow> weak_ref \<Rightarrow> weak_heap \<Rightarrow> weak_heap" where
  "set_block p b h = h\<lparr>blocks := (blocks h)(p \<mapsto> b)\<rparr>"

definition free_block :: "ptr \<Rightarrow> weak_heap \<Rightarrow> weak_heap" where
  "free_block p h = h\<lparr>blocks := (blocks h)(p := None), freed := freed h @ [p]\<rparr>"

definition ObjectWeakRef_AddRef :: "ptr \<Rightarrow> weak_heap \<Rightarrow> weak_heap outcome" where
  "ObjectWeakRef_AddRef p h = with_block h p (\<lambda>b.
     Returns (set_block p (b\<lparr>w_refCount := w_refCount b + 1\<rparr>) h))"

definition ObjectWeakRef_AddWeakRef :: "ptr \<Rightarrow> weak_heap \<Rightarrow> weak_heap outcome" where
  "ObjectWeakRef_AddWeakRef p h = with_block h p (\<lambda>b.
     Returns (set_block p (b\<lparr>w_weakRefCount := w_weakRefCount b + 1\<rparr>) h))"

definition ObjectWeakRef_ReleaseWeakRef :: "ptr \<Rightarrow> weak_heap \<Rightarrow> weak_heap outcome" where
  "ObjectWeakRef_ReleaseWeakRef p h = with_block h p (\<lambda>b.
     let weakRefCount = w_weakRefCount b - 1; h1 = set_block p (b\<lparr>w_weakRefCount := weakRefCount\<rparr>) h
     in Returns (if weakRefCount = 0 then free_block p h1 else h1))"

text \<open>\<open>WeakRefCountPolicy::Delete\<close>: the destructor, and then the object's own weak reference.\<close>

definition WeakRefCountPolicy_Delete :: "ptr \<Rightarrow> weak_heap \<Rightarrow> weak_heap outcome" where
  "WeakRefCountPolicy_Delete p h =
     ObjectWeakRef_ReleaseWeakRef p
       (h\<lparr>destroyed := destroyed h @ [p], weakRefSlot := (weakRefSlot h)(p := False)\<rparr>)"

definition ObjectWeakRefContainer_DestroyObject :: "ptr \<Rightarrow> weak_heap \<Rightarrow> weak_heap outcome" where
  "ObjectWeakRefContainer_DestroyObject p h =
     (if weakRefSlot h p then WeakRefCountPolicy_Delete p h else Returns h)"

definition ObjectWeakRef_Release :: "ptr \<Rightarrow> weak_heap \<Rightarrow> weak_heap outcome" where
  "ObjectWeakRef_Release p h = with_block h p (\<lambda>b.
     let refCount = w_refCount b - 1; h1 = set_block p (b\<lparr>w_refCount := refCount\<rparr>) h
     in if refCount = 0 then ObjectWeakRefContainer_DestroyObject p h1 else Returns h1)"

definition ObjectWeakRef_IsExpired :: "ptr \<Rightarrow> weak_heap \<Rightarrow> bool outcome" where
  "ObjectWeakRef_IsExpired p h = with_block h p (\<lambda>b. Returns (w_refCount b = 0))"

definition ObjectWeakRef_IncrementRefCountIfNotZero :: "ptr \<Rightarrow> weak_heap \<Rightarrow> (bool \<times> weak_heap) outcome" where
  "ObjectWeakRef_IncrementRefCountIfNotZero p h = with_block h p (\<lambda>b.
     let count = w_refCount b
     in if count = 0 then Returns (False, h)
        else Returns (True, set_block p (b\<lparr>w_refCount := count + 1\<rparr>) h))"

text \<open>The slot is read for the counters; it is null once the object was deleted.\<close>

definition ObjectWithWeakRef_GetWeakRef :: "ptr \<Rightarrow> weak_heap \<Rightarrow> ptr outcome" where
  "ObjectWithWeakRef_GetWeakRef p h = with_block h p (\<lambda>_.
     if weakRefSlot h p then Returns p else Crashes NullDereference)"

text \<open>\<open>AllocateMemory\<close> of \<open>WeakRefCountPolicy\<close>: a new block, with the slot set.\<close>

definition WeakRefCountPolicy_AllocateMemory :: "ptr \<Rightarrow> weak_heap \<Rightarrow> weak_heap" where
  "WeakRefCountPolicy_AllocateMemory p h =
     (set_block p \<lparr>w_refCount = 1, w_weakRefCount = 1\<rparr> h)\<lparr>weakRefSlot := (weakRefSlot h)(p := True)\<rparr>"

definition object_strong :: "weak_heap IRefCounted" where
  "object_strong = \<lparr>AddRef = ObjectWeakRef_AddRef, Release = ObjectWeakRef_Release\<rparr>"

definition object_weak :: "weak_heap IRefCounted" where
  "object_weak = \<lparr>AddRef = ObjectWeakRef_AddWeakRef, Release = ObjectWeakRef_ReleaseWeakRef\<rparr>"

definition strong_refs :: "weak_heap \<Rightarrow> ptr \<Rightarrow> nat" where
  "strong_refs h p = (case blocks h p of None \<Rightarrow> 0 | Some b \<Rightarrow> unat (w_refCount b))"

definition weak_refs :: "weak_heap \<Rightarrow> ptr \<Rightarrow> nat" where
  "weak_refs h p = (case blocks h p of None \<Rightarrow> 0
     | Some b \<Rightarrow> unat (w_weakRefCount b) - of_bool (w_refCount b \<noteq> 0))"

text \<open>A block is kept for a reason, and the slot is set exactly while the object is alive.\<close>

definition block_ok :: "bool \<Rightarrow> weak_ref \<Rightarrow> bool" where
  "block_ok slot b \<longleftrightarrow> w_weakRefCount b \<noteq> 0 \<and> (slot \<longleftrightarrow> w_refCount b \<noteq> 0)"

definition weak_heap_ok :: "weak_heap \<Rightarrow> bool" where
  "weak_heap_ok h \<longleftrightarrow> (\<forall>p b. blocks h p = Some b \<longrightarrow> block_ok (weakRefSlot h p) b)"

lemmas object_ops = object_strong_def object_weak_def ObjectWeakRef_AddRef_def ObjectWeakRef_AddWeakRef_def
  ObjectWeakRef_ReleaseWeakRef_def ObjectWeakRef_Release_def ObjectWeakRefContainer_DestroyObject_def
  WeakRefCountPolicy_Delete_def ObjectWeakRef_IncrementRefCountIfNotZero_def with_block_def set_block_def
  free_block_def Let_def ObjectWithWeakRef_GetWeakRef_def ObjectWeakRef_IsExpired_def

lemma unat_pos: "0 < unat (n :: 32 word) \<longleftrightarrow> n \<noteq> 0"
  by (simp add: unat_gt_0)

lemma inc_nonzero: "unat (n :: 32 word) < 2 ^ 32 - 1 \<Longrightarrow> n + 1 \<noteq> 0"
  using unat_inc [of n] by force

interpretation object: weak_counted object_strong weak_heap_ok strong_refs object_weak weak_refs
  ObjectWeakRef_IncrementRefCountIfNotZero ObjectWeakRef_IsExpired ObjectWithWeakRef_GetWeakRef
proof unfold_locales
  fix h p h'
  assume ok: "weak_heap_ok h"
  note defs = object_ops strong_refs_def weak_refs_def weak_heap_ok_def block_ok_def fun_eq_iff
  show "\<exists>h'. AddRef object_strong p h = Returns h' \<and> weak_heap_ok h' \<and> strong_refs h' = (strong_refs h)(p := strong_refs h p + 1)"
    if "0 < strong_refs h p" and "strong_refs h p < 2 ^ 32 - 2"
    using ok that by (auto simp: defs unat_inc inc_nonzero unat_pos split: option.splits if_splits)
  show "\<exists>h'. Release object_strong p h = Returns h' \<and> weak_heap_ok h' \<and> strong_refs h' = (strong_refs h)(p := strong_refs h p - 1)"
    if "0 < strong_refs h p"
    using ok that by (auto simp: defs unat_dec unat_pos split: option.splits if_splits)
  show "weak_refs h' = weak_refs h" if "0 < strong_refs h p" and "strong_refs h p < 2 ^ 32 - 1"
    and "AddRef object_strong p h = Returns h'"
    using ok that by (auto simp: defs inc_nonzero unat_pos split: option.splits if_splits)
  show "weak_refs h' = weak_refs h" if "0 < strong_refs h p" and "Release object_strong p h = Returns h'"
    using ok that by (auto simp: defs unat_dec unat_pos split: option.splits if_splits)
  show "\<exists>h'. AddRef object_weak p h = Returns h' \<and> weak_heap_ok h' \<and> strong_refs h' = strong_refs h
      \<and> weak_refs h' = (weak_refs h)(p := weak_refs h p + 1)"
    if "0 < weak_refs h p + strong_refs h p" and "weak_refs h p < 2 ^ 32 - 2"
    using ok that by (auto simp: defs unat_inc inc_nonzero unat_pos split: option.splits if_splits)
  show "\<exists>h'. Release object_weak p h = Returns h' \<and> weak_heap_ok h' \<and> strong_refs h' = strong_refs h
      \<and> weak_refs h' = (weak_refs h)(p := weak_refs h p - 1)"
    if "0 < weak_refs h p"
    using ok that by (auto simp: defs unat_dec unat_pos split: option.splits if_splits)
  show "\<exists>h'. ObjectWeakRef_IncrementRefCountIfNotZero p h = Returns (0 < strong_refs h p, h') \<and> weak_heap_ok h'
      \<and> weak_refs h' = weak_refs h
      \<and> strong_refs h' = (if 0 < strong_refs h p then (strong_refs h)(p := strong_refs h p + 1) else strong_refs h)"
    if "0 < weak_refs h p" and "strong_refs h p < 2 ^ 32 - 1"
    using ok that by (auto simp: defs unat_inc inc_nonzero unat_pos split: option.splits if_splits)
  show "ObjectWeakRef_IsExpired p h = Returns (strong_refs h p = 0)" if "0 < weak_refs h p"
    using that by (auto simp: defs unat_0_iff split: option.splits)
  show "ObjectWithWeakRef_GetWeakRef p h = Returns p" if "0 < strong_refs h p"
    using ok that by (auto simp: defs unat_pos split: option.splits)
qed

end
