(* ===== verification/Counted_Ptr.thy ===== *)
theory Counted_Ptr
  imports Ref_Count
begin

text \<open>
  \<open>Mso::CntPtr\<close> (\<open>libs/smartPtr/include/smartPtr/cntPtr.h\<close>): the operations of the counted
  pointer over any counted objects. The variables of type \<open>CntPtr\<close> of a program are cells; what
  the client holds without a \<open>CntPtr\<close> is counted beside them. The overloads for a derived class
  do what the plain ones do.
\<close>

section \<open>Cells\<close>

text \<open>A cell that holds no object of type \<open>CntPtr\<close> (not constructed, or destructed) is \<open>None\<close>.\<close>

record 'h cnt_world =
  cells :: "nat \<Rightarrow> ptr option"
  objects :: 'h

definition m_ptr :: "'h cnt_world \<Rightarrow> nat \<Rightarrow> (ptr \<Rightarrow> 'b outcome) \<Rightarrow> 'b outcome" where
  "m_ptr w c k = (case cells w c of None \<Rightarrow> Crashes NotConstructed | Some p \<Rightarrow> k p)"

definition set_cell :: "nat \<Rightarrow> ptr option \<Rightarrow> 'h cnt_world \<Rightarrow> 'h cnt_world" where
  "set_cell c v w = w\<lparr>cells := (cells w)(c := v)\<rparr>"

text \<open>\<open>if (ptr) ptr->AddRef()\<close> and \<open>if (ptr) ptr->Release()\<close>.\<close>

definition checked_AddRef :: "'h IRefCounted \<Rightarrow> ptr \<Rightarrow> 'h cnt_world \<Rightarrow> 'h cnt_world outcome" where
  "checked_AddRef I p w =
     (if p \<noteq> 0 then and_then (AddRef I p (objects w)) (\<lambda>h. Returns (w\<lparr>objects := h\<rparr>)) else Returns w)"

definition checked_Release :: "'h IRefCounted \<Rightarrow> ptr \<Rightarrow> 'h cnt_world \<Rightarrow> 'h cnt_world outcome" where
  "checked_Release I p w =
     (if p \<noteq> 0 then and_then (Release I p (objects w)) (\<lambda>h. Returns (w\<lparr>objects := h\<rparr>)) else Returns w)"

section \<open>Operations\<close>

definition CntPtr_ctor_null :: "nat \<Rightarrow> 'h cnt_world \<Rightarrow> 'h cnt_world outcome" where
  "CntPtr_ctor_null c w = Returns (set_cell c (Some 0) w)"

definition CntPtr_ctor_ptr :: "'h IRefCounted \<Rightarrow> nat \<Rightarrow> ptr \<Rightarrow> 'h cnt_world \<Rightarrow> 'h cnt_world outcome" where
  "CntPtr_ctor_ptr I c p w = checked_AddRef I p (set_cell c (Some p) w)"

definition CntPtr_ctor_attach :: "nat \<Rightarrow> ptr \<Rightarrow> 'h cnt_world \<Rightarrow> 'h cnt_world outcome" where
  "CntPtr_ctor_attach c p w = Returns (set_cell c (Some p) w)"

definition CntPtr_ctor_copy :: "'h IRefCounted \<Rightarrow> nat \<Rightarrow> nat \<Rightarrow> 'h cnt_world \<Rightarrow> 'h cnt_world outcome" where
  "CntPtr_ctor_copy I c other w = m_ptr w other (\<lambda>p. checked_AddRef I p (set_cell c (Some p) w))"

definition CntPtr_ctor_move :: "nat \<Rightarrow> nat \<Rightarrow> 'h cnt_world \<Rightarrow> 'h cnt_world outcome" where
  "CntPtr_ctor_move c other w = m_ptr w other (\<lambda>p.
     Returns (set_cell other (Some 0) (set_cell c (Some p) w)))"

definition CntPtr_dtor :: "'h IRefCounted \<Rightarrow> nat \<Rightarrow> 'h cnt_world \<Rightarrow> 'h cnt_world outcome" where
  "CntPtr_dtor I c w = m_ptr w c (\<lambda>oldPtr. checked_Release I oldPtr (set_cell c None w))"

definition CntPtr_Clear :: "'h IRefCounted \<Rightarrow> nat \<Rightarrow> 'h cnt_world \<Rightarrow> 'h cnt_world outcome" where
  "CntPtr_Clear I c w = m_ptr w c (\<lambda>oldPtr.
     if oldPtr \<noteq> 0 then checked_Release I oldPtr (set_cell c (Some 0) w) else Returns w)"

definition CntPtr_assign_null :: "'h IRefCounted \<Rightarrow> nat \<Rightarrow> 'h cnt_world \<Rightarrow> 'h cnt_world outcome" where
  "CntPtr_assign_null I c w = m_ptr w c (\<lambda>oldPtr.
     if oldPtr \<noteq> 0 then checked_Release I oldPtr (set_cell c (Some 0) w) else Returns w)"

definition CntPtr_assign_ptr :: "'h IRefCounted \<Rightarrow> nat \<Rightarrow> ptr \<Rightarrow> 'h cnt_world \<Rightarrow> 'h cnt_world outcome" where
  "CntPtr_assign_ptr I c p w = m_ptr w c (\<lambda>oldPtr.
     if oldPtr \<noteq> p
     then and_then (checked_AddRef I p w) (\<lambda>w1. checked_Release I oldPtr (set_cell c (Some p) w1))
     else Returns w)"

definition CntPtr_assign_copy :: "'h IRefCounted \<Rightarrow> nat \<Rightarrow> nat \<Rightarrow> 'h cnt_world \<Rightarrow> 'h cnt_world outcome" where
  "CntPtr_assign_copy I c other w = m_ptr w other (\<lambda>p. CntPtr_assign_ptr I c p w)"

definition CntPtr_assign_move :: "'h IRefCounted \<Rightarrow> nat \<Rightarrow> nat \<Rightarrow> 'h cnt_world \<Rightarrow> 'h cnt_world outcome" where
  "CntPtr_assign_move I c other w = m_ptr w c (\<lambda>oldPtr. m_ptr w other (\<lambda>p.
     if oldPtr \<noteq> p
     then checked_Release I oldPtr (set_cell other (Some 0) (set_cell c (Some p) w))
     else Returns w))"

definition CntPtr_IsEmpty :: "nat \<Rightarrow> 'h cnt_world \<Rightarrow> bool outcome" where
  "CntPtr_IsEmpty c w = m_ptr w c (\<lambda>p. Returns (p = 0))"

definition CntPtr_bool :: "nat \<Rightarrow> 'h cnt_world \<Rightarrow> bool outcome" where
  "CntPtr_bool c w = m_ptr w c (\<lambda>p. Returns (p \<noteq> 0))"

definition CntPtr_Get :: "nat \<Rightarrow> 'h cnt_world \<Rightarrow> ptr outcome" where
  "CntPtr_Get c w = m_ptr w c Returns"

text \<open>\<open>operator*\<close> and \<open>operator->\<close>: the client goes on with the object.\<close>

definition CntPtr_deref :: "nat \<Rightarrow> 'h cnt_world \<Rightarrow> ptr outcome" where
  "CntPtr_deref c w = m_ptr w c (\<lambda>p. if p = 0 then Crashes NullDereference else Returns p)"

definition CntPtr_Attach :: "'h IRefCounted \<Rightarrow> nat \<Rightarrow> ptr \<Rightarrow> 'h cnt_world \<Rightarrow> 'h cnt_world outcome" where
  "CntPtr_Attach I c p w = m_ptr w c (\<lambda>oldPtr.
     if oldPtr \<noteq> p then checked_Release I oldPtr (set_cell c (Some p) w) else Returns w)"

definition CntPtr_Detach :: "nat \<Rightarrow> 'h cnt_world \<Rightarrow> (ptr \<times> 'h cnt_world) outcome" where
  "CntPtr_Detach c w = m_ptr w c (\<lambda>p. Returns (p, set_cell c (Some 0) w))"

text \<open>
  \<open>ClearAndGetAddressOf\<close>, and \<open>GetAddressOf\<close>, which asserts that the pointer is null in a debug
  build only: the address is the cell, and who gets it stores a reference there that it owns.
\<close>

definition CntPtr_ClearAndGetAddressOf ::
  "'h IRefCounted \<Rightarrow> nat \<Rightarrow> 'h cnt_world \<Rightarrow> (nat \<times> 'h cnt_world) outcome" where
  "CntPtr_ClearAndGetAddressOf I c w = m_ptr w c (\<lambda>oldPtr.
     and_then (if oldPtr \<noteq> 0 then checked_Release I oldPtr (set_cell c (Some 0) w) else Returns w)
       (\<lambda>w1. Returns (c, w1)))"

definition CntPtr_GetAddressOf :: "nat \<Rightarrow> 'h cnt_world \<Rightarrow> nat outcome" where
  "CntPtr_GetAddressOf c w = m_ptr w c (\<lambda>p. Returns c)"

definition CntPtr_equal :: "nat \<Rightarrow> nat \<Rightarrow> 'h cnt_world \<Rightarrow> bool outcome" where
  "CntPtr_equal left right w = m_ptr w left (\<lambda>p. m_ptr w right (\<lambda>q. Returns (p = q)))"

definition CntPtr_swap :: "nat \<Rightarrow> nat \<Rightarrow> 'h cnt_world \<Rightarrow> 'h cnt_world outcome" where
  "CntPtr_swap left right w = m_ptr w left (\<lambda>temp. m_ptr w right (\<lambda>p.
     Returns (set_cell right (Some temp) (set_cell left (Some p) w))))"

lemmas CntPtr_defs = CntPtr_ctor_null_def CntPtr_ctor_ptr_def CntPtr_ctor_attach_def CntPtr_ctor_copy_def
  CntPtr_ctor_move_def CntPtr_dtor_def CntPtr_Clear_def CntPtr_assign_null_def CntPtr_assign_ptr_def
  CntPtr_assign_copy_def CntPtr_assign_move_def CntPtr_Attach_def CntPtr_Detach_def
  CntPtr_ClearAndGetAddressOf_def CntPtr_swap_def

section \<open>Programs\<close>

datatype cnt_op =
    CtorNull nat | CtorPtr nat ptr | CtorAttach nat ptr | CtorCopy nat nat | CtorMove nat nat | Dtor nat
  | AssignNull nat | AssignPtr nat ptr | AssignCopy nat nat | AssignMove nat nat
  | Clear nat | Attach nat ptr | Detach nat | ClearAndGetAddressOf nat | Swap nat nat

fun exec_cnt :: "'h IRefCounted \<Rightarrow> cnt_op \<Rightarrow> 'h cnt_world \<Rightarrow> 'h cnt_world outcome" where
  "exec_cnt I (CtorNull c) w = CntPtr_ctor_null c w"
| "exec_cnt I (CtorPtr c p) w = CntPtr_ctor_ptr I c p w"
| "exec_cnt I (CtorAttach c p) w = CntPtr_ctor_attach c p w"
| "exec_cnt I (CtorCopy c d) w = CntPtr_ctor_copy I c d w"
| "exec_cnt I (CtorMove c d) w = CntPtr_ctor_move c d w"
| "exec_cnt I (Dtor c) w = CntPtr_dtor I c w"
| "exec_cnt I (AssignNull c) w = CntPtr_assign_null I c w"
| "exec_cnt I (AssignPtr c p) w = CntPtr_assign_ptr I c p w"
| "exec_cnt I (AssignCopy c d) w = CntPtr_assign_copy I c d w"
| "exec_cnt I (AssignMove c d) w = CntPtr_assign_move I c d w"
| "exec_cnt I (Clear c) w = CntPtr_Clear I c w"
| "exec_cnt I (Attach c p) w = CntPtr_Attach I c p w"
| "exec_cnt I (Detach c) w = and_then (CntPtr_Detach c w) (\<lambda>(_, w1). Returns w1)"
| "exec_cnt I (ClearAndGetAddressOf c) w =
     and_then (CntPtr_ClearAndGetAddressOf I c w) (\<lambda>(_, w1). Returns w1)"
| "exec_cnt I (Swap c d) w = CntPtr_swap c d w"

text \<open>
  What the client owns besides its cells: an attached reference passes to the cell, a detached
  one to the client. \<open>owned\<close> counts them by object.
\<close>

fun owned_after :: "cnt_op \<Rightarrow> 'h cnt_world \<Rightarrow> (ptr \<Rightarrow> nat) \<Rightarrow> ptr \<Rightarrow> nat" where
  "owned_after (CtorAttach c p) w owned = (if p = 0 then owned else owned(p := owned p - 1))"
| "owned_after (Attach c p) w owned = (if p = 0 then owned else owned(p := owned p - 1))"
| "owned_after (Detach c) w owned =
     (case cells w c of None \<Rightarrow> owned | Some p \<Rightarrow> if p = 0 then owned else owned(p := owned p + 1))"
| "owned_after _ w owned = owned"

text \<open>
  What the operations ask of their caller: constructors get a fresh cell and everything else a
  constructed one; a plain pointer is null or points to a live object; an attached one is a
  reference the client owns; no count reaches the top of its 32 bits. \<open>Attach\<close> may not be given
  the object the pointer holds already.
\<close>

definition live :: "(ptr \<Rightarrow> nat) \<Rightarrow> ptr \<Rightarrow> bool" where
  "live refs p \<longleftrightarrow> p = 0 \<or> 0 < refs p \<and> refs p < 2 ^ 32 - 2"

fun cnt_allowed :: "(ptr \<Rightarrow> nat) \<Rightarrow> (ptr \<Rightarrow> nat) \<Rightarrow> cnt_op \<Rightarrow> 'h cnt_world \<Rightarrow> bool" where
  "cnt_allowed refs owned (CtorNull c) w \<longleftrightarrow> cells w c = None"
| "cnt_allowed refs owned (CtorPtr c p) w \<longleftrightarrow> cells w c = None \<and> live refs p"
| "cnt_allowed refs owned (CtorAttach c p) w \<longleftrightarrow> cells w c = None \<and> (p = 0 \<or> 0 < owned p)"
| "cnt_allowed refs owned (CtorCopy c d) w \<longleftrightarrow> cells w c = None \<and> (\<exists>p. cells w d = Some p \<and> live refs p)"
| "cnt_allowed refs owned (CtorMove c d) w \<longleftrightarrow> cells w c = None \<and> cells w d \<noteq> None"
| "cnt_allowed refs owned (AssignPtr c p) w \<longleftrightarrow> cells w c \<noteq> None \<and> live refs p"
| "cnt_allowed refs owned (AssignCopy c d) w \<longleftrightarrow> cells w c \<noteq> None \<and> (\<exists>p. cells w d = Some p \<and> live refs p)"
| "cnt_allowed refs owned (AssignMove c d) w \<longleftrightarrow> cells w c \<noteq> None \<and> cells w d \<noteq> None"
| "cnt_allowed refs owned (Attach c p) w \<longleftrightarrow>
     cells w c \<noteq> None \<and> (p = 0 \<or> 0 < owned p \<and> cells w c \<noteq> Some p)"
| "cnt_allowed refs owned (Swap c d) w \<longleftrightarrow> cells w c \<noteq> None \<and> cells w d \<noteq> None"
| "cnt_allowed refs owned (Dtor c) w \<longleftrightarrow> cells w c \<noteq> None"
| "cnt_allowed refs owned (AssignNull c) w \<longleftrightarrow> cells w c \<noteq> None"
| "cnt_allowed refs owned (Clear c) w \<longleftrightarrow> cells w c \<noteq> None"
| "cnt_allowed refs owned (Detach c) w \<longleftrightarrow> cells w c \<noteq> None"
| "cnt_allowed refs owned (ClearAndGetAddressOf c) w \<longleftrightarrow> cells w c \<noteq> None"

section \<open>Balance\<close>

definition holders :: "(nat \<Rightarrow> 'a option) \<Rightarrow> 'a \<Rightarrow> nat" where
  "holders cs p = card {c. cs c = Some p}"

definition balanced :: "('h \<Rightarrow> ptr \<Rightarrow> nat) \<Rightarrow> 'h cnt_world \<Rightarrow> (ptr \<Rightarrow> nat) \<Rightarrow> bool" where
  "balanced refs w owned \<longleftrightarrow> finite (dom (cells w))
     \<and> (\<forall>p. p \<noteq> 0 \<longrightarrow> refs (objects w) p = holders (cells w) p + owned p)"

lemma finite_holders: "finite (dom cs) \<Longrightarrow> finite {c. cs c = Some p}"
  by (rule finite_subset [of _ "dom cs"]) auto

lemma holders_update:
  assumes "finite (dom cs)"
  shows "holders (cs(c := v)) p + of_bool (cs c = Some p) = holders cs p + of_bool (v = Some p)"
proof -
  have split: "holders f p = card ({d. f d = Some p} - {c}) + of_bool (f c = Some p)" if "finite (dom f)" for f
  proof (cases "f c = Some p")
    case True
    then have "Suc (card ({d. f d = Some p} - {c})) = card {d. f d = Some p}"
      by (intro card_Suc_Diff1 finite_holders that) simp
    with True show ?thesis by (simp add: holders_def)
  qed (simp add: holders_def)
  have "{d. (cs(c := v)) d = Some p} - {c} = {d. cs d = Some p} - {c}" by auto
  moreover have "finite (dom (cs(c := v)))" using assms by simp
  ultimately show ?thesis using split [OF assms] split [of "cs(c := v)"] by simp
qed

lemma holders_pos: "finite (dom cs) \<Longrightarrow> cs c = Some p \<Longrightarrow> 0 < holders cs p"
  using finite_holders [of cs p] by (auto simp: holders_def card_gt_0_iff)

lemma holders_swap:
  assumes "finite (dom cs)" and "cs c = Some p" and "cs d = Some q"
  shows "holders (cs(c := Some q, d := Some p)) r = holders cs r"
proof -
  have "finite (dom (cs(c := Some q)))" using assms(1) by simp
  from holders_update [OF this, of d "Some p" r] holders_update [OF assms(1), of c "Some q" r]
  show ?thesis using assms(2,3) by (auto split: if_splits)
qed

text \<open>
  The balance of references step by step: \<open>credit\<close> is what a program owns, which can be less than
  nothing between two statements of an operation.
\<close>

definition credited :: "('h \<Rightarrow> ptr \<Rightarrow> nat) \<Rightarrow> 'h cnt_world \<Rightarrow> (ptr \<Rightarrow> int) \<Rightarrow> bool" where
  "credited refs w credit \<longleftrightarrow> finite (dom (cells w))
     \<and> (\<forall>p. p \<noteq> 0 \<longrightarrow> int (refs (objects w) p) = int (holders (cells w) p) + credit p)"

definition change :: "ptr option \<Rightarrow> int \<Rightarrow> (ptr \<Rightarrow> int) \<Rightarrow> ptr \<Rightarrow> int" where
  "change v d credit p = credit p + (if v = Some p then d else 0)"

lemma credited_balanced: "credited refs w (\<lambda>p. int (owned p)) \<longleftrightarrow> balanced refs w owned"
  by (auto simp: credited_def balanced_def simp flip: of_nat_add)

lemma credited_cong:
  "credited refs w credit \<Longrightarrow> (\<And>p. p \<noteq> 0 \<Longrightarrow> credit p = credit' p) \<Longrightarrow> credited refs w credit'"
  by (simp add: credited_def)

lemma credited_set_cell:
  assumes "credited refs w credit"
  shows "credited refs (set_cell c v w) (change v (-1) (change (cells w c) 1 credit))"
proof -
  have fin: "finite (dom (cells w))" using assms by (simp add: credited_def)
  have "int (holders ((cells w)(c := v)) p) + (if cells w c = Some p then 1 else 0)
      = int (holders (cells w) p) + (if v = Some p then 1 else 0)" for p
    using holders_update [OF fin, of c v p] by (auto split: if_splits)
  then have "int (holders (cells w) p) = int (holders ((cells w)(c := v)) p)
      + (if cells w c = Some p then 1 else 0) - (if v = Some p then 1 else 0)" for p
    by (simp add: algebra_simps)
  then show ?thesis
    using assms fin by (auto simp: credited_def set_cell_def change_def)
qed

lemma credited_release_pos:
  "credited refs w credit \<Longrightarrow> p \<noteq> 0 \<Longrightarrow> 0 < credit p \<Longrightarrow> 0 < refs (objects w) p"
  by (force simp: credited_def)

context ref_counted begin

text \<open>A world in order: \<open>credit\<close> is what the client owns besides its cells.\<close>

definition good :: "'h cnt_world \<Rightarrow> (ptr \<Rightarrow> int) \<Rightarrow> bool" where
  "good w credit \<longleftrightarrow> ok (objects w) \<and> credited refs w credit"

lemma good_set_cell:
  "good w credit \<Longrightarrow> good (set_cell c v w) (change v (-1) (change (cells w c) 1 credit))"
  using credited_set_cell [of refs w credit c v] by (simp add: good_def) (simp add: set_cell_def)

lemma good_cong: "good w credit \<Longrightarrow> (\<And>p. p \<noteq> 0 \<Longrightarrow> credit p = credit' p) \<Longrightarrow> good w credit'"
  unfolding good_def by (blast intro: credited_cong)

lemma good_AddRef:
  assumes "good w credit" and "live (refs (objects w)) p"
  shows "\<exists>w1. checked_AddRef I p w = Returns w1 \<and> cells w1 = cells w \<and> good w1 (change (Some p) 1 credit)"
proof (cases "p = 0")
  case True
  have "good w (change (Some p) 1 credit)" using assms(1) by (rule good_cong) (simp add: change_def True)
  with True show ?thesis by (simp add: checked_AddRef_def)
next
  case False
  with assms add_ref [of "objects w" p] obtain h where "AddRef I p (objects w) = Returns h" and "ok h"
    and "refs h = (refs (objects w))(p := refs (objects w) p + 1)" by (auto simp: good_def live_def)
  with assms False show ?thesis
    by (auto simp: checked_AddRef_def good_def credited_def change_def)
qed

lemma good_Release:
  assumes "good w credit" and "p = 0 \<or> 0 < credit p"
  shows "\<exists>w1. checked_Release I p w = Returns w1 \<and> cells w1 = cells w \<and> good w1 (change (Some p) (-1) credit)"
proof (cases "p = 0")
  case True
  have "good w (change (Some p) (-1) credit)" using assms(1) by (rule good_cong) (simp add: change_def True)
  with True show ?thesis by (simp add: checked_Release_def)
next
  case False
  with assms have pos: "0 < refs (objects w) p"
    using credited_release_pos by (auto simp: good_def)
  with assms release [of "objects w" p] obtain h where "Release I p (objects w) = Returns h" and "ok h"
    and "refs h = (refs (objects w))(p := refs (objects w) p - 1)" by (auto simp: good_def)
  with assms False pos show ?thesis
    by (auto simp: checked_Release_def good_def credited_def change_def)
qed

text \<open>An old pointer is let go of after the cell got its new content.\<close>

lemma good_replace:
  assumes "good w credit" and "cells w c = Some old" and "v \<noteq> Some old" and "old = 0 \<or> 0 \<le> credit old"
  shows "\<exists>w1. checked_Release I old (set_cell c v w) = Returns w1 \<and> good w1 (change v (-1) credit)"
proof -
  have "old = 0 \<or> 0 < change v (-1) (change (cells w c) 1 credit) old"
    using assms(2-4) by (auto simp: change_def)
  from good_Release [OF good_set_cell [OF assms(1), of c v] this] obtain w1
    where r: "checked_Release I old (set_cell c v w) = Returns w1"
      and g: "good w1 (change (Some old) (-1) (change v (-1) (change (cells w c) 1 credit)))" by blast
  have "good w1 (change v (-1) credit)"
    by (rule good_cong [OF g]) (simp add: change_def assms(2))
  with r show ?thesis by blast
qed

lemma assign_ptr_good:
  assumes good: "good w credit" and old: "cells w c = Some old" and "live (refs (objects w)) p"
    and pos: "\<And>q. 0 \<le> credit q"
  shows "\<exists>w1. CntPtr_assign_ptr I c p w = Returns w1 \<and> good w1 credit"
proof (cases "old = p")
  case False
  from good_AddRef [OF good assms(3)] obtain w1 where a: "checked_AddRef I p w = Returns w1"
    and w1: "cells w1 = cells w" and g: "good w1 (change (Some p) 1 credit)" by blast
  have c: "cells w1 c = Some old" and "Some p \<noteq> Some old" using w1 old False by simp_all
  with good_replace [OF g, of c old "Some p"] obtain w2
    where r: "checked_Release I old (set_cell c (Some p) w1) = Returns w2"
      and g2: "good w2 (change (Some p) (-1) (change (Some p) 1 credit))"
    using pos by (auto simp: change_def)
  have "good w2 credit" by (rule good_cong [OF g2]) (simp add: change_def)
  with a r old False show ?thesis by (simp add: CntPtr_assign_ptr_def m_ptr_def)
qed (use good old in \<open>simp add: CntPtr_assign_ptr_def m_ptr_def\<close>)

lemma clear_good:
  assumes good: "good w credit" and old: "cells w c = Some old" and pos: "\<And>q. 0 \<le> credit q"
  shows "\<exists>w1. CntPtr_Clear I c w = Returns w1 \<and> good w1 credit"
proof (cases "old = 0")
  case False
  with good_replace [OF good old, of "Some 0"] pos obtain w1
    where r: "checked_Release I old (set_cell c (Some 0) w) = Returns w1"
      and g: "good w1 (change (Some 0) (-1) credit)" by auto
  have "good w1 credit" by (rule good_cong [OF g]) (simp add: change_def)
  with r old False show ?thesis by (simp add: CntPtr_Clear_def m_ptr_def)
qed (use good old in \<open>simp add: CntPtr_Clear_def m_ptr_def\<close>)

lemma assign_move_good:
  assumes good: "good w credit" and old: "cells w c = Some old" and d: "cells w d = Some p"
    and pos: "\<And>q. 0 \<le> credit q"
  shows "\<exists>w1. CntPtr_assign_move I c d w = Returns w1 \<and> good w1 credit"
proof (cases "old = p")
  case False
  with old d have "c \<noteq> d" by auto
  let ?w = "set_cell d (Some 0) w"
  have g: "good ?w (change (Some 0) (-1) (change (Some p) 1 credit))"
    using good_set_cell [OF good, of d "Some 0"] d by simp
  have "cells ?w c = Some old" and comm: "set_cell c (Some p) ?w = set_cell d (Some 0) (set_cell c (Some p) w)"
    using old \<open>c \<noteq> d\<close> by (simp_all add: set_cell_def fun_upd_twist)
  moreover have "old = 0 \<or> 0 \<le> change (Some 0) (-1) (change (Some p) 1 credit) old"
    using pos [of old] by (simp add: change_def)
  ultimately obtain w1
    where r: "checked_Release I old (set_cell d (Some 0) (set_cell c (Some p) w)) = Returns w1"
      and g1: "good w1 (change (Some p) (-1) (change (Some 0) (-1) (change (Some p) 1 credit)))"
    using good_replace [OF g, of c old "Some p"] False by auto
  have "good w1 credit" by (rule good_cong [OF g1]) (simp add: change_def)
  with r old d False show ?thesis by (simp add: CntPtr_assign_move_def m_ptr_def)
qed (use good old d in \<open>simp add: CntPtr_assign_move_def m_ptr_def\<close>)

lemma ctor_ptr_good:
  assumes "good w credit" and "cells w c = None" and "live (refs (objects w)) p"
  shows "\<exists>w1. CntPtr_ctor_ptr I c p w = Returns w1 \<and> good w1 credit"
proof -
  have "live (refs (objects (set_cell c (Some p) w))) p" using assms(3) by (simp add: set_cell_def)
  from good_AddRef [OF good_set_cell [OF assms(1)] this] obtain w1
    where r: "checked_AddRef I p (set_cell c (Some p) w) = Returns w1"
      and g: "good w1 (change (Some p) 1 (change (Some p) (-1) (change (cells w c) 1 credit)))" by blast
  have "good w1 credit" by (rule good_cong [OF g]) (simp add: change_def assms(2))
  with r show ?thesis by (simp add: CntPtr_ctor_ptr_def)
qed

text \<open>Every allowed operation returns and keeps the books.\<close>

lemma exec_cnt_good:
  assumes good: "good w (\<lambda>p. int (owned p))" and allowed: "cnt_allowed (refs (objects w)) owned op w"
  shows "\<exists>w1. exec_cnt I op w = Returns w1 \<and> good w1 (\<lambda>p. int (owned_after op w owned p))"
proof (cases op)
  case (CtorNull c)
  have "good (set_cell c (Some 0) w) (\<lambda>p. int (owned p))"
    by (rule good_cong [OF good_set_cell [OF good]]) (use allowed CtorNull in \<open>simp add: change_def\<close>)
  with CtorNull show ?thesis by (simp add: CntPtr_ctor_null_def)
next
  case (CtorPtr c p)
  with ctor_ptr_good [OF good, of c p] allowed show ?thesis by simp
next
  case (CtorAttach c p)
  have "good (set_cell c (Some p) w) (\<lambda>q. int (owned_after op w owned q))"
    by (rule good_cong [OF good_set_cell [OF good]]) (use allowed CtorAttach in \<open>auto simp: change_def\<close>)
  with CtorAttach show ?thesis by (simp add: CntPtr_ctor_attach_def)
next
  case (CtorCopy c d)
  with allowed obtain p where "cells w d = Some p" and "live (refs (objects w)) p" and "cells w c = None" by auto
  with ctor_ptr_good [OF good, of c p] CtorCopy show ?thesis
    by (simp add: CntPtr_ctor_copy_def CntPtr_ctor_ptr_def m_ptr_def)
next
  case (CtorMove c d)
  with allowed obtain p where d: "cells w d = Some p" and c: "cells w c = None" by auto
  then have "cells (set_cell c (Some p) w) d = Some p" by (auto simp: set_cell_def)
  then have "good (set_cell d (Some 0) (set_cell c (Some p) w)) (\<lambda>p. int (owned p))"
    by (intro good_cong [OF good_set_cell [OF good_set_cell [OF good]]]) (simp add: change_def c)
  with CtorMove d show ?thesis by (simp add: CntPtr_ctor_move_def m_ptr_def)
next
  case (Dtor c)
  with allowed obtain p where p: "cells w c = Some p" by auto
  from good_replace [OF good p, of None] obtain w1 where "checked_Release I p (set_cell c None w) = Returns w1"
    and g: "good w1 (change None (-1) (\<lambda>p. int (owned p)))" by auto
  moreover have "good w1 (\<lambda>p. int (owned p))" by (rule good_cong [OF g]) (simp add: change_def)
  ultimately show ?thesis using Dtor p by (simp add: CntPtr_dtor_def m_ptr_def)
next
  case (AssignNull c)
  with clear_good [OF good, of c] allowed show ?thesis by (auto simp: CntPtr_Clear_def CntPtr_assign_null_def)
next
  case (AssignPtr c p)
  with assign_ptr_good [OF good, of c _ p] allowed show ?thesis by auto
next
  case (AssignCopy c d)
  with assign_ptr_good [OF good, of c] allowed show ?thesis by (auto simp: CntPtr_assign_copy_def m_ptr_def)
next
  case (AssignMove c d)
  with assign_move_good [OF good, of c _ d] allowed show ?thesis by auto
next
  case (Clear c)
  with clear_good [OF good, of c] allowed show ?thesis by auto
next
  case (Attach c p)
  with allowed obtain old where old: "cells w c = Some old" by auto
  show ?thesis
  proof (cases "old = p")
    case True
    with Attach allowed old good show ?thesis by (simp add: CntPtr_Attach_def m_ptr_def)
  next
    case False
    from good_replace [OF good old, of "Some p"] False obtain w1
      where r: "checked_Release I old (set_cell c (Some p) w) = Returns w1"
        and g: "good w1 (change (Some p) (-1) (\<lambda>p. int (owned p)))" by auto
    have "good w1 (\<lambda>q. int (owned_after op w owned q))"
      by (rule good_cong [OF g]) (use Attach allowed in \<open>auto simp: change_def\<close>)
    with r Attach old False show ?thesis by (simp add: CntPtr_Attach_def m_ptr_def)
  qed
next
  case (Detach c)
  with allowed obtain p where p: "cells w c = Some p" by auto
  have "good (set_cell c (Some 0) w) (\<lambda>q. int (owned_after op w owned q))"
    by (rule good_cong [OF good_set_cell [OF good]]) (use Detach p in \<open>auto simp: change_def\<close>)
  with Detach p show ?thesis by (simp add: CntPtr_Detach_def m_ptr_def)
next
  case (ClearAndGetAddressOf c)
  with clear_good [OF good, of c] allowed show ?thesis
    by (auto simp: CntPtr_Clear_def CntPtr_ClearAndGetAddressOf_def m_ptr_def outcome_simps)
next
  case (Swap c d)
  with allowed obtain p q where c: "cells w c = Some p" and d: "cells w d = Some q" by auto
  let ?w1 = "set_cell c (Some q) w"
  have d1: "cells ?w1 d = Some q" using d by (simp add: set_cell_def)
  have "good (set_cell d (Some p) ?w1) (\<lambda>p. int (owned p))"
    by (rule good_cong [OF good_set_cell [OF good_set_cell [OF good]]]) (simp add: change_def d1 c)
  with Swap c d show ?thesis by (simp add: CntPtr_swap_def m_ptr_def)
qed

end

end
