(* ===== verification/Counted_Ptr_Guarantees.thy ===== *)
theory Counted_Ptr_Guarantees
  imports Counted_Ptr
begin

text \<open>
  Programs over \<open>CntPtr\<close>: runs of any operations in any order, with a client that makes objects
  and holds plain references between them, and what they guarantee.
\<close>

section \<open>Runs\<close>

text \<open>
  A step is an allowed operation, or something the client does without \<open>CntPtr\<close>: any change of
  the objects that changes the count of each by as many references as the client gains or loses,
  such as making an object, which the client then owns with one reference.
\<close>

inductive cnt_reachable ::
  "'h IRefCounted \<Rightarrow> ('h \<Rightarrow> bool) \<Rightarrow> ('h \<Rightarrow> ptr \<Rightarrow> nat) \<Rightarrow> 'h cnt_world \<Rightarrow> (ptr \<Rightarrow> nat) \<Rightarrow> bool"
  for I ok refs where
  initial: "ok h \<Longrightarrow> \<forall>p. refs h p = 0 \<Longrightarrow>
     cnt_reachable I ok refs \<lparr>cells = Map.empty, objects = h\<rparr> (\<lambda>_. 0)"
| client: "cnt_reachable I ok refs w owned \<Longrightarrow> ok h \<Longrightarrow>
     \<forall>p. refs h p + owned p = refs (objects w) p + owned' p \<Longrightarrow>
     cnt_reachable I ok refs (w\<lparr>objects := h\<rparr>) owned'"
| op: "cnt_reachable I ok refs w owned \<Longrightarrow> cnt_allowed (refs (objects w)) owned op w \<Longrightarrow>
     exec_cnt I op w = Returns w1 \<Longrightarrow> cnt_reachable I ok refs w1 (owned_after op w owned)"

context ref_counted begin

lemma reachable_good: "cnt_reachable I ok refs w owned \<Longrightarrow> good w (\<lambda>p. int (owned p))"
proof (induction rule: cnt_reachable.induct)
  case (initial h)
  then show ?case by (simp add: good_def credited_def holders_def)
next
  case (client w owned h owned')
  have "int (refs h p) = int (holders (cells w) p) + int (owned' p)" if "p \<noteq> 0" for p
  proof -
    have "refs h p + owned p = refs (objects w) p + owned' p" using client.hyps(3) by blast
    moreover have "int (refs (objects w) p) = int (holders (cells w) p) + int (owned p)"
      using client.IH that by (simp add: good_def credited_def)
    ultimately show ?thesis by linarith
  qed
  with client show ?case by (simp add: good_def credited_def)
next
  case (op w owned op w1)
  with exec_cnt_good [OF op.IH op.hyps(2)] show ?case by auto
qed

lemma reachable_balanced:
  "cnt_reachable I ok refs w owned \<Longrightarrow> p \<noteq> 0 \<Longrightarrow> refs (objects w) p = holders (cells w) p + owned p"
  using reachable_good by (auto simp: good_def credited_balanced balanced_def)

lemma reachable_returns:
  "cnt_reachable I ok refs w owned \<Longrightarrow> cnt_allowed (refs (objects w)) owned op w \<Longrightarrow> returns (exec_cnt I op w)"
  using exec_cnt_good [OF reachable_good, of w owned op] by (auto simp: returns_iff)

lemma reachable_cell_live:
  assumes "cnt_reachable I ok refs w owned" and "cells w c = Some p" and "p \<noteq> 0"
  shows "0 < refs (objects w) p"
proof -
  have "finite (dom (cells w))" using reachable_good [OF assms(1)] by (simp add: good_def credited_def)
  with reachable_balanced [OF assms(1,3)] holders_pos assms(2) show ?thesis by fastforce
qed

end

section \<open>What an operation does to the objects\<close>

text \<open>The reference an operation adds and the one it gives up, null for none.\<close>

definition cell_ptr :: "'h cnt_world \<Rightarrow> nat \<Rightarrow> ptr" where
  "cell_ptr w c = (case cells w c of None \<Rightarrow> 0 | Some p \<Rightarrow> p)"

fun added_ref :: "cnt_op \<Rightarrow> 'h cnt_world \<Rightarrow> ptr" where
  "added_ref (CtorPtr c p) w = p"
| "added_ref (CtorCopy c d) w = cell_ptr w d"
| "added_ref (AssignPtr c p) w = (if cell_ptr w c = p then 0 else p)"
| "added_ref (AssignCopy c d) w = (if cell_ptr w c = cell_ptr w d then 0 else cell_ptr w d)"
| "added_ref _ w = 0"

fun dropped_ref :: "cnt_op \<Rightarrow> 'h cnt_world \<Rightarrow> ptr" where
  "dropped_ref (Dtor c) w = cell_ptr w c"
| "dropped_ref (AssignNull c) w = cell_ptr w c"
| "dropped_ref (Clear c) w = cell_ptr w c"
| "dropped_ref (ClearAndGetAddressOf c) w = cell_ptr w c"
| "dropped_ref (AssignPtr c p) w = (if cell_ptr w c = p then 0 else cell_ptr w c)"
| "dropped_ref (Attach c p) w = (if cell_ptr w c = p then 0 else cell_ptr w c)"
| "dropped_ref (AssignCopy c d) w = (if cell_ptr w c = cell_ptr w d then 0 else cell_ptr w c)"
| "dropped_ref (AssignMove c d) w = (if cell_ptr w c = cell_ptr w d then 0 else cell_ptr w c)"
| "dropped_ref _ w = 0"

definition unless_null :: "(ptr \<Rightarrow> 'h \<Rightarrow> 'h outcome) \<Rightarrow> ptr \<Rightarrow> 'h \<Rightarrow> 'h outcome" where
  "unless_null f p h = (if p = 0 then Returns h else f p h)"

lemma checked_objects:
  "checked_AddRef I p w = Returns w1 \<Longrightarrow> unless_null (AddRef I) p (objects w) = Returns (objects w1)"
  "checked_Release I p w = Returns w1 \<Longrightarrow> unless_null (Release I) p (objects w) = Returns (objects w1)"
  by (auto simp: checked_AddRef_def checked_Release_def unless_null_def outcome_simps split: if_splits)

lemma unless_null_0 [simp]: "unless_null f 0 h = Returns h"
  by (simp add: unless_null_def)

lemma m_ptr_Returns [outcome_simps]:
  "m_ptr w c k = Returns r \<longleftrightarrow> (\<exists>p. cells w c = Some p \<and> k p = Returns r)"
  by (simp add: m_ptr_def split: option.split)

lemma set_cell_objects [simp]: "objects (set_cell c v w) = objects w"
  by (simp add: set_cell_def)

lemma exec_cnt_objects:
  assumes "exec_cnt I op w = Returns w1"
  shows "and_then (unless_null (AddRef I) (added_ref op w) (objects w))
           (unless_null (Release I) (dropped_ref op w)) = Returns (objects w1)"
proof -
  note ops = CntPtr_defs m_ptr_def set_cell_def cell_ptr_def checked_AddRef_def checked_Release_def unless_null_def outcome_simps
  show ?thesis
  proof (cases op)
    case (AssignPtr c p)
    with assms obtain old where "cells w c = Some old" by (auto simp: CntPtr_assign_ptr_def outcome_simps)
    with AssignPtr assms show ?thesis by (cases w; cases "old = p") (auto simp: ops split: if_split_asm)
  next
    case (AssignCopy c d)
    with assms obtain old p where "cells w c = Some old" and "cells w d = Some p"
      by (auto simp: CntPtr_assign_copy_def CntPtr_assign_ptr_def outcome_simps)
    with AssignCopy assms show ?thesis by (cases w; cases "old = p") (auto simp: ops split: if_split_asm)
  next
    case (AssignMove c d)
    with assms obtain old p where "cells w c = Some old" and "cells w d = Some p"
      by (auto simp: CntPtr_assign_move_def outcome_simps)
    with AssignMove assms show ?thesis by (cases w; cases "old = p") (auto simp: ops split: if_split_asm)
  qed (use assms in \<open>cases w; auto simp: ops split: option.splits if_split_asm\<close>)+
qed

text \<open>Objects are deleted when their last reference goes.\<close>

definition deletes :: "counted_heap \<Rightarrow> counted_heap \<Rightarrow> bool" where
  "deletes h h1 \<longleftrightarrow> (\<exists>ps. deleted h1 = deleted h @ ps \<and> distinct ps
     \<and> set ps = {p. 0 < simple_refs h p \<and> simple_refs h1 p = 0})"

lemma AddRef_deletes_none:
  assumes "unless_null (AddRef SimpleRefCount) p h = Returns h1" and "live (simple_refs h) p"
  shows "deleted h1 = deleted h \<and> (\<forall>q. 0 < simple_refs h1 q \<longleftrightarrow> 0 < simple_refs h q)"
  using assms
  by (auto simp: unless_null_def live_def SimpleRefCount_def SimpleRefCount_AddRef_def with_count_def
      simple_refs_def inc_nonzero unat_pos split: option.splits if_splits)

lemma unat_one: "unat (n :: 32 word) = Suc 0 \<longleftrightarrow> n = 1"
  by (metis One_nat_def unat_1 unsigned_word_eqI)

lemma Release_deletes:
  assumes "unless_null (Release SimpleRefCount) p h = Returns h1" and "0 < simple_refs h p \<or> p = 0"
  shows "deletes h h1"
proof (cases "p = 0")
  case False
  with assms(2) obtain n where n: "m_refCount h p = Some n" and "n \<noteq> 0"
    by (auto simp: simple_refs_def unat_pos split: option.splits)
  have refs: "simple_refs h1 = (simple_refs h)(p := simple_refs h p - 1)"
    using simple.release [of h p] assms False by (auto simp: unless_null_def)
  have "deleted h1 = deleted h @ (if simple_refs h p = 1 then [p] else [])"
    using assms(1) n \<open>n \<noteq> 0\<close> False dec_zero [of n]
    by (auto simp: unless_null_def SimpleRefCount_def SimpleRefCount_Release_def with_count_def
        SimpleRefCount_Delete_def simple_refs_def Let_def unat_one)
  moreover have "{q. 0 < simple_refs h q \<and> simple_refs h1 q = 0} = (if simple_refs h p = 1 then {p} else {})"
    using assms(2) False by (auto simp: refs)
  ultimately show ?thesis by (auto simp: deletes_def)
qed (use assms in \<open>auto simp: deletes_def\<close>)

section \<open>The properties\<close>

text \<open>
  C26: References are counted. In every state a program with any number of \<open>CntPtr\<close> variables can
  reach, the count of an object is the number of variables that hold it plus the references the
  client owns besides; every variable that is not null points to a live object; and no operation
  used as it asks crashes, so none touches a freed object.
\<close>

theorem CntPtr_counts_references:
  assumes "cnt_reachable SimpleRefCount (\<lambda>_. True) simple_refs w owned"
  shows "(\<forall>p. p \<noteq> 0 \<longrightarrow> simple_refs (objects w) p = card {c. cells w c = Some p} + owned p)
    \<and> (\<forall>c p. cells w c = Some p \<longrightarrow> p \<noteq> 0 \<longrightarrow> m_refCount (objects w) p \<noteq> None)
    \<and> (\<forall>op. cnt_allowed (simple_refs (objects w)) owned op w \<longrightarrow> returns (exec_cnt SimpleRefCount op w))"
proof (intro conjI allI impI)
  show "simple_refs (objects w) p = card {c. cells w c = Some p} + owned p" if "p \<noteq> 0" for p
    using simple.reachable_balanced [OF assms that] by (simp add: holders_def)
  show "m_refCount (objects w) p \<noteq> None" if "cells w c = Some p" and "p \<noteq> 0" for c p
    using simple.reachable_cell_live [OF assms that] by (cases "m_refCount (objects w) p") (simp_all add: simple_refs_def)
  show "returns (exec_cnt SimpleRefCount op w)" if "cnt_allowed (simple_refs (objects w)) owned op w" for op
    by (rule simple.reachable_returns [OF assms that])
qed

text \<open>A run: two variables share an object the client makes, and both let go of it.\<close>

definition made :: "ptr \<Rightarrow> counted_heap" where
  "made p = \<lparr>m_refCount = [p \<mapsto> 1], deleted = []\<rparr>"

definition shared_world :: "counted_heap cnt_world" where
  "shared_world = \<lparr>cells = [0 \<mapsto> 4096, 1 \<mapsto> 4096], objects = \<lparr>m_refCount = [4096 \<mapsto> 2], deleted = []\<rparr>\<rparr>"

definition single_world :: "counted_heap cnt_world" where
  "single_world = \<lparr>cells = [0 \<mapsto> 4096], objects = made 4096\<rparr>"

lemmas cnt_run_simps = made_def single_world_def shared_world_def CntPtr_defs m_ptr_def set_cell_def
  checked_AddRef_def checked_Release_def SimpleRefCount_def SimpleRefCount_AddRef_def
  SimpleRefCount_Release_def SimpleRefCount_Delete_def with_count_def simple_refs_def live_def

lemma made_reachable:
  "cnt_reachable SimpleRefCount (\<lambda>_. True) simple_refs \<lparr>cells = Map.empty, objects = made 4096\<rparr> ((\<lambda>_. 0)(4096 := 1))"
  using cnt_reachable.client [OF cnt_reachable.initial, of "\<lambda>_. True" "\<lparr>m_refCount = Map.empty, deleted = []\<rparr>"
      simple_refs "made 4096" "(\<lambda>_. 0)(4096 := 1)" SimpleRefCount]
  by (simp add: cnt_run_simps)

lemma single_reachable: "cnt_reachable SimpleRefCount (\<lambda>_. True) simple_refs single_world (\<lambda>_. 0)"
  using cnt_reachable.op [OF made_reachable, of "CtorAttach 0 4096" single_world]
  by (simp add: cnt_run_simps fun_upd_def if_distrib cong: if_cong)

lemma shared_reachable: "cnt_reachable SimpleRefCount (\<lambda>_. True) simple_refs shared_world (\<lambda>_. 0)"
  using cnt_reachable.op [OF single_reachable, of "CtorCopy 1 0" shared_world]
  by (simp add: cnt_run_simps)

lemma CntPtr_counts_references_witness:
  "simple_refs (objects shared_world) 4096 = card {c. cells shared_world c = Some 4096}
    \<and> returns (exec_cnt SimpleRefCount (Dtor 0) shared_world)"
  using CntPtr_counts_references [OF shared_reachable, THEN conjunct1, rule_format, of 4096]
    CntPtr_counts_references [OF shared_reachable, THEN conjunct2, THEN conjunct2, rule_format, of "Dtor 0"]
  by (simp add: shared_world_def)

text \<open>
  An object dies with its last reference, once. Any operation on a reachable state deletes
  exactly the objects whose count was positive before and is zero after, each one time, and
  nothing else; an assignment takes its new reference before it gives up the old one.
\<close>

theorem CntPtr_deletes_with_last_reference:
  assumes "cnt_reachable SimpleRefCount (\<lambda>_. True) simple_refs w owned"
    and "cnt_allowed (simple_refs (objects w)) owned op w"
    and "exec_cnt SimpleRefCount op w = Returns w1"
  shows "\<exists>ps. deleted (objects w1) = deleted (objects w) @ ps \<and> distinct ps
    \<and> set ps = {p. 0 < simple_refs (objects w) p \<and> simple_refs (objects w1) p = 0}"
proof -
  from exec_cnt_objects [OF assms(3)] obtain h
    where add: "unless_null (AddRef SimpleRefCount) (added_ref op w) (objects w) = Returns h"
      and rel: "unless_null (Release SimpleRefCount) (dropped_ref op w) h = Returns (objects w1)"
    by (auto simp: outcome_simps)
  have "live (simple_refs (objects w)) (added_ref op w)"
    using assms(2) by (cases op) (auto simp: live_def cell_ptr_def split: option.splits)
  from AddRef_deletes_none [OF add this] have same: "deleted h = deleted (objects w)"
    "\<And>q. 0 < simple_refs h q \<longleftrightarrow> 0 < simple_refs (objects w) q" by auto
  have "dropped_ref op w = 0 \<or> (\<exists>c. cells w c = Some (dropped_ref op w))"
    by (cases op) (auto simp: cell_ptr_def split: option.splits)
  then have "0 < simple_refs h (dropped_ref op w) \<or> dropped_ref op w = 0"
    using simple.reachable_cell_live [OF assms(1)] same(2) by blast
  from Release_deletes [OF rel this] show ?thesis by (simp add: deletes_def same)
qed

lemma CntPtr_deletes_with_last_reference_witness:
  "\<exists>ps. deleted \<lparr>m_refCount = Map.empty, deleted = [4096]\<rparr> = deleted (objects single_world) @ ps \<and> distinct ps
    \<and> set ps = {p. 0 < simple_refs (objects single_world) p
        \<and> simple_refs \<lparr>m_refCount = Map.empty, deleted = [4096]\<rparr> p = 0}"
  using CntPtr_deletes_with_last_reference [OF single_reachable, of "Clear 0"
      "\<lparr>cells = [0 \<mapsto> 0], objects = \<lparr>m_refCount = Map.empty, deleted = [4096]\<rparr>\<rparr>"]
  by (simp add: cnt_run_simps)

text \<open>
  \<open>Attach\<close> of the object the variable already holds leaks. The caller hands over a
  reference it owns, the operation does nothing, and from then on the count is one more than the
  variables and the client account for, so the object is not deleted when they all let go.
\<close>

theorem Attach_same_leaks:
  assumes "cnt_reachable SimpleRefCount (\<lambda>_. True) simple_refs w owned"
    and "cells w c = Some p" and "p \<noteq> 0" and "0 < owned p"
  shows "exec_cnt SimpleRefCount (Attach c p) w = Returns w
    \<and> simple_refs (objects w) p = Suc (card {c. cells w c = Some p} + owned_after (Attach c p) w owned p)"
  using simple.reachable_balanced [OF assms(1,3)] assms(2-)
  by (simp add: CntPtr_Attach_def m_ptr_def holders_def)

lemma single_owned_reachable:
  "cnt_reachable SimpleRefCount (\<lambda>_. True) simple_refs
     \<lparr>cells = [0 \<mapsto> 4096], objects = \<lparr>m_refCount = [4096 \<mapsto> 2], deleted = []\<rparr>\<rparr> ((\<lambda>_. 0)(4096 := 1))"
  using cnt_reachable.client [OF single_reachable, of "\<lparr>m_refCount = [4096 \<mapsto> 2], deleted = []\<rparr>" "(\<lambda>_. 0)(4096 := 1)"]
  by (simp add: cnt_run_simps)

lemma Attach_same_leaks_witness:
  "exec_cnt SimpleRefCount (Attach 0 4096)
     \<lparr>cells = [0 \<mapsto> 4096], objects = \<lparr>m_refCount = [4096 \<mapsto> 2], deleted = []\<rparr>\<rparr> =
   Returns \<lparr>cells = [0 \<mapsto> 4096], objects = \<lparr>m_refCount = [4096 \<mapsto> 2], deleted = []\<rparr>\<rparr>"
  using Attach_same_leaks [OF single_owned_reachable, of 0 4096] by simp

end
