(* ===== verification/Future_Ref.thy ===== *)
theory Future_Ref
  imports Counted_Ptr_Guarantees Future_State
begin

text \<open>
  The lifetime of futures (\<open>libs/future/src/futureImpl.cpp\<close>): the counters of \<open>FutureWeakRef\<close> in
  front of a future, the strong count of \<open>FutureImpl\<close>, weak pointers to futures, and the
  \<open>FutureCallback\<close> a future posts, which keeps it alive.
\<close>

section \<open>\<open>FutureWeakRef\<close>\<close>

text \<open>
  The counters by their address, the start of the memory of a future; the futures whose destructor
  ran, and the memory that was given back, in order.
\<close>

record future_heap =
  futureWeakRefs :: "ptr \<Rightarrow> weak_ref option"
  destructed :: "ptr list"
  deallocated :: "ptr list"

definition with_ref :: "future_heap \<Rightarrow> ptr \<Rightarrow> (weak_ref \<Rightarrow> 'b outcome) \<Rightarrow> 'b outcome" where
  "with_ref h r k = (case futureWeakRefs h r of None \<Rightarrow> Crashes DanglingPointer | Some b \<Rightarrow> k b)"

definition set_ref :: "ptr \<Rightarrow> weak_ref option \<Rightarrow> future_heap \<Rightarrow> future_heap" where
  "set_ref r b h = h\<lparr>futureWeakRefs := (futureWeakRefs h)(r := b)\<rparr>"

definition FutureWeakRef_new :: weak_ref where
  "FutureWeakRef_new = \<lparr>w_refCount = 1, w_weakRefCount = 1\<rparr>"

definition FutureWeakRef_AddRef :: "ptr \<Rightarrow> future_heap \<Rightarrow> future_heap outcome" where
  "FutureWeakRef_AddRef r h = with_ref h r (\<lambda>b.
     Returns (set_ref r (Some (b\<lparr>w_refCount := w_refCount b + 1\<rparr>)) h))"

definition FutureWeakRef_Release :: "ptr \<Rightarrow> future_heap \<Rightarrow> (bool \<times> future_heap) outcome" where
  "FutureWeakRef_Release r h = with_ref h r (\<lambda>b.
     let refCount = w_refCount b - 1
     in Returns (refCount = 0, set_ref r (Some (b\<lparr>w_refCount := refCount\<rparr>)) h))"

definition FutureWeakRef_AddWeakRef :: "ptr \<Rightarrow> future_heap \<Rightarrow> future_heap outcome" where
  "FutureWeakRef_AddWeakRef r h = with_ref h r (\<lambda>b.
     Returns (set_ref r (Some (b\<lparr>w_weakRefCount := w_weakRefCount b + 1\<rparr>)) h))"

definition FutureWeakRef_ReleaseWeakRef :: "ptr \<Rightarrow> future_heap \<Rightarrow> future_heap outcome" where
  "FutureWeakRef_ReleaseWeakRef r h = with_ref h r (\<lambda>b.
     let weakRefCount = w_weakRefCount b - 1; h1 = set_ref r (Some (b\<lparr>w_weakRefCount := weakRefCount\<rparr>)) h
     in Returns (if weakRefCount = 0 then (set_ref r None h1)\<lparr>deallocated := deallocated h @ [r]\<rparr> else h1))"

definition FutureWeakRef_IsExpired :: "ptr \<Rightarrow> future_heap \<Rightarrow> bool outcome" where
  "FutureWeakRef_IsExpired r h = with_ref h r (\<lambda>b. Returns (w_refCount b = 0))"

definition FutureWeakRef_IncrementRefCountIfNotZero :: "ptr \<Rightarrow> future_heap \<Rightarrow> (bool \<times> future_heap) outcome" where
  "FutureWeakRef_IncrementRefCountIfNotZero r h = with_ref h r (\<lambda>b.
     let count = w_refCount b
     in if count = 0 then Returns (False, h)
        else Returns (True, set_ref r (Some (b\<lparr>w_refCount := count + 1\<rparr>)) h))"

definition GetFutureWeakRef :: "ptr \<Rightarrow> ptr" where
  "GetFutureWeakRef p = p - ObjectAlignment"

section \<open>\<open>FutureImpl\<close>\<close>

definition FutureImpl_AddRef :: "ptr \<Rightarrow> future_heap \<Rightarrow> future_heap outcome" where
  "FutureImpl_AddRef p = FutureWeakRef_AddRef (GetFutureWeakRef p)"

definition FutureImpl_Release :: "ptr \<Rightarrow> future_heap \<Rightarrow> future_heap outcome" where
  "FutureImpl_Release p h =
     (let weakRef = GetFutureWeakRef p
      in and_then (FutureWeakRef_Release weakRef h) (\<lambda>(shouldDestroy, h1).
           if shouldDestroy
           then FutureWeakRef_ReleaseWeakRef weakRef (h1\<lparr>destructed := destructed h1 @ [p]\<rparr>)
           else Returns h1))"

definition future_strong :: "future_heap IRefCounted" where
  "future_strong = \<lparr>AddRef = FutureImpl_AddRef, Release = FutureImpl_Release\<rparr>"

definition future_weak :: "future_heap IRefCounted" where
  "future_weak = \<lparr>AddRef = (\<lambda>p. FutureWeakRef_AddWeakRef (GetFutureWeakRef p)),
                  Release = (\<lambda>p. FutureWeakRef_ReleaseWeakRef (GetFutureWeakRef p))\<rparr>"

definition future_refs :: "future_heap \<Rightarrow> ptr \<Rightarrow> nat" where
  "future_refs h p = (case futureWeakRefs h (GetFutureWeakRef p) of None \<Rightarrow> 0 | Some b \<Rightarrow> unat (w_refCount b))"

definition future_weaks :: "future_heap \<Rightarrow> ptr \<Rightarrow> nat" where
  "future_weaks h p = (case futureWeakRefs h (GetFutureWeakRef p) of None \<Rightarrow> 0
     | Some b \<Rightarrow> unat (w_weakRefCount b) - of_bool (w_refCount b \<noteq> 0))"

definition future_heap_ok :: "future_heap \<Rightarrow> bool" where
  "future_heap_ok h \<longleftrightarrow> (\<forall>r b. futureWeakRefs h r = Some b \<longrightarrow> w_weakRefCount b \<noteq> 0)"

lemmas future_ref_ops = future_strong_def future_weak_def FutureWeakRef_AddRef_def FutureWeakRef_Release_def
  FutureWeakRef_AddWeakRef_def FutureWeakRef_ReleaseWeakRef_def FutureWeakRef_IsExpired_def
  FutureWeakRef_IncrementRefCountIfNotZero_def FutureImpl_AddRef_def FutureImpl_Release_def with_ref_def set_ref_def
  Let_def

lemma GetFutureWeakRef_inj [simp]: "GetFutureWeakRef p = GetFutureWeakRef q \<longleftrightarrow> p = q"
  by (simp add: GetFutureWeakRef_def)

interpretation future: weak_counted future_strong future_heap_ok future_refs future_weak future_weaks
  "\<lambda>p. FutureWeakRef_IncrementRefCountIfNotZero (GetFutureWeakRef p)"
  "\<lambda>p. FutureWeakRef_IsExpired (GetFutureWeakRef p)" "\<lambda>p h. Returns p"
proof unfold_locales
  fix h p h'
  assume ok: "future_heap_ok h"
  note defs = future_ref_ops future_refs_def future_weaks_def future_heap_ok_def fun_eq_iff
  show "\<exists>h'. AddRef future_strong p h = Returns h' \<and> future_heap_ok h' \<and> future_refs h' = (future_refs h)(p := future_refs h p + 1)"
    if "0 < future_refs h p" and "future_refs h p < 2 ^ 32 - 2"
    using ok that by (auto simp: defs unat_inc split: option.splits)
  show "\<exists>h'. Release future_strong p h = Returns h' \<and> future_heap_ok h' \<and> future_refs h' = (future_refs h)(p := future_refs h p - 1)"
    if "0 < future_refs h p"
    using ok that by (auto simp: defs unat_dec unat_pos split: option.splits)
  show "future_weaks h' = future_weaks h" if "0 < future_refs h p" and "future_refs h p < 2 ^ 32 - 1"
    and "AddRef future_strong p h = Returns h'"
    using ok that by (auto simp: defs inc_nonzero unat_pos split: option.splits if_splits)
  show "future_weaks h' = future_weaks h" if "0 < future_refs h p" and "Release future_strong p h = Returns h'"
    using ok that by (auto simp: defs unat_dec unat_pos split: option.splits if_splits)
  show "\<exists>h'. AddRef future_weak p h = Returns h' \<and> future_heap_ok h' \<and> future_refs h' = future_refs h
      \<and> future_weaks h' = (future_weaks h)(p := future_weaks h p + 1)"
    if "0 < future_weaks h p + future_refs h p" and "future_weaks h p < 2 ^ 32 - 2"
    using ok that by (auto simp: defs unat_inc inc_nonzero unat_pos split: option.splits if_splits)
  show "\<exists>h'. Release future_weak p h = Returns h' \<and> future_heap_ok h' \<and> future_refs h' = future_refs h
      \<and> future_weaks h' = (future_weaks h)(p := future_weaks h p - 1)"
    if "0 < future_weaks h p"
    using ok that by (auto simp: defs unat_dec unat_pos split: option.splits if_splits)
  show "\<exists>h'. FutureWeakRef_IncrementRefCountIfNotZero (GetFutureWeakRef p) h = Returns (0 < future_refs h p, h')
      \<and> future_heap_ok h' \<and> future_weaks h' = future_weaks h
      \<and> future_refs h' = (if 0 < future_refs h p then (future_refs h)(p := future_refs h p + 1) else future_refs h)"
    if "0 < future_weaks h p" and "future_refs h p < 2 ^ 32 - 1"
    using ok that by (auto simp: defs unat_inc inc_nonzero unat_pos split: option.splits if_splits)
  show "FutureWeakRef_IsExpired (GetFutureWeakRef p) h = Returns (future_refs h p = 0)" if "0 < future_weaks h p"
    using that by (auto simp: defs unat_0_iff split: option.splits)
qed simp

section \<open>\<open>FutureWeakPtrBase\<close>\<close>

text \<open>
  The \<open>m_ptr\<close> fields of the variables of type \<open>WeakPtr<Future<T>>\<close> are the cells. \<open>GetFuture\<close>
  gives its caller the future with the reference it made.
\<close>

type_synonym future_weak_world = "future_heap cnt_world"

definition FutureWeakPtr_CheckedAddWeakRef :: "ptr \<Rightarrow> future_weak_world \<Rightarrow> future_weak_world outcome" where
  "FutureWeakPtr_CheckedAddWeakRef p w =
     (if p \<noteq> 0 then and_then (FutureWeakRef_AddWeakRef (GetFutureWeakRef p) (objects w)) (\<lambda>h. Returns (w\<lparr>objects := h\<rparr>))
      else Returns w)"

definition FutureWeakPtr_CheckedReleaseWeakRef :: "ptr \<Rightarrow> future_weak_world \<Rightarrow> future_weak_world outcome" where
  "FutureWeakPtr_CheckedReleaseWeakRef p w =
     (if p \<noteq> 0 then and_then (FutureWeakRef_ReleaseWeakRef (GetFutureWeakRef p) (objects w)) (\<lambda>h. Returns (w\<lparr>objects := h\<rparr>))
      else Returns w)"

definition FutureWeakPtr_ctor_null :: "nat \<Rightarrow> future_weak_world \<Rightarrow> future_weak_world outcome" where
  "FutureWeakPtr_ctor_null c w = Returns (set_cell c (Some 0) w)"

definition FutureWeakPtr_ctor :: "nat \<Rightarrow> ptr \<Rightarrow> bool \<Rightarrow> future_weak_world \<Rightarrow> future_weak_world outcome" where
  "FutureWeakPtr_ctor c p shouldAddWeakRef w =
     (let w1 = set_cell c (Some p) w
      in if shouldAddWeakRef then FutureWeakPtr_CheckedAddWeakRef p w1 else Returns w1)"

definition FutureWeakPtr_dtor :: "nat \<Rightarrow> future_weak_world \<Rightarrow> future_weak_world outcome" where
  "FutureWeakPtr_dtor c w = m_ptr w c (\<lambda>p. FutureWeakPtr_CheckedReleaseWeakRef p (set_cell c None w))"

definition FutureWeakPtr_Reset :: "nat \<Rightarrow> future_weak_world \<Rightarrow> future_weak_world outcome" where
  "FutureWeakPtr_Reset c w = m_ptr w c (\<lambda>p. FutureWeakPtr_CheckedReleaseWeakRef p (set_cell c (Some 0) w))"

definition FutureWeakPtr_IsEmpty :: "nat \<Rightarrow> future_weak_world \<Rightarrow> bool outcome" where
  "FutureWeakPtr_IsEmpty c w = m_ptr w c (\<lambda>p. Returns (p = 0))"

definition FutureWeakPtr_IsExpired :: "nat \<Rightarrow> future_weak_world \<Rightarrow> bool outcome" where
  "FutureWeakPtr_IsExpired c w = m_ptr w c (\<lambda>p.
     if p = 0 then Returns True else FutureWeakRef_IsExpired (GetFutureWeakRef p) (objects w))"

definition FutureWeakPtr_Assign :: "nat \<Rightarrow> ptr \<Rightarrow> future_weak_world \<Rightarrow> future_weak_world outcome" where
  "FutureWeakPtr_Assign c from w = m_ptr w c (\<lambda>p.
     if p \<noteq> from
     then and_then (FutureWeakPtr_CheckedAddWeakRef from (set_cell c (Some from) w))
            (FutureWeakPtr_CheckedReleaseWeakRef p)
     else Returns w)"

definition FutureWeakPtr_Attach :: "nat \<Rightarrow> nat \<Rightarrow> future_weak_world \<Rightarrow> future_weak_world outcome" where
  "FutureWeakPtr_Attach c other w = m_ptr w c (\<lambda>p. m_ptr w other (\<lambda>q.
     if p \<noteq> q
     then FutureWeakPtr_CheckedReleaseWeakRef p (set_cell other (Some 0) (set_cell c (Some q) w))
     else Returns w))"

definition FutureWeakPtr_IncrementRefCountIfNotZero :: "ptr \<Rightarrow> future_weak_world \<Rightarrow> (bool \<times> future_weak_world) outcome" where
  "FutureWeakPtr_IncrementRefCountIfNotZero p w =
     (if p \<noteq> 0
      then and_then (FutureWeakRef_IncrementRefCountIfNotZero (GetFutureWeakRef p) (objects w))
             (\<lambda>(b, h). Returns (b, w\<lparr>objects := h\<rparr>))
      else Returns (False, w))"

text \<open>\<open>WeakPtr<Future<T>>\<close>.\<close>

definition FutureWeakPtr_ctor_copy :: "nat \<Rightarrow> nat \<Rightarrow> future_weak_world \<Rightarrow> future_weak_world outcome" where
  "FutureWeakPtr_ctor_copy c other w = m_ptr w other (\<lambda>p. FutureWeakPtr_ctor c p True w)"

definition FutureWeakPtr_ctor_move :: "nat \<Rightarrow> nat \<Rightarrow> future_weak_world \<Rightarrow> future_weak_world outcome" where
  "FutureWeakPtr_ctor_move c other w = m_ptr w other (\<lambda>p.
     and_then (FutureWeakPtr_ctor c p False w) (\<lambda>w1. Returns (set_cell other (Some 0) w1)))"

definition FutureWeakPtr_assign_copy :: "nat \<Rightarrow> nat \<Rightarrow> future_weak_world \<Rightarrow> future_weak_world outcome" where
  "FutureWeakPtr_assign_copy c other w = m_ptr w other (\<lambda>p. FutureWeakPtr_Assign c p w)"

definition FutureWeakPtr_GetFuture :: "nat \<Rightarrow> future_weak_world \<Rightarrow> (ptr \<times> future_weak_world) outcome" where
  "FutureWeakPtr_GetFuture c w = m_ptr w c (\<lambda>p.
     and_then (FutureWeakPtr_IncrementRefCountIfNotZero p w) (\<lambda>(b, w1). Returns (if b then p else 0, w1)))"

definition FutureWeakPtr_Swap :: "nat \<Rightarrow> nat \<Rightarrow> future_weak_world \<Rightarrow> future_weak_world outcome" where
  "FutureWeakPtr_Swap c other w = m_ptr w c (\<lambda>p. m_ptr w other (\<lambda>q.
     Returns (set_cell other (Some p) (set_cell c (Some q) w))))"

text \<open>The operations by the names of those of counted pointers.\<close>

fun exec_future_weak :: "cnt_op \<Rightarrow> future_weak_world \<Rightarrow> future_weak_world outcome" where
  "exec_future_weak (CtorNull c) w = FutureWeakPtr_ctor_null c w"
| "exec_future_weak (CtorPtr c p) w = FutureWeakPtr_ctor c p True w"
| "exec_future_weak (CtorAttach c p) w = FutureWeakPtr_ctor c p False w"
| "exec_future_weak (CtorCopy c d) w = FutureWeakPtr_ctor_copy c d w"
| "exec_future_weak (CtorMove c d) w = FutureWeakPtr_ctor_move c d w"
| "exec_future_weak (Dtor c) w = FutureWeakPtr_dtor c w"
| "exec_future_weak (AssignNull c) w = FutureWeakPtr_Reset c w"
| "exec_future_weak (AssignPtr c p) w = FutureWeakPtr_Assign c p w"
| "exec_future_weak (AssignCopy c d) w = FutureWeakPtr_assign_copy c d w"
| "exec_future_weak (AssignMove c d) w = FutureWeakPtr_Attach c d w"
| "exec_future_weak (Clear c) w = FutureWeakPtr_Reset c w"
| "exec_future_weak (Swap c d) w = FutureWeakPtr_Swap c d w"
| "exec_future_weak _ w = Returns w"

end
