(* ===== verification/Future_Callback.thy ===== *)
theory Future_Callback
  imports Future_Ref
begin

text \<open>
  \<open>FutureCallback\<close> (\<open>libs/future/src/futureImpl.cpp\<close>): the function object a future with a
  \<open>TaskPost\<close> gives to its executor, placed in the memory of the future. It has a count of its own,
  holds the future while it lives, and completes the future when it is called, or when nobody did.
\<close>

section \<open>State\<close>

record future_callback =
  cb_refCount :: "32 word"
  m_isCalled :: bool

text \<open>
  What the callback does to its future beyond the counts is recorded: \<open>CallInvoke\<close> for
  \<open>FutureImpl::Invoke\<close>, \<open>CallCancel\<close> for \<open>TrySetError\<close> with a cancellation error.
\<close>

datatype completion = CallInvoke ptr | CallCancel ptr

record callback_world =
  futures :: future_heap
  callbacks :: "ptr \<Rightarrow> future_callback option"
  completions :: "completion list"

definition with_callback :: "callback_world \<Rightarrow> ptr \<Rightarrow> (future_callback \<Rightarrow> 'b outcome) \<Rightarrow> 'b outcome" where
  "with_callback w p k = (case callbacks w p of None \<Rightarrow> Crashes DanglingPointer | Some b \<Rightarrow> k b)"

definition set_callback :: "ptr \<Rightarrow> future_callback option \<Rightarrow> callback_world \<Rightarrow> callback_world" where
  "set_callback p b w = w\<lparr>callbacks := (callbacks w)(p := b)\<rparr>"

definition completes :: "completion \<Rightarrow> callback_world \<Rightarrow> callback_world" where
  "completes x w = w\<lparr>completions := completions w @ [x]\<rparr>"

definition on_future :: "(future_heap \<Rightarrow> future_heap outcome) \<Rightarrow> callback_world \<Rightarrow> callback_world outcome" where
  "on_future f w = and_then (f (futures w)) (\<lambda>h. Returns (w\<lparr>futures := h\<rparr>))"

section \<open>Operations\<close>

definition FutureCallback_ctor :: "ptr \<Rightarrow> ptr \<Rightarrow> callback_world \<Rightarrow> callback_world outcome" where
  "FutureCallback_ctor sz this w =
     on_future (FutureImpl_AddRef (GetFutureImpl sz this))
       (set_callback this (Some \<lparr>cb_refCount = 1, m_isCalled = False\<rparr>) w)"

definition FutureCallback_dtor :: "ptr \<Rightarrow> ptr \<Rightarrow> callback_world \<Rightarrow> callback_world outcome" where
  "FutureCallback_dtor sz this w = with_callback w this (\<lambda>b.
     let w1 = (if \<not> m_isCalled b then completes (CallCancel (GetFutureImpl sz this)) w else w)
     in Returns (set_callback this None w1))"

definition FutureCallback_Invoke :: "ptr \<Rightarrow> ptr \<Rightarrow> callback_world \<Rightarrow> callback_world outcome" where
  "FutureCallback_Invoke sz this w = with_callback w this (\<lambda>b.
     let w1 = set_callback this (Some (b\<lparr>m_isCalled := True\<rparr>)) w
     in and_then (verify_else_crash (\<not> m_isCalled b) ''FutureCallback is called twice'') (\<lambda>_.
          Returns (completes (CallInvoke (GetFutureImpl sz this)) w1)))"

definition FutureCallback_OnCancel :: "ptr \<Rightarrow> ptr \<Rightarrow> callback_world \<Rightarrow> callback_world outcome" where
  "FutureCallback_OnCancel sz this w = with_callback w this (\<lambda>b.
     let w1 = set_callback this (Some (b\<lparr>m_isCalled := True\<rparr>)) w
     in and_then (verify_else_crash (\<not> m_isCalled b) ''FutureCallback is called twice'') (\<lambda>_.
          Returns (completes (CallCancel (GetFutureImpl sz this)) w1)))"

definition FutureCallback_AddRef :: "ptr \<Rightarrow> callback_world \<Rightarrow> callback_world outcome" where
  "FutureCallback_AddRef this w = with_callback w this (\<lambda>b.
     Returns (set_callback this (Some (b\<lparr>cb_refCount := cb_refCount b + 1\<rparr>)) w))"

definition FutureCallback_Release :: "ptr \<Rightarrow> ptr \<Rightarrow> callback_world \<Rightarrow> callback_world outcome" where
  "FutureCallback_Release sz this w = with_callback w this (\<lambda>b.
     let refCount = cb_refCount b - 1; w1 = set_callback this (Some (b\<lparr>cb_refCount := refCount\<rparr>)) w
     in if refCount = 0
        then and_then (FutureCallback_dtor sz this w1) (on_future (FutureImpl_Release (GetFutureImpl sz this)))
        else Returns w1)"

section \<open>Runs of one callback\<close>

datatype callback_op = CbInvoke | CbOnCancel | CbAddRef | CbRelease

fun exec_callback :: "ptr \<Rightarrow> ptr \<Rightarrow> callback_op \<Rightarrow> callback_world \<Rightarrow> callback_world outcome" where
  "exec_callback sz this CbInvoke w = FutureCallback_Invoke sz this w"
| "exec_callback sz this CbOnCancel w = FutureCallback_OnCancel sz this w"
| "exec_callback sz this CbAddRef w = FutureCallback_AddRef this w"
| "exec_callback sz this CbRelease w = FutureCallback_Release sz this w"

fun run_callback :: "ptr \<Rightarrow> ptr \<Rightarrow> callback_op list \<Rightarrow> callback_world \<Rightarrow> callback_world outcome" where
  "run_callback sz this [] w = Returns w"
| "run_callback sz this (x # xs) w = and_then (exec_callback sz this x w) (run_callback sz this xs)"

text \<open>The references to the callback left after some operations; the first one is made with it.\<close>

fun refs_left :: "nat \<Rightarrow> callback_op list \<Rightarrow> nat" where
  "refs_left n [] = n"
| "refs_left n (CbAddRef # xs) = refs_left (Suc n) xs"
| "refs_left n (CbRelease # xs) = refs_left (n - 1) xs"
| "refs_left n (_ # xs) = refs_left n xs"

text \<open>
  How the owners of references use a callback: nobody touches it without one, and their number
  fits in its 32 bits.
\<close>

fun proper_use :: "nat \<Rightarrow> callback_op list \<Rightarrow> bool" where
  "proper_use n [] \<longleftrightarrow> True"
| "proper_use n (CbAddRef # xs) \<longleftrightarrow> 0 < n \<and> n < 2 ^ 32 - 1 \<and> proper_use (Suc n) xs"
| "proper_use n (CbRelease # xs) \<longleftrightarrow> 0 < n \<and> proper_use (n - 1) xs"
| "proper_use n (_ # xs) \<longleftrightarrow> 0 < n \<and> proper_use n xs"

fun calls :: "callback_op list \<Rightarrow> nat" where
  "calls [] = 0"
| "calls (CbInvoke # xs) = Suc (calls xs)"
| "calls (CbOnCancel # xs) = Suc (calls xs)"
| "calls (_ # xs) = calls xs"

section \<open>A callback completes its future once\<close>

text \<open>
  A callback in use, with its count and whether it was called, and the reference it holds on the
  future; after its last reference went, there is nothing left to use.
\<close>

definition in_use :: "ptr \<Rightarrow> ptr \<Rightarrow> callback_world \<Rightarrow> nat \<Rightarrow> bool \<Rightarrow> bool" where
  "in_use sz this w n called \<longleftrightarrow> future_heap_ok (futures w) \<and>
     (if n = 0 then callbacks w this = None
      else 0 < future_refs (futures w) (GetFutureImpl sz this) \<and>
        (\<exists>b. callbacks w this = Some b \<and> unat (cb_refCount b) = n \<and> m_isCalled b = called))"

definition completion_of :: "callback_op \<Rightarrow> ptr \<Rightarrow> completion list" where
  "completion_of x p = (case x of CbInvoke \<Rightarrow> [CallInvoke p] | CbOnCancel \<Rightarrow> [CallCancel p] | _ \<Rightarrow> [])"

lemma last_release:
  assumes "in_use sz this w (Suc 0) called"
  shows "\<exists>w1. FutureCallback_Release sz this w = Returns w1 \<and> in_use sz this w1 0 called
    \<and> completions w1 = completions w @ (if called then [] else [CallCancel (GetFutureImpl sz this)])
    \<and> future_refs (futures w1) = (future_refs (futures w))(GetFutureImpl sz this := future_refs (futures w) (GetFutureImpl sz this) - 1)"
proof -
  let ?p = "GetFutureImpl sz this"
  from assms obtain b where b: "callbacks w this = Some b" "unat (cb_refCount b) = 1" "m_isCalled b = called"
    and "future_heap_ok (futures w)" and "0 < future_refs (futures w) ?p" by (auto simp: in_use_def)
  with future.release [of "futures w" ?p] obtain h where "FutureImpl_Release ?p (futures w) = Returns h"
    and "future_heap_ok h" and "future_refs h = (future_refs (futures w))(?p := future_refs (futures w) ?p - 1)"
    by (auto simp: future_strong_def)
  moreover have "cb_refCount b - 1 = 0" using b(2) by (simp add: unat_one)
  ultimately show ?thesis using b(1,3)
    by (simp add: FutureCallback_Release_def FutureCallback_dtor_def with_callback_def set_callback_def completes_def
        on_future_def in_use_def Let_def)
qed

lemma other_op:
  assumes "in_use sz this w n called" and "0 < n" and "x = CbRelease \<Longrightarrow> 1 < n" and "x = CbAddRef \<Longrightarrow> n < 2 ^ 32 - 1"
    and "x \<in> {CbInvoke, CbOnCancel} \<Longrightarrow> \<not> called"
  shows "\<exists>w1. exec_callback sz this x w = Returns w1 \<and> in_use sz this w1 (refs_left n [x]) (called \<or> x \<in> {CbInvoke, CbOnCancel})
    \<and> completions w1 = completions w @ completion_of x (GetFutureImpl sz this) \<and> futures w1 = futures w"
proof -
  from assms(1,2) obtain b where b: "callbacks w this = Some b" "unat (cb_refCount b) = n" "m_isCalled b = called"
    and "future_heap_ok (futures w)" and "0 < future_refs (futures w) (GetFutureImpl sz this)" by (auto simp: in_use_def)
  moreover have "x = CbAddRef \<Longrightarrow> unat (cb_refCount b + 1) = Suc n" using unat_inc [of "cb_refCount b"] assms(4) b by simp
  moreover have "x = CbRelease \<Longrightarrow> unat (cb_refCount b - 1) = n - 1" using unat_dec [of "cb_refCount b"] assms(3) b by simp
  ultimately show ?thesis using assms(2-5)
    by (cases x) (auto simp: FutureCallback_Invoke_def FutureCallback_OnCancel_def FutureCallback_AddRef_def
        FutureCallback_Release_def with_callback_def set_callback_def completes_def in_use_def completion_of_def Let_def)
qed

text \<open>
  The completion a run makes: that of the call, if there was one, or a cancellation with the last
  reference. \<open>called\<close> tells whether the callback had been called before.
\<close>

definition completion_due :: "ptr \<Rightarrow> bool \<Rightarrow> nat \<Rightarrow> callback_op list \<Rightarrow> completion list" where
  "completion_due p called n xs =
     (if called then []
      else if CbInvoke \<in> set xs then [CallInvoke p]
      else if CbOnCancel \<in> set xs then [CallCancel p]
      else if n = 0 then [CallCancel p] else [])"

definition run_result :: "ptr \<Rightarrow> callback_world \<Rightarrow> nat \<Rightarrow> callback_op list \<Rightarrow> bool \<Rightarrow> callback_world \<Rightarrow> bool" where
  "run_result p w n xs called w1 \<longleftrightarrow>
     completions w1 = completions w @ completion_due p called n xs
     \<and> future_refs (futures w1) = (if n = 0 then (future_refs (futures w))(p := future_refs (futures w) p - 1)
          else future_refs (futures w))"

lemma calls_0: "calls xs = 0 \<longleftrightarrow> CbInvoke \<notin> set xs \<and> CbOnCancel \<notin> set xs"
  by (induction xs rule: calls.induct) auto

lemma completion_due_Cons:
  assumes "calls (x # xs) + of_bool called \<le> 1"
  shows "completion_of x p @ completion_due p (called \<or> x \<in> {CbInvoke, CbOnCancel}) n xs
    = completion_due p called n (x # xs)"
  using assms calls_0 [of xs]
  by (cases x; cases called) (auto simp: completion_of_def completion_due_def)

lemma run_dead: "proper_use 0 xs \<Longrightarrow> xs = []"
  by (cases "(0 :: nat, xs)" rule: proper_use.cases) auto

lemma run_completes:
  assumes "in_use sz this w n called" and "0 < n" and "proper_use n xs" and "calls xs + of_bool called \<le> 1"
  shows "\<exists>w1. run_callback sz this xs w = Returns w1 \<and> in_use sz this w1 (refs_left n xs) (called \<or> 0 < calls xs)
    \<and> run_result (GetFutureImpl sz this) w (refs_left n xs) xs called w1"
  using assms
proof (induction xs arbitrary: w n called)
  case Nil
  then show ?case by (auto simp: run_result_def completion_due_def)
next
  case (Cons x xs)
  let ?p = "GetFutureImpl sz this"
  show ?case
  proof (cases "x = CbRelease \<and> n = 1")
    case True
    with Cons.prems have "xs = []" using run_dead by simp
    moreover from True Cons.prems(1) have "in_use sz this w (Suc 0) called" by simp
    ultimately show ?thesis using last_release [of sz this w called] True
      by (auto simp: run_result_def completion_due_def)
  next
    case False
    let ?called = "called \<or> x \<in> {CbInvoke, CbOnCancel}"
    from False Cons.prems have "\<exists>w1. exec_callback sz this x w = Returns w1 \<and> in_use sz this w1 (refs_left n [x]) ?called
        \<and> completions w1 = completions w @ completion_of x ?p \<and> futures w1 = futures w"
      by (intro other_op) (cases x; simp)+
    then obtain w1 where w1: "exec_callback sz this x w = Returns w1" "in_use sz this w1 (refs_left n [x]) ?called"
        "completions w1 = completions w @ completion_of x ?p" "futures w1 = futures w" by blast
    have left: "refs_left n (x # xs) = refs_left (refs_left n [x]) xs"
      and pos: "0 < refs_left n [x]" and use: "proper_use (refs_left n [x]) xs"
      and count: "calls (x # xs) + of_bool called = calls xs + of_bool ?called"
      using Cons.prems False by (cases x; auto)+
    from Cons.IH [OF w1(2) pos use] Cons.prems(4) count obtain w2
      where w2: "run_callback sz this xs w1 = Returns w2" "in_use sz this w2 (refs_left n (x # xs)) (?called \<or> 0 < calls xs)"
        "run_result ?p w1 (refs_left n (x # xs)) xs ?called w2"
      unfolding left by auto
    have "(?called \<or> 0 < calls xs) = (called \<or> 0 < calls (x # xs))" by (cases x) auto
    moreover have "run_result ?p w (refs_left n (x # xs)) (x # xs) called w2"
      using w2(3) w1(3,4) completion_due_Cons [OF Cons.prems(4), of ?p "refs_left n (x # xs)"]
      by (simp add: run_result_def)
    ultimately show ?thesis using w1(1) w2(1,2) by auto
  qed
qed

lemma run_called_twice:
  assumes "in_use sz this w n called" and "0 < n" and "proper_use n xs" and "1 < calls xs + of_bool called"
  shows "run_callback sz this xs w = Crashes (VerifyElseCrash ''FutureCallback is called twice'')"
  using assms
proof (induction xs arbitrary: w n called)
  case Nil
  then show ?case by (cases called) auto
next
  case (Cons x xs)
  let ?called = "called \<or> x \<in> {CbInvoke, CbOnCancel}"
  show ?case
  proof (cases "called \<and> x \<in> {CbInvoke, CbOnCancel}")
    case True
    with Cons.prems show ?thesis
      by (auto simp: in_use_def FutureCallback_Invoke_def FutureCallback_OnCancel_def with_callback_def Let_def)
  next
    case False
    have "\<not> (x = CbRelease \<and> n = 1)"
    proof
      assume "x = CbRelease \<and> n = 1"
      with Cons.prems have "xs = []" using run_dead by simp
      with \<open>x = CbRelease \<and> n = 1\<close> Cons.prems show False by (cases called) auto
    qed
    with False Cons.prems have "\<exists>w1. exec_callback sz this x w = Returns w1 \<and> in_use sz this w1 (refs_left n [x]) ?called
        \<and> completions w1 = completions w @ completion_of x (GetFutureImpl sz this) \<and> futures w1 = futures w"
      by (intro other_op) (cases x; auto)+
    then obtain w1 where w1: "exec_callback sz this x w = Returns w1" "in_use sz this w1 (refs_left n [x]) ?called" by blast
    moreover have "0 < refs_left n [x]" and "proper_use (refs_left n [x]) xs" and "1 < calls xs + of_bool ?called"
      using Cons.prems False \<open>\<not> (x = CbRelease \<and> n = 1)\<close> by (cases x; auto)+
    ultimately show ?thesis using Cons.IH by simp
  qed
qed

text \<open>
  C25: A posted future is completed once by its callback. However the executor and the cancellation
  tokens share and call the \<open>FutureCallback\<close>, as long as they use it only while they hold a
  reference: two calls crash the process; with at most one, the run returns; a call of \<open>Invoke\<close>
  invokes the future, one of \<open>OnCancel\<close> cancels it, and it is cancelled when the last reference
  goes without a call; nothing else happens to it; and the reference the callback holds on the future is given back exactly then.
\<close>

theorem FutureCallback_completes_once:
  assumes "future_heap_ok (futures w)" and "0 < future_refs (futures w) p" and "future_refs (futures w) p < 2 ^ 32 - 2"
    and "p = GetFutureImpl sz this" and "proper_use 1 xs"
  shows "(1 < calls xs \<longrightarrow> and_then (FutureCallback_ctor sz this w) (run_callback sz this xs)
        = Crashes (VerifyElseCrash ''FutureCallback is called twice''))
    \<and> (calls xs \<le> 1 \<longrightarrow> (\<exists>w1. and_then (FutureCallback_ctor sz this w) (run_callback sz this xs) = Returns w1
        \<and> completions w1 = completions w
            @ (if CbInvoke \<in> set xs then [CallInvoke p] else if CbOnCancel \<in> set xs then [CallCancel p]
               else if refs_left 1 xs = 0 then [CallCancel p] else [])
        \<and> future_refs (futures w1) p = future_refs (futures w) p + (if refs_left 1 xs = 0 then 0 else 1)))"
proof -
  from future.add_ref [OF assms(1-3)] obtain h where h: "FutureImpl_AddRef p (futures w) = Returns h" "future_heap_ok h"
    "future_refs h = (future_refs (futures w))(p := future_refs (futures w) p + 1)" by (auto simp: future_strong_def)
  let ?w = "set_callback this (Some \<lparr>cb_refCount = 1, m_isCalled = False\<rparr>) w\<lparr>futures := h\<rparr>"
  have c: "FutureCallback_ctor sz this w = Returns ?w"
    using h(1) assms(4) by (simp add: FutureCallback_ctor_def on_future_def set_callback_def)
  have u: "in_use sz this ?w 1 False" using h assms(4) by (simp add: in_use_def set_callback_def)
  show ?thesis
  proof (intro conjI impI)
    assume "1 < calls xs"
    with run_called_twice [OF u] assms(5) c show "and_then (FutureCallback_ctor sz this w) (run_callback sz this xs)
        = Crashes (VerifyElseCrash ''FutureCallback is called twice'')" by simp
  next
    assume "calls xs \<le> 1"
    with run_completes [OF u] assms(5) obtain w1 where w1: "run_callback sz this xs ?w = Returns w1"
      "run_result p ?w (refs_left 1 xs) xs False w1" using assms(4) by auto
    from w1(2) have "completions w1 = completions w @ completion_due p False (refs_left 1 xs) xs"
      by (simp add: run_result_def set_callback_def)
    moreover have "future_refs (futures w1) p = future_refs (futures w) p + (if refs_left 1 xs = 0 then 0 else 1)"
      using w1(2) h(3) by (simp add: run_result_def)
    ultimately show "\<exists>w1. and_then (FutureCallback_ctor sz this w) (run_callback sz this xs) = Returns w1
        \<and> completions w1 = completions w
            @ (if CbInvoke \<in> set xs then [CallInvoke p] else if CbOnCancel \<in> set xs then [CallCancel p]
               else if refs_left 1 xs = 0 then [CallCancel p] else [])
        \<and> future_refs (futures w1) p = future_refs (futures w) p + (if refs_left 1 xs = 0 then 0 else 1)"
      using c w1(1) by (auto simp: completion_due_def)
  qed
qed

definition posting_world :: callback_world where
  "posting_world = \<lparr>futures = \<lparr>futureWeakRefs = [8 \<mapsto> FutureWeakRef_new], destructed = [], deallocated = []\<rparr>,
     callbacks = Map.empty, completions = []\<rparr>"

lemma FutureCallback_completes_once_witness:
  "\<exists>w1. and_then (FutureCallback_ctor 64 80 posting_world) (run_callback 64 80 [CbAddRef, CbRelease, CbRelease]) = Returns w1
    \<and> completions w1 = [CallCancel 16] \<and> future_refs (futures w1) 16 = 1"
proof -
  note defs = posting_world_def future_heap_ok_def future_refs_def GetFutureWeakRef_def ObjectAlignment_def
    FutureWeakRef_new_def
  have ok: "future_heap_ok (futures posting_world)" and r: "future_refs (futures posting_world) 16 = 1" by (simp_all add: defs)
  let ?xs = "[CbAddRef, CbRelease, CbRelease]"
  have "0 < future_refs (futures posting_world) 16" and "future_refs (futures posting_world) 16 < 2 ^ 32 - 2"
    and p: "16 = GetFutureImpl 64 80" and "proper_use 1 ?xs" by (simp_all add: r GetFutureImpl_def)
  from FutureCallback_completes_once [OF ok this] obtain w1
    where "and_then (FutureCallback_ctor 64 80 posting_world) (run_callback 64 80 ?xs) = Returns w1"
      and "completions w1 = completions posting_world @ [CallCancel 16]" and "future_refs (futures w1) 16 = 1"
    by (auto simp: r simp del: run_callback.simps)
  moreover have "completions posting_world = []" by (simp add: posting_world_def)
  ultimately show ?thesis by (intro exI [of _ w1]) (simp del: run_callback.simps)
qed

end
