(* ===== verification/Weak_Ptr.thy ===== *)
theory Weak_Ptr
  imports Counted_Ptr
begin

text \<open>
  \<open>Mso::WeakPtr\<close> (\<open>libs/object/include/object/weakPtr.h\<close>): a pointer to an object and one to its
  counters, with a weak reference to the counters. The overloads for \<open>CntPtr\<close> and for a derived
  class do what the ones for a plain pointer do.
\<close>

section \<open>State\<close>

text \<open>
  The \<open>m_weakRef\<close> fields of the variables of type \<open>WeakPtr\<close> are the cells of a world of counted
  pointers, counted by the weak counts; \<open>w_ptr\<close> has the \<open>m_ptr\<close> fields.
\<close>

record 'h weak_world =
  w_ptr :: "nat \<Rightarrow> ptr"
  w_refs :: "'h cnt_world"

definition weak_fields :: "'h weak_world \<Rightarrow> nat \<Rightarrow> (ptr \<Rightarrow> ptr \<Rightarrow> 'b outcome) \<Rightarrow> 'b outcome" where
  "weak_fields w c k = m_ptr (w_refs w) c (\<lambda>r. k (w_ptr w c) r)"

definition set_weak :: "nat \<Rightarrow> ptr \<Rightarrow> ptr \<Rightarrow> 'h weak_world \<Rightarrow> 'h weak_world" where
  "set_weak c p r w = \<lparr>w_ptr = (w_ptr w)(c := p), w_refs = set_cell c (Some r) (w_refs w)\<rparr>"

definition CheckedAddWeakRef :: "'h IRefCounted \<Rightarrow> ptr \<Rightarrow> 'h weak_world \<Rightarrow> 'h weak_world outcome" where
  "CheckedAddWeakRef W r w = and_then (checked_AddRef W r (w_refs w)) (\<lambda>c. Returns (w\<lparr>w_refs := c\<rparr>))"

definition CheckedReleaseWeakRef :: "'h IRefCounted \<Rightarrow> ptr \<Rightarrow> 'h weak_world \<Rightarrow> 'h weak_world outcome" where
  "CheckedReleaseWeakRef W r w = and_then (checked_Release W r (w_refs w)) (\<lambda>c. Returns (w\<lparr>w_refs := c\<rparr>))"

text \<open>The counters of an object, by its \<open>GetWeakRef\<close> method.\<close>

definition GetWeakRefCore :: "(ptr \<Rightarrow> 'h \<Rightarrow> ptr outcome) \<Rightarrow> ptr \<Rightarrow> 'h weak_world \<Rightarrow> ptr outcome" where
  "GetWeakRefCore G from w =
     (if from \<noteq> 0
      then and_then (G from (objects (w_refs w))) (\<lambda>result.
             and_then (verify_else_crash (result \<noteq> 0) ''GetWeakRef() returned null'') (\<lambda>_. Returns result))
      else Returns 0)"

section \<open>\<open>WeakPtrBase\<close>\<close>

definition WeakPtrBase_ctor_null :: "nat \<Rightarrow> 'h weak_world \<Rightarrow> 'h weak_world outcome" where
  "WeakPtrBase_ctor_null c w = Returns (set_weak c 0 0 w)"

definition WeakPtrBase_ctor :: "'h IRefCounted \<Rightarrow> nat \<Rightarrow> ptr \<Rightarrow> ptr \<Rightarrow> 'h weak_world \<Rightarrow> 'h weak_world outcome" where
  "WeakPtrBase_ctor W c p r w =
     (let m_weakRef = (if p \<noteq> 0 then r else 0) in CheckedAddWeakRef W m_weakRef (set_weak c p m_weakRef w))"

definition WeakPtrBase_ctor_attach :: "nat \<Rightarrow> ptr \<Rightarrow> ptr \<Rightarrow> 'h weak_world \<Rightarrow> 'h weak_world outcome" where
  "WeakPtrBase_ctor_attach c p r w = Returns (set_weak c p r w)"

definition WeakPtrBase_dtor :: "'h IRefCounted \<Rightarrow> nat \<Rightarrow> 'h weak_world \<Rightarrow> 'h weak_world outcome" where
  "WeakPtrBase_dtor W c w = weak_fields w c (\<lambda>_ r.
     and_then (CheckedReleaseWeakRef W r w) (\<lambda>w1. Returns (w1\<lparr>w_refs := set_cell c None (w_refs w1)\<rparr>)))"

definition WeakPtrBase_Reset :: "'h IRefCounted \<Rightarrow> nat \<Rightarrow> 'h weak_world \<Rightarrow> 'h weak_world outcome" where
  "WeakPtrBase_Reset W c w = weak_fields w c (\<lambda>_ r.
     and_then (CheckedReleaseWeakRef W r w) (\<lambda>w1. Returns (set_weak c 0 0 w1)))"

definition WeakPtrBase_Assign :: "'h IRefCounted \<Rightarrow> nat \<Rightarrow> ptr \<Rightarrow> ptr \<Rightarrow> 'h weak_world \<Rightarrow> 'h weak_world outcome" where
  "WeakPtrBase_Assign W c p r w = weak_fields w c (\<lambda>_ old.
     and_then (CheckedReleaseWeakRef W old w) (\<lambda>w1. CheckedAddWeakRef W r (set_weak c p r w1)))"

definition WeakPtrBase_Assign_attach ::
  "'h IRefCounted \<Rightarrow> nat \<Rightarrow> ptr \<Rightarrow> ptr \<Rightarrow> 'h weak_world \<Rightarrow> 'h weak_world outcome" where
  "WeakPtrBase_Assign_attach W c p r w = weak_fields w c (\<lambda>_ old.
     and_then (CheckedReleaseWeakRef W old w) (\<lambda>w1. Returns (set_weak c p r w1)))"

definition WeakPtrBase_IsEmpty :: "nat \<Rightarrow> 'h weak_world \<Rightarrow> bool outcome" where
  "WeakPtrBase_IsEmpty c w = weak_fields w c (\<lambda>p _. Returns (p = 0))"

definition WeakPtrBase_IsExpired :: "(ptr \<Rightarrow> 'h \<Rightarrow> bool outcome) \<Rightarrow> nat \<Rightarrow> 'h weak_world \<Rightarrow> bool outcome" where
  "WeakPtrBase_IsExpired E c w = weak_fields w c (\<lambda>p r.
     if p = 0 then Returns True else E r (objects (w_refs w)))"

definition WeakPtrBase_IncrementRefCountIfNotZero ::
  "(ptr \<Rightarrow> 'h \<Rightarrow> (bool \<times> 'h) outcome) \<Rightarrow> nat \<Rightarrow> 'h weak_world \<Rightarrow> (bool \<times> 'h weak_world) outcome" where
  "WeakPtrBase_IncrementRefCountIfNotZero U c w = weak_fields w c (\<lambda>_ r.
     if r \<noteq> 0
     then and_then (U r (objects (w_refs w))) (\<lambda>(b, h). Returns (b, w\<lparr>w_refs := (w_refs w)\<lparr>objects := h\<rparr>\<rparr>))
     else Returns (False, w))"

section \<open>\<open>WeakPtr\<close>\<close>

definition WeakPtr_ctor_ptr ::
  "'h IRefCounted \<Rightarrow> (ptr \<Rightarrow> 'h \<Rightarrow> ptr outcome) \<Rightarrow> nat \<Rightarrow> ptr \<Rightarrow> 'h weak_world \<Rightarrow> 'h weak_world outcome" where
  "WeakPtr_ctor_ptr W G c from w = and_then (GetWeakRefCore G from w) (\<lambda>r. WeakPtrBase_ctor W c from r w)"

definition WeakPtr_ctor_copy :: "'h IRefCounted \<Rightarrow> nat \<Rightarrow> nat \<Rightarrow> 'h weak_world \<Rightarrow> 'h weak_world outcome" where
  "WeakPtr_ctor_copy W c other w = weak_fields w other (\<lambda>p r. WeakPtrBase_ctor W c p r w)"

definition WeakPtr_ctor_move :: "nat \<Rightarrow> nat \<Rightarrow> 'h weak_world \<Rightarrow> 'h weak_world outcome" where
  "WeakPtr_ctor_move c other w = weak_fields w other (\<lambda>p r.
     and_then (WeakPtrBase_ctor_attach c p r w) (\<lambda>w1. Returns (set_weak other 0 0 w1)))"

definition WeakPtr_assign_ptr ::
  "'h IRefCounted \<Rightarrow> (ptr \<Rightarrow> 'h \<Rightarrow> ptr outcome) \<Rightarrow> nat \<Rightarrow> ptr \<Rightarrow> 'h weak_world \<Rightarrow> 'h weak_world outcome" where
  "WeakPtr_assign_ptr W G c from w = weak_fields w c (\<lambda>p _.
     if p \<noteq> from then and_then (GetWeakRefCore G from w) (\<lambda>r. WeakPtrBase_Assign W c from r w)
     else Returns w)"

definition WeakPtr_assign_copy :: "'h IRefCounted \<Rightarrow> nat \<Rightarrow> nat \<Rightarrow> 'h weak_world \<Rightarrow> 'h weak_world outcome" where
  "WeakPtr_assign_copy W c other w = weak_fields w c (\<lambda>p _. weak_fields w other (\<lambda>q r.
     if p \<noteq> q then WeakPtrBase_Assign W c q r w else Returns w))"

definition WeakPtr_assign_move :: "'h IRefCounted \<Rightarrow> nat \<Rightarrow> nat \<Rightarrow> 'h weak_world \<Rightarrow> 'h weak_world outcome" where
  "WeakPtr_assign_move W c other w = weak_fields w c (\<lambda>p _. weak_fields w other (\<lambda>q r.
     if p \<noteq> q
     then and_then (WeakPtrBase_Assign_attach W c q r w) (\<lambda>w1. Returns (set_weak other 0 0 w1))
     else Returns w))"

definition WeakPtr_GetStrongPtr ::
  "(ptr \<Rightarrow> 'h \<Rightarrow> (bool \<times> 'h) outcome) \<Rightarrow> nat \<Rightarrow> 'h weak_world \<Rightarrow> (ptr \<times> 'h weak_world) outcome" where
  "WeakPtr_GetStrongPtr U c w = weak_fields w c (\<lambda>p _.
     and_then (WeakPtrBase_IncrementRefCountIfNotZero U c w) (\<lambda>(b, w1). Returns (if b then p else 0, w1)))"

definition WeakPtr_Swap :: "nat \<Rightarrow> nat \<Rightarrow> 'h weak_world \<Rightarrow> 'h weak_world outcome" where
  "WeakPtr_Swap c other w = weak_fields w c (\<lambda>p r. weak_fields w other (\<lambda>q s.
     Returns (set_weak other p r (set_weak c q s w))))"

definition WeakPtr_equal :: "nat \<Rightarrow> nat \<Rightarrow> 'h weak_world \<Rightarrow> bool outcome" where
  "WeakPtr_equal left right w = weak_fields w left (\<lambda>p _. weak_fields w right (\<lambda>q _. Returns (p = q)))"

lemmas WeakPtr_defs = WeakPtrBase_ctor_null_def WeakPtrBase_ctor_def WeakPtrBase_ctor_attach_def
  WeakPtrBase_dtor_def WeakPtrBase_Reset_def WeakPtrBase_Assign_def WeakPtrBase_Assign_attach_def
  WeakPtr_ctor_ptr_def WeakPtr_ctor_copy_def WeakPtr_ctor_move_def WeakPtr_assign_ptr_def
  WeakPtr_assign_copy_def WeakPtr_assign_move_def WeakPtr_Swap_def WeakPtrBase_IncrementRefCountIfNotZero_def
  WeakPtr_GetStrongPtr_def weak_fields_def m_ptr_def

section \<open>Programs\<close>

datatype weak_op =
    WCtorNull nat | WCtorPtr nat ptr | WCtorCopy nat nat | WCtorMove nat nat | WDtor nat | WReset nat
  | WAssignPtr nat ptr | WAssignCopy nat nat | WAssignMove nat nat | WSwap nat nat

fun exec_weak ::
  "'h IRefCounted \<Rightarrow> (ptr \<Rightarrow> 'h \<Rightarrow> ptr outcome) \<Rightarrow> weak_op \<Rightarrow> 'h weak_world \<Rightarrow> 'h weak_world outcome" where
  "exec_weak W G (WCtorNull c) w = WeakPtrBase_ctor_null c w"
| "exec_weak W G (WCtorPtr c p) w = WeakPtr_ctor_ptr W G c p w"
| "exec_weak W G (WCtorCopy c d) w = WeakPtr_ctor_copy W c d w"
| "exec_weak W G (WCtorMove c d) w = WeakPtr_ctor_move c d w"
| "exec_weak W G (WDtor c) w = WeakPtrBase_dtor W c w"
| "exec_weak W G (WReset c) w = WeakPtrBase_Reset W c w"
| "exec_weak W G (WAssignPtr c p) w = WeakPtr_assign_ptr W G c p w"
| "exec_weak W G (WAssignCopy c d) w = WeakPtr_assign_copy W c d w"
| "exec_weak W G (WAssignMove c d) w = WeakPtr_assign_move W c d w"
| "exec_weak W G (WSwap c d) w = WeakPtr_Swap c d w"

text \<open>
  What the operations ask of their caller: a plain pointer is null or points to an object that is
  alive; constructors get a fresh cell, everything else a constructed one; a weak count stays
  below the top of its 32 bits.
\<close>

definition weak_live :: "(ptr \<Rightarrow> nat) \<Rightarrow> (ptr \<Rightarrow> nat) \<Rightarrow> ptr \<Rightarrow> bool" where
  "weak_live refs weaks p \<longleftrightarrow> p = 0 \<or> 0 < weaks p + refs p \<and> weaks p < 2 ^ 32 - 2"

definition built :: "'h weak_world \<Rightarrow> nat \<Rightarrow> bool" where
  "built w c \<longleftrightarrow> cells (w_refs w) c \<noteq> None"

fun weak_allowed :: "(ptr \<Rightarrow> nat) \<Rightarrow> (ptr \<Rightarrow> nat) \<Rightarrow> weak_op \<Rightarrow> 'h weak_world \<Rightarrow> bool" where
  "weak_allowed refs weaks (WCtorNull c) w \<longleftrightarrow> \<not> built w c"
| "weak_allowed refs weaks (WCtorPtr c p) w \<longleftrightarrow> \<not> built w c \<and> weak_live refs weaks p \<and> (p = 0 \<or> 0 < refs p)"
| "weak_allowed refs weaks (WCtorCopy c d) w \<longleftrightarrow> \<not> built w c \<and> built w d \<and> weak_live refs weaks (w_ptr w d)"
| "weak_allowed refs weaks (WCtorMove c d) w \<longleftrightarrow> \<not> built w c \<and> built w d"
| "weak_allowed refs weaks (WDtor c) w \<longleftrightarrow> built w c"
| "weak_allowed refs weaks (WReset c) w \<longleftrightarrow> built w c"
| "weak_allowed refs weaks (WAssignPtr c p) w \<longleftrightarrow> built w c \<and> weak_live refs weaks p \<and> (p = 0 \<or> 0 < refs p)"
| "weak_allowed refs weaks (WAssignCopy c d) w \<longleftrightarrow> built w c \<and> built w d \<and> weak_live refs weaks (w_ptr w d)"
| "weak_allowed refs weaks (WAssignMove c d) w \<longleftrightarrow> built w c \<and> built w d"
| "weak_allowed refs weaks (WSwap c d) w \<longleftrightarrow> built w c \<and> built w d"

end
