(* ===== verification/Weak_Ptr_Guarantees.thy ===== *)
theory Weak_Ptr_Guarantees
  imports Weak_Ptr
begin

text \<open>
  Programs over \<open>WeakPtr\<close>: any operations in any order, with a client that makes objects and
  takes and gives up strong references between them, and what they guarantee.
\<close>

section \<open>Runs\<close>

text \<open>
  A step is an allowed operation, a \<open>GetStrongPtr\<close>, or something the client does with strong
  references: any change of the objects that leaves the weak counts alone and does not bring back
  to life an object that is gone while weak references to it are left.
\<close>

abbreviation heap_of :: "'h weak_world \<Rightarrow> 'h" where
  "heap_of w \<equiv> objects (w_refs w)"

inductive weak_step ::
  "'h IRefCounted \<Rightarrow> (ptr \<Rightarrow> 'h \<Rightarrow> (bool \<times> 'h) outcome) \<Rightarrow> (ptr \<Rightarrow> 'h \<Rightarrow> ptr outcome) \<Rightarrow> ('h \<Rightarrow> bool) \<Rightarrow>
   ('h \<Rightarrow> ptr \<Rightarrow> nat) \<Rightarrow> ('h \<Rightarrow> ptr \<Rightarrow> nat) \<Rightarrow> 'h weak_world \<Rightarrow> 'h weak_world \<Rightarrow> bool"
  for W U G ok refs weaks where
  client: "ok h \<Longrightarrow> weaks h = weaks (heap_of w) \<Longrightarrow>
     \<forall>p. 0 < weaks h p \<longrightarrow> refs (heap_of w) p = 0 \<longrightarrow> refs h p = 0 \<Longrightarrow>
     weak_step W U G ok refs weaks w (w\<lparr>w_refs := (w_refs w)\<lparr>objects := h\<rparr>\<rparr>)"
| op: "weak_allowed (refs (heap_of w)) (weaks (heap_of w)) op w \<Longrightarrow> exec_weak W G op w = Returns w1 \<Longrightarrow>
     weak_step W U G ok refs weaks w w1"
| get_strong: "built w c \<Longrightarrow> refs (heap_of w) (w_ptr w c) < 2 ^ 32 - 1 \<Longrightarrow>
     WeakPtr_GetStrongPtr U c w = Returns (p, w1) \<Longrightarrow> weak_step W U G ok refs weaks w w1"

inductive weak_reachable ::
  "'h IRefCounted \<Rightarrow> (ptr \<Rightarrow> 'h \<Rightarrow> (bool \<times> 'h) outcome) \<Rightarrow> (ptr \<Rightarrow> 'h \<Rightarrow> ptr outcome) \<Rightarrow> ('h \<Rightarrow> bool) \<Rightarrow>
   ('h \<Rightarrow> ptr \<Rightarrow> nat) \<Rightarrow> ('h \<Rightarrow> ptr \<Rightarrow> nat) \<Rightarrow> 'h weak_world \<Rightarrow> bool"
  for W U G ok refs weaks where
  initial: "ok h \<Longrightarrow> \<forall>p. refs h p = 0 \<and> weaks h p = 0 \<Longrightarrow>
     weak_reachable W U G ok refs weaks \<lparr>w_ptr = (\<lambda>_. 0), w_refs = \<lparr>cells = Map.empty, objects = h\<rparr>\<rparr>"
| step: "weak_reachable W U G ok refs weaks w \<Longrightarrow> weak_step W U G ok refs weaks w w1 \<Longrightarrow>
     weak_reachable W U G ok refs weaks w1"

section \<open>The weak counts balance\<close>

text \<open>The two fields of a variable point to the same thing: counters have the address of the object.\<close>

definition agrees :: "(nat \<Rightarrow> ptr) \<Rightarrow> (nat \<Rightarrow> ptr option) \<Rightarrow> bool" where
  "agrees f cs \<longleftrightarrow> (\<forall>c r. cs c = Some r \<longrightarrow> f c = r)"

lemma agrees_upd [simp]: "agrees f cs \<Longrightarrow> agrees (f(c := p)) (cs(c \<mapsto> p))"
  and agrees_None [simp]: "agrees f cs \<Longrightarrow> agrees f (cs(c := None))"
  by (simp_all add: agrees_def)

definition alive :: "('h \<Rightarrow> ptr \<Rightarrow> nat) \<Rightarrow> 'h weak_world \<Rightarrow> ptr \<Rightarrow> bool" where
  "alive refs w p \<longleftrightarrow> p \<noteq> 0 \<and> 0 < refs (heap_of w) p"

context weak_counted begin

definition tidy :: "'h weak_world \<Rightarrow> bool" where
  "tidy w \<longleftrightarrow> weak.good (w_refs w) (\<lambda>_. 0) \<and> agrees (w_ptr w) (cells (w_refs w))"

lemma tidy_ok: "tidy w \<Longrightarrow> ok (heap_of w)"
  by (simp add: tidy_def weak.good_def)

lemma tidy_weaks: "tidy w \<Longrightarrow> p \<noteq> 0 \<Longrightarrow> weaks (heap_of w) p = holders (cells (w_refs w)) p"
  by (auto simp: tidy_def weak.good_def credited_def)

lemma tidy_held: "tidy w \<Longrightarrow> cells (w_refs w) c = Some r \<Longrightarrow> r = 0 \<or> 0 < weaks (heap_of w) r"
  using holders_pos [of "cells (w_refs w)" c r] by (auto simp: tidy_weaks tidy_def weak.good_def credited_def)

lemma built_fields: "tidy w \<Longrightarrow> built w c \<Longrightarrow> cells (w_refs w) c = Some (w_ptr w c)"
  by (auto simp: tidy_def built_def agrees_def)

lemma release_step:
  assumes good: "weak.good v credit" and "r = 0 \<or> 0 < weaks (objects v) r"
  shows "\<exists>v1. checked_Release W r v = Returns v1 \<and> cells v1 = cells v \<and> refs (objects v1) = refs (objects v)
    \<and> (\<forall>q. q \<noteq> r \<longrightarrow> weaks (objects v1) q = weaks (objects v) q) \<and> weak.good v1 (change (Some r) (-1) credit)"
proof (cases "r = 0")
  case True
  have "weak.good v (change (Some r) (-1) credit)"
    by (rule weak.good_cong [OF good]) (simp add: change_def True)
  with True show ?thesis by (simp add: checked_Release_def)
next
  case False
  with assms release_weak [of "objects v" r] obtain h where "Release W r (objects v) = Returns h" and "ok h"
    and "refs h = refs (objects v)" and "weaks h = (weaks (objects v))(r := weaks (objects v) r - 1)"
    by (auto simp: weak.good_def)
  with assms False show ?thesis
    by (auto simp: checked_Release_def weak.good_def credited_def change_def)
qed

lemma add_step:
  assumes good: "weak.good v credit" and "weak_live (refs (objects v)) (weaks (objects v)) r"
  shows "\<exists>v1. checked_AddRef W r v = Returns v1 \<and> cells v1 = cells v \<and> refs (objects v1) = refs (objects v)
    \<and> weak.good v1 (change (Some r) 1 credit)"
proof (cases "r = 0")
  case True
  have "weak.good v (change (Some r) 1 credit)"
    by (rule weak.good_cong [OF good]) (simp add: change_def True)
  with True show ?thesis by (simp add: checked_AddRef_def)
next
  case False
  with assms add_weak [of "objects v" r] obtain h where "AddRef W r (objects v) = Returns h" and "ok h"
    and "refs h = refs (objects v)" and "weaks h = (weaks (objects v))(r := weaks (objects v) r + 1)"
    by (auto simp: weak.good_def weak_live_def)
  with assms False show ?thesis
    by (auto simp: checked_AddRef_def weak.good_def credited_def change_def)
qed

text \<open>
  Every operation ends in a tidy state and leaves the strong counts alone.
\<close>

abbreviation keeps :: "'h weak_world outcome \<Rightarrow> 'h weak_world \<Rightarrow> bool" where
  "keeps m w \<equiv> (\<exists>w1. m = Returns w1 \<and> tidy w1 \<and> refs (heap_of w1) = refs (heap_of w))"

lemmas weak_op_simps = CheckedAddWeakRef_def CheckedReleaseWeakRef_def set_weak_def weak_fields_def m_ptr_def

lemma good_set: "weak.good v credit \<Longrightarrow> (\<And>q. q \<noteq> 0 \<Longrightarrow> change x (-1) (change (cells v c) 1 credit) q = credit' q) \<Longrightarrow>
    weak.good (set_cell c x v) credit'"
  by (rule weak.good_cong [OF weak.good_set_cell])

lemma set_cell_cells: "cells (set_cell c x v) = (cells v)(c := x)"
  and set_cell_objects [simp]: "objects (set_cell c x v) = objects v"
  by (simp_all add: set_cell_def)

lemma ctor_keeps:
  assumes tidy: "tidy w" and new: "\<not> built w c" and live: "weak_live (refs (heap_of w)) (weaks (heap_of w)) p"
  shows "keeps (WeakPtrBase_ctor W c p p w) w"
proof -
  let ?v = "set_cell c (Some p) (w_refs w)"
  have "weak.good ?v (change (Some p) (-1) (\<lambda>_. 0))"
    using tidy new by (intro good_set [of _ "\<lambda>_. 0"]) (auto simp: tidy_def built_def change_def)
  moreover have "weak_live (refs (objects ?v)) (weaks (objects ?v)) p" using live by simp
  ultimately obtain v1 where v1: "checked_AddRef W p ?v = Returns v1" "cells v1 = cells ?v"
      "refs (objects v1) = refs (heap_of w)" and g: "weak.good v1 (change (Some p) 1 (change (Some p) (-1) (\<lambda>_. 0)))"
    using add_step [of ?v] by auto
  have "weak.good v1 (\<lambda>_. 0)" by (rule weak.good_cong [OF g]) (simp add: change_def)
  with v1 tidy show ?thesis
    by (cases "p = 0") (simp_all add: WeakPtrBase_ctor_def Let_def weak_op_simps tidy_def set_cell_cells)
qed

lemma reset_keeps:
  assumes tidy: "tidy w" and "built w c"
  shows "keeps (WeakPtrBase_Reset W c w) w" and "keeps (WeakPtrBase_dtor W c w) w"
proof -
  note c = built_fields [OF assms]
  have "weak.good (w_refs w) (\<lambda>_. 0)" using tidy by (simp add: tidy_def)
  from release_step [OF this tidy_held [OF tidy c]] obtain v1
    where v1: "checked_Release W (w_ptr w c) (w_refs w) = Returns v1" "cells v1 = cells (w_refs w)"
      "refs (objects v1) = refs (heap_of w)" and g: "weak.good v1 (change (Some (w_ptr w c)) (-1) (\<lambda>_. 0))" by blast
  have "weak.good (set_cell c (Some 0) v1) (\<lambda>_. 0)" and "weak.good (set_cell c None v1) (\<lambda>_. 0)"
    by (rule good_set [OF g], simp add: change_def v1 c)+
  with v1 tidy c show "keeps (WeakPtrBase_Reset W c w) w" and "keeps (WeakPtrBase_dtor W c w) w"
    by (simp_all add: WeakPtrBase_Reset_def WeakPtrBase_dtor_def weak_op_simps tidy_def set_cell_cells)
qed

lemma assign_keeps:
  assumes tidy: "tidy w" and "built w c" and other: "w_ptr w c \<noteq> p"
    and live: "weak_live (refs (heap_of w)) (weaks (heap_of w)) p"
  shows "keeps (WeakPtrBase_Assign W c p p w) w"
proof -
  note c = built_fields [OF assms(1,2)]
  have "weak.good (w_refs w) (\<lambda>_. 0)" using tidy by (simp add: tidy_def)
  from release_step [OF this tidy_held [OF tidy c]] other obtain v1
    where v1: "checked_Release W (w_ptr w c) (w_refs w) = Returns v1" "cells v1 = cells (w_refs w)"
      "refs (objects v1) = refs (heap_of w)" and p: "weaks (objects v1) p = weaks (heap_of w) p"
      and g: "weak.good v1 (change (Some (w_ptr w c)) (-1) (\<lambda>_. 0))" by auto
  let ?v = "set_cell c (Some p) v1"
  have "weak.good ?v (change (Some p) (-1) (\<lambda>_. 0))"
    by (rule good_set [OF g]) (simp add: change_def v1 c)
  moreover have "weak_live (refs (objects ?v)) (weaks (objects ?v)) p" using live p v1 by (simp add: weak_live_def)
  ultimately obtain v2 where v2: "checked_AddRef W p ?v = Returns v2" "cells v2 = cells ?v"
      "refs (objects v2) = refs (heap_of w)" and g2: "weak.good v2 (change (Some p) 1 (change (Some p) (-1) (\<lambda>_. 0)))"
    using add_step [of ?v] v1 by auto
  have "weak.good v2 (\<lambda>_. 0)" by (rule weak.good_cong [OF g2]) (simp add: change_def)
  with v1 v2 tidy c show ?thesis
    by (simp add: WeakPtrBase_Assign_def weak_op_simps tidy_def set_cell_cells)
qed

lemma assign_move_keeps:
  assumes tidy: "tidy w" and "built w c" and "built w d"
  shows "keeps (WeakPtr_assign_move W c d w) w"
proof (cases "w_ptr w c = w_ptr w d")
  case True
  with tidy built_fields [OF tidy] assms(2,3) show ?thesis by (simp add: WeakPtr_assign_move_def weak_op_simps)
next
  case False
  note c = built_fields [OF assms(1,2)] and d = built_fields [OF assms(1,3)]
  have "weak.good (w_refs w) (\<lambda>_. 0)" using tidy by (simp add: tidy_def)
  from release_step [OF this tidy_held [OF tidy c]] obtain v1
    where v1: "checked_Release W (w_ptr w c) (w_refs w) = Returns v1" "cells v1 = cells (w_refs w)"
      "refs (objects v1) = refs (heap_of w)" and g: "weak.good v1 (change (Some (w_ptr w c)) (-1) (\<lambda>_. 0))" by blast
  from False have "c \<noteq> d" by auto
  have "weak.good (set_cell c (Some (w_ptr w d)) v1) (change (Some (w_ptr w d)) (-1) (\<lambda>_. 0))"
    by (rule good_set [OF g]) (simp add: change_def v1 c)
  then have "weak.good (set_cell d (Some 0) (set_cell c (Some (w_ptr w d)) v1)) (\<lambda>_. 0)"
    by (rule good_set) (use \<open>c \<noteq> d\<close> in \<open>auto simp: change_def set_cell_cells v1 d\<close>)
  with v1 tidy c d False show ?thesis
    by (simp add: WeakPtr_assign_move_def WeakPtrBase_Assign_attach_def weak_op_simps tidy_def set_cell_cells)
qed

lemma move_swap_keeps:
  assumes tidy: "tidy w" and "built w d"
  shows "\<not> built w c \<Longrightarrow> keeps (WeakPtr_ctor_move c d w) w" and "built w c \<Longrightarrow> keeps (WeakPtr_Swap c d w) w"
proof -
  have g0: "weak.good (w_refs w) (\<lambda>_. 0)" using tidy by (simp add: tidy_def)
  note d = built_fields [OF tidy \<open>built w d\<close>]
  show "keeps (WeakPtr_ctor_move c d w) w" if "\<not> built w c"
  proof -
    from that d have "c \<noteq> d" and "cells (w_refs w) c = None" by (auto simp: built_def)
    then have "weak.good (set_cell c (Some (w_ptr w d)) (w_refs w)) (change (Some (w_ptr w d)) (-1) (\<lambda>_. 0))"
      by (intro good_set [OF g0]) (simp add: change_def)
    then have "weak.good (set_cell d (Some 0) (set_cell c (Some (w_ptr w d)) (w_refs w))) (\<lambda>_. 0)"
      by (rule good_set) (use \<open>c \<noteq> d\<close> in \<open>auto simp: change_def set_cell_cells d\<close>)
    with tidy d show ?thesis
      by (simp add: WeakPtr_ctor_move_def WeakPtrBase_ctor_attach_def weak_op_simps tidy_def set_cell_cells)
  qed
  show "keeps (WeakPtr_Swap c d w) w" if "built w c"
  proof -
    note c = built_fields [OF tidy that]
    have "weak.good (set_cell c (Some (w_ptr w d)) (w_refs w)) (change (Some (w_ptr w d)) (-1) (change (Some (w_ptr w c)) 1 (\<lambda>_. 0)))"
      by (rule good_set [OF g0]) (simp add: change_def c)
    then have "weak.good (set_cell d (Some (w_ptr w c)) (set_cell c (Some (w_ptr w d)) (w_refs w))) (\<lambda>_. 0)"
      by (rule good_set) (auto simp: change_def set_cell_cells d)
    with tidy c d show ?thesis
      by (simp add: WeakPtr_Swap_def weak_op_simps tidy_def set_cell_cells)
  qed
qed

lemma exec_weak_keeps:
  assumes tidy: "tidy w" and allowed: "weak_allowed (refs (heap_of w)) (weaks (heap_of w)) op w"
  shows "keeps (exec_weak W weak_ref_of op w) w"
proof (cases op)
  case (WCtorNull c)
  have "weak.good (set_cell c (Some 0) (w_refs w)) (\<lambda>_. 0)"
    using tidy allowed WCtorNull by (intro good_set [of _ "\<lambda>_. 0"]) (auto simp: tidy_def built_def change_def)
  with WCtorNull tidy show ?thesis
    by (auto simp: WeakPtrBase_ctor_null_def weak_op_simps tidy_def set_cell_cells)
next
  case (WCtorPtr c p)
  then have "WeakPtr_ctor_ptr W weak_ref_of c p w = WeakPtrBase_ctor W c p p w"
    using weak_ref_of [OF tidy_ok [OF tidy], of p] allowed
    by (auto simp: WeakPtr_ctor_ptr_def GetWeakRefCore_def WeakPtrBase_ctor_def)
  with WCtorPtr allowed ctor_keeps [OF tidy, of c p] show ?thesis by simp
next
  case (WCtorCopy c d)
  with allowed ctor_keeps [OF tidy, of c "w_ptr w d"] built_fields [OF tidy, of d] show ?thesis
    by (simp add: WeakPtr_ctor_copy_def weak_op_simps)
next
  case (WCtorMove c d)
  with allowed move_swap_keeps(1) [OF tidy, of d c] show ?thesis by simp
next
  case (WDtor c)
  with allowed reset_keeps(2) [OF tidy, of c] show ?thesis by simp
next
  case (WReset c)
  with allowed reset_keeps(1) [OF tidy, of c] show ?thesis by simp
next
  case (WAssignPtr c p)
  then have "WeakPtr_assign_ptr W weak_ref_of c p w =
      (if w_ptr w c \<noteq> p then WeakPtrBase_Assign W c p p w else Returns w)"
    using weak_ref_of [OF tidy_ok [OF tidy], of p] allowed built_fields [OF tidy, of c]
    by (auto simp: WeakPtr_assign_ptr_def GetWeakRefCore_def weak_fields_def m_ptr_def)
  with WAssignPtr allowed assign_keeps [OF tidy, of c p] tidy show ?thesis by auto
next
  case (WAssignCopy c d)
  then have "WeakPtr_assign_copy W c d w =
      (if w_ptr w c \<noteq> w_ptr w d then WeakPtrBase_Assign W c (w_ptr w d) (w_ptr w d) w else Returns w)"
    using allowed built_fields [OF tidy, of c] built_fields [OF tidy, of d]
    by (auto simp: WeakPtr_assign_copy_def weak_fields_def m_ptr_def)
  with WAssignCopy allowed assign_keeps [OF tidy, of c "w_ptr w d"] tidy show ?thesis by auto
next
  case (WAssignMove c d)
  with allowed assign_move_keeps [OF tidy] show ?thesis by simp
next
  case (WSwap c d)
  with allowed move_swap_keeps(2) [OF tidy, of d c] show ?thesis by simp
qed

text \<open>\<open>GetStrongPtr\<close> and \<open>IsExpired\<close> in a tidy state.\<close>

lemma strong_get:
  assumes tidy: "tidy w" and "built w c" and "refs (heap_of w) (w_ptr w c) < 2 ^ 32 - 1"
  shows "\<exists>w1. WeakPtr_GetStrongPtr upgrade c w = Returns (if alive refs w (w_ptr w c) then w_ptr w c else 0, w1)
    \<and> tidy w1 \<and> w_ptr w1 = w_ptr w \<and> cells (w_refs w1) = cells (w_refs w) \<and> weaks (heap_of w1) = weaks (heap_of w)
    \<and> refs (heap_of w1) = (if alive refs w (w_ptr w c)
         then (refs (heap_of w))(w_ptr w c := refs (heap_of w) (w_ptr w c) + 1) else refs (heap_of w))"
proof (cases "w_ptr w c = 0")
  case True
  with tidy built_fields [OF assms(1,2)] show ?thesis
    by (simp add: WeakPtr_GetStrongPtr_def WeakPtrBase_IncrementRefCountIfNotZero_def weak_op_simps alive_def)
next
  case False
  note c = built_fields [OF assms(1,2)]
  from False tidy_held [OF tidy c] have "0 < weaks (heap_of w) (w_ptr w c)" by simp
  from upgrade [OF tidy_ok [OF tidy] this assms(3)] obtain h
    where "upgrade (w_ptr w c) (heap_of w) = Returns (0 < refs (heap_of w) (w_ptr w c), h) \<and> ok h
      \<and> weaks h = weaks (heap_of w)
      \<and> refs h = (if 0 < refs (heap_of w) (w_ptr w c)
         then (refs (heap_of w))(w_ptr w c := refs (heap_of w) (w_ptr w c) + 1) else refs (heap_of w))" ..
  with tidy c False show ?thesis
    by (simp add: WeakPtr_GetStrongPtr_def WeakPtrBase_IncrementRefCountIfNotZero_def weak_op_simps alive_def
        tidy_def weak.good_def credited_def)
qed

lemma is_expired:
  assumes "tidy w" and "built w c"
  shows "WeakPtrBase_IsExpired expired c w = Returns (\<not> alive refs w (w_ptr w c))"
  using built_fields [OF assms] tidy_held [OF assms(1)] expired [OF tidy_ok [OF assms(1)]]
  by (cases "w_ptr w c = 0") (auto simp: WeakPtrBase_IsExpired_def weak_op_simps alive_def)

abbreviation "run_step \<equiv> weak_step W upgrade weak_ref_of ok refs weaks"
abbreviation "reachable \<equiv> weak_reachable W upgrade weak_ref_of ok refs weaks"

lemma step_tidy:
  assumes "run_step w w1" and tidy: "tidy w"
  shows "tidy w1 \<and> (\<forall>p. 0 < weaks (heap_of w) p \<longrightarrow> refs (heap_of w) p = 0 \<longrightarrow> refs (heap_of w1) p = 0)"
  using assms(1)
proof cases
  case (client h)
  with tidy show ?thesis by (auto simp: tidy_def weak.good_def credited_def)
next
  case (op op)
  with exec_weak_keeps [OF tidy op(1)] show ?thesis by auto
next
  case (get_strong c p)
  with strong_get [OF tidy get_strong(1,2)] show ?thesis by (auto simp: alive_def)
qed

lemma reachable_tidy: "reachable w \<Longrightarrow> tidy w"
proof (induction rule: weak_reachable.induct)
  case (initial h)
  then show ?case by (simp add: tidy_def weak.good_def credited_def holders_def agrees_def)
next
  case (step w w1)
  then show ?case using step_tidy by blast
qed

lemma expired_stays:
  assumes "(\<lambda>u v. run_step u v \<and> cells (w_refs u) c = Some p)\<^sup>*\<^sup>* w w1" and "reachable w"
    and "p \<noteq> 0" and "refs (heap_of w) p = 0"
  shows "reachable w1 \<and> refs (heap_of w1) p = 0"
  using assms
proof (induction rule: rtranclp_induct)
  case (step u v)
  then have u: "reachable u" and "refs (heap_of u) p = 0" and s: "run_step u v" by auto
  with tidy_held [OF reachable_tidy [OF u]] step.hyps(2) \<open>p \<noteq> 0\<close> step_tidy [OF s reachable_tidy [OF u]]
  have "refs (heap_of v) p = 0" by blast
  with weak_reachable.step [OF u s] show ?case by blast
qed simp

end

section \<open>The properties\<close>

abbreviation "object_step \<equiv> weak_step object_weak ObjectWeakRef_IncrementRefCountIfNotZero
  ObjectWithWeakRef_GetWeakRef weak_heap_ok strong_refs weak_refs"

abbreviation "object_reachable \<equiv> weak_reachable object_weak ObjectWeakRef_IncrementRefCountIfNotZero
  ObjectWithWeakRef_GetWeakRef weak_heap_ok strong_refs weak_refs"

text \<open>A run: an object is made, a variable gets a weak reference to it, and the object goes.\<close>

definition no_blocks :: weak_heap where
  "no_blocks = \<lparr>blocks = Map.empty, weakRefSlot = (\<lambda>_. False), destroyed = [], freed = []\<rparr>"

definition weak_run :: "nat \<Rightarrow> weak_heap weak_world" where
  "weak_run n =
     (if n = 0 then \<lparr>w_ptr = (\<lambda>_. 0), w_refs = \<lparr>cells = Map.empty, objects = no_blocks\<rparr>\<rparr>
      else if n = 1 then \<lparr>w_ptr = (\<lambda>_. 0), w_refs = \<lparr>cells = Map.empty, objects = WeakRefCountPolicy_AllocateMemory 4096 no_blocks\<rparr>\<rparr>
      else if n = 2 then \<lparr>w_ptr = (\<lambda>_. 0)(0 := 4096), w_refs = \<lparr>cells = [0 \<mapsto> 4096], objects =
        no_blocks\<lparr>blocks := [4096 \<mapsto> \<lparr>w_refCount = 1, w_weakRefCount = 2\<rparr>], weakRefSlot := (\<lambda>_. False)(4096 := True)\<rparr>\<rparr>\<rparr>
      else \<lparr>w_ptr = (\<lambda>_. 0)(0 := 4096), w_refs = \<lparr>cells = [0 \<mapsto> 4096], objects =
        no_blocks\<lparr>blocks := [4096 \<mapsto> \<lparr>w_refCount = 0, w_weakRefCount = 1\<rparr>], weakRefSlot := (\<lambda>_. False)(4096 := False), destroyed := [4096]\<rparr>\<rparr>\<rparr>)"

lemmas weak_run_simps = weak_run_def no_blocks_def WeakRefCountPolicy_AllocateMemory_def object_ops
  WeakPtr_defs CheckedAddWeakRef_def CheckedReleaseWeakRef_def GetWeakRefCore_def checked_AddRef_def
  checked_Release_def set_weak_def set_cell_def strong_refs_def weak_refs_def weak_heap_ok_def block_ok_def
  built_def weak_live_def

lemma weak_run_0: "object_reachable (weak_run 0)"
  using weak_reachable.initial [of weak_heap_ok no_blocks strong_refs weak_refs]
  by (simp add: weak_run_simps)

lemma weak_run_1: "object_reachable (weak_run 1)"
  using weak_reachable.step [OF weak_run_0 weak_step.client [of weak_heap_ok "WeakRefCountPolicy_AllocateMemory 4096 no_blocks"]]
  by (simp add: weak_run_simps fun_eq_iff)

lemma weak_run_2: "object_reachable (weak_run 2)"
proof -
  have "weak_allowed (strong_refs (heap_of (weak_run 1))) (weak_refs (heap_of (weak_run 1))) (WCtorPtr 0 4096) (weak_run 1)"
    and "exec_weak object_weak ObjectWithWeakRef_GetWeakRef (WCtorPtr 0 4096) (weak_run 1) = Returns (weak_run 2)"
    by (simp_all add: weak_run_simps)
  then have "object_step (weak_run 1) (weak_run 2)" by (rule weak_step.op)
  with weak_run_1 show ?thesis by (rule weak_reachable.step)
qed

lemma weak_run_3: "object_reachable (weak_run 3)"
  using weak_reachable.step [OF weak_run_2 weak_step.client [of weak_heap_ok "heap_of (weak_run 3)"]]
  by (simp add: weak_run_simps fun_eq_iff)

text \<open>
  C31: Weak references are counted, and no \<open>WeakPtr\<close> dangles. In every state a program can reach,
  the weak count of an object is the number of \<open>WeakPtr\<close> variables that hold it, besides the one
  of the object itself while it is alive; the counters every variable points to are allocated,
  whether its object is alive or not; and no operation used as it asks crashes.
\<close>

theorem WeakPtr_never_dangles:
  assumes "object_reachable w"
  shows "(\<forall>p. p \<noteq> 0 \<longrightarrow> weak_refs (heap_of w) p = card {c. cells (w_refs w) c = Some p})
    \<and> (\<forall>c p. cells (w_refs w) c = Some p \<longrightarrow> p \<noteq> 0 \<longrightarrow> blocks (heap_of w) p \<noteq> None)
    \<and> (\<forall>op. weak_allowed (strong_refs (heap_of w)) (weak_refs (heap_of w)) op w
         \<longrightarrow> returns (exec_weak object_weak ObjectWithWeakRef_GetWeakRef op w))"
proof (intro conjI allI impI)
  note tidy = object.reachable_tidy [OF assms]
  show "weak_refs (heap_of w) p = card {c. cells (w_refs w) c = Some p}" if "p \<noteq> 0" for p
    using object.tidy_weaks [OF tidy that] by (simp add: holders_def)
  show "blocks (heap_of w) p \<noteq> None" if "cells (w_refs w) c = Some p" and "p \<noteq> 0" for c p
    using object.tidy_held [OF tidy that(1)] that(2) by (auto simp: weak_refs_def split: option.splits)
  show "returns (exec_weak object_weak ObjectWithWeakRef_GetWeakRef op w)"
    if "weak_allowed (strong_refs (heap_of w)) (weak_refs (heap_of w)) op w" for op
    using object.exec_weak_keeps [OF tidy that] by (auto simp: returns_iff)
qed

lemma WeakPtr_never_dangles_witness:
  "returns (exec_weak object_weak ObjectWithWeakRef_GetWeakRef (WReset 0) (weak_run 3))"
  using WeakPtr_never_dangles [OF weak_run_3, THEN conjunct2, THEN conjunct2, rule_format, of "WReset 0"]
  by (simp add: built_def weak_run_def)

text \<open>
  C32: \<open>GetStrongPtr\<close> gives the object exactly while it is alive, with one strong reference more
  for the caller; for a null \<open>WeakPtr\<close> or an object that is gone it gives null and changes
  nothing. \<open>IsExpired\<close> tells which of the two it is.
\<close>

theorem GetStrongPtr_iff_alive:
  assumes "object_reachable w" and "built w c" and "strong_refs (heap_of w) (w_ptr w c) < 2 ^ 32 - 1"
  shows "\<exists>w1. WeakPtr_GetStrongPtr ObjectWeakRef_IncrementRefCountIfNotZero c w =
        Returns (if alive strong_refs w (w_ptr w c) then w_ptr w c else 0, w1)
    \<and> strong_refs (heap_of w1) = (if alive strong_refs w (w_ptr w c)
         then (strong_refs (heap_of w))(w_ptr w c := strong_refs (heap_of w) (w_ptr w c) + 1)
         else strong_refs (heap_of w))
    \<and> WeakPtrBase_IsExpired ObjectWeakRef_IsExpired c w = Returns (\<not> alive strong_refs w (w_ptr w c))"
  using object.strong_get [OF object.reachable_tidy [OF assms(1)] assms(2,3)]
    object.is_expired [OF object.reachable_tidy [OF assms(1)] assms(2)] by auto

lemma GetStrongPtr_iff_alive_witness:
  "\<exists>w1. WeakPtr_GetStrongPtr ObjectWeakRef_IncrementRefCountIfNotZero 0 (weak_run 2) = Returns (4096, w1)
    \<and> strong_refs (heap_of w1) 4096 = 2"
proof -
  have h: "strong_refs (heap_of (weak_run 2)) 4096 = 1" and p: "w_ptr (weak_run 2) 0 = 4096" and b: "built (weak_run 2) 0"
    by (simp_all add: weak_run_def no_blocks_def strong_refs_def built_def)
  then have a: "alive strong_refs (weak_run 2) 4096" by (simp add: alive_def)
  from GetStrongPtr_iff_alive [OF weak_run_2 b] obtain w1
    where "WeakPtr_GetStrongPtr ObjectWeakRef_IncrementRefCountIfNotZero 0 (weak_run 2) = Returns (4096, w1)"
      and "strong_refs (heap_of w1) = (strong_refs (heap_of (weak_run 2)))(4096 := 1 + 1)"
    unfolding p h by (auto simp: a)
  then show ?thesis by auto
qed

text \<open>
  An expired \<open>WeakPtr\<close> never comes back to life. As long as the variable keeps its value,
  whatever else the program does with strong and weak references, including the creation of new
  objects, \<open>GetStrongPtr\<close> gives null.
\<close>

theorem expired_WeakPtr_stays_expired:
  assumes "object_reachable w" and "cells (w_refs w) c = Some p" and "p \<noteq> 0" and "strong_refs (heap_of w) p = 0"
    and "(\<lambda>u v. object_step u v \<and> cells (w_refs u) c = Some p)\<^sup>*\<^sup>* w w1" and "cells (w_refs w1) c = Some p"
  shows "WeakPtr_GetStrongPtr ObjectWeakRef_IncrementRefCountIfNotZero c w1 = Returns (0, w1)
    \<and> WeakPtrBase_IsExpired ObjectWeakRef_IsExpired c w1 = Returns True"
proof -
  from object.expired_stays [OF assms(5,1,3,4)] have r: "object_reachable w1" and z: "strong_refs (heap_of w1) p = 0" by auto
  note tidy = object.reachable_tidy [OF r]
  from assms(6) have "built w1 c" by (simp add: built_def)
  with assms(6) object.built_fields [OF tidy this] have p: "w_ptr w1 c = p" by simp
  from assms(6) p \<open>p \<noteq> 0\<close> z object.tidy_held [OF tidy assms(6)]
  have "WeakPtr_GetStrongPtr ObjectWeakRef_IncrementRefCountIfNotZero c w1 = Returns (0, w1)"
    by (auto simp: WeakPtr_defs strong_refs_def weak_refs_def ObjectWeakRef_IncrementRefCountIfNotZero_def
        with_block_def unat_0_iff split: option.splits)
  with object.is_expired [OF tidy \<open>built w1 c\<close>] p z show ?thesis by (simp add: alive_def)
qed

lemma expired_WeakPtr_stays_expired_witness:
  "WeakPtr_GetStrongPtr ObjectWeakRef_IncrementRefCountIfNotZero 0 (weak_run 3) = Returns (0, weak_run 3)"
  using expired_WeakPtr_stays_expired [OF weak_run_3, of 0 4096 "weak_run 3"]
  by (simp add: weak_run_def no_blocks_def strong_refs_def)

end
