(* ===== verification/Error_Code.thy ===== *)
theory Error_Code
  imports Counted_Ptr_Guarantees
begin

text \<open>
  Error codes (\<open>libs/errorCode\<close>): the shared state of an error with its provider, the handled flag
  and the counter, the operations of \<open>ErrorCode\<close> on it, and the providers that make, recognise and
  throw errors. An \<open>ErrorCode\<close> is a \<open>CntPtr\<close> to its state; null is the empty one.
\<close>

section \<open>State\<close>

text \<open>
  A provider object: its address, its GUID, and what its \<open>Throw\<close> throws: the template an exception
  that carries the error, the provider of \<open>std::exception_ptr\<close> the exception it stores, and those of
  cancellation and timeout an exception of their own. The error data has type \<open>'i\<close>.
\<close>

datatype throw_kind = ThrowsErrorCode | RethrowsStored | ThrowsOwn string

record error_provider =
  p_address :: nat
  p_guid :: nat
  p_throws :: throw_kind

record 'i error_state =
  m_errorProvider :: error_provider
  m_errorInfo :: 'i
  es_refCount :: "32 word"
  m_isHandled :: bool
  m_errorString :: "string option"

record 'i error_heap =
  states :: "ptr \<Rightarrow> 'i error_state option"
  unhandled :: "ptr list"

definition with_state :: "'i error_heap \<Rightarrow> ptr \<Rightarrow> ('i error_state \<Rightarrow> 'b outcome) \<Rightarrow> 'b outcome" where
  "with_state h p k = (case states h p of None \<Rightarrow> Crashes DanglingPointer | Some s \<Rightarrow> k s)"

definition set_state :: "ptr \<Rightarrow> 'i error_state option \<Rightarrow> 'i error_heap \<Rightarrow> 'i error_heap" where
  "set_state p s h = h\<lparr>states := (states h)(p := s)\<rparr>"

section \<open>\<open>ErrorCodeState\<close>\<close>

definition ErrorCodeState_IsHandled :: "ptr \<Rightarrow> 'i error_heap \<Rightarrow> bool outcome" where
  "ErrorCodeState_IsHandled p h = with_state h p (\<lambda>s. Returns (m_isHandled s))"

definition ErrorCodeState_Handle :: "ptr \<Rightarrow> 'i error_heap \<Rightarrow> 'i error_heap outcome" where
  "ErrorCodeState_Handle p h = with_state h p (\<lambda>s. Returns (set_state p (Some (s\<lparr>m_isHandled := True\<rparr>)) h))"

definition ErrorCodeState_AddRef :: "ptr \<Rightarrow> 'i error_heap \<Rightarrow> 'i error_heap outcome" where
  "ErrorCodeState_AddRef p h = with_state h p (\<lambda>s.
     Returns (set_state p (Some (s\<lparr>es_refCount := es_refCount s + 1\<rparr>)) h))"

text \<open>\<open>ErrorProvider::Destroy\<close>; the calls of \<open>OnUnhandledError\<close> are recorded.\<close>

definition ErrorProvider_Destroy :: "ptr \<Rightarrow> 'i error_heap \<Rightarrow> 'i error_heap outcome" where
  "ErrorProvider_Destroy p h = with_state h p (\<lambda>s.
     let h1 = (if \<not> m_isHandled s then h\<lparr>unhandled := unhandled h @ [p]\<rparr> else h)
     in Returns (set_state p None h1))"

definition ErrorCodeState_Release :: "ptr \<Rightarrow> 'i error_heap \<Rightarrow> 'i error_heap outcome" where
  "ErrorCodeState_Release p h = with_state h p (\<lambda>s.
     let refCount = es_refCount s - 1; h1 = set_state p (Some (s\<lparr>es_refCount := refCount\<rparr>)) h
     in if refCount = 0 then ErrorProvider_Destroy p h1 else Returns h1)"

definition ErrorCodeState :: "'i error_heap IRefCounted" where
  "ErrorCodeState = \<lparr>AddRef = ErrorCodeState_AddRef, Release = ErrorCodeState_Release\<rparr>"

definition error_refs :: "'i error_heap \<Rightarrow> ptr \<Rightarrow> nat" where
  "error_refs h p = (case states h p of None \<Rightarrow> 0 | Some s \<Rightarrow> unat (es_refCount s))"

lemmas error_state_ops = ErrorCodeState_def ErrorCodeState_AddRef_def ErrorCodeState_Release_def
  ErrorProvider_Destroy_def ErrorCodeState_Handle_def ErrorCodeState_IsHandled_def with_state_def set_state_def Let_def

interpretation error: ref_counted ErrorCodeState "\<lambda>_. True" error_refs
proof unfold_locales
  fix h :: "'i error_heap" and p
  show "\<exists>h'. AddRef ErrorCodeState p h = Returns h' \<and> True \<and> error_refs h' = (error_refs h)(p := error_refs h p + 1)"
    if "0 < error_refs h p" and "error_refs h p < 2 ^ 32 - 2"
    using that by (auto simp: error_state_ops error_refs_def fun_eq_iff unat_inc split: option.splits)
  show "\<exists>h'. Release ErrorCodeState p h = Returns h' \<and> True \<and> error_refs h' = (error_refs h)(p := error_refs h p - 1)"
    if "0 < error_refs h p"
    using that by (auto simp: error_state_ops error_refs_def fun_eq_iff unat_dec unat_pos split: option.splits)
qed

section \<open>Providers\<close>

text \<open>
  A thrown exception: one that carries an \<open>ErrorCode\<close>, and so a reference to it, the stored one, or
  one of a class of its own.
\<close>

datatype 'i exception = ErrorCodeException ptr | StoredException 'i | OwnException string

definition ErrorProvider_IsOfType :: "error_provider \<Rightarrow> nat \<Rightarrow> bool" where
  "ErrorProvider_IsOfType this type = (type = p_guid this)"

text \<open>\<open>MakeErrorCode\<close>, given the address of the memory it allocates.\<close>

definition ErrorProvider_MakeErrorCode :: "error_provider \<Rightarrow> 'i \<Rightarrow> ptr \<Rightarrow> 'i error_heap \<Rightarrow> 'i error_heap" where
  "ErrorProvider_MakeErrorCode this errorInfo memory h =
     set_state memory (Some \<lparr>m_errorProvider = this, m_errorInfo = errorInfo, es_refCount = 1, m_isHandled = False,
       m_errorString = None\<rparr>) h"

definition ErrorProvider_TryGetErrorInfo ::
  "error_provider \<Rightarrow> ptr \<Rightarrow> bool \<Rightarrow> 'i error_heap \<Rightarrow> ('i option \<times> 'i error_heap) outcome" where
  "ErrorProvider_TryGetErrorInfo this p shouldHandle h =
     (if p \<noteq> 0
      then with_state h p (\<lambda>s.
        if p_address (m_errorProvider s) = p_address this \<or> ErrorProvider_IsOfType (m_errorProvider s) (p_guid this)
        then and_then (if shouldHandle then ErrorCodeState_Handle p h else Returns h) (\<lambda>h1.
          Returns (Some (m_errorInfo s), h1))
        else Returns (None, h))
      else Returns (None, h))"

definition ErrorProvider_IsOwnedErrorCode :: "error_provider \<Rightarrow> ptr \<Rightarrow> 'i error_heap \<Rightarrow> bool outcome" where
  "ErrorProvider_IsOwnedErrorCode this p h =
     and_then (ErrorProvider_TryGetErrorInfo this p False h) (\<lambda>(info, _). Returns (info \<noteq> None))"

definition ErrorProvider_GetErrorInfo :: "error_provider \<Rightarrow> ptr \<Rightarrow> 'i error_heap \<Rightarrow> 'i outcome" where
  "ErrorProvider_GetErrorInfo this p h =
     and_then (ErrorProvider_TryGetErrorInfo this p False h) (\<lambda>(info, _).
       case info of None \<Rightarrow> Crashes (VerifyElseCrash ''Cannot get error info from error code.'') | Some i \<Rightarrow> Returns i)"

text \<open>
  \<open>Throw\<close>, the one of the template and its specialisations: the exception, if any, and the heap,
  where an \<open>ErrorCodeException\<close> has its copy of the error.
\<close>

definition ErrorProvider_Throw ::
  "error_provider \<Rightarrow> ptr \<Rightarrow> bool \<Rightarrow> 'i error_heap \<Rightarrow> ('i exception option \<times> 'i error_heap) outcome" where
  "ErrorProvider_Throw this p shouldHandle h =
     and_then (ErrorProvider_TryGetErrorInfo this p shouldHandle h) (\<lambda>(info, h1).
       case info of None \<Rightarrow> Returns (None, h1)
       | Some i \<Rightarrow>
           (case p_throws this of
              RethrowsStored \<Rightarrow> Returns (Some (StoredException i), h1)
            | ThrowsOwn name \<Rightarrow> Returns (Some (OwnException name), h1)
            | ThrowsErrorCode \<Rightarrow>
                and_then (ErrorCodeState_AddRef p h1) (\<lambda>h2. Returns (Some (ErrorCodeException p), h2))))"

text \<open>The providers of the future library, with the exceptions of their specialisations of \<open>Throw\<close>.\<close>

definition CancellationErrorProvider :: "nat \<Rightarrow> nat \<Rightarrow> error_provider" where
  "CancellationErrorProvider address guid =
     \<lparr>p_address = address, p_guid = guid, p_throws = ThrowsOwn ''CancellationException''\<rparr>"

definition TimeoutError :: "nat \<Rightarrow> nat \<Rightarrow> error_provider" where
  "TimeoutError address guid =
     \<lparr>p_address = address, p_guid = guid, p_throws = ThrowsOwn ''TimeoutException''\<rparr>"

section \<open>\<open>ErrorCode\<close>\<close>

definition ErrorCode_bool :: "ptr \<Rightarrow> bool" where
  "ErrorCode_bool p = (p \<noteq> 0)"

definition ErrorCode_IsHandled :: "ptr \<Rightarrow> 'i error_heap \<Rightarrow> bool outcome" where
  "ErrorCode_IsHandled p h = (if p \<noteq> 0 then ErrorCodeState_IsHandled p h else Returns False)"

definition ErrorCode_Handle :: "ptr \<Rightarrow> 'i error_heap \<Rightarrow> 'i error_heap outcome" where
  "ErrorCode_Handle p h = (if p \<noteq> 0 then ErrorCodeState_Handle p h else Returns h)"

definition ErrorCode_HandleAs :: "error_provider \<Rightarrow> ptr \<Rightarrow> 'i error_heap \<Rightarrow> ('i option \<times> 'i error_heap) outcome" where
  "ErrorCode_HandleAs errorProvider p h = ErrorProvider_TryGetErrorInfo errorProvider p True h"

definition ErrorCode_As :: "error_provider \<Rightarrow> ptr \<Rightarrow> 'i error_heap \<Rightarrow> ('i option \<times> 'i error_heap) outcome" where
  "ErrorCode_As errorProvider p h = ErrorProvider_TryGetErrorInfo errorProvider p False h"

definition ErrorCode_HandleAndThrow :: "ptr \<Rightarrow> 'i error_heap \<Rightarrow> ('i exception option \<times> 'i error_heap) outcome" where
  "ErrorCode_HandleAndThrow p h =
     (if p \<noteq> 0 then with_state h p (\<lambda>s. ErrorProvider_Throw (m_errorProvider s) p True h) else Returns (None, h))"

definition ErrorCode_Throw :: "ptr \<Rightarrow> 'i error_heap \<Rightarrow> ('i exception option \<times> 'i error_heap) outcome" where
  "ErrorCode_Throw p h =
     (if p \<noteq> 0 then with_state h p (\<lambda>s. ErrorProvider_Throw (m_errorProvider s) p False h) else Returns (None, h))"

definition ErrorCode_equal :: "ptr \<Rightarrow> ptr \<Rightarrow> bool" where
  "ErrorCode_equal left right = (left = right)"

definition ErrorCode_Swap :: "nat \<Rightarrow> nat \<Rightarrow> 'i error_heap cnt_world \<Rightarrow> 'i error_heap cnt_world outcome" where
  "ErrorCode_Swap c other w = CntPtr_swap c other w"

text \<open>
  \<open>ToString\<close>, given the \<open>ToString\<close> of the providers: the string is made once and kept.
\<close>

definition ErrorCode_ToString ::
  "(error_provider \<Rightarrow> 'i \<Rightarrow> string) \<Rightarrow> ptr \<Rightarrow> 'i error_heap \<Rightarrow> (string \<times> 'i error_heap) outcome" where
  "ErrorCode_ToString provider_ToString p h =
     (if p \<noteq> 0
      then with_state h p (\<lambda>s. case m_errorString s of
          None \<Rightarrow> let newInstance = provider_ToString (m_errorProvider s) (m_errorInfo s)
                  in Returns (newInstance, set_state p (Some (s\<lparr>m_errorString := Some newInstance\<rparr>)) h)
        | Some returnValue \<Rightarrow> Returns (returnValue, h))
      else Returns (''Empty ErrorCode'', h))"

text \<open>\<open>ToString\<close> of \<open>HResultErrorProvider\<close>: eight upper case hexadecimal digits.\<close>

definition hex_digit :: "nat \<Rightarrow> char" where
  "hex_digit d = ''0123456789ABCDEF'' ! d"

definition HResult_ToString :: "32 word \<Rightarrow> string" where
  "HResult_ToString hr = ''HRESULT: '' @ ''0x'' @ map (\<lambda>k. hex_digit (unat hr div 16 ^ k mod 16)) (rev [0..<8])"

lemmas error_code_ops = ErrorCode_bool_def ErrorCode_IsHandled_def ErrorCode_Handle_def ErrorCode_HandleAs_def
  ErrorCode_As_def ErrorCode_HandleAndThrow_def ErrorCode_Throw_def ErrorProvider_Throw_def
  ErrorProvider_GetErrorInfo_def ErrorProvider_IsOwnedErrorCode_def ErrorProvider_TryGetErrorInfo_def
  ErrorProvider_IsOfType_def ErrorProvider_MakeErrorCode_def

end
