(* ===== verification/Maybe.thy ===== *)
theory Maybe
  imports Error_Code
begin

text \<open>
  \<open>Mso::Maybe<T>\<close> (\<open>libs/errorCode/include/errorCode/maybe.h\<close>): a value or an \<open>ErrorCode\<close> in a union,
  and a tag that tells which, with the operations of \<open>Maybe<T>\<close> and of the specialisation
  \<open>Maybe<void>\<close>, which has no value to construct or destroy.
\<close>

section \<open>State\<close>

text \<open>
  The variables of type \<open>Maybe\<close> are numbered. \<open>m_kind\<close> has their tags, where there is a variable;
  the members of their unions are objects that are there or not: \<open>m_value\<close> has the values, and
  the cells of \<open>m_error\<close> are the error codes. To use a member that is not there is an error the
  code does not check for.
\<close>

datatype MaybeKind = MaybeValue | MaybeError

record ('v, 'i) maybe_world =
  m_kind :: "nat \<Rightarrow> MaybeKind option"
  m_value :: "nat \<Rightarrow> 'v option"
  m_error :: "'i error_heap cnt_world"

definition with_kind :: "('v, 'i) maybe_world \<Rightarrow> nat \<Rightarrow> (MaybeKind \<Rightarrow> 'b outcome) \<Rightarrow> 'b outcome" where
  "with_kind w c k = (case m_kind w c of None \<Rightarrow> Crashes NotConstructed | Some x \<Rightarrow> k x)"

definition with_value :: "('v, 'i) maybe_world \<Rightarrow> nat \<Rightarrow> ('v \<Rightarrow> 'b outcome) \<Rightarrow> 'b outcome" where
  "with_value w c k = (case m_value w c of None \<Rightarrow> Crashes NotConstructed | Some v \<Rightarrow> k v)"

definition set_kind :: "nat \<Rightarrow> MaybeKind option \<Rightarrow> ('v, 'i) maybe_world \<Rightarrow> ('v, 'i) maybe_world" where
  "set_kind c k w = w\<lparr>m_kind := (m_kind w)(c := k)\<rparr>"

definition set_value :: "nat \<Rightarrow> 'v option \<Rightarrow> ('v, 'i) maybe_world \<Rightarrow> ('v, 'i) maybe_world" where
  "set_value c v w = w\<lparr>m_value := (m_value w)(c := v)\<rparr>"

definition on_error ::
  "('i error_heap cnt_world \<Rightarrow> 'i error_heap cnt_world outcome) \<Rightarrow> ('v, 'i) maybe_world \<Rightarrow> ('v, 'i) maybe_world outcome" where
  "on_error f w = and_then (f (m_error w)) (\<lambda>e. Returns (w\<lparr>m_error := e\<rparr>))"

section \<open>Members of the union\<close>

text \<open>
  The \<open>switch\<close> statements over the tag: the destructor of the active member, and the placement of
  a new one, copied or moved from another variable. \<open>moved v\<close> is what the move constructor of \<open>T\<close>
  leaves of \<open>v\<close>; a moved error code is empty.
\<close>

fun destroy_member :: "MaybeKind \<Rightarrow> nat \<Rightarrow> ('v, 'i) maybe_world \<Rightarrow> ('v, 'i) maybe_world outcome" where
  "destroy_member MaybeValue c w = with_value w c (\<lambda>_. Returns (set_value c None w))"
| "destroy_member MaybeError c w = on_error (CntPtr_dtor ErrorCodeState c) w"

fun copy_member :: "MaybeKind \<Rightarrow> nat \<Rightarrow> nat \<Rightarrow> ('v, 'i) maybe_world \<Rightarrow> ('v, 'i) maybe_world outcome" where
  "copy_member MaybeValue c other w = with_value w other (\<lambda>v. Returns (set_value c (Some v) w))"
| "copy_member MaybeError c other w = on_error (CntPtr_ctor_copy ErrorCodeState c other) w"

fun move_member :: "('v \<Rightarrow> 'v) \<Rightarrow> MaybeKind \<Rightarrow> nat \<Rightarrow> nat \<Rightarrow> ('v, 'i) maybe_world \<Rightarrow> ('v, 'i) maybe_world outcome" where
  "move_member moved MaybeValue c other w = with_value w other (\<lambda>v.
     Returns (set_value other (Some (moved v)) (set_value c (Some v) w)))"
| "move_member moved MaybeError c other w = on_error (CntPtr_ctor_move c other) w"

section \<open>\<open>Maybe<T>\<close>\<close>

text \<open>The constructors for a value, by copy, by move and in place, differ in how they get it.\<close>

definition Maybe_ctor_value :: "nat \<Rightarrow> 'v \<Rightarrow> ('v, 'i) maybe_world \<Rightarrow> ('v, 'i) maybe_world outcome" where
  "Maybe_ctor_value c v w = Returns (set_value c (Some v) (set_kind c (Some MaybeValue) w))"

definition Maybe_ctor_copy :: "nat \<Rightarrow> nat \<Rightarrow> ('v, 'i) maybe_world \<Rightarrow> ('v, 'i) maybe_world outcome" where
  "Maybe_ctor_copy c other w = with_kind w other (\<lambda>k. copy_member k c other (set_kind c (Some k) w))"

definition Maybe_ctor_move :: "('v \<Rightarrow> 'v) \<Rightarrow> nat \<Rightarrow> nat \<Rightarrow> ('v, 'i) maybe_world \<Rightarrow> ('v, 'i) maybe_world outcome" where
  "Maybe_ctor_move moved c other w = with_kind w other (\<lambda>k. move_member moved k c other (set_kind c (Some k) w))"

text \<open>From an error code of the client: a copy of it, or the one itself, which is empty then.\<close>

definition Maybe_ctor_error_copy :: "nat \<Rightarrow> ptr \<Rightarrow> ('v, 'i) maybe_world \<Rightarrow> ('v, 'i) maybe_world outcome" where
  "Maybe_ctor_error_copy c error w = on_error (CntPtr_ctor_ptr ErrorCodeState c error) (set_kind c (Some MaybeError) w)"

definition Maybe_ctor_error_move :: "nat \<Rightarrow> ptr \<Rightarrow> ('v, 'i) maybe_world \<Rightarrow> ('v, 'i) maybe_world outcome" where
  "Maybe_ctor_error_move c error w = on_error (CntPtr_ctor_attach c error) (set_kind c (Some MaybeError) w)"

definition Maybe_dtor :: "nat \<Rightarrow> ('v, 'i) maybe_world \<Rightarrow> ('v, 'i) maybe_world outcome" where
  "Maybe_dtor c w = with_kind w c (\<lambda>k. and_then (destroy_member k c w) (\<lambda>w1. Returns (set_kind c None w1)))"

definition Maybe_assign_copy :: "nat \<Rightarrow> nat \<Rightarrow> ('v, 'i) maybe_world \<Rightarrow> ('v, 'i) maybe_world outcome" where
  "Maybe_assign_copy c other w =
     (if c \<noteq> other
      then with_kind w c (\<lambda>k. and_then (destroy_member k c w) (\<lambda>w1.
             with_kind w1 other (\<lambda>k1. copy_member k1 c other (set_kind c (Some k1) w1))))
      else Returns w)"

definition Maybe_assign_move :: "('v \<Rightarrow> 'v) \<Rightarrow> nat \<Rightarrow> nat \<Rightarrow> ('v, 'i) maybe_world \<Rightarrow> ('v, 'i) maybe_world outcome" where
  "Maybe_assign_move moved c other w =
     (if c \<noteq> other
      then with_kind w c (\<lambda>k. and_then (destroy_member k c w) (\<lambda>w1.
             with_kind w1 other (\<lambda>k1. move_member moved k1 c other (set_kind c (Some k1) w1))))
      else Returns w)"

definition Maybe_IsValue :: "nat \<Rightarrow> ('v, 'i) maybe_world \<Rightarrow> bool outcome" where
  "Maybe_IsValue c w = with_kind w c (\<lambda>k. Returns (k = MaybeValue))"

definition Maybe_IsError :: "nat \<Rightarrow> ('v, 'i) maybe_world \<Rightarrow> bool outcome" where
  "Maybe_IsError c w = with_kind w c (\<lambda>k. Returns (k = MaybeError))"

definition Maybe_GetValue :: "nat \<Rightarrow> ('v, 'i) maybe_world \<Rightarrow> 'v outcome" where
  "Maybe_GetValue c w = with_kind w c (\<lambda>k.
     and_then (verify_else_crash (k = MaybeValue) ''Not a value'') (\<lambda>_. with_value w c Returns))"

definition Maybe_TakeValue :: "('v \<Rightarrow> 'v) \<Rightarrow> nat \<Rightarrow> ('v, 'i) maybe_world \<Rightarrow> ('v \<times> ('v, 'i) maybe_world) outcome" where
  "Maybe_TakeValue moved c w = with_kind w c (\<lambda>k.
     and_then (verify_else_crash (k = MaybeValue) ''Not a value'') (\<lambda>_.
     with_value w c (\<lambda>v. Returns (v, set_value c (Some (moved v)) w))))"

definition Maybe_GetError :: "nat \<Rightarrow> ('v, 'i) maybe_world \<Rightarrow> ptr outcome" where
  "Maybe_GetError c w = with_kind w c (\<lambda>k.
     and_then (verify_else_crash (k = MaybeError) ''Not an error'') (\<lambda>_. CntPtr_Get c (m_error w)))"

definition Maybe_TakeError :: "nat \<Rightarrow> ('v, 'i) maybe_world \<Rightarrow> (ptr \<times> ('v, 'i) maybe_world) outcome" where
  "Maybe_TakeError c w = with_kind w c (\<lambda>k.
     and_then (verify_else_crash (k = MaybeError) ''Not an error'') (\<lambda>_.
     and_then (CntPtr_Detach c (m_error w)) (\<lambda>(p, e). Returns (p, w\<lparr>m_error := e\<rparr>))))"

section \<open>Exceptions\<close>

text \<open>A call that may throw: what it returned or threw, and the state.\<close>

datatype ('a, 'e) attempt = Returned 'a | Thrown 'e

definition throw_error ::
  "(ptr \<Rightarrow> 'i error_heap \<Rightarrow> ('i exception option \<times> 'i error_heap) outcome) \<Rightarrow> nat \<Rightarrow> ('v, 'i) maybe_world \<Rightarrow>
   ('i exception option \<times> ('v, 'i) maybe_world) outcome" where
  "throw_error f c w = m_ptr (m_error w) c (\<lambda>p.
     and_then (f p (objects (m_error w))) (\<lambda>(x, h). Returns (x, w\<lparr>m_error := (m_error w)\<lparr>objects := h\<rparr>\<rparr>)))"

definition Maybe_GetValueElseThrow ::
  "nat \<Rightarrow> ('v, 'i) maybe_world \<Rightarrow> (('v, 'i exception) attempt \<times> ('v, 'i) maybe_world) outcome" where
  "Maybe_GetValueElseThrow c w = with_kind w c (\<lambda>k.
     and_then (if k = MaybeError then throw_error ErrorCode_Throw c w else Returns (None, w)) (\<lambda>(x, w1).
       case x of Some e \<Rightarrow> Returns (Thrown e, w1)
       | None \<Rightarrow> with_value w1 c (\<lambda>v. Returns (Returned v, w1))))"

definition Maybe_TakeValueElseThrow ::
  "('v \<Rightarrow> 'v) \<Rightarrow> nat \<Rightarrow> ('v, 'i) maybe_world \<Rightarrow> (('v, 'i exception) attempt \<times> ('v, 'i) maybe_world) outcome" where
  "Maybe_TakeValueElseThrow moved c w = with_kind w c (\<lambda>k.
     and_then (if k = MaybeError then throw_error ErrorCode_Throw c w else Returns (None, w)) (\<lambda>(x, w1).
       case x of Some e \<Rightarrow> Returns (Thrown e, w1)
       | None \<Rightarrow> with_value w1 c (\<lambda>v. Returns (Returned v, set_value c (Some (moved v)) w1))))"

definition Maybe_ThrowOnError ::
  "nat \<Rightarrow> ('v, 'i) maybe_world \<Rightarrow> ((unit, 'i exception) attempt \<times> ('v, 'i) maybe_world) outcome" where
  "Maybe_ThrowOnError c w = with_kind w c (\<lambda>k.
     and_then (if k = MaybeError then throw_error ErrorCode_HandleAndThrow c w else Returns (None, w)) (\<lambda>(x, w1).
       Returns (case x of Some e \<Rightarrow> Thrown e | None \<Rightarrow> Returned (), w1)))"

section \<open>\<open>Maybe<void>\<close>\<close>

text \<open>The specialisation has only the error in its union.\<close>

definition MaybeVoid_ctor :: "nat \<Rightarrow> (unit, 'i) maybe_world \<Rightarrow> (unit, 'i) maybe_world outcome" where
  "MaybeVoid_ctor c w = Returns (set_kind c (Some MaybeValue) w)"

definition MaybeVoid_ctor_copy :: "nat \<Rightarrow> nat \<Rightarrow> (unit, 'i) maybe_world \<Rightarrow> (unit, 'i) maybe_world outcome" where
  "MaybeVoid_ctor_copy c other w = with_kind w other (\<lambda>k.
     let w1 = set_kind c (Some k) w
     in if k = MaybeError then on_error (CntPtr_ctor_copy ErrorCodeState c other) w1 else Returns w1)"

definition MaybeVoid_ctor_move :: "nat \<Rightarrow> nat \<Rightarrow> (unit, 'i) maybe_world \<Rightarrow> (unit, 'i) maybe_world outcome" where
  "MaybeVoid_ctor_move c other w = with_kind w other (\<lambda>k.
     let w1 = set_kind c (Some k) w
     in if k = MaybeError then on_error (CntPtr_ctor_move c other) w1 else Returns w1)"

definition MaybeVoid_dtor :: "nat \<Rightarrow> (unit, 'i) maybe_world \<Rightarrow> (unit, 'i) maybe_world outcome" where
  "MaybeVoid_dtor c w = with_kind w c (\<lambda>k.
     and_then (if k = MaybeError then on_error (CntPtr_dtor ErrorCodeState c) w else Returns w) (\<lambda>w1.
       Returns (set_kind c None w1)))"

definition MaybeVoid_assign_copy :: "nat \<Rightarrow> nat \<Rightarrow> (unit, 'i) maybe_world \<Rightarrow> (unit, 'i) maybe_world outcome" where
  "MaybeVoid_assign_copy c other w =
     (if c \<noteq> other
      then with_kind w c (\<lambda>k.
        and_then (if k = MaybeError then on_error (CntPtr_dtor ErrorCodeState c) w else Returns w) (\<lambda>w1.
          with_kind w1 other (\<lambda>k1.
            let w2 = set_kind c (Some k1) w1
            in if k1 = MaybeError then on_error (CntPtr_ctor_copy ErrorCodeState c other) w2 else Returns w2)))
      else Returns w)"

definition MaybeVoid_assign_move :: "nat \<Rightarrow> nat \<Rightarrow> (unit, 'i) maybe_world \<Rightarrow> (unit, 'i) maybe_world outcome" where
  "MaybeVoid_assign_move c other w =
     (if c \<noteq> other
      then with_kind w c (\<lambda>k.
        and_then (if k = MaybeError then on_error (CntPtr_dtor ErrorCodeState c) w else Returns w) (\<lambda>w1.
          with_kind w1 other (\<lambda>k1.
            let w2 = set_kind c (Some k1) w1
            in if k1 = MaybeError then on_error (CntPtr_ctor_move c other) w2 else Returns w2)))
      else Returns w)"

end
