(* ===== verification/Maybe_Guarantees.thy ===== *)
theory Maybe_Guarantees
  imports Maybe
begin

text \<open>
  Programs over \<open>Maybe\<close> variables: the tag always tells which member of the union is there, the
  references to errors balance, and where a value can be asked for without an exception.
\<close>

section \<open>Programs\<close>

datatype 'v maybe_op =
    MCtorValue nat 'v | MCtorCopy nat nat | MCtorMove nat nat | MCtorErrorCopy nat ptr | MCtorErrorMove nat ptr
  | MDtor nat | MAssignCopy nat nat | MAssignMove nat nat | MTakeValue nat | MTakeError nat

fun exec_maybe :: "('v \<Rightarrow> 'v) \<Rightarrow> 'v maybe_op \<Rightarrow> ('v, 'i) maybe_world \<Rightarrow> ('v, 'i) maybe_world outcome" where
  "exec_maybe moved (MCtorValue c v) w = Maybe_ctor_value c v w"
| "exec_maybe moved (MCtorCopy c d) w = Maybe_ctor_copy c d w"
| "exec_maybe moved (MCtorMove c d) w = Maybe_ctor_move moved c d w"
| "exec_maybe moved (MCtorErrorCopy c p) w = Maybe_ctor_error_copy c p w"
| "exec_maybe moved (MCtorErrorMove c p) w = Maybe_ctor_error_move c p w"
| "exec_maybe moved (MDtor c) w = Maybe_dtor c w"
| "exec_maybe moved (MAssignCopy c d) w = Maybe_assign_copy c d w"
| "exec_maybe moved (MAssignMove c d) w = Maybe_assign_move moved c d w"
| "exec_maybe moved (MTakeValue c) w = and_then (Maybe_TakeValue moved c w) (\<lambda>(_, w1). Returns w1)"
| "exec_maybe moved (MTakeError c) w = and_then (Maybe_TakeError c w) (\<lambda>(_, w1). Returns w1)"

text \<open>What the operations ask of their caller, with \<open>owned\<close> the references to errors the client has.\<close>

abbreviation refs_of :: "('v, 'i) maybe_world \<Rightarrow> ptr \<Rightarrow> nat" where
  "refs_of w \<equiv> error_refs (objects (m_error w))"

definition copyable :: "('v, 'i) maybe_world \<Rightarrow> nat \<Rightarrow> bool" where
  "copyable w d \<longleftrightarrow> m_kind w d \<noteq> None \<and> (\<forall>p. cells (m_error w) d = Some p \<longrightarrow> live (refs_of w) p)"

fun maybe_allowed :: "(ptr \<Rightarrow> nat) \<Rightarrow> 'v maybe_op \<Rightarrow> ('v, 'i) maybe_world \<Rightarrow> bool" where
  "maybe_allowed owned (MCtorValue c v) w \<longleftrightarrow> m_kind w c = None"
| "maybe_allowed owned (MCtorCopy c d) w \<longleftrightarrow> m_kind w c = None \<and> copyable w d"
| "maybe_allowed owned (MCtorMove c d) w \<longleftrightarrow> m_kind w c = None \<and> m_kind w d \<noteq> None"
| "maybe_allowed owned (MCtorErrorCopy c p) w \<longleftrightarrow> m_kind w c = None \<and> live (refs_of w) p"
| "maybe_allowed owned (MCtorErrorMove c p) w \<longleftrightarrow> m_kind w c = None \<and> (p = 0 \<or> 0 < owned p)"
| "maybe_allowed owned (MDtor c) w \<longleftrightarrow> m_kind w c \<noteq> None"
| "maybe_allowed owned (MAssignCopy c d) w \<longleftrightarrow> m_kind w c \<noteq> None \<and> copyable w d"
| "maybe_allowed owned (MAssignMove c d) w \<longleftrightarrow> m_kind w c \<noteq> None \<and> m_kind w d \<noteq> None"
| "maybe_allowed owned (MTakeValue c) w \<longleftrightarrow> m_kind w c = Some MaybeValue"
| "maybe_allowed owned (MTakeError c) w \<longleftrightarrow> m_kind w c = Some MaybeError"

fun maybe_owned_after :: "'v maybe_op \<Rightarrow> ('v, 'i) maybe_world \<Rightarrow> (ptr \<Rightarrow> nat) \<Rightarrow> ptr \<Rightarrow> nat" where
  "maybe_owned_after (MCtorErrorMove c p) w owned = (if p = 0 then owned else owned(p := owned p - 1))"
| "maybe_owned_after (MTakeError c) w owned =
     (case cells (m_error w) c of None \<Rightarrow> owned | Some p \<Rightarrow> if p = 0 then owned else owned(p := owned p + 1))"
| "maybe_owned_after _ w owned = owned"

text \<open>The tag tells which member is there, and the references to errors balance.\<close>

definition tagged :: "('v, 'i) maybe_world \<Rightarrow> bool" where
  "tagged w \<longleftrightarrow> (\<forall>c. (m_value w c \<noteq> None \<longleftrightarrow> m_kind w c = Some MaybeValue)
     \<and> (cells (m_error w) c \<noteq> None \<longleftrightarrow> m_kind w c = Some MaybeError))"

definition maybe_ok :: "('v, 'i) maybe_world \<Rightarrow> (ptr \<Rightarrow> nat) \<Rightarrow> bool" where
  "maybe_ok w owned \<longleftrightarrow> tagged w \<and> error.good (m_error w) (\<lambda>p. int (owned p))"

section \<open>Steps on the error codes\<close>

text \<open>What the operations of \<open>CntPtr\<close> that \<open>Maybe\<close> uses do to the cells.\<close>

lemma error_dtor:
  assumes good: "error.good e (\<lambda>p. int (owned p))" and "cells e c = Some p"
  shows "\<exists>e1. CntPtr_dtor ErrorCodeState c e = Returns e1 \<and> cells e1 = (cells e)(c := None)
    \<and> error.good e1 (\<lambda>p. int (owned p))"
proof -
  have "cnt_allowed (error_refs (objects e)) owned (Dtor c) e" using assms(2) by simp
  from error.exec_cnt_good [OF good this] obtain e1 where "CntPtr_dtor ErrorCodeState c e = Returns e1"
    and "error.good e1 (\<lambda>p. int (owned p))" by auto
  moreover from this(1) assms(2) have "cells e1 = (cells e)(c := None)"
    by (auto simp: CntPtr_dtor_def m_ptr_def checked_Release_def set_cell_def outcome_simps split: if_splits)
  ultimately show ?thesis by blast
qed

lemma error_copy:
  assumes good: "error.good e (\<lambda>p. int (owned p))" and "cells e c = None" and "cells e d = Some p"
    and "live (error_refs (objects e)) p"
  shows "\<exists>e1. CntPtr_ctor_copy ErrorCodeState c d e = Returns e1 \<and> cells e1 = (cells e)(c \<mapsto> p)
    \<and> error.good e1 (\<lambda>p. int (owned p))"
proof -
  have "cnt_allowed (error_refs (objects e)) owned (CtorCopy c d) e" using assms(2-4) by simp
  from error.exec_cnt_good [OF good this] obtain e1 where "CntPtr_ctor_copy ErrorCodeState c d e = Returns e1"
    and "error.good e1 (\<lambda>p. int (owned p))" by auto
  moreover from this(1) assms(3) have "cells e1 = (cells e)(c \<mapsto> p)"
    by (auto simp: CntPtr_ctor_copy_def m_ptr_def checked_AddRef_def set_cell_def outcome_simps split: if_splits)
  ultimately show ?thesis by blast
qed

lemma error_move:
  assumes good: "error.good e (\<lambda>p. int (owned p))" and "cells e c = None" and "cells e d = Some p"
  shows "\<exists>e1. CntPtr_ctor_move c d e = Returns e1 \<and> cells e1 = (cells e)(c \<mapsto> p, d \<mapsto> 0)
    \<and> error.good e1 (\<lambda>p. int (owned p))"
proof -
  have "cnt_allowed (error_refs (objects e)) owned (CtorMove c d) e" using assms(2,3) by simp
  from error.exec_cnt_good [OF good this] assms(3) show ?thesis
    by (auto simp: CntPtr_ctor_move_def m_ptr_def set_cell_def)
qed

lemma error_ctor_ptr:
  assumes good: "error.good e (\<lambda>p. int (owned p))" and "cells e c = None" and "live (error_refs (objects e)) p"
  shows "\<exists>e1. CntPtr_ctor_ptr ErrorCodeState c p e = Returns e1 \<and> cells e1 = (cells e)(c \<mapsto> p)
    \<and> error.good e1 (\<lambda>p. int (owned p))"
proof -
  have "cnt_allowed (error_refs (objects e)) owned (CtorPtr c p) e" using assms(2,3) by simp
  from error.exec_cnt_good [OF good this] obtain e1 where "CntPtr_ctor_ptr ErrorCodeState c p e = Returns e1"
    and "error.good e1 (\<lambda>p. int (owned p))" by auto
  moreover from this(1) have "cells e1 = (cells e)(c \<mapsto> p)"
    by (auto simp: CntPtr_ctor_ptr_def checked_AddRef_def set_cell_def outcome_simps split: if_splits)
  ultimately show ?thesis by blast
qed

text \<open>Dropping a reference leaves the errors of the other cells alive, with counts that did not grow.\<close>

lemma live_after_dtor:
  assumes g: "error.good e (\<lambda>p. int (owned p))" and g1: "error.good e1 (\<lambda>p. int (owned p))"
    and cells: "cells e1 = (cells e)(c := None)" and d: "cells e1 d = Some q" and live: "live (error_refs (objects e)) q"
  shows "live (error_refs (objects e1)) q"
proof (cases "q = 0")
  case False
  have "error_refs (objects e) q = holders (cells e) q + owned q" and e1: "error_refs (objects e1) q = holders (cells e1) q + owned q"
    using g g1 False by (auto simp: error.good_def credited_balanced balanced_def)
  moreover have "holders (cells e1) q \<le> holders (cells e) q"
    using holders_update [of "cells e" c None q] g by (simp add: cells error.good_def credited_def)
  moreover have "0 < holders (cells e1) q" using holders_pos [of "cells e1" d q] d g1 by (simp add: error.good_def credited_def)
  ultimately show ?thesis using live False by (simp add: live_def)
qed (simp add: live_def)

section \<open>Members\<close>

lemma tagged_member:
  "tagged w \<Longrightarrow> m_kind w c = Some MaybeValue \<Longrightarrow> \<exists>v. m_value w c = Some v \<and> cells (m_error w) c = None"
  "tagged w \<Longrightarrow> m_kind w c = Some MaybeError \<Longrightarrow> \<exists>p. m_value w c = None \<and> cells (m_error w) c = Some p"
  "tagged w \<Longrightarrow> m_kind w c = None \<Longrightarrow> m_value w c = None \<and> cells (m_error w) c = None"
  unfolding tagged_def by (metis MaybeKind.distinct(1) not_Some_eq option.inject option.distinct(1))+

lemmas member_simps = with_kind_def with_value_def set_kind_def set_value_def on_error_def

lemma destroy_member_ok:
  assumes ok: "maybe_ok w owned" and kind: "m_kind w c = Some k"
  shows "\<exists>w1. destroy_member k c w = Returns w1 \<and> m_kind w1 = m_kind w \<and> m_value w1 = (m_value w)(c := None)
    \<and> cells (m_error w1) = (cells (m_error w))(c := None) \<and> error.good (m_error w1) (\<lambda>p. int (owned p))
    \<and> (\<forall>d q. d \<noteq> c \<longrightarrow> cells (m_error w) d = Some q \<longrightarrow> live (refs_of w) q \<longrightarrow> live (refs_of w1) q)"
proof (cases k)
  case MaybeValue
  with ok kind tagged_member(1) [of w c] show ?thesis by (auto simp: maybe_ok_def member_simps fun_upd_idem)
next
  case MaybeError
  with ok kind tagged_member(2) [of w c] obtain p where p: "m_value w c = None" "cells (m_error w) c = Some p"
    and good: "error.good (m_error w) (\<lambda>p. int (owned p))" by (auto simp: maybe_ok_def)
  from error_dtor [OF good p(2)] obtain e1 where e1: "CntPtr_dtor ErrorCodeState c (m_error w) = Returns e1"
    "cells e1 = (cells (m_error w))(c := None)" "error.good e1 (\<lambda>p. int (owned p))" by blast
  have "live (error_refs (objects e1)) q" if "d \<noteq> c" and "cells (m_error w) d = Some q" and "live (refs_of w) q" for d q
    using live_after_dtor [OF good e1(3,2), of d q] that e1(2) by simp
  with MaybeError p e1 show ?thesis by (simp add: member_simps fun_upd_idem)
qed

text \<open>A variable without a member gets a copy of another, or takes it over.\<close>

definition has_room :: "('v, 'i) maybe_world \<Rightarrow> nat \<Rightarrow> nat \<Rightarrow> MaybeKind \<Rightarrow> bool" where
  "has_room w c d k \<longleftrightarrow> c \<noteq> d \<and> m_value w c = None \<and> cells (m_error w) c = None \<and>
     (if k = MaybeValue then \<exists>v. m_value w d = Some v \<and> cells (m_error w) d = None
      else \<exists>p. m_value w d = None \<and> cells (m_error w) d = Some p)"

lemma copy_member_ok:
  assumes "has_room w c d k" and good: "error.good (m_error w) (\<lambda>p. int (owned p))"
    and "\<forall>p. cells (m_error w) d = Some p \<longrightarrow> live (refs_of w) p"
  shows "\<exists>w1. copy_member k c d w = Returns w1 \<and> m_kind w1 = m_kind w \<and> m_value w1 = (m_value w)(c := m_value w d)
    \<and> cells (m_error w1) = (cells (m_error w))(c := cells (m_error w) d) \<and> error.good (m_error w1) (\<lambda>p. int (owned p))"
proof (cases k)
  case MaybeValue
  with assms show ?thesis by (auto simp: has_room_def member_simps fun_upd_idem)
next
  case MaybeError
  with assms(1) obtain p where "c \<noteq> d" and c: "m_value w c = None" "cells (m_error w) c = None"
    and d: "m_value w d = None" "cells (m_error w) d = Some p" by (auto simp: has_room_def)
  with error_copy [OF good c(2) d(2)] assms(3) MaybeError show ?thesis
    by (auto simp: member_simps fun_upd_idem)
qed

lemma move_member_ok:
  assumes "has_room w c d k" and good: "error.good (m_error w) (\<lambda>p. int (owned p))"
  shows "\<exists>w1. move_member moved k c d w = Returns w1 \<and> m_kind w1 = m_kind w
    \<and> m_value w1 = (m_value w)(c := m_value w d, d := map_option moved (m_value w d))
    \<and> cells (m_error w1) = (cells (m_error w))(c := cells (m_error w) d, d := map_option (\<lambda>_. 0) (cells (m_error w) d))
    \<and> error.good (m_error w1) (\<lambda>p. int (owned p))"
proof (cases k)
  case MaybeValue
  with assms show ?thesis by (auto simp: has_room_def member_simps fun_upd_idem)
next
  case MaybeError
  with assms(1) obtain p where "c \<noteq> d" and c: "m_value w c = None" "cells (m_error w) c = None"
    and d: "m_value w d = None" "cells (m_error w) d = Some p" by (auto simp: has_room_def)
  with error_move [OF good c(2) d(2)] MaybeError show ?thesis
    by (auto simp: member_simps fun_upd_idem)
qed

lemma tagged_room:
  assumes "tagged w" and "m_kind w c = None" and "m_kind w d = Some k"
  shows "has_room (set_kind c (Some k) w) c d k"
  using assms tagged_member [OF assms(1)] by (cases k) (auto simp: has_room_def set_kind_def)

lemma tagged_copied:
  assumes "tagged w" and "c \<noteq> d" and "m_kind w d = Some k"
    and "m_kind w1 = (m_kind w)(c \<mapsto> k)" and "m_value w1 = (m_value w)(c := m_value w d)"
    and "cells (m_error w1) = (cells (m_error w))(c := cells (m_error w) d)"
  shows "tagged w1"
  using assms unfolding tagged_def by auto

lemma tagged_moved:
  assumes "tagged w" and "c \<noteq> d" and "m_kind w d = Some k"
    and "m_kind w1 = (m_kind w)(c \<mapsto> k)" and "m_value w1 = (m_value w)(c := m_value w d, d := map_option f (m_value w d))"
    and "cells (m_error w1) = (cells (m_error w))(c := cells (m_error w) d, d := map_option g (cells (m_error w) d))"
  shows "tagged w1"
  using assms unfolding tagged_def by auto

section \<open>Every operation keeps the tag and the references in order\<close>

lemma assign_room:
  assumes ok: "maybe_ok w owned" and "c \<noteq> d" and "m_kind w c = Some k" and d: "m_kind w d = Some k1"
  shows "\<exists>w1. destroy_member k c w = Returns w1 \<and> m_kind w1 = m_kind w \<and> has_room (set_kind c (Some k1) w1) c d k1
    \<and> m_value w1 = (m_value w)(c := None) \<and> cells (m_error w1) = (cells (m_error w))(c := None)
    \<and> error.good (m_error w1) (\<lambda>p. int (owned p)) \<and> (\<forall>q. cells (m_error w) d = Some q \<longrightarrow> live (refs_of w) q \<longrightarrow> live (refs_of w1) q)"
proof -
  from destroy_member_ok [OF ok assms(3)] \<open>c \<noteq> d\<close> obtain w1 where w1: "destroy_member k c w = Returns w1" "m_kind w1 = m_kind w"
    "m_value w1 = (m_value w)(c := None)" "cells (m_error w1) = (cells (m_error w))(c := None)"
    "error.good (m_error w1) (\<lambda>p. int (owned p))" "\<forall>q. cells (m_error w) d = Some q \<longrightarrow> live (refs_of w) q \<longrightarrow> live (refs_of w1) q"
    by (metis (no_types, lifting))
  moreover have "has_room (set_kind c (Some k1) w1) c d k1"
    using \<open>c \<noteq> d\<close> d w1(3,4) ok tagged_member [of w d]
    by (cases k1) (auto simp: has_room_def set_kind_def maybe_ok_def)
  ultimately show ?thesis by blast
qed

lemma exec_maybe_ok:
  assumes ok: "maybe_ok w owned" and allowed: "maybe_allowed owned op w"
  shows "\<exists>w1. exec_maybe moved op w = Returns w1 \<and> maybe_ok w1 (maybe_owned_after op w owned)"
proof -
  from ok have tag: "tagged w" and good: "error.good (m_error w) (\<lambda>p. int (owned p))" by (simp_all add: maybe_ok_def)
  have same: "error.good (m_error (set_kind c k w1)) = error.good (m_error w1)" "refs_of (set_kind c k w1) = refs_of w1"
    "m_kind (set_kind c k w1) = (m_kind w1)(c := k)" "m_value (set_kind c k w1) = m_value w1"
    "cells (m_error (set_kind c k w1)) = cells (m_error w1)" for c k and w1 :: "('a, 'b) maybe_world"
    by (simp_all add: set_kind_def)
  show ?thesis
  proof (cases op)
    case (MCtorValue c v)
    with allowed tag good tagged_member(3) [OF tag, of c] show ?thesis
      by (auto simp: Maybe_ctor_value_def maybe_ok_def member_simps tagged_def)
  next
    case (MCtorCopy c d)
    with allowed obtain k where c: "m_kind w c = None" and d: "m_kind w d = Some k" and "c \<noteq> d" by (cases "c = d") (auto simp: copyable_def)
    from copy_member_ok [OF tagged_room [OF tag c d], of owned] allowed MCtorCopy good obtain w1
      where w1: "copy_member k c d (set_kind c (Some k) w) = Returns w1" "m_kind w1 = (m_kind w)(c \<mapsto> k)"
        "m_value w1 = (m_value w)(c := m_value w d)" "cells (m_error w1) = (cells (m_error w))(c := cells (m_error w) d)"
        "error.good (m_error w1) (\<lambda>p. int (owned p))" by (auto simp: same copyable_def)
    from tagged_copied [OF tag \<open>c \<noteq> d\<close> d w1(2-4)] w1(1,5) MCtorCopy d show ?thesis
      by (simp add: Maybe_ctor_copy_def with_kind_def maybe_ok_def)
  next
    case (MCtorMove c d)
    with allowed obtain k where c: "m_kind w c = None" and d: "m_kind w d = Some k" and "c \<noteq> d" by (cases "c = d") auto
    from move_member_ok [OF tagged_room [OF tag c d], of owned moved] good obtain w1
      where w1: "move_member moved k c d (set_kind c (Some k) w) = Returns w1" "m_kind w1 = (m_kind w)(c \<mapsto> k)"
        "m_value w1 = (m_value w)(c := m_value w d, d := map_option moved (m_value w d))"
        "cells (m_error w1) = (cells (m_error w))(c := cells (m_error w) d, d := map_option (\<lambda>_. 0) (cells (m_error w) d))"
        "error.good (m_error w1) (\<lambda>p. int (owned p))" by (auto simp: same)
    from tagged_moved [OF tag \<open>c \<noteq> d\<close> d w1(2-4)] w1(1,5) MCtorMove d show ?thesis
      by (simp add: Maybe_ctor_move_def with_kind_def maybe_ok_def)
  next
    case (MCtorErrorCopy c p)
    with allowed tagged_member(3) [OF tag, of c] have c: "m_value w c = None" "cells (m_error w) c = None" by auto
    with error_ctor_ptr [OF good c(2), of p] allowed MCtorErrorCopy tag show ?thesis
      by (auto simp: Maybe_ctor_error_copy_def maybe_ok_def member_simps tagged_def)
  next
    case (MCtorErrorMove c p)
    with allowed tagged_member(3) [OF tag, of c] have c: "m_value w c = None" "cells (m_error w) c = None" by auto
    have "cnt_allowed (refs_of w) owned (CtorAttach c p) (m_error w)" using c MCtorErrorMove allowed by simp
    from error.exec_cnt_good [OF good this] MCtorErrorMove tag c allowed show ?thesis
      by (auto simp: Maybe_ctor_error_move_def CntPtr_ctor_attach_def set_cell_def maybe_ok_def member_simps tagged_def)
  next
    case (MDtor c)
    with allowed obtain k where c: "m_kind w c = Some k" by auto
    from destroy_member_ok [OF ok c] obtain w1 where w1: "destroy_member k c w = Returns w1" "m_kind w1 = m_kind w"
      "m_value w1 = (m_value w)(c := None)" "cells (m_error w1) = (cells (m_error w))(c := None)"
      "error.good (m_error w1) (\<lambda>p. int (owned p))" by blast
    have "tagged (set_kind c None w1)" using tag w1(2-4) by (auto simp: tagged_def set_kind_def)
    with w1 c MDtor show ?thesis by (simp add: Maybe_dtor_def with_kind_def maybe_ok_def same)
  next
    case (MAssignCopy c d)
    show ?thesis
    proof (cases "c = d")
      case False
      with MAssignCopy allowed obtain k k1 where c: "m_kind w c = Some k" and d: "m_kind w d = Some k1" by (auto simp: copyable_def)
      from assign_room [OF ok False c d] obtain w1 where w1: "destroy_member k c w = Returns w1" "m_kind w1 = m_kind w"
        "has_room (set_kind c (Some k1) w1) c d k1" "m_value w1 = (m_value w)(c := None)"
        "cells (m_error w1) = (cells (m_error w))(c := None)" "error.good (m_error w1) (\<lambda>p. int (owned p))"
        "\<forall>q. cells (m_error w) d = Some q \<longrightarrow> live (refs_of w) q \<longrightarrow> live (refs_of w1) q" by blast
      from copy_member_ok [OF w1(3), of owned] w1 allowed MAssignCopy False obtain w2
        where w2: "copy_member k1 c d (set_kind c (Some k1) w1) = Returns w2" "m_kind w2 = (m_kind w)(c \<mapsto> k1)"
          "m_value w2 = (m_value w)(c := m_value w d)" "cells (m_error w2) = (cells (m_error w))(c := cells (m_error w) d)"
          "error.good (m_error w2) (\<lambda>p. int (owned p))" by (auto simp: same copyable_def)
      from tagged_copied [OF tag False d w2(2-4)] w2(1,5) w1(1,2) MAssignCopy False c d show ?thesis
        by (simp add: Maybe_assign_copy_def with_kind_def maybe_ok_def)
    qed (use MAssignCopy ok in \<open>simp add: Maybe_assign_copy_def\<close>)
  next
    case (MAssignMove c d)
    show ?thesis
    proof (cases "c = d")
      case False
      with MAssignMove allowed obtain k k1 where c: "m_kind w c = Some k" and d: "m_kind w d = Some k1" by auto
      from assign_room [OF ok False c d] obtain w1 where w1: "destroy_member k c w = Returns w1" "m_kind w1 = m_kind w"
        "has_room (set_kind c (Some k1) w1) c d k1" "m_value w1 = (m_value w)(c := None)"
        "cells (m_error w1) = (cells (m_error w))(c := None)" "error.good (m_error w1) (\<lambda>p. int (owned p))" by blast
      from move_member_ok [OF w1(3), of owned moved] w1 False obtain w2
        where w2: "move_member moved k1 c d (set_kind c (Some k1) w1) = Returns w2" "m_kind w2 = (m_kind w)(c \<mapsto> k1)"
          "m_value w2 = (m_value w)(c := m_value w d, d := map_option moved (m_value w d))"
          "cells (m_error w2) = (cells (m_error w))(c := cells (m_error w) d, d := map_option (\<lambda>_. 0) (cells (m_error w) d))"
          "error.good (m_error w2) (\<lambda>p. int (owned p))" by (auto simp: same)
      from tagged_moved [OF tag False d w2(2-4)] w2(1,5) w1(1,2) MAssignMove False c d show ?thesis
        by (simp add: Maybe_assign_move_def with_kind_def maybe_ok_def)
    qed (use MAssignMove ok in \<open>simp add: Maybe_assign_move_def\<close>)
  next
    case (MTakeValue c)
    with allowed tagged_member(1) [OF tag, of c] obtain v where c: "m_value w c = Some v" "m_kind w c = Some MaybeValue" by auto
    then have "tagged (w\<lparr>m_value := (m_value w)(c \<mapsto> moved v)\<rparr>)" using tag by (simp add: tagged_def)
    with c good MTakeValue show ?thesis by (simp add: Maybe_TakeValue_def member_simps maybe_ok_def)
  next
    case (MTakeError c)
    with allowed tagged_member(2) [OF tag, of c] obtain p where c: "cells (m_error w) c = Some p" "m_kind w c = Some MaybeError" by auto
    have "cnt_allowed (refs_of w) owned (Detach c) (m_error w)" using c by simp
    from error.exec_cnt_good [OF good this] c MTakeError tag show ?thesis
      by (auto simp: Maybe_TakeError_def CntPtr_Detach_def m_ptr_def set_cell_def member_simps maybe_ok_def tagged_def)
  qed
qed

section \<open>The properties\<close>

inductive maybe_reachable :: "('v \<Rightarrow> 'v) \<Rightarrow> ('v, 'i) maybe_world \<Rightarrow> (ptr \<Rightarrow> nat) \<Rightarrow> bool" for moved where
  initial: "\<forall>p. error_refs h p = 0 \<Longrightarrow>
     maybe_reachable moved \<lparr>m_kind = Map.empty, m_value = Map.empty, m_error = \<lparr>cells = Map.empty, objects = h\<rparr>\<rparr> (\<lambda>_. 0)"
| client: "maybe_reachable moved w owned \<Longrightarrow> \<forall>p. error_refs h p + owned p = refs_of w p + owned' p \<Longrightarrow>
     maybe_reachable moved (w\<lparr>m_error := (m_error w)\<lparr>objects := h\<rparr>\<rparr>) owned'"
| op: "maybe_reachable moved w owned \<Longrightarrow> maybe_allowed owned op w \<Longrightarrow> exec_maybe moved op w = Returns w1 \<Longrightarrow>
     maybe_reachable moved w1 (maybe_owned_after op w owned)"

lemma maybe_reachable_ok: "maybe_reachable moved w owned \<Longrightarrow> maybe_ok w owned"
proof (induction rule: maybe_reachable.induct)
  case (initial h)
  then show ?case by (simp add: maybe_ok_def tagged_def error.good_def credited_def holders_def)
next
  case (client w owned h owned')
  have "int (error_refs h p) = int (holders (cells (m_error w)) p) + int (owned' p)" if "p \<noteq> 0" for p
  proof -
    have "error_refs h p + owned p = refs_of w p + owned' p" using client.hyps(2) by blast
    moreover have "int (refs_of w p) = int (holders (cells (m_error w)) p) + int (owned p)"
      using client.IH that by (simp add: maybe_ok_def error.good_def credited_def)
    ultimately show ?thesis by linarith
  qed
  with client.IH show ?case by (simp add: maybe_ok_def tagged_def error.good_def credited_def)
next
  case (op w owned op w1)
  with exec_maybe_ok [OF op.IH op.hyps(2), of moved] show ?case by auto
qed

text \<open>A run: a variable gets a value, another an error the client gives away, which is then taken out.\<close>

definition one_error :: "nat error_heap" where
  "one_error = \<lparr>states = [64 \<mapsto> \<lparr>m_errorProvider = \<lparr>p_address = 1, p_guid = 7, p_throws = ThrowsErrorCode\<rparr>, m_errorInfo = 5,
     es_refCount = 1, m_isHandled = False, m_errorString = None\<rparr>], unhandled = []\<rparr>"

definition holding_error :: "(nat, nat) maybe_world" where
  "holding_error = \<lparr>m_kind = [0 \<mapsto> MaybeError], m_value = Map.empty, m_error = \<lparr>cells = [0 \<mapsto> 64], objects = one_error\<rparr>\<rparr>"

definition error_taken :: "(nat, nat) maybe_world" where
  "error_taken = \<lparr>m_kind = [0 \<mapsto> MaybeError], m_value = Map.empty, m_error = \<lparr>cells = [0 \<mapsto> 0], objects = one_error\<rparr>\<rparr>"

lemma holding_error_reachable: "maybe_reachable id holding_error (\<lambda>_. 0)"
proof -
  note defs = one_error_def error_refs_def
  have "maybe_reachable id \<lparr>m_kind = Map.empty, m_value = Map.empty :: nat \<Rightarrow> nat option,
      m_error = \<lparr>cells = Map.empty, objects = \<lparr>states = Map.empty :: ptr \<Rightarrow> nat error_state option, unhandled = []\<rparr>\<rparr>\<rparr> (\<lambda>_. 0)"
    by (rule maybe_reachable.initial) (simp add: error_refs_def)
  from maybe_reachable.client [OF this, of one_error "(\<lambda>_. 0)(64 := 1)"]
  have r: "maybe_reachable id \<lparr>m_kind = Map.empty, m_value = Map.empty :: nat \<Rightarrow> nat option,
      m_error = \<lparr>cells = Map.empty, objects = one_error\<rparr>\<rparr> ((\<lambda>_. 0)(64 := 1))" by (auto simp: defs)
  show ?thesis
    using maybe_reachable.op [OF r, of "MCtorErrorMove 0 64" holding_error]
    by (simp add: holding_error_def Maybe_ctor_error_move_def member_simps CntPtr_ctor_attach_def set_cell_def fun_upd_idem)
qed

lemma error_taken_reachable: "maybe_reachable id error_taken ((\<lambda>_. 0)(64 := 1))"
  using maybe_reachable.op [OF holding_error_reachable, of "MTakeError 0" error_taken]
  by (simp add: holding_error_def error_taken_def Maybe_TakeError_def member_simps CntPtr_Detach_def m_ptr_def set_cell_def)

text \<open>
  The tag of a \<open>Maybe\<close> always tells the truth. In every state a program over \<open>Maybe\<close>
  variables can reach, with the client sharing errors besides, exactly the member the tag names is
  constructed; the count of an error is the number of variables that hold it and of the references
  of the client; and no operation used as it asks crashes, so none touches a member that is not there,
  destroys one twice or leaves one behind.
\<close>

theorem Maybe_tag_tells:
  assumes "maybe_reachable moved w owned"
  shows "(\<forall>c. (m_value w c \<noteq> None \<longleftrightarrow> m_kind w c = Some MaybeValue)
      \<and> (cells (m_error w) c \<noteq> None \<longleftrightarrow> m_kind w c = Some MaybeError))
    \<and> (\<forall>p. p \<noteq> 0 \<longrightarrow> error_refs (objects (m_error w)) p = card {c. cells (m_error w) c = Some p} + owned p)
    \<and> (\<forall>op. maybe_allowed owned op w \<longrightarrow> returns (exec_maybe moved op w))"
proof (intro conjI)
  note ok = maybe_reachable_ok [OF assms]
  then show "\<forall>c. (m_value w c \<noteq> None \<longleftrightarrow> m_kind w c = Some MaybeValue)
      \<and> (cells (m_error w) c \<noteq> None \<longleftrightarrow> m_kind w c = Some MaybeError)" by (simp add: maybe_ok_def tagged_def)
  from ok show "\<forall>p. p \<noteq> 0 \<longrightarrow> error_refs (objects (m_error w)) p = card {c. cells (m_error w) c = Some p} + owned p"
    by (simp add: maybe_ok_def error.good_def credited_balanced balanced_def holders_def)
  from exec_maybe_ok [OF ok] show "\<forall>op. maybe_allowed owned op w \<longrightarrow> returns (exec_maybe moved op w)"
    by (metis returns.simps(1))
qed

lemma Maybe_tag_tells_witness: "returns (exec_maybe id (MAssignMove 0 0) holding_error)"
proof -
  have "maybe_allowed (\<lambda>_. 0) (MAssignMove 0 0) holding_error" by (simp add: holding_error_def)
  then show ?thesis using Maybe_tag_tells [OF holding_error_reachable] by blast
qed

text \<open>
  When \<open>GetValueElseThrow\<close> throws. A value is returned; an error that has a state is thrown, as
  the stored exception, as one of the provider's own class or as one that carries the error; but an error whose state was taken, by
  \<open>TakeError\<close> or a move, is not thrown: the value that is not there is read.
\<close>

theorem GetValueElseThrow_cases:
  assumes "maybe_reachable moved w owned" and "m_kind w c \<noteq> None"
  shows "(m_kind w c = Some MaybeValue \<longrightarrow> (\<exists>v. m_value w c = Some v \<and> Maybe_GetValueElseThrow c w = Returns (Returned v, w)))
    \<and> (\<forall>p. m_kind w c = Some MaybeError \<longrightarrow> cells (m_error w) c = Some p \<longrightarrow>
        (if p = 0 then Maybe_GetValueElseThrow c w = Crashes NotConstructed
         else \<exists>e w1. Maybe_GetValueElseThrow c w = Returns (Thrown e, w1)
           \<and> (\<exists>s. states (objects (m_error w)) p = Some s
              \<and> e = (case p_throws (m_errorProvider s) of RethrowsStored \<Rightarrow> StoredException (m_errorInfo s)
                    | ThrowsOwn name \<Rightarrow> OwnException name | ThrowsErrorCode \<Rightarrow> ErrorCodeException p))))"
proof -
  have tag: "tagged w" and good: "error.good (m_error w) (\<lambda>p. int (owned p))"
    using maybe_reachable_ok [OF assms(1)] by (simp_all add: maybe_ok_def)
  have "\<exists>s. states (objects (m_error w)) p = Some s" if "cells (m_error w) c = Some p" and "p \<noteq> 0" for p
  proof -
    have "0 < holders (cells (m_error w)) p" using that holders_pos [of "cells (m_error w)" c p] good
      by (simp add: error.good_def credited_def)
    with good that have "0 < error_refs (objects (m_error w)) p"
      by (auto simp: error.good_def credited_balanced balanced_def)
    then show ?thesis by (auto simp: error_refs_def split: option.splits)
  qed
  with tagged_member(1,2) [OF tag, of c] assms(2) show ?thesis
    by (fastforce simp: Maybe_GetValueElseThrow_def member_simps throw_error_def m_ptr_def error_code_ops error_state_ops
        split: throw_kind.splits)
qed

lemma GetValueElseThrow_cases_witness: "Maybe_GetValueElseThrow 0 error_taken = Crashes NotConstructed"
proof -
  have "m_kind error_taken 0 \<noteq> None" and k: "m_kind error_taken 0 = Some MaybeError" "cells (m_error error_taken) 0 = Some 0"
    by (simp_all add: error_taken_def)
  from GetValueElseThrow_cases [OF error_taken_reachable this(1)] k show ?thesis by force
qed

lemma kind_cases:
  obtains "x = None" | "x = Some MaybeValue" | "x = Some MaybeError"
  by (metis MaybeKind.exhaust not_Some_eq)

text \<open>The tags and the errors after a call.\<close>

definition tags_and_errors ::
  "(unit, 'i) maybe_world outcome \<Rightarrow> ((nat \<Rightarrow> MaybeKind option) \<times> 'i error_heap cnt_world) outcome" where
  "tags_and_errors m = and_then m (\<lambda>w. Returns (m_kind w, m_error w))"

lemma void_assign_member:
  assumes "tagged w" and "c \<noteq> d" and "m_kind w c = Some k"
    and that: "\<And>w1 w2. m_kind w1 = m_kind w \<Longrightarrow> m_kind w2 = m_kind w \<Longrightarrow> m_error w1 = m_error w2 \<Longrightarrow>
      m_value w2 d = m_value w d \<Longrightarrow> tags_and_errors (f w1) = tags_and_errors (g w2)"
  shows "tags_and_errors (and_then (if k = MaybeError then on_error (CntPtr_dtor ErrorCodeState c) w else Returns w) f)
    = tags_and_errors (and_then (destroy_member k c w) g)"
proof (cases k)
  case MaybeValue
  with assms tagged_member(1) [OF assms(1), of c] obtain v where "m_value w c = Some v" by auto
  with MaybeValue \<open>c \<noteq> d\<close> show ?thesis by (simp add: member_simps) (rule that; simp)
next
  case MaybeError
  then show ?thesis
    by (cases "CntPtr_dtor ErrorCodeState c (m_error w)") (simp_all add: member_simps, rule that, simp_all)
qed

text \<open>
  The specialisation for \<open>void\<close> agrees with the template. On variables whose tag tells the truth,
  each constructor, assignment and the destructor of \<open>Maybe<void>\<close> ends as the one of \<open>Maybe<T>\<close> for
  a type with one value does, with the same tags and the same errors.
\<close>

theorem MaybeVoid_agrees:
  assumes tag: "tagged w"
  shows "tags_and_errors (MaybeVoid_ctor c w) = tags_and_errors (Maybe_ctor_value c () w)
    \<and> tags_and_errors (MaybeVoid_ctor_copy c d w) = tags_and_errors (Maybe_ctor_copy c d w)
    \<and> tags_and_errors (MaybeVoid_ctor_move c d w) = tags_and_errors (Maybe_ctor_move moved c d w)
    \<and> tags_and_errors (MaybeVoid_dtor c w) = tags_and_errors (Maybe_dtor c w)
    \<and> tags_and_errors (MaybeVoid_assign_copy c d w) = tags_and_errors (Maybe_assign_copy c d w)
    \<and> tags_and_errors (MaybeVoid_assign_move c d w) = tags_and_errors (Maybe_assign_move moved c d w)"
proof (intro conjI)
  have val: "\<exists>v. m_value w d = Some v" if "m_kind w d = Some MaybeValue" for d
    using tagged_member(1) [OF tag that] by auto
  show "tags_and_errors (MaybeVoid_ctor c w) = tags_and_errors (Maybe_ctor_value c () w)"
    by (simp add: MaybeVoid_ctor_def Maybe_ctor_value_def tags_and_errors_def member_simps)
  show "tags_and_errors (MaybeVoid_ctor_copy c d w) = tags_and_errors (Maybe_ctor_copy c d w)"
    using val [of d]
    by (cases "m_kind w d" rule: kind_cases; fastforce simp: MaybeVoid_ctor_copy_def Maybe_ctor_copy_def tags_and_errors_def member_simps)
  show "tags_and_errors (MaybeVoid_ctor_move c d w) = tags_and_errors (Maybe_ctor_move moved c d w)"
    using val [of d]
    by (cases "m_kind w d" rule: kind_cases; fastforce simp: MaybeVoid_ctor_move_def Maybe_ctor_move_def tags_and_errors_def member_simps)
  show "tags_and_errors (MaybeVoid_dtor c w) = tags_and_errors (Maybe_dtor c w)"
    using val [of c]
    by (cases "m_kind w c" rule: kind_cases; fastforce simp: MaybeVoid_dtor_def Maybe_dtor_def tags_and_errors_def member_simps)
  have copied: "tags_and_errors (with_kind w1 d (\<lambda>k1. let w2 = set_kind c (Some k1) w1
        in if k1 = MaybeError then on_error (CntPtr_ctor_copy ErrorCodeState c d) w2 else Returns w2))
      = tags_and_errors (with_kind w2 d (\<lambda>k1. copy_member k1 c d (set_kind c (Some k1) w2)))"
    if "m_kind w1 = m_kind w" "m_kind w2 = m_kind w" "m_error w1 = m_error w2" "m_value w2 d = m_value w d" for w1 w2
    using that val [of d]
    by (cases "m_kind w d" rule: kind_cases; fastforce simp: tags_and_errors_def member_simps and_then_assoc)
  have taken: "tags_and_errors (with_kind w1 d (\<lambda>k1. let w2 = set_kind c (Some k1) w1
        in if k1 = MaybeError then on_error (CntPtr_ctor_move c d) w2 else Returns w2))
      = tags_and_errors (with_kind w2 d (\<lambda>k1. move_member moved k1 c d (set_kind c (Some k1) w2)))"
    if "m_kind w1 = m_kind w" "m_kind w2 = m_kind w" "m_error w1 = m_error w2" "m_value w2 d = m_value w d" for w1 w2
    using that val [of d]
    by (cases "m_kind w d" rule: kind_cases; fastforce simp: tags_and_errors_def member_simps and_then_assoc)
  show "tags_and_errors (MaybeVoid_assign_copy c d w) = tags_and_errors (Maybe_assign_copy c d w)"
  proof (cases "c = d \<or> m_kind w c = None")
    case False
    then obtain k where "c \<noteq> d" and k: "m_kind w c = Some k" by auto
    then have "MaybeVoid_assign_copy c d w
        = and_then (if k = MaybeError then on_error (CntPtr_dtor ErrorCodeState c) w else Returns w) (\<lambda>w1.
            with_kind w1 d (\<lambda>k1. let w2 = set_kind c (Some k1) w1
              in if k1 = MaybeError then on_error (CntPtr_ctor_copy ErrorCodeState c d) w2 else Returns w2))"
      and "Maybe_assign_copy c d w = and_then (destroy_member k c w) (\<lambda>w1.
            with_kind w1 d (\<lambda>k1. copy_member k1 c d (set_kind c (Some k1) w1)))"
      by (simp_all add: MaybeVoid_assign_copy_def Maybe_assign_copy_def with_kind_def [of w c])
    then show ?thesis
      by (simp only:) (rule void_assign_member [OF tag \<open>c \<noteq> d\<close> k], rule copied)
  qed (auto simp: MaybeVoid_assign_copy_def Maybe_assign_copy_def with_kind_def [of w c])
  show "tags_and_errors (MaybeVoid_assign_move c d w) = tags_and_errors (Maybe_assign_move moved c d w)"
  proof (cases "c = d \<or> m_kind w c = None")
    case False
    then obtain k where "c \<noteq> d" and k: "m_kind w c = Some k" by auto
    then have "MaybeVoid_assign_move c d w
        = and_then (if k = MaybeError then on_error (CntPtr_dtor ErrorCodeState c) w else Returns w) (\<lambda>w1.
            with_kind w1 d (\<lambda>k1. let w2 = set_kind c (Some k1) w1
              in if k1 = MaybeError then on_error (CntPtr_ctor_move c d) w2 else Returns w2))"
      and "Maybe_assign_move moved c d w = and_then (destroy_member k c w) (\<lambda>w1.
            with_kind w1 d (\<lambda>k1. move_member moved k1 c d (set_kind c (Some k1) w1)))"
      by (simp_all add: MaybeVoid_assign_move_def Maybe_assign_move_def with_kind_def [of w c])
    then show ?thesis
      by (simp only:) (rule void_assign_member [OF tag \<open>c \<noteq> d\<close> k], rule taken)
  qed (auto simp: MaybeVoid_assign_move_def Maybe_assign_move_def with_kind_def [of w c])
qed

lemma MaybeVoid_agrees_witness:
  "tags_and_errors (MaybeVoid_assign_move 1 0 \<lparr>m_kind = [0 \<mapsto> MaybeError, 1 \<mapsto> MaybeValue], m_value = [1 \<mapsto> ()],
       m_error = \<lparr>cells = [0 \<mapsto> 64], objects = one_error\<rparr>\<rparr>)
   = tags_and_errors (Maybe_assign_move id 1 0 \<lparr>m_kind = [0 \<mapsto> MaybeError, 1 \<mapsto> MaybeValue], m_value = [1 \<mapsto> ()],
       m_error = \<lparr>cells = [0 \<mapsto> 64], objects = one_error\<rparr>\<rparr>)"
proof -
  have "tagged \<lparr>m_kind = [0 \<mapsto> MaybeError, 1 \<mapsto> MaybeValue], m_value = [1 \<mapsto> ()],
       m_error = \<lparr>cells = [0 \<mapsto> 64], objects = one_error\<rparr>\<rparr>" by (simp add: tagged_def)
  from MaybeVoid_agrees [OF this] show ?thesis by blast
qed

end
