(* ===== verification/Error_Guarantees.thy ===== *)
theory Error_Guarantees
  imports Error_Code
begin

text \<open>What error codes guarantee to the code that shares and handles them.\<close>

section \<open>Providers recognise their own errors\<close>

text \<open>Provider objects at the same address are the same object.\<close>

definition same_object :: "error_provider \<Rightarrow> error_provider \<Rightarrow> bool" where
  "same_object A B \<longleftrightarrow> (p_address A = p_address B \<longrightarrow> A = B)"

text \<open>
  C33: An error is seen through the provider that made it, and through no other. Right after
  \<open>MakeErrorCode\<close> a provider gets the error data back with \<open>As\<close> and \<open>HandleAs\<close> exactly if it has the
  GUID of the maker, be it another object of the same kind; only \<open>HandleAs\<close> marks the error as
  handled, and only when it gives the data. \<open>GetErrorInfo\<close> crashes for the others. \<open>HandleAndThrow\<close>
  handles the error and always throws: the stored exception, one of the provider's own class, or one
  that carries the error with a reference of its own; the empty error throws nothing.
\<close>

theorem errors_seen_through_provider:
  assumes "same_object A B" and "p \<noteq> 0" and "h = ErrorProvider_MakeErrorCode A i p h0"
  shows "ErrorCode_As B p h = Returns (if p_guid A = p_guid B then Some i else None, h)
    \<and> (\<exists>h1. ErrorCode_HandleAs B p h = Returns (if p_guid A = p_guid B then Some i else None, h1)
        \<and> ErrorCode_IsHandled p h1 = Returns (p_guid A = p_guid B) \<and> error_refs h1 = error_refs h)
    \<and> ErrorProvider_GetErrorInfo B p h = (if p_guid A = p_guid B then Returns i
        else Crashes (VerifyElseCrash ''Cannot get error info from error code.''))
    \<and> (\<exists>h1. ErrorCode_HandleAndThrow p h = Returns (Some (case p_throws A of RethrowsStored \<Rightarrow> StoredException i
              | ThrowsOwn name \<Rightarrow> OwnException name | ThrowsErrorCode \<Rightarrow> ErrorCodeException p), h1)
        \<and> ErrorCode_IsHandled p h1 = Returns True
        \<and> error_refs h1 p = (if p_throws A = ThrowsErrorCode then 2 else 1))
    \<and> ErrorCode_HandleAndThrow 0 h = Returns (None, h)"
proof -
  have "p_address A = p_address B \<or> p_guid B = p_guid A \<longleftrightarrow> p_guid A = p_guid B"
    using assms(1) by (auto simp: same_object_def)
  with assms(2,3) show ?thesis
    by (cases "p_throws A") (auto simp: error_code_ops error_state_ops error_refs_def fun_eq_iff)
qed

definition hresult_provider :: error_provider where
  "hresult_provider = \<lparr>p_address = 1, p_guid = 7, p_throws = ThrowsErrorCode\<rparr>"

lemma errors_seen_through_provider_witness:
  "ErrorCode_As hresult_provider 64 (ErrorProvider_MakeErrorCode hresult_provider (5 :: nat) 64 \<lparr>states = Map.empty, unhandled = []\<rparr>)
    = Returns (Some 5, ErrorProvider_MakeErrorCode hresult_provider 5 64 \<lparr>states = Map.empty, unhandled = []\<rparr>)"
  using errors_seen_through_provider [of hresult_provider hresult_provider 64 _ "5 :: nat" "\<lparr>states = Map.empty, unhandled = []\<rparr>", OF _ _ refl]
  by (simp add: same_object_def)

section \<open>Unhandled errors are reported\<close>

definition reports :: "'i error_heap \<Rightarrow> 'i error_heap \<Rightarrow> bool" where
  "reports h h1 \<longleftrightarrow> (\<exists>ps. unhandled h1 = unhandled h @ ps \<and> distinct ps
     \<and> set ps = {p. (\<exists>s. states h p = Some s \<and> \<not> m_isHandled s) \<and> states h1 p = None})"

lemma AddRef_reports_none:
  assumes "unless_null (AddRef ErrorCodeState) p h = Returns h1"
  shows "unhandled h1 = unhandled h"
    and "(\<exists>s. states h1 q = Some s \<and> \<not> m_isHandled s) \<longleftrightarrow> (\<exists>s. states h q = Some s \<and> \<not> m_isHandled s)"
  using assms by (auto simp: unless_null_def error_state_ops split: option.splits if_splits)

lemma Release_reports:
  assumes "unless_null (Release ErrorCodeState) p h = Returns h1"
  shows "reports h h1"
proof (cases "p = 0")
  case False
  with assms obtain s where s: "states h p = Some s"
    by (auto simp: unless_null_def error_state_ops split: option.splits)
  have "unhandled h1 = unhandled h @ (if es_refCount s = 1 \<and> \<not> m_isHandled s then [p] else [])"
    and "states h1 = (states h)(p := if es_refCount s = 1 then None else Some (s\<lparr>es_refCount := es_refCount s - 1\<rparr>))"
    using assms s False by (cases "es_refCount s = 1"; auto simp: unless_null_def error_state_ops)+
  then show ?thesis using s by (auto simp: reports_def)
qed (use assms in \<open>auto simp: reports_def\<close>)

text \<open>
  An error that nobody handled is reported when it goes, once. Any operation of a program over
  \<open>ErrorCode\<close> variables reports to the provider exactly the errors whose last reference it drops
  and that are not handled at that time.
\<close>

theorem unhandled_errors_reported:
  assumes "exec_cnt ErrorCodeState op w = Returns w1"
  shows "\<exists>ps. unhandled (objects w1) = unhandled (objects w) @ ps \<and> distinct ps
    \<and> set ps = {p. (\<exists>s. states (objects w) p = Some s \<and> \<not> m_isHandled s) \<and> states (objects w1) p = None}"
proof -
  from exec_cnt_objects [OF assms] obtain h
    where "unless_null (AddRef ErrorCodeState) (added_ref op w) (objects w) = Returns h"
      and "unless_null (Release ErrorCodeState) (dropped_ref op w) h = Returns (objects w1)"
    by (auto simp: outcome_simps)
  from Release_reports [OF this(2)] AddRef_reports_none [OF this(1)] show ?thesis by (simp add: reports_def)
qed

definition error_world :: "bool \<Rightarrow> nat error_heap cnt_world" where
  "error_world handled = \<lparr>cells = [0 \<mapsto> 64], objects = \<lparr>states = [64 \<mapsto> \<lparr>m_errorProvider = hresult_provider, m_errorInfo = 5,
     es_refCount = 1, m_isHandled = handled, m_errorString = None\<rparr>], unhandled = []\<rparr>\<rparr>"

lemma unhandled_errors_reported_witness:
  "\<exists>ps. unhandled \<lparr>states = Map.empty, unhandled = [64]\<rparr> = unhandled (objects (error_world False)) @ ps \<and> distinct ps
    \<and> set ps = {p. (\<exists>s. states (objects (error_world False)) p = Some s \<and> \<not> m_isHandled s)
        \<and> states \<lparr>states = Map.empty :: ptr \<Rightarrow> nat error_state option, unhandled = [64]\<rparr> p = None}"
  using unhandled_errors_reported [of "Dtor 0" "error_world False" "\<lparr>cells = Map.empty, objects = \<lparr>states = Map.empty, unhandled = [64]\<rparr>\<rparr>"]
  by (simp add: error_world_def CntPtr_dtor_def m_ptr_def set_cell_def checked_Release_def error_state_ops)

section \<open>The spelling of an \<open>HRESULT\<close>\<close>

definition hex_value :: "char \<Rightarrow> nat" where
  "hex_value c = (if c \<in> set ''0123456789'' then of_char c - 48 else of_char c - 55)"

lemma hex_value_digit: "d < 16 \<Longrightarrow> hex_value (hex_digit d) = d \<and> hex_digit d \<in> set ''0123456789ABCDEF''"
proof -
  have "list_all (\<lambda>d. hex_value (hex_digit d) = d \<and> hex_digit d \<in> set ''0123456789ABCDEF'') [0..<16]" by code_simp
  then show "d < 16 \<Longrightarrow> hex_value (hex_digit d) = d \<and> hex_digit d \<in> set ''0123456789ABCDEF''" by (simp add: list_all_iff)
qed

lemma hex_digits_value:
  "foldl (\<lambda>n c. 16 * n + hex_value c) a (map (\<lambda>k. hex_digit (n div 16 ^ k mod 16)) (rev [0..<m])) = 16 ^ m * a + n mod 16 ^ m"
proof (induction m arbitrary: a)
  case (Suc m)
  have "n mod 16 ^ Suc m = 16 ^ m * (n div 16 ^ m mod 16) + n mod 16 ^ m"
    using mod_mult2_eq [of n "16 ^ m" 16] by (simp add: mult.commute)
  with Suc hex_value_digit [of "n div 16 ^ m mod 16"] show ?case by (simp add: algebra_simps)
qed simp

text \<open>
  The string of an \<open>HRESULT\<close> error is its value in eight upper case hexadecimal digits after
  a fixed prefix, so it can be read back, and different codes have different strings.
\<close>

theorem HResult_ToString_spells:
  "\<exists>ds. HResult_ToString hr = ''HRESULT: 0x'' @ ds \<and> length ds = 8 \<and> set ds \<subseteq> set ''0123456789ABCDEF''
    \<and> foldl (\<lambda>n c. 16 * n + hex_value c) 0 ds = unat hr"
proof -
  have "unat hr < 16 ^ 8" using unsigned_less [of hr] by simp
  then have "foldl (\<lambda>n c. 16 * n + hex_value c) 0 (map (\<lambda>k. hex_digit (unat hr div 16 ^ k mod 16)) (rev [0..<8])) = unat hr"
    using hex_digits_value [of 0 "unat hr" 8] by simp
  moreover have "set (map (\<lambda>k. hex_digit (unat hr div 16 ^ k mod 16)) (rev [0..<8])) \<subseteq> set ''0123456789ABCDEF''"
    unfolding set_map by (rule image_subsetI, rule hex_value_digit [THEN conjunct2]) simp
  ultimately show ?thesis unfolding HResult_ToString_def by (intro exI conjI) (simp_all del: upt_rec_numeral)
qed

end
