(* ===== verification/Tag_Utils.thy ===== *)
theory Tag_Utils
  imports Mso_Prelude
begin

unbundle bit_operations_syntax

text \<open>
  Tags and their spelling (\<open>libs/tagUtils/include/tagUtils/tagUtils.h\<close>): a tag is a 32-bit number
  that is written as a decimal number, as four characters, or as five letters and digits.
\<close>

section \<open>Characters\<close>

text \<open>
  The code is a template in the character type \<open>T\<close>. A character is the value it is promoted to in
  arithmetic, 32 bits wide; \<open>cast\<close> is \<open>static_cast<T>\<close>: \<open>char\<close> keeps eight bits and is
  signed, \<open>char16_t\<close> keeps sixteen, \<open>wchar_t\<close> and \<open>char32_t\<close> keep all.
\<close>

type_synonym tchar = "32 word"

definition cast_char :: "32 word \<Rightarrow> tchar" where
  "cast_char v = scast (ucast v :: 8 word)"

definition cast_char16 :: "32 word \<Rightarrow> tchar" where
  "cast_char16 v = ucast (ucast v :: 16 word)"

definition cast_char32 :: "32 word \<Rightarrow> tchar" where
  "cast_char32 v = v"

text \<open>The 64 symbols of \<open>SymbolSpace\<close>: 97 is \<open>a\<close>, 48 is \<open>0\<close>, 42 is \<open>*\<close>, and a null at the end.\<close>

definition symbol_space :: "tchar list" where
  "symbol_space = map (\<lambda>i. 97 + of_nat i) [0..<26] @ map (\<lambda>i. 48 + of_nat i) [0..<10] @ replicate 28 42 @ [0]"

definition symbol :: "nat \<Rightarrow> tchar outcome" where
  "symbol i = (if i < length symbol_space then Returns (symbol_space ! i) else Crashes OutOfBounds)"

text \<open>
  A letter has the value of its place in the alphabet, a digit comes after the letters, and any
  other character is its own value. The comparisons are between promoted characters, and a
  negative one is above \<open>z\<close> as it is below \<open>0\<close>: it is in neither range.
\<close>

definition TagLetterConvertValue :: "(32 word \<Rightarrow> tchar) \<Rightarrow> tchar \<Rightarrow> tchar" where
  "TagLetterConvertValue cast c =
     (if 97 \<le> c \<and> c \<le> 122 then cast (c - 97)
      else if 48 \<le> c \<and> c \<le> 57 then cast (c - 48 + (122 - 97) + 1)
      else c)"

section \<open>From a tag to a string\<close>

text \<open>
  The characters before the null that ends the string. \<open>digits\<close> is the loop of
  \<open>NumericTagToString\<close> over the places; \<open>insertDigit\<close> is the length of the output.
\<close>

fun digits :: "32 word list \<Rightarrow> 32 word \<Rightarrow> tchar list \<Rightarrow> tchar list outcome" where
  "digits [] iTag out = Returns out"
| "digits (place # places) iTag out =
     (let digit = iTag div place
      in if iTag = 0 \<or> digit \<noteq> 0 \<or> length out \<noteq> 0
         then and_then (symbol (26 + unat digit)) (\<lambda>c. digits places (iTag - place * digit) (out @ [c]))
         else digits places iTag out)"

definition NumericTagToString :: "32 word \<Rightarrow> tchar list outcome" where
  "NumericTagToString iTag = digits [10000, 1000, 100, 10, 1] iTag []"

definition FourCharTagToString :: "(32 word \<Rightarrow> tchar) \<Rightarrow> 32 word \<Rightarrow> tchar list outcome" where
  "FourCharTagToString cast iTag =
     Returns (map (\<lambda>n. cast (drop_bit n iTag AND 0xFF)) [24, 16, 8, 0])"

definition FiveCharTagToString :: "32 word \<Rightarrow> tchar list outcome" where
  "FiveCharTagToString iTag =
     and_then (symbol (unat (drop_bit 24 iTag AND 0x3F))) (\<lambda>c0.
     and_then (symbol (unat (drop_bit 18 iTag AND 0x3F))) (\<lambda>c1.
     and_then (symbol (unat (drop_bit 12 iTag AND 0x3F))) (\<lambda>c2.
     and_then (symbol (unat (drop_bit 6 iTag AND 0x3F))) (\<lambda>c3.
     and_then (symbol (unat (iTag AND 0x3F))) (\<lambda>c4.
       Returns [c0, c1, c2, c3, c4])))))"

definition MAX_TAG_CCH :: nat where "MAX_TAG_CCH = 6"

definition m_iMaxNumericTag :: "32 word" where "m_iMaxNumericTag = 0xFFFF"

definition m_iMinOldSchemeHighByteValue :: "32 word" where "m_iMinOldSchemeHighByteValue = 36"

text \<open>\<open>None\<close> is the answer \<open>false\<close>; \<open>result\<close> tells whether there is a buffer, of \<open>cch\<close> characters.\<close>

definition ConvertTagToStringInternal ::
  "(32 word \<Rightarrow> tchar) \<Rightarrow> 32 word \<Rightarrow> bool \<Rightarrow> nat \<Rightarrow> tchar list option outcome" where
  "ConvertTagToStringInternal cast iTag result cch =
     (if cch < MAX_TAG_CCH \<or> \<not> result then Returns None
      else and_then
        (if iTag \<le> m_iMaxNumericTag then NumericTagToString iTag
         else if drop_bit 24 iTag \<ge> m_iMinOldSchemeHighByteValue then FourCharTagToString cast iTag
         else FiveCharTagToString iTag) (\<lambda>s. Returns (Some s)))"

text \<open>
  \<open>TagHolder\<close>: the buffer stays empty for an untagged value unless \<open>formatZero\<close> is set. The constant
  \<open>UNTAGGED\<close> is 0, or four digits 0 where the header is compiled for POSIX.
\<close>

definition UNTAGGED :: "bool \<Rightarrow> 32 word" where
  "UNTAGGED posix = (if posix then 0x30303030 else 0)"

definition IsUntagged :: "bool \<Rightarrow> 32 word \<Rightarrow> bool" where
  "IsUntagged posix value \<longleftrightarrow> value = 0 \<or> value = UNTAGGED posix"

definition TagHolder :: "bool \<Rightarrow> (32 word \<Rightarrow> tchar) \<Rightarrow> 32 word \<Rightarrow> bool \<Rightarrow> tchar list outcome" where
  "TagHolder posix cast iTag formatZero =
     (if \<not> formatZero \<and> IsUntagged posix iTag then Returns []
      else and_then (ConvertTagToStringInternal cast iTag True MAX_TAG_CCH) (\<lambda>s.
        Returns (case s of None \<Rightarrow> [] | Some s \<Rightarrow> s)))"

section \<open>From a string to a tag\<close>

definition ConvertStringToTagInternal :: "(32 word \<Rightarrow> tchar) \<Rightarrow> tchar list \<Rightarrow> 32 word" where
  "ConvertStringToTagInternal cast wz =
     (let v = TagLetterConvertValue cast
      in if length wz = 4
         then push_bit 24 (wz ! 0) OR push_bit 16 (wz ! 1) OR push_bit 8 (wz ! 2) OR wz ! 3
         else if length wz = 5
         then push_bit 6 (push_bit 6 (push_bit 6 (push_bit 6 (v (wz ! 0)) + v (wz ! 1)) + v (wz ! 2)) + v (wz ! 3)) + v (wz ! 4)
         else 0)"

section \<open>Symbols\<close>

lemma length_symbol_space [simp]: "length symbol_space = 65"
  by (simp add: symbol_space_def)

text \<open>A cast that leaves the ASCII characters alone, as all of them do.\<close>

definition ascii_cast :: "(32 word \<Rightarrow> tchar) \<Rightarrow> bool" where
  "ascii_cast cast \<longleftrightarrow> (\<forall>v < 128. cast v = v)"

definition symbol_value :: "nat \<Rightarrow> nat" where
  "symbol_value i = (if i < 36 then i else if i < 64 then 42 else 0)"

lemma all_symbols: "list_all (\<lambda>i. TagLetterConvertValue cast_char32 (symbol_space ! i) = of_nat (symbol_value i)) [0..<65]"
  by code_simp

lemma symbol_letters:
  assumes "i < 65"
  shows "TagLetterConvertValue cast_char32 (symbol_space ! i) = of_nat (symbol_value i)"
  using all_symbols assms by (simp add: list_all_iff)

lemma TagLetterConvertValue_cast:
  assumes "ascii_cast cast"
  shows "TagLetterConvertValue cast c = TagLetterConvertValue cast_char32 c"
proof -
  have "97 \<le> c \<Longrightarrow> c \<le> 122 \<Longrightarrow> c - 97 < 128" and "48 \<le> c \<Longrightarrow> c \<le> 57 \<Longrightarrow> c - 48 + (122 - 97) + 1 < 128"
    by uint_arith+
  with assms show ?thesis by (simp add: ascii_cast_def TagLetterConvertValue_def cast_char32_def)
qed

lemma symbol_value_small: "i < 64 \<Longrightarrow> symbol_value i < 64"
  by (simp add: symbol_value_def)

lemma digit_symbol: "d < 10 \<Longrightarrow> symbol (26 + d) = Returns (48 + of_nat d)"
proof -
  have "list_all (\<lambda>d. symbol_space ! (26 + d) = 48 + of_nat d) [0..<10]" by code_simp
  then show "d < 10 \<Longrightarrow> symbol (26 + d) = Returns (48 + of_nat d)" by (simp add: list_all_iff symbol_def)
qed

lemma ascii_casts: "ascii_cast cast_char" "ascii_cast cast_char16" "ascii_cast cast_char32"
proof -
  have "list_all (\<lambda>n. cast_char (of_nat n) = of_nat n \<and> cast_char16 (of_nat n) = of_nat n) [0..<128]" by code_simp
  then have "\<forall>n \<in> {0..<128}. cast_char (of_nat n) = of_nat n \<and> cast_char16 (of_nat n) = of_nat n" by (simp add: list_all_iff)
  from bspec [OF this] have "unat v < 128 \<Longrightarrow> cast_char v = v \<and> cast_char16 v = v" for v :: tchar
    by (drule_tac x = "unat v" in meta_spec) simp
  then show "ascii_cast cast_char" "ascii_cast cast_char16" by (simp_all add: ascii_cast_def word_less_nat_alt)
  show "ascii_cast cast_char32" by (simp add: ascii_cast_def cast_char32_def)
qed

section \<open>Decimal numbers\<close>

text \<open>The number a list of characters spells in base ten.\<close>

definition decimal :: "tchar list \<Rightarrow> nat" where
  "decimal s = foldl (\<lambda>n c. 10 * n + unat (c - 48)) 0 s"

definition places :: "nat \<Rightarrow> 32 word list" where
  "places k = map (\<lambda>i. 10 ^ i) (rev [0..<k])"

lemma places_Suc: "places (Suc k) = 10 ^ k # places k"
  by (simp add: places_def)

lemma unat_place: "k \<le> 4 \<Longrightarrow> unat (10 ^ k :: 32 word) = 10 ^ k"
proof -
  have "\<forall>k \<in> set [0..<5]. unat (10 ^ k :: 32 word) = 10 ^ k" by code_simp
  then show "k \<le> 4 \<Longrightarrow> unat (10 ^ k :: 32 word) = 10 ^ k" by simp
qed

lemma digit_step:
  fixes t :: "32 word"
  assumes "k \<le> 4" and "unat t < 10 ^ Suc k"
  shows "unat (t div 10 ^ k) = unat t div 10 ^ k" and "unat t div 10 ^ k < 10"
    and "unat (t - 10 ^ k * (t div 10 ^ k)) = unat t mod 10 ^ k"
  using assms unat_place [of k]
  by (simp_all add: unat_div_distrib unat_mod_distrib minus_mult_div_eq_mod less_mult_imp_div_less)

definition is_digit :: "tchar \<Rightarrow> bool" where
  "is_digit c \<longleftrightarrow> 48 \<le> c \<and> c \<le> 57"

lemma digit_char: "d < 10 \<Longrightarrow> is_digit (48 + of_nat d) \<and> unat ((48 + of_nat d :: tchar) - 48) = d \<and> (48 + of_nat d = (48 :: tchar) \<longleftrightarrow> d = 0)"
proof -
  have "list_all (\<lambda>d. is_digit (48 + of_nat d) \<and> unat ((48 + of_nat d :: tchar) - 48) = d \<and> (48 + of_nat d = (48 :: tchar) \<longleftrightarrow> d = 0)) [0..<10]"
    by code_simp
  then show "d < 10 \<Longrightarrow> is_digit (48 + of_nat d) \<and> unat ((48 + of_nat d :: tchar) - 48) = d \<and> (48 + of_nat d = (48 :: tchar) \<longleftrightarrow> d = 0)"
    by (simp add: list_all_iff)
qed

lemma digits_started:
  assumes "k \<le> 5" and "unat t < 10 ^ k" and "out \<noteq> []"
  shows "\<exists>ds. digits (places k) t out = Returns (out @ ds) \<and> length ds = k \<and> (\<forall>c \<in> set ds. is_digit c)
    \<and> (\<forall>n. foldl (\<lambda>n c. 10 * n + unat (c - 48)) n ds = 10 ^ k * n + unat t)"
  using assms
proof (induction k arbitrary: t out)
  case 0
  then show ?case by (simp add: places_def)
next
  case (Suc k)
  let ?t = "t - 10 ^ k * (t div 10 ^ k)" and ?d = "unat t div 10 ^ k"
  note step = digit_step [of k t] and c = digit_char [of ?d]
  have k: "k \<le> 4" using Suc.prems by simp
  have "unat ?t < 10 ^ k" using step(3) k Suc.prems(2) by simp
  with Suc.IH [of ?t "out @ [48 + of_nat ?d]"] k obtain ds
    where ds: "digits (places k) ?t (out @ [48 + of_nat ?d]) = Returns ((out @ [48 + of_nat ?d]) @ ds)"
      "length ds = k" "\<forall>c \<in> set ds. is_digit c"
      "\<forall>n. foldl (\<lambda>n c. 10 * n + unat (c - 48)) n ds = 10 ^ k * n + unat ?t" by auto
  have "symbol (26 + unat (t div 10 ^ k)) = Returns (48 + of_nat ?d)"
    using digit_symbol [of ?d] step k Suc.prems(2) by simp
  moreover have "10 ^ k * (10 * n + ?d) + unat ?t = 10 ^ Suc k * n + unat t" for n
    using step(3) [OF k Suc.prems(2)] div_mult_mod_eq [of "unat t" "10 ^ k"] by (simp add: algebra_simps)
  ultimately show ?case using ds c step k Suc.prems
    by (intro exI [of _ "(48 + of_nat ?d) # ds"]) (simp add: places_Suc Let_def)
qed

text \<open>
  \<open>NumericTagToString\<close> spells the number in decimal, and without leading zeros unless it is zero.
\<close>

lemma numeric_skip:
  assumes "k \<le> 5" and "0 < unat t" and "unat t < 10 ^ k"
  shows "\<exists>ds. digits (places k) t [] = Returns ds \<and> 0 < length ds \<and> length ds \<le> k \<and> 10 ^ (length ds - 1) \<le> unat t
    \<and> (\<forall>c \<in> set ds. is_digit c) \<and> decimal ds = unat t \<and> hd ds \<noteq> 48"
  using assms
proof (induction k)
  case (Suc k)
  let ?t = "t - 10 ^ k * (t div 10 ^ k)" and ?d = "unat t div 10 ^ k"
  have "k \<le> 4" using Suc.prems by simp
  note step = digit_step [OF this Suc.prems(3)] and c = digit_char [of ?d]
  have "t \<noteq> 0" using Suc.prems(2) by auto
  show ?case
  proof (cases "?d = 0")
    case True
    then have "unat t < 10 ^ k" by (simp add: div_eq_0_iff)
    with Suc True step(1) \<open>t \<noteq> 0\<close> show ?thesis
      by (fastforce simp: places_Suc Let_def unat_0_iff)
  next
    case False
    have "unat ?t < 10 ^ k" using step(3) by simp
    with digits_started [of k ?t "[48 + of_nat ?d]"] \<open>k \<le> 4\<close> obtain ds
      where ds: "digits (places k) ?t [48 + of_nat ?d] = Returns ([48 + of_nat ?d] @ ds)" "length ds = k"
        "\<forall>c \<in> set ds. is_digit c" "\<forall>n. foldl (\<lambda>n c. 10 * n + unat (c - 48)) n ds = 10 ^ k * n + unat ?t" by auto
    have "symbol (26 + unat (t div 10 ^ k)) = Returns (48 + of_nat ?d)" and "t div 10 ^ k \<noteq> 0"
      using digit_symbol [of ?d] step False by auto
    moreover have "10 ^ k * ?d + unat ?t = unat t"
      using step(3) div_mult_mod_eq [of "unat t" "10 ^ k"] by (simp add: algebra_simps)
    moreover have "10 ^ k \<le> unat t" using False by (metis div_less not_le)
    ultimately show ?thesis using ds c step(2) False
      by (intro exI [of _ "(48 + of_nat ?d) # ds"]) (simp add: places_Suc Let_def decimal_def)
  qed
qed simp

lemma numeric_zero: "NumericTagToString 0 = Returns (replicate 5 48)"
  by code_simp

lemma places_5: "places 5 = [10000, 1000, 100, 10, 1]"
  by code_simp

lemma numeric_spelling:
  assumes "t \<le> m_iMaxNumericTag"
  shows "\<exists>s. NumericTagToString t = Returns s \<and> length s \<le> 5 \<and> (\<forall>c \<in> set s. is_digit c) \<and> decimal s = unat t
    \<and> (t \<noteq> 0 \<longrightarrow> 0 < length s \<and> hd s \<noteq> 48) \<and> (t = 0 \<longrightarrow> length s = 5)"
proof (cases "t = 0")
  case True
  have "decimal (replicate 5 48) = 0 \<and> is_digit 48" by code_simp
  with True numeric_zero show ?thesis by auto
next
  case False
  then have "0 < unat t" by (simp add: unat_gt_0)
  moreover have "unat t < 10 ^ 5" using assms by (simp add: m_iMaxNumericTag_def word_le_nat_alt)
  ultimately show ?thesis using numeric_skip [of 5 t] False unfolding NumericTagToString_def places_5 by auto
qed

section \<open>Six-bit groups\<close>

definition group_of :: "nat \<Rightarrow> 32 word \<Rightarrow> nat" where
  "group_of k t = unat t div 2 ^ k mod 64"

lemma unat_group: "unat (drop_bit k t AND 0x3F) = group_of k t" for t :: "32 word"
proof -
  have "(0x3F :: 32 word) = mask 6" by (simp add: mask_eq_exp_minus_1)
  then have "drop_bit k t AND 0x3F = take_bit 6 (drop_bit k t)" by (simp add: take_bit_eq_mask)
  moreover have "unat (take_bit 6 (drop_bit k t)) = take_bit 6 (drop_bit k (unat t))"
    by (simp only: unsigned_take_bit_eq unsigned_drop_bit_eq take_bit_nat_eq_self [OF unsigned_less])
  ultimately show ?thesis
    by (simp only: group_of_def take_bit_eq_mod drop_bit_eq_div) simp
qed

lemma group_of_less: "group_of k t < 64"
  by (simp add: group_of_def)

lemma FiveChar_groups: "FiveCharTagToString t = Returns (map (\<lambda>k. symbol_space ! group_of k t) [24, 18, 12, 6, 0])"
proof -
  have "group_of k t < 65" for k using group_of_less [of k t] by simp
  then show ?thesis
    using unat_group [of 0 t] by (simp add: FiveCharTagToString_def unat_group symbol_def)
qed

definition horner :: "nat list \<Rightarrow> nat" where
  "horner xs = foldl (\<lambda>n x. 64 * n + x) 0 xs"

text \<open>The value of five symbols given by their places in the symbol space.\<close>

lemma symbols_to_tag:
  assumes "ascii_cast cast" and "length gs = 5" and "\<forall>i \<in> set gs. i < 65"
  shows "ConvertStringToTagInternal cast (map (\<lambda>i. symbol_space ! i) gs) = of_nat (horner (map symbol_value gs))"
proof -
  from assms(2) obtain a b c d e where gs: "gs = [a, b, c, d, e]"
    by (auto simp: length_Suc_conv eval_nat_numeral)
  with assms(3) show ?thesis
    by (simp add: ConvertStringToTagInternal_def TagLetterConvertValue_cast [OF assms(1)] symbol_letters Let_def
        push_bit_eq_mult horner_def algebra_simps)
qed

lemma horner_groups:
  assumes "n < 64 * 2 ^ 24"
  shows "horner [n div 2 ^ 24 mod 64, n div 2 ^ 18 mod 64, n div 2 ^ 12 mod 64, n div 2 ^ 6 mod 64, n mod 64] = n"
proof -
  have "n div 2 ^ 24 mod 64 = n div 64 div 64 div 64 div 64" using assms by (simp add: div_mult2_eq [symmetric] less_mult_imp_div_less)
  moreover have "n div 2 ^ 18 mod 64 = n div 64 div 64 div 64 mod 64" and "n div 2 ^ 12 mod 64 = n div 64 div 64 mod 64"
    and "n div 2 ^ 6 mod 64 = n div 64 mod 64" by (simp_all add: div_mult2_eq [symmetric])
  ultimately show ?thesis by (simp add: horner_def)
qed

lemma groups_of_horner:
  assumes "a < 36" "b < 64" "c < 64" "d < 64" "e < 64" and "t = of_nat (horner [a, b, c, d, e])"
  shows "unat t = horner [a, b, c, d, e]" and "map (\<lambda>k. group_of k t) [24, 18, 12, 6, 0] = [a, b, c, d, e]"
proof -
  have n: "horner [a, b, c, d, e] = 64 * (64 * (64 * (64 * a + b) + c) + d) + e" by (simp add: horner_def)
  then have "horner [a, b, c, d, e] < 2 ^ 32" using assms(1-5) by simp
  then show u: "unat t = horner [a, b, c, d, e]" using assms(6) by (simp add: unat_of_nat)
  have split: "m div 2 ^ 24 = m div 64 div 64 div 64 div 64" "m div 2 ^ 18 = m div 64 div 64 div 64"
    "m div 2 ^ 12 = m div 64 div 64" "m div 2 ^ 6 = m div 64" for m :: nat
    by (simp_all add: div_mult2_eq [symmetric])
  have "(64 * m + x) div 64 = m" and "(64 * m + x) mod 64 = x" if "x < 64" for m x :: nat
    using that by simp_all
  with assms(1-5) show "map (\<lambda>k. group_of k t) [24, 18, 12, 6, 0] = [a, b, c, d, e]"
    by (simp only: group_of_def u n split list.map power_0 div_by_1) simp
qed

section \<open>The properties\<close>

text \<open>
  The tags whose spelling can be read back: above the numeric ones, and made of ASCII characters or
  of the 36 letters and digits.
\<close>

definition spelled_tag :: "32 word \<Rightarrow> bool" where
  "spelled_tag t \<longleftrightarrow> t > m_iMaxNumericTag \<and>
     (if drop_bit 24 t \<ge> m_iMinOldSchemeHighByteValue
      then \<forall>n \<in> {24, 16, 8, 0}. drop_bit n t AND 0xFF < 128
      else \<forall>n \<in> {18, 12, 6, 0}. drop_bit n t AND 0x3F < 36)"

lemma bytes_join:
  fixes t :: "32 word"
  shows "push_bit 24 (drop_bit 24 t AND 0xFF) OR push_bit 16 (drop_bit 16 t AND 0xFF)
    OR push_bit 8 (drop_bit 8 t AND 0xFF) OR (t AND 0xFF) = t"
proof -
  have byte: "w AND 0xFF = take_bit 8 w" for w :: "32 word" by (simp add: take_bit_eq_mask mask_eq_exp_minus_1)
  show ?thesis
    unfolding byte
  proof (rule bit_word_eqI)
    fix n assume "n < LENGTH(32)"
    consider "24 \<le> n" | "16 \<le> n" "n < 24" | "8 \<le> n" "n < 16" | "n < 8" by linarith
    then show "bit (push_bit 24 (take_bit 8 (drop_bit 24 t)) OR push_bit 16 (take_bit 8 (drop_bit 16 t))
        OR push_bit 8 (take_bit 8 (drop_bit 8 t)) OR take_bit 8 t) n = bit t n"
      using \<open>n < LENGTH(32)\<close> by cases (auto simp: bit_take_bit_iff bit_push_bit_iff bit_drop_bit_eq bit_or_iff)
  qed
qed

lemma unat_div_2p24: "unat (drop_bit 24 t) = unat t div 2 ^ 24" for t :: "32 word"
proof -
  have "unat (drop_bit 24 t) = drop_bit 24 (unat t)"
    by (simp only: unsigned_drop_bit_eq take_bit_nat_eq_self [OF unsigned_less])
  then show ?thesis by (simp only: drop_bit_eq_div [of 24 "unat t"])
qed

text \<open>
  C36: Tags are read back. For every character type, a tag above the numeric ones whose bytes are
  ASCII characters or whose six-bit groups are letters and digits has a spelling, in a buffer that
  is large enough, and the number of that spelling is the tag.
\<close>

theorem tag_roundtrip:
  assumes "ascii_cast cast" and "spelled_tag t" and "MAX_TAG_CCH \<le> cch"
  shows "\<exists>s. ConvertTagToStringInternal cast t True cch = Returns (Some s) \<and> ConvertStringToTagInternal cast s = t"
proof (cases "drop_bit 24 t \<ge> m_iMinOldSchemeHighByteValue")
  case True
  with assms have ascii: "cast (drop_bit n t AND 0xFF) = drop_bit n t AND 0xFF" if "n \<in> {24, 16, 8, 0}" for n
    using that by (auto simp: spelled_tag_def ascii_cast_def)
  from True assms have "ConvertTagToStringInternal cast t True cch =
      Returns (Some (map (\<lambda>n. cast (drop_bit n t AND 0xFF)) [24, 16, 8, 0]))"
    by (auto simp: ConvertTagToStringInternal_def FourCharTagToString_def spelled_tag_def)
  moreover have "ConvertStringToTagInternal cast (map (\<lambda>n. cast (drop_bit n t AND 0xFF)) [24, 16, 8, 0]) = t"
    using bytes_join [of t] ascii [of 24] ascii [of 16] ascii [of 8] ascii [of 0]
    by (simp add: ConvertStringToTagInternal_def)
  ultimately show ?thesis by blast
next
  case False
  let ?gs = "map (\<lambda>k. group_of k t) [24, 18, 12, 6, 0]"
  from False have high: "unat t div 2 ^ 24 < 36"
    by (simp add: m_iMinOldSchemeHighByteValue_def word_le_nat_alt unat_div_2p24)
  have "group_of n t < 36" if "n \<in> {18, 12, 6, 0}" for n
    using assms(2) False that unat_group [of n t] by (auto simp: spelled_tag_def word_less_nat_alt)
  moreover have "group_of 24 t < 36" using high by (simp add: group_of_def)
  ultimately have small: "\<forall>i \<in> set ?gs. i < 36" by auto
  then have places: "map symbol_value ?gs = ?gs" by (intro map_idI) (auto simp: symbol_value_def)
  have sum: "horner ?gs = unat t"
    using horner_groups [of "unat t"] high by (simp add: group_of_def)
  have "ConvertStringToTagInternal cast (map (\<lambda>i. symbol_space ! i) ?gs) = of_nat (horner (map symbol_value ?gs))"
    by (rule symbols_to_tag [OF assms(1)]) (use small in auto)
  also have "\<dots> = of_nat (unat t)" by (simp only: places sum)
  also have "\<dots> = t" by simp
  finally have "ConvertStringToTagInternal cast (map (\<lambda>i. symbol_space ! i) ?gs) = t" .
  moreover have "ConvertTagToStringInternal cast t True cch = Returns (Some (map (\<lambda>i. symbol_space ! i) ?gs))"
    using False assms by (auto simp: ConvertTagToStringInternal_def FiveChar_groups spelled_tag_def)
  ultimately show ?thesis by blast
qed

lemma tag_roundtrip_witness:
  "\<exists>s. ConvertTagToStringInternal cast_char 0x01105590 True 6 = Returns (Some s)
    \<and> ConvertStringToTagInternal cast_char s = 0x01105590"
proof -
  have "spelled_tag 0x01105590" by code_simp
  from tag_roundtrip [OF ascii_casts(1) this] show ?thesis by (simp add: MAX_TAG_CCH_def)
qed

text \<open>
  Spellings are read and written back. Five letters and digits that make a tag above the numeric
  ones are the spelling of that tag, for every character type; so no two of them make the same tag.
\<close>

theorem tag_string_roundtrip:
  assumes "ascii_cast cast" and "length gs = 5" and "\<forall>g \<in> set gs. g < 36"
    and "ConvertStringToTagInternal cast (map (\<lambda>g. symbol_space ! g) gs) > m_iMaxNumericTag"
  shows "ConvertTagToStringInternal cast (ConvertStringToTagInternal cast (map (\<lambda>g. symbol_space ! g) gs)) True MAX_TAG_CCH
    = Returns (Some (map (\<lambda>g. symbol_space ! g) gs))"
proof -
  from assms(2) obtain a b c d e where gs: "gs = [a, b, c, d, e]"
    by (auto simp: length_Suc_conv eval_nat_numeral)
  have "map symbol_value gs = gs" using assms(3) by (intro map_idI) (simp add: symbol_value_def)
  then have t: "ConvertStringToTagInternal cast (map (\<lambda>g. symbol_space ! g) gs) = of_nat (horner gs)"
    using symbols_to_tag [OF assms(1,2)] assms(3) by fastforce
  note h = groups_of_horner [of a b c d e "of_nat (horner gs)", folded gs, OF _ _ _ _ _ refl]
  from assms(3) gs have "unat (of_nat (horner gs) :: 32 word) = horner gs"
    and g: "map (\<lambda>k. group_of k (of_nat (horner gs))) [24, 18, 12, 6, 0] = gs" using h by auto
  moreover have "horner gs < 36 * 2 ^ 24" using assms(3) by (simp add: gs horner_def)
  ultimately have "\<not> drop_bit 24 (of_nat (horner gs) :: 32 word) \<ge> m_iMinOldSchemeHighByteValue"
    by (simp add: m_iMinOldSchemeHighByteValue_def word_le_nat_alt unat_div_2p24 less_mult_imp_div_less not_le)
  moreover have "FiveCharTagToString (of_nat (horner gs)) = Returns (map (\<lambda>g. symbol_space ! g) gs)"
  proof -
    have "map (\<lambda>k. symbol_space ! group_of k u) ks = map (\<lambda>g. symbol_space ! g) (map (\<lambda>k. group_of k u) ks)" for u ks
      by simp
    then show ?thesis unfolding FiveChar_groups by (simp only: g)
  qed
  ultimately show ?thesis using assms(4) unfolding t
    by (auto simp: ConvertTagToStringInternal_def)
qed

lemma tag_string_roundtrip_witness:
  "ConvertTagToStringInternal cast_char (ConvertStringToTagInternal cast_char (map (\<lambda>g. symbol_space ! g) [1, 4, 5, 22, 16])) True 6
    = Returns (Some (map (\<lambda>g. symbol_space ! g) [1, 4, 5, 22, 16]))"
proof -
  have "ConvertStringToTagInternal cast_char (map (\<lambda>g. symbol_space ! g) [1, 4, 5, 22, 16]) > m_iMaxNumericTag" by code_simp
  from tag_string_roundtrip [OF ascii_casts(1) _ _ this] show ?thesis by (simp add: MAX_TAG_CCH_def)
qed

lemma digit_is_symbol:
  assumes "is_digit c"
  shows "\<exists>g. 26 \<le> g \<and> g < 36 \<and> c = symbol_space ! g" and "bit c 4"
proof -
  have d: "unat (c - 48) < 10" using assms unfolding is_digit_def by unat_arith
  have all: "list_all (\<lambda>d. symbol_space ! (26 + d) = 48 + of_nat d \<and> bit (48 + of_nat d :: tchar) 4) [0..<10]" by code_simp
  have c: "c = 48 + of_nat (unat (c - 48))" by simp
  from all have "\<forall>d \<in> {0..<10}. symbol_space ! (26 + d) = 48 + of_nat d \<and> bit (48 + of_nat d :: tchar) 4" by (simp add: list_all_iff)
  from bspec [OF this, of "unat (c - 48)"] d c have "symbol_space ! (26 + unat (c - 48)) = c" and "bit c 4" by simp_all
  with d show "\<exists>g. 26 \<le> g \<and> g < 36 \<and> c = symbol_space ! g" and "bit c 4"
    by (auto intro!: exI [of _ "26 + unat (c - 48)"])
qed

lemma digits_are_symbols:
  "\<forall>c \<in> set s. is_digit c \<Longrightarrow> \<exists>gs. s = map (\<lambda>g. symbol_space ! g) gs \<and> (\<forall>g \<in> set gs. 26 \<le> g \<and> g < 36)"
proof (induction s)
  case (Cons c s)
  then obtain gs where "s = map (\<lambda>g. symbol_space ! g) gs \<and> (\<forall>g \<in> set gs. 26 \<le> g \<and> g < 36)" by auto
  moreover obtain g where "26 \<le> g \<and> g < 36 \<and> c = symbol_space ! g" using digit_is_symbol(1) [of c] Cons.prems by auto
  ultimately show ?case by (intro exI [of _ "g # gs"]) simp
qed simp

lemma numeric_low_bits: "t \<le> m_iMaxNumericTag \<Longrightarrow> unat t < 2 ^ 16 \<and> \<not> bit t 28"
proof
  assume "t \<le> m_iMaxNumericTag"
  then show u: "unat t < 2 ^ 16" by (simp add: m_iMaxNumericTag_def word_le_nat_alt)
  have "bit t 28 \<longleftrightarrow> bit (unat t) 28" by (simp add: bit_unsigned_iff)
  moreover have "unat t div 2 ^ 28 = 0" using u by simp
  ultimately show "\<not> bit t 28" by (simp only: bit_iff_odd [of "unat t"]) simp
qed

text \<open>
  Numeric tags are written in decimal and cannot be read back. A tag up to 65535 is spelled by its
  decimal digits, without a leading zero, except that zero is spelled with five; and for no such tag is
  the number of the spelling the tag itself, as strings of other lengths than four and five read as
  zero and those are read as characters and symbols.
\<close>

theorem numeric_tags:
  assumes "ascii_cast cast" and "t \<le> m_iMaxNumericTag"
  shows "\<exists>s. ConvertTagToStringInternal cast t True MAX_TAG_CCH = Returns (Some s)
    \<and> (\<forall>c \<in> set s. is_digit c) \<and> decimal s = unat t \<and> (t \<noteq> 0 \<longrightarrow> hd s \<noteq> 48)
    \<and> ConvertStringToTagInternal cast s \<noteq> t"
proof -
  from numeric_spelling [OF assms(2)] obtain s where s: "NumericTagToString t = Returns s" "length s \<le> 5"
    "\<forall>c \<in> set s. is_digit c" "decimal s = unat t" "t \<noteq> 0 \<longrightarrow> 0 < length s \<and> hd s \<noteq> 48" "t = 0 \<longrightarrow> length s = 5" by blast
  have "ConvertStringToTagInternal cast s \<noteq> t"
  proof -
    consider "length s < 4" | "length s = 4" | "length s = 5" using s(2) by linarith
    then show ?thesis
    proof cases
      case 1
      with s(6) show ?thesis by (auto simp: ConvertStringToTagInternal_def Let_def)
    next
      case 2
      then obtain a b c d where "s = [a, b, c, d]" by (auto simp: length_Suc_conv eval_nat_numeral)
      with s(3) digit_is_symbol(2) [of a] have "bit (ConvertStringToTagInternal cast s) 28"
        by (simp add: ConvertStringToTagInternal_def Let_def bit_or_iff bit_push_bit_iff)
      with numeric_low_bits [OF assms(2)] show ?thesis by auto
    next
      case 3
      from digits_are_symbols [OF s(3)] obtain gs
        where gs: "s = map (\<lambda>g. symbol_space ! g) gs" "\<forall>g \<in> set gs. 26 \<le> g \<and> g < 36" by blast
      with 3 have five: "length gs = 5" by simp
      then obtain a b c d e where abc: "gs = [a, b, c, d, e]" by (auto simp: length_Suc_conv eval_nat_numeral)
      have "map symbol_value gs = gs" using gs(2) by (intro map_idI) (simp add: symbol_value_def)
      with symbols_to_tag [OF assms(1) five] gs have "ConvertStringToTagInternal cast s = of_nat (horner gs)" by fastforce
      with groups_of_horner(1) [of a b c d e "ConvertStringToTagInternal cast s"] gs(2)
      have "unat (ConvertStringToTagInternal cast s) = horner gs" by (simp add: abc)
      moreover have "horner gs \<ge> 26 * 64 ^ 4" using gs(2) by (simp add: abc horner_def)
      ultimately have "unat (ConvertStringToTagInternal cast s) \<ge> 2 ^ 16" by simp
      with numeric_low_bits [OF assms(2)] show ?thesis by auto
    qed
  qed
  with s assms(2) show ?thesis by (simp add: ConvertTagToStringInternal_def)
qed

lemma numeric_tags_witness:
  "\<exists>s. ConvertTagToStringInternal cast_char32 5192 True MAX_TAG_CCH = Returns (Some s) \<and> decimal s = 5192
    \<and> ConvertStringToTagInternal cast_char32 s \<noteq> 5192"
proof -
  have "(5192 :: 32 word) \<le> m_iMaxNumericTag" by (simp add: m_iMaxNumericTag_def)
  from numeric_tags [OF ascii_casts(3) this] show ?thesis by auto
qed

text \<open>
  With a signed \<open>char\<close> a byte that is not ASCII spoils the number: it is widened with its sign over
  the bytes above it. The tag \<open>0x41C34242\<close> is read back as another one from a string of \<open>char\<close>, and
  as itself from a string of \<open>char16_t\<close>.
\<close>

theorem char_sign_extension:
  "and_then (ConvertTagToStringInternal cast_char 0x41C34242 True 6) (\<lambda>s. Returns (ConvertStringToTagInternal cast_char (the s)))
     = Returns 0xFFC34242
   \<and> and_then (ConvertTagToStringInternal cast_char16 0x41C34242 True 6) (\<lambda>s. Returns (ConvertStringToTagInternal cast_char16 (the s)))
     = Returns 0x41C34242"
  by (intro conjI) code_simp+

end
