(* ===== verification/Scheduler_System.thy ===== *)
theory Scheduler_System
  imports Queue_Guarantees
begin

text \<open>
  A dispatch queue together with its scheduler, the object behind \<open>IDispatchQueueScheduler\<close> that
  owns the threads (\<open>libs/dispatchQueue/include/dispatchQueue/dispatchQueue.h\<close>). The queue is the
  one of \<open>Queue_Service\<close>; a scheduler is given by its operations, collected in a record, and the
  contract between the two is the locale \<open>dispatch_scheduler\<close>. The theories \<open>Thread_Pool\<close>,
  \<open>Windows_Pool\<close> and \<open>Looper\<close> interpret it with the three schedulers of the repository.
\<close>

section \<open>Counting the threads of a list\<close>

lemma count_update:
  "k < length xs \<Longrightarrow> length (filter P (xs[k := x])) + (if P (xs ! k) then 1 else 0)
     = length (filter P xs) + (if P x then 1 else 0)"
proof (induction xs arbitrary: k)
  case (Cons y ys)
  then show ?case by (cases k) (simp, fastforce)
qed simp

lemma count_pos: "k < length xs \<Longrightarrow> P (xs ! k) \<Longrightarrow> 0 < length (filter P xs)"
  by (metis filter_empty_conv length_greater_0_conv nth_mem)

lemma weight_update:
  fixes f :: "'a \<Rightarrow> nat"
  shows "k < length xs \<Longrightarrow> f x < f (xs ! k) \<Longrightarrow> sum_list (map f (xs[k := x])) < sum_list (map f xs)"
proof (induction xs arbitrary: k)
  case (Cons y ys)
  then show ?case by (cases k) simp_all
qed simp

lemma in_update: "x \<in> set (xs[k := y]) \<Longrightarrow> x = y \<or> x \<in> set xs"
  by (meson insertE set_update_subset_insert subsetD)

section \<open>Schedulers\<close>

text \<open>
  \<open>sch_call\<close> is one lock region of \<open>Post\<close>, \<open>Shutdown\<close> or \<open>AwaitTermination\<close>; the number says which
  of the waiting threads the operating system lets continue where it has the choice. The
  result is missing while the call is blocked, and its flag tells whether the call is done.
  \<open>sch_thread\<close> is one step of a scheduler thread: its arguments are the thread, whether its time
  is up, whether the queue is kept alive by somebody else than the scheduler's threads, and the
  queue; it returns the tasks it took. \<open>sch_spurious\<close> wakes a thread that waits for a condition
  variable, which may happen without a notification. \<open>sch_held\<close> counts the references to the
  queue that the scheduler's threads hold.
\<close>

record ('p, 'v) scheduler =
  sch_call :: "nat \<Rightarrow> scheduler_call \<Rightarrow> 'p \<Rightarrow> ('p \<times> bool) outcome option"
  sch_thread :: "nat \<Rightarrow> bool \<Rightarrow> bool \<Rightarrow> 'p \<Rightarrow> 'v QueueService
                   \<Rightarrow> ('p \<times> 'v QueueService \<times> task option list) outcome option"
  sch_spurious :: "nat \<Rightarrow> 'p \<Rightarrow> 'p option"
  sch_held :: "'p \<Rightarrow> nat"

section \<open>Runs\<close>

text \<open>
  The queue with its scheduler, the number of references other code holds, the scheduler calls
  each thread has still to make in the method it executes, and the tasks taken so far.
\<close>

record ('p, 'v) sworld =
  sched :: 'p
  queue_of :: "'v QueueService"
  clients :: nat
  calls :: "thread_id \<Rightarrow> scheduler_call list"
  ran :: "task option list"

datatype client_op =
    OPost "task option"
  | OSuspend
  | OResume
  | OShutdown PendingTaskAction
  | OAwaitTermination

fun scheduler_calls :: "item list \<Rightarrow> scheduler_call list" where
  "scheduler_calls [] = []"
| "scheduler_calls (ICallScheduler c # is) = c # scheduler_calls is"
| "scheduler_calls (i # is) = scheduler_calls is"

fun client_call ::
  "thread_id \<Rightarrow> client_op \<Rightarrow> 'v QueueService \<Rightarrow> (item list \<times> 'v QueueService) outcome" where
  "client_call tid (OPost t) s = QueueService_Post tid t s"
| "client_call tid OSuspend s = and_then (QueueService_Suspend s) (\<lambda>s'. Returns ([], s'))"
| "client_call tid OResume s = QueueService_Resume s"
| "client_call tid (OShutdown a) s = Returns (QueueService_Shutdown a s)"
| "client_call tid OAwaitTermination s = Returns (QueueService_AwaitTermination s)"

text \<open>
  A queue keeps itself alive while it has tasks (\<open>m_strongOwnerPtr\<close> of its \<open>TaskQueue\<close>). When the
  last reference goes, the destructor of \<open>QueueService\<close> calls \<open>AwaitTermination\<close>.
\<close>

definition kept :: "nat \<Rightarrow> 'v QueueService \<Rightarrow> bool" where
  "kept n s \<longleftrightarrow> n > 0 \<or> m_strongOwnerPtr (m_queue s) \<noteq> None"

definition alive :: "('p, 'v) scheduler \<Rightarrow> ('p, 'v) sworld \<Rightarrow> bool" where
  "alive S w \<longleftrightarrow> kept (clients w) (queue_of w) \<or> sch_held S (sched w) > 0"

text \<open>
  \<open>own_step\<close> is what the scheduler does without anybody calling the queue: a thread delivers the
  next of its scheduler calls, or a scheduler thread moves.
\<close>

inductive own_step ::
    "('p, 'v) scheduler \<Rightarrow> nat \<Rightarrow> ('p, 'v) sworld \<Rightarrow> ('p, 'v) sworld \<Rightarrow> bool"
  for S n where
  deliver: "tid < n \<Longrightarrow> calls w tid = c # cs \<Longrightarrow> sch_call S k c (sched w) = Some (Returns (p, done)) \<Longrightarrow>
     own_step S n w (w\<lparr>sched := p, calls := (calls w)(tid := if done then cs else c # cs)\<rparr>)"
| thread: "sch_thread S k expired (kept (clients w) (queue_of w)) (sched w) (queue_of w)
       = Some (Returns (p, s, ts)) \<Longrightarrow>
     own_step S n w (w\<lparr>sched := p, queue_of := s, ran := ran w @ ts\<rparr>)"

inductive client_step ::
    "('p, 'v) scheduler \<Rightarrow> nat \<Rightarrow> ('p, 'v) sworld \<Rightarrow> ('p, 'v) sworld \<Rightarrow> bool"
  for S n where
  call: "tid < n \<Longrightarrow> alive S w \<Longrightarrow> calls w tid = [] \<Longrightarrow>
     client_call tid op (queue_of w) = Returns (is, s) \<Longrightarrow>
     client_step S n w (w\<lparr>queue_of := s, calls := (calls w)(tid := scheduler_calls is)\<rparr>)"
| addref: "alive S w \<Longrightarrow> client_step S n w (w\<lparr>clients := clients w + 1\<rparr>)"
| release: "clients w = Suc m \<Longrightarrow> w1 = w\<lparr>clients := m\<rparr> \<Longrightarrow> alive S w1 \<Longrightarrow> client_step S n w w1"
| destroy: "tid < n \<Longrightarrow> calls w tid = [] \<Longrightarrow> clients w = Suc m \<Longrightarrow> \<not> alive S (w\<lparr>clients := m\<rparr>) \<Longrightarrow>
     QueueService_AwaitTermination (queue_of w) = (is, s) \<Longrightarrow>
     client_step S n w (w\<lparr>clients := m, queue_of := s, calls := (calls w)(tid := scheduler_calls is)\<rparr>)"
| spurious: "sch_spurious S k (sched w) = Some p \<Longrightarrow> client_step S n w (w\<lparr>sched := p\<rparr>)"

definition initial_sworld :: "'p \<Rightarrow> nat \<Rightarrow> ('p, 'v) sworld" where
  "initial_sworld p this =
     \<lparr>sched = p, queue_of = QueueService_new this, clients = 1, calls = (\<lambda>_. []), ran = []\<rparr>"

inductive sched_reachable ::
    "('p, 'v) scheduler \<Rightarrow> nat \<Rightarrow> ('p, 'v) sworld \<Rightarrow> ('p, 'v) sworld \<Rightarrow> bool"
  for S n w0 where
  initial: "sched_reachable S n w0 w0"
| own: "sched_reachable S n w0 w \<Longrightarrow> own_step S n w w' \<Longrightarrow> sched_reachable S n w0 w'"
| client: "sched_reachable S n w0 w \<Longrightarrow> client_step S n w w' \<Longrightarrow> sched_reachable S n w0 w'"

definition waiting_tasks :: "('p, 'v) sworld \<Rightarrow> task option list" where
  "waiting_tasks w = queue_content (m_queue (queue_of w))"

text \<open>The step a call or a scheduler thread makes next is a crash.\<close>

definition can_crash :: "('p, 'v) scheduler \<Rightarrow> nat \<Rightarrow> ('p, 'v) sworld \<Rightarrow> crash_reason \<Rightarrow> bool" where
  "can_crash S n w r \<longleftrightarrow>
     (\<exists>tid<n. \<exists>c cs k. calls w tid = c # cs \<and> sch_call S k c (sched w) = Some (Crashes r)) \<or>
     (\<exists>k expired. sch_thread S k expired (kept (clients w) (queue_of w)) (sched w) (queue_of w)
        = Some (Crashes r))"

inductive_cases own_stepE: "own_step S n w w'"
inductive_cases client_stepE: "client_step S n w w'"

lemma own_steps_reachable:
  "(own_step S n)\<^sup>*\<^sup>* w w' \<Longrightarrow> sched_reachable S n w0 w \<Longrightarrow> sched_reachable S n w0 w'"
  by (induction rule: rtranclp_induct) (auto intro: sched_reachable.own)

text \<open>Moves of a run written out, to evaluate scenarios.\<close>

datatype move =
    MCall thread_id client_op
  | MRelease
  | MDeliver thread_id nat
  | MThread nat bool

fun sched_move :: "('p, 'v) scheduler \<Rightarrow> nat \<Rightarrow> move \<Rightarrow> ('p, 'v) sworld \<Rightarrow> ('p, 'v) sworld option" where
  "sched_move S n (MCall tid op) w =
     (if tid < n \<and> alive S w \<and> calls w tid = []
      then case client_call tid op (queue_of w) of
             Returns (is, s) \<Rightarrow> Some (w\<lparr>queue_of := s, calls := (calls w)(tid := scheduler_calls is)\<rparr>)
           | _ \<Rightarrow> None
      else None)"
| "sched_move S n MRelease w =
     (if 0 < clients w \<and> alive S (w\<lparr>clients := clients w - 1\<rparr>)
      then Some (w\<lparr>clients := clients w - 1\<rparr>) else None)"
| "sched_move S n (MDeliver tid k) w =
     (case calls w tid of
        [] \<Rightarrow> None
      | c # cs \<Rightarrow>
          (case sch_call S k c (sched w) of
             Some (Returns (p, done)) \<Rightarrow>
               if tid < n then Some (w\<lparr>sched := p, calls := (calls w)(tid := if done then cs else c # cs)\<rparr>)
               else None
           | _ \<Rightarrow> None))"
| "sched_move S n (MThread k expired) w =
     (case sch_thread S k expired (kept (clients w) (queue_of w)) (sched w) (queue_of w) of
        Some (Returns (p, s, ts)) \<Rightarrow> Some (w\<lparr>sched := p, queue_of := s, ran := ran w @ ts\<rparr>)
      | _ \<Rightarrow> None)"

fun sched_moves :: "('p, 'v) scheduler \<Rightarrow> nat \<Rightarrow> move list \<Rightarrow> ('p, 'v) sworld \<Rightarrow> ('p, 'v) sworld option" where
  "sched_moves S n [] w = Some w"
| "sched_moves S n (m # ms) w =
     (case sched_move S n m w of None \<Rightarrow> None | Some w1 \<Rightarrow> sched_moves S n ms w1)"

lemma sched_move_reachable:
  assumes m: "sched_move S n m w = Some w'" and w: "sched_reachable S n w0 w"
  shows "sched_reachable S n w0 w'"
proof (cases m)
  case (MCall tid op)
  with m have c: "tid < n" "alive S w" "calls w tid = []" by (simp_all split: if_splits)
  with m MCall obtain "is" s where "client_call tid op (queue_of w) = Returns (is, s)"
    and "w' = w\<lparr>queue_of := s, calls := (calls w)(tid := scheduler_calls is)\<rparr>"
    by (auto split: outcome.splits)
  with client_step.call [OF c] w show ?thesis by (auto intro: sched_reachable.client)
next
  case MRelease
  with m have "clients w = Suc (clients w - 1)" and w': "w' = w\<lparr>clients := clients w - 1\<rparr>"
    and "alive S w'" by (auto split: if_splits)
  then have "client_step S n w w'" by (rule client_step.release)
  with w show ?thesis by (rule sched_reachable.client)
next
  case (MDeliver tid k)
  with m obtain c cs where c: "calls w tid = c # cs" by (auto split: list.splits)
  with m MDeliver obtain p d where r: "sch_call S k c (sched w) = Some (Returns (p, d))" and "tid < n"
    and "w' = w\<lparr>sched := p, calls := (calls w)(tid := if d then cs else c # cs)\<rparr>"
    by (auto split: option.splits outcome.splits if_splits)
  with own_step.deliver [OF \<open>tid < n\<close> c r] w show ?thesis by (auto intro: sched_reachable.own)
next
  case (MThread k e)
  with m obtain p s ts where
    r: "sch_thread S k e (kept (clients w) (queue_of w)) (sched w) (queue_of w) = Some (Returns (p, s, ts))"
    and "w' = w\<lparr>sched := p, queue_of := s, ran := ran w @ ts\<rparr>"
    by (auto split: option.splits outcome.splits)
  with own_step.thread [OF r] w show ?thesis by (auto intro: sched_reachable.own)
qed

lemma sched_moves_reachable:
  "sched_moves S n ms w = Some w' \<Longrightarrow> sched_reachable S n w0 w \<Longrightarrow> sched_reachable S n w0 w'"
  by (induction ms arbitrary: w) (auto split: option.splits intro: sched_move_reachable)

lemma scheduler_calls_simps [simp]:
  "scheduler_calls (replicate k (ICallScheduler c)) = replicate k c"
  "scheduler_calls (map ICancel ts) = []"
  "scheduler_calls (is @ js) = scheduler_calls is @ scheduler_calls js"
proof -
  show "scheduler_calls (replicate k (ICallScheduler c)) = replicate k c" by (induction k) simp_all
  show "scheduler_calls (map ICancel ts) = []" by (induction ts) simp_all
  show "scheduler_calls (is @ js) = scheduler_calls is @ scheduler_calls js"
    by (induction "is" rule: scheduler_calls.induct) simp_all
qed

text \<open>What evaluating a scenario unfolds on the side of the queue.\<close>

lemmas queue_scenario_simps =
  initial_sworld_def QueueService_new_def alive_def kept_def QueueService_Post_def Let_def
  TaskQueue_new_def TaskQueue_Enqueue_def TaskQueue_IsEmpty_def TaskReadBuffer_IsEmpty_def
  TaskReadBuffer_SwapBuffer_def TaskReadBuffer_TryDequeue_def TaskQueue_TryDequeue_def
  QueueService_TryDequeTask_def self_strong_def QueueService_HasTasks_def waiting_tasks_def
  queue_content_def

section \<open>The contract of a scheduler\<close>

text \<open>The properties of a client's call that matter to the scheduler.\<close>

lemma AwaitTermination_eq:
  "QueueService_AwaitTermination s =
     ([ICallScheduler SchedulerShutdown, ICallScheduler SchedulerAwaitTermination],
      s\<lparr>m_shutdownAction := Some Complete\<rparr>)"
  by (simp add: QueueService_AwaitTermination_def Shutdown_Complete)

lemma service_inv_shutdown [simp]: "service_inv (s\<lparr>m_shutdownAction := a\<rparr>) = service_inv s"
  by (simp add: service_inv_def)

lemma due_shutdown [simp]: "due (s\<lparr>m_shutdownAction := a\<rparr>) = due s"
  by (simp add: due_def)

lemma client_call_inv:
  "client_call tid op s = Returns (is, s') \<Longrightarrow> service_inv s \<Longrightarrow> service_inv s'"
  by (cases op) (auto simp: outcome_simps AwaitTermination_eq
      intro: Post_inv Suspend_inv Resume_inv Shutdown_inv)

lemma client_call_due:
  "client_call tid op s = Returns (is, s') \<Longrightarrow> service_inv s \<Longrightarrow> wakes_enough (map WItem is) s s'"
  by (cases op) (auto simp: outcome_simps AwaitTermination_eq QueueService_Suspend_def due_def
      wakes_enough_def [of _ s "s\<lparr>m_shutdownAction := Some Complete\<rparr>"] service_inv_def [of s]
      wakes_enough_def [of _ s "s\<lparr>m_suspendCounter := m_suspendCounter s + 1\<rparr>"]
      split: if_splits intro: Post_wakes Resume_wakes Shutdown_wakes)

lemma post_calls_scheduler: "post_calls (map WItem is) > 0 \<longleftrightarrow> SchedulerPost \<in> set (scheduler_calls is)"
  by (induction "is" rule: scheduler_calls.induct) auto

lemma HasTasks_due: "service_inv s \<Longrightarrow> QueueService_HasTasks s \<longleftrightarrow> due s > 0"
  by (simp add: QueueService_HasTasks_def due_def service_inv_def TaskQueue_IsEmpty_content)

lemma client_call_wakes:
  assumes "client_call tid op s = Returns (is, s')" and "service_inv s"
    and "\<not> QueueService_HasTasks s" and "QueueService_HasTasks s'"
  shows "SchedulerPost \<in> set (scheduler_calls is)"
proof -
  from assms(1,2) have "wakes_enough (map WItem is) s s'" by (rule client_call_due)
  moreover from assms have "due s = 0" and "due s' > 0"
    using client_call_inv [OF assms(1,2)] by (simp_all add: HasTasks_due)
  ultimately have "post_calls (map WItem is) > 0" by (simp add: wakes_enough_def)
  then show ?thesis by (simp only: post_calls_scheduler)
qed

text \<open>A task that was taken was the oldest one, and the queue was not suspended.\<close>

lemma TryDequeTask_taken:
  assumes "service_inv s" and "QueueService_TryDequeTask s None = (True, t, s')"
  shows "service_inv s'" and "t \<noteq> None" and "QueueService_HasTasks s"
    and "m_suspendCounter s' = 0" and "queue_content (m_queue s) = t # queue_content (m_queue s')"
proof -
  from assms obtain u q ts where "t = Some u" "s' = s\<lparr>m_queue := q\<rparr>" "m_suspendCounter s = 0"
    "queue_content (m_queue s) = Some u # ts" "queue_content q = ts" "queue_inv q"
    by (elim TryDequeTask_cases) auto
  with assms(1) show "service_inv s'" and "t \<noteq> None" and "QueueService_HasTasks s"
    and "m_suspendCounter s' = 0" and "queue_content (m_queue s) = t # queue_content (m_queue s')"
    by (auto simp: service_inv_def QueueService_HasTasks_def TaskQueue_IsEmpty_content)
qed

text \<open>No task was taken: there was none to take.\<close>

lemma TryDequeTask_empty:
  "service_inv s \<Longrightarrow> QueueService_TryDequeTask s None = (False, t, s') \<Longrightarrow> s' = s \<and> \<not> QueueService_HasTasks s"
  by (auto elim!: TryDequeTask_cases simp: HasTasks_due due_def split: if_splits)

text \<open>Some thread is about to call \<open>Post\<close> of the scheduler.\<close>

definition post_pending :: "nat \<Rightarrow> (thread_id \<Rightarrow> scheduler_call list) \<Rightarrow> bool" where
  "post_pending n f \<longleftrightarrow> (\<exists>tid<n. SchedulerPost \<in> set (f tid))"

lemma post_pendingI: "tid < n \<Longrightarrow> SchedulerPost \<in> set cs \<Longrightarrow> post_pending n (f(tid := cs))"
  by (auto simp: post_pending_def)

lemma post_pending_update:
  "post_pending n f \<Longrightarrow> (SchedulerPost \<in> set (f tid) \<Longrightarrow> SchedulerPost \<in> set cs) \<Longrightarrow>
     post_pending n (f(tid := cs))"
  unfolding post_pending_def by (metis fun_upd_apply)

text \<open>
  What a queue needs of its scheduler: \<open>inv\<close> is the scheduler's own invariant, \<open>closed\<close> says that it
  was shut down, \<open>awake\<close> that one of its threads is going to look for tasks before it goes to
  sleep, and \<open>rank\<close> bounds the steps its threads make before the next task is taken, or, when
  there is none, before all of them sleep.
\<close>

locale dispatch_scheduler =
  fixes S :: "('p, 'v) scheduler"
    and inv :: "'p \<Rightarrow> bool"
    and closed :: "'p \<Rightarrow> bool"
    and awake :: "'p \<Rightarrow> bool"
    and rank :: "bool \<Rightarrow> 'p \<Rightarrow> nat"
  assumes call_inv: "inv p \<Longrightarrow> sch_call S k c p = Some (Returns (p', d)) \<Longrightarrow> inv p'"
    and call_held: "sch_call S k c p = Some (Returns (p', d)) \<Longrightarrow> sch_held S p' = sch_held S p"
    and call_closed: "closed p \<Longrightarrow> sch_call S k c p = Some (Returns (p', d)) \<Longrightarrow> closed p'"
    and call_awake: "inv p \<Longrightarrow> awake p \<Longrightarrow> sch_call S k c p = Some (Returns (p', d)) \<Longrightarrow>
          awake p' \<or> closed p'"
    and call_no_crash: "inv p \<Longrightarrow> sch_call S k c p \<noteq> Some (Crashes r)"
    and post_accepted: "inv p \<Longrightarrow> \<exists>k p' d. sch_call S k SchedulerPost p = Some (Returns (p', d))"
    and post_done: "sch_call S k SchedulerPost p = Some (Returns (p', d)) \<Longrightarrow> d"
    and post_opens: "\<not> closed p \<Longrightarrow> sch_call S k SchedulerPost p = Some (Returns (p', d)) \<Longrightarrow> \<not> closed p'"
    and post_awake: "inv p \<Longrightarrow> \<not> closed p \<Longrightarrow> sch_call S k SchedulerPost p = Some (Returns (p', d)) \<Longrightarrow>
          awake p'"
    and spurious_inv: "inv p \<Longrightarrow> sch_spurious S k p = Some p' \<Longrightarrow> inv p'"
    and spurious_held: "sch_spurious S k p = Some p' \<Longrightarrow> sch_held S p' = sch_held S p"
    and spurious_closed: "closed p \<Longrightarrow> sch_spurious S k p = Some p' \<Longrightarrow> closed p'"
    and spurious_awake: "awake p \<Longrightarrow> sch_spurious S k p = Some p' \<Longrightarrow> awake p'"
    and thread_inv: "inv p \<Longrightarrow> service_inv s \<Longrightarrow> kp \<or> sch_held S p > 0 \<Longrightarrow>
          sch_thread S k e kp p s = Some (Returns (p', s', ts)) \<Longrightarrow> inv p'"
    and thread_dead: "sch_held S p = 0 \<Longrightarrow> sch_thread S k e False p s = Some (Returns (p', s', ts)) \<Longrightarrow>
          sch_held S p' = 0 \<and> s' = s"
    and thread_closed: "closed p \<Longrightarrow> sch_thread S k e kp p s = Some (Returns (p', s', ts)) \<Longrightarrow> closed p'"
    and thread_opens: "\<not> closed p \<Longrightarrow> sch_thread S k e True p s = Some (Returns (p', s', ts)) \<Longrightarrow> \<not> closed p'"
    and thread_queue: "service_inv s \<Longrightarrow> sch_thread S k e kp p s = Some (Returns (p', s', ts)) \<Longrightarrow>
          (s' = s \<and> ts = []) \<or> (\<exists>t. QueueService_TryDequeTask s None = (True, t, s') \<and> ts = [t])"
    and thread_awake: "inv p \<Longrightarrow> service_inv s \<Longrightarrow> kp \<or> sch_held S p > 0 \<Longrightarrow> awake p \<Longrightarrow>
          sch_thread S k e kp p s = Some (Returns (p', s', ts)) \<Longrightarrow>
          awake p' \<or> closed p' \<or> \<not> QueueService_HasTasks s'"
    and thread_ready: "inv p \<Longrightarrow> awake p \<Longrightarrow> \<exists>k e r. sch_thread S k e kp p s = Some r"
    and thread_no_crash: "inv p \<Longrightarrow> service_inv s \<Longrightarrow> sch_thread S k e True p s \<noteq> Some (Crashes r)"
    and thread_finished: "sch_thread S k e kp p s \<noteq> Some Unfinished"
    and thread_rank: "inv p \<Longrightarrow> service_inv s \<Longrightarrow> sch_thread S k e True p s = Some (Returns (p', s, [])) \<Longrightarrow>
          rank (QueueService_HasTasks s) p' < rank (QueueService_HasTasks s) p"
begin

definition sys_ok :: "nat \<Rightarrow> ('p, 'v) sworld \<Rightarrow> bool" where
  "sys_ok n w \<longleftrightarrow> service_inv (queue_of w) \<and> (alive S w \<longrightarrow> inv (sched w) \<and>
     (closed (sched w) \<or> awake (sched w) \<or> \<not> QueueService_HasTasks (queue_of w)
       \<or> post_pending n (calls w)))"

lemma thread_service_inv:
  assumes "service_inv s" and "sch_thread S k e kp p s = Some (Returns (p', s', ts))"
  shows "service_inv s'"
  using thread_queue [OF assms] assms(1) TryDequeTask_taken(1) by blast

lemma sys_ok_own:
  assumes step: "own_step S n w w'" and ok: "sys_ok n w"
  shows "sys_ok n w'"
  using step
proof cases
  case (deliver tid c cs k p d)
  show ?thesis
  proof (cases "alive S w")
    case False
    with deliver ok call_held show ?thesis by (simp add: sys_ok_def alive_def)
  next
    case True
    with ok have inv: "inv (sched w)" by (simp add: sys_ok_def)
    have post: "awake p \<or> closed p" if "c = SchedulerPost"
      using post_awake [OF inv _ deliver(4) [unfolded that]] call_closed [OF _ deliver(4)] by blast
    have "post_pending n ((calls w)(tid := if d then cs else c # cs))"
      if "post_pending n (calls w)" "c \<noteq> SchedulerPost"
      using that deliver(3) by (auto intro: post_pending_update)
    then have "closed p \<or> awake p \<or> \<not> QueueService_HasTasks (queue_of w)
        \<or> post_pending n ((calls w)(tid := if d then cs else c # cs))"
      using ok True post call_closed [OF _ deliver(4)] call_awake [OF inv _ deliver(4)]
      unfolding sys_ok_def by blast
    with deliver ok call_inv [OF inv deliver(4)] show ?thesis by (simp add: sys_ok_def)
  qed
next
  case (thread k e p s ts)
  from ok have s: "service_inv (queue_of w)" by (simp add: sys_ok_def)
  then have s1: "service_inv s" using thread(2) by (rule thread_service_inv)
  show ?thesis
  proof (cases "alive S w")
    case False
    then have "\<not> kept (clients w) (queue_of w)" and "sch_held S (sched w) = 0" by (simp_all add: alive_def)
    with thread_dead [of "sched w" k e "queue_of w" p s ts] thread(2) have "\<not> alive S w'"
      unfolding thread(1) by (simp add: alive_def)
    with s1 thread(1) show ?thesis by (simp add: sys_ok_def)
  next
    case True
    with ok have inv: "inv (sched w)" by (simp add: sys_ok_def)
    from True have kept: "kept (clients w) (queue_of w) \<or> sch_held S (sched w) > 0" by (simp add: alive_def)
    have tasks: "QueueService_HasTasks s \<Longrightarrow> QueueService_HasTasks (queue_of w)"
      using thread_queue [OF s thread(2)] TryDequeTask_taken(3) [OF s] by blast
    with ok True s1 thread_inv [OF inv s kept thread(2)] thread_closed [OF _ thread(2)]
      thread_awake [OF inv s kept _ thread(2)]
    show ?thesis unfolding thread(1) by (auto simp: sys_ok_def)
  qed
qed

lemma sys_ok_client:
  assumes step: "client_step S n w w'" and ok: "sys_ok n w"
  shows "sys_ok n w'"
  using step
proof cases
  case (call tid op "is" s)
  from ok call have inv: "inv (sched w)" and s: "service_inv (queue_of w)" by (simp_all add: sys_ok_def)
  have "post_pending n ((calls w)(tid := scheduler_calls is))" if "post_pending n (calls w)"
    using that call(4) by (auto intro: post_pending_update)
  moreover have "post_pending n ((calls w)(tid := scheduler_calls is))"
    if "\<not> QueueService_HasTasks (queue_of w)" "QueueService_HasTasks s"
    using client_call_wakes [OF call(5) s that] call(2) by (rule post_pendingI [rotated])
  ultimately have "closed (sched w) \<or> awake (sched w) \<or> \<not> QueueService_HasTasks s
      \<or> post_pending n ((calls w)(tid := scheduler_calls is))"
    using ok call(3) unfolding sys_ok_def by blast
  with inv client_call_inv [OF call(5) s] show ?thesis unfolding call(1) by (simp add: sys_ok_def)
next
  case addref
  with ok show ?thesis by (simp add: sys_ok_def)
next
  case (release m)
  then have "alive S w" by (simp add: alive_def kept_def)
  with release ok show ?thesis by (simp add: sys_ok_def)
next
  case (destroy tid m "is" s)
  from destroy(5,6) have "\<not> alive S w'" unfolding destroy(1)
    by (auto simp: alive_def kept_def AwaitTermination_eq)
  moreover from destroy(6) ok have "service_inv s" by (auto simp: AwaitTermination_eq sys_ok_def)
  ultimately show ?thesis unfolding destroy(1) by (simp add: sys_ok_def)
next
  case (spurious k p)
  show ?thesis
  proof (cases "alive S w")
    case True
    with ok spurious_inv [OF _ spurious(2)] spurious_closed [OF _ spurious(2)] spurious_awake [OF _ spurious(2)]
    show ?thesis unfolding spurious(1) by (auto simp: sys_ok_def)
  next
    case False
    with ok spurious_held [OF spurious(2)] show ?thesis
      unfolding spurious(1) by (simp add: sys_ok_def alive_def)
  qed
qed

lemma sys_ok_reachable: "sched_reachable S n w0 w \<Longrightarrow> sys_ok n w0 \<Longrightarrow> sys_ok n w"
  by (induction rule: sched_reachable.induct) (blast intro: sys_ok_own sys_ok_client)+

lemma sys_ok_initial: "inv p \<Longrightarrow> sys_ok n (initial_sworld p this)"
  by (simp add: sys_ok_def initial_sworld_def QueueService_HasTasks_def HasTasks_due due_def
      QueueService_new_def TaskQueue_IsEmpty_content service_inv_def)

text \<open>As long as a client holds the queue, nothing crashes.\<close>

lemma held_queue_no_crash:
  assumes "sys_ok n w" and "clients w > 0"
  shows "\<not> can_crash S n w r"
  using assms call_no_crash thread_no_crash by (auto simp: can_crash_def sys_ok_def alive_def kept_def)

text \<open>
  Left to itself, a scheduler that was not shut down takes every task: with no client calling
  and the queue neither suspended nor given up, every run ends, and ends with no task left.
\<close>

definition serving :: "nat \<Rightarrow> ('p, 'v) sworld \<Rightarrow> bool" where
  "serving n w \<longleftrightarrow> sys_ok n w \<and> clients w > 0 \<and> \<not> closed (sched w)
     \<and> m_suspendCounter (queue_of w) = 0 \<and> (\<forall>tid<n. set (calls w tid) \<subseteq> {SchedulerPost})"

definition distance :: "nat \<Rightarrow> ('p, 'v) sworld \<Rightarrow> (nat \<times> nat) \<times> nat" where
  "distance n w = ((\<Sum>tid<n. length (calls w tid), length (waiting_tasks w)),
                   rank (QueueService_HasTasks (queue_of w)) (sched w))"

lemma serving_own:
  assumes step: "own_step S n w w'" and ok: "serving n w"
  shows "serving n w' \<and> ran w' @ waiting_tasks w' = ran w @ waiting_tasks w
           \<and> (distance n w', distance n w) \<in> (less_than <*lex*> less_than) <*lex*> less_than"
proof -
  from ok have inv: "inv (sched w)" and s: "service_inv (queue_of w)" and open1: "\<not> closed (sched w)"
    and kept: "kept (clients w) (queue_of w) = True"
    by (simp_all add: serving_def sys_ok_def alive_def kept_def)
  from step ok have ok1: "sys_ok n w'" by (auto simp: serving_def intro: sys_ok_own)
  show ?thesis using step
  proof cases
    case (deliver tid c cs k p d)
    from ok deliver(2,3) have "set (c # cs) \<subseteq> {SchedulerPost}" unfolding serving_def by metis
    then have c: "c = SchedulerPost" and cs: "set cs \<subseteq> {SchedulerPost}" by auto
    from deliver(4) have d: "d" unfolding c by (rule post_done)
    have "(\<Sum>u<n. length (((calls w)(tid := cs)) u)) < (\<Sum>u<n. length (calls w u))"
      using deliver(2,3) by (intro sum_strict_mono_ex1) auto
    with deliver(1) d have "(distance n w', distance n w) \<in> (less_than <*lex*> less_than) <*lex*> less_than"
      by (simp add: distance_def)
    moreover from ok ok1 cs d post_opens [OF open1 deliver(4) [unfolded c]] have "serving n w'"
      unfolding deliver(1) by (simp add: serving_def)
    ultimately show ?thesis unfolding deliver(1) by (simp add: waiting_tasks_def)
  next
    case (thread k e p s1 ts)
    note run = thread(2) [unfolded kept]
    note open2 = thread_opens [OF open1 run]
    from thread_queue [OF s run] show ?thesis
    proof
      assume same: "s1 = queue_of w \<and> ts = []"
      from same run have "sch_thread S k e True (sched w) (queue_of w) = Some (Returns (p, queue_of w, []))"
        by simp
      with inv s have "rank (QueueService_HasTasks (queue_of w)) p
          < rank (QueueService_HasTasks (queue_of w)) (sched w)" by (rule thread_rank)
      with same open2 ok ok1 show ?thesis unfolding thread(1)
        by (simp add: serving_def distance_def waiting_tasks_def)
    next
      assume "\<exists>t. QueueService_TryDequeTask (queue_of w) None = (True, t, s1) \<and> ts = [t]"
      then obtain t where "QueueService_TryDequeTask (queue_of w) None = (True, t, s1)" and ts: "ts = [t]"
        by blast
      note taken = TryDequeTask_taken [OF s this(1)]
      from taken(4,5) ts open2 ok ok1 show ?thesis unfolding thread(1)
        by (simp add: serving_def distance_def waiting_tasks_def)
    qed
  qed
qed

lemma serving_stuck:
  assumes ok: "serving n w" and stuck: "\<nexists>w'. own_step S n w w'"
  shows "waiting_tasks w = []"
proof (rule ccontr)
  assume tasks: "waiting_tasks w \<noteq> []"
  from ok have inv: "inv (sched w)" and s: "service_inv (queue_of w)"
    and kept: "kept (clients w) (queue_of w) = True" and "alive S w"
    by (simp_all add: serving_def sys_ok_def alive_def kept_def)
  from tasks ok s have "QueueService_HasTasks (queue_of w)"
    by (simp add: QueueService_HasTasks_def serving_def waiting_tasks_def service_inv_def TaskQueue_IsEmpty_content)
  with ok \<open>alive S w\<close> have "awake (sched w) \<or> post_pending n (calls w)" by (auto simp: serving_def sys_ok_def)
  then show False
  proof
    assume "awake (sched w)"
    with inv have "\<exists>k e r. sch_thread S k e (kept (clients w) (queue_of w)) (sched w) (queue_of w) = Some r"
      by (rule thread_ready)
    then obtain k e r
      where r: "sch_thread S k e (kept (clients w) (queue_of w)) (sched w) (queue_of w) = Some r" by blast
    moreover from r have "sch_thread S k e True (sched w) (queue_of w) = Some r" by (simp only: kept)
    ultimately obtain p s1 ts where "r = Returns (p, s1, ts)"
      using thread_no_crash [OF inv s] thread_finished by (cases r) auto
    with r have "own_step S n w (w\<lparr>sched := p, queue_of := s1, ran := ran w @ ts\<rparr>)"
      by (auto intro: own_step.thread)
    with stuck show False by blast
  next
    assume "post_pending n (calls w)"
    then obtain tid where "tid < n" and "SchedulerPost \<in> set (calls w tid)" by (auto simp: post_pending_def)
    moreover from this ok have "set (calls w tid) \<subseteq> {SchedulerPost}" by (simp add: serving_def)
    ultimately obtain cs where "calls w tid = SchedulerPost # cs" by (cases "calls w tid") auto
    moreover obtain k p d where "sch_call S k SchedulerPost (sched w) = Some (Returns (p, d))"
      using post_accepted [OF inv] by blast
    ultimately have "own_step S n w
        (w\<lparr>sched := p, calls := (calls w)(tid := if d then cs else SchedulerPost # cs)\<rparr>)"
      using \<open>tid < n\<close> by (intro own_step.deliver)
    with stuck show False by blast
  qed
qed

lemma serving_steps:
  "(own_step S n)\<^sup>*\<^sup>* w w' \<Longrightarrow> serving n w \<Longrightarrow>
     serving n w' \<and> ran w' @ waiting_tasks w' = ran w @ waiting_tasks w"
  by (induction rule: rtranclp_induct) (auto dest: serving_own)

lemma serving_terminates:
  assumes "serving n w"
  shows "\<nexists>f. f 0 = w \<and> (\<forall>i. own_step S n (f i) (f (Suc i)))"
proof
  assume "\<exists>f. f 0 = w \<and> (\<forall>i. own_step S n (f i) (f (Suc i)))"
  then obtain f where f: "f 0 = w" "\<And>i. own_step S n (f i) (f (Suc i))" by blast
  have "serving n (f i)" for i by (induction i) (use f assms serving_own in blast)+
  with f(2) have "\<forall>i. (distance n (f (Suc i)), distance n (f i))
      \<in> (less_than <*lex*> less_than) <*lex*> less_than" using serving_own by blast
  then have "\<exists>g. \<forall>i. (g (Suc i), g i) \<in> (less_than <*lex*> less_than) <*lex*> less_than"
    by (rule exI [where x = "\<lambda>i. distance n (f i)"])
  moreover have "wf ((less_than <*lex*> less_than) <*lex*> less_than)" by auto
  ultimately show False unfolding wf_iff_no_infinite_down_chain by (rule notE [rotated])
qed

lemma every_task_runs:
  assumes "serving n w"
  shows "(\<nexists>f. f 0 = w \<and> (\<forall>i. own_step S n (f i) (f (Suc i))))
    \<and> (\<forall>w'. (own_step S n)\<^sup>*\<^sup>* w w' \<and> (\<nexists>w''. own_step S n w' w'') \<longrightarrow>
          waiting_tasks w' = [] \<and> ran w' = ran w @ waiting_tasks w)"
  using serving_terminates [OF assms] serving_steps [OF _ assms] serving_stuck by (metis append_Nil2)

end

end
