(* ===== verification/Thread_Pool.thy ===== *)
theory Thread_Pool
  imports Scheduler_System
begin

text \<open>
  The thread pool of \<open>libs/dispatchQueue/src/threadPoolScheduler_linux.cpp\<close>, which serial and
  concurrent queues use: up to \<open>maxThreads\<close> threads that take tasks while there are any and then
  wait for a condition variable.
\<close>

section \<open>State\<close>

text \<open>
  Where a thread is in \<open>RunInThread\<close>: before it locks the weak pointer to the queue, in the inner
  loop before \<open>TryDequeTask\<close>, before the end of the task it invokes, before it takes the mutex
  after the inner loop, in \<open>m_wakeUpThread.wait\<close>, or notified but not yet holding the mutex
  again. An exited thread returned from \<open>RunInThread\<close>; once joined it is not \<open>joinable()\<close>.
\<close>

datatype pool_phase =
    Entering
  | Draining
  | Running "task option"
  | Finishing
  | Waiting
  | Woken
  | Exited
  | Joined

text \<open>
  \<open>m_threads\<close> lists the threads that were started, the first \<open>m_threadCount\<close> entries of the array.
  The counters are natural numbers: \<open>pool_inv\<close> below keeps them between 0 and 64.
\<close>

record ThreadPool =
  m_maxThreads :: nat
  m_busyThreads :: nat
  m_threadCount :: nat
  m_isShutdown :: bool
  m_threads :: "pool_phase list"

definition MaxConcurrentThreads :: nat where
  "MaxConcurrentThreads = 64"

definition ThreadPool_new :: "nat \<Rightarrow> ThreadPool" where
  "ThreadPool_new maxThreads =
     \<lparr>m_maxThreads = (if maxThreads = 0 then MaxConcurrentThreads else maxThreads),
      m_busyThreads = 0, m_threadCount = 0, m_isShutdown = False, m_threads = []\<rparr>"

definition ThreadPool_IsSerial :: "ThreadPool \<Rightarrow> bool" where
  "ThreadPool_IsSerial p \<longleftrightarrow> m_maxThreads p = 1"

definition set_phase :: "nat \<Rightarrow> pool_phase \<Rightarrow> ThreadPool \<Rightarrow> ThreadPool" where
  "set_phase k ph p = p\<lparr>m_threads := (m_threads p)[k := ph]\<rparr>"

text \<open>The thread-local pointer to the scheduler that \<open>ThreadAccessGuard\<close> sets and restores.\<close>

definition ThreadAccessGuard_enter :: "nat option \<Rightarrow> nat \<Rightarrow> nat option \<times> nat option" where
  "ThreadAccessGuard_enter tls scheduler = (tls, Some scheduler)"

definition ThreadAccessGuard_leave :: "nat option \<Rightarrow> nat option" where
  "ThreadAccessGuard_leave prevScheduler = prevScheduler"

definition ThreadAccessGuard_HasThreadAccess :: "nat option \<Rightarrow> nat \<Rightarrow> bool" where
  "ThreadAccessGuard_HasThreadAccess tls scheduler \<longleftrightarrow> tls = Some scheduler"

section \<open>Calls of the scheduler\<close>

text \<open>
  \<open>notify_one\<close> wakes one waiting thread, which one is up to the system; without a waiting thread
  it does nothing. \<open>notify_all\<close> wakes all of them.
\<close>

definition notify_one :: "nat \<Rightarrow> ThreadPool \<Rightarrow> ThreadPool option" where
  "notify_one k p =
     (if Waiting \<notin> set (m_threads p) then Some p
      else if k < length (m_threads p) \<and> m_threads p ! k = Waiting then Some (set_phase k Woken p)
      else None)"

definition notify_all :: "ThreadPool \<Rightarrow> ThreadPool" where
  "notify_all p = p\<lparr>m_threads := map (\<lambda>ph. if ph = Waiting then Woken else ph) (m_threads p)\<rparr>"

definition ThreadPool_Post :: "nat \<Rightarrow> ThreadPool \<Rightarrow> ThreadPool outcome option" where
  "ThreadPool_Post k p =
     (if m_busyThreads p = m_threadCount p \<and> m_threadCount p < m_maxThreads p
      then if m_threadCount p < MaxConcurrentThreads
           then Some (Returns (p\<lparr>m_busyThreads := m_busyThreads p + 1,
                                m_threads := m_threads p @ [Entering],
                                m_threadCount := m_threadCount p + 1\<rparr>))
           else Some (Crashes OutOfBounds)
      else map_option Returns (notify_one k p))"

definition ThreadPool_Shutdown :: "ThreadPool \<Rightarrow> ThreadPool" where
  "ThreadPool_Shutdown p = notify_all (p\<lparr>m_isShutdown := True\<rparr>)"

text \<open>
  \<open>AwaitTermination\<close> shuts down and then joins the threads in turn: the next joinable one must
  have exited. A region of the call is one step; it is done when no thread is joinable. In a pool
  that was shut down before, the second \<open>notify_all\<close> is left out: the first one woke all threads,
  and none waits once the flag is set.
\<close>

definition joinable :: "pool_phase \<Rightarrow> bool" where
  "joinable ph \<longleftrightarrow> ph \<noteq> Joined"

fun join_next :: "pool_phase list \<Rightarrow> pool_phase list option" where
  "join_next [] = None"
| "join_next (ph # phs) =
     (if joinable ph then if ph = Exited then Some (Joined # phs) else None
      else map_option ((#) ph) (join_next phs))"

definition ThreadPool_AwaitTermination :: "ThreadPool \<Rightarrow> (ThreadPool \<times> bool) option" where
  "ThreadPool_AwaitTermination p =
     (if \<not> m_isShutdown p then Some (ThreadPool_Shutdown p, False)
      else if \<not> list_ex joinable (m_threads p) then Some (p, True)
      else map_option (\<lambda>phs. (p\<lparr>m_threads := phs\<rparr>, False)) (join_next (m_threads p)))"

definition ThreadPool_call :: "nat \<Rightarrow> scheduler_call \<Rightarrow> ThreadPool \<Rightarrow> (ThreadPool \<times> bool) outcome option" where
  "ThreadPool_call k c p =
     (case c of
        SchedulerPost \<Rightarrow> map_option (\<lambda>r. and_then r (\<lambda>p'. Returns (p', True))) (ThreadPool_Post k p)
      | SchedulerShutdown \<Rightarrow> Some (Returns (ThreadPool_Shutdown p, True))
      | SchedulerAwaitTermination \<Rightarrow> map_option Returns (ThreadPool_AwaitTermination p))"

section \<open>The threads\<close>

text \<open>
  Between a successful \<open>GetStrongPtr\<close> and the end of the loop body a thread holds the queue. A
  thread that gives up the last reference runs the destructor of the queue, and so
  \<open>AwaitTermination\<close>: under the mutex, this locks the mutex a second time; after \<open>break\<close>, when the
  mutex is free again, it joins the thread it runs on.
\<close>

fun holds_queue :: "pool_phase \<Rightarrow> bool" where
  "holds_queue Draining = True"
| "holds_queue (Running t) = True"
| "holds_queue Finishing = True"
| "holds_queue _ = False"

definition ThreadPool_held :: "ThreadPool \<Rightarrow> nat" where
  "ThreadPool_held p = length (filter holds_queue (m_threads p))"

definition last_reference :: "bool \<Rightarrow> ThreadPool \<Rightarrow> bool" where
  "last_reference kp p \<longleftrightarrow> \<not> kp \<and> ThreadPool_held p = 1"

definition RunInThread ::
  "nat \<Rightarrow> bool \<Rightarrow> ThreadPool \<Rightarrow> 'v QueueService
     \<Rightarrow> (ThreadPool \<times> 'v QueueService \<times> task option list) outcome option" where
  "RunInThread k kp p s =
     (if k < length (m_threads p)
      then case m_threads p ! k of
        Entering \<Rightarrow>
          if kp \<or> ThreadPool_held p > 0 then Some (Returns (set_phase k Draining p, s, []))
          else Some (Returns (set_phase k Exited p, s, []))
      | Draining \<Rightarrow>
          (case QueueService_TryDequeTask s None of
             (True, task, s') \<Rightarrow> Some (Returns (set_phase k (Running task) p, s', [task]))
           | (False, task, s') \<Rightarrow> Some (Returns (set_phase k Finishing p, s', [])))
      | Running task \<Rightarrow>
          if task = None then Some (Crashes NullDereference)
          else Some (Returns (set_phase k Draining p, s, []))
      | Finishing \<Rightarrow>
          let p1 = p\<lparr>m_busyThreads := m_busyThreads p - 1\<rparr> in
          if m_isShutdown p
          then if last_reference kp p then Some (Crashes SelfJoin)
               else Some (Returns (set_phase k Exited p1, s, []))
          else if QueueService_HasTasks s
          then if last_reference kp p then Some (Crashes SelfJoin)
               else Some (Returns (set_phase k Entering (p1\<lparr>m_busyThreads := m_busyThreads p1 + 1\<rparr>), s, []))
          else if last_reference kp p then Some (Crashes SelfDeadlock)
          else Some (Returns (set_phase k Waiting p1, s, []))
      | Woken \<Rightarrow>
          Some (Returns (set_phase k Entering (p\<lparr>m_busyThreads := m_busyThreads p + 1\<rparr>), s, []))
      | _ \<Rightarrow> None
      else None)"

definition wake_spuriously :: "nat \<Rightarrow> ThreadPool \<Rightarrow> ThreadPool option" where
  "wake_spuriously k p =
     (if k < length (m_threads p) \<and> m_threads p ! k = Waiting then Some (set_phase k Woken p) else None)"

definition thread_pool :: "(ThreadPool, 'v) scheduler" where
  "thread_pool = \<lparr>sch_call = ThreadPool_call, sch_thread = (\<lambda>k expired. RunInThread k),
     sch_spurious = wake_spuriously, sch_held = ThreadPool_held\<rparr>"

section \<open>The pool keeps the contract\<close>

fun is_busy :: "pool_phase \<Rightarrow> bool" where
  "is_busy Waiting = False"
| "is_busy Woken = False"
| "is_busy Exited = False"
| "is_busy Joined = False"
| "is_busy _ = True"

fun is_awake :: "pool_phase \<Rightarrow> bool" where
  "is_awake Waiting = False"
| "is_awake Exited = False"
| "is_awake Joined = False"
| "is_awake _ = True"

text \<open>
  The busy counter is the number of threads between two waits, there are at most \<open>maxThreads\<close>
  threads, and no thread is gone before the shutdown. The array has room for all of them when
  \<open>maxThreads\<close> is at most 64.
\<close>

definition pool_inv :: "ThreadPool \<Rightarrow> bool" where
  "pool_inv p \<longleftrightarrow> m_threadCount p = length (m_threads p) \<and> m_threadCount p \<le> m_maxThreads p
     \<and> 0 < m_maxThreads p \<and> m_maxThreads p \<le> MaxConcurrentThreads
     \<and> m_busyThreads p = length (filter is_busy (m_threads p)) \<and> Running None \<notin> set (m_threads p)
     \<and> (\<not> m_isShutdown p \<longrightarrow> Exited \<notin> set (m_threads p) \<and> Joined \<notin> set (m_threads p))"

definition pool_awake :: "ThreadPool \<Rightarrow> bool" where
  "pool_awake p \<longleftrightarrow> (\<exists>ph \<in> set (m_threads p). is_awake ph)"

fun phase_rank :: "bool \<Rightarrow> pool_phase \<Rightarrow> nat" where
  "phase_rank tasks Woken = 6"
| "phase_rank tasks Entering = 5"
| "phase_rank tasks (Running t) = 5"
| "phase_rank tasks Draining = 4"
| "phase_rank tasks Finishing = (if tasks then 6 else 3)"
| "phase_rank tasks _ = 0"

definition pool_rank :: "bool \<Rightarrow> ThreadPool \<Rightarrow> nat" where
  "pool_rank tasks p = sum_list (map (phase_rank tasks) (m_threads p))"

lemma set_phase_simps [simp]:
  "m_threads (set_phase k ph p) = (m_threads p)[k := ph]" "m_maxThreads (set_phase k ph p) = m_maxThreads p"
  "m_busyThreads (set_phase k ph p) = m_busyThreads p" "m_threadCount (set_phase k ph p) = m_threadCount p"
  "m_isShutdown (set_phase k ph p) = m_isShutdown p"
  by (simp_all add: set_phase_def)

text \<open>A thread moves to another phase and the counter follows.\<close>

lemma pool_inv_move:
  assumes inv: "pool_inv p" and k: "k < length (m_threads p)" and ph: "ph \<noteq> Running None"
    and p': "p' = (set_phase k ph p)\<lparr>m_busyThreads := b\<rparr>"
    and b: "b + (if is_busy (m_threads p ! k) then 1 else 0) = m_busyThreads p + (if is_busy ph then 1 else 0)"
    and gone: "m_isShutdown p \<or> (ph \<noteq> Exited \<and> ph \<noteq> Joined)"
  shows "pool_inv p'"
proof -
  have "b = length (filter is_busy ((m_threads p)[k := ph]))"
    using count_update [OF k, of is_busy ph] b inv by (simp add: pool_inv_def)
  moreover have "x \<in> set ((m_threads p)[k := ph]) \<Longrightarrow> x = ph \<or> x \<in> set (m_threads p)" for x
    by (rule in_update)
  ultimately show ?thesis unfolding p' using inv ph gone by (auto simp: pool_inv_def)
qed

lemma busy_pos:
  "pool_inv p \<Longrightarrow> k < length (m_threads p) \<Longrightarrow> is_busy (m_threads p ! k) \<Longrightarrow> 0 < m_busyThreads p"
  using count_pos [of k "m_threads p" is_busy] by (simp add: pool_inv_def)

lemma set_phase_busy_same: "set_phase k ph p = (set_phase k ph p)\<lparr>m_busyThreads := m_busyThreads p\<rparr>"
  by (simp add: set_phase_def)

lemma pool_inv_same:
  assumes "pool_inv p" and "k < length (m_threads p)" and "ph \<noteq> Running None"
    and "is_busy ph = is_busy (m_threads p ! k)" and "m_isShutdown p \<or> (ph \<noteq> Exited \<and> ph \<noteq> Joined)"
  shows "pool_inv (set_phase k ph p)"
  using assms by (intro pool_inv_move [OF _ _ _ set_phase_busy_same]) auto

text \<open>The steps of a thread, one case for each phase.\<close>

lemma RunInThread_cases:
  assumes "RunInThread k kp p s = Some (Returns (p', s', ts))"
  obtains (enter) "k < length (m_threads p)" "m_threads p ! k = Entering" "kp \<or> ThreadPool_held p > 0"
      "p' = set_phase k Draining p" "s' = s" "ts = []"
  | (dead) "k < length (m_threads p)" "m_threads p ! k = Entering" "\<not> kp" "ThreadPool_held p = 0"
      "p' = set_phase k Exited p" "s' = s" "ts = []"
  | (take) t where "k < length (m_threads p)" "m_threads p ! k = Draining"
      "QueueService_TryDequeTask s None = (True, t, s')" "p' = set_phase k (Running t) p" "ts = [t]"
  | (empty) t where "k < length (m_threads p)" "m_threads p ! k = Draining"
      "QueueService_TryDequeTask s None = (False, t, s')" "p' = set_phase k Finishing p" "ts = []"
  | (ran) t where "k < length (m_threads p)" "m_threads p ! k = Running (Some t)"
      "p' = set_phase k Draining p" "s' = s" "ts = []"
  | (exit) "k < length (m_threads p)" "m_threads p ! k = Finishing" "m_isShutdown p" "\<not> last_reference kp p"
      "p' = (set_phase k Exited p)\<lparr>m_busyThreads := m_busyThreads p - 1\<rparr>" "s' = s" "ts = []"
  | (again) "k < length (m_threads p)" "m_threads p ! k = Finishing" "\<not> m_isShutdown p" "QueueService_HasTasks s"
      "\<not> last_reference kp p"
      "p' = (set_phase k Entering p)\<lparr>m_busyThreads := m_busyThreads p - 1 + 1\<rparr>" "s' = s" "ts = []"
  | (sleep) "k < length (m_threads p)" "m_threads p ! k = Finishing" "\<not> m_isShutdown p"
      "\<not> QueueService_HasTasks s" "\<not> last_reference kp p"
      "p' = (set_phase k Waiting p)\<lparr>m_busyThreads := m_busyThreads p - 1\<rparr>" "s' = s" "ts = []"
  | (wake) "k < length (m_threads p)" "m_threads p ! k = Woken"
      "p' = (set_phase k Entering p)\<lparr>m_busyThreads := m_busyThreads p + 1\<rparr>" "s' = s" "ts = []"
proof -
  from assms have k: "k < length (m_threads p)" by (simp add: RunInThread_def split: if_splits)
  show thesis
  proof (cases "m_threads p ! k")
    case Draining
    obtain b t s1 where d: "QueueService_TryDequeTask s None = (b, t, s1)" by (cases "QueueService_TryDequeTask s None")
    with assms k Draining that(3,4) show thesis by (cases b) (auto simp: RunInThread_def)
  next
    case Entering
    with assms k that(1,2) show thesis by (auto simp: RunInThread_def split: if_splits)
  next
    case (Running t)
    with assms k that(5) show thesis by (auto simp: RunInThread_def split: if_splits)
  next
    case Finishing
    with assms k that(6-8) show thesis
      by (auto simp: RunInThread_def set_phase_def Let_def split: if_splits)
  next
    case Woken
    with assms k that(9) show thesis by (auto simp: RunInThread_def set_phase_def)
  qed (use assms k in \<open>simp_all add: RunInThread_def\<close>)
qed

lemma RunInThread_inv:
  assumes step: "RunInThread k kp p s = Some (Returns (p', s', ts))" and inv: "pool_inv p"
    and s: "service_inv s" and kept: "kp \<or> ThreadPool_held p > 0"
  shows "pool_inv p'"
  using step
proof (cases rule: RunInThread_cases)
  case enter
  with inv show ?thesis by (auto intro: pool_inv_same)
next
  case dead
  with kept show ?thesis by simp
next
  case (take t)
  with inv s TryDequeTask_taken(2) [OF s take(3)] show ?thesis by (auto intro: pool_inv_same)
next
  case (empty t)
  with inv show ?thesis by (auto intro: pool_inv_same)
next
  case (ran t)
  with inv show ?thesis by (auto intro: pool_inv_same)
next
  case exit
  with inv busy_pos [OF inv exit(1)] show ?thesis by (intro pool_inv_move [OF inv exit(1) _ exit(5)]) auto
next
  case again
  with inv busy_pos [OF inv again(1)] show ?thesis by (intro pool_inv_move [OF inv again(1) _ again(6)]) auto
next
  case sleep
  with inv busy_pos [OF inv sleep(1)] show ?thesis by (intro pool_inv_move [OF inv sleep(1) _ sleep(6)]) auto
next
  case wake
  with inv show ?thesis by (intro pool_inv_move [OF inv wake(1) _ wake(3)]) auto
qed

lemma RunInThread_shutdown: "RunInThread k kp p s = Some (Returns (p', s', ts)) \<Longrightarrow> m_isShutdown p' = m_isShutdown p"
  by (cases rule: RunInThread_cases) auto

lemma RunInThread_queue:
  assumes "RunInThread k kp p s = Some (Returns (p', s', ts))" and "service_inv s"
  shows "(s' = s \<and> ts = []) \<or> (\<exists>t. QueueService_TryDequeTask s None = (True, t, s') \<and> ts = [t])"
  using assms(1)
proof (cases rule: RunInThread_cases)
  case (empty t)
  with TryDequeTask_empty [OF assms(2)] show ?thesis by simp
qed auto

text \<open>Only a thread that takes no task goes to sleep, and only when the queue has none.\<close>

lemma awake_update: "k < length xs \<Longrightarrow> is_awake ph \<Longrightarrow> \<exists>x \<in> set (xs[k := ph]). is_awake x"
  by (rule bexI [OF _ set_update_memI])

lemma RunInThread_awake:
  assumes "RunInThread k kp p s = Some (Returns (p', s', ts))" and "kp \<or> ThreadPool_held p > 0"
  shows "pool_awake p' \<or> m_isShutdown p' \<or> \<not> QueueService_HasTasks s'"
  using assms by (cases rule: RunInThread_cases) (auto simp: pool_awake_def intro: awake_update)

lemma RunInThread_ready:
  assumes "pool_awake p"
  shows "\<exists>k r. RunInThread k kp p s = Some r"
proof -
  from assms obtain k where "k < length (m_threads p)" and "is_awake (m_threads p ! k)"
    by (auto simp: pool_awake_def in_set_conv_nth)
  then have "RunInThread k kp p s \<noteq> None"
    by (cases "m_threads p ! k") (auto simp: RunInThread_def Let_def split: prod.splits bool.splits)
  then show ?thesis by blast
qed

lemma RunInThread_no_crash:
  assumes "pool_inv p"
  shows "RunInThread k True p s \<noteq> Some (Crashes r)"
proof (cases "k < length (m_threads p)")
  case True
  with assms have "m_threads p ! k \<noteq> Running None" by (metis pool_inv_def nth_mem)
  with True show ?thesis
    by (cases "m_threads p ! k")
      (auto simp: RunInThread_def Let_def last_reference_def split: prod.splits bool.splits)
qed (simp add: RunInThread_def)

lemma RunInThread_finished: "RunInThread k kp p s \<noteq> Some Unfinished"
  by (auto simp: RunInThread_def Let_def split: pool_phase.splits prod.splits bool.splits if_splits)

lemma RunInThread_rank:
  assumes "RunInThread k True p s = Some (Returns (p', s, []))" and s: "service_inv s"
  shows "pool_rank (QueueService_HasTasks s) p' < pool_rank (QueueService_HasTasks s) p"
  using assms(1)
proof (cases rule: RunInThread_cases)
  case (empty t)
  with TryDequeTask_empty [OF s empty(3)] show ?thesis by (auto simp: pool_rank_def intro!: weight_update)
qed (auto simp: pool_rank_def intro!: weight_update)

lemma RunInThread_dead:
  assumes "RunInThread k False p s = Some (Returns (p', s', ts))" and "ThreadPool_held p = 0"
  shows "ThreadPool_held p' = 0 \<and> s' = s"
proof -
  have held: "holds_queue (m_threads p ! k) \<Longrightarrow> k < length (m_threads p) \<Longrightarrow> False"
    using assms(2) count_pos [of k "m_threads p" holds_queue] by (simp add: ThreadPool_held_def)
  show ?thesis using assms(1)
  proof (cases rule: RunInThread_cases)
    case dead
    with assms(2) count_update [OF dead(1), of holds_queue Exited] show ?thesis
      by (simp add: ThreadPool_held_def)
  next
    case wake
    with assms(2) count_update [OF wake(1), of holds_queue Entering] show ?thesis
      by (simp add: ThreadPool_held_def)
  qed (use held assms(2) in auto)
qed

subsection \<open>The calls\<close>

lemma notify_one_cases:
  assumes "notify_one k p = Some p'"
  obtains (none) "Waiting \<notin> set (m_threads p)" "p' = p"
  | (one) "k < length (m_threads p)" "m_threads p ! k = Waiting" "p' = set_phase k Woken p"
proof (cases "Waiting \<in> set (m_threads p)")
  case True
  with assms have "k < length (m_threads p)" "m_threads p ! k = Waiting" "p' = set_phase k Woken p"
    by (auto simp: notify_one_def split: if_splits)
  then show thesis by (rule that(2))
next
  case False
  with assms have "p' = p" by (simp add: notify_one_def)
  with False show thesis by (rule that(1))
qed

lemma ThreadPool_Post_cases:
  assumes "ThreadPool_Post k p = Some (Returns p')"
  obtains (new) "m_busyThreads p = m_threadCount p" "m_threadCount p < m_maxThreads p"
      "p' = p\<lparr>m_busyThreads := m_busyThreads p + 1, m_threads := m_threads p @ [Entering],
              m_threadCount := m_threadCount p + 1\<rparr>"
  | (none) "\<not> (m_busyThreads p = m_threadCount p \<and> m_threadCount p < m_maxThreads p)"
      "Waiting \<notin> set (m_threads p)" "p' = p"
  | (one) "k < length (m_threads p)" "m_threads p ! k = Waiting" "p' = set_phase k Woken p"
proof (cases "m_busyThreads p = m_threadCount p \<and> m_threadCount p < m_maxThreads p")
  case True
  with assms show thesis by (intro that(1)) (simp_all add: ThreadPool_Post_def split: if_splits)
next
  case False
  with assms have "notify_one k p = Some p'" unfolding ThreadPool_Post_def by (simp split: if_splits)
  then show thesis by (rule notify_one_cases) (use False that(2,3) in blast)+
qed

lemma ThreadPool_Post_inv:
  assumes "ThreadPool_Post k p = Some (Returns p')" and "pool_inv p"
  shows "pool_inv p'"
  using assms(1)
proof (cases rule: ThreadPool_Post_cases)
  case new
  with assms(2) show ?thesis by (simp add: pool_inv_def)
next
  case one
  with assms(2) show ?thesis by (auto intro: pool_inv_same)
qed (use assms(2) in simp)

lemma is_awake_iff: "is_awake ph \<longleftrightarrow> ph \<noteq> Waiting \<and> ph \<noteq> Exited \<and> ph \<noteq> Joined"
  by (cases ph) simp_all

lemma ThreadPool_Post_awake:
  assumes "ThreadPool_Post k p = Some (Returns p')" and inv: "pool_inv p" and "\<not> m_isShutdown p"
  shows "pool_awake p'"
  using assms(1)
proof (cases rule: ThreadPool_Post_cases)
  case new
  then show ?thesis by (simp add: pool_awake_def)
next
  case none
  with inv have "m_threads p \<noteq> []" by (auto simp: pool_inv_def)
  then obtain ph where ph: "ph \<in> set (m_threads p)" by (cases "m_threads p") auto
  with none inv assms(3) have "is_awake ph" unfolding is_awake_iff pool_inv_def by metis
  with ph none(3) show ?thesis by (auto simp: pool_awake_def)
next
  case one
  then show ?thesis by (auto simp: pool_awake_def intro: awake_update)
qed

lemma ThreadPool_Post_accepted: "pool_inv p \<Longrightarrow> \<exists>k p'. ThreadPool_Post k p = Some (Returns p')"
  by (auto simp: ThreadPool_Post_def notify_one_def pool_inv_def in_set_conv_nth)

lemma Shutdown_threads:
  "m_threads (ThreadPool_Shutdown p) = map (\<lambda>ph. if ph = Waiting then Woken else ph) (m_threads p)"
  "m_isShutdown (ThreadPool_Shutdown p)" "m_maxThreads (ThreadPool_Shutdown p) = m_maxThreads p"
  "m_busyThreads (ThreadPool_Shutdown p) = m_busyThreads p" "m_threadCount (ThreadPool_Shutdown p) = m_threadCount p"
  by (simp_all add: ThreadPool_Shutdown_def notify_all_def)

lemma filter_map_woken:
  assumes "P Waiting = P Woken"
  shows "length (filter P (map (\<lambda>ph. if ph = Waiting then Woken else ph) xs)) = length (filter P xs)"
  by (induction xs) (simp_all add: assms)

lemma ThreadPool_Shutdown_inv:
  assumes "pool_inv p"
  shows "pool_inv (ThreadPool_Shutdown p)"
proof -
  have "length (filter is_busy (m_threads (ThreadPool_Shutdown p))) = length (filter is_busy (m_threads p))"
    unfolding Shutdown_threads(1) by (rule filter_map_woken) simp
  moreover from assms have "Running None \<notin> set (m_threads (ThreadPool_Shutdown p))"
    by (auto simp: pool_inv_def Shutdown_threads)
  ultimately show ?thesis using assms by (simp add: pool_inv_def Shutdown_threads(2-5)) (simp add: Shutdown_threads(1))
qed

lemma Shutdown_held: "ThreadPool_held (ThreadPool_Shutdown p) = ThreadPool_held p"
  unfolding ThreadPool_held_def Shutdown_threads(1) by (rule filter_map_woken) simp

lemma join_next_filter:
  "join_next xs = Some ys \<Longrightarrow> P Exited = P Joined \<Longrightarrow>
     length (filter P ys) = length (filter P xs) \<and> length ys = length xs \<and> set ys \<subseteq> insert Joined (set xs)"
proof (induction xs arbitrary: ys)
  case (Cons ph phs)
  show ?case
  proof (cases "joinable ph")
    case False
    with Cons.prems(1) obtain zs where "join_next phs = Some zs" "ys = ph # zs" by auto
    with Cons.IH Cons.prems(2) show ?thesis by auto
  qed (use Cons.prems in \<open>auto split: if_splits\<close>)
qed simp

lemma Await_cases:
  assumes "ThreadPool_AwaitTermination p = Some (p', d)"
  obtains (shut) "\<not> m_isShutdown p" "p' = ThreadPool_Shutdown p" "\<not> d"
  | (joined) "m_isShutdown p" "p' = p" "d"
  | (join) phs where "m_isShutdown p" "join_next (m_threads p) = Some phs" "p' = p\<lparr>m_threads := phs\<rparr>" "\<not> d"
proof -
  consider "\<not> m_isShutdown p" | "m_isShutdown p" "\<not> list_ex joinable (m_threads p)"
    | "m_isShutdown p" "list_ex joinable (m_threads p)" by blast
  then show thesis
  proof cases
    case 1
    with assms show thesis by (intro that(1)) (simp_all add: ThreadPool_AwaitTermination_def)
  next
    case 2
    with assms show thesis by (intro that(2)) (simp_all add: ThreadPool_AwaitTermination_def)
  next
    case 3
    with assms obtain phs where "join_next (m_threads p) = Some phs" "p' = p\<lparr>m_threads := phs\<rparr>" "\<not> d"
      by (auto simp: ThreadPool_AwaitTermination_def)
    with 3(1) show thesis by (rule that(3))
  qed
qed

lemma ThreadPool_Await_inv:
  assumes "ThreadPool_AwaitTermination p = Some (p', d)" and "pool_inv p"
  shows "pool_inv p'"
  using assms(1)
proof (cases rule: Await_cases)
  case (join phs)
  with assms(2) join_next_filter [OF join(2), of is_busy] show ?thesis by (auto simp: pool_inv_def)
qed (use assms(2) in \<open>simp_all add: ThreadPool_Shutdown_inv\<close>)

lemma Await_held:
  "ThreadPool_AwaitTermination p = Some (p', d) \<Longrightarrow> ThreadPool_held p' = ThreadPool_held p"
  by (erule Await_cases)
    (simp_all add: Shutdown_held, simp add: ThreadPool_held_def join_next_filter [where P = holds_queue])

lemma Await_shutdown: "ThreadPool_AwaitTermination p = Some (p', d) \<Longrightarrow> m_isShutdown p'"
  by (erule Await_cases) (auto simp: Shutdown_threads)

lemma Post_held: "ThreadPool_Post k p = Some (Returns p') \<Longrightarrow> ThreadPool_held p' = ThreadPool_held p"
proof (erule ThreadPool_Post_cases)
  assume "k < length (m_threads p)" "m_threads p ! k = Waiting" "p' = set_phase k Woken p"
  then show ?thesis using count_update [of k "m_threads p" holds_queue Woken] by (simp add: ThreadPool_held_def)
qed (simp_all add: ThreadPool_held_def)

lemma Post_shutdown: "ThreadPool_Post k p = Some (Returns p') \<Longrightarrow> m_isShutdown p' = m_isShutdown p"
  by (erule ThreadPool_Post_cases) simp_all

lemma Post_no_crash: "pool_inv p \<Longrightarrow> ThreadPool_Post k p \<noteq> Some (Crashes r)"
  by (auto simp: ThreadPool_Post_def pool_inv_def)

lemma Post_finished: "ThreadPool_Post k p \<noteq> Some Unfinished"
  by (auto simp: ThreadPool_Post_def)

text \<open>A call that makes progress is one of the three.\<close>

lemma ThreadPool_call_cases:
  assumes "ThreadPool_call k c p = Some (Returns (p', d))"
  obtains (post) "c = SchedulerPost" "ThreadPool_Post k p = Some (Returns p')" "d"
  | (shutdown) "c = SchedulerShutdown" "p' = ThreadPool_Shutdown p" "d"
  | (await) "c = SchedulerAwaitTermination" "ThreadPool_AwaitTermination p = Some (p', d)"
proof (cases c)
  case SchedulerPost
  with assms have "ThreadPool_Post k p = Some (Returns p')" "d"
    by (auto simp: ThreadPool_call_def outcome_simps)
  with SchedulerPost show thesis by (rule that(1))
next
  case SchedulerShutdown
  with assms have "p' = ThreadPool_Shutdown p" "d" by (simp_all add: ThreadPool_call_def)
  with SchedulerShutdown show thesis by (rule that(2))
next
  case SchedulerAwaitTermination
  with assms have "ThreadPool_AwaitTermination p = Some (p', d)" by (auto simp: ThreadPool_call_def)
  with SchedulerAwaitTermination show thesis by (rule that(3))
qed

lemma ThreadPool_call_no_crash: "pool_inv p \<Longrightarrow> ThreadPool_call k c p \<noteq> Some (Crashes r)"
  using Post_no_crash by (auto simp: ThreadPool_call_def outcome_simps split: scheduler_call.splits)

lemma thread_pool_sel [simp]:
  "sch_call thread_pool = ThreadPool_call" "sch_thread thread_pool = (\<lambda>k expired. RunInThread k)"
  "sch_spurious thread_pool = wake_spuriously" "sch_held thread_pool = ThreadPool_held"
  by (simp_all add: thread_pool_def)

lemma wake_spuriously_cases:
  assumes "wake_spuriously k p = Some p'"
  obtains "k < length (m_threads p)" "m_threads p ! k = Waiting" "p' = set_phase k Woken p"
proof -
  from assms have "k < length (m_threads p)" "m_threads p ! k = Waiting" "p' = set_phase k Woken p"
    by (simp_all add: wake_spuriously_def split: if_splits)
  then show thesis by (rule that)
qed

lemma set_phase_held:
  "k < length (m_threads p) \<Longrightarrow> holds_queue ph = holds_queue (m_threads p ! k) \<Longrightarrow>
     ThreadPool_held (set_phase k ph p) = ThreadPool_held p"
  using count_update [of k "m_threads p" holds_queue ph] by (simp add: ThreadPool_held_def split: if_splits)

interpretation pool: dispatch_scheduler
  "thread_pool :: (ThreadPool, 'v) scheduler" pool_inv m_isShutdown pool_awake pool_rank
proof
  fix p p' :: ThreadPool and s s' :: "'v QueueService" and k c d kp e r ts
  note [elim!] = ThreadPool_call_cases wake_spuriously_cases
  show "pool_inv p \<Longrightarrow> sch_call thread_pool k c p = Some (Returns (p', d)) \<Longrightarrow> pool_inv p'"
    by (auto intro: ThreadPool_Post_inv ThreadPool_Shutdown_inv ThreadPool_Await_inv)
  show "sch_call thread_pool k c p = Some (Returns (p', d)) \<Longrightarrow>
      sch_held (thread_pool :: (ThreadPool, 'v) scheduler) p' = sch_held (thread_pool :: (ThreadPool, 'v) scheduler) p"
    by (auto simp: Post_held Await_held Shutdown_held)
  show "m_isShutdown p \<Longrightarrow> sch_call thread_pool k c p = Some (Returns (p', d)) \<Longrightarrow> m_isShutdown p'"
    by (auto simp: Post_shutdown Shutdown_threads Await_shutdown)
  show "pool_inv p \<Longrightarrow> pool_awake p \<Longrightarrow> sch_call thread_pool k c p = Some (Returns (p', d)) \<Longrightarrow>
      pool_awake p' \<or> m_isShutdown p'"
    using ThreadPool_Post_awake Post_shutdown by (auto simp: Shutdown_threads Await_shutdown)
  show "pool_inv p \<Longrightarrow> sch_call thread_pool k c p \<noteq> Some (Crashes r)"
    by (simp add: ThreadPool_call_no_crash)
  show "pool_inv p \<Longrightarrow> \<exists>k p' d. sch_call thread_pool k SchedulerPost p = Some (Returns (p', d))"
    using ThreadPool_Post_accepted [of p] by (fastforce simp: ThreadPool_call_def)
  show "sch_call thread_pool k SchedulerPost p = Some (Returns (p', d)) \<Longrightarrow> d" by auto
  show "\<not> m_isShutdown p \<Longrightarrow> sch_call thread_pool k SchedulerPost p = Some (Returns (p', d)) \<Longrightarrow> \<not> m_isShutdown p'"
    by (auto simp: Post_shutdown)
  show "pool_inv p \<Longrightarrow> \<not> m_isShutdown p \<Longrightarrow>
      sch_call thread_pool k SchedulerPost p = Some (Returns (p', d)) \<Longrightarrow> pool_awake p'"
    by (auto intro: ThreadPool_Post_awake)
  show "pool_inv p \<Longrightarrow> sch_spurious thread_pool k p = Some p' \<Longrightarrow> pool_inv p'"
    by (auto intro: pool_inv_same)
  show "sch_spurious thread_pool k p = Some p' \<Longrightarrow>
      sch_held (thread_pool :: (ThreadPool, 'v) scheduler) p' = sch_held (thread_pool :: (ThreadPool, 'v) scheduler) p"
    by (auto simp: set_phase_held)
  show "m_isShutdown p \<Longrightarrow> sch_spurious thread_pool k p = Some p' \<Longrightarrow> m_isShutdown p'" by auto
  show "pool_awake p \<Longrightarrow> sch_spurious thread_pool k p = Some p' \<Longrightarrow> pool_awake p'"
    by (auto simp: pool_awake_def intro!: awake_update)
  show "pool_inv p \<Longrightarrow> service_inv s \<Longrightarrow> kp \<or> 0 < sch_held (thread_pool :: (ThreadPool, 'v) scheduler) p \<Longrightarrow>
      sch_thread thread_pool k e kp p s = Some (Returns (p', s', ts)) \<Longrightarrow> pool_inv p'"
    by (auto intro: RunInThread_inv)
  show "sch_held (thread_pool :: (ThreadPool, 'v) scheduler) p = 0 \<Longrightarrow>
      sch_thread thread_pool k e False p s = Some (Returns (p', s', ts)) \<Longrightarrow>
      sch_held (thread_pool :: (ThreadPool, 'v) scheduler) p' = 0 \<and> s' = s"
    using RunInThread_dead by simp
  show "m_isShutdown p \<Longrightarrow> sch_thread thread_pool k e kp p s = Some (Returns (p', s', ts)) \<Longrightarrow> m_isShutdown p'"
    by (simp add: RunInThread_shutdown)
  show "\<not> m_isShutdown p \<Longrightarrow> sch_thread thread_pool k e True p s = Some (Returns (p', s', ts)) \<Longrightarrow> \<not> m_isShutdown p'"
    by (simp add: RunInThread_shutdown)
  show "service_inv s \<Longrightarrow> sch_thread thread_pool k e kp p s = Some (Returns (p', s', ts)) \<Longrightarrow>
      s' = s \<and> ts = [] \<or> (\<exists>t. QueueService_TryDequeTask s None = (True, t, s') \<and> ts = [t])"
    using RunInThread_queue by simp
  show "pool_inv p \<Longrightarrow> service_inv s \<Longrightarrow> kp \<or> 0 < sch_held (thread_pool :: (ThreadPool, 'v) scheduler) p \<Longrightarrow>
      pool_awake p \<Longrightarrow> sch_thread thread_pool k e kp p s = Some (Returns (p', s', ts)) \<Longrightarrow>
      pool_awake p' \<or> m_isShutdown p' \<or> \<not> QueueService_HasTasks s'"
    using RunInThread_awake by simp
  show "pool_inv p \<Longrightarrow> pool_awake p \<Longrightarrow> \<exists>k e r. sch_thread thread_pool k e kp p s = Some r"
    using RunInThread_ready by simp
  show "pool_inv p \<Longrightarrow> service_inv s \<Longrightarrow> sch_thread thread_pool k e True p s \<noteq> Some (Crashes r)"
    by (simp add: RunInThread_no_crash)
  show "sch_thread thread_pool k e kp p s \<noteq> Some Unfinished" by (simp add: RunInThread_finished)
  show "pool_inv p \<Longrightarrow> service_inv s \<Longrightarrow> sch_thread thread_pool k e True p s = Some (Returns (p', s, [])) \<Longrightarrow>
      pool_rank (QueueService_HasTasks s) p' < pool_rank (QueueService_HasTasks s) p"
    using RunInThread_rank by simp
qed

end
