(* ===== verification/Thread_Pool_Guarantees.thy ===== *)
theory Thread_Pool_Guarantees
  imports Thread_Pool
begin

text \<open>
  What the thread pool guarantees to a dispatch queue, and where it does not keep what the queue
  promises: a queue that runs on it without being shut down takes every task, at most
  \<open>maxThreads\<close> at a time; a shutdown may leave tasks behind, and a queue whose last reference a
  pool thread gives up blocks that thread.
\<close>

section \<open>The invariant in runs\<close>

definition pool_world :: "nat \<Rightarrow> nat \<Rightarrow> (ThreadPool, 'v) sworld" where
  "pool_world maxThreads this = initial_sworld (ThreadPool_new maxThreads) this"

lemma pool_inv_new: "maxThreads \<le> MaxConcurrentThreads \<Longrightarrow> pool_inv (ThreadPool_new maxThreads)"
  by (simp add: pool_inv_def ThreadPool_new_def MaxConcurrentThreads_def)

lemma pool_reachable_ok:
  fixes w :: "(ThreadPool, 'v) sworld"
  assumes "sched_reachable thread_pool n (pool_world maxThreads this) w"
    and "maxThreads \<le> MaxConcurrentThreads"
  shows "pool.sys_ok n w"
proof -
  from pool_inv_new [OF assms(2)] have "pool.sys_ok n (pool_world maxThreads this :: (ThreadPool, 'v) sworld)"
    unfolding pool_world_def by (rule pool.sys_ok_initial)
  with assms(1) show ?thesis by (rule pool.sys_ok_reachable)
qed

lemma pool_reachable_inv:
  fixes w :: "(ThreadPool, 'v) sworld"
  assumes "sched_reachable thread_pool n (pool_world maxThreads this) w"
    and "maxThreads \<le> MaxConcurrentThreads" and "alive thread_pool w"
  shows "pool_inv (sched w)"
  using pool_reachable_ok [OF assms(1,2)] assms(3) by (simp add: pool.sys_ok_def)

text \<open>Nothing changes the maximum.\<close>

lemma own_max:
  fixes w w' :: "(ThreadPool, 'v) sworld"
  assumes "own_step thread_pool n w w'"
  shows "m_maxThreads (sched w') = m_maxThreads (sched w)"
  using assms
proof cases
  case (deliver tid c cs k p d)
  from deliver(4) have "ThreadPool_call k c (sched w) = Some (Returns (p, d))" by simp
  then have "m_maxThreads p = m_maxThreads (sched w)"
  proof (cases rule: ThreadPool_call_cases)
    case post
    from post(2) show ?thesis by (cases rule: ThreadPool_Post_cases) simp_all
  next
    case await
    from await(2) show ?thesis by (cases rule: Await_cases) (simp_all add: Shutdown_threads)
  qed (simp add: Shutdown_threads)
  with deliver(1) show ?thesis by simp
next
  case (thread k e p s ts)
  from thread(2) have "RunInThread k (kept (clients w) (queue_of w)) (sched w) (queue_of w) = Some (Returns (p, s, ts))"
    by simp
  then have "m_maxThreads p = m_maxThreads (sched w)" by (cases rule: RunInThread_cases) simp_all
  with thread(1) show ?thesis by simp
qed

lemma client_max:
  fixes w w' :: "(ThreadPool, 'v) sworld"
  assumes "client_step thread_pool n w w'"
  shows "m_maxThreads (sched w') = m_maxThreads (sched w)"
  using assms by cases (auto elim!: wake_spuriously_cases)

lemma reachable_max:
  fixes w :: "(ThreadPool, 'v) sworld"
  assumes "sched_reachable thread_pool n (pool_world maxThreads this) w"
  shows "m_maxThreads (sched w) = (if maxThreads = 0 then MaxConcurrentThreads else maxThreads)"
  using assms
  by (induction rule: sched_reachable.induct)
    (simp_all add: own_max client_max pool_world_def initial_sworld_def ThreadPool_new_def)

text \<open>The threads that were ever started: each has its place in the array, and there is one for each count.\<close>

definition starts_few :: "ThreadPool \<Rightarrow> bool" where
  "starts_few p \<longleftrightarrow> m_threadCount p = length (m_threads p) \<and> m_threadCount p \<le> m_maxThreads p"

lemma join_next_length: "join_next phs = Some phs' \<Longrightarrow> length phs' = length phs"
  by (induction phs arbitrary: phs') (auto split: if_splits)

lemma own_starts_few:
  fixes w w' :: "(ThreadPool, 'v) sworld"
  assumes "own_step thread_pool n w w'" and "starts_few (sched w)"
  shows "starts_few (sched w')"
  using assms(1)
proof cases
  case (deliver tid c cs k p d)
  from deliver(4) have "ThreadPool_call k c (sched w) = Some (Returns (p, d))" by simp
  then have "starts_few p"
  proof (cases rule: ThreadPool_call_cases)
    case post
    from post(2) show ?thesis
      by (cases rule: ThreadPool_Post_cases) (use assms(2) in \<open>auto simp: starts_few_def\<close>)
  next
    case await
    from await(2) show ?thesis
      by (cases rule: Await_cases) (use assms(2) in \<open>auto simp: starts_few_def Shutdown_threads dest: join_next_length\<close>)
  qed (use assms(2) in \<open>simp add: starts_few_def Shutdown_threads\<close>)
  with deliver(1) show ?thesis by simp
next
  case (thread k e p s ts)
  from thread(2) have "RunInThread k (kept (clients w) (queue_of w)) (sched w) (queue_of w) = Some (Returns (p, s, ts))"
    by simp
  then have "starts_few p" by (cases rule: RunInThread_cases) (use assms(2) in \<open>simp_all add: starts_few_def\<close>)
  with thread(1) show ?thesis by simp
qed

lemma reachable_starts_few:
  fixes w :: "(ThreadPool, 'v) sworld"
  assumes "sched_reachable thread_pool n (pool_world maxThreads this) w"
  shows "starts_few (sched w)"
  using assms
proof (induction rule: sched_reachable.induct)
  case (client w w')
  from client(2,3) show ?case by cases (auto elim!: wake_spuriously_cases simp: starts_few_def)
next
  case initial
  show ?case by (simp add: pool_world_def initial_sworld_def ThreadPool_new_def starts_few_def)
qed (rule own_starts_few)

definition running_tasks :: "ThreadPool \<Rightarrow> nat" where
  "running_tasks p = length (filter (\<lambda>ph. \<exists>t. ph = Running t) (m_threads p))"

lemma running_le_held: "running_tasks p \<le> ThreadPool_held p"
proof -
  have "length (filter (\<lambda>ph. \<exists>t. ph = Running t) xs) \<le> length (filter holds_queue xs)" for xs
    by (induction xs) auto
  then show ?thesis by (simp add: running_tasks_def ThreadPool_held_def)
qed

section \<open>Scenarios\<close>

text \<open>
  A serial queue: a task is posted while the only thread is between its last look at the queue
  and its look at the shutdown flag, then the queue is shut down, to complete its tasks.
\<close>

definition shutdown_scenario :: "move list" where
  "shutdown_scenario =
     [MCall 0 (OPost (Some (UserTask 1))), MDeliver 0 0, MThread 0 False, MThread 0 False, MThread 0 False,
      MThread 0 False, MCall 0 (OPost (Some (UserTask 2))), MDeliver 0 0, MCall 0 OAwaitTermination,
      MDeliver 0 0, MThread 0 False, MDeliver 0 0, MDeliver 0 0]"

text \<open>A task is posted and the only reference to the queue released before the task has run.\<close>

definition release_scenario :: "move list" where
  "release_scenario =
     [MCall 0 (OPost (Some (UserTask 1))), MDeliver 0 0, MRelease, MThread 0 False, MThread 0 False,
      MThread 0 False, MThread 0 False]"

lemmas scenario_simps =
  queue_scenario_simps pool_world_def ThreadPool_new_def ThreadPool_call_def ThreadPool_Post_def
  RunInThread_def set_phase_def ThreadPool_held_def last_reference_def notify_one_def
  MaxConcurrentThreads_def AwaitTermination_eq ThreadPool_Shutdown_def notify_all_def
  ThreadPool_AwaitTermination_def joinable_def

lemma shutdown_scenario_run:
  "\<exists>w. sched_moves thread_pool 1 shutdown_scenario (pool_world 1 0) = Some w
     \<and> m_shutdownAction (queue_of w) = Some Complete \<and> waiting_tasks w = [Some (UserTask 2)]
     \<and> calls w 0 = [] \<and> m_threads (sched w) = [Joined] \<and> m_isShutdown (sched w)"
  by (simp add: shutdown_scenario_def scenario_simps)

lemma joined_stuck: "m_threads p = [Joined] \<Longrightarrow> RunInThread k kp p s = None"
  by (cases "k = 0") (simp_all add: RunInThread_def)

lemma release_scenario_run:
  "\<exists>w. sched_moves thread_pool 1 release_scenario (pool_world 1 0) = Some w
     \<and> clients w = 0 \<and> ran w = [Some (UserTask 1)] \<and> can_crash thread_pool 1 w SelfDeadlock"
  by (simp add: release_scenario_def scenario_simps can_crash_def)

section \<open>Properties\<close>

text \<open>
  C14: Every task of a dispatch queue on the thread pool is run: from any state its clients can
  reach, as long as they keep the queue, have not shut it down and have not suspended it, every
  run of the pool's threads without further calls of clients ends, and ends with no task
  waiting, all of them taken in the order of the queue. No wake-up is lost.
\<close>

theorem pool_runs_every_task:
  fixes w :: "(ThreadPool, 'v) sworld"
  assumes "sched_reachable thread_pool n (pool_world maxThreads this) w"
    and "maxThreads \<le> MaxConcurrentThreads" and "clients w > 0" and "\<not> m_isShutdown (sched w)"
    and "m_suspendCounter (queue_of w) = 0" and "\<forall>tid<n. set (calls w tid) \<subseteq> {SchedulerPost}"
  shows "(\<nexists>f. f 0 = w \<and> (\<forall>i. own_step thread_pool n (f i) (f (Suc i))))
    \<and> (\<forall>w'. (own_step thread_pool n)\<^sup>*\<^sup>* w w' \<and> (\<nexists>w''. own_step thread_pool n w' w'') \<longrightarrow>
          waiting_tasks w' = [] \<and> ran w' = ran w @ waiting_tasks w)"
  using pool_reachable_ok [OF assms(1,2)] assms(3-6)
  by (intro pool.every_task_runs) (simp add: pool.serving_def)

text \<open>
  C37: A pool never starts more than \<open>maxThreads\<close> threads, 64 where none is given: there is a
  place in the array for each thread it ever started, and its counter counts them. So at most that
  many tasks of a queue run at the same time, one on a serial queue, and nothing crashes as long as
  a client holds the queue.
\<close>

theorem pool_bounds_concurrency:
  fixes w :: "(ThreadPool, 'v) sworld"
  assumes "sched_reachable thread_pool n (pool_world maxThreads this) w"
    and "maxThreads \<le> MaxConcurrentThreads"
  shows "m_threadCount (sched w) = length (m_threads (sched w))
    \<and> m_threadCount (sched w) \<le> (if maxThreads = 0 then MaxConcurrentThreads else maxThreads)
    \<and> running_tasks (sched w) \<le> (if maxThreads = 0 then MaxConcurrentThreads else maxThreads)
    \<and> (ThreadPool_IsSerial (sched w) \<longrightarrow> running_tasks (sched w) \<le> 1)
    \<and> (clients w > 0 \<longrightarrow> \<not> can_crash thread_pool n w r)"
proof -
  from reachable_starts_few [OF assms(1)]
  have few: "m_threadCount (sched w) = length (m_threads (sched w))" "m_threadCount (sched w) \<le> m_maxThreads (sched w)"
    by (simp_all add: starts_few_def)
  moreover have "running_tasks (sched w) \<le> length (m_threads (sched w))" by (simp add: running_tasks_def)
  moreover have "clients w > 0 \<longrightarrow> \<not> can_crash thread_pool n w r"
    using pool.held_queue_no_crash [OF pool_reachable_ok [OF assms]] by blast
  ultimately show ?thesis by (simp add: reachable_max [OF assms(1)] ThreadPool_IsSerial_def)
qed

text \<open>
  C39: A shutdown that promises to complete the pending tasks may leave some behind. A thread of
  the pool that found the queue empty exits when it then sees the shutdown, without another look
  at the queue, so a task posted in between stays in the queue for ever, although
  \<open>AwaitTermination\<close> has returned.
\<close>

theorem shutdown_loses_tasks:
  "\<exists>w :: (ThreadPool, nat) sworld. sched_reachable thread_pool 1 (pool_world 1 0) w
     \<and> m_shutdownAction (queue_of w) = Some Complete \<and> calls w 0 = []
     \<and> waiting_tasks w = [Some (UserTask 2)] \<and> (\<nexists>w'. own_step thread_pool 1 w w')"
proof -
  obtain w :: "(ThreadPool, nat) sworld"
    where run: "sched_moves thread_pool 1 shutdown_scenario (pool_world 1 0) = Some w"
    and "m_shutdownAction (queue_of w) = Some Complete" "waiting_tasks w = [Some (UserTask 2)]"
    and idle: "calls w 0 = []" "m_threads (sched w) = [Joined]"
    using shutdown_scenario_run by blast
  moreover from run have "sched_reachable thread_pool 1 (pool_world 1 0) w"
    by (rule sched_moves_reachable) (rule sched_reachable.initial)
  moreover from idle have "\<nexists>w'. own_step thread_pool 1 w w'"
    by (auto elim!: own_stepE simp: joined_stuck)
  ultimately show ?thesis by blast
qed

text \<open>
  A queue keeps itself alive while it has tasks, so a client may drop its last reference with
  tasks pending. The thread of the pool that takes the last task then holds the last reference,
  and gives it up while it owns the mutex of the pool, which the destructor of the queue locks
  again: the thread blocks itself.
\<close>

theorem last_reference_deadlocks:
  "\<exists>w :: (ThreadPool, nat) sworld. sched_reachable thread_pool 1 (pool_world 1 0) w
     \<and> clients w = 0 \<and> ran w = [Some (UserTask 1)] \<and> can_crash thread_pool 1 w SelfDeadlock"
proof -
  obtain w :: "(ThreadPool, nat) sworld"
    where run: "sched_moves thread_pool 1 release_scenario (pool_world 1 0) = Some w"
    and "clients w = 0" "ran w = [Some (UserTask 1)]" "can_crash thread_pool 1 w SelfDeadlock"
    using release_scenario_run by blast
  moreover from run have "sched_reachable thread_pool 1 (pool_world 1 0) w"
    by (rule sched_moves_reachable) (rule sched_reachable.initial)
  ultimately show ?thesis by blast
qed

section \<open>Witnesses\<close>

definition two_posts :: "move list" where
  "two_posts = [MCall 0 (OPost (Some (UserTask 1))), MCall 1 (OPost (Some (UserTask 2)))]"

lemma two_posts_run:
  "\<exists>w. sched_moves thread_pool 2 two_posts (pool_world 1 0) = Some w \<and> clients w > 0
     \<and> \<not> m_isShutdown (sched w) \<and> m_suspendCounter (queue_of w) = 0 \<and> ran w = []
     \<and> calls w 0 = [SchedulerPost] \<and> calls w 1 = [SchedulerPost]
     \<and> waiting_tasks w = [Some (UserTask 1), Some (UserTask 2)]"
  by (simp add: two_posts_def scenario_simps)

lemma two_posts_reachable:
  "sched_moves thread_pool 2 two_posts (pool_world 1 0) = Some w \<Longrightarrow>
     sched_reachable thread_pool 2 (pool_world 1 0) w"
  by (erule sched_moves_reachable) (rule sched_reachable.initial)

theorem pool_runs_every_task_witness:
  "\<exists>w :: (ThreadPool, nat) sworld. waiting_tasks w = [Some (UserTask 1), Some (UserTask 2)]
     \<and> (\<nexists>f. f 0 = w \<and> (\<forall>i. own_step thread_pool 2 (f i) (f (Suc i))))
     \<and> (\<forall>w'. (own_step thread_pool 2)\<^sup>*\<^sup>* w w' \<and> (\<nexists>w''. own_step thread_pool 2 w' w'') \<longrightarrow>
           ran w' = [Some (UserTask 1), Some (UserTask 2)])"
proof -
  obtain w :: "(ThreadPool, nat) sworld"
    where run: "sched_moves thread_pool 2 two_posts (pool_world 1 0) = Some w"
    and w: "clients w > 0" "\<not> m_isShutdown (sched w)" "m_suspendCounter (queue_of w) = 0" "ran w = []"
    and c: "calls w 0 = [SchedulerPost]" "calls w 1 = [SchedulerPost]"
    and t: "waiting_tasks w = [Some (UserTask 1), Some (UserTask 2)]"
    using two_posts_run by blast
  from c have "\<forall>tid<2. set (calls w tid) \<subseteq> {SchedulerPost}" by (auto simp: less_2_cases_iff)
  with pool_runs_every_task [OF two_posts_reachable [OF run] _ w(1-3)] t w(4)
  show ?thesis by (auto simp: MaxConcurrentThreads_def intro!: exI [where x = w])
qed

definition one_running :: "move list" where
  "one_running = [MCall 0 (OPost (Some (UserTask 1))), MDeliver 0 0, MThread 0 False, MThread 0 False]"

lemma one_running_run:
  "\<exists>w. sched_moves thread_pool 1 one_running (pool_world 1 0) = Some w
     \<and> running_tasks (sched w) = 1 \<and> ThreadPool_IsSerial (sched w) \<and> clients w > 0"
  by (simp add: one_running_def scenario_simps running_tasks_def ThreadPool_IsSerial_def)

theorem pool_bounds_concurrency_witness:
  "\<exists>w :: (ThreadPool, nat) sworld. running_tasks (sched w) = 1 \<and> m_threadCount (sched w) \<le> 1
     \<and> \<not> can_crash thread_pool 1 w SelfDeadlock"
proof -
  obtain w :: "(ThreadPool, nat) sworld"
    where run: "sched_moves thread_pool 1 one_running (pool_world 1 0) = Some w"
    and w: "running_tasks (sched w) = 1" "clients w > 0" using one_running_run by blast
  from run have "sched_reachable thread_pool 1 (pool_world 1 0) w"
    by (rule sched_moves_reachable) (rule sched_reachable.initial)
  from pool_bounds_concurrency [OF this, of SelfDeadlock] w
  show ?thesis by (intro exI [where x = w]) (simp add: MaxConcurrentThreads_def)
qed

end
