(* ===== verification/Windows_Pool.thy ===== *)
theory Windows_Pool
  imports Scheduler_System
begin

text \<open>
  The scheduler of \<open>libs/dispatchQueue/src/threadPoolScheduler_win.cpp\<close>: it submits work to the
  thread pool of the system and leaves the threads to it. Each submission calls \<open>WorkCallback\<close>
  once, which takes tasks for 100 milliseconds and submits again when more are waiting. What the
  system's pool is relied on for: every submission is called, on some thread, and
  \<open>WaitForThreadpoolWorkCallbacks\<close> waits until all of them have returned.
\<close>

section \<open>State\<close>

text \<open>
  Where a callback is: submitted but not called, before \<open>TryDequeTask\<close>, before the end of the task
  it invokes, before the counter is decremented, before \<open>HasTasks\<close>, before \<open>Post\<close>, before the
  pointer to the queue goes out of scope, or returned.
\<close>

datatype work_phase =
    Submitted
  | Taking
  | Invoking "task option"
  | Leaving
  | Checking
  | Posting
  | Releasing
  | Returned

record WindowsPool =
  m_maxThreads :: nat
  m_usedThreads :: nat
  callbacks :: "work_phase list"

definition WindowsPool_new :: "nat \<Rightarrow> WindowsPool" where
  "WindowsPool_new maxThreads =
     \<lparr>m_maxThreads = (if maxThreads = 0 then 64 else maxThreads), m_usedThreads = 0, callbacks = []\<rparr>"

definition WindowsPool_IsSerial :: "WindowsPool \<Rightarrow> bool" where
  "WindowsPool_IsSerial p \<longleftrightarrow> m_maxThreads p = 1"

definition set_callback :: "nat \<Rightarrow> work_phase \<Rightarrow> WindowsPool \<Rightarrow> WindowsPool" where
  "set_callback k ph p = p\<lparr>callbacks := (callbacks p)[k := ph]\<rparr>"

fun holds_queue_win :: "work_phase \<Rightarrow> bool" where
  "holds_queue_win Submitted = False"
| "holds_queue_win Returned = False"
| "holds_queue_win _ = True"

definition WindowsPool_held :: "WindowsPool \<Rightarrow> nat" where
  "WindowsPool_held p = length (filter holds_queue_win (callbacks p))"

section \<open>Calls of the scheduler\<close>

text \<open>
  \<open>Post\<close>: the loop around \<open>compare_exchange_weak\<close> is one step, as a failed exchange reads the
  counter again and changes nothing.
\<close>

definition WindowsPool_Post :: "WindowsPool \<Rightarrow> WindowsPool" where
  "WindowsPool_Post p =
     (if m_usedThreads p = m_maxThreads p then p
      else p\<lparr>m_usedThreads := m_usedThreads p + 1, callbacks := callbacks p @ [Submitted]\<rparr>)"

definition WindowsPool_Shutdown :: "WindowsPool \<Rightarrow> WindowsPool" where
  "WindowsPool_Shutdown p = p"

definition WindowsPool_AwaitTermination :: "WindowsPool \<Rightarrow> WindowsPool option" where
  "WindowsPool_AwaitTermination p = (if list_all (\<lambda>ph. ph = Returned) (callbacks p) then Some p else None)"

definition WindowsPool_call :: "nat \<Rightarrow> scheduler_call \<Rightarrow> WindowsPool \<Rightarrow> (WindowsPool \<times> bool) outcome option" where
  "WindowsPool_call k c p =
     (case c of
        SchedulerPost \<Rightarrow> Some (Returns (WindowsPool_Post p, True))
      | SchedulerShutdown \<Rightarrow> Some (Returns (WindowsPool_Shutdown p, True))
      | SchedulerAwaitTermination \<Rightarrow> map_option (\<lambda>p'. Returns (p', True)) (WindowsPool_AwaitTermination p))"

section \<open>The callbacks\<close>

text \<open>
  \<open>expired\<close> says whether the clock has passed \<open>endTime\<close> when a task is done. A callback that gives
  up the last reference runs the destructor of the queue, which waits for all callbacks, this
  one included.
\<close>

definition WorkCallback ::
  "nat \<Rightarrow> bool \<Rightarrow> bool \<Rightarrow> WindowsPool \<Rightarrow> 'v QueueService
     \<Rightarrow> (WindowsPool \<times> 'v QueueService \<times> task option list) outcome option" where
  "WorkCallback k expired kp p s =
     (if k < length (callbacks p)
      then case callbacks p ! k of
        Submitted \<Rightarrow>
          if kp \<or> WindowsPool_held p > 0 then Some (Returns (set_callback k Taking p, s, []))
          else Some (Returns (set_callback k Returned p, s, []))
      | Taking \<Rightarrow>
          (case QueueService_TryDequeTask s None of
             (True, task, s') \<Rightarrow> Some (Returns (set_callback k (Invoking task) p, s', [task]))
           | (False, task, s') \<Rightarrow> Some (Returns (set_callback k Leaving p, s', [])))
      | Invoking task \<Rightarrow>
          if task = None then Some (Crashes NullDereference)
          else if expired then Some (Returns (set_callback k Leaving p, s, []))
          else Some (Returns (set_callback k Taking p, s, []))
      | Leaving \<Rightarrow>
          Some (Returns ((set_callback k Checking p)\<lparr>m_usedThreads := m_usedThreads p - 1\<rparr>, s, []))
      | Checking \<Rightarrow>
          if QueueService_HasTasks s then Some (Returns (set_callback k Posting p, s, []))
          else Some (Returns (set_callback k Releasing p, s, []))
      | Posting \<Rightarrow> Some (Returns (WindowsPool_Post (set_callback k Releasing p), s, []))
      | Releasing \<Rightarrow>
          if \<not> kp \<and> WindowsPool_held p = 1 then Some (Crashes SelfDeadlock)
          else Some (Returns (set_callback k Returned p, s, []))
      | Returned \<Rightarrow> None
      else None)"

definition windows_pool :: "(WindowsPool, 'v) scheduler" where
  "windows_pool = \<lparr>sch_call = WindowsPool_call, sch_thread = WorkCallback,
     sch_spurious = (\<lambda>k p. None), sch_held = WindowsPool_held\<rparr>"

section \<open>The pool keeps the contract\<close>

fun counts_as_used :: "work_phase \<Rightarrow> bool" where
  "counts_as_used Submitted = True"
| "counts_as_used Taking = True"
| "counts_as_used (Invoking t) = True"
| "counts_as_used Leaving = True"
| "counts_as_used _ = False"

definition works :: "work_phase \<Rightarrow> bool" where
  "works ph \<longleftrightarrow> ph \<noteq> Releasing \<and> ph \<noteq> Returned"

definition win_inv :: "WindowsPool \<Rightarrow> bool" where
  "win_inv p \<longleftrightarrow> 0 < m_maxThreads p \<and> m_usedThreads p \<le> m_maxThreads p
     \<and> m_usedThreads p = length (filter counts_as_used (callbacks p)) \<and> Invoking None \<notin> set (callbacks p)"

definition win_awake :: "WindowsPool \<Rightarrow> bool" where
  "win_awake p \<longleftrightarrow> (\<exists>ph \<in> set (callbacks p). works ph)"

fun callback_rank :: "bool \<Rightarrow> work_phase \<Rightarrow> nat" where
  "callback_rank tasks Submitted = (if tasks then 2 else 9)"
| "callback_rank tasks Taking = (if tasks then 1 else 8)"
| "callback_rank tasks (Invoking t) = 9"
| "callback_rank tasks Leaving = 7"
| "callback_rank tasks Checking = 6"
| "callback_rank tasks Posting = (if tasks then 5 else 11)"
| "callback_rank tasks Releasing = 1"
| "callback_rank tasks Returned = 0"

definition win_rank :: "bool \<Rightarrow> WindowsPool \<Rightarrow> nat" where
  "win_rank tasks p = sum_list (map (callback_rank tasks) (callbacks p))"

lemma set_callback_simps [simp]:
  "callbacks (set_callback k ph p) = (callbacks p)[k := ph]" "m_maxThreads (set_callback k ph p) = m_maxThreads p"
  "m_usedThreads (set_callback k ph p) = m_usedThreads p"
  by (simp_all add: set_callback_def)

lemma WindowsPool_Post_inv: "win_inv p \<Longrightarrow> win_inv (WindowsPool_Post p)"
  by (auto simp: win_inv_def WindowsPool_Post_def)

lemma WindowsPool_Post_awake:
  assumes "win_inv p"
  shows "win_awake (WindowsPool_Post p)"
proof (cases "m_usedThreads p = m_maxThreads p")
  case True
  with assms have "filter counts_as_used (callbacks p) \<noteq> []" by (auto simp: win_inv_def)
  then obtain ph where "ph \<in> set (callbacks p)" and "counts_as_used ph" by (auto simp: filter_empty_conv)
  moreover from this have "works ph" by (auto simp: works_def)
  ultimately show ?thesis using True by (auto simp: WindowsPool_Post_def win_awake_def)
qed (simp add: WindowsPool_Post_def win_awake_def works_def)

lemma WindowsPool_Post_held [simp]: "WindowsPool_held (WindowsPool_Post p) = WindowsPool_held p"
  by (simp add: WindowsPool_held_def WindowsPool_Post_def)

lemma win_inv_move:
  assumes inv: "win_inv p" and k: "k < length (callbacks p)" and ph: "ph \<noteq> Invoking None"
    and b: "b + (if counts_as_used (callbacks p ! k) then 1 else 0) = m_usedThreads p + (if counts_as_used ph then 1 else 0)"
    and le: "b \<le> m_usedThreads p"
  shows "win_inv ((set_callback k ph p)\<lparr>m_usedThreads := b\<rparr>)"
proof -
  have "b = length (filter counts_as_used ((callbacks p)[k := ph]))"
    using count_update [OF k, of counts_as_used ph] b inv by (simp add: win_inv_def)
  moreover have "x \<in> set ((callbacks p)[k := ph]) \<Longrightarrow> x = ph \<or> x \<in> set (callbacks p)" for x
    by (rule in_update)
  ultimately show ?thesis using inv ph le by (auto simp: win_inv_def)
qed

lemma win_inv_same:
  assumes "win_inv p" and "k < length (callbacks p)" and "ph \<noteq> Invoking None"
    and "counts_as_used ph = counts_as_used (callbacks p ! k)"
  shows "win_inv (set_callback k ph p)"
proof -
  have "set_callback k ph p = (set_callback k ph p)\<lparr>m_usedThreads := m_usedThreads p\<rparr>"
    by (simp add: set_callback_def)
  moreover have "win_inv ((set_callback k ph p)\<lparr>m_usedThreads := m_usedThreads p\<rparr>)"
    using assms by (intro win_inv_move) auto
  ultimately show ?thesis by metis
qed

lemma used_pos:
  "win_inv p \<Longrightarrow> k < length (callbacks p) \<Longrightarrow> counts_as_used (callbacks p ! k) \<Longrightarrow> 0 < m_usedThreads p"
  using count_pos [of k "callbacks p" counts_as_used] by (simp add: win_inv_def)

lemma WorkCallback_cases:
  assumes "WorkCallback k expired kp p s = Some (Returns (p', s', ts))"
  obtains (enter) "k < length (callbacks p)" "callbacks p ! k = Submitted" "kp \<or> WindowsPool_held p > 0"
      "p' = set_callback k Taking p" "s' = s" "ts = []"
  | (dead) "k < length (callbacks p)" "callbacks p ! k = Submitted" "\<not> kp" "WindowsPool_held p = 0"
      "p' = set_callback k Returned p" "s' = s" "ts = []"
  | (take) t where "k < length (callbacks p)" "callbacks p ! k = Taking"
      "QueueService_TryDequeTask s None = (True, t, s')" "p' = set_callback k (Invoking t) p" "ts = [t]"
  | (empty) t where "k < length (callbacks p)" "callbacks p ! k = Taking"
      "QueueService_TryDequeTask s None = (False, t, s')" "p' = set_callback k Leaving p" "ts = []"
  | (ran) t ph where "k < length (callbacks p)" "callbacks p ! k = Invoking (Some t)"
      "ph = Leaving \<or> ph = Taking" "p' = set_callback k ph p" "s' = s" "ts = []"
  | (leave) "k < length (callbacks p)" "callbacks p ! k = Leaving"
      "p' = (set_callback k Checking p)\<lparr>m_usedThreads := m_usedThreads p - 1\<rparr>" "s' = s" "ts = []"
  | (more) "k < length (callbacks p)" "callbacks p ! k = Checking" "QueueService_HasTasks s"
      "p' = set_callback k Posting p" "s' = s" "ts = []"
  | (no_more) "k < length (callbacks p)" "callbacks p ! k = Checking" "\<not> QueueService_HasTasks s"
      "p' = set_callback k Releasing p" "s' = s" "ts = []"
  | (post) "k < length (callbacks p)" "callbacks p ! k = Posting"
      "p' = WindowsPool_Post (set_callback k Releasing p)" "s' = s" "ts = []"
  | (release) "k < length (callbacks p)" "callbacks p ! k = Releasing"
      "p' = set_callback k Returned p" "s' = s" "ts = []"
proof -
  from assms have k: "k < length (callbacks p)" by (simp add: WorkCallback_def split: if_splits)
  show thesis
  proof (cases "callbacks p ! k")
    case Taking
    obtain b t s1 where d: "QueueService_TryDequeTask s None = (b, t, s1)" by (cases "QueueService_TryDequeTask s None")
    with assms k Taking that(3,4) show thesis by (cases b) (auto simp: WorkCallback_def)
  next
    case Submitted
    with assms k that(1,2) show thesis by (auto simp: WorkCallback_def split: if_splits)
  next
    case (Invoking t)
    with assms k that(5) show thesis by (auto simp: WorkCallback_def split: if_splits)
  next
    case Leaving
    with assms k that(6) show thesis by (auto simp: WorkCallback_def)
  next
    case Checking
    with assms k that(7,8) show thesis by (auto simp: WorkCallback_def split: if_splits)
  next
    case Posting
    with assms k that(9) show thesis by (auto simp: WorkCallback_def)
  next
    case Releasing
    with assms k that(10) show thesis by (auto simp: WorkCallback_def split: if_splits)
  qed (use assms k in \<open>simp_all add: WorkCallback_def\<close>)
qed

lemma WorkCallback_inv:
  assumes step: "WorkCallback k expired kp p s = Some (Returns (p', s', ts))" and inv: "win_inv p"
    and s: "service_inv s" and kept: "kp \<or> WindowsPool_held p > 0"
  shows "win_inv p'"
  using step
proof (cases rule: WorkCallback_cases)
  case dead
  with kept show ?thesis by simp
next
  case (take t)
  with inv TryDequeTask_taken(2) [OF s take(3)] show ?thesis by (auto intro: win_inv_same)
next
  case (ran t ph)
  with inv show ?thesis by (auto intro: win_inv_same)
next
  case leave
  with inv used_pos [OF inv leave(1)] show ?thesis by (auto intro!: win_inv_move)
next
  case post
  with inv show ?thesis by (auto intro!: WindowsPool_Post_inv win_inv_same)
qed (use inv in \<open>auto intro: win_inv_same\<close>)

lemma WorkCallback_queue:
  assumes "WorkCallback k expired kp p s = Some (Returns (p', s', ts))" and "service_inv s"
  shows "(s' = s \<and> ts = []) \<or> (\<exists>t. QueueService_TryDequeTask s None = (True, t, s') \<and> ts = [t])"
  using assms(1)
proof (cases rule: WorkCallback_cases)
  case (empty t)
  with TryDequeTask_empty [OF assms(2)] show ?thesis by simp
qed auto

lemma works_update: "k < length xs \<Longrightarrow> works ph \<Longrightarrow> \<exists>x \<in> set (xs[k := ph]). works x"
  by (rule bexI [OF _ set_update_memI])

lemma works_other:
  assumes "x \<in> set xs" and "works x" and "\<not> works (xs ! k)"
  shows "\<exists>x \<in> set (xs[k := ph]). works x"
proof -
  from assms obtain j where j: "j < length xs" "xs ! j = x" by (auto simp: in_set_conv_nth)
  with assms have "j \<noteq> k" by auto
  with j have "x = (xs[k := ph]) ! j" "j < length (xs[k := ph])" by simp_all
  then have "x \<in> set (xs[k := ph])" by (metis nth_mem)
  with assms(2) show ?thesis by blast
qed

lemma WorkCallback_awake:
  assumes step: "WorkCallback k expired kp p s = Some (Returns (p', s', ts))" and inv: "win_inv p"
    and s: "service_inv s" and kept: "kp \<or> WindowsPool_held p > 0" and awake: "win_awake p"
  shows "win_awake p' \<or> \<not> QueueService_HasTasks s'"
  using step
proof (cases rule: WorkCallback_cases)
  case dead
  with kept show ?thesis by simp
next
  case post
  with inv have "win_inv (set_callback k Releasing p)" by (auto intro: win_inv_same)
  with post WindowsPool_Post_awake show ?thesis by simp
next
  case release
  with awake show ?thesis by (auto simp: win_awake_def works_def [of Releasing] intro: works_other)
next
  case (ran t ph)
  then have "works ph" by (auto simp: works_def)
  with ran show ?thesis by (auto simp: win_awake_def intro!: works_update)
qed (auto simp: win_awake_def works_def [of Taking] works_def [of "Invoking t" for t] works_def [of Leaving]
    works_def [of Checking] works_def [of Posting] intro!: works_update)

lemma WorkCallback_ready:
  assumes "win_awake p"
  shows "\<exists>k e r. WorkCallback k e kp p s = Some r"
proof -
  from assms obtain k where "k < length (callbacks p)" and "works (callbacks p ! k)"
    by (auto simp: win_awake_def in_set_conv_nth)
  then have "WorkCallback k False kp p s \<noteq> None"
    by (cases "callbacks p ! k") (auto simp: WorkCallback_def works_def split: prod.splits bool.splits)
  then show ?thesis by blast
qed

lemma WorkCallback_no_crash:
  assumes "win_inv p"
  shows "WorkCallback k e True p s \<noteq> Some (Crashes r)"
proof (cases "k < length (callbacks p)")
  case True
  with assms have "callbacks p ! k \<noteq> Invoking None" by (metis win_inv_def nth_mem)
  with True show ?thesis
    by (cases "callbacks p ! k") (auto simp: WorkCallback_def split: prod.splits bool.splits)
qed (simp add: WorkCallback_def)

lemma WorkCallback_finished: "WorkCallback k e kp p s \<noteq> Some Unfinished"
  by (auto simp: WorkCallback_def split: work_phase.splits prod.splits bool.splits if_splits)

lemma WorkCallback_rank:
  assumes "WorkCallback k e True p s = Some (Returns (p', s, []))" and s: "service_inv s"
  shows "win_rank (QueueService_HasTasks s) p' < win_rank (QueueService_HasTasks s) p"
  using assms(1)
proof (cases rule: WorkCallback_cases)
  case (empty t)
  with TryDequeTask_empty [OF s empty(3)] show ?thesis by (auto simp: win_rank_def intro!: weight_update)
next
  case (ran t ph)
  then show ?thesis by (auto simp: win_rank_def intro!: weight_update)
next
  case post
  have "sum_list (map f (xs[j := Releasing])) + f Posting = sum_list (map f xs) + f Releasing"
    if "j < length xs" "xs ! j = Posting" for f :: "work_phase \<Rightarrow> nat" and xs j
    using that by (induction xs arbitrary: j) (auto split: nat.splits simp: nth_Cons' list_update.simps)
  from this [OF post(1,2), of "callback_rank (QueueService_HasTasks s)"] post show ?thesis
    by (auto simp: win_rank_def WindowsPool_Post_def split: if_splits)
qed (auto simp: win_rank_def intro!: weight_update)

lemma WorkCallback_dead:
  assumes "WorkCallback k e False p s = Some (Returns (p', s', ts))" and "WindowsPool_held p = 0"
  shows "WindowsPool_held p' = 0 \<and> s' = s"
proof -
  have held: "holds_queue_win (callbacks p ! k) \<Longrightarrow> k < length (callbacks p) \<Longrightarrow> False"
    using assms(2) count_pos [of k "callbacks p" holds_queue_win] by (simp add: WindowsPool_held_def)
  show ?thesis using assms(1)
  proof (cases rule: WorkCallback_cases)
    case dead
    with assms(2) count_update [OF dead(1), of holds_queue_win Returned] show ?thesis
      by (simp add: WindowsPool_held_def)
  qed (use held assms(2) in auto)
qed

lemma WindowsPool_call_cases:
  assumes "WindowsPool_call k c p = Some (Returns (p', d))"
  obtains "c = SchedulerPost" "p' = WindowsPool_Post p" "d" | "c \<noteq> SchedulerPost" "p' = p" "d"
proof (cases c)
  case SchedulerAwaitTermination
  with assms have "p' = p" "d"
    by (auto simp: WindowsPool_call_def WindowsPool_AwaitTermination_def split: if_splits)
  with SchedulerAwaitTermination show thesis by (intro that(2)) simp_all
qed (use assms that in \<open>simp_all add: WindowsPool_call_def WindowsPool_Shutdown_def\<close>)

lemma WindowsPool_call_no_crash: "WindowsPool_call k c p \<noteq> Some (Crashes r)"
  by (auto simp: WindowsPool_call_def split: scheduler_call.splits)

lemma windows_pool_sel [simp]:
  "sch_call windows_pool = WindowsPool_call" "sch_thread windows_pool = WorkCallback"
  "sch_spurious windows_pool = (\<lambda>k p. None)" "sch_held windows_pool = WindowsPool_held"
  by (simp_all add: windows_pool_def)

interpretation win: dispatch_scheduler
  "windows_pool :: (WindowsPool, 'v) scheduler" win_inv "\<lambda>p. False" win_awake win_rank
proof
  fix p p' :: WindowsPool and s s' :: "'v QueueService" and k c d kp e r ts
  note [elim!] = WindowsPool_call_cases
  show "win_inv p \<Longrightarrow> sch_call windows_pool k c p = Some (Returns (p', d)) \<Longrightarrow> win_inv p'"
    by (auto intro: WindowsPool_Post_inv)
  show "sch_call windows_pool k c p = Some (Returns (p', d)) \<Longrightarrow>
      sch_held (windows_pool :: (WindowsPool, 'v) scheduler) p' = sch_held (windows_pool :: (WindowsPool, 'v) scheduler) p"
    by auto
  show "win_inv p \<Longrightarrow> win_awake p \<Longrightarrow> sch_call windows_pool k c p = Some (Returns (p', d)) \<Longrightarrow>
      win_awake p' \<or> False"
    by (auto intro: WindowsPool_Post_awake)
  show "win_inv p \<Longrightarrow> sch_call windows_pool k c p \<noteq> Some (Crashes r)" by (simp add: WindowsPool_call_no_crash)
  show "win_inv p \<Longrightarrow> \<exists>k p' d. sch_call windows_pool k SchedulerPost p = Some (Returns (p', d))"
    by (auto simp: WindowsPool_call_def intro: exI [where x = True])
  show "sch_call windows_pool k SchedulerPost p = Some (Returns (p', d)) \<Longrightarrow> d" by auto
  show "win_inv p \<Longrightarrow> \<not> False \<Longrightarrow> sch_call windows_pool k SchedulerPost p = Some (Returns (p', d)) \<Longrightarrow> win_awake p'"
    by (auto intro: WindowsPool_Post_awake)
  show "win_inv p \<Longrightarrow> service_inv s \<Longrightarrow> kp \<or> 0 < sch_held (windows_pool :: (WindowsPool, 'v) scheduler) p \<Longrightarrow>
      sch_thread windows_pool k e kp p s = Some (Returns (p', s', ts)) \<Longrightarrow> win_inv p'"
    by (auto intro: WorkCallback_inv)
  show "sch_held (windows_pool :: (WindowsPool, 'v) scheduler) p = 0 \<Longrightarrow>
      sch_thread windows_pool k e False p s = Some (Returns (p', s', ts)) \<Longrightarrow>
      sch_held (windows_pool :: (WindowsPool, 'v) scheduler) p' = 0 \<and> s' = s"
    using WorkCallback_dead by simp
  show "service_inv s \<Longrightarrow> sch_thread windows_pool k e kp p s = Some (Returns (p', s', ts)) \<Longrightarrow>
      s' = s \<and> ts = [] \<or> (\<exists>t. QueueService_TryDequeTask s None = (True, t, s') \<and> ts = [t])"
    using WorkCallback_queue by simp
  show "win_inv p \<Longrightarrow> service_inv s \<Longrightarrow> kp \<or> 0 < sch_held (windows_pool :: (WindowsPool, 'v) scheduler) p \<Longrightarrow>
      win_awake p \<Longrightarrow> sch_thread windows_pool k e kp p s = Some (Returns (p', s', ts)) \<Longrightarrow>
      win_awake p' \<or> False \<or> \<not> QueueService_HasTasks s'"
    using WorkCallback_awake by simp
  show "win_inv p \<Longrightarrow> win_awake p \<Longrightarrow> \<exists>k e r. sch_thread windows_pool k e kp p s = Some r"
    using WorkCallback_ready by simp
  show "win_inv p \<Longrightarrow> service_inv s \<Longrightarrow> sch_thread windows_pool k e True p s \<noteq> Some (Crashes r)"
    by (simp add: WorkCallback_no_crash)
  show "sch_thread windows_pool k e kp p s \<noteq> Some Unfinished" by (simp add: WorkCallback_finished)
  show "win_inv p \<Longrightarrow> service_inv s \<Longrightarrow> sch_thread windows_pool k e True p s = Some (Returns (p', s, [])) \<Longrightarrow>
      win_rank (QueueService_HasTasks s) p' < win_rank (QueueService_HasTasks s) p"
    using WorkCallback_rank by simp
qed simp_all

section \<open>Property\<close>

definition win_world :: "nat \<Rightarrow> nat \<Rightarrow> (WindowsPool, 'v) sworld" where
  "win_world maxThreads this = initial_sworld (WindowsPool_new maxThreads) this"

text \<open>
  C16: The scheduler on the thread pool of Windows serves a queue to the end: from any state its
  clients can reach, as long as one of them holds the queue and it is not suspended, nothing
  crashes, every run without further calls ends, and it ends with every waiting task taken, in
  the order of the queue. A shutdown of the queue makes no difference, so none of its pending
  tasks is left behind.
\<close>

theorem windows_pool_completes:
  fixes w :: "(WindowsPool, 'v) sworld"
  assumes "sched_reachable windows_pool n (win_world maxThreads this) w" and "clients w > 0"
    and "m_suspendCounter (queue_of w) = 0" and "\<forall>tid<n. set (calls w tid) \<subseteq> {SchedulerPost}"
  shows "\<not> can_crash windows_pool n w r
    \<and> (\<nexists>f. f 0 = w \<and> (\<forall>i. own_step windows_pool n (f i) (f (Suc i))))
    \<and> (\<forall>w'. (own_step windows_pool n)\<^sup>*\<^sup>* w w' \<and> (\<nexists>w''. own_step windows_pool n w' w'') \<longrightarrow>
          waiting_tasks w' = [] \<and> ran w' = ran w @ waiting_tasks w)"
proof -
  have "win_inv (WindowsPool_new maxThreads)" by (simp add: win_inv_def WindowsPool_new_def)
  then have "win.sys_ok n (win_world maxThreads this :: (WindowsPool, 'v) sworld)"
    unfolding win_world_def by (rule win.sys_ok_initial)
  with assms(1) have ok: "win.sys_ok n w" by (rule win.sys_ok_reachable)
  with assms have "win.serving n w" by (simp add: win.serving_def)
  with win.every_task_runs [OF this] win.held_queue_no_crash [OF ok assms(2)] show ?thesis by blast
qed

text \<open>A task is posted, then the queue is shut down, both calls of the scheduler still to come.\<close>

definition win_scenario :: "move list" where
  "win_scenario = [MCall 0 (OPost (Some (UserTask 1))), MCall 1 (OShutdown Complete), MDeliver 1 0]"

lemma win_scenario_run:
  "\<exists>w. sched_moves windows_pool 2 win_scenario (win_world 1 0) = Some w \<and> clients w > 0
     \<and> m_suspendCounter (queue_of w) = 0 \<and> m_shutdownAction (queue_of w) = Some Complete \<and> ran w = []
     \<and> calls w 0 = [SchedulerPost] \<and> calls w 1 = [] \<and> waiting_tasks w = [Some (UserTask 1)]"
  by (simp add: win_scenario_def queue_scenario_simps win_world_def WindowsPool_new_def Shutdown_Complete
      WindowsPool_call_def WindowsPool_Shutdown_def)

theorem windows_pool_completes_witness:
  "\<exists>w :: (WindowsPool, nat) sworld. m_shutdownAction (queue_of w) = Some Complete
     \<and> waiting_tasks w = [Some (UserTask 1)]
     \<and> (\<nexists>f. f 0 = w \<and> (\<forall>i. own_step windows_pool 2 (f i) (f (Suc i))))
     \<and> (\<forall>w'. (own_step windows_pool 2)\<^sup>*\<^sup>* w w' \<and> (\<nexists>w''. own_step windows_pool 2 w' w'') \<longrightarrow>
           ran w' = [Some (UserTask 1)])"
proof -
  obtain w :: "(WindowsPool, nat) sworld"
    where run: "sched_moves windows_pool 2 win_scenario (win_world 1 0) = Some w"
    and w: "clients w > 0" "m_suspendCounter (queue_of w) = 0"
    and more: "m_shutdownAction (queue_of w) = Some Complete" "ran w = []"
      "calls w 0 = [SchedulerPost]" "calls w 1 = []" "waiting_tasks w = [Some (UserTask 1)]"
    using win_scenario_run by blast
  from run have "sched_reachable windows_pool 2 (win_world 1 0) w"
    by (rule sched_moves_reachable) (rule sched_reachable.initial)
  moreover from more have "\<forall>tid<2. set (calls w tid) \<subseteq> {SchedulerPost}" by (auto simp: less_2_cases_iff)
  ultimately show ?thesis using windows_pool_completes [OF _ w, of 2 1 0 SelfDeadlock] more
    by (auto intro!: exI [where x = w])
qed

end
