(* ===== verification/Event_Handle.thy ===== *)
theory Event_Handle
  imports Mso_Prelude
begin

text \<open>
  Events threads wait for: \<open>EventWaitHandle\<close> (\<open>libs/eventWaitHandle/src/eventWaitHandleImpl.h\<close>),
  behind \<open>ManualResetEvent\<close> and \<open>AutoResetEvent\<close>, over a mutex and a condition variable of the
  platform. Each method is one lock region; a thread that waits for the condition variable has
  released the mutex.
\<close>

section \<open>State\<close>

datatype EventWaitHandleState = NotSet | IsSet

text \<open>
  Where a thread is in \<open>WaitUntil\<close>: about to look at the state (on entry, or after it was
  notified), in \<open>m_cond.WaitUntil\<close>, or returned with a result. What is relied on for the condition
  variable: \<open>NotifyOne\<close> wakes one of the waiting threads, if there is one, \<open>NotifyAll\<close> all of them.
\<close>

datatype waiter = Outside | Looking | Blocked | Passed bool

record EventWaitHandle =
  m_isAutoReset :: bool
  m_state :: EventWaitHandleState
  waiters :: "thread_id \<Rightarrow> waiter"

definition EventWaitHandle_new :: "bool \<Rightarrow> EventWaitHandleState \<Rightarrow> EventWaitHandle" where
  "EventWaitHandle_new isAutoReset state =
     \<lparr>m_isAutoReset = isAutoReset, m_state = state, waiters = (\<lambda>_. Outside)\<rparr>"

definition set_waiter :: "thread_id \<Rightarrow> waiter \<Rightarrow> EventWaitHandle \<Rightarrow> EventWaitHandle" where
  "set_waiter tid x h = h\<lparr>waiters := (waiters h)(tid := x)\<rparr>"

section \<open>Operations\<close>

text \<open>\<open>woken\<close> is the thread \<open>NotifyOne\<close> wakes, if any.\<close>

definition NotifyOne :: "thread_id option \<Rightarrow> EventWaitHandle \<Rightarrow> EventWaitHandle" where
  "NotifyOne woken h = (case woken of None \<Rightarrow> h | Some tid \<Rightarrow> set_waiter tid Looking h)"

definition NotifyAll :: "EventWaitHandle \<Rightarrow> EventWaitHandle" where
  "NotifyAll h = h\<lparr>waiters := (\<lambda>tid. if waiters h tid = Blocked then Looking else waiters h tid)\<rparr>"

definition EventWaitHandle_Set :: "thread_id option \<Rightarrow> EventWaitHandle \<Rightarrow> EventWaitHandle" where
  "EventWaitHandle_Set woken h =
     (let h1 = h\<lparr>m_state := IsSet\<rparr> in if m_isAutoReset h then NotifyOne woken h1 else NotifyAll h1)"

definition EventWaitHandle_Reset :: "EventWaitHandle \<Rightarrow> EventWaitHandle" where
  "EventWaitHandle_Reset h = h\<lparr>m_state := NotSet\<rparr>"

text \<open>One round of the loop of \<open>WaitUntil\<close>, by a thread that owns the mutex.\<close>

definition WaitUntil_look :: "thread_id \<Rightarrow> EventWaitHandle \<Rightarrow> EventWaitHandle" where
  "WaitUntil_look tid h =
     (if m_state h \<noteq> IsSet then set_waiter tid Blocked h
      else set_waiter tid (Passed True) (if m_isAutoReset h then h\<lparr>m_state := NotSet\<rparr> else h))"

text \<open>When the time of \<open>WaitFor\<close> is over, the condition variable gives up and so does the loop.\<close>

definition WaitUntil_timeout :: "thread_id \<Rightarrow> EventWaitHandle \<Rightarrow> EventWaitHandle" where
  "WaitUntil_timeout tid h = set_waiter tid (Passed False) h"

section \<open>Runs\<close>

datatype event_label = LSet | LReset | LWait | LLook | LPass | LOther

inductive event_step :: "event_label \<Rightarrow> EventWaitHandle \<Rightarrow> EventWaitHandle \<Rightarrow> bool" where
  set_none: "(\<forall>tid. waiters h tid \<noteq> Blocked) \<Longrightarrow> event_step LSet h (EventWaitHandle_Set None h)"
| set_one: "waiters h tid = Blocked \<Longrightarrow> event_step LSet h (EventWaitHandle_Set (Some tid) h)"
| reset: "event_step LReset h (EventWaitHandle_Reset h)"
| wait: "waiters h tid = Outside \<or> (\<exists>b. waiters h tid = Passed b) \<Longrightarrow>
     event_step LWait h (set_waiter tid Looking h)"
| look: "waiters h tid = Looking \<Longrightarrow>
     event_step (if m_state h = IsSet then LPass else LLook) h (WaitUntil_look tid h)"
| spurious: "waiters h tid = Blocked \<Longrightarrow> event_step LOther h (set_waiter tid Looking h)"
| timeout: "waiters h tid = Blocked \<Longrightarrow> event_step LOther h (WaitUntil_timeout tid h)"

inductive event_run :: "EventWaitHandle \<Rightarrow> event_label list \<Rightarrow> EventWaitHandle \<Rightarrow> bool" for h0 where
  initial: "event_run h0 [] h0"
| step: "event_run h0 ls h \<Longrightarrow> event_step l h h' \<Longrightarrow> event_run h0 (ls @ [l]) h'"

text \<open>
  No signal is missed: while the event is set, a thread can be blocked only if another one has
  been notified and is going to look, and for a manual reset event no thread is blocked at all.
\<close>

definition signal_ok :: "EventWaitHandle \<Rightarrow> bool" where
  "signal_ok h \<longleftrightarrow> (m_state h = IsSet \<longrightarrow> (\<exists>tid. waiters h tid = Blocked) \<longrightarrow>
     m_isAutoReset h \<and> (\<exists>tid. waiters h tid = Looking))"

lemmas event_defs = EventWaitHandle_Set_def EventWaitHandle_Reset_def WaitUntil_look_def WaitUntil_timeout_def
  NotifyOne_def NotifyAll_def set_waiter_def Let_def

lemma auto_reset_const: "event_step l h h' \<Longrightarrow> m_isAutoReset h' = m_isAutoReset h"
  by (erule event_step.cases) (simp_all add: event_defs split: option.splits)

text \<open>What a change of one thread's position does to the threads that are blocked or look.\<close>

lemma signal_ok_waiter:
  assumes "signal_ok h" and "x \<noteq> Blocked" and "waiters h tid = Looking \<Longrightarrow> x = Looking"
  shows "signal_ok (set_waiter tid x h)"
  using assms unfolding signal_ok_def set_waiter_def by (metis (no_types, lifting) EventWaitHandle.select_convs
    EventWaitHandle.update_convs(3) EventWaitHandle.surjective fun_upd_apply)

lemma signal_ok_NotSet: "m_state h = NotSet \<Longrightarrow> signal_ok h"
  by (simp add: signal_ok_def)

lemma signal_ok_step:
  assumes "event_step l h h'" and ok: "signal_ok h"
  shows "signal_ok h'"
  using assms(1)
proof cases
  case set_none
  then show ?thesis by (auto simp: signal_ok_def event_defs)
next
  case (set_one tid)
  then show ?thesis by (auto simp: signal_ok_def event_defs)
next
  case reset
  then show ?thesis by (simp add: signal_ok_NotSet EventWaitHandle_Reset_def)
next
  case (wait tid)
  then show ?thesis using ok by (auto intro: signal_ok_waiter)
next
  case (look tid)
  show ?thesis
  proof (cases "m_state h = IsSet \<and> \<not> m_isAutoReset h")
    case True
    with ok have "waiters h u \<noteq> Blocked" for u by (auto simp: signal_ok_def)
    with True show ?thesis unfolding look(2) by (simp add: signal_ok_def event_defs)
  next
    case False
    then show ?thesis unfolding look(2)
      by (cases "m_state h") (auto simp: event_defs intro: signal_ok_NotSet)
  qed
next
  case (spurious tid)
  then show ?thesis using ok by (auto intro: signal_ok_waiter)
next
  case (timeout tid)
  then show ?thesis using ok by (auto simp: WaitUntil_timeout_def intro: signal_ok_waiter)
qed

lemma signal_ok_new: "signal_ok (EventWaitHandle_new isAutoReset state)"
  by (simp add: signal_ok_def EventWaitHandle_new_def)

lemma event_run_ok: "event_run h0 ls h \<Longrightarrow> signal_ok h0 \<Longrightarrow> signal_ok h \<and> m_isAutoReset h = m_isAutoReset h0"
  by (induction rule: event_run.induct) (use signal_ok_step auto_reset_const in blast)+

text \<open>For an auto reset event, a thread that passes takes the signal with it.\<close>

definition signals :: "EventWaitHandle \<Rightarrow> nat" where
  "signals h = (if m_state h = IsSet then 1 else 0)"

lemma auto_reset_balance:
  assumes "event_run h0 ls h" and "m_isAutoReset h0"
  shows "length (filter ((=) LPass) ls) + signals h \<le> signals h0 + length (filter ((=) LSet) ls)"
  using assms
proof (induction rule: event_run.induct)
  case (step ls h l h')
  from step.hyps(1) step.prems have "m_isAutoReset h"
    by (induction rule: event_run.induct) (auto dest: auto_reset_const)
  with step.hyps(2) have "length (filter ((=) LPass) [l]) + signals h' \<le> signals h + length (filter ((=) LSet) [l])"
    by (cases; cases "m_state h") (auto simp: signals_def event_defs)
  with step.IH step.prems show ?case by simp
qed simp

section \<open>Property\<close>

text \<open>
  C38: No thread is left blocked on an event that is set, and no signal is used twice. While a manual
  reset event is set, no thread is blocked on it; while an auto reset event is set and a thread is
  blocked, another one has been notified and is about to take the signal; and the threads an auto
  reset event lets pass are at most as many as the calls of \<open>Set\<close>, one more when it was made in the
  set state. (A signal may go unused: a \<open>Reset\<close> or a second \<open>Set\<close> may come before a waiter looks.)
\<close>

theorem event_signals_exact:
  assumes "event_run (EventWaitHandle_new isAutoReset state) ls h"
  shows "(\<not> isAutoReset \<and> m_state h = IsSet \<longrightarrow> waiters h tid \<noteq> Blocked)
    \<and> (isAutoReset \<and> m_state h = IsSet \<and> waiters h tid = Blocked \<longrightarrow> (\<exists>u. waiters h u = Looking))
    \<and> (isAutoReset \<longrightarrow> length (filter ((=) LPass) ls)
         \<le> length (filter ((=) LSet) ls) + (if state = IsSet then 1 else 0))"
proof -
  have new: "m_isAutoReset (EventWaitHandle_new isAutoReset state) = isAutoReset"
    "signals (EventWaitHandle_new isAutoReset state) = (if state = IsSet then 1 else 0)"
    by (simp_all add: EventWaitHandle_new_def signals_def)
  from event_run_ok [OF assms signal_ok_new] have "signal_ok h" "m_isAutoReset h = isAutoReset"
    by (simp_all add: new)
  moreover from auto_reset_balance [OF assms] have "isAutoReset \<longrightarrow> length (filter ((=) LPass) ls)
      \<le> length (filter ((=) LSet) ls) + (if state = IsSet then 1 else 0)" unfolding new by linarith
  ultimately show ?thesis unfolding signal_ok_def by blast
qed

text \<open>Two threads wait for an auto reset event, one call of \<open>Set\<close> lets one of them pass.\<close>

definition two_waiters :: EventWaitHandle where
  "two_waiters = WaitUntil_look 0 (EventWaitHandle_Set (Some 0)
     (WaitUntil_look 1 (set_waiter 1 Looking (WaitUntil_look 0 (set_waiter 0 Looking (EventWaitHandle_new True NotSet))))))"

lemma two_waiters_run:
  "event_run (EventWaitHandle_new True NotSet) [LWait, LLook, LWait, LLook, LSet, LPass] two_waiters"
proof -
  let ?h0 = "EventWaitHandle_new True NotSet"
  let ?h1 = "set_waiter 0 Looking ?h0" let ?h2 = "WaitUntil_look 0 ?h1"
  let ?h3 = "set_waiter 1 Looking ?h2" let ?h4 = "WaitUntil_look 1 ?h3"
  let ?h5 = "EventWaitHandle_Set (Some 0) ?h4"
  note sim = EventWaitHandle_new_def event_defs
  have "event_step LWait ?h0 ?h1" by (rule event_step.wait) (simp add: sim)
  moreover have "event_step LLook ?h1 ?h2" using event_step.look [of ?h1 0] by (simp add: sim)
  moreover have "event_step LWait ?h2 ?h3" by (rule event_step.wait) (simp add: sim)
  moreover have "event_step LLook ?h3 ?h4" using event_step.look [of ?h3 1] by (simp add: sim)
  moreover have "event_step LSet ?h4 ?h5" by (rule event_step.set_one) (simp add: sim)
  moreover have "event_step LPass ?h5 two_waiters"
    using event_step.look [of ?h5 0] unfolding two_waiters_def by (simp add: sim)
  ultimately have "event_run ?h0 ((((([] @ [LWait]) @ [LLook]) @ [LWait]) @ [LLook]) @ [LSet] @ []) ?h5"
    and "event_step LPass ?h5 two_waiters"
    by (auto intro!: event_run.step [OF event_run.step [OF event_run.step [OF event_run.step [OF
        event_run.step [OF event_run.initial]]]], simplified])
  then show ?thesis using event_run.step by fastforce
qed

theorem event_signals_exact_witness:
  "waiters two_waiters 0 = Passed True \<and> waiters two_waiters 1 = Blocked
     \<and> length (filter ((=) LPass) [LWait, LLook, LWait, LLook, LSet, LPass]) \<le> 1"
  using event_signals_exact [OF two_waiters_run, of 1]
  by (simp add: two_waiters_def EventWaitHandle_new_def event_defs)

end
