(* ===== verification/Looper.thy ===== *)
theory Looper
  imports Scheduler_System Event_Handle
begin

text \<open>
  The scheduler with one thread of its own, \<open>libs/dispatchQueue/src/looperScheduler.cpp\<close>: the
  thread takes tasks while there are any and then waits for a manual reset event.
\<close>

section \<open>State\<close>

text \<open>
  Where the thread is in \<open>RunLoop\<close>: before it locks the weak pointers, in the inner loop before
  \<open>TryDequeTask\<close>, before the end of the task it invokes, before the pointer to the queue goes out
  of scope, before it looks at \<open>m_isShutdown\<close>, in \<open>Wait\<close>, before \<open>Reset\<close>, or returned.
\<close>

datatype loop_phase =
    LoopEntering
  | LoopDraining
  | LoopRunning "task option"
  | LoopDropping
  | LoopChecking
  | LoopWaiting
  | LoopResetting
  | LoopReturned

text \<open>
  \<open>joinable\<close> is what \<open>m_looperThread.joinable()\<close> says. Of the event only its state matters here:
  the one thread that waits for it is blocked as long as the event is not set, as the theory
  \<open>Event_Handle\<close> shows.
\<close>

record LooperScheduler =
  m_wakeUpEvent :: EventWaitHandleState
  m_isShutdown :: bool
  m_looperThread :: loop_phase
  joinable :: bool

text \<open>
  The constructor starts the thread, which runs before \<open>IntializeScheduler\<close> gives it a queue: when
  the queue is ready the thread may still be at the start, or have found no queue and gone on.
\<close>

definition LooperScheduler_new :: "loop_phase \<Rightarrow> LooperScheduler" where
  "LooperScheduler_new ph =
     \<lparr>m_wakeUpEvent = NotSet, m_isShutdown = False, m_looperThread = ph, joinable = True\<rparr>"

definition LooperScheduler_IsSerial :: "LooperScheduler \<Rightarrow> bool" where
  "LooperScheduler_IsSerial p \<longleftrightarrow> True"

fun loop_holds :: "loop_phase \<Rightarrow> bool" where
  "loop_holds LoopDraining = True"
| "loop_holds (LoopRunning t) = True"
| "loop_holds LoopDropping = True"
| "loop_holds _ = False"

definition Looper_held :: "LooperScheduler \<Rightarrow> nat" where
  "Looper_held p = (if loop_holds (m_looperThread p) then 1 else 0)"

section \<open>Calls of the scheduler\<close>

definition LooperScheduler_Post :: "LooperScheduler \<Rightarrow> LooperScheduler" where
  "LooperScheduler_Post p = p\<lparr>m_wakeUpEvent := IsSet\<rparr>"

definition LooperScheduler_Shutdown :: "LooperScheduler \<Rightarrow> LooperScheduler" where
  "LooperScheduler_Shutdown p = p\<lparr>m_isShutdown := True, m_wakeUpEvent := IsSet\<rparr>"

text \<open>
  \<open>AwaitTermination\<close> shuts down and joins the thread, or detaches it when it is called on it;
  \<open>own\<close> says which. It is blocked while the thread runs.
\<close>

definition LooperScheduler_AwaitTermination :: "bool \<Rightarrow> LooperScheduler \<Rightarrow> (LooperScheduler \<times> bool) option" where
  "LooperScheduler_AwaitTermination own p =
     (if \<not> m_isShutdown p then Some (LooperScheduler_Shutdown p, False)
      else if joinable p
      then if \<not> own
           then if m_looperThread p = LoopReturned then Some (p\<lparr>joinable := False\<rparr>, True) else None
           else Some (p\<lparr>joinable := False\<rparr>, True)
      else Some (p, True))"

text \<open>The choice \<open>k\<close> of a call is 1 when the task the thread is running makes it.\<close>

definition LooperScheduler_call ::
  "nat \<Rightarrow> scheduler_call \<Rightarrow> LooperScheduler \<Rightarrow> (LooperScheduler \<times> bool) outcome option" where
  "LooperScheduler_call k c p =
     (case c of
        SchedulerPost \<Rightarrow> Some (Returns (LooperScheduler_Post p, True))
      | SchedulerShutdown \<Rightarrow> Some (Returns (LooperScheduler_Shutdown p, True))
      | SchedulerAwaitTermination \<Rightarrow>
          map_option Returns (LooperScheduler_AwaitTermination (k = 1 \<and> loop_holds (m_looperThread p)) p))"

section \<open>The thread\<close>

text \<open>
  The scheduler outlives the loop, as the thread holds it, so \<open>weakSelf\<close> can be locked. A thread
  that gives up the last reference to the queue runs its destructor, and so \<open>AwaitTermination\<close> on
  the thread itself, which detaches the thread; nobody sees the queue after that.
\<close>

definition set_loop :: "loop_phase \<Rightarrow> LooperScheduler \<Rightarrow> LooperScheduler" where
  "set_loop ph p = p\<lparr>m_looperThread := ph\<rparr>"

definition RunLoop ::
  "nat \<Rightarrow> bool \<Rightarrow> LooperScheduler \<Rightarrow> 'v QueueService
     \<Rightarrow> (LooperScheduler \<times> 'v QueueService \<times> task option list) outcome option" where
  "RunLoop k kp p s =
     (if k = 0
      then case m_looperThread p of
        LoopEntering \<Rightarrow> Some (Returns (set_loop (if kp then LoopDraining else LoopChecking) p, s, []))
      | LoopDraining \<Rightarrow>
          (case QueueService_TryDequeTask s None of
             (True, task, s') \<Rightarrow> Some (Returns (set_loop (LoopRunning task) p, s', [task]))
           | (False, task, s') \<Rightarrow> Some (Returns (set_loop LoopDropping p, s', [])))
      | LoopRunning task \<Rightarrow>
          if task = None then Some (Crashes NullDereference) else Some (Returns (set_loop LoopDraining p, s, []))
      | LoopDropping \<Rightarrow>
          if kp then Some (Returns (set_loop LoopChecking p, s, []))
          else Some (Returns (set_loop LoopChecking ((LooperScheduler_Shutdown p)\<lparr>joinable := False\<rparr>), s, []))
      | LoopChecking \<Rightarrow> Some (Returns (set_loop (if m_isShutdown p then LoopReturned else LoopWaiting) p, s, []))
      | LoopWaiting \<Rightarrow>
          if m_wakeUpEvent p = IsSet then Some (Returns (set_loop LoopResetting p, s, [])) else None
      | LoopResetting \<Rightarrow> Some (Returns (set_loop LoopEntering (p\<lparr>m_wakeUpEvent := NotSet\<rparr>), s, []))
      | LoopReturned \<Rightarrow> None
      else None)"

definition looper :: "(LooperScheduler, 'v) scheduler" where
  "looper = \<lparr>sch_call = LooperScheduler_call, sch_thread = (\<lambda>k expired. RunLoop k),
     sch_spurious = (\<lambda>k p. None), sch_held = Looper_held\<rparr>"

section \<open>The looper keeps the contract\<close>

definition loop_inv :: "LooperScheduler \<Rightarrow> bool" where
  "loop_inv p \<longleftrightarrow> m_looperThread p \<noteq> LoopRunning None
     \<and> (m_looperThread p = LoopReturned \<longrightarrow> m_isShutdown p)
     \<and> (m_looperThread p = LoopResetting \<longrightarrow> m_wakeUpEvent p = IsSet)"

definition loop_awake :: "LooperScheduler \<Rightarrow> bool" where
  "loop_awake p \<longleftrightarrow>
     (case m_looperThread p of
        LoopDropping \<Rightarrow> m_wakeUpEvent p = IsSet
      | LoopChecking \<Rightarrow> m_wakeUpEvent p = IsSet
      | LoopWaiting \<Rightarrow> m_wakeUpEvent p = IsSet
      | LoopReturned \<Rightarrow> False
      | _ \<Rightarrow> True)"

fun loop_rank :: "loop_phase \<Rightarrow> nat" where
  "loop_rank LoopEntering = 6"
| "loop_rank (LoopRunning t) = 6"
| "loop_rank LoopDraining = 5"
| "loop_rank LoopDropping = 4"
| "loop_rank LoopChecking = 3"
| "loop_rank LoopWaiting = 2"
| "loop_rank LoopResetting = 1"
| "loop_rank LoopReturned = 0"

definition looper_rank :: "bool \<Rightarrow> LooperScheduler \<Rightarrow> nat" where
  "looper_rank tasks p = loop_rank (m_looperThread p) + (if m_wakeUpEvent p = IsSet then 7 else 0)"

lemmas looper_defs = loop_inv_def loop_awake_def Looper_held_def set_loop_def looper_rank_def
  LooperScheduler_Post_def LooperScheduler_Shutdown_def

lemma Await_loop_cases:
  assumes "LooperScheduler_AwaitTermination own p = Some (p', d)"
  obtains "p' = LooperScheduler_Shutdown p" | "m_isShutdown p" "p' = p\<lparr>joinable := False\<rparr>" | "m_isShutdown p" "p' = p"
proof -
  from assms have "p' = LooperScheduler_Shutdown p \<or> m_isShutdown p \<and> (p' = p\<lparr>joinable := False\<rparr> \<or> p' = p)"
    by (auto simp: LooperScheduler_AwaitTermination_def split: if_splits)
  with that show thesis by blast
qed

text \<open>Whatever a call does, it leaves the thread where it is.\<close>

lemma Looper_call_cases:
  assumes "LooperScheduler_call k c p = Some (Returns (p', d))"
  obtains (post) "c = SchedulerPost" "p' = LooperScheduler_Post p" "d"
  | (other) "c \<noteq> SchedulerPost" "m_isShutdown p'" "m_looperThread p' = m_looperThread p"
      "m_wakeUpEvent p' = IsSet \<or> m_wakeUpEvent p' = m_wakeUpEvent p"
proof (cases c)
  case SchedulerPost
  with assms that(1) show thesis by (simp add: LooperScheduler_call_def)
next
  case SchedulerShutdown
  with assms show thesis
    by (intro that(2)) (auto simp: LooperScheduler_call_def LooperScheduler_Shutdown_def)
next
  case SchedulerAwaitTermination
  with assms have "LooperScheduler_AwaitTermination (k = 1 \<and> loop_holds (m_looperThread p)) p = Some (p', d)"
    by (auto simp: LooperScheduler_call_def)
  then show thesis
    by (rule Await_loop_cases) (use SchedulerAwaitTermination in \<open>auto simp: LooperScheduler_Shutdown_def intro: that(2)\<close>)
qed

lemma Looper_call_no_crash: "LooperScheduler_call k c p \<noteq> Some (Crashes r)"
  by (auto simp: LooperScheduler_call_def split: scheduler_call.splits)

lemma RunLoop_cases:
  assumes "RunLoop k kp p s = Some (Returns (p', s', ts))"
  obtains (enter) "m_looperThread p = LoopEntering" "p' = set_loop (if kp then LoopDraining else LoopChecking) p"
      "s' = s" "ts = []"
  | (take) t where "m_looperThread p = LoopDraining" "QueueService_TryDequeTask s None = (True, t, s')"
      "p' = set_loop (LoopRunning t) p" "ts = [t]"
  | (empty) t where "m_looperThread p = LoopDraining" "QueueService_TryDequeTask s None = (False, t, s')"
      "p' = set_loop LoopDropping p" "ts = []"
  | (ran) t where "m_looperThread p = LoopRunning t" "p' = set_loop LoopDraining p" "s' = s" "ts = []"
  | (drop) "m_looperThread p = LoopDropping" "kp" "p' = set_loop LoopChecking p" "s' = s" "ts = []"
  | (last) "m_looperThread p = LoopDropping" "\<not> kp"
      "p' = set_loop LoopChecking ((LooperScheduler_Shutdown p)\<lparr>joinable := False\<rparr>)" "s' = s" "ts = []"
  | (check) "m_looperThread p = LoopChecking"
      "p' = set_loop (if m_isShutdown p then LoopReturned else LoopWaiting) p" "s' = s" "ts = []"
  | (wake) "m_looperThread p = LoopWaiting" "m_wakeUpEvent p = IsSet" "p' = set_loop LoopResetting p" "s' = s" "ts = []"
  | (reset) "m_looperThread p = LoopResetting" "p' = set_loop LoopEntering (p\<lparr>m_wakeUpEvent := NotSet\<rparr>)"
      "s' = s" "ts = []"
proof (cases "m_looperThread p")
  case LoopDraining
  obtain b t s1 where d: "QueueService_TryDequeTask s None = (b, t, s1)" by (cases "QueueService_TryDequeTask s None")
  with assms LoopDraining that(2,3) show thesis by (cases b) (auto simp: RunLoop_def split: if_splits)
qed (use assms that in \<open>auto simp: RunLoop_def split: if_splits\<close>)

lemma RunLoop_inv:
  assumes "RunLoop k kp p s = Some (Returns (p', s', ts))" and "loop_inv p" and "service_inv s"
  shows "loop_inv p'"
  using assms(1)
proof (cases rule: RunLoop_cases)
  case (take t)
  with assms TryDequeTask_taken(2) [OF assms(3) take(2)] show ?thesis by (simp add: looper_defs)
qed (use assms(2) in \<open>auto simp: looper_defs split: if_splits\<close>)

lemma RunLoop_queue:
  assumes "RunLoop k kp p s = Some (Returns (p', s', ts))" and "service_inv s"
  shows "(s' = s \<and> ts = []) \<or> (\<exists>t. QueueService_TryDequeTask s None = (True, t, s') \<and> ts = [t])"
  using assms(1)
proof (cases rule: RunLoop_cases)
  case (empty t)
  with TryDequeTask_empty [OF assms(2)] show ?thesis by simp
qed auto

lemma RunLoop_awake:
  assumes "RunLoop k kp p s = Some (Returns (p', s', ts))" and inv: "loop_inv p" and s: "service_inv s"
    and "kp \<or> Looper_held p > 0" and awake: "loop_awake p"
  shows "loop_awake p' \<or> m_isShutdown p' \<or> \<not> QueueService_HasTasks s'"
  using assms(1)
proof (cases rule: RunLoop_cases)
  case (empty t)
  with TryDequeTask_empty [OF s empty(2)] show ?thesis by simp
qed (use assms in \<open>auto simp: looper_defs split: if_splits\<close>)

lemma RunLoop_rank:
  assumes "RunLoop k True p s = Some (Returns (p', s, []))" and "loop_inv p"
  shows "looper_rank b p' < looper_rank b p"
  using assms(1) by (cases rule: RunLoop_cases) (use assms(2) in \<open>auto simp: looper_defs\<close>)

lemma RunLoop_dead:
  assumes "RunLoop k False p s = Some (Returns (p', s', ts))" and "Looper_held p = 0"
  shows "Looper_held p' = 0 \<and> s' = s"
  using assms(1) by (cases rule: RunLoop_cases) (use assms(2) in \<open>auto simp: looper_defs split: if_splits\<close>)

lemma RunLoop_shutdown: "RunLoop k kp p s = Some (Returns (p', s', ts)) \<Longrightarrow> m_isShutdown p \<Longrightarrow> m_isShutdown p'"
  by (erule RunLoop_cases) (auto simp: set_loop_def LooperScheduler_Shutdown_def)

lemma RunLoop_open: "RunLoop k True p s = Some (Returns (p', s', ts)) \<Longrightarrow> m_isShutdown p' = m_isShutdown p"
  by (erule RunLoop_cases) (auto simp: set_loop_def)

lemma RunLoop_ready: "loop_awake p \<Longrightarrow> \<exists>r. RunLoop 0 kp p s = Some r"
  by (cases "m_looperThread p") (auto simp: RunLoop_def loop_awake_def split: prod.splits bool.splits)

lemma RunLoop_no_crash: "loop_inv p \<Longrightarrow> RunLoop k True p s \<noteq> Some (Crashes r)"
  by (cases "m_looperThread p") (auto simp: RunLoop_def loop_inv_def split: prod.splits bool.splits if_splits)

lemma RunLoop_finished: "RunLoop k kp p s \<noteq> Some Unfinished"
  by (auto simp: RunLoop_def split: loop_phase.splits prod.splits bool.splits if_splits)

lemma looper_sel [simp]:
  "sch_call looper = LooperScheduler_call" "sch_thread looper = (\<lambda>k expired. RunLoop k)"
  "sch_spurious looper = (\<lambda>k p. None)" "sch_held looper = Looper_held"
  by (simp_all add: looper_def)

lemma Looper_call_keeps:
  assumes "LooperScheduler_call k c p = Some (Returns (p', d))"
  shows "Looper_held p' = Looper_held p" and "loop_inv p \<Longrightarrow> loop_inv p'"
    and "m_isShutdown p \<Longrightarrow> m_isShutdown p'" and "loop_awake p \<Longrightarrow> loop_awake p' \<or> m_isShutdown p'"
proof -
  show "Looper_held p' = Looper_held p"
    using assms by (cases rule: Looper_call_cases) (auto simp: looper_defs)
  show "loop_inv p \<Longrightarrow> loop_inv p'"
    using assms by (cases rule: Looper_call_cases) (auto simp: looper_defs)
  show "m_isShutdown p \<Longrightarrow> m_isShutdown p'"
    using assms by (cases rule: Looper_call_cases) (auto simp: looper_defs)
  show "loop_awake p \<Longrightarrow> loop_awake p' \<or> m_isShutdown p'"
    using assms by (cases rule: Looper_call_cases) (auto simp: looper_defs split: loop_phase.splits)
qed

lemma Looper_Post_call: "LooperScheduler_call k SchedulerPost p = Some (Returns (LooperScheduler_Post p, True))"
  by (simp add: LooperScheduler_call_def)

lemma Looper_Post_awake: "loop_inv p \<Longrightarrow> \<not> m_isShutdown p \<Longrightarrow> loop_awake (LooperScheduler_Post p)"
  by (auto simp: looper_defs split: loop_phase.splits)

interpretation loop: dispatch_scheduler
  "looper :: (LooperScheduler, 'v) scheduler" loop_inv m_isShutdown loop_awake looper_rank
proof
  fix p p' :: LooperScheduler and s s' :: "'v QueueService" and k c d kp e r ts
  note keeps = Looper_call_keeps
  show "loop_inv p \<Longrightarrow> sch_call looper k c p = Some (Returns (p', d)) \<Longrightarrow> loop_inv p'" using keeps(2) by simp
  show "sch_call looper k c p = Some (Returns (p', d)) \<Longrightarrow>
      sch_held (looper :: (LooperScheduler, 'v) scheduler) p' = sch_held (looper :: (LooperScheduler, 'v) scheduler) p"
    using keeps(1) by simp
  show "m_isShutdown p \<Longrightarrow> sch_call looper k c p = Some (Returns (p', d)) \<Longrightarrow> m_isShutdown p'"
    using keeps(3) by simp
  show "loop_inv p \<Longrightarrow> loop_awake p \<Longrightarrow> sch_call looper k c p = Some (Returns (p', d)) \<Longrightarrow>
      loop_awake p' \<or> m_isShutdown p'" using keeps(4) by simp
  show "loop_inv p \<Longrightarrow> sch_call looper k c p \<noteq> Some (Crashes r)" by (simp add: Looper_call_no_crash)
  show "loop_inv p \<Longrightarrow> \<exists>k p' d. sch_call looper k SchedulerPost p = Some (Returns (p', d))"
    by (auto simp: Looper_Post_call intro: exI [where x = True])
  show "sch_call looper k SchedulerPost p = Some (Returns (p', d)) \<Longrightarrow> d" by (simp add: Looper_Post_call)
  show "\<not> m_isShutdown p \<Longrightarrow> sch_call looper k SchedulerPost p = Some (Returns (p', d)) \<Longrightarrow> \<not> m_isShutdown p'"
    by (auto simp: Looper_Post_call LooperScheduler_Post_def)
  show "loop_inv p \<Longrightarrow> \<not> m_isShutdown p \<Longrightarrow> sch_call looper k SchedulerPost p = Some (Returns (p', d)) \<Longrightarrow> loop_awake p'"
    by (auto simp: Looper_Post_call intro: Looper_Post_awake)
  show "loop_inv p \<Longrightarrow> service_inv s \<Longrightarrow> kp \<or> 0 < sch_held (looper :: (LooperScheduler, 'v) scheduler) p \<Longrightarrow>
      sch_thread looper k e kp p s = Some (Returns (p', s', ts)) \<Longrightarrow> loop_inv p'"
    using RunLoop_inv by simp
  show "sch_held (looper :: (LooperScheduler, 'v) scheduler) p = 0 \<Longrightarrow>
      sch_thread looper k e False p s = Some (Returns (p', s', ts)) \<Longrightarrow>
      sch_held (looper :: (LooperScheduler, 'v) scheduler) p' = 0 \<and> s' = s"
    using RunLoop_dead by simp
  show "m_isShutdown p \<Longrightarrow> sch_thread looper k e kp p s = Some (Returns (p', s', ts)) \<Longrightarrow> m_isShutdown p'"
    using RunLoop_shutdown by simp
  show "\<not> m_isShutdown p \<Longrightarrow> sch_thread looper k e True p s = Some (Returns (p', s', ts)) \<Longrightarrow> \<not> m_isShutdown p'"
    by (simp add: RunLoop_open)
  show "service_inv s \<Longrightarrow> sch_thread looper k e kp p s = Some (Returns (p', s', ts)) \<Longrightarrow>
      s' = s \<and> ts = [] \<or> (\<exists>t. QueueService_TryDequeTask s None = (True, t, s') \<and> ts = [t])"
    using RunLoop_queue by simp
  show "loop_inv p \<Longrightarrow> service_inv s \<Longrightarrow> kp \<or> 0 < sch_held (looper :: (LooperScheduler, 'v) scheduler) p \<Longrightarrow>
      loop_awake p \<Longrightarrow> sch_thread looper k e kp p s = Some (Returns (p', s', ts)) \<Longrightarrow>
      loop_awake p' \<or> m_isShutdown p' \<or> \<not> QueueService_HasTasks s'"
    using RunLoop_awake by simp
  show "loop_inv p \<Longrightarrow> loop_awake p \<Longrightarrow> \<exists>k e r. sch_thread looper k e kp p s = Some r"
    using RunLoop_ready by (metis looper_sel(2))
  show "loop_inv p \<Longrightarrow> service_inv s \<Longrightarrow> sch_thread looper k e True p s \<noteq> Some (Crashes r)"
    by (simp add: RunLoop_no_crash)
  show "sch_thread looper k e kp p s \<noteq> Some Unfinished" by (simp add: RunLoop_finished)
  show "loop_inv p \<Longrightarrow> service_inv s \<Longrightarrow> sch_thread looper k e True p s = Some (Returns (p', s, [])) \<Longrightarrow>
      looper_rank (QueueService_HasTasks s) p' < looper_rank (QueueService_HasTasks s) p"
    using RunLoop_rank by simp
qed simp_all

section \<open>Property\<close>

definition loop_world :: "loop_phase \<Rightarrow> nat \<Rightarrow> (LooperScheduler, 'v) sworld" where
  "loop_world ph this = initial_sworld (LooperScheduler_new ph) this"

text \<open>
  C15: A looper queue that is held, not suspended and not shut down serves its tasks to the end:
  nothing crashes, every run without further calls of clients ends, and it ends with every
  waiting task taken, in the order of the queue. This holds wherever the thread was when the
  queue was made, and although the thread resets its event without looking whether it was set
  again since it woke up.
\<close>

theorem looper_runs_every_task:
  fixes w :: "(LooperScheduler, 'v) sworld"
  assumes "sched_reachable looper n (loop_world ph this) w"
    and "ph \<in> {LoopEntering, LoopChecking, LoopWaiting}" and "clients w > 0" and "\<not> m_isShutdown (sched w)"
    and "m_suspendCounter (queue_of w) = 0" and "\<forall>tid<n. set (calls w tid) \<subseteq> {SchedulerPost}"
  shows "\<not> can_crash looper n w r
    \<and> (\<nexists>f. f 0 = w \<and> (\<forall>i. own_step looper n (f i) (f (Suc i))))
    \<and> (\<forall>w'. (own_step looper n)\<^sup>*\<^sup>* w w' \<and> (\<nexists>w''. own_step looper n w' w'') \<longrightarrow>
          waiting_tasks w' = [] \<and> ran w' = ran w @ waiting_tasks w)"
proof -
  from assms(2) have "loop_inv (LooperScheduler_new ph)" by (auto simp: loop_inv_def LooperScheduler_new_def)
  then have "loop.sys_ok n (loop_world ph this :: (LooperScheduler, 'v) sworld)"
    unfolding loop_world_def by (rule loop.sys_ok_initial)
  with assms(1) have ok: "loop.sys_ok n w" by (rule loop.sys_ok_reachable)
  with assms have "loop.serving n w" by (simp add: loop.serving_def)
  with loop.every_task_runs [OF this] loop.held_queue_no_crash [OF ok assms(3)] show ?thesis by blast
qed

text \<open>
  The thread waits, a task is posted and wakes it, and another one is posted before it has reset
  the event.
\<close>

definition loop_scenario :: "move list" where
  "loop_scenario = [MCall 0 (OPost (Some (UserTask 1))), MDeliver 0 0, MThread 0 False,
     MCall 0 (OPost (Some (UserTask 2))), MDeliver 0 0, MThread 0 False]"

lemma loop_scenario_run:
  "\<exists>w. sched_moves looper 1 loop_scenario (loop_world LoopWaiting 0) = Some w \<and> clients w > 0
     \<and> \<not> m_isShutdown (sched w) \<and> m_suspendCounter (queue_of w) = 0 \<and> ran w = [] \<and> calls w 0 = []
     \<and> m_wakeUpEvent (sched w) = NotSet \<and> waiting_tasks w = [Some (UserTask 1), Some (UserTask 2)]"
  by (simp add: loop_scenario_def queue_scenario_simps loop_world_def LooperScheduler_new_def
      LooperScheduler_call_def LooperScheduler_Post_def RunLoop_def set_loop_def Looper_held_def)

theorem looper_runs_every_task_witness:
  "\<exists>w :: (LooperScheduler, nat) sworld. m_wakeUpEvent (sched w) = NotSet
     \<and> waiting_tasks w = [Some (UserTask 1), Some (UserTask 2)]
     \<and> (\<nexists>f. f 0 = w \<and> (\<forall>i. own_step looper 1 (f i) (f (Suc i))))
     \<and> (\<forall>w'. (own_step looper 1)\<^sup>*\<^sup>* w w' \<and> (\<nexists>w''. own_step looper 1 w' w'') \<longrightarrow>
           ran w' = [Some (UserTask 1), Some (UserTask 2)])"
proof -
  obtain w :: "(LooperScheduler, nat) sworld"
    where run: "sched_moves looper 1 loop_scenario (loop_world LoopWaiting 0) = Some w"
    and w: "clients w > 0" "\<not> m_isShutdown (sched w)" "m_suspendCounter (queue_of w) = 0"
    and more: "ran w = []" "calls w 0 = []" "m_wakeUpEvent (sched w) = NotSet"
      "waiting_tasks w = [Some (UserTask 1), Some (UserTask 2)]"
    using loop_scenario_run by blast
  from run have "sched_reachable looper 1 (loop_world LoopWaiting 0) w"
    by (rule sched_moves_reachable) (rule sched_reachable.initial)
  moreover from more have "\<forall>tid<1. set (calls w tid) \<subseteq> {SchedulerPost}" by simp
  ultimately show ?thesis using looper_runs_every_task [OF _ _ w, of 1 LoopWaiting 0 SelfDeadlock] more
    by (auto intro!: exI [where x = w])
qed

end
