(* ===== verification/Dispatch_Api.thy ===== *)
theory Dispatch_Api
  imports Queue_Guarantees
begin

text \<open>
  The classes a client of a dispatch queue uses (\<open>libs/dispatchQueue/include/dispatchQueue/dispatchQueue.h\<close>):
  \<open>DispatchQueue\<close>, a counted pointer to a queue service, and the guards it hands out. Their methods
  are calls of the service, in order; an empty \<open>DispatchQueue\<close> has no service to call. A guard is
  the service it holds, if any. The mutex of the thread pool (\<open>threadMutex.h\<close>) is here too.
\<close>

section \<open>Queues\<close>

definition on_queue :: "nat option \<Rightarrow> 'b outcome \<Rightarrow> 'b outcome" where
  "on_queue m_state r = (if m_state = None then Crashes NullDereference else r)"

definition DispatchQueue_Post :: "nat option \<Rightarrow> task option \<Rightarrow> call list outcome" where
  "DispatchQueue_Post m_state t = on_queue m_state (Returns [CPost t])"

definition DispatchQueue_InvokeElsePost :: "nat option \<Rightarrow> task option \<Rightarrow> call list outcome" where
  "DispatchQueue_InvokeElsePost m_state t = on_queue m_state (Returns [CInvokeElsePost t])"

definition DispatchQueue_DeferElsePost :: "nat option \<Rightarrow> task option \<Rightarrow> call list outcome" where
  "DispatchQueue_DeferElsePost m_state t = on_queue m_state (Returns [CDeferElsePost t])"

definition DispatchQueue_Shutdown :: "nat option \<Rightarrow> PendingTaskAction \<Rightarrow> call list outcome" where
  "DispatchQueue_Shutdown m_state pendingTaskAction = on_queue m_state (Returns [CShutdown pendingTaskAction])"

definition DispatchQueue_AwaitTermination :: "nat option \<Rightarrow> call list outcome" where
  "DispatchQueue_AwaitTermination m_state = on_queue m_state (Returns [CAwaitTermination])"

definition DispatchQueue_IsCurrentQueue :: "nat option \<Rightarrow> TaskContext list \<Rightarrow> bool outcome" where
  "DispatchQueue_IsCurrentQueue m_state tls =
     (case m_state of None \<Rightarrow> Crashes NullDereference | Some q \<Rightarrow> Returns (QueueService_IsCurrentQueue q tls))"

definition DispatchQueue_ShouldYield ::
  "nat option \<Rightarrow> 'v QueueService \<Rightarrow> (bool \<times> TaskYieldReason option) outcome" where
  "DispatchQueue_ShouldYield m_state s = on_queue m_state (Returns (QueueService_ShouldYield s))"

section \<open>Guards for suspension\<close>

definition DispatchSuspendGuard_ctor :: "nat option \<Rightarrow> nat option \<times> call list" where
  "DispatchSuspendGuard_ctor state = (state, [])"

definition DispatchSuspendGuard_ctor_copy :: "nat option \<Rightarrow> nat option \<times> call list" where
  "DispatchSuspendGuard_ctor_copy other = (other, if other \<noteq> None then [CSuspend] else [])"

text \<open>What the guard held before is let go of, and not resumed.\<close>

definition DispatchSuspendGuard_assign :: "nat option \<Rightarrow> nat option \<Rightarrow> nat option \<times> call list" where
  "DispatchSuspendGuard_assign m_state other =
     (let m_state1 = other in (m_state1, if m_state1 \<noteq> None then [CSuspend] else []))"

definition DispatchSuspendGuard_dtor :: "nat option \<Rightarrow> call list" where
  "DispatchSuspendGuard_dtor m_state = (if m_state \<noteq> None then [CResume] else [])"

definition DispatchQueue_Suspend :: "nat option \<Rightarrow> nat option \<times> call list" where
  "DispatchQueue_Suspend m_state = DispatchSuspendGuard_ctor m_state"

section \<open>Guards for batches\<close>

definition DispatchTaskBatch_ctor :: "nat option \<Rightarrow> nat option \<times> call list" where
  "DispatchTaskBatch_ctor state = (state, [])"

definition DispatchTaskBatch_dtor :: "nat option \<Rightarrow> call list" where
  "DispatchTaskBatch_dtor m_state = (if m_state \<noteq> None then [CBatchPost] else [])"

definition DispatchTaskBatch_Post :: "nat option \<Rightarrow> nat option \<times> call list" where
  "DispatchTaskBatch_Post m_state = (None, if m_state \<noteq> None then [CBatchPost] else [])"

definition DispatchTaskBatch_InvokeElsePost :: "nat option \<Rightarrow> nat option \<times> call list" where
  "DispatchTaskBatch_InvokeElsePost m_state = (None, if m_state \<noteq> None then [CBatchInvokeElsePost] else [])"

definition DispatchTaskBatch_DeferElsePost :: "nat option \<Rightarrow> nat option \<times> call list" where
  "DispatchTaskBatch_DeferElsePost m_state = (None, if m_state \<noteq> None then [CBatchDeferElsePost] else [])"

definition DispatchTaskBatch_Cancel :: "nat option \<Rightarrow> nat option \<times> call list" where
  "DispatchTaskBatch_Cancel m_state = (None, if m_state \<noteq> None then [CBatchCancel] else [])"

definition DispatchQueue_StartTaskBatching :: "nat option \<Rightarrow> nat option \<times> call list" where
  "DispatchQueue_StartTaskBatching m_state = DispatchTaskBatch_ctor m_state"

section \<open>Guards for local values\<close>

text \<open>The guard holds the queue if the value was locked; the thread's variable has the swapped value.\<close>

definition DispatchQueue_LockLocalValue ::
  "('v option \<Rightarrow> 'v \<Rightarrow> ('v option \<times> 'v) outcome) \<Rightarrow> nat option \<Rightarrow> int \<Rightarrow> nat option \<Rightarrow> 'v
     \<Rightarrow> 'v QueueService \<Rightarrow> (nat option \<times> 'v \<times> 'v QueueService) outcome" where
  "DispatchQueue_LockLocalValue swap swapLocalValue key m_state tlsValue s = on_queue m_state
     (and_then (QueueService_TryLockQueueLocalValue swap swapLocalValue key tlsValue s) (\<lambda>(ok, t, s1).
        if ok then Returns (m_state, t, s1) else Returns (None, t, s1)))"

definition DispatchLocalValueGuard_dtor ::
  "('v option \<Rightarrow> 'v \<Rightarrow> ('v option \<times> 'v) outcome) \<Rightarrow> int \<Rightarrow> nat option \<Rightarrow> 'v
     \<Rightarrow> 'v QueueService \<Rightarrow> ('v \<times> 'v QueueService) outcome" where
  "DispatchLocalValueGuard_dtor swap key guarded tlsValue s =
     (if guarded \<noteq> None then QueueService_UnlockLocalValue swap key tlsValue s else Returns (tlsValue, s))"

section \<open>The mutex that knows its owner\<close>

text \<open>The owner of \<open>std::mutex\<close> and the field \<open>m_threadId\<close>; \<open>lock\<close> waits while another thread owns it.\<close>

record ThreadMutex =
  m_mutex :: "thread_id option"
  m_threadId :: "thread_id option"

definition ThreadMutex_lock :: "thread_id \<Rightarrow> ThreadMutex \<Rightarrow> ThreadMutex option" where
  "ThreadMutex_lock tid x =
     (if m_mutex x = None then Some (x\<lparr>m_mutex := Some tid, m_threadId := Some tid\<rparr>) else None)"

definition ThreadMutex_unlock :: "ThreadMutex \<Rightarrow> ThreadMutex" where
  "ThreadMutex_unlock x = x\<lparr>m_mutex := None, m_threadId := None\<rparr>"

definition ThreadMutex_IsLockedByMe :: "thread_id \<Rightarrow> ThreadMutex \<Rightarrow> bool" where
  "ThreadMutex_IsLockedByMe tid x \<longleftrightarrow> m_threadId x = Some tid"

section \<open>What guards do\<close>

text \<open>A thread makes calls one after the other and collects the work they leave.\<close>

fun make_calls :: "env \<Rightarrow> thread_id \<Rightarrow> call list \<Rightarrow> 'v world \<Rightarrow> (work list \<times> 'v world) outcome" where
  "make_calls env tid [] w = Returns ([], w)"
| "make_calls env tid (c # cs) w =
     and_then (exec_call env tid c w) (\<lambda>(ws, w1).
     and_then (make_calls env tid cs w1) (\<lambda>(ws2, w2). Returns (ws @ ws2, w2)))"

lemma make_calls_append:
  "make_calls env tid (cs @ ds) w =
     and_then (make_calls env tid cs w) (\<lambda>(ws, w1).
     and_then (make_calls env tid ds w1) (\<lambda>(ws2, w2). Returns (ws @ ws2, w2)))"
proof (induction cs arbitrary: w)
  case Nil
  show ?case by (cases "make_calls env tid ds w") auto
next
  case (Cons c cs)
  show ?case
    by (cases "exec_call env tid c w") (auto simp: Cons.IH and_then_assoc split_def)
qed

abbreviation suspensions :: "'v world \<Rightarrow> int" where
  "suspensions w \<equiv> m_suspendCounter (service w)"

lemma suspend_calls:
  assumes "0 \<le> suspensions w" and "suspensions w + int j < 2 ^ 31"
  shows "\<exists>w'. make_calls env tid (replicate j CSuspend) w = Returns ([], w') \<and> suspensions w' = suspensions w + int j"
  using assms
proof (induction j arbitrary: w)
  case (Suc j)
  let ?w1 = "w\<lparr>service := (service w)\<lparr>m_suspendCounter := suspensions w + 1\<rparr>\<rparr>"
  have "exec_call env tid CSuspend w = Returns ([], ?w1)"
    using Suc.prems by (simp add: QueueService_Suspend_def)
  moreover obtain w' where "make_calls env tid (replicate j CSuspend) ?w1 = Returns ([], w')"
    and "suspensions w' = suspensions w + 1 + int j"
    using Suc.IH [of ?w1] Suc.prems by auto
  ultimately show ?case by simp
qed simp

lemma resume_calls:
  assumes "int j \<le> suspensions w"
  shows "\<exists>ws w'. make_calls env tid (replicate j CResume) w = Returns (ws, w') \<and> suspensions w' = suspensions w - int j"
  using assms
proof (induction j arbitrary: w)
  case (Suc j)
  let ?w1 = "w\<lparr>service := (service w)\<lparr>m_suspendCounter := suspensions w - 1\<rparr>\<rparr>"
  obtain ws where "exec_call env tid CResume w = Returns (ws, ?w1)"
    using Suc.prems by (auto simp: QueueService_Resume_def Let_def)
  moreover obtain ws' w' where "make_calls env tid (replicate j CResume) ?w1 = Returns (ws', w')"
    and "suspensions w' = suspensions w - 1 - int j"
    using Suc.IH [of ?w1] Suc.prems by auto
  ultimately show ?case by simp
qed simp

text \<open>The calls of a guard that is taken, copied \<open>j\<close> times, and destroyed with all its copies.\<close>

definition guard_life :: "nat option \<Rightarrow> nat \<Rightarrow> call list" where
  "guard_life m_state j =
     (case DispatchQueue_Suspend m_state of (guard, taken) \<Rightarrow>
        let copies = replicate j (DispatchSuspendGuard_ctor_copy guard)
        in taken @ concat (map snd copies)
           @ concat (map DispatchSuspendGuard_dtor (map fst copies @ [guard])))"

lemma concat_single: "concat (replicate n [x]) = replicate n x"
  by (induction n) auto

lemma guard_life_calls: "guard_life (Some q) j = replicate j CSuspend @ replicate j CResume @ [CResume]"
  by (simp add: guard_life_def DispatchQueue_Suspend_def DispatchSuspendGuard_ctor_def
      DispatchSuspendGuard_ctor_copy_def DispatchSuspendGuard_dtor_def concat_single map_replicate_const)

lemma guard_life_run:
  assumes "0 \<le> suspensions w" and "suspensions w + int j < 2 ^ 31"
  shows "\<exists>ws w'. suspensions w' = suspensions w
    \<and> make_calls env tid (guard_life (Some q) j) w
        = and_then (exec_call env tid CResume w') (\<lambda>(ws2, w2). Returns (ws @ ws2, w2))"
proof -
  obtain w1 where a: "make_calls env tid (replicate j CSuspend) w = Returns ([], w1)"
    and b: "suspensions w1 = suspensions w + int j"
    using suspend_calls [OF assms] by blast
  obtain ws w2 where c: "make_calls env tid (replicate j CResume) w1 = Returns (ws, w2)"
    and d: "suspensions w2 = suspensions w"
    using resume_calls [of j w1] assms(1) b by fastforce
  have "make_calls env tid [CResume] w2 = exec_call env tid CResume w2"
    by (cases "exec_call env tid CResume w2") auto
  then show ?thesis using a c d by (auto simp: guard_life_calls make_calls_append and_then_assoc split_def)
qed

text \<open>
  \<open>Suspend()\<close> does not suspend the queue, and the last of its guards resumes it all the same.
  However often the guard is copied before the copies and the guard are destroyed, the queue has
  one suspension fewer than before if somebody else had suspended it, and the process crashes in
  \<open>Resume()\<close> if nobody had.
\<close>

theorem suspend_guard_resumes:
  assumes "0 \<le> suspensions w" and "suspensions w + int j < 2 ^ 31"
  shows "if suspensions w = 0
    then make_calls env tid (guard_life (Some q) j) w
           = Crashes (VerifyElseCrash ''m_suspendCounter must not be negative'')
    else \<exists>ws w'. make_calls env tid (guard_life (Some q) j) w = Returns (ws, w')
           \<and> suspensions w' = suspensions w - 1"
  using guard_life_run [OF assms, of env tid q] assms(1)
  by (auto simp: QueueService_Resume_def verify_else_crash_def Let_def)

definition quiet_env :: env where
  "quiet_env = \<lparr>this_queue = 7, invoke_body = (\<lambda>_. []), cancel_body = (\<lambda>_. []), thread_access = (\<lambda>_. False)\<rparr>"

lemma suspend_guard_resumes_witness:
  "make_calls quiet_env 0 (guard_life (Some 7) 2) (initial_world 7 (\<lambda>_. []) :: nat world)
     = Crashes (VerifyElseCrash ''m_suspendCounter must not be negative'')"
  using suspend_guard_resumes [of "initial_world 7 (\<lambda>_. []) :: nat world" 2 quiet_env 0 7]
  by (simp add: initial_world_def QueueService_new_def)

text \<open>
  A batch that a client starts with \<open>StartTaskBatching()\<close> does not collect anything. A task
  posted while it is open goes to the queue at once, and when the batch is destroyed an empty task
  is posted behind it, so that the scheduler is told of two tasks.
\<close>

theorem task_batch_posts_directly:
  assumes "m_taskBatches (service w) tid = None" and "m_shutdownAction (service w) = None"
    and "m_suspendCounter (service w) = 0"
  shows "\<exists>w'. make_calls env tid
      (case DispatchQueue_StartTaskBatching (Some q) of (batch, started) \<Rightarrow>
         started @ [CPost (Some t)] @ DispatchTaskBatch_dtor batch) w
      = Returns ([WItem (ICallScheduler SchedulerPost), WItem (ICallScheduler SchedulerPost)], w')
    \<and> queue_content (m_queue (service w'))
        = queue_content (m_queue (service w)) @ [Some t, Some (BatchTask [])]"
  using assms
  by (simp add: DispatchQueue_StartTaskBatching_def DispatchTaskBatch_ctor_def DispatchTaskBatch_dtor_def
      QueueService_Post_def QueueService_EndTaskBatching_def TaskBatch_new_def queue_content_Enqueue)

lemma task_batch_posts_directly_witness:
  "\<exists>w'. make_calls quiet_env 0
      (case DispatchQueue_StartTaskBatching (Some 7) of (batch, started) \<Rightarrow>
         started @ [CPost (Some (UserTask 3))] @ DispatchTaskBatch_dtor batch)
      (initial_world 7 (\<lambda>_. []) :: nat world)
      = Returns ([WItem (ICallScheduler SchedulerPost), WItem (ICallScheduler SchedulerPost)], w')
    \<and> queue_content (m_queue (service w')) = [Some (UserTask 3), Some (BatchTask [])]"
proof -
  let ?w = "initial_world 7 (\<lambda>_. []) :: nat world"
  have "m_taskBatches (service ?w) 0 = None \<and> m_shutdownAction (service ?w) = None
    \<and> m_suspendCounter (service ?w) = 0" by code_simp
  moreover have "queue_content (m_queue (service ?w)) = []" by code_simp
  ultimately show ?thesis
    using task_batch_posts_directly [where w = ?w and tid = 0 and env = quiet_env and q = 7 and t = "UserTask 3"] by simp
qed

end
