(* ===== verification/Future_Program.thy ===== *)
theory Future_Program
  imports Future_Chains
begin

text \<open>
  Code that uses futures: the callbacks of \<open>libs/future\<close> that run when a future is posted, invoked
  or fails, and the functions of promises and typed futures. The theory \<open>Future_System\<close> lets such
  code make any call at any time; here it is given as programs, which the callbacks and functions
  of the theories \<open>Future_Tasks\<close> and \<open>Promise\<close> are, and every run of programs is a run of that system.
\<close>

section \<open>Data\<close>

text \<open>
  A value of a future: one of the client's types, a \<open>bool\<close> of a cancellation token, the array or
  the tuple \<open>WhenAll\<close> makes of its parents' values, or what moving a value away leaves behind.
\<close>

datatype 'v fvalue =
    Plain 'v
  | BoolValue bool
  | ArrayValue "'v fvalue list"
  | TupleValue "'v fvalue list"
  | MovedFrom

fun leave_moved :: "'v fvalue \<Rightarrow> 'v fvalue" where
  "leave_moved (Plain v) = MovedFrom"
| "leave_moved (TupleValue vs) = TupleValue (map leave_moved vs)"
| "leave_moved v = v"

text \<open>
  What a callback of the client takes and returns. \<open>Throws\<close> is a callback that ends with an
  exception, of which \<open>ExceptionErrorProvider\<close> makes the error given.
\<close>

datatype ('e, 'v) maybe_value = MaybeValue "'v fvalue" | MaybeVoid | MaybeError "'e option"

datatype ('e, 'v) arg = NoArg | ValueArg "'v fvalue" | MaybeArg "('e, 'v) maybe_value" | ErrorArg "'e option"

datatype ('e, 'v) ret =
    ReturnVoid
  | ReturnValue "'v fvalue"
  | ReturnMaybe "('e, 'v) maybe_value"
  | ReturnFuture ptr
  | ReturnMaybeFuture "ptr + 'e option"
  | Throws 'e

text \<open>
  The task objects placed in the memory of futures. \<open>void\<close> tells the specialisation for futures
  without a value. The array of \<open>RawOrCntPtr\<close> is one of machine words; an array of results comes with
  the size and alignment of its values.
\<close>

datatype when_all_kind = OfVoid | OfArray "64 word" "64 word" | OfTuple

record 'v WhenAllFutureTask =
  CompleteCount :: "32 word"
  FutureCount :: "32 word"
  ParentFutures :: "64 word list"
  ValueArray :: "'v fvalue list"

datatype CallbackArgKind =
    ArgValue
  | ArgValueRef
  | ArgMaybe
  | ArgMaybeRef
  | ArgVoid
  | ArgMaybeVoid
  | ArgMaybeVoidRef
  | ArgErrorCode

datatype executor = Executor "nat option" | Concurrent | Inline

record FutureTask =
  Exec :: executor
  throwing :: bool
  Callback :: nat

datatype 'v task =
    NoTask
  | WhenAllTask when_all_kind "'v WhenAllFutureTask"
  | WhenAnyTask bool
  | CopyTask bool
  | CompletionTask bool ptr
  | ThenTask FutureTask CallbackArgKind
  | CatchTask FutureTask bool
  | TokenSourceTask ptr
  | TokenTask

text \<open>
  Besides the objects of \<open>Future_System\<close>: the task and the value in the memory of a future, how many
  references tasks hold to each future, and the callbacks that were posted to a queue (\<open>None\<close> is
  the concurrent queue).
\<close>

record 'v memory =
  task_of :: "ptr \<Rightarrow> 'v task"
  slots :: "ptr \<Rightarrow> 'v fvalue option"
  task_refs :: "ptr \<Rightarrow> int"
  posted :: "(nat option \<times> ptr) list"

definition empty_memory :: "'v memory" where
  "empty_memory = \<lparr>task_of = (\<lambda>_. NoTask), slots = Map.empty, task_refs = (\<lambda>_. 0), posted = []\<rparr>"

section \<open>Programs\<close>

text \<open>
  A program ends with a result, fails a check, calls a future and goes on with what the call
  returned, makes a future and goes on with its address, reads and writes the memory, or asks a
  callback of the client and goes on with its answer.
\<close>

datatype ('e, 'v, 'r) prog =
    Return 'r
  | Fail crash_reason
  | Call "'e fwork" "bool \<Rightarrow> ('e, 'v, 'r) prog"
  | MakeFuture FutureTraits nat bool "ptr \<Rightarrow> ('e, 'v, 'r) prog"
  | Access "'e fworld \<Rightarrow> 'v memory \<Rightarrow> ('v memory \<times> ('e, 'v, 'r) prog) outcome"
  | Ask nat "('e, 'v) arg" "('e, 'v) ret \<Rightarrow> ('e, 'v, 'r) prog"

primrec bind :: "('e, 'v, 'a) prog \<Rightarrow> ('a \<Rightarrow> ('e, 'v, 'b) prog) \<Rightarrow> ('e, 'v, 'b) prog" where
  "bind (Return x) k = k x"
| "bind (Fail r) k = Fail r"
| "bind (Call c p) k = Call c (\<lambda>b. bind (p b) k)"
| "bind (MakeFuture t n b p) k = MakeFuture t n b (\<lambda>f. bind (p f) k)"
| "bind (Access g) k = Access (\<lambda>w m. map_outcome (map_prod id (\<lambda>p. bind p k)) (g w m))"
| "bind (Ask i a p) k = Ask i a (\<lambda>r. bind (p r) k)"

text \<open>Short forms: a check, a call whose result is dropped, an update of the memory.\<close>

definition verify :: "bool \<Rightarrow> string \<Rightarrow> ('e, 'v, 'r) prog \<Rightarrow> ('e, 'v, 'r) prog" where
  "verify c msg p = (if c then p else Fail (VerifyElseCrash msg))"

definition call :: "'e fwork \<Rightarrow> ('e, 'v, 'r) prog \<Rightarrow> ('e, 'v, 'r) prog" where
  "call c p = Call c (\<lambda>_. p)"

definition update :: "('v memory \<Rightarrow> 'v memory) \<Rightarrow> ('e, 'v, 'r) prog \<Rightarrow> ('e, 'v, 'r) prog" where
  "update g p = Access (\<lambda>w m. Returns (g m, p))"

definition construct_task :: "ptr \<Rightarrow> 'v task \<Rightarrow> 'v memory \<Rightarrow> 'v memory" where
  "construct_task f t m = m\<lparr>task_of := (task_of m)(f := t)\<rparr>"

definition construct_value :: "ptr \<Rightarrow> 'v fvalue \<Rightarrow> 'v memory \<Rightarrow> 'v memory" where
  "construct_value f v m = m\<lparr>slots := (slots m)(f \<mapsto> v)\<rparr>"

definition change_refs :: "int \<Rightarrow> ptr option \<Rightarrow> 'v memory \<Rightarrow> 'v memory" where
  "change_refs d r m = (case r of None \<Rightarrow> m | Some p \<Rightarrow> m\<lparr>task_refs := (task_refs m)(p := task_refs m p + d)\<rparr>)"

lemma bind_verify [simp]: "bind (verify c msg p) k = verify c msg (bind p k)"
  by (simp add: verify_def)

lemma bind_call [simp]: "bind (call c p) k = call c (bind p k)"
  by (simp add: call_def)

lemma bind_update [simp]: "bind (update g p) k = update g (bind p k)"
  by (simp add: update_def)

lemma bind_assoc: "bind (bind p k) h = bind p (\<lambda>x. bind (k x) h)"
proof (induction p)
  case (Access g)
  have "map_outcome (map_prod id (\<lambda>p. bind (bind p k) h)) (g w m)
      = map_outcome (map_prod id (\<lambda>p. bind p (\<lambda>x. bind (k x) h))) (g w m)" for w m
    by (intro outcome.map_cong0 prod.map_cong0) (rule refl, rule Access [OF rangeI rangeI], auto elim!: snds.cases)
  then show ?case by (simp add: outcome.map_comp prod.map_comp comp_def id_def)
qed simp_all

section \<open>Threads\<close>

text \<open>
  A thread has a stack of frames: entries of the library and programs, which belong to a task or
  to the thread's own code. \<open>tasks_codes\<close> gives the programs that stand for the client's code an
  entry starts, in the order of their \<open>Client\<close> entries.
\<close>

datatype origin = User | Task ptr

datatype ('e, 'v) frame = Lib "'e fwork" | Run origin "('e, 'v, unit) prog"

record ('e, 'v) pworld =
  base :: "'e fworld"
  memory :: "'v memory"
  frames :: "thread_id \<Rightarrow> ('e, 'v) frame list"

text \<open>
  What there is besides the library: which calls code may make, the code of tasks, which answers
  callbacks can give, the programs threads may start, and the error of a cancellation.
\<close>

record ('e, 'v) client =
  may_call :: "origin \<Rightarrow> 'e fworld \<Rightarrow> 'e fwork \<Rightarrow> bool"
  codes :: "'e fworld \<Rightarrow> 'v memory \<Rightarrow> 'e fwork \<Rightarrow> (ptr \<times> ('e, 'v, unit) prog) list"
  answers :: "nat \<Rightarrow> ('e, 'v) arg \<Rightarrow> ('e, 'v) ret \<Rightarrow> bool"
  api :: "('e, 'v, unit) prog set"
  cancelled :: 'e

fun attach :: "'e fwork list \<Rightarrow> (ptr \<times> ('e, 'v, unit) prog) list \<Rightarrow> ('e, 'v) frame list" where
  "attach [] cs = []"
| "attach (Client # ys) [] = Run (Task 0) (Return ()) # attach ys []"
| "attach (Client # ys) (c # cs) = Run (Task (fst c)) (snd c) # attach ys cs"
| "attach (y # ys) cs = Lib y # attach ys cs"

text \<open>
  Whether a call succeeded, which is what the \<open>Try\<close> functions return. A call that has to wait and
  try again has not returned yet.
\<close>

definition call_result :: "'e fwork \<Rightarrow> 'e fworld \<Rightarrow> 'e fworld \<Rightarrow> bool" where
  "call_result c w w1 =
     (case c of
        DoTryStartSetValue f _ \<Rightarrow> map_option fstate (heap w1 f) \<noteq> map_option fstate (heap w f)
      | DoTrySetSuccess f _ \<Rightarrow> map_option fstate (heap w1 f) \<noteq> map_option fstate (heap w f)
      | DoTrySetError f _ _ \<Rightarrow> map_option fstate (heap w1 f) \<noteq> map_option fstate (heap w f)
      | _ \<Rightarrow> True)"

definition waits :: "'e fwork \<Rightarrow> 'e fwork list \<Rightarrow> bool" where
  "waits c new \<longleftrightarrow> (case c of DoTrySetError f e b \<Rightarrow> new = [c] | _ \<Rightarrow> False)"

definition new_address :: "'e fworld \<Rightarrow> ptr \<Rightarrow> bool" where
  "new_address w f \<longleftrightarrow> heap w f = None \<and> f \<noteq> 0 \<and> aligned f"

definition set_stack :: "thread_id \<Rightarrow> 'e fwork list \<Rightarrow> 'e fworld \<Rightarrow> 'e fworld" where
  "set_stack tid xs w = w\<lparr>fstack := (fstack w)(tid := xs)\<rparr>"

fun makes_future :: "'e fwork \<Rightarrow> bool" where
  "makes_future (DoMakeFuture f t n b) = True"
| "makes_future _ = False"

definition put ::
  "thread_id \<Rightarrow> ('e, 'v) frame list \<Rightarrow> 'e fworld \<Rightarrow> 'v memory \<Rightarrow> ('e, 'v) pworld \<Rightarrow> ('e, 'v) pworld" where
  "put tid xs w m W = W\<lparr>base := w, memory := m, frames := (frames W)(tid := xs)\<rparr>"

text \<open>A thread may start a program of its own when it is idle or in a callback of the client.\<close>

fun in_client_code :: "('e, 'v) frame list \<Rightarrow> bool" where
  "in_client_code [] \<longleftrightarrow> True"
| "in_client_code (Run (Task f) (Ask i a k) # xs) \<longleftrightarrow> True"
| "in_client_code _ \<longleftrightarrow> False"

definition popped :: "origin \<Rightarrow> thread_id \<Rightarrow> 'e fworld \<Rightarrow> 'e fworld" where
  "popped o1 tid w = (case o1 of User \<Rightarrow> w | Task f \<Rightarrow> set_stack tid (tl (fstack w tid)) w)"

text \<open>
  Below, \<open>base\<close> keeps in its stacks what the system of futures sees of the frames: the entries
  of the library, and \<open>Client\<close> for code of tasks.
\<close>

inductive prog_step :: "('e, 'v) client \<Rightarrow> nat \<Rightarrow> ('e, 'v) pworld \<Rightarrow> ('e, 'v) pworld \<Rightarrow> bool"
  for cl n where
  lib: "tid < n \<Longrightarrow> frames W tid = Lib x # xs \<Longrightarrow> exec_fwork (cancelled cl) tid x (base W) = Returns (new, w1) \<Longrightarrow>
     prog_step cl n W (put tid (attach new (codes cl (base W) (memory W) x) @ xs)
       (set_stack tid (new @ tl (fstack (base W) tid)) w1) (memory W) W)"
| call: "tid < n \<Longrightarrow> frames W tid = Run o1 (Call c k) # xs \<Longrightarrow> client_call c \<Longrightarrow> \<not> makes_future c \<Longrightarrow>
     may_call cl o1 (base W) c \<Longrightarrow> exec_fwork (cancelled cl) tid c (base W) = Returns (new, w1) \<Longrightarrow> \<not> waits c new \<Longrightarrow>
     prog_step cl n W (put tid (attach new [] @ Run o1 (k (call_result c (base W) w1)) # xs)
       (set_stack tid (new @ fstack (base W) tid) w1) (memory W) W)"
| make: "tid < n \<Longrightarrow> frames W tid = Run o1 (MakeFuture t sz b k) # xs \<Longrightarrow> new_address (base W) f \<Longrightarrow>
     may_call cl o1 (base W) (DoMakeFuture f t sz b) \<Longrightarrow>
     exec_fwork (cancelled cl) tid (DoMakeFuture f t sz b) (base W) = Returns (new, w1) \<Longrightarrow>
     prog_step cl n W (put tid (Run o1 (k f) # xs) (set_stack tid (new @ fstack (base W) tid) w1) (memory W) W)"
| access: "tid < n \<Longrightarrow> frames W tid = Run o1 (Access g) # xs \<Longrightarrow> g (base W) (memory W) = Returns (m1, p) \<Longrightarrow>
     prog_step cl n W (put tid (Run o1 p # xs) (base W) m1 W)"
| ask: "tid < n \<Longrightarrow> frames W tid = Run o1 (Ask i a k) # xs \<Longrightarrow> answers cl i a r \<Longrightarrow>
     prog_step cl n W (put tid (Run o1 (k r) # xs) (base W) (memory W) W)"
| return: "tid < n \<Longrightarrow> frames W tid = Run o1 (Return ()) # xs \<Longrightarrow>
     prog_step cl n W (put tid xs (popped o1 tid (base W)) (memory W) W)"
| start: "tid < n \<Longrightarrow> in_client_code (frames W tid) \<Longrightarrow> p \<in> api cl \<Longrightarrow>
     prog_step cl n W (put tid (Run User p # frames W tid) (base W) (memory W) W)"

inductive_cases prog_stepE: "prog_step cl n W W'"

definition initial_pworld :: "('e, 'v) pworld" where
  "initial_pworld = \<lparr>base = initial_fworld, memory = empty_memory, frames = (\<lambda>_. [])\<rparr>"

inductive prog_reachable :: "('e, 'v) client \<Rightarrow> nat \<Rightarrow> ('e, 'v) pworld \<Rightarrow> bool" for cl n where
  initial: "prog_reachable cl n initial_pworld"
| step: "prog_reachable cl n W \<Longrightarrow> prog_step cl n W W' \<Longrightarrow> prog_reachable cl n W'"

section \<open>Programs are runs of the system of futures\<close>

fun erase_frame :: "('e, 'v) frame \<Rightarrow> 'e fwork list" where
  "erase_frame (Lib x) = [x]"
| "erase_frame (Run (Task f) p) = [Client]"
| "erase_frame (Run User p) = []"

definition erase :: "('e, 'v) frame list \<Rightarrow> 'e fwork list" where
  "erase xs = concat (map erase_frame xs)"

lemma erase_simps [simp]:
  "erase [] = []" "erase (x # xs) = erase_frame x @ erase xs" "erase (xs @ ys) = erase xs @ erase ys"
  by (simp_all add: erase_def)

lemma erase_attach [simp]: "erase (attach new cs) = new"
  by (induction new cs rule: attach.induct) auto

text \<open>Under a thread's own program there is nothing, or a callback of the client.\<close>

fun user_grounded :: "('e, 'v) frame list \<Rightarrow> bool" where
  "user_grounded [] \<longleftrightarrow> True"
| "user_grounded (Run User p # xs) \<longleftrightarrow> in_client_code xs \<and> user_grounded xs"
| "user_grounded (x # xs) \<longleftrightarrow> user_grounded xs"

lemma user_grounded_attach: "user_grounded xs \<Longrightarrow> user_grounded (attach new cs @ xs)"
  by (induction new cs rule: attach.induct) auto

lemma user_grounded_tl: "user_grounded (x # xs) \<Longrightarrow> user_grounded xs"
  by (cases "x # xs" rule: user_grounded.cases) auto

lemma user_grounded_replace: "user_grounded (Run o1 p # xs) \<Longrightarrow> user_grounded (Run o1 q # xs)"
  by (cases o1) auto

lemma client_top: "in_client_code xs \<Longrightarrow> erase xs = [] \<or> hd (erase xs) = Client"
  by (cases xs rule: in_client_code.cases) auto

lemma run_top: "user_grounded (Run o1 p # xs) \<Longrightarrow> erase (Run o1 p # xs) = [] \<or> hd (erase (Run o1 p # xs)) = Client"
  using client_top by (cases o1) auto

definition erased :: "('e, 'v) pworld \<Rightarrow> bool" where
  "erased W \<longleftrightarrow> (\<forall>tid. fstack (base W) tid = erase (frames W tid) \<and> user_grounded (frames W tid))"

definition someone_may :: "('e, 'v) client \<Rightarrow> 'e fworld \<Rightarrow> 'e fwork \<Rightarrow> bool" where
  "someone_may cl w c \<longleftrightarrow> (\<exists>o1. may_call cl o1 w c) \<and> (\<forall>f t n b. c = DoMakeFuture f t n b \<longrightarrow> new_address w f)"

lemma put_simps [simp]:
  "base (put tid xs w m W) = w" "memory (put tid xs w m W) = m"
  "frames (put tid xs w m W) = (frames W)(tid := xs)"
  by (simp_all add: put_def)

lemma set_stack_simps [simp]:
  "fstack (set_stack tid xs w) = (fstack w)(tid := xs)" "heap (set_stack tid xs w) = heap w"
  "tls (set_stack tid xs w) = tls w" "flog (set_stack tid xs w) = flog w"
  by (simp_all add: set_stack_def)

lemma MakeFuture_nothing: "exec_fwork c tid (DoMakeFuture f t sz b) w = Returns (new, w1) \<Longrightarrow> new = []"
  by (auto simp: exec_MakeFuture_def outcome_simps)

lemma prog_step_refines:
  assumes "prog_step cl n W W'" and "erased W"
  shows "erased W' \<and> (base W' = base W \<or> fut_step (someone_may cl) (cancelled cl) n (base W) (base W'))"
  using assms(1)
proof cases
  case (lib tid x xs new w1)
  have e: "fstack (base W) tid = x # erase xs" and g: "user_grounded xs"
    using assms(2) lib(3) by (auto simp: erased_def dest: spec [of _ tid])
  have w1: "fstack w1 = fstack (base W)" using exec_fwork_fstack [OF lib(4)] .
  have "erased W'" using assms(2) lib(1) w1 e g by (auto simp: erased_def user_grounded_attach)
  moreover have "fut_step (someone_may cl) (cancelled cl) n (base W) (base W')"
    unfolding lib(1) put_simps set_stack_def using fut_step.exec [OF lib(2) e lib(4)] e by simp
  ultimately show ?thesis by blast
next
  case (call tid o1 c k xs new w1)
  have e: "fstack (base W) tid = erase (Run o1 (Call c k) # xs)" and g: "user_grounded (Run o1 (Call c k) # xs)"
    using assms(2) call(3) by (auto simp: erased_def dest: spec [of _ tid])
  have w1: "fstack w1 = fstack (base W)" using exec_fwork_fstack [OF call(7)] .
  have "someone_may cl (base W) c"
    using call(5,6) by (auto simp: someone_may_def)
  then have "fut_step (someone_may cl) (cancelled cl) n (base W) (base W')"
    unfolding call(1) put_simps set_stack_def
    by (intro fut_step.client [OF call(2) refl _ call(4) _ call(7)]) (use run_top [OF g] e in auto)
  moreover have "erased W'"
    using assms(2) call(1) w1 e user_grounded_replace [OF g] by (cases o1) (auto simp: erased_def user_grounded_attach)
  ultimately show ?thesis by blast
next
  case (make tid o1 t sz b k xs f new w1)
  have e: "fstack (base W) tid = erase (Run o1 (MakeFuture t sz b k) # xs)"
    and g: "user_grounded (Run o1 (MakeFuture t sz b k) # xs)"
    using assms(2) make(3) by (auto simp: erased_def dest: spec [of _ tid])
  have w1: "fstack w1 = fstack (base W)" using exec_fwork_fstack [OF make(6)] .
  have "someone_may cl (base W) (DoMakeFuture f t sz b)"
    using make(4,5) by (auto simp: someone_may_def)
  then have "fut_step (someone_may cl) (cancelled cl) n (base W) (base W')"
    unfolding make(1) put_simps set_stack_def
    by (intro fut_step.client [OF make(2) refl _ _ _ make(6)]) (use run_top [OF g] e in auto)
  moreover have "erased W'"
    using assms(2) make(1) w1 e MakeFuture_nothing [OF make(6)] user_grounded_replace [OF g]
    by (cases o1) (auto simp: erased_def)
  ultimately show ?thesis by blast
next
  case (access tid o1 g xs m1 p)
  then show ?thesis using assms(2) user_grounded_replace
    by (cases o1) (auto simp: erased_def dest: spec [of _ tid])
next
  case (ask tid o1 i a k xs r)
  then show ?thesis using assms(2) user_grounded_replace
    by (cases o1) (auto simp: erased_def dest: spec [of _ tid])
next
  case (return tid o1 xs)
  have e: "fstack (base W) tid = erase (Run o1 (Return ()) # xs)" and "user_grounded (Run o1 (Return ()) # xs)"
    using assms(2) return(3) by (auto simp: erased_def dest: spec [of _ tid])
  then have g: "user_grounded xs" using user_grounded_tl by blast
  show ?thesis
  proof (cases o1)
    case User
    then show ?thesis using assms(2) return(1) e g by (auto simp: erased_def popped_def)
  next
    case (Task f)
    have "exec_fwork (cancelled cl) tid Client (base W) = Returns ([], base W)" by simp
    from fut_step.exec [OF return(2) _ this] e Task
    have "fut_step (someone_may cl) (cancelled cl) n (base W) (base W')"
      by (simp add: return(1) popped_def set_stack_def)
    moreover have "erased W'" using assms(2) return(1) e g Task by (auto simp: erased_def popped_def)
    ultimately show ?thesis by blast
  qed
next
  case (start tid p)
  then show ?thesis using assms(2) by (auto simp: erased_def)
qed

lemma prog_refines:
  assumes "prog_reachable cl n W"
  shows "erased W \<and> fut_reachable (someone_may cl) (cancelled cl) n (base W)"
  using assms
proof induction
  case initial
  have "erased initial_pworld" by (simp add: initial_pworld_def erased_def initial_fworld_def)
  then show ?case by (simp add: initial_pworld_def fut_reachable.initial)
next
  case (step W W')
  with prog_step_refines [OF step.hyps(2)] show ?case using fut_reachable.step by fastforce
qed

end
