(* ===== verification/Future_Tasks.thy ===== *)
theory Future_Tasks
  imports Future_Program
begin

text \<open>
  The tasks of futures: the callbacks \<open>TaskPost\<close>, \<open>TaskInvoke\<close>, \<open>TaskCatch\<close> and \<open>TaskDestroy\<close> that
  \<open>libs/future\<close> itself puts into the traits of futures (\<open>details/futureTask.h\<close>, \<open>futureTask.cpp\<close>,
  \<open>details/whenAllInl.h\<close>, \<open>whenAll.cpp\<close>, \<open>details/whenAnyInl.h\<close>, \<open>whenAny.cpp\<close>, \<open>executor.cpp\<close> and
  \<open>cancellationTokenImpl.cpp\<close>), as programs. Where a template has a specialisation for \<open>void\<close>, both are
  given. \<open>depth\<close> bounds how many futures that use their parent's value are followed to find one.
\<close>

section \<open>Reading and setting results\<close>

definition read_value :: "nat \<Rightarrow> ptr \<Rightarrow> ('v fvalue \<Rightarrow> ('e, 'v, 'r) prog) \<Rightarrow> ('e, 'v, 'r) prog" where
  "read_value depth p k = Access (\<lambda>w m. and_then (GetValue depth w p) (\<lambda>q.
     case slots m q of None \<Rightarrow> Crashes NotConstructed | Some v \<Rightarrow> Returns (m, k v)))"

text \<open>\<open>std::move\<close> of the value: what is left behind stays in its place.\<close>

definition move_value :: "nat \<Rightarrow> ptr \<Rightarrow> ('v fvalue \<Rightarrow> ('e, 'v, 'r) prog) \<Rightarrow> ('e, 'v, 'r) prog" where
  "move_value depth p k = Access (\<lambda>w m. and_then (GetValue depth w p) (\<lambda>q.
     case slots m q of None \<Rightarrow> Crashes NotConstructed
     | Some v \<Rightarrow> Returns (construct_value q (leave_moved v) m, k v)))"

text \<open>
  A copy of an error passed by reference. Where a callback takes the error of its own future away,
  the completion that follows replaces what is left of it, so it is read like a copy too.
\<close>

definition read_error :: "'e error_ref \<Rightarrow> ('e option \<Rightarrow> ('e, 'v, 'r) prog) \<Rightarrow> ('e, 'v, 'r) prog" where
  "read_error futureError k = Access (\<lambda>w m.
     case futureError of
       EValue e \<Rightarrow> Returns (m, k e)
     | EField p \<Rightarrow> with_future w p (\<lambda>o1. Returns (m, k (m_error o1))))"

definition IFuture_SetValue :: "ptr \<Rightarrow> 'v fvalue \<Rightarrow> ('e, 'v, unit) prog" where
  "IFuture_SetValue this v =
     call (DoTryStartSetValue this True) (update (construct_value this v)
       (call (DoTrySetSuccess this True) (Return ())))"

definition IFuture_TrySetValue :: "ptr \<Rightarrow> 'v fvalue \<Rightarrow> ('e, 'v, bool) prog" where
  "IFuture_TrySetValue this v =
     Call (DoTryStartSetValue this False) (\<lambda>ok.
       if ok then update (construct_value this v) (call (DoTrySetSuccess this True) (Return True))
       else Return False)"

section \<open>References\<close>

text \<open>
  A pointer that may or may not own a reference (\<open>RawOrCntPtr\<close>): the address is kept shifted to
  the right, and the top bit tells that no reference is owned.
\<close>

definition RawOrCntPtr_ctor :: "ptr \<Rightarrow> 64 word" where
  "RawOrCntPtr_ctor p = drop_bit 1 p OR push_bit 63 1"

definition RawOrCntPtr_Get :: "64 word \<Rightarrow> ptr" where
  "RawOrCntPtr_Get m_ptr = push_bit 1 m_ptr"

definition RawOrCntPtr_IsRawPtr :: "64 word \<Rightarrow> bool" where
  "RawOrCntPtr_IsRawPtr m_ptr \<longleftrightarrow> drop_bit 63 m_ptr \<noteq> 0"

text \<open>The reference taken or let go of, if any, comes with the result.\<close>

definition RawOrCntPtr_ConvertToCntPtr :: "64 word \<Rightarrow> 64 word \<times> ptr option" where
  "RawOrCntPtr_ConvertToCntPtr m_ptr =
     (let p = RawOrCntPtr_Get m_ptr in
      if RawOrCntPtr_IsRawPtr m_ptr \<and> p \<noteq> 0 then (drop_bit 1 p, Some p) else (m_ptr, None))"

definition RawOrCntPtr_dtor :: "64 word \<Rightarrow> 64 word \<times> ptr option" where
  "RawOrCntPtr_dtor m_ptr =
     (let p = RawOrCntPtr_Get m_ptr in
      if \<not> RawOrCntPtr_IsRawPtr m_ptr \<and> p \<noteq> 0 then (0, Some p) else (0, None))"

lemma bit_ctor: "bit (RawOrCntPtr_ctor p) n \<longleftrightarrow> (n < 63 \<and> bit p (Suc n)) \<or> n = 63"
  unfolding RawOrCntPtr_ctor_def bit_or_iff bit_drop_bit_eq bit_push_bit_iff comp_def
  using bit_imp_le_length [of p "Suc n"] by (auto simp add: not_less_eq)

lemma bit_Get: "bit (RawOrCntPtr_Get x) n \<longleftrightarrow> 0 < n \<and> n < 64 \<and> bit x (n - 1)"
  unfolding RawOrCntPtr_Get_def bit_push_bit_iff by (auto dest: bit_imp_le_length)

lemma IsRawPtr_bit: "RawOrCntPtr_IsRawPtr x \<longleftrightarrow> bit x 63"
proof -
  have "drop_bit 63 x \<noteq> 0 \<longleftrightarrow> (\<exists>n. bit (drop_bit 63 x) n)"
  proof
    assume "drop_bit 63 x \<noteq> 0"
    then show "\<exists>n. bit (drop_bit 63 x) n" using bit_word_eqI [of "drop_bit 63 x" 0] by auto
  qed auto
  also have "\<dots> \<longleftrightarrow> (\<exists>n. bit x (63 + n))" by (simp add: bit_drop_bit_eq)
  also have "\<dots> \<longleftrightarrow> bit x 63"
  proof
    assume "\<exists>n. bit x (63 + n)"
    then obtain n where n: "bit x (63 + n)" by blast
    then have "63 + n < 64" by (auto dest: bit_imp_le_length)
    with n show "bit x 63" by simp
  qed (auto intro: exI [where x = 0])
  finally show ?thesis by (simp add: RawOrCntPtr_IsRawPtr_def)
qed

text \<open>Addresses of objects are even, so nothing is lost.\<close>

lemma even_bit: "even (p :: 64 word) \<longleftrightarrow> \<not> bit p 0"
  by (simp add: bit_0)

lemma even_bit_pos: "even (p :: 64 word) \<Longrightarrow> bit p n \<Longrightarrow> \<exists>k. n = Suc k"
  by (cases n) (simp_all add: even_bit)

lemma Get_ctor [simp]: "even p \<Longrightarrow> RawOrCntPtr_Get (RawOrCntPtr_ctor p) = p"
  by (rule bit_word_eqI) (auto simp: bit_Get bit_ctor dest: even_bit_pos)

lemma Get_drop [simp]: "even p \<Longrightarrow> RawOrCntPtr_Get (drop_bit 1 p) = p"
  by (rule bit_word_eqI) (auto simp: bit_Get bit_drop_bit_eq dest: even_bit_pos)

lemma IsRawPtr_ctor [simp]: "RawOrCntPtr_IsRawPtr (RawOrCntPtr_ctor p)"
  by (simp add: IsRawPtr_bit bit_ctor)

lemma IsRawPtr_drop [simp]: "\<not> RawOrCntPtr_IsRawPtr (drop_bit 1 p)"
  using bit_imp_le_length [of p 64] by (auto simp: IsRawPtr_bit bit_drop_bit_eq)

section \<open>Futures that wait for several parents\<close>

definition WhenAllFutureTask_size :: "64 word" where
  "WhenAllFutureTask_size = 16"

definition WhenAll_GetAlignedSize :: "64 word \<Rightarrow> 64 word \<Rightarrow> 64 word" where
  "WhenAll_GetAlignedSize align sz = (sz + align - 1) AND NOT (align - 1)"

definition WhenAll_GetTaskSize :: "64 word \<Rightarrow> 64 word \<Rightarrow> 64 word \<Rightarrow> 64 word" where
  "WhenAll_GetTaskSize sizeofT align futureCount =
     (if futureCount > 0
      then WhenAll_GetAlignedSize align (WhenAllFutureTask_size + (futureCount - 1) * 8) + futureCount * sizeofT
      else WhenAllFutureTask_size)"

definition WhenAllVoid_GetTaskSize :: "64 word \<Rightarrow> 64 word" where
  "WhenAllVoid_GetTaskSize futureCount =
     (if futureCount > 0 then WhenAllFutureTask_size + (futureCount - 1) * 8 else WhenAllFutureTask_size)"


text \<open>
  The search for the parent in the array, in its three places. Different parents have different
  entries, so only the counter is shared with other threads.
\<close>

primrec mark_parent :: "ptr \<Rightarrow> 64 word list \<Rightarrow> 64 word list \<times> bool \<times> ptr option" where
  "mark_parent parent [] = ([], False, None)"
| "mark_parent parent (storedFuture # xs) =
     (if parent = RawOrCntPtr_Get storedFuture
      then case RawOrCntPtr_ConvertToCntPtr storedFuture of (y, r) \<Rightarrow> (y # xs, True, r)
      else case mark_parent parent xs of (ys, found, r) \<Rightarrow> (storedFuture # ys, found, r))"

definition with_when_all ::
  "ptr \<Rightarrow> (when_all_kind \<Rightarrow> 'v WhenAllFutureTask \<Rightarrow> 'v memory \<Rightarrow> ('v memory \<times> ('e, 'v, 'r) prog) outcome)
     \<Rightarrow> ('e, 'v, 'r) prog" where
  "with_when_all f g = Access (\<lambda>w m. case task_of m f of WhenAllTask kind t \<Rightarrow> g kind t m | _ \<Rightarrow> Crashes NotConstructed)"

definition WhenAll_find :: "ptr \<Rightarrow> ptr \<Rightarrow> ('e, 'v, 'r) prog \<Rightarrow> ('e, 'v, 'r) prog" where
  "WhenAll_find future parent next = with_when_all future (\<lambda>kind t m.
     case mark_parent parent (ParentFutures t) of (ps, found, r) \<Rightarrow>
       Returns (change_refs 1 r (construct_task future (WhenAllTask kind (t\<lparr>ParentFutures := ps\<rparr>)) m),
                verify found ''parent future is not found'' next))"

definition WhenAll_count :: "ptr \<Rightarrow> (bool \<Rightarrow> ('e, 'v, 'r) prog) \<Rightarrow> ('e, 'v, 'r) prog" where
  "WhenAll_count future next = with_when_all future (\<lambda>kind t m.
     let count = CompleteCount t + 1
     in Returns (construct_task future (WhenAllTask kind (t\<lparr>CompleteCount := count\<rparr>)) m, next (count = FutureCount t)))"

text \<open>
  \<open>taskSize\<close> is the size of the buffer the callback is given. For a tuple the count is the number of
  its components, which the constructor of the task stored in \<open>FutureCount\<close>.
\<close>

definition WhenAll_check ::
  "string \<Rightarrow> (64 word \<Rightarrow> 64 word) \<Rightarrow> nat \<Rightarrow> ptr \<Rightarrow> ('e, 'v, 'r) prog \<Rightarrow> ('e, 'v, 'r) prog" where
  "WhenAll_check msg GetTaskSize taskSize future next = with_when_all future (\<lambda>kind t m.
     Returns (m, verify (taskSize = unat (GetTaskSize (ucast (FutureCount t)))) msg next))"

definition WhenAllVoid_Invoke :: "nat \<Rightarrow> ptr \<Rightarrow> ptr \<Rightarrow> ('e, 'v, unit) prog" where
  "WhenAllVoid_Invoke taskSize future parent =
     WhenAll_check '''' WhenAllVoid_GetTaskSize taskSize future
       (WhenAll_find future parent
         (WhenAll_count future (\<lambda>last.
            if last then call (DoTrySetSuccess future True) (Return ()) else Return ())))"

primrec move_values :: "nat \<Rightarrow> ptr list \<Rightarrow> ('v fvalue list \<Rightarrow> ('e, 'v, 'r) prog) \<Rightarrow> ('e, 'v, 'r) prog" where
  "move_values depth [] k = k []"
| "move_values depth (p # ps) k = move_value depth p (\<lambda>v. move_values depth ps (\<lambda>vs. k (v # vs)))"

text \<open>The values of the parents, in the order of the parents, once all of them succeeded.\<close>

definition WhenAll_values :: "nat \<Rightarrow> ptr \<Rightarrow> ('v fvalue list \<Rightarrow> ('e, 'v, 'r) prog) \<Rightarrow> ('e, 'v, 'r) prog" where
  "WhenAll_values depth future k = with_when_all future (\<lambda>kind t m.
     Returns (m, move_values depth (map RawOrCntPtr_Get (ParentFutures t)) k))"

definition store_array :: "ptr \<Rightarrow> 'v fvalue list \<Rightarrow> 'v memory \<Rightarrow> 'v memory" where
  "store_array future vs m =
     (case task_of m future of
        WhenAllTask kind t \<Rightarrow> construct_task future (WhenAllTask kind (t\<lparr>ValueArray := vs\<rparr>)) m
      | _ \<Rightarrow> m)"

definition WhenAll_Invoke :: "64 word \<Rightarrow> 64 word \<Rightarrow> nat \<Rightarrow> nat \<Rightarrow> ptr \<Rightarrow> ptr \<Rightarrow> ('e, 'v, unit) prog" where
  "WhenAll_Invoke sizeofT align depth taskSize future parent =
     WhenAll_check '''' (WhenAll_GetTaskSize sizeofT align) taskSize future
       (WhenAll_find future parent
         (WhenAll_count future (\<lambda>last.
            if last
            then call (DoTryStartSetValue future True)
                   (WhenAll_values depth future (\<lambda>vs.
                     update (store_array future vs) (update (construct_value future (ArrayValue vs))
                       (call (DoTrySetSuccess future True) (Return ())))))
            else Return ())))"

definition WhenAllTuple_Invoke :: "nat \<Rightarrow> nat \<Rightarrow> ptr \<Rightarrow> ptr \<Rightarrow> ('e, 'v, unit) prog" where
  "WhenAllTuple_Invoke depth taskSize future parent =
     WhenAll_check ''Wrong size'' WhenAllVoid_GetTaskSize taskSize future
       (WhenAll_find future parent
         (WhenAll_count future (\<lambda>last.
            if last
            then call (DoTryStartSetValue future True)
                   (WhenAll_values depth future (\<lambda>vs.
                     update (construct_value future (TupleValue vs))
                       (call (DoTrySetSuccess future True) (Return ()))))
            else Return ())))"

definition WhenAllTaskCatch_Catch :: "ptr \<Rightarrow> 'e error_ref \<Rightarrow> ('e, 'v, unit) prog" where
  "WhenAllTaskCatch_Catch future parentError = call (DoTrySetError future parentError False) (Return ())"

definition release_parents :: "64 word list \<Rightarrow> 'v memory \<Rightarrow> 'v memory" where
  "release_parents xs m = fold (\<lambda>x. change_refs (- 1) (snd (RawOrCntPtr_dtor x))) xs m"

definition WhenAllVoid_Destroy :: "nat \<Rightarrow> ptr \<Rightarrow> ('e, 'v, unit) prog" where
  "WhenAllVoid_Destroy taskSize future =
     WhenAll_check '''' WhenAllVoid_GetTaskSize taskSize future
       (with_when_all future (\<lambda>kind t m.
          Returns (construct_task future NoTask (release_parents (ParentFutures t) m), Return ())))"

definition WhenAll_Destroy :: "64 word \<Rightarrow> 64 word \<Rightarrow> nat \<Rightarrow> ptr \<Rightarrow> ('e, 'v, unit) prog" where
  "WhenAll_Destroy sizeofT align taskSize future =
     WhenAll_check '''' (WhenAll_GetTaskSize sizeofT align) taskSize future
       (with_when_all future (\<lambda>kind t m.
          if CompleteCount t = FutureCount t \<and> length (ValueArray t) < unat (FutureCount t)
          then Crashes NotConstructed
          else Returns (construct_task future NoTask (release_parents (ParentFutures t) m), Return ())))"

text \<open>\<open>WhenAny\<close>: the first parent decides, the others are ignored.\<close>

definition WhenAny_Invoke :: "nat \<Rightarrow> ptr \<Rightarrow> ptr \<Rightarrow> ('e, 'v, unit) prog" where
  "WhenAny_Invoke depth future parent =
     Call (DoTryStartSetValue future False) (\<lambda>ok.
       if ok
       then move_value depth parent (\<lambda>v. update (construct_value future v)
              (call (DoTrySetSuccess future True) (Return ())))
       else Return ())"

definition WhenAnyVoid_Invoke :: "ptr \<Rightarrow> ('e, 'v, unit) prog" where
  "WhenAnyVoid_Invoke future = call (DoTrySetSuccess future False) (Return ())"

definition WhenAnyTaskCatch_Catch :: "ptr \<Rightarrow> 'e error_ref \<Rightarrow> ('e, 'v, unit) prog" where
  "WhenAnyTaskCatch_Catch future parentError = call (DoTrySetError future parentError False) (Return ())"

section \<open>Copying and moving the parent's result\<close>

definition CopyTask_Invoke :: "nat \<Rightarrow> ptr \<Rightarrow> ptr \<Rightarrow> ('e, 'v, unit) prog" where
  "CopyTask_Invoke depth future parent = read_value depth parent (IFuture_SetValue future)"

definition CopyTaskVoid_Invoke :: "ptr \<Rightarrow> ('e, 'v, unit) prog" where
  "CopyTaskVoid_Invoke future = call (DoTrySetSuccess future True) (Return ())"

definition CopyTaskCatch_Catch :: "ptr \<Rightarrow> 'e error_ref \<Rightarrow> ('e, 'v, unit) prog" where
  "CopyTaskCatch_Catch future parentError =
     read_error parentError (\<lambda>e. call (DoTrySetError future (EValue e) False) (Return ()))"

section \<open>Results of callbacks\<close>

text \<open>
  A callback that returns a future: its own future waits, and a completion future, which is a
  continuation of the one returned, passes the result on.
\<close>

definition completion_traits :: FutureTraits where
  "completion_traits = \<lparr>Options = UseParentValue, ValueSize = 0, ValueDestroy = False, TaskDestroy = True,
     TaskPost = False, TaskInvoke = True, TaskCatch = True\<rparr>"

definition await_future :: "bool \<Rightarrow> ptr \<Rightarrow> ptr \<Rightarrow> ('e, 'v, unit) prog" where
  "await_future void future value =
     call (DoStartAwaiting future) (MakeFuture completion_traits 8 True (\<lambda>completionFuture.
       update (change_refs 1 (Some future) \<circ> construct_task completionFuture (CompletionTask void future))
         (call (DoAddContinuation value completionFuture) (Return ()))))"

definition ResultSetter_Set :: "ptr \<Rightarrow> 'v fvalue \<Rightarrow> ('e, 'v, unit) prog" where
  "ResultSetter_Set future v =
     call (DoTryStartSetValue future True) (update (construct_value future v)
       (call (DoTrySetSuccess future True) (Return ())))"

definition ResultSetterMaybe_Set :: "ptr \<Rightarrow> ('e, 'v) maybe_value \<Rightarrow> ('e, 'v, unit) prog" where
  "ResultSetterMaybe_Set future value =
     (case value of
        MaybeValue v \<Rightarrow>
          call (DoTryStartSetValue future True) (update (construct_value future v)
            (call (DoTrySetSuccess future True) (Return ())))
      | MaybeVoid \<Rightarrow> Fail NotConstructed
      | MaybeError e \<Rightarrow> call (DoTrySetError future (EValue e) True) (Return ()))"

definition ResultSetterMaybeVoid_Set :: "ptr \<Rightarrow> ('e, 'v) maybe_value \<Rightarrow> ('e, 'v, unit) prog" where
  "ResultSetterMaybeVoid_Set future value =
     (case value of
        MaybeError e \<Rightarrow> call (DoTrySetError future (EValue e) True) (Return ())
      | _ \<Rightarrow> call (DoTrySetSuccess future True) (Return ()))"

definition ResultSetterFuture_Set :: "bool \<Rightarrow> ptr \<Rightarrow> ptr \<Rightarrow> ('e, 'v, unit) prog" where
  "ResultSetterFuture_Set void future value = await_future void future value"

definition ResultSetterMaybeFuture_Set :: "bool \<Rightarrow> ptr \<Rightarrow> ptr + 'e option \<Rightarrow> ('e, 'v, unit) prog" where
  "ResultSetterMaybeFuture_Set void future value =
     (case value of
        Inl g \<Rightarrow> await_future void future g
      | Inr e \<Rightarrow> call (DoTrySetError future (EValue e) True) (Return ()))"

text \<open>The setter a callback's result selects; \<open>void\<close> is whether its future has no value.\<close>

definition set_result :: "bool \<Rightarrow> ptr \<Rightarrow> ('e, 'v) ret \<Rightarrow> ('e, 'v, unit) prog" where
  "set_result void future r =
     (case r of
        ReturnVoid \<Rightarrow> call (DoTrySetSuccess future True) (Return ())
      | ReturnValue v \<Rightarrow> ResultSetter_Set future v
      | ReturnMaybe m \<Rightarrow>
          if void then ResultSetterMaybeVoid_Set future m else ResultSetterMaybe_Set future m
      | ReturnFuture g \<Rightarrow> ResultSetterFuture_Set void future g
      | ReturnMaybeFuture x \<Rightarrow> ResultSetterMaybeFuture_Set void future x
      | Throws e \<Rightarrow> Fail (VerifyElseCrash ''std::terminate''))"

definition MoveTask_Invoke :: "nat \<Rightarrow> ptr \<Rightarrow> ptr \<Rightarrow> ('e, 'v, unit) prog" where
  "MoveTask_Invoke depth future parent = move_value depth parent (ResultSetter_Set future)"

definition MoveTaskVoid_Invoke :: "ptr \<Rightarrow> ('e, 'v, unit) prog" where
  "MoveTaskVoid_Invoke future = call (DoTrySetSuccess future True) (Return ())"


section \<open>Completion futures\<close>

definition with_completion :: "ptr \<Rightarrow> (ptr \<Rightarrow> ('e, 'v, 'r) prog) \<Rightarrow> ('e, 'v, 'r) prog" where
  "with_completion completionFuture k = Access (\<lambda>w m.
     case task_of m completionFuture of
       CompletionTask void futureToComplete \<Rightarrow> Returns (m, k futureToComplete)
     | _ \<Rightarrow> Crashes NotConstructed)"

text \<open>\<open>FutureToComplete.Clear()\<close>\<close>

definition clear_completion :: "bool \<Rightarrow> ptr \<Rightarrow> ptr \<Rightarrow> 'v memory \<Rightarrow> 'v memory" where
  "clear_completion void completionFuture futureToComplete m =
     change_refs (- 1) (if futureToComplete = 0 then None else Some futureToComplete)
       (construct_task completionFuture (CompletionTask void 0) m)"

definition FutureCompletionTask_Invoke :: "nat \<Rightarrow> ptr \<Rightarrow> ptr \<Rightarrow> ('e, 'v, unit) prog" where
  "FutureCompletionTask_Invoke depth future parent =
     call (DoTrySetSuccess future True) (with_completion future (\<lambda>futureToComplete.
       Call (DoTryStartSetValue futureToComplete False) (\<lambda>ok.
         if ok
         then move_value depth parent (\<lambda>v. update (construct_value futureToComplete v)
                (call (DoTrySetSuccess futureToComplete True) (Return ())))
         else Return ())))"

definition FutureCompletionTaskVoid_Invoke :: "ptr \<Rightarrow> ('e, 'v, unit) prog" where
  "FutureCompletionTaskVoid_Invoke future =
     call (DoTrySetSuccess future False) (with_completion future (\<lambda>futureToComplete.
       call (DoTrySetSuccess futureToComplete False) (Return ())))"

definition FutureCompletionTask_Catch :: "bool \<Rightarrow> ptr \<Rightarrow> 'e error_ref \<Rightarrow> ('e, 'v, unit) prog" where
  "FutureCompletionTask_Catch void future parentError =
     with_completion future (\<lambda>futureToComplete.
       read_error parentError (\<lambda>e.
         call (DoTrySetError futureToComplete (EValue e) False)
           (update (clear_completion void future futureToComplete)
             (call (DoTrySetError future parentError True) (Return ())))))"

definition FutureCompletionTask_Destroy :: "bool \<Rightarrow> ptr \<Rightarrow> ('e, 'v, unit) prog" where
  "FutureCompletionTask_Destroy void future =
     with_completion future (\<lambda>futureToComplete. update (clear_completion void future futureToComplete) (Return ()))"

section \<open>Callbacks of the client\<close>

text \<open>
  How an executor runs a callback (\<open>Executor.Invoke\<close>): as it is, or, for a throwing executor,
  through \<open>MaybeInvoker\<close>, which makes a \<open>Maybe\<close> of the result and an error of an exception.
\<close>

fun MaybeInvoker_Invoke :: "('e, 'v) ret \<Rightarrow> ('e, 'v) ret" where
  "MaybeInvoker_Invoke (ReturnValue v) = ReturnMaybe (MaybeValue v)"
| "MaybeInvoker_Invoke ReturnVoid = ReturnMaybe MaybeVoid"
| "MaybeInvoker_Invoke (ReturnMaybe m) = ReturnMaybe m"
| "MaybeInvoker_Invoke (ReturnFuture g) = ReturnMaybeFuture (Inl g)"
| "MaybeInvoker_Invoke (ReturnMaybeFuture x) = ReturnMaybeFuture x"
| "MaybeInvoker_Invoke (Throws e) = ReturnMaybe (MaybeError (Some e))"

definition executor_result :: "FutureTask \<Rightarrow> ('e, 'v) ret \<Rightarrow> ('e, 'v) ret" where
  "executor_result t r = (if throwing t then MaybeInvoker_Invoke r else r)"

definition invoke_callback :: "bool \<Rightarrow> FutureTask \<Rightarrow> ptr \<Rightarrow> ('e, 'v) arg \<Rightarrow> ('e, 'v, unit) prog" where
  "invoke_callback void t future a =
     Ask (Callback t) a (\<lambda>r. set_result void future (executor_result t r))"

text \<open>\<open>TaskInvoke\<close> of a continuation, for each kind of argument.\<close>

definition FutureTaskInvoke ::
  "bool \<Rightarrow> FutureTask \<Rightarrow> CallbackArgKind \<Rightarrow> nat \<Rightarrow> ptr \<Rightarrow> ptr \<Rightarrow> ('e, 'v, unit) prog" where
  "FutureTaskInvoke void t argKind depth future parent =
     (case argKind of
        ArgValue \<Rightarrow> move_value depth parent (\<lambda>v. invoke_callback void t future (ValueArg v))
      | ArgValueRef \<Rightarrow> read_value depth parent (\<lambda>v. invoke_callback void t future (ValueArg v))
      | ArgMaybe \<Rightarrow> move_value depth parent (\<lambda>v. invoke_callback void t future (MaybeArg (MaybeValue v)))
      | ArgMaybeRef \<Rightarrow> move_value depth parent (\<lambda>v. invoke_callback void t future (MaybeArg (MaybeValue v)))
      | ArgVoid \<Rightarrow> invoke_callback void t future NoArg
      | ArgMaybeVoid \<Rightarrow> invoke_callback void t future (MaybeArg MaybeVoid)
      | ArgMaybeVoidRef \<Rightarrow> invoke_callback void t future (MaybeArg MaybeVoid)
      | ArgErrorCode \<Rightarrow> Fail NotConstructed)"

text \<open>\<open>TaskCatch\<close> of a continuation; callbacks that take no error have none.\<close>

definition FutureTaskCatch_present :: "CallbackArgKind \<Rightarrow> bool" where
  "FutureTaskCatch_present argKind \<longleftrightarrow> argKind \<in> {ArgMaybe, ArgMaybeRef, ArgMaybeVoid, ArgMaybeVoidRef, ArgErrorCode}"

definition FutureTaskCatch ::
  "bool \<Rightarrow> FutureTask \<Rightarrow> CallbackArgKind \<Rightarrow> ptr \<Rightarrow> 'e error_ref \<Rightarrow> ('e, 'v, unit) prog" where
  "FutureTaskCatch void t argKind future parentError =
     read_error parentError (\<lambda>e.
       if argKind = ArgErrorCode then invoke_callback void t future (ErrorArg e)
       else if FutureTaskCatch_present argKind then invoke_callback void t future (MaybeArg (MaybeError e))
       else Fail NotConstructed)"

section \<open>Executors\<close>

text \<open>
  Posting the callback object of a future. A queue keeps it and later runs it, or cancels it when
  it is shut down; either way it lets go of the last reference.
\<close>

definition enqueue :: "nat option \<Rightarrow> ptr \<Rightarrow> 'v memory \<Rightarrow> 'v memory" where
  "enqueue q future m = m\<lparr>posted := posted m @ [(q, future)]\<rparr>"

definition Executor_Post :: "nat option \<Rightarrow> ptr \<Rightarrow> ('e, 'v, unit) prog" where
  "Executor_Post m_queue future =
     (case m_queue of
        Some q \<Rightarrow> update (enqueue (Some q) future) (Return ())
      | None \<Rightarrow> update (enqueue None future) (Return ()))"

definition Concurrent_Post :: "ptr \<Rightarrow> ('e, 'v, unit) prog" where
  "Concurrent_Post future = update (enqueue None future) (Return ())"

definition Inline_Post :: "ptr \<Rightarrow> ('e, 'v, unit) prog" where
  "Inline_Post future = call (DoCallbackInvoke future) (call (DoCallbackDestroy future) (Return ()))"

definition FutureTaskPost :: "FutureTask \<Rightarrow> ptr \<Rightarrow> ('e, 'v, unit) prog" where
  "FutureTaskPost t future =
     (case Exec t of
        Executor q \<Rightarrow> Executor_Post q future
      | Concurrent \<Rightarrow> Concurrent_Post future
      | Inline \<Rightarrow> Inline_Post future)"

definition take_posted :: "nat \<Rightarrow> (ptr \<Rightarrow> ('e, 'v, unit) prog) \<Rightarrow> ('e, 'v, unit) prog" where
  "take_posted i k = Access (\<lambda>w m.
     if i < length (posted m)
     then Returns (m\<lparr>posted := take i (posted m) @ drop (Suc i) (posted m)\<rparr>, k (snd (posted m ! i)))
     else Returns (m, Return ()))"

definition run_posted :: "nat \<Rightarrow> ('e, 'v, unit) prog" where
  "run_posted i = take_posted i (\<lambda>f. call (DoCallbackInvoke f) (call (DoCallbackDestroy f) (Return ())))"

definition cancel_posted :: "nat \<Rightarrow> ('e, 'v, unit) prog" where
  "cancel_posted i = take_posted i (\<lambda>f. call (DoCallbackOnCancel f) (call (DoCallbackDestroy f) (Return ())))"

section \<open>Cancellation tokens\<close>

definition CancellationTokenTask_Invoke :: "ptr \<Rightarrow> ('e, 'v, unit) prog" where
  "CancellationTokenTask_Invoke future = IFuture_SetValue future (BoolValue True)"

definition CancellationTokenTask_Catch :: "ptr \<Rightarrow> ('e, 'v, unit) prog" where
  "CancellationTokenTask_Catch future = IFuture_SetValue future (BoolValue False)"

section \<open>The code of a task\<close>

text \<open>
  What the traits of a future make of its callbacks. A task records whether its future has a
  value, as the templates are instantiated for its type.
\<close>

definition void_result :: "'e fworld \<Rightarrow> ptr \<Rightarrow> bool" where
  "void_result w f = (case heap w f of Some o1 \<Rightarrow> IsVoidValue (m_traits o1) | None \<Rightarrow> True)"

definition task_size :: "'e fworld \<Rightarrow> ptr \<Rightarrow> nat" where
  "task_size w f = (case heap w f of Some o1 \<Rightarrow> m_taskSize o1 | None \<Rightarrow> 0)"

definition task_invoke :: "nat \<Rightarrow> 'e fworld \<Rightarrow> 'v memory \<Rightarrow> ptr \<Rightarrow> ptr \<Rightarrow> ('e, 'v, unit) prog" where
  "task_invoke depth w m f parent =
     (case task_of m f of
        WhenAllTask OfVoid t \<Rightarrow> WhenAllVoid_Invoke (task_size w f) f parent
      | WhenAllTask (OfArray sizeofT align) t \<Rightarrow> WhenAll_Invoke sizeofT align depth (task_size w f) f parent
      | WhenAllTask OfTuple t \<Rightarrow> WhenAllTuple_Invoke depth (task_size w f) f parent
      | WhenAnyTask void \<Rightarrow> if void then WhenAnyVoid_Invoke f else WhenAny_Invoke depth f parent
      | CopyTask void \<Rightarrow> if void then CopyTaskVoid_Invoke f else CopyTask_Invoke depth f parent
      | CompletionTask void g \<Rightarrow>
          if void then FutureCompletionTaskVoid_Invoke f else FutureCompletionTask_Invoke depth f parent
      | ThenTask t argKind \<Rightarrow> FutureTaskInvoke (void_result w f) t argKind depth f parent
      | CatchTask t void \<Rightarrow> if void then MoveTaskVoid_Invoke f else MoveTask_Invoke depth f parent
      | TokenTask \<Rightarrow> CancellationTokenTask_Invoke f
      | _ \<Rightarrow> Fail NotConstructed)"

definition task_catch :: "'e fworld \<Rightarrow> 'v memory \<Rightarrow> ptr \<Rightarrow> 'e error_ref \<Rightarrow> ('e, 'v, unit) prog" where
  "task_catch w m f e =
     (case task_of m f of
        WhenAllTask kind t \<Rightarrow> WhenAllTaskCatch_Catch f e
      | WhenAnyTask void \<Rightarrow> WhenAnyTaskCatch_Catch f e
      | CopyTask void \<Rightarrow> CopyTaskCatch_Catch f e
      | CompletionTask void g \<Rightarrow> FutureCompletionTask_Catch void f e
      | ThenTask t argKind \<Rightarrow> FutureTaskCatch (void_result w f) t argKind f e
      | CatchTask t void \<Rightarrow> FutureTaskCatch void t ArgErrorCode f e
      | TokenTask \<Rightarrow> CancellationTokenTask_Catch f
      | _ \<Rightarrow> Fail NotConstructed)"

definition task_post :: "'v memory \<Rightarrow> ptr \<Rightarrow> ('e, 'v, unit) prog" where
  "task_post m f =
     (case task_of m f of
        ThenTask t argKind \<Rightarrow> FutureTaskPost t f
      | CatchTask t void \<Rightarrow> FutureTaskPost t f
      | _ \<Rightarrow> Fail NotConstructed)"

definition task_destroy :: "'e fworld \<Rightarrow> 'v memory \<Rightarrow> ptr \<Rightarrow> ('e, 'v, unit) prog" where
  "task_destroy w m f =
     (case task_of m f of
        WhenAllTask (OfArray sizeofT align) t \<Rightarrow> WhenAll_Destroy sizeofT align (task_size w f) f
      | WhenAllTask kind t \<Rightarrow> WhenAllVoid_Destroy (task_size w f) f
      | CompletionTask void g \<Rightarrow> FutureCompletionTask_Destroy void f
      | _ \<Rightarrow> update (construct_task f NoTask) (Return ()))"

definition value_destroy :: "ptr \<Rightarrow> ('e, 'v, unit) prog" where
  "value_destroy f = update (\<lambda>m. m\<lparr>slots := (slots m)(f := None)\<rparr>) (Return ())"

definition destroys_value :: "'e fworld \<Rightarrow> ptr \<Rightarrow> bool" where
  "destroys_value w f =
     (case heap w f of None \<Rightarrow> False | Some o1 \<Rightarrow> ValueDestroy (m_traits o1) \<and> fstate o1 = Succeeded)"

fun task_codes :: "nat \<Rightarrow> 'e fworld \<Rightarrow> 'v memory \<Rightarrow> 'e fwork \<Rightarrow> (ptr \<times> ('e, 'v, unit) prog) list" where
  "task_codes depth w m (DoTaskInvoke f p) = [(f, task_invoke depth w m f p)]"
| "task_codes depth w m (DoTaskCatch f e) = [(f, task_catch w m f e)]"
| "task_codes depth w m (DoTaskPost f) = [(f, task_post m f)]"
| "task_codes depth w m (DoAfterSuccess f c) = [(f, task_destroy w m f)]"
| "task_codes depth w m (DoAfterFailed f c) = [(f, task_destroy w m f)]"
| "task_codes depth w m (DoDestructRest f) =
     (if destroys_value w f then [(f, value_destroy f)] else []) @ [(f, task_destroy w m f)]"
| "task_codes depth w m _ = []"

end
