(* ===== verification/Promise.thy ===== *)
theory Promise
  imports Future_Tasks
begin

text \<open>
  The functions of promises, promise groups, typed futures, \<open>WhenAll\<close> and \<open>WhenAny\<close>, and cancellation
  tokens (\<open>libs/future/src/promise.cpp\<close>, \<open>promiseGroup.cpp\<close>, \<open>whenAll.cpp\<close>, \<open>whenAny.cpp\<close>,
  \<open>cancellationTokenImpl.cpp\<close> and the headers in \<open>include/future/details\<close>), as programs over their
  \<open>m_state\<close>, which is a counted pointer (theory \<open>Counted_Ptr\<close>) to a future or null. Where the
  argument is a \<open>Maybe\<close> that may be moved, the result has what is left of it.
\<close>

section \<open>Traits\<close>

text \<open>\<open>FutureTraitsProvider\<close>: the traits its template arguments make. \<open>valueDestroy\<close> and \<open>taskDestroy\<close>
  say whether value and task have a destructor that does something.\<close>

definition FutureTraitsProvider ::
  "FutureOptions \<Rightarrow> 32 word \<Rightarrow> bool \<Rightarrow> bool \<Rightarrow> bool \<Rightarrow> bool \<Rightarrow> bool \<Rightarrow> FutureTraits" where
  "FutureTraitsProvider options valueSize valueDestroy taskDestroy post invoke catch =
     \<lparr>Options = options, ValueSize = valueSize, ValueDestroy = valueDestroy, TaskDestroy = taskDestroy,
      TaskPost = post, TaskInvoke = invoke, TaskCatch = catch\<rparr>"

text \<open>The type \<open>T\<close> of a future: its size, zero for \<open>void\<close>, and whether it has a destructor.\<close>

record value_type =
  type_size :: "32 word"
  type_destroy :: bool

definition void_type :: value_type where
  "void_type = \<lparr>type_size = 0, type_destroy = False\<rparr>"

definition is_void :: "value_type \<Rightarrow> bool" where
  "is_void T \<longleftrightarrow> type_size T = 0"

section \<open>Promises\<close>

definition Promise_ctor :: "value_type \<Rightarrow> ('e, 'v, ptr) prog" where
  "Promise_ctor T =
     MakeFuture (FutureTraitsProvider CancelIfUnfulfilled (type_size T) (type_destroy T) False False False False)
       0 False Return"

definition PromiseVoid_ctor :: "('e, 'v, ptr) prog" where
  "PromiseVoid_ctor =
     MakeFuture (FutureTraitsProvider CancelIfUnfulfilled 0 False False False False False) 0 False Return"

definition Promise_AsFuture :: "ptr \<Rightarrow> ptr" where
  "Promise_AsFuture m_state = m_state"

definition Promise_SetValue :: "ptr \<Rightarrow> 'v fvalue \<Rightarrow> ('e, 'v, unit) prog" where
  "Promise_SetValue m_state value = verify (m_state \<noteq> 0) ''State is empty.'' (IFuture_SetValue m_state value)"

definition Promise_TrySetValue :: "ptr \<Rightarrow> 'v fvalue \<Rightarrow> ('e, 'v, bool) prog" where
  "Promise_TrySetValue m_state value = verify (m_state \<noteq> 0) ''State is empty.'' (IFuture_TrySetValue m_state value)"

definition Promise_SetError :: "ptr \<Rightarrow> 'e option \<Rightarrow> ('e, 'v, unit) prog" where
  "Promise_SetError m_state errorCode =
     verify (m_state \<noteq> 0) ''State is empty.'' (call (DoTrySetError m_state (EValue errorCode) True) (Return ()))"

definition Promise_TrySetError :: "ptr \<Rightarrow> 'e option \<Rightarrow> ('e, 'v, bool) prog" where
  "Promise_TrySetError m_state errorCode =
     verify (m_state \<noteq> 0) ''State is empty.'' (Call (DoTrySetError m_state (EValue errorCode) False) Return)"

text \<open>\<open>cancelError\<close> is \<open>CancellationErrorProvider().MakeErrorCode(true)\<close>.\<close>

definition Promise_TryCancel :: "'e \<Rightarrow> ptr \<Rightarrow> ('e, 'v, bool) prog" where
  "Promise_TryCancel cancelError m_state =
     verify (m_state \<noteq> 0) ''State is empty.'' (Call (DoTrySetError m_state (EValue (Some cancelError)) False) Return)"

definition Promise_SetMaybe :: "ptr \<Rightarrow> ('e, 'v) maybe_value \<Rightarrow> ('e, 'v, unit) prog" where
  "Promise_SetMaybe m_state value = verify (m_state \<noteq> 0) ''State is empty.''
     (case value of
        MaybeValue v \<Rightarrow> IFuture_SetValue m_state v
      | MaybeVoid \<Rightarrow> Fail NotConstructed
      | MaybeError e \<Rightarrow> call (DoTrySetError m_state (EValue e) True) (Return ()))"

definition Promise_SetMaybe_move :: "ptr \<Rightarrow> ('e, 'v) maybe_value \<Rightarrow> ('e, 'v, ('e, 'v) maybe_value) prog" where
  "Promise_SetMaybe_move m_state value = verify (m_state \<noteq> 0) ''State is empty.''
     (case value of
        MaybeValue v \<Rightarrow> bind (IFuture_SetValue m_state v) (\<lambda>_. Return (MaybeValue (leave_moved v)))
      | MaybeVoid \<Rightarrow> Fail NotConstructed
      | MaybeError e \<Rightarrow> call (DoTrySetError m_state (EValue e) True) (Return (MaybeError None)))"

definition Promise_TrySetMaybe :: "ptr \<Rightarrow> ('e, 'v) maybe_value \<Rightarrow> ('e, 'v, bool) prog" where
  "Promise_TrySetMaybe m_state value = verify (m_state \<noteq> 0) ''State is empty.''
     (case value of
        MaybeValue v \<Rightarrow> IFuture_TrySetValue m_state v
      | MaybeVoid \<Rightarrow> Fail NotConstructed
      | MaybeError e \<Rightarrow> Call (DoTrySetError m_state (EValue e) False) Return)"

definition PromiseVoid_SetValue :: "ptr \<Rightarrow> ('e, 'v, unit) prog" where
  "PromiseVoid_SetValue m_state =
     verify (m_state \<noteq> 0) ''State is empty.'' (call (DoTrySetSuccess m_state True) (Return ()))"

definition PromiseVoid_TrySetValue :: "ptr \<Rightarrow> ('e, 'v, bool) prog" where
  "PromiseVoid_TrySetValue m_state =
     verify (m_state \<noteq> 0) ''State is empty.'' (Call (DoTrySetSuccess m_state False) Return)"

definition PromiseVoid_SetMaybe :: "ptr \<Rightarrow> ('e, 'v) maybe_value \<Rightarrow> ('e, 'v, unit) prog" where
  "PromiseVoid_SetMaybe m_state value = verify (m_state \<noteq> 0) ''State is empty.''
     (case value of
        MaybeError e \<Rightarrow> call (DoTrySetError m_state (EValue e) True) (Return ())
      | _ \<Rightarrow> call (DoTrySetSuccess m_state True) (Return ()))"

definition PromiseVoid_SetMaybe_move :: "ptr \<Rightarrow> ('e, 'v) maybe_value \<Rightarrow> ('e, 'v, ('e, 'v) maybe_value) prog" where
  "PromiseVoid_SetMaybe_move m_state value = verify (m_state \<noteq> 0) ''State is empty.''
     (case value of
        MaybeError e \<Rightarrow> call (DoTrySetError m_state (EValue e) True) (Return (MaybeError None))
      | _ \<Rightarrow> call (DoTrySetSuccess m_state True) (Return value))"

definition PromiseVoid_TrySetMaybe :: "ptr \<Rightarrow> ('e, 'v) maybe_value \<Rightarrow> ('e, 'v, bool) prog" where
  "PromiseVoid_TrySetMaybe m_state value = verify (m_state \<noteq> 0) ''State is empty.''
     (case value of
        MaybeError e \<Rightarrow> Call (DoTrySetError m_state (EValue e) False) Return
      | _ \<Rightarrow> Call (DoTrySetSuccess m_state False) Return)"

definition PromiseVoid_SetError :: "ptr \<Rightarrow> 'e option \<Rightarrow> ('e, 'v, unit) prog" where
  "PromiseVoid_SetError m_state errorCode =
     verify (m_state \<noteq> 0) ''State is empty.'' (call (DoTrySetError m_state (EValue errorCode) True) (Return ()))"

definition PromiseVoid_TrySetError :: "ptr \<Rightarrow> 'e option \<Rightarrow> ('e, 'v, bool) prog" where
  "PromiseVoid_TrySetError m_state errorCode =
     verify (m_state \<noteq> 0) ''State is empty.'' (Call (DoTrySetError m_state (EValue errorCode) False) Return)"

definition PromiseVoid_TryCancel :: "'e \<Rightarrow> ptr \<Rightarrow> ('e, 'v, bool) prog" where
  "PromiseVoid_TryCancel cancelError m_state =
     verify (m_state \<noteq> 0) ''State is empty.'' (Call (DoTrySetError m_state (EValue (Some cancelError)) False) Return)"

section \<open>Promise groups\<close>

definition PromiseGroup_ctor :: "value_type \<Rightarrow> ('e, 'v, ptr) prog" where
  "PromiseGroup_ctor T =
     MakeFuture (FutureTraitsProvider (IsShared OR CancelIfUnfulfilled) (type_size T) (type_destroy T)
       False False False False) 0 False Return"

definition PromiseGroup_AddFuture :: "value_type \<Rightarrow> ptr \<Rightarrow> ('e, 'v, ptr) prog" where
  "PromiseGroup_AddFuture T m_state = verify (m_state \<noteq> 0) ''State is empty.''
     (MakeFuture (FutureTraitsProvider 0 (type_size T) (type_destroy T) False False True True) 0 False (\<lambda>promise.
        update (construct_task promise (CopyTask False))
          (call (DoAddContinuation m_state promise) (Return promise))))"

definition PromiseGroup_SetValue :: "ptr \<Rightarrow> 'v fvalue \<Rightarrow> ('e, 'v, unit) prog" where
  "PromiseGroup_SetValue m_state value = verify (m_state \<noteq> 0) ''State is empty.'' (IFuture_SetValue m_state value)"

definition PromiseGroup_TrySetValue :: "ptr \<Rightarrow> 'v fvalue \<Rightarrow> ('e, 'v, bool) prog" where
  "PromiseGroup_TrySetValue m_state value =
     verify (m_state \<noteq> 0) ''State is empty.'' (IFuture_TrySetValue m_state value)"

definition PromiseGroup_SetError :: "ptr \<Rightarrow> 'e option \<Rightarrow> ('e, 'v, unit) prog" where
  "PromiseGroup_SetError m_state errorCode =
     verify (m_state \<noteq> 0) ''State is empty.'' (call (DoTrySetError m_state (EValue errorCode) True) (Return ()))"

definition PromiseGroup_TrySetError :: "ptr \<Rightarrow> 'e option \<Rightarrow> ('e, 'v, bool) prog" where
  "PromiseGroup_TrySetError m_state errorCode =
     verify (m_state \<noteq> 0) ''State is empty.'' (Call (DoTrySetError m_state (EValue errorCode) False) Return)"

definition PromiseGroup_SetMaybe :: "ptr \<Rightarrow> ('e, 'v) maybe_value \<Rightarrow> ('e, 'v, unit) prog" where
  "PromiseGroup_SetMaybe m_state value = verify (m_state \<noteq> 0) ''State is empty.''
     (case value of
        MaybeValue v \<Rightarrow> IFuture_SetValue m_state v
      | MaybeVoid \<Rightarrow> Fail NotConstructed
      | MaybeError e \<Rightarrow> call (DoTrySetError m_state (EValue e) True) (Return ()))"

definition PromiseGroup_TrySetMaybe :: "ptr \<Rightarrow> ('e, 'v) maybe_value \<Rightarrow> ('e, 'v, bool) prog" where
  "PromiseGroup_TrySetMaybe m_state value = verify (m_state \<noteq> 0) ''State is empty.''
     (case value of
        MaybeValue v \<Rightarrow> IFuture_TrySetValue m_state v
      | MaybeVoid \<Rightarrow> Fail NotConstructed
      | MaybeError e \<Rightarrow> Call (DoTrySetError m_state (EValue e) False) Return)"

definition PromiseGroupVoid_ctor :: "('e, 'v, ptr) prog" where
  "PromiseGroupVoid_ctor =
     MakeFuture (FutureTraitsProvider (IsShared OR CancelIfUnfulfilled) 0 False False False False False) 0 False Return"

definition PromiseGroupVoid_AddFuture :: "ptr \<Rightarrow> ('e, 'v, ptr) prog" where
  "PromiseGroupVoid_AddFuture m_state = verify (m_state \<noteq> 0) ''State is empty.''
     (MakeFuture (FutureTraitsProvider 0 0 False False False True True) 0 False (\<lambda>promise.
        update (construct_task promise (CopyTask True))
          (call (DoAddContinuation m_state promise) (Return promise))))"

definition PromiseGroupVoid_SetValue :: "ptr \<Rightarrow> ('e, 'v, unit) prog" where
  "PromiseGroupVoid_SetValue m_state =
     verify (m_state \<noteq> 0) ''State is empty.'' (call (DoTrySetSuccess m_state True) (Return ()))"

definition PromiseGroupVoid_TrySetValue :: "ptr \<Rightarrow> ('e, 'v, bool) prog" where
  "PromiseGroupVoid_TrySetValue m_state =
     verify (m_state \<noteq> 0) ''State is empty.'' (Call (DoTrySetSuccess m_state False) Return)"

definition PromiseGroupVoid_SetMaybe :: "ptr \<Rightarrow> ('e, 'v) maybe_value \<Rightarrow> ('e, 'v, unit) prog" where
  "PromiseGroupVoid_SetMaybe m_state value = verify (m_state \<noteq> 0) ''State is empty.''
     (case value of
        MaybeError e \<Rightarrow> call (DoTrySetError m_state (EValue e) True) (Return ())
      | _ \<Rightarrow> call (DoTrySetSuccess m_state True) (Return ()))"

definition PromiseGroupVoid_TrySetMaybe :: "ptr \<Rightarrow> ('e, 'v) maybe_value \<Rightarrow> ('e, 'v, bool) prog" where
  "PromiseGroupVoid_TrySetMaybe m_state value = verify (m_state \<noteq> 0) ''State is empty.''
     (case value of
        MaybeError e \<Rightarrow> Call (DoTrySetError m_state (EValue e) False) Return
      | _ \<Rightarrow> Call (DoTrySetSuccess m_state False) Return)"

section \<open>Typed futures\<close>

text \<open>
  \<open>Then\<close> and \<open>Catch\<close>: a new future with the callback and its executor as its task, added to this
  one. \<open>T\<close> is the type of the result, \<open>taskSize\<close> the size of executor and callback.
\<close>

definition then_traits :: "value_type \<Rightarrow> bool \<Rightarrow> bool \<Rightarrow> FutureTraits" where
  "then_traits T taskDestroy catch =
     FutureTraitsProvider DestroyTaskAfterInvoke (type_size T) (type_destroy T) taskDestroy True True catch"

definition Future_Then ::
  "value_type \<Rightarrow> bool \<Rightarrow> nat \<Rightarrow> ptr \<Rightarrow> FutureTask \<Rightarrow> CallbackArgKind \<Rightarrow> ('e, 'v, ptr) prog" where
  "Future_Then T taskDestroy taskSize m_state t argKind = verify (m_state \<noteq> 0) ''State is empty.''
     (MakeFuture (then_traits T taskDestroy (FutureTaskCatch_present argKind)) taskSize True (\<lambda>future.
        update (construct_task future (ThenTask t argKind))
          (call (DoAddContinuation m_state future) (Return future))))"

definition Future_Catch :: "value_type \<Rightarrow> bool \<Rightarrow> nat \<Rightarrow> ptr \<Rightarrow> FutureTask \<Rightarrow> ('e, 'v, ptr) prog" where
  "Future_Catch T taskDestroy taskSize m_state t = verify (m_state \<noteq> 0) ''State is empty.''
     (MakeFuture (then_traits T taskDestroy True) taskSize True (\<lambda>future.
        update (construct_task future (CatchTask t (is_void T)))
          (call (DoAddContinuation m_state future) (Return future))))"

definition Future_Share :: "ptr \<Rightarrow> ('e, 'v, ptr) prog" where
  "Future_Share m_state = verify (m_state \<noteq> 0) ''State is empty.''
     (MakeFuture (FutureTraitsProvider (IsShared OR UseParentValue) 0 False False False False False) 0 False (\<lambda>state.
        call (DoAddContinuation m_state state) (Return state)))"

text \<open>
  A shared future puts a future of its own, with a copy of the value, between itself and each
  continuation. \<open>S\<close> is the type of the shared value.
\<close>

definition shared_copy :: "value_type \<Rightarrow> ptr \<Rightarrow> ptr \<Rightarrow> ('e, 'v, ptr) prog" where
  "shared_copy S m_state future =
     MakeFuture (FutureTraitsProvider 0 (type_size S) (type_destroy S) False False True True) 0 False (\<lambda>shared.
       update (construct_task shared (CopyTask (is_void S)))
         (call (DoAddContinuation shared future) (call (DoAddContinuation m_state shared) (Return future))))"

definition SharedFuture_Then ::
  "value_type \<Rightarrow> value_type \<Rightarrow> bool \<Rightarrow> nat \<Rightarrow> ptr \<Rightarrow> FutureTask \<Rightarrow> CallbackArgKind \<Rightarrow> ('e, 'v, ptr) prog" where
  "SharedFuture_Then S T taskDestroy taskSize m_state t argKind = verify (m_state \<noteq> 0) ''State is empty.''
     (MakeFuture (then_traits T taskDestroy (FutureTaskCatch_present argKind)) taskSize True (\<lambda>future.
        update (construct_task future (ThenTask t argKind)) (shared_copy S m_state future)))"

definition SharedFuture_Catch ::
  "value_type \<Rightarrow> value_type \<Rightarrow> bool \<Rightarrow> nat \<Rightarrow> ptr \<Rightarrow> FutureTask \<Rightarrow> ('e, 'v, ptr) prog" where
  "SharedFuture_Catch S T taskDestroy taskSize m_state t = verify (m_state \<noteq> 0) ''State is empty.''
     (MakeFuture (then_traits T taskDestroy True) taskSize True (\<lambda>future.
        update (construct_task future (CatchTask t (is_void T))) (shared_copy S m_state future)))"

definition PostFuture :: "value_type \<Rightarrow> bool \<Rightarrow> nat \<Rightarrow> FutureTask \<Rightarrow> ('e, 'v, ptr) prog" where
  "PostFuture T taskDestroy taskSize t =
     MakeFuture (then_traits T taskDestroy False) taskSize True (\<lambda>future.
       update (construct_task future (ThenTask t ArgVoid)) (call (DoPost future) (Return future)))"

definition MakeSucceededFuture :: "value_type \<Rightarrow> 'v fvalue \<Rightarrow> ('e, 'v, ptr) prog" where
  "MakeSucceededFuture T value =
     bind (Promise_ctor T) (\<lambda>promise. bind (Promise_SetValue promise value) (\<lambda>_. Return (Promise_AsFuture promise)))"

definition MakeSucceededFutureVoid :: "('e, 'v, ptr) prog" where
  "MakeSucceededFutureVoid =
     bind PromiseVoid_ctor (\<lambda>promise. bind (PromiseVoid_SetValue promise) (\<lambda>_. Return (Promise_AsFuture promise)))"

definition MakeFailedFuture :: "value_type \<Rightarrow> 'e option \<Rightarrow> ('e, 'v, ptr) prog" where
  "MakeFailedFuture T futureError =
     bind (Promise_ctor T) (\<lambda>promise. bind (Promise_SetError promise futureError) (\<lambda>_. Return (Promise_AsFuture promise)))"

section \<open>\<open>WhenAll\<close> and \<open>WhenAny\<close>\<close>

definition when_all_traits :: "32 word \<Rightarrow> FutureTraits" where
  "when_all_traits valueSize = FutureTraitsProvider IsMultiPost valueSize False True False True True"

definition new_when_all :: "ptr list \<Rightarrow> 'v WhenAllFutureTask" where
  "new_when_all futures = \<lparr>CompleteCount = 0, FutureCount = of_nat (length futures),
     ParentFutures = map RawOrCntPtr_ctor futures, ValueArray = []\<rparr>"

primrec add_to_parents :: "ptr list \<Rightarrow> ptr \<Rightarrow> ('e, 'v, 'r) prog \<Rightarrow> ('e, 'v, 'r) prog" where
  "add_to_parents [] future p = p"
| "add_to_parents (parent # parents) future p =
     call (DoAddContinuation parent future) (add_to_parents parents future p)"

definition WhenAllVoid :: "ptr list \<Rightarrow> ('e, 'v, ptr) prog" where
  "WhenAllVoid futures =
     (if futures = [] then MakeSucceededFutureVoid
      else MakeFuture (when_all_traits 0) (unat (WhenAllVoid_GetTaskSize (of_nat (length futures)))) True (\<lambda>whenAllFuture.
        update (construct_task whenAllFuture (WhenAllTask OfVoid (new_when_all futures)))
          (add_to_parents futures whenAllFuture (Return whenAllFuture))))"

text \<open>The value is an \<open>ArrayView\<close>, a pointer and a size.\<close>

definition WhenAll :: "64 word \<Rightarrow> 64 word \<Rightarrow> ptr list \<Rightarrow> ('e, 'v, ptr) prog" where
  "WhenAll sizeofT align futures =
     (if futures = []
      then MakeSucceededFuture \<lparr>type_size = 16, type_destroy = False\<rparr> (ArrayValue [])
      else MakeFuture (when_all_traits 16) (unat (WhenAll_GetTaskSize sizeofT align (of_nat (length futures)))) True
        (\<lambda>whenAllFuture.
           update (construct_task whenAllFuture (WhenAllTask (OfArray sizeofT align) (new_when_all futures)))
             (add_to_parents futures whenAllFuture (Return whenAllFuture))))"

definition WhenAllTuple :: "value_type \<Rightarrow> ptr list \<Rightarrow> ('e, 'v, ptr) prog" where
  "WhenAllTuple T futures =
     MakeFuture (FutureTraitsProvider IsMultiPost (type_size T) (type_destroy T) True False True True)
       (unat (WhenAllVoid_GetTaskSize (of_nat (length futures)))) True (\<lambda>whenAllFuture.
         update (construct_task whenAllFuture (WhenAllTask OfTuple (new_when_all futures)))
           (add_to_parents futures whenAllFuture (Return whenAllFuture)))"

definition WhenAny :: "value_type \<Rightarrow> ptr list \<Rightarrow> ('e, 'v, ptr) prog" where
  "WhenAny T futures = verify (futures \<noteq> []) ''Must have at least one parent future.''
     (MakeFuture (FutureTraitsProvider IsMultiPost (type_size T) (type_destroy T) False False True True) 0 False
       (\<lambda>whenAnyFuture. update (construct_task whenAnyFuture (WhenAnyTask False))
          (add_to_parents futures whenAnyFuture (Return whenAnyFuture))))"

definition WhenAnyVoid :: "ptr list \<Rightarrow> ('e, 'v, ptr) prog" where
  "WhenAnyVoid futures = verify (futures \<noteq> []) ''Must have at least one parent future.''
     (MakeFuture (FutureTraitsProvider IsMultiPost 0 False False False True True) 0 False
       (\<lambda>whenAnyFuture. update (construct_task whenAnyFuture (WhenAnyTask True))
          (add_to_parents futures whenAnyFuture (Return whenAnyFuture))))"

section \<open>Cancellation tokens\<close>

definition CancellationTokenSource_ctor :: "('e, 'v, ptr) prog" where
  "CancellationTokenSource_ctor =
     MakeFuture (FutureTraitsProvider CancelIfUnfulfilled 0 False True False False False) 8 True (\<lambda>m_state.
       MakeFuture (FutureTraitsProvider IsShared 1 False False False True True) 0 False (\<lambda>tokenState.
         update (construct_task tokenState TokenTask)
           (update (construct_task m_state (TokenSourceTask tokenState))
             (call (DoAddContinuation m_state tokenState) (Return m_state)))))"

definition CancellationTokenSource_GetToken :: "ptr \<Rightarrow> ('e, 'v, ptr) prog" where
  "CancellationTokenSource_GetToken m_state = verify (m_state \<noteq> 0) ''State is empty.''
     (Access (\<lambda>w m. case task_of m m_state of TokenSourceTask token \<Rightarrow> Returns (m, Return token)
        | _ \<Rightarrow> Crashes NotConstructed))"

definition CancellationTokenSource_Cancel :: "ptr \<Rightarrow> ('e, 'v, unit) prog" where
  "CancellationTokenSource_Cancel m_state =
     verify (m_state \<noteq> 0) ''State is empty.'' (call (DoTrySetSuccess m_state False) (Return ()))"

definition CancellationTokenSource_Abandon :: "'e \<Rightarrow> ptr \<Rightarrow> ('e, 'v, unit) prog" where
  "CancellationTokenSource_Abandon cancelError m_state = verify (m_state \<noteq> 0) ''State is empty.''
     (call (DoTrySetError m_state (EValue (Some cancelError)) False) (Return ()))"

definition CancellationToken_IsCanceled :: "nat \<Rightarrow> ptr \<Rightarrow> ('e, 'v, bool) prog" where
  "CancellationToken_IsCanceled depth m_state = Access (\<lambda>w m. with_future w m_state (\<lambda>o1.
     if completes (fstate o1)
     then and_then (GetValue depth w m_state) (\<lambda>q.
            case slots m q of Some (BoolValue b) \<Rightarrow> Returns (m, Return b) | _ \<Rightarrow> Crashes NotConstructed)
     else Returns (m, Return False)))"

definition CancellationToken_WhenChanged :: "ptr \<Rightarrow> ptr" where
  "CancellationToken_WhenChanged m_state = m_state"

text \<open>The callback calls the action if its argument is \<open>true\<close>.\<close>

definition CancellationToken_WhenCanceled :: "bool \<Rightarrow> nat \<Rightarrow> ptr \<Rightarrow> nat \<Rightarrow> ('e, 'v, unit) prog" where
  "CancellationToken_WhenCanceled taskDestroy taskSize m_state action =
     bind (Future_Then void_type taskDestroy taskSize (CancellationToken_WhenChanged m_state)
         \<lparr>Exec = Inline, throwing = False, Callback = action\<rparr> ArgValueRef) (\<lambda>_. Return ())"

end
