(* ===== verification/When_All.thy ===== *)
theory When_All
  imports Promise
begin

text \<open>
  The callbacks of a \<open>WhenAll\<close> future. Each parent that succeeds runs one of them, on the thread it
  is on, so they run at the same time; what they share is the task of the future. Their steps are
  interleaved here with each other and with anything else that leaves that task alone.
\<close>

section \<open>The callbacks\<close>

text \<open>What the three callbacks have in common; \<open>finish\<close> is what the last one does.\<close>

definition when_all_callback ::
  "string \<Rightarrow> (64 word \<Rightarrow> 64 word) \<Rightarrow> nat \<Rightarrow> ptr \<Rightarrow> ('e, 'v, unit) prog \<Rightarrow> ptr \<Rightarrow> ('e, 'v, unit) prog" where
  "when_all_callback msg GetTaskSize taskSize future finish parent =
     WhenAll_check msg GetTaskSize taskSize future
       (WhenAll_find future parent
         (WhenAll_count future (\<lambda>last. if last then finish else Return ())))"

lemma callbacks_alike:
  "WhenAllVoid_Invoke taskSize future = when_all_callback '''' WhenAllVoid_GetTaskSize taskSize future
     (call (DoTrySetSuccess future True) (Return ()))"
  "WhenAll_Invoke sizeofT align depth taskSize future =
     when_all_callback '''' (WhenAll_GetTaskSize sizeofT align) taskSize future
     (call (DoTryStartSetValue future True)
        (WhenAll_values depth future (\<lambda>vs.
          update (store_array future vs) (update (construct_value future (ArrayValue vs))
            (call (DoTrySetSuccess future True) (Return ()))))))"
  "WhenAllTuple_Invoke depth taskSize future =
     when_all_callback ''Wrong size'' WhenAllVoid_GetTaskSize taskSize future
     (call (DoTryStartSetValue future True)
        (WhenAll_values depth future (\<lambda>vs.
          update (construct_value future (TupleValue vs))
            (call (DoTrySetSuccess future True) (Return ())))))"
  by (simp_all add: fun_eq_iff when_all_callback_def WhenAllVoid_Invoke_def WhenAll_Invoke_def
      WhenAllTuple_Invoke_def)

text \<open>A step of one of several callbacks, or of something else.\<close>

inductive callbacks_step ::
  "ptr \<Rightarrow> 'v memory \<times> ('e, 'v, unit) prog list \<Rightarrow> 'v memory \<times> ('e, 'v, unit) prog list \<Rightarrow> bool"
  for future where
  callback: "i < length ps \<Longrightarrow> ps ! i = Access g \<Longrightarrow> g w m = Returns (m1, p) \<Longrightarrow>
     callbacks_step future (m, ps) (m1, ps[i := p])"
| other: "task_of m1 future = task_of m future \<Longrightarrow> callbacks_step future (m, ps) (m1, ps)"

inductive_cases callbacks_stepE: "callbacks_step future (m, ps) (m1, ps1)"

section \<open>Where each of them is\<close>

datatype phase = Checking | Finding | Counting | Left | Completing

fun unmarked :: "phase \<Rightarrow> bool" where
  "unmarked Checking = True"
| "unmarked Finding = True"
| "unmarked _ = False"

fun uncounted :: "phase \<Rightarrow> bool" where
  "uncounted Left = False"
| "uncounted Completing = False"
| "uncounted _ = True"

fun code_at ::
  "string \<Rightarrow> (64 word \<Rightarrow> 64 word) \<Rightarrow> nat \<Rightarrow> ptr \<Rightarrow> ('e, 'v, unit) prog \<Rightarrow> phase \<Rightarrow> ptr \<Rightarrow> ('e, 'v, unit) prog" where
  "code_at msg gts sz f fin Checking p = when_all_callback msg gts sz f fin p"
| "code_at msg gts sz f fin Finding p =
     WhenAll_find f p (WhenAll_count f (\<lambda>last. if last then fin else Return ()))"
| "code_at msg gts sz f fin Counting p = WhenAll_count f (\<lambda>last. if last then fin else Return ())"
| "code_at msg gts sz f fin Left p = Return ()"
| "code_at msg gts sz f fin Completing p = fin"

definition stored :: "phase \<Rightarrow> ptr \<Rightarrow> 64 word" where
  "stored h p = (if unmarked h then RawOrCntPtr_ctor p else drop_bit 1 p)"

definition counted :: "phase list \<Rightarrow> nat" where
  "counted hs = length (filter (\<lambda>h. \<not> uncounted h) hs)"

definition completing :: "phase list \<Rightarrow> nat" where
  "completing hs = length (filter (\<lambda>h. h = Completing) hs)"

lemma filter_update_length:
  "i < length xs \<Longrightarrow>
   length (filter P (xs[i := x])) + of_bool (P (xs ! i)) = length (filter P xs) + of_bool (P x)"
proof (induction xs arbitrary: i)
  case (Cons y ys)
  show ?case
  proof (cases i)
    case (Suc j)
    with Cons.IH [of j] Cons.prems show ?thesis by (cases "P y") auto
  qed simp
qed simp

lemma counted_le: "counted hs \<le> length hs"
  by (simp add: counted_def)

lemma counted_all: "counted hs = length hs \<longleftrightarrow> (\<forall>h \<in> set hs. \<not> uncounted h)"
proof (induction hs)
  case (Cons h hs)
  then show ?case using length_filter_le [of "\<lambda>h. \<not> uncounted h" hs]
    by (cases h) (auto simp: counted_def simp del: length_filter_le)
qed (simp add: counted_def)

lemmas drop_one [simp] = Get_drop [unfolded One_nat_def] IsRawPtr_drop [unfolded One_nat_def]

lemma stored_Get [simp]: "even p \<Longrightarrow> RawOrCntPtr_Get (stored h p) = p"
  by (simp add: stored_def)

lemma stored_raw [simp]: "RawOrCntPtr_IsRawPtr (stored h p) \<longleftrightarrow> unmarked h"
  by (simp add: stored_def)

lemma map2_update1: "map2 g (xs[i := x]) ys = (map2 g xs ys)[i := g x (ys ! i)]"
  by (induction xs arbitrary: i ys) (auto split: nat.split list.split simp: zip_Cons1 nth_Cons')

definition parents_ok :: "ptr list \<Rightarrow> bool" where
  "parents_ok parents \<longleftrightarrow> distinct parents \<and> parents \<noteq> [] \<and> length parents < 2 ^ 32
     \<and> (\<forall>p \<in> set parents. p \<noteq> 0 \<and> even p)"

lemma mark_parent_stored:
  assumes "distinct parents" and "\<forall>p \<in> set parents. p \<noteq> 0 \<and> even p"
    and "i < length parents" and "length hs = length parents"
  shows "mark_parent (parents ! i) (map2 stored hs parents)
    = ((map2 stored hs parents)[i := drop_bit 1 (parents ! i)], True,
       if unmarked (hs ! i) then Some (parents ! i) else None)"
  using assms
proof (induction parents arbitrary: i hs)
  case (Cons p ps)
  then obtain h hs' where hs: "hs = h # hs'" by (cases hs) auto
  show ?case
  proof (cases i)
    case 0
    then show ?thesis using Cons.prems hs
      by (auto simp: RawOrCntPtr_ConvertToCntPtr_def Let_def) (simp add: stored_def)
  next
    case (Suc j)
    then have "ps ! j \<noteq> p" using Cons.prems by auto
    with Suc Cons.IH [of j hs'] Cons.prems hs show ?thesis by auto
  qed
qed simp

section \<open>The invariant\<close>

definition when_all_inv ::
  "string \<Rightarrow> (64 word \<Rightarrow> 64 word) \<Rightarrow> nat \<Rightarrow> ptr \<Rightarrow> ('e, 'v, unit) prog \<Rightarrow> ptr list \<Rightarrow> phase list
     \<Rightarrow> 'v memory \<times> ('e, 'v, unit) prog list \<Rightarrow> bool" where
  "when_all_inv msg gts sz f fin parents hs s \<longleftrightarrow>
     length hs = length parents \<and> snd s = map2 (code_at msg gts sz f fin) hs parents
     \<and> completing hs = of_bool (counted hs = length parents)
     \<and> (\<exists>kind t. task_of (fst s) f = WhenAllTask kind t \<and> FutureCount t = of_nat (length parents)
          \<and> CompleteCount t = of_nat (counted hs) \<and> ParentFutures t = map2 stored hs parents)"

lemma when_all_inv_initial:
  assumes "parents_ok parents" and "task_of m f = WhenAllTask kind (new_when_all parents)"
  shows "when_all_inv msg gts sz f fin parents (replicate (length parents) Checking)
    (m, map (when_all_callback msg gts sz f fin) parents)"
proof -
  have r: "map2 g (replicate (length ps) h) ps = map (g h) ps" for g :: "phase \<Rightarrow> ptr \<Rightarrow> 'x" and h and ps :: "ptr list"
    by (induction ps) auto
  have c: "map2 (code_at msg gts sz f fin) (replicate (length parents) Checking) parents
      = map (when_all_callback msg gts sz f fin) parents"
    unfolding r by simp
  have "map2 stored (replicate (length parents) Checking) parents = map RawOrCntPtr_ctor parents"
    unfolding r by (simp add: stored_def)
  with c show ?thesis
    using assms by (auto simp: when_all_inv_def parents_ok_def new_when_all_def counted_def completing_def)
qed

lemma unat_32: "n < 2 ^ 32 \<Longrightarrow> unat (of_nat n :: 32 word) = n"
  by (simp add: unat_of_nat take_bit_nat_eq_self)

lemma of_nat_32: "n < 2 ^ 32 \<Longrightarrow> m < 2 ^ 32 \<Longrightarrow> (of_nat n :: 32 word) = of_nat m \<longleftrightarrow> n = m"
  by (metis unat_32)

lemma phase_counts:
  assumes "i < length hs"
  shows "counted (hs[i := h]) + of_bool (\<not> uncounted (hs ! i)) = counted hs + of_bool (\<not> uncounted h)"
    and "completing (hs[i := h]) + of_bool (hs ! i = Completing) = completing hs + of_bool (h = Completing)"
  unfolding counted_def completing_def by (rule filter_update_length [OF assms])+

text \<open>The size of the task is the one it was made with.\<close>

definition right_size :: "(64 word \<Rightarrow> 64 word) \<Rightarrow> nat \<Rightarrow> ptr list \<Rightarrow> bool" where
  "right_size gts sz parents \<longleftrightarrow> sz = unat (gts (ucast (of_nat (length parents) :: 32 word)))"

lemma map2_nth: "i < length xs \<Longrightarrow> length xs = length ys \<Longrightarrow> map2 g xs ys ! i = g (xs ! i) (ys ! i)"
  by simp

lemma stored_kept:
  assumes "i < length parents" and "length hs = length parents" and "unmarked h = unmarked (hs ! i)"
  shows "(map2 stored hs parents)[i := stored h (parents ! i)] = map2 stored hs parents"
proof -
  have "stored h (parents ! i) = map2 stored hs parents ! i"
    using assms map2_nth [of i hs parents stored] by (simp add: stored_def)
  then show ?thesis by (metis list_update_id)
qed

lemma inv_moves:
  assumes "length hs = length parents" and "i < length parents"
    and "completing (hs[i := h]) = of_bool (counted (hs[i := h]) = length parents)"
    and "task_of m f = WhenAllTask kind t" and "FutureCount t = of_nat (length parents)"
    and "CompleteCount t = of_nat (counted (hs[i := h]))"
    and "ParentFutures t = (map2 stored hs parents)[i := stored h (parents ! i)]"
  shows "when_all_inv msg gts sz f fin parents (hs[i := h])
    (m, (map2 (code_at msg gts sz f fin) hs parents)[i := code_at msg gts sz f fin h (parents ! i)])"
  using assms by (simp add: when_all_inv_def map2_update1)

lemma when_all_inv_step:
  assumes inv: "when_all_inv msg gts sz f fin parents hs s" and step: "callbacks_step f s s'"
    and ok: "parents_ok parents" and sz: "right_size gts sz parents" and fin: "\<And>g. fin \<noteq> Access g"
  shows "\<exists>hs'. when_all_inv msg gts sz f fin parents hs' s'"
  using step
proof cases
  case (other m1 m ps)
  then show ?thesis using inv by (auto simp: when_all_inv_def)
next
  case (callback i ps g w m m1 p)
  let ?c = "code_at msg gts sz f fin"
  obtain kind t where len: "length hs = length parents" and ps: "ps = map2 ?c hs parents"
    and one: "completing hs = of_bool (counted hs = length parents)"
    and t: "task_of m f = WhenAllTask kind t" "FutureCount t = of_nat (length parents)"
      "CompleteCount t = of_nat (counted hs)" "ParentFutures t = map2 stored hs parents"
    using inv callback(1) by (auto simp: when_all_inv_def)
  have i: "i < length parents" using callback(3) ps len by simp
  have g: "?c (hs ! i) (parents ! i) = Access g"
    using callback(4) ps len i by simp
  note counts = phase_counts [of i hs, unfolded len, OF i]
  have mp: "mark_parent (parents ! i) (map2 stored hs parents)
      = ((map2 stored hs parents)[i := drop_bit 1 (parents ! i)], True,
         if unmarked (hs ! i) then Some (parents ! i) else None)"
    using mark_parent_stored [of parents i hs] ok i len by (simp add: parents_ok_def)
  show ?thesis
  proof (cases "hs ! i")
    case Checking
    have m: "m1 = m" "p = ?c Finding (parents ! i)"
      using g callback(5) t sz
      by (auto simp: Checking when_all_callback_def WhenAll_check_def with_when_all_def verify_def right_size_def)
    show ?thesis
      using stored_kept [OF i len, of Finding] inv_moves [OF len i, of Finding m f kind t] counts [of Finding] Checking one t
      unfolding callback(2) m ps by fastforce
  next
    case Finding
    let ?t = "t\<lparr>ParentFutures := (map2 stored hs parents)[i := drop_bit 1 (parents ! i)]\<rparr>"
    have p: "p = ?c Counting (parents ! i)" and m1: "task_of m1 f = WhenAllTask kind ?t"
      using g callback(5) t mp
      by (auto simp: Finding WhenAll_find_def with_when_all_def verify_def construct_task_def change_refs_def
          split: option.splits)
    show ?thesis
      using inv_moves [OF len i, of Counting m1 f kind ?t] counts [of Counting] Finding one t m1
      unfolding callback(2) p ps by (fastforce simp: stored_def)
  next
    case Counting
    let ?last = "Suc (counted hs) = length parents"
    let ?h = "if ?last then Completing else Left"
    let ?t = "t\<lparr>CompleteCount := of_nat (Suc (counted hs))\<rparr>"
    have "counted hs < length parents"
      using counts(1) [of Left] counted_le [of "hs[i := Left]"] Counting len by simp
    then have "(of_nat (Suc (counted hs)) :: 32 word) = of_nat (length parents) \<longleftrightarrow> ?last"
      using ok by (intro of_nat_32) (auto simp: parents_ok_def)
    then have p: "p = ?c ?h (parents ! i)" and m1: "task_of m1 f = WhenAllTask kind ?t"
      using g callback(5) t
      by (auto simp: Counting WhenAll_count_def with_when_all_def construct_task_def Let_def add.commute)
    have c: "counted (hs[i := ?h]) = Suc (counted hs)" "completing (hs[i := ?h]) = of_bool ?last"
      using counts [of ?h] Counting one \<open>counted hs < length parents\<close> by (auto split: if_splits)
    show ?thesis
      using stored_kept [OF i len, of ?h] Counting inv_moves [OF len i, of ?h m1 f kind ?t] c t m1 unfolding callback(2) p ps by fastforce
  qed (use g fin in auto)
qed

lemma when_all_inv_steps:
  assumes "(callbacks_step f)\<^sup>*\<^sup>* s s'" and "when_all_inv msg gts sz f fin parents hs s"
    and "parents_ok parents" and "right_size gts sz parents" and "\<And>g. fin \<noteq> Access g"
  shows "\<exists>hs'. when_all_inv msg gts sz f fin parents hs' s'"
  using assms(1)
proof induction
  case base
  then show ?case using assms(2) by blast
next
  case (step s s')
  then obtain hs where "when_all_inv msg gts sz f fin parents hs s" by blast
  then show ?case by (rule when_all_inv_step [OF _ step(2) assms(3-5)])
qed

section \<open>What the callbacks do together\<close>

fun when_all_message :: "when_all_kind \<Rightarrow> string" where
  "when_all_message OfTuple = ''Wrong size''"
| "when_all_message _ = ''''"

fun when_all_size :: "when_all_kind \<Rightarrow> 64 word \<Rightarrow> 64 word" where
  "when_all_size OfVoid = WhenAllVoid_GetTaskSize"
| "when_all_size (OfArray sizeofT align) = WhenAll_GetTaskSize sizeofT align"
| "when_all_size OfTuple = WhenAllVoid_GetTaskSize"

fun when_all_invoke :: "when_all_kind \<Rightarrow> nat \<Rightarrow> nat \<Rightarrow> ptr \<Rightarrow> ptr \<Rightarrow> ('e, 'v, unit) prog" where
  "when_all_invoke OfVoid depth taskSize future = WhenAllVoid_Invoke taskSize future"
| "when_all_invoke (OfArray sizeofT align) depth taskSize future = WhenAll_Invoke sizeofT align depth taskSize future"
| "when_all_invoke OfTuple depth taskSize future = WhenAllTuple_Invoke depth taskSize future"

text \<open>Completing the future: at once, or with the values of the parents.\<close>

fun when_all_finish :: "when_all_kind \<Rightarrow> nat \<Rightarrow> ptr \<Rightarrow> ('e, 'v, unit) prog" where
  "when_all_finish OfVoid depth future = call (DoTrySetSuccess future True) (Return ())"
| "when_all_finish (OfArray sizeofT align) depth future =
     call (DoTryStartSetValue future True)
        (WhenAll_values depth future (\<lambda>vs.
          update (store_array future vs) (update (construct_value future (ArrayValue vs))
            (call (DoTrySetSuccess future True) (Return ())))))"
| "when_all_finish OfTuple depth future =
     call (DoTryStartSetValue future True)
        (WhenAll_values depth future (\<lambda>vs.
          update (construct_value future (TupleValue vs))
            (call (DoTrySetSuccess future True) (Return ()))))"

lemma when_all_invoke_callback:
  "when_all_invoke kind depth taskSize future
     = when_all_callback (when_all_message kind) (when_all_size kind) taskSize future (when_all_finish kind depth future)"
  by (cases kind) (simp_all add: callbacks_alike)

lemma when_all_finish_calls [simp]:
  "when_all_finish kind depth future \<noteq> Access g" "when_all_finish kind depth future \<noteq> Return ()"
  "when_all_finish kind depth future \<noteq> Fail r"
  by (cases kind; simp add: call_def)+

text \<open>How many of the callbacks are about to complete the future.\<close>

definition completers :: "('e, 'v, unit) prog \<Rightarrow> ('e, 'v, unit) prog list \<Rightarrow> nat" where
  "completers fin ps = length (filter (\<lambda>p. p = fin) ps)"

lemma code_at_completing:
  assumes "\<And>g. fin \<noteq> Access g" and "fin \<noteq> Return ()"
  shows "code_at msg gts sz f fin h p = fin \<longleftrightarrow> h = Completing"
  using assms(2) assms(1) [symmetric]
  by (cases h) (auto simp: when_all_callback_def WhenAll_check_def WhenAll_find_def WhenAll_count_def with_when_all_def)

lemma code_at_counted:
  assumes "\<And>g. fin \<noteq> Access g"
  shows "(\<exists>g. code_at msg gts sz f fin h p = Access g) \<longleftrightarrow> uncounted h"
  using assms
  by (cases h) (auto simp: when_all_callback_def WhenAll_check_def WhenAll_find_def WhenAll_count_def with_when_all_def)

lemma completers_phases:
  assumes "\<And>g. fin \<noteq> Access g" and "fin \<noteq> Return ()" and "length hs = length parents"
  shows "completers fin (map2 (code_at msg gts sz f fin) hs parents) = completing hs"
  using assms(3)
proof (induction hs arbitrary: parents)
  case (Cons h hs)
  then show ?case using code_at_completing [OF assms(1,2)]
    by (cases parents) (auto simp: completers_def completing_def)
qed (simp add: completers_def completing_def)

lemma callbacks_go_on:
  assumes inv: "when_all_inv msg gts sz f fin parents hs (m, ps)" and ok: "parents_ok parents"
    and sz: "right_size gts sz parents" and fin: "\<And>r. fin \<noteq> Fail r" and p: "p \<in> set ps"
  shows "p = fin \<or> p = Return () \<or> (\<exists>g. p = Access g \<and> (\<forall>w. \<exists>m2 q. g w m = Returns (m2, q) \<and> (\<forall>r. q \<noteq> Fail r)))"
proof -
  obtain kind t where len: "length hs = length parents" and ps: "ps = map2 (code_at msg gts sz f fin) hs parents"
    and t: "task_of m f = WhenAllTask kind t" "FutureCount t = of_nat (length parents)"
      "ParentFutures t = map2 stored hs parents"
    using inv by (auto simp: when_all_inv_def)
  obtain i where i: "i < length parents" and "ps ! i = p"
    using p ps len by (auto simp: in_set_conv_nth)
  then have p: "p = code_at msg gts sz f fin (hs ! i) (parents ! i)" using ps len by simp
  have mp: "fst (snd (mark_parent (parents ! i) (map2 stored hs parents)))"
    using mark_parent_stored [of parents i hs] ok i len by (simp add: parents_ok_def)
  show ?thesis
  proof (cases "hs ! i")
    case Checking
    then show ?thesis using p t sz
      by (simp add: when_all_callback_def WhenAll_check_def with_when_all_def verify_def right_size_def WhenAll_find_def)
  next
    case Finding
    then show ?thesis using p t mp
      by (auto simp: WhenAll_find_def with_when_all_def verify_def WhenAll_count_def split: prod.splits)
  next
    case Counting
    then show ?thesis using p t fin by (simp add: WhenAll_count_def with_when_all_def Let_def)
  qed (use p in auto)
qed

lemma completers_done:
  assumes inv: "when_all_inv msg gts sz f fin parents hs (m, ps)" and fin: "\<And>g. fin \<noteq> Access g" "fin \<noteq> Return ()"
  shows "completers fin ps = of_bool (\<forall>p \<in> set ps. \<forall>g. p \<noteq> Access g)"
proof -
  have len: "length hs = length parents" and ps: "ps = map2 (code_at msg gts sz f fin) hs parents"
    and one: "completing hs = of_bool (counted hs = length parents)"
    using inv by (auto simp: when_all_inv_def)
  have "(\<forall>p \<in> set ps. \<forall>g. p \<noteq> Access g) \<longleftrightarrow> (\<forall>i < length parents. \<not> uncounted (hs ! i))"
    unfolding ps set_conv_nth using len code_at_counted [OF fin(1)] by fastforce
  also have "\<dots> \<longleftrightarrow> counted hs = length parents"
    unfolding len [symmetric] counted_all by (simp add: all_set_conv_all_nth)
  finally show ?thesis
    using completers_phases [OF fin len, of msg gts sz f] one by (simp add: ps)
qed

lemma parents_held:
  assumes inv: "when_all_inv msg gts sz f fin parents hs (m, ps)" and ok: "parents_ok parents"
    and "counted hs = length parents"
  shows "\<exists>kind t. task_of m f = WhenAllTask kind t \<and> map RawOrCntPtr_Get (ParentFutures t) = parents
    \<and> (\<forall>x \<in> set (ParentFutures t). \<not> RawOrCntPtr_IsRawPtr x)"
proof -
  obtain kind t where len: "length hs = length parents"
    and t: "task_of m f = WhenAllTask kind t" "ParentFutures t = map2 stored hs parents"
    using inv by (auto simp: when_all_inv_def)
  have all: "\<not> uncounted h" if "h \<in> set hs" for h
    using assms(3) that unfolding len [symmetric] counted_all by blast
  have "map RawOrCntPtr_Get (ParentFutures t) = parents"
    using t(2) len ok by (intro nth_equalityI) (auto simp: parents_ok_def)
  moreover have "\<not> RawOrCntPtr_IsRawPtr x" if x: "x \<in> set (ParentFutures t)" for x
  proof -
    obtain h p where "h \<in> set hs" and "x = stored h p"
      using x t(2) by (auto dest: set_zip_leftD)
    with all [of h] show ?thesis by (cases h) auto
  qed
  ultimately show ?thesis using t(1) by blast
qed

text \<open>
  C9: The callbacks of the parents of a \<open>WhenAll\<close> future, for any number of different parents and
  in any order of their steps on any threads, never fail, and exactly one of them completes the
  future: none before all of them have counted their parent, and one once they all have. By
  then the future holds a reference to each of its parents, in their order.
\<close>

theorem when_all_completes_once:
  fixes ps :: "('e, 'v, unit) prog list"
  assumes "parents_ok parents" and "task_of m f = WhenAllTask kind (new_when_all parents)"
    and "right_size (when_all_size kind) taskSize parents"
    and "(callbacks_step f)\<^sup>*\<^sup>* (m, map (when_all_invoke kind depth taskSize f) parents) (m1, ps)"
  shows "completers (when_all_finish kind depth f) ps = of_bool (\<forall>p \<in> set ps. \<forall>g. p \<noteq> Access g)
    \<and> (completers (when_all_finish kind depth f) ps = 1 \<longrightarrow>
        (\<exists>kind t. task_of m1 f = WhenAllTask kind t \<and> map RawOrCntPtr_Get (ParentFutures t) = parents
          \<and> (\<forall>x \<in> set (ParentFutures t). \<not> RawOrCntPtr_IsRawPtr x)))
    \<and> (\<forall>p \<in> set ps. p = when_all_finish kind depth f \<or> p = Return ()
        \<or> (\<exists>g. p = Access g \<and> (\<forall>w. \<exists>m2 q. g w m1 = Returns (m2, q) \<and> (\<forall>r. q \<noteq> Fail r))))"
proof -
  let ?fin = "when_all_finish kind depth f :: ('e, 'v, unit) prog"
  obtain hs where inv: "when_all_inv (when_all_message kind) (when_all_size kind) taskSize f ?fin parents hs (m1, ps)"
    using when_all_inv_steps [OF assms(4) _ assms(1,3)] when_all_inv_initial [OF assms(1,2)]
    by (fastforce simp: when_all_invoke_callback)
  have "counted hs = length parents" if "completers ?fin ps = 1"
  proof (rule ccontr)
    assume "counted hs \<noteq> length parents"
    then have "completing hs = 0" and "length hs = length parents"
      and "ps = map2 (code_at (when_all_message kind) (when_all_size kind) taskSize f ?fin) hs parents"
      using inv by (auto simp: when_all_inv_def)
    with that completers_phases [of ?fin hs parents] show False by simp
  qed
  with completers_done [OF inv] parents_held [OF inv assms(1)] callbacks_go_on [OF inv assms(1,3)]
  show ?thesis by (intro conjI ballI impI) (blast | simp)+
qed


text \<open>Two parents, whose callbacks take turns.\<close>

fun turns :: "nat list \<Rightarrow> 'e fworld \<Rightarrow> 'v memory \<times> ('e, 'v, unit) prog list
     \<Rightarrow> ('v memory \<times> ('e, 'v, unit) prog list) option" where
  "turns [] w s = Some s"
| "turns (i # is) w (m, ps) =
     (if i < length ps
      then case ps ! i of
             Access g \<Rightarrow> (case g w m of Returns (m1, p) \<Rightarrow> turns is w (m1, ps[i := p]) | _ \<Rightarrow> None)
           | _ \<Rightarrow> None
      else None)"

lemma turns_steps: "turns is w s = Some s' \<Longrightarrow> (callbacks_step f)\<^sup>*\<^sup>* s s'"
proof (induction "is" w s rule: turns.induct)
  case (2 i "is" w m ps)
  then obtain g m1 p where "i < length ps" "ps ! i = Access g" "g w m = Returns (m1, p)"
    and "turns is w (m1, ps[i := p]) = Some s'"
    by (auto split: if_splits prog.splits outcome.splits)
  with 2(1) [OF _ _ _ refl, of g m1 p] show ?case by (meson callbacks_step.callback converse_rtranclp_into_rtranclp)
qed simp

definition two_parents :: "nat memory" where
  "two_parents = construct_task 24 (WhenAllTask OfVoid (new_when_all [8, 16])) empty_memory"

lemma two_parents_turns:
  "\<exists>m1. turns [0, 1, 0, 1, 1, 0] (initial_fworld :: nat fworld) (two_parents, map (when_all_invoke OfVoid 1 24 24) [8, 16])
     = Some (m1, [when_all_finish OfVoid 1 24, Return ()])"
  by (simp add: two_parents_def construct_task_def new_when_all_def WhenAllVoid_Invoke_def WhenAll_check_def
      WhenAll_find_def WhenAll_count_def with_when_all_def verify_def WhenAllVoid_GetTaskSize_def
      WhenAllFutureTask_size_def RawOrCntPtr_ConvertToCntPtr_def change_refs_def Let_def)

theorem when_all_completes_once_witness:
  "\<exists>m1 (ps :: (nat, nat, unit) prog list). (callbacks_step 24)\<^sup>*\<^sup>* (two_parents, map (when_all_invoke OfVoid 1 24 24) [8, 16]) (m1, ps)
     \<and> completers (when_all_finish OfVoid 1 24) ps = 1"
proof -
  obtain m1 where run: "(callbacks_step 24)\<^sup>*\<^sup>* (two_parents, map (when_all_invoke OfVoid 1 24 24) [8, 16])
      (m1, [when_all_finish OfVoid 1 24, Return () :: (nat, nat, unit) prog])"
    using two_parents_turns turns_steps by blast
  have "completers (when_all_finish OfVoid 1 24) [when_all_finish OfVoid 1 24, Return () :: (nat, nat, unit) prog] = 1"
    using when_all_completes_once [OF _ _ _ run]
    by (simp add: two_parents_def construct_task_def parents_ok_def right_size_def WhenAllVoid_GetTaskSize_def
        WhenAllFutureTask_size_def call_def)
  with run show ?thesis by blast
qed

end
