(* ===== verification/Program_Runs.thy ===== *)
theory Program_Runs
  imports When_All Future_Guarantees
begin

text \<open>
  Runs of programs: one thread on its own, step by step, and what a promise with a continuation
  does from the call that sets the promise until the thread is idle again.
\<close>

section \<open>One thread on its own\<close>

text \<open>
  The steps a thread takes when it goes on with its topmost frame: \<open>ans\<close> are the answers of the
  client's callbacks, \<open>fresh\<close> the addresses of the futures it makes.
\<close>

fun move :: "('e, 'v) client \<Rightarrow> (nat \<Rightarrow> ('e, 'v) arg \<Rightarrow> ('e, 'v) ret) \<Rightarrow> thread_id \<Rightarrow> ptr
     \<Rightarrow> ('e, 'v) pworld \<Rightarrow> ('e, 'v) frame list \<Rightarrow> ('e, 'v) pworld option" where
  "move cl ans tid f W [] = None"
| "move cl ans tid f W (Lib x # xs) =
     (case exec_fwork (cancelled cl) tid x (base W) of
        Returns (new, w1) \<Rightarrow> Some (put tid (attach new (codes cl (base W) (memory W) x) @ xs)
          (set_stack tid (new @ tl (fstack (base W) tid)) w1) (memory W) W)
      | _ \<Rightarrow> None)"
| "move cl ans tid f W (Run o1 (Return r) # xs) = Some (put tid xs (popped o1 tid (base W)) (memory W) W)"
| "move cl ans tid f W (Run o1 (Fail r) # xs) = None"
| "move cl ans tid f W (Run o1 (Call c k) # xs) =
     (if client_call c \<and> \<not> makes_future c \<and> may_call cl o1 (base W) c
      then case exec_fwork (cancelled cl) tid c (base W) of
             Returns (new, w1) \<Rightarrow>
               if waits c new then None
               else Some (put tid (attach new [] @ Run o1 (k (call_result c (base W) w1)) # xs)
                      (set_stack tid (new @ fstack (base W) tid) w1) (memory W) W)
           | _ \<Rightarrow> None
      else None)"
| "move cl ans tid f W (Run o1 (MakeFuture t sz b k) # xs) =
     (if new_address (base W) f \<and> may_call cl o1 (base W) (DoMakeFuture f t sz b)
      then case exec_fwork (cancelled cl) tid (DoMakeFuture f t sz b) (base W) of
             Returns (new, w1) \<Rightarrow>
               Some (put tid (Run o1 (k f) # xs) (set_stack tid (new @ fstack (base W) tid) w1) (memory W) W)
           | _ \<Rightarrow> None
      else None)"
| "move cl ans tid f W (Run o1 (Access g) # xs) =
     (case g (base W) (memory W) of
        Returns (m1, p) \<Rightarrow> Some (put tid (Run o1 p # xs) (base W) m1 W)
      | _ \<Rightarrow> None)"
| "move cl ans tid f W (Run o1 (Ask i a k) # xs) =
     (if answers cl i a (ans i a)
      then Some (put tid (Run o1 (k (ans i a)) # xs) (base W) (memory W) W) else None)"

text \<open>One step for each element of the list, the address of the future it makes if it makes one.\<close>

fun moves :: "('e, 'v) client \<Rightarrow> (nat \<Rightarrow> ('e, 'v) arg \<Rightarrow> ('e, 'v) ret) \<Rightarrow> thread_id \<Rightarrow> ptr list
     \<Rightarrow> ('e, 'v) pworld \<Rightarrow> ('e, 'v) pworld option" where
  "moves cl ans tid [] W = Some W"
| "moves cl ans tid (f # fs) W = Option.bind (move cl ans tid f W (frames W tid)) (moves cl ans tid fs)"

lemma move_step:
  assumes "tid < n" and "frames W tid = fr" and "move cl ans tid f W fr = Some W'"
  shows "prog_step cl n W W'"
proof -
  have mv: "move cl ans tid f W (frames W tid) = Some W'" using assms(2,3) by simp
  show ?thesis
  proof (cases "(cl, ans, tid, f, W, frames W tid)" rule: move.cases)
    case (2 cl' ans' tid' f' W'' x xs)
    then show ?thesis using mv prog_step.lib [OF assms(1), of W x xs cl] by (auto split: outcome.splits)
  next
    case (3 cl' ans' tid' f' W'' o1 r xs)
    then show ?thesis using mv prog_step.return [OF assms(1), of W o1 xs cl] by auto
  next
    case (5 cl' ans' tid' f' W'' o1 c k xs)
    then show ?thesis using mv prog_step.call [OF assms(1), of W o1 c k xs cl]
      by (auto split: outcome.splits if_splits)
  next
    case (6 cl' ans' tid' f' W'' o1 t sz b k xs)
    then show ?thesis using mv prog_step.make [OF assms(1), of W o1 t sz b k xs f cl]
      by (auto split: outcome.splits if_splits)
  next
    case (7 cl' ans' tid' f' W'' o1 g xs)
    then show ?thesis using mv prog_step.access [OF assms(1), of W o1 g xs _ _ cl]
      by (auto split: outcome.splits)
  next
    case (8 cl' ans' tid' f' W'' o1 i a k xs)
    then show ?thesis using mv prog_step.ask [OF assms(1), of W o1 i a k xs cl "ans i a"]
      by (auto split: if_splits)
  qed (use mv in auto)
qed

lemma moves_steps: "moves cl ans tid fs W = Some W' \<Longrightarrow> tid < n \<Longrightarrow> (prog_step cl n)\<^sup>*\<^sup>* W W'"
proof (induction fs arbitrary: W)
  case (Cons f fs)
  then show ?case
    using move_step [of tid n W "frames W tid" cl ans f]
    by (auto simp: bind_eq_Some_conv intro: converse_rtranclp_into_rtranclp)
qed simp

lemma prog_reachable_steps:
  assumes "(prog_step cl n)\<^sup>*\<^sup>* W W'" and "prog_reachable cl n W"
  shows "prog_reachable cl n W'"
  using assms by induction (auto intro: prog_reachable.step)

section \<open>Every run of the library is a run of futures\<close>

lemma fut_reachable_mono:
  assumes "fut_reachable allowed c n w" and "\<And>w x. allowed w x \<Longrightarrow> allowed' w x"
  shows "fut_reachable allowed' c n w"
  using assms(1)
proof induction
  case (step w w')
  from step(2) have "fut_step allowed' c n w w'"
    by cases (auto intro: fut_step.intros assms(2))
  with step(3) show ?case by (rule fut_reachable.step)
qed (rule fut_reachable.initial)

text \<open>
  Whatever programs clients run on any number of threads, with the library's own callbacks as
  the tasks of their futures, the futures go through a run of \<open>Future_System\<close>. So each future
  they make completes once when it is done, and the task of one that is not multi-post is called
  at most once.
\<close>

theorem programs_refine_futures:
  assumes "prog_reachable (cl\<lparr>codes := task_codes depth\<rparr>) n W"
  shows "fut_reachable makes_fresh (cancelled cl) n (base W)
    \<and> completions f (flog (base W)) = of_bool (is_done (base W) f)
    \<and> (\<not> multi_post (base W) f \<longrightarrow> task_calls f (flog (base W)) \<le> 1)"
proof -
  have "fut_reachable (someone_may (cl\<lparr>codes := task_codes depth\<rparr>)) (cancelled cl) n (base W)"
    using prog_refines [OF assms] by simp
  then have r: "fut_reachable makes_fresh (cancelled cl) n (base W)"
  proof (rule fut_reachable_mono)
    show "makes_fresh w x" if "someone_may (cl\<lparr>codes := task_codes depth\<rparr>) w x" for w x
      using that by (cases x) (auto simp: someone_may_def new_address_def)
  qed
  have fresh: "allocates_fresh makes_fresh" by (simp add: allocates_fresh_def)
  have once: "completions f (flog (base W)) = of_bool (is_done (base W) f)"
    using once_inv_reachable [OF r fresh] by (simp add: once_inv_def)
  have "task_calls f (flog (base W)) \<le> 1" if "\<not> multi_post (base W) f"
  proof -
    have "task_calls f (flog (base W)) + (\<Sum>u<n. due_calls f (fstack (base W) u)) \<le> of_bool (was_invoking (base W) f)"
      using once_inv_reachable [OF r fresh] that by (simp add: once_inv_def)
    then show ?thesis by (cases "was_invoking (base W) f") auto
  qed
  with r once show ?thesis by blast
qed

text \<open>A client that makes a promise and sets it.\<close>

definition any_client :: "(nat, nat) client" where
  "any_client = \<lparr>may_call = (\<lambda>_ _ _. True), codes = task_codes 1, answers = (\<lambda>_ _ _. True), api = UNIV,
     cancelled = 0\<rparr>"

definition start_program :: "('e, 'v, unit) prog \<Rightarrow> ('e, 'v) pworld" where
  "start_program p = initial_pworld\<lparr>frames := (\<lambda>_. [])(0 := [Run User p])\<rparr>"

lemma start_reachable:
  assumes "p \<in> api cl" and "0 < n"
  shows "prog_reachable cl n (start_program p)"
proof -
  have "prog_step cl n initial_pworld (start_program p)"
    using prog_step.start [of 0 n initial_pworld p cl] assms
    by (simp add: start_program_def put_def initial_pworld_def)
  then show ?thesis by (blast intro: prog_reachable.intros)
qed

definition set_a_promise :: "(nat, nat, unit) prog" where
  "set_a_promise = bind PromiseVoid_ctor PromiseVoid_SetValue"

lemma aligned_8 [simp]: "aligned 8"
  by (simp add: aligned_def ContinuationMask_def StateMask_def)

lemmas promise_defs = PromiseVoid_ctor_def PromiseVoid_SetValue_def FutureTraitsProvider_def verify_def call_def

lemmas move_defs = Let_def exec_defs FutureImpl_new_def fstate_def fcont_def fun_upd_twist initial_fworld_def
  initial_pworld_def fun_upd_idem deliverable_def put_def set_stack_def popped_def call_result_def waits_def
  new_address_def is_done_def state_at_def exec_TryStartSetValue_def exec_TrySetError_def exec_SetError_def
  exec_SetFailed_def exec_AfterFailed_def exec_TrySetPosted_def with_callback_def exec_CallbackInvoke_def
  exec_CallbackDestroy_def exec_StartAwaiting_def

lemma set_a_promise_runs:
  "\<exists>W. moves any_client (\<lambda>_ _. ReturnVoid) 0 [8, 0, 0, 0, 0, 0] (start_program set_a_promise) = Some W
     \<and> is_done (base W) 8"
  by (simp add: set_a_promise_def start_program_def promise_defs move_defs any_client_def)

lemma any_client_codes: "any_client = any_client\<lparr>codes := task_codes 1\<rparr>"
  by (simp add: any_client_def)

theorem programs_refine_futures_witness:
  "\<exists>W. prog_reachable any_client 1 W \<and> is_done (base W) 8 \<and> completions 8 (flog (base W)) = 1"
proof -
  obtain W where mv: "moves any_client (\<lambda>_ _. ReturnVoid) 0 [8, 0, 0, 0, 0, 0] (start_program set_a_promise) = Some W"
    and d: "is_done (base W) 8"
    using set_a_promise_runs by blast
  have "(prog_step any_client 1)\<^sup>*\<^sup>* (start_program set_a_promise) W" by (rule moves_steps [OF mv]) simp
  moreover have "prog_reachable any_client 1 (start_program set_a_promise)"
    by (rule start_reachable) (simp_all add: any_client_def)
  ultimately have r: "prog_reachable any_client 1 W" by (rule prog_reachable_steps)
  then have "prog_reachable (any_client\<lparr>codes := task_codes 1\<rparr>) 1 W" using any_client_codes by simp
  from programs_refine_futures [OF this, of 8] d r show ?thesis by auto
qed

section \<open>A promise with a continuation\<close>

text \<open>
  A thread is at \<open>fr\<close>; \<open>p\<close> and \<open>c\<close> are objects of interest among others.
\<close>

definition scene ::
  "('e, 'v) pworld \<Rightarrow> thread_id \<Rightarrow> ptr \<Rightarrow> ptr \<Rightarrow> 'e FutureImpl \<Rightarrow> 'e FutureImpl \<Rightarrow> ptr list \<Rightarrow> ('e, 'v) frame list
     \<Rightarrow> 'v memory \<Rightarrow> 'e fevent list \<Rightarrow> ('e, 'v) pworld" where
  "scene W tid p c P C ts fr m es =
     \<lparr>base = \<lparr>heap = (heap (base W))(p \<mapsto> P, c \<mapsto> C), tls = (tls (base W))(tid := ts @ tls (base W) tid),
        fstack = (fstack (base W))(tid := erase fr @ fstack (base W) tid), flog = flog (base W) @ es\<rparr>,
      memory = m, frames = (frames W)(tid := fr @ frames W tid)\<rparr>"

definition promise_at :: "value_type \<Rightarrow> FutureState \<Rightarrow> ptr \<Rightarrow> 'e FutureImpl" where
  "promise_at S s continuation =
     \<lparr>m_traits = FutureTraitsProvider CancelIfUnfulfilled (type_size S) (type_destroy S) False False False False,
      m_stateAndContinuation = Make s continuation, m_link = 0, m_error = None, m_taskSize = 0, callback = None\<rparr>"

definition then_at ::
  "value_type \<Rightarrow> bool \<Rightarrow> bool \<Rightarrow> FutureState \<Rightarrow> ptr \<Rightarrow> 'e option \<Rightarrow> nat \<Rightarrow> bool option \<Rightarrow> 'e FutureImpl" where
  "then_at T taskDestroy catch s link e sz cb =
     \<lparr>m_traits = Promise.then_traits T taskDestroy catch, m_stateAndContinuation = Make s 0, m_link = link,
      m_error = e, m_taskSize = sz, callback = cb\<rparr>"

lemmas scene_defs = scene_def promise_at_def then_at_def Promise.then_traits_def FutureTraitsProvider_def

lemma promise_set:
  assumes "p \<noteq> c" and "p \<noteq> 0" and "type_size S \<noteq> 0" and "aligned c" and "c \<noteq> 0"
    and "\<And>o1 w x. may_call cl o1 w x"
  shows "moves cl ans tid [0, 0, 0]
      (scene W tid p c (promise_at S Pending c) C [] [Run User (Promise_SetValue p v)] m [])
    = Some (scene W tid p c (promise_at S Succeeded ContinuationInvoked) C []
        [Lib (DoAfterSuccess p c), Run User (Return ())] (construct_value p v m)
        [ValueStarted p, Completed p Succeeded])"
  using assms
  by (simp add: scene_defs Promise_SetValue_def IFuture_SetValue_def verify_def call_def update_def
      move_defs)

text \<open>What is left to do under the code of the task.\<close>

definition under_task :: "ptr \<Rightarrow> ptr \<Rightarrow> ('e, 'v) frame list" where
  "under_task p c = [Lib DoLeaveCurrent, Run (Task c) (call (DoCallbackDestroy c) (Return ())),
     Lib (DoTrySetPosted c), Lib DoLeaveCurrent, Lib (DoPostContinuation p 0), Run User (Return ())]"

lemma continuation_posted:
  assumes "p \<noteq> c" and "p \<noteq> 0" and "c \<noteq> 0" and "c \<noteq> ContinuationInvoked"
  shows "moves cl ans tid [0, 0]
      (scene W tid p c (promise_at S Succeeded ContinuationInvoked) C [] (Lib (DoAfterSuccess p c) # fr) m es)
    = Some (scene W tid p c (promise_at S Succeeded ContinuationInvoked) C [] (Lib (DoPostContinuation p c) # fr) m es)"
  using assms
  by (simp add: scene_def promise_at_def FutureTraitsProvider_def move_defs)

lemma continuation_posting:
  assumes "p \<noteq> c" and "p \<noteq> 0" and "c \<noteq> 0"
  shows "moves cl ans tid [0]
      (scene W tid p c (promise_at S Succeeded ContinuationInvoked) (then_at T td catch Pending 0 None sz None) []
        (Lib (DoPostContinuation p c) # fr) m es)
    = Some (scene W tid p c (promise_at S Succeeded ContinuationInvoked)
        (then_at T td catch Posting p None sz (Some False)) [c]
        (Lib (DoTaskPost c) # Lib (DoTrySetPosted c) # Lib DoLeaveCurrent # Lib (DoPostContinuation p 0) # fr) m
        (es @ [Delivered p c]))"
  using assms
  by (simp add: scene_defs move_defs)

lemma continuation_task_post:
  assumes "p \<noteq> c" and "codes cl = task_codes depth" and "task_of m c = ThenTask t ArgValue" and "Exec t = Inline"
    and "\<And>o1 w x. may_call cl o1 w x"
  shows "moves cl ans tid [0, 0]
      (scene W tid p c P (then_at T td catch Posting p None sz (Some False)) [c] (Lib (DoTaskPost c) # fr) m es)
    = Some (scene W tid p c P (then_at T td catch Posting p None sz (Some True)) [c]
        (Lib (DoInvoke c 10000) # Run (Task c) (call (DoCallbackDestroy c) (Return ())) # fr) m es)"
  using assms
  by (simp add: scene_defs move_defs task_post_def FutureTaskPost_def Inline_Post_def call_def)

lemma continuation_invoke:
  assumes "p \<noteq> c" and "codes cl = task_codes depth" and "task_of m c = ThenTask t ArgValue"
  shows "moves cl ans tid [0]
      (scene W tid p c P (then_at T td catch Posting p None sz (Some True)) [c] (Lib (DoInvoke c 10000) # fr) m es)
    = Some (scene W tid p c P (then_at T td catch Invoking p None sz (Some True)) [c, c]
        (Lib (DoTaskInvoke c p) # Lib DoLeaveCurrent # fr) m es)"
  using assms
  by (simp add: scene_defs move_defs)

lemma continuation_task_invoke:
  assumes "p \<noteq> c" and "codes cl = task_codes depth" and "task_of m c = ThenTask t ArgValue"
  shows "moves cl ans tid [0]
      (scene W tid p c P (then_at T td catch Invoking p None sz (Some True)) ts (Lib (DoTaskInvoke c p) # fr) m es)
    = Some (scene W tid p c P (then_at T td catch Invoking p None sz (Some True)) ts
        (Run (Task c) (FutureTaskInvoke (is_void T) t ArgValue depth c p) # fr) m
        (es @ [TaskInvoked c p]))"
  using assms
  by (simp add: scene_defs move_defs task_invoke_def void_result_def is_void_def IsVoidValue_def)

lemma callback_answers:
  assumes "p \<noteq> c" and "answers cl (Callback t) (ValueArg v) (ans (Callback t) (ValueArg v))"
    and "slots m p = Some v"
  shows "moves cl ans tid [0, 0]
      (scene W tid p c (promise_at S Succeeded ContinuationInvoked) C ts
        (Run o1 (FutureTaskInvoke void t ArgValue (Suc d) c p) # fr) m es)
    = Some (scene W tid p c (promise_at S Succeeded ContinuationInvoked) C ts
        (Run o1 (set_result void c (executor_result t (ans (Callback t) (ValueArg v)))) # fr)
        (construct_value p (leave_moved v) m) es)"
  using assms
  by (cases o1) (simp_all add: scene_def promise_at_def FutureTraitsProvider_def move_defs
      FutureTaskInvoke_def move_value_def invoke_callback_def)

text \<open>The three ways in which a future gets its result: a value, success without one, an error.\<close>

lemma result_value:
  assumes "p \<noteq> c" and "type_size T \<noteq> 0" and "\<And>o1 w x. may_call cl o1 w x"
  shows "moves cl ans tid [0, 0, 0]
      (scene W tid p c P (then_at T td catch Invoking p None sz cb) (c # ts) (Run (Task c) (ResultSetter_Set c u) # fr) m es)
    = Some (scene W tid p c P (then_at T td catch Succeeded p None sz cb) (c # ts)
        (Lib (DoAfterSuccess c 0) # Run (Task c) (Return ()) # fr) (construct_value c u m)
        (es @ [ValueStarted c, Completed c Succeeded]))"
  using assms
  by (simp add: scene_defs move_defs ResultSetter_Set_def call_def update_def)

lemma result_void:
  assumes "p \<noteq> c" and "type_size T = 0" and "\<And>o1 w x. may_call cl o1 w x"
  shows "moves cl ans tid [0]
      (scene W tid p c P (then_at T td catch Invoking p None sz cb) (c # ts)
        (Run (Task c) (call (DoTrySetSuccess c True) (Return ())) # fr) m es)
    = Some (scene W tid p c P (then_at T td catch Succeeded p None sz cb) (c # ts)
        (Lib (DoAfterSuccess c 0) # Run (Task c) (Return ()) # fr) m (es @ [Completed c Succeeded]))"
  using assms by (simp add: scene_defs move_defs call_def)

lemma result_error:
  assumes "p \<noteq> c" and "\<And>o1 w x. may_call cl o1 w x"
  shows "moves cl ans tid [0, 0, 0]
      (scene W tid p c P (then_at T td catch Invoking p None sz cb) (c # ts)
        (Run (Task c) (call (DoTrySetError c (EValue e) True) (Return ())) # fr) m es)
    = Some (scene W tid p c P (then_at T td catch Failed p e sz cb) (c # ts)
        (Lib (DoAfterFailed c 0) # Run (Task c) (Return ()) # fr) m (es @ [Completed c Failed]))"
  using assms by (simp add: scene_defs move_defs call_def)

text \<open>Then the callback is destroyed, if there is something to destroy.\<close>

definition after :: "FutureState \<Rightarrow> ptr \<Rightarrow> 'e fwork" where
  "after s c = (if s = Succeeded then DoAfterSuccess c 0 else DoAfterFailed c 0)"

lemma callback_destroyed:
  assumes "p \<noteq> c" and "s = Succeeded \<and> e = None \<or> s = Failed" and "tid < n"
    and "codes cl = task_codes depth" and "task_of m c = ThenTask t ArgValue"
  shows "\<exists>sz1 m1 es1. slots m1 = slots m \<and> (prog_step cl n)\<^sup>*\<^sup>*
      (scene W tid p c P (then_at T td catch s p e sz cb) ts (Lib (after s c) # fr) m es)
      (scene W tid p c P (then_at T td catch s 0 e sz1 cb) ts (Lib (DoDeliver c 0) # fr) m1 es1)"
proof (cases "td \<and> sz > 0")
  case True
  have "moves cl ans tid [0, 0, 0]
      (scene W tid p c P (then_at T td catch s p e sz cb) ts (Lib (after s c) # fr) m es)
    = Some (scene W tid p c P (then_at T td catch s 0 e 0 cb) ts (Lib (DoDeliver c 0) # fr)
        (construct_task c NoTask m) (es @ [TaskDestroyed c]))" for ans
    using assms True
    by (auto simp add: scene_defs move_defs after_def task_destroy_def update_def)
  from moves_steps [OF this assms(3)] show ?thesis
    by (intro exI [of _ 0] exI [of _ "construct_task c NoTask m"] exI conjI) (simp add: construct_task_def)
next
  case False
  have "moves cl ans tid [0]
      (scene W tid p c P (then_at T td catch s p e sz cb) ts (Lib (after s c) # fr) m es)
    = Some (scene W tid p c P (then_at T td catch s 0 e sz cb) ts (Lib (DoDeliver c 0) # fr) m es)" for ans
    using assms False by (auto simp add: scene_defs move_defs after_def)
  from moves_steps [OF this assms(3)] show ?thesis by blast
qed

lemma callback_returned:
  assumes "p \<noteq> c" and "\<And>o1 w x. may_call cl o1 w x"
  shows "moves cl ans tid [0, 0, 0, 0, 0]
      (scene W tid p c P (then_at T td catch s l e sz (Some True)) [c, c]
        (Lib (DoDeliver c 0) # Run (Task c) (Return ()) # under_task p c) m es)
    = Some (scene W tid p c P (then_at T td catch s l e sz None) [c]
        [Run (Task c) (Return ()), Lib (DoTrySetPosted c), Lib DoLeaveCurrent, Lib (DoPostContinuation p 0),
         Run User (Return ())] m es)"
  using assms by (simp add: scene_defs move_defs under_task_def call_def)

lemma thread_idle:
  assumes "p \<noteq> c" and "completes s"
  shows "moves cl ans tid [0, 0, 0, 0, 0]
      (scene W tid p c P (then_at T td catch s l e sz cb) [c]
        [Run (Task c) (Return ()), Lib (DoTrySetPosted c), Lib DoLeaveCurrent, Lib (DoPostContinuation p 0),
         Run User (Return ())] m es)
    = Some (scene W tid p c P (then_at T td catch s l e sz cb) [] [] m es)"
  using assms by (auto simp add: scene_defs move_defs)

text \<open>What a callback's result means for its future: a value, success, or an error.\<close>

fun outcome_of :: "bool \<Rightarrow> ('e, 'v) ret \<Rightarrow> ('v fvalue option + 'e option) option" where
  "outcome_of True ReturnVoid = Some (Inl None)"
| "outcome_of True (ReturnMaybe MaybeVoid) = Some (Inl None)"
| "outcome_of False (ReturnValue v) = Some (Inl (Some v))"
| "outcome_of False (ReturnMaybe (MaybeValue v)) = Some (Inl (Some v))"
| "outcome_of void (ReturnMaybe (MaybeError e)) = Some (Inr e)"
| "outcome_of _ _ = None"

definition ended :: "('e, 'v) pworld \<Rightarrow> ptr \<Rightarrow> 'v fvalue option + 'e option \<Rightarrow> bool" where
  "ended W f r \<longleftrightarrow> (\<exists>o1. heap (base W) f = Some o1 \<and>
     (case r of
        Inl v \<Rightarrow> fstate o1 = Succeeded \<and> (\<forall>u. v = Some u \<longrightarrow> slots (memory W) f = Some u)
      | Inr e \<Rightarrow> fstate o1 = Failed \<and> m_error o1 = e))"

lemma result_set:
  assumes "p \<noteq> c" and "outcome_of (is_void T) r = Some out" and "\<And>o1 w x. may_call cl o1 w x" and "tid < n"
  shows "\<exists>s e m1 es1. (prog_step cl n)\<^sup>*\<^sup>*
      (scene W tid p c P (then_at T td catch Invoking p None sz cb) (c # ts) (Run (Task c) (set_result (is_void T) c r) # fr) m es)
      (scene W tid p c P (then_at T td catch s p e sz cb) (c # ts)
        (Lib (after s c) # Run (Task c) (Return ()) # fr) m1 es1)
    \<and> (s = Succeeded \<and> e = None \<or> s = Failed) \<and> task_of m1 = task_of m
    \<and> slots m1 p = slots m p
    \<and> (case out of Inl v \<Rightarrow> s = Succeeded \<and> (\<forall>u. v = Some u \<longrightarrow> slots m1 c = Some u) | Inr e1 \<Rightarrow> s = Failed \<and> e = e1)"
proof -
  consider (val) u where "set_result (is_void T) c r = ResultSetter_Set c u" "out = Inl (Some u)" "type_size T \<noteq> 0"
    | (void) "set_result (is_void T) c r = call (DoTrySetSuccess c True) (Return ())" "out = Inl None" "type_size T = 0"
    | (err) e where "set_result (is_void T) c r = call (DoTrySetError c (EValue e) True) (Return ())" "out = Inr e"
    using assms(2)
    by (cases "(is_void T, r)" rule: outcome_of.cases)
      (auto simp: set_result_def is_void_def ResultSetterMaybe_Set_def ResultSetterMaybeVoid_Set_def
        ResultSetter_Set_def split: if_splits)
  then show ?thesis
  proof cases
    case val
    from moves_steps [OF result_value [OF assms(1) val(3) assms(3)] assms(4)] val(1,2) assms(1) show ?thesis
      by (intro exI [of _ Succeeded] exI [of _ None] exI [of _ "construct_value c u m"] exI conjI)
        (auto simp: after_def construct_value_def)
  next
    case void
    from moves_steps [OF result_void [OF assms(1) void(3) assms(3)] assms(4)] void(1,2) show ?thesis
      by (intro exI [of _ Succeeded] exI [of _ None] exI [of _ m] exI conjI) (auto simp: after_def)
  next
    case err
    from moves_steps [OF result_error [OF assms(1,3)] assms(4)] err show ?thesis
      by (intro exI [of _ Failed] exI [of _ e] exI [of _ m] exI conjI) (auto simp: after_def)
  qed
qed

lemma scene_start:
  assumes "heap (base W) p = Some P" and "heap (base W) c = Some C" and "erase fr = []"
  shows "scene W tid p c P C [] fr (memory W) [] = put tid (fr @ frames W tid) (base W) (memory W) W"
proof (cases W)
  case (fields b m f)
  then show ?thesis using assms by (cases b) (simp add: scene_def put_def fun_upd_idem)
qed

text \<open>
  C8: A promise and a continuation with an inline executor, from the call that sets the promise:
  when the thread is back where it was, the callback was given the value of the promise, moved
  away from it, and the continuation has ended with what the callback returned: its value, or
  success without one, or its error. An exception of a callback of a throwing executor is such an
  error.
\<close>

theorem then_gets_result:
  assumes "p \<noteq> c" and "p \<noteq> 0" and "c \<noteq> 0" and "c \<noteq> ContinuationInvoked" and "aligned c"
    and "type_size S \<noteq> 0" and "tid < n" and "in_client_code (frames W tid)"
    and "Promise_SetValue p v \<in> api cl" and "\<And>o1 w x. may_call cl o1 w x" and "codes cl = task_codes (Suc d)"
    and "heap (base W) p = Some (promise_at S Pending c)"
    and "heap (base W) c = Some (then_at T td catch Pending 0 None sz None)"
    and "task_of (memory W) c = ThenTask t ArgValue" and "Exec t = Inline"
    and "answers cl (Callback t) (ValueArg v) r" and "outcome_of (is_void T) (executor_result t r) = Some out"
  shows "\<exists>W'. (prog_step cl n)\<^sup>*\<^sup>* W W' \<and> frames W' = frames W \<and> ended W' c out
    \<and> ended W' p (Inl (Some (leave_moved v)))"
proof -
  let ?ans = "\<lambda>_ _. r" and ?m = "construct_value p v (memory W)"
  let ?P = "promise_at S Succeeded ContinuationInvoked" and ?C = "then_at T td catch"
  let ?run = "(prog_step cl n)\<^sup>*\<^sup>*"
  have start: "prog_step cl n W (scene W tid p c (promise_at S Pending c) (?C Pending 0 None sz None) []
      [Run User (Promise_SetValue p v)] (memory W) [])"
    using prog_step.start [OF assms(7-9)] scene_start [OF assms(12,13), of "[Run User (Promise_SetValue p v)]" tid]
    by simp
  note go = moves_steps [where n = n and ans = ?ans, OF _ assms(7)]
  have 1: "?run (scene W tid p c (promise_at S Pending c) (?C Pending 0 None sz None) []
      [Run User (Promise_SetValue p v)] (memory W) [])
    (scene W tid p c ?P (?C Pending 0 None sz None) [] [Lib (DoAfterSuccess p c), Run User (Return ())] ?m
      [ValueStarted p, Completed p Succeeded])"
    by (rule go, rule promise_set) (use assms in auto)
  have task: "task_of ?m c = ThenTask t ArgValue" using assms(14) by (simp add: construct_value_def)
  have "?run (scene W tid p c ?P (?C Pending 0 None sz None) [] [Lib (DoAfterSuccess p c), Run User (Return ())] ?m es)
    (scene W tid p c ?P (?C Invoking p None sz (Some True)) [c, c]
      (Run (Task c) (FutureTaskInvoke (is_void T) t ArgValue (Suc d) c p) # under_task p c) ?m
      ((es @ [Delivered p c]) @ [TaskInvoked c p]))" for es
    unfolding under_task_def
    by (rule rtranclp_trans [OF go [OF continuation_posted [OF assms(1-4)]]],
        rule rtranclp_trans [OF go [OF continuation_posting [OF assms(1-3)]]],
        rule rtranclp_trans [OF go [OF continuation_task_post [OF assms(1,11) task assms(15,10)]]],
        rule rtranclp_trans [OF go [OF continuation_invoke [OF assms(1,11) task]]],
        rule go [OF continuation_task_invoke [OF assms(1,11) task]])
  note 2 = rtranclp_trans [OF 1 this]
  let ?m2 = "construct_value p (leave_moved v) ?m"
  have "?run (scene W tid p c ?P (?C Invoking p None sz (Some True)) [c, c]
      (Run (Task c) (FutureTaskInvoke (is_void T) t ArgValue (Suc d) c p) # under_task p c) ?m es)
    (scene W tid p c ?P (?C Invoking p None sz (Some True)) [c, c]
      (Run (Task c) (set_result (is_void T) c (executor_result t r)) # under_task p c) ?m2 es)" for es
    by (rule go, rule callback_answers) (use assms in \<open>auto simp: construct_value_def\<close>)
  note 3 = rtranclp_trans [OF 2 this]
  obtain es0 where 4: "?run W (scene W tid p c ?P (?C Invoking p None sz (Some True)) [c, c]
      (Run (Task c) (set_result (is_void T) c (executor_result t r)) # under_task p c) ?m2 es0)"
    using converse_rtranclp_into_rtranclp [OF start 3] by blast
  from result_set [OF assms(1,17,10,7), of W ?P td catch sz "Some True" "[c]" "under_task p c" ?m2 es0]
  obtain s e m1 es1 where s: "s = Succeeded \<and> e = None \<or> s = Failed" and m1: "task_of m1 = task_of ?m2"
      "slots m1 p = slots ?m2 p"
    and out: "case out of Inl v \<Rightarrow> s = Succeeded \<and> (\<forall>u. v = Some u \<longrightarrow> slots m1 c = Some u)
         | Inr e1 \<Rightarrow> s = Failed \<and> e = e1"
    and 5: "?run (scene W tid p c ?P (?C Invoking p None sz (Some True)) [c, c]
        (Run (Task c) (set_result (is_void T) c (executor_result t r)) # under_task p c) ?m2 es0)
      (scene W tid p c ?P (?C s p e sz (Some True)) [c, c]
        (Lib (after s c) # Run (Task c) (Return ()) # under_task p c) m1 es1)"
    by (elim exE conjE)
  have "task_of m1 c = ThenTask t ArgValue" using m1(1) task by (simp add: construct_value_def)
  from callback_destroyed [OF assms(1) s assms(7,11) this, of W ?P T td catch sz "Some True" "[c, c]"
      "Run (Task c) (Return ()) # under_task p c" es1]
  obtain sz1 m2 es2 where m2: "slots m2 = slots m1"
    and 6: "?run (scene W tid p c ?P (?C s p e sz (Some True)) [c, c]
        (Lib (after s c) # Run (Task c) (Return ()) # under_task p c) m1 es1)
      (scene W tid p c ?P (?C s 0 e sz1 (Some True)) [c, c]
        (Lib (DoDeliver c 0) # Run (Task c) (Return ()) # under_task p c) m2 es2)"
    by (elim exE conjE)
  have "completes s" using s by (auto simp: completes_def)
  have 7: "?run (scene W tid p c ?P (?C s 0 e sz1 (Some True)) [c, c]
        (Lib (DoDeliver c 0) # Run (Task c) (Return ()) # under_task p c) m2 es2)
      (scene W tid p c ?P (?C s 0 e sz1 None) [] [] m2 es2)"
    by (rule rtranclp_trans [OF go [OF callback_returned [OF assms(1,10)]]], rule go [OF thread_idle [OF assms(1) \<open>completes s\<close>]])
  let ?W' = "scene W tid p c ?P (?C s 0 e sz1 None) [] [] m2 es2"
  have "?run W ?W'"
    by (rule rtranclp_trans [OF 4], rule rtranclp_trans [OF 5], rule rtranclp_trans [OF 6], rule 7)
  moreover have "frames ?W' = frames W" by (simp add: scene_def)
  moreover have "ended ?W' c out"
    using out m2 by (cases out) (auto simp: ended_def scene_def then_at_def fstate_def)
  moreover have "ended ?W' p (Inl (Some (leave_moved v)))"
    using m1(2) m2 assms(1) by (simp add: ended_def scene_def promise_at_def fstate_def construct_value_def)
  ultimately show ?thesis by blast
qed

text \<open>A promise and its continuation, made by the functions of the library.\<close>

definition make_then :: "value_type \<Rightarrow> value_type \<Rightarrow> bool \<Rightarrow> nat \<Rightarrow> FutureTask \<Rightarrow> ('e, 'v, unit) prog" where
  "make_then S T td sz t =
     bind (Promise_ctor S) (\<lambda>promise. bind (Future_Then T td sz promise t ArgValue) (\<lambda>_. Return ()))"

lemma then_created:
  assumes "p \<noteq> c" and "new_address (base W) p" and "new_address (base W) c" and "\<And>o1 w x. may_call cl o1 w x"
    and "sz > 0"
  shows "moves cl ans tid [p, c, 0, 0, 0]
      (put tid (Run User (make_then S T td sz t) # frames W tid) (base W) m W)
    = Some (scene W tid p c (promise_at S Pending c) (then_at T td False Pending 0 None sz None) [] []
        (construct_task c (ThenTask t ArgValue) m) [Created p, Created c, Added p c])"
  using assms
  by (cases "base W")
    (simp add: scene_defs move_defs make_then_def Promise_ctor_def Future_Then_def verify_def call_def update_def
      Make_Pending_0 Make_def state_code_def aligned_def FutureTaskCatch_present_def)

text \<open>A callback of a throwing executor that throws the error 5.\<close>

definition int_type :: value_type where
  "int_type = \<lparr>type_size = 4, type_destroy = False\<rparr>"

definition inline_task :: FutureTask where
  "inline_task = \<lparr>Exec = Inline, throwing = True, Callback = 0\<rparr>"

definition then_world :: "(nat, nat) pworld" where
  "then_world = scene initial_pworld 0 8 16 (promise_at int_type Pending 16)
     (then_at int_type True False Pending 0 None 8 None) [] []
     (construct_task 16 (ThenTask inline_task ArgValue) empty_memory) [Created 8, Created 16, Added 8 16]"

lemma then_world_reachable: "prog_reachable any_client 1 then_world"
proof -
  let ?I = "initial_pworld :: (nat, nat) pworld" and ?p = "make_then int_type int_type True 8 inline_task"
  have any: "may_call any_client o1 w x" for o1 w x by (simp add: any_client_def)
  have new: "new_address (base ?I) 8" "new_address (base ?I) 16"
    by (simp_all add: new_address_def initial_pworld_def initial_fworld_def)
  have "start_program ?p = put 0 (Run User ?p # frames ?I 0) (base ?I) empty_memory ?I"
    by (simp add: start_program_def put_def initial_pworld_def)
  moreover have "moves any_client (\<lambda>_ _. ReturnVoid) 0 [8, 16, 0, 0, 0]
      (put 0 (Run User ?p # frames ?I 0) (base ?I) empty_memory ?I) = Some then_world"
    unfolding then_world_def by (rule then_created [OF _ new any]) simp_all
  ultimately have "moves any_client (\<lambda>_ _. ReturnVoid) 0 [8, 16, 0, 0, 0] (start_program ?p) = Some then_world" by simp
  then have "(prog_step any_client 1)\<^sup>*\<^sup>* (start_program ?p) then_world" by (rule moves_steps) simp
  moreover have "prog_reachable any_client 1 (start_program ?p)" by (rule start_reachable) (simp_all add: any_client_def)
  ultimately show ?thesis by (rule prog_reachable_steps)
qed

theorem then_gets_result_witness:
  "\<exists>W'. prog_reachable any_client 1 W' \<and> ended W' 16 (Inr (Some 5)) \<and> ended W' 8 (Inl (Some MovedFrom))"
proof -
  have "\<exists>W'. (prog_step any_client 1)\<^sup>*\<^sup>* then_world W' \<and> frames W' = frames then_world \<and> ended W' 16 (Inr (Some 5))
    \<and> ended W' 8 (Inl (Some (leave_moved (Plain 3))))"
    by (rule then_gets_result [where S = int_type and T = int_type and tid = 0 and d = 0 and t = inline_task
          and r = "Throws 5"])
      (simp_all add: then_world_def scene_def initial_pworld_def any_client_def int_type_def is_void_def inline_task_def
        executor_result_def construct_task_def ContinuationInvoked_def ContinuationMask_def StateMask_def)
  then show ?thesis using then_world_reachable prog_reachable_steps by fastforce
qed

end
