(* ===== verification/Cancellation_Token.thy ===== *)
theory Cancellation_Token
  imports Program_Runs
begin

text \<open>
  Cancellation tokens: what a token answers before and after its source is cancelled or abandoned,
  from the call of the source until the thread is idle again.
\<close>

section \<open>A source and its token\<close>

definition source_at :: "FutureState \<Rightarrow> ptr \<Rightarrow> 'e option \<Rightarrow> 'e FutureImpl" where
  "source_at s continuation e =
     \<lparr>m_traits = FutureTraitsProvider CancelIfUnfulfilled 0 False True False False False,
      m_stateAndContinuation = Make s continuation, m_link = 0, m_error = e, m_taskSize = 8, callback = None\<rparr>"

definition token_at :: "FutureState \<Rightarrow> ptr \<Rightarrow> 'e option \<Rightarrow> 'e FutureImpl" where
  "token_at s link e =
     \<lparr>m_traits = FutureTraitsProvider IsShared 1 False False False True True,
      m_stateAndContinuation = Make s 0, m_link = link, m_error = e, m_taskSize = 0, callback = None\<rparr>"

text \<open>What a program that only reads returns.\<close>

definition reads :: "('e, 'v, 'r) prog \<Rightarrow> ('e, 'v) pworld \<Rightarrow> 'r outcome" where
  "reads p W =
     (case p of
        Access g \<Rightarrow> and_then (g (base W) (memory W)) (\<lambda>(m, q). case q of Return r \<Rightarrow> Returns r | _ \<Rightarrow> Unfinished)
      | _ \<Rightarrow> Unfinished)"

lemma token_options [simp]:
  "IsSet IsShared CallTaskInvokeOnError = False" "IsSet IsShared DestroyTaskAfterInvoke = False"
  "IsSet CancelIfUnfulfilled DestroyTaskAfterInvoke = False"
  by (simp_all add: IsSet_def IsShared_def CallTaskInvokeOnError_def DestroyTaskAfterInvoke_def CancelIfUnfulfilled_def)

lemmas source_defs = scene_def source_at_def token_at_def FutureTraitsProvider_def move_defs exec_TaskCatch_def

definition rest_of :: "ptr \<Rightarrow> ('e, 'v) frame list" where
  "rest_of p = [Lib DoLeaveCurrent, Lib DoLeaveCurrent, Lib (DoPostContinuation p 0), Run User (Return ())]"

lemma source_cancels:
  assumes "p \<noteq> c" and "p \<noteq> 0" and "c \<noteq> 0" and "c \<noteq> ContinuationInvoked" and "aligned c"
    and "\<And>o1 w x. may_call cl o1 w x"
  shows "moves cl ans tid [0, 0, 0]
      (scene W tid p c (source_at Pending c None) (token_at Pending 0 None) []
        [Run User (CancellationTokenSource_Cancel p)] m es)
    = Some (scene W tid p c (source_at Succeeded ContinuationInvoked None) (token_at Pending 0 None) []
        [Lib (DoPostContinuation p c), Run User (Return ())] m (es @ [Completed p Succeeded]))"
  using assms by (simp add: source_defs CancellationTokenSource_Cancel_def verify_def call_def)

lemma token_runs:
  assumes "p \<noteq> c" and "p \<noteq> 0" and "c \<noteq> 0" and "codes cl = task_codes depth" and "task_of m c = TokenTask"
  shows "moves cl ans tid [0, 0, 0]
      (scene W tid p c (source_at Succeeded ContinuationInvoked None) (token_at Pending 0 None) []
        [Lib (DoPostContinuation p c), Run User (Return ())] m es)
    = Some (scene W tid p c (source_at Succeeded ContinuationInvoked None) (token_at Invoking p None) [c, c]
        (Run (Task c) (CancellationTokenTask_Invoke c) # rest_of p) m (es @ [Delivered p c, TaskInvoked c p]))"
  using assms by (simp add: source_defs rest_of_def task_invoke_def)

lemma source_abandons:
  assumes "p \<noteq> c" and "p \<noteq> 0" and "c \<noteq> 0" and "c \<noteq> ContinuationInvoked" and "aligned c"
    and "\<And>o1 w x. may_call cl o1 w x"
  shows "moves cl ans tid [0, 0, 0, 0, 0]
      (scene W tid p c (source_at Pending c None) (token_at Pending 0 None) []
        [Run User (CancellationTokenSource_Abandon e p)] m es)
    = Some (scene W tid p c (source_at Failed ContinuationInvoked (Some e)) (token_at Pending 0 None) []
        [Lib (DoPostContinuation p c), Run User (Return ())] m (es @ [Completed p Failed]))"
  using assms by (simp add: source_defs CancellationTokenSource_Abandon_def verify_def call_def)

lemma token_catches:
  assumes "p \<noteq> c" and "p \<noteq> 0" and "c \<noteq> 0" and "codes cl = task_codes depth" and "task_of m c = TokenTask"
  shows "moves cl ans tid [0, 0, 0]
      (scene W tid p c (source_at Failed ContinuationInvoked (Some e)) (token_at Pending 0 None) []
        [Lib (DoPostContinuation p c), Run User (Return ())] m es)
    = Some (scene W tid p c (source_at Failed ContinuationInvoked (Some e)) (token_at Invoking 0 (Some e)) [c, c]
        (Run (Task c) (CancellationTokenTask_Catch c) # rest_of p) m (es @ [Delivered p c, TaskCaught c]))"
  using assms by (simp add: source_defs rest_of_def task_catch_def)

lemma token_set:
  assumes "p \<noteq> c" and "\<And>o1 w x. may_call cl o1 w x"
  shows "moves cl ans tid [0, 0, 0, 0]
      (scene W tid p c P (token_at Invoking l e) [c, c] (Run (Task c) (IFuture_SetValue c v) # fr) m es)
    = Some (scene W tid p c P (token_at Succeeded 0 None) [c, c]
        (Lib (DoDeliver c 0) # Run (Task c) (Return ()) # fr) (construct_value c v m)
        (es @ [ValueStarted c, Completed c Succeeded]))"
  using assms by (simp add: source_defs IFuture_SetValue_def call_def update_def)

lemma token_leaves:
  assumes "p \<noteq> c"
  shows "moves cl ans tid [0, 0, 0, 0, 0, 0, 0]
      (scene W tid p c P C [c, c] (Lib (DoDeliver c 0) # Run (Task c) (Return ()) # rest_of p) m es)
    = Some (scene W tid p c P C [] [] m es)"
  using assms by (simp add: source_defs rest_of_def)

section \<open>What the token tells\<close>

lemma IsCanceled_pending:
  assumes "heap (base W) c = Some (token_at Pending l e)"
  shows "reads (CancellationToken_IsCanceled depth c) W = Returns False"
  using assms
  by (simp add: reads_def CancellationToken_IsCanceled_def with_future_def token_at_def fstate_def completes_def)

lemma IsCanceled_done:
  assumes "heap (base W) c = Some (token_at Succeeded l e)" and "slots (memory W) c = Some (BoolValue b)"
  shows "reads (CancellationToken_IsCanceled (Suc d) c) W = Returns b"
  using assms
  by (simp add: reads_def CancellationToken_IsCanceled_def with_future_def token_at_def fstate_def completes_def
      FutureTraitsProvider_def)

text \<open>
  C10: The token of a cancellation source that nobody waits for otherwise: it is not cancelled while
  the source is pending; when the call that cancels the source has returned it is, and when the
  call that abandons the source has returned it is not, and then it stays so, as it is done.
\<close>

theorem cancellation_token_tells:
  assumes "p \<noteq> c" and "p \<noteq> 0" and "c \<noteq> 0" and "c \<noteq> ContinuationInvoked" and "aligned c"
    and "\<And>o1 w x. may_call cl o1 w x" and "codes cl = task_codes (Suc d)"
    and "tid < n" and "in_client_code (frames W tid)"
    and "(if cancel then CancellationTokenSource_Cancel p else CancellationTokenSource_Abandon e p) \<in> api cl"
    and "heap (base W) p = Some (source_at Pending c None)" and "heap (base W) c = Some (token_at Pending 0 None)"
    and "task_of (memory W) c = TokenTask"
  shows "reads (CancellationToken_IsCanceled (Suc d) c) W = Returns False
    \<and> (\<exists>W'. (prog_step cl n)\<^sup>*\<^sup>* W W' \<and> frames W' = frames W \<and> is_done (base W') c
         \<and> reads (CancellationToken_IsCanceled (Suc d) c) W' = Returns cancel)"
proof
  show "reads (CancellationToken_IsCanceled (Suc d) c) W = Returns False"
    using assms(12) by (rule IsCanceled_pending)
  let ?prog = "if cancel then CancellationTokenSource_Cancel p else CancellationTokenSource_Abandon e p"
  let ?run = "(prog_step cl n)\<^sup>*\<^sup>*" and ?ans = "\<lambda>_ _. ReturnVoid"
  let ?P = "if cancel then source_at Succeeded ContinuationInvoked None else source_at Failed ContinuationInvoked (Some e)"
  let ?m = "memory W"
  note go = moves_steps [where n = n and ans = ?ans, OF _ assms(8)]
  have start: "prog_step cl n W (scene W tid p c (source_at Pending c None) (token_at Pending 0 None) []
      [Run User ?prog] ?m [])"
    using prog_step.start [OF assms(8-10)] scene_start [OF assms(11,12), of "[Run User ?prog]" tid] by simp
  have set: "?run (scene W tid p c (source_at Pending c None) (token_at Pending 0 None) [] [Run User ?prog] ?m [])
      (scene W tid p c ?P (token_at Pending 0 None) [] [Lib (DoPostContinuation p c), Run User (Return ())] ?m
        [Completed p (if cancel then Succeeded else Failed)])"
    using go [OF source_cancels [OF assms(1-6)], of W ?m "[]"] go [OF source_abandons [OF assms(1-6)], of W e ?m "[]"]
    by simp
  have runs: "\<exists>l e1 es. ?run
      (scene W tid p c ?P (token_at Pending 0 None) [] [Lib (DoPostContinuation p c), Run User (Return ())] ?m
        [Completed p (if cancel then Succeeded else Failed)])
      (scene W tid p c ?P (token_at Invoking l e1) [c, c] (Run (Task c) (IFuture_SetValue c (BoolValue cancel)) # rest_of p) ?m es)"
    using go [OF token_runs [OF assms(1-3,7,13)], of W "[Completed p Succeeded]"]
      go [OF token_catches [OF assms(1-3,7,13)], of W e "[Completed p Failed]"]
    by (cases cancel) (auto simp: CancellationTokenTask_Invoke_def CancellationTokenTask_Catch_def)
  then obtain l e1 es where 1: "?run W
      (scene W tid p c ?P (token_at Invoking l e1) [c, c] (Run (Task c) (IFuture_SetValue c (BoolValue cancel)) # rest_of p) ?m es)"
    using converse_rtranclp_into_rtranclp [OF start rtranclp_trans [OF set]] by blast
  let ?m1 = "construct_value c (BoolValue cancel) ?m" and ?es = "es @ [ValueStarted c, Completed c Succeeded]"
  let ?W' = "scene W tid p c ?P (token_at Succeeded 0 None) [] [] ?m1 ?es"
  have "?run W ?W'"
    by (rule rtranclp_trans [OF 1], rule rtranclp_trans [OF go [OF token_set [OF assms(1,6)]]],
        rule go [OF token_leaves [OF assms(1)]])
  moreover have "reads (CancellationToken_IsCanceled (Suc d) c) ?W' = Returns cancel"
    by (rule IsCanceled_done [where l = 0 and e = None]) (simp_all add: scene_def construct_value_def)
  moreover have "frames ?W' = frames W" and "is_done (base ?W') c"
    by (simp_all add: scene_def is_done_def state_at_def token_at_def fstate_def completes_def)
  ultimately show "\<exists>W'. ?run W W' \<and> frames W' = frames W \<and> is_done (base W') c
      \<and> reads (CancellationToken_IsCanceled (Suc d) c) W' = Returns cancel" by blast
qed

text \<open>The constructor of a source makes such a pair.\<close>

lemma source_created:
  assumes "p \<noteq> c" and "new_address (base W) p" and "new_address (base W) c" and "\<And>o1 w x. may_call cl o1 w x"
  shows "moves cl ans tid [p, c, 0, 0, 0]
      (put tid (Run User (bind CancellationTokenSource_ctor k) # frames W tid) (base W) m W)
    = Some (scene W tid p c (source_at Pending c None) (token_at Pending 0 None) [] [Run User (k p)]
        (construct_task p (TokenSourceTask c) (construct_task c TokenTask m)) [Created p, Created c, Added p c])"
  using assms
  by (cases "base W")
    (simp add: source_defs CancellationTokenSource_ctor_def call_def update_def Make_Pending_0 Make_def state_code_def
      aligned_def)

definition make_source :: "(nat, nat, unit) prog" where
  "make_source = bind CancellationTokenSource_ctor (\<lambda>_. Return ())"

definition token_world :: "(nat, nat) pworld" where
  "token_world = scene initial_pworld 0 8 16 (source_at Pending 16 None) (token_at Pending 0 None) [] []
     (construct_task 8 (TokenSourceTask 16) (construct_task 16 TokenTask empty_memory)) [Created 8, Created 16, Added 8 16]"

lemma token_world_reachable: "prog_reachable any_client 1 token_world"
proof -
  let ?I = "initial_pworld :: (nat, nat) pworld"
  have any: "may_call any_client o1 w x" for o1 w x by (simp add: any_client_def)
  have "start_program make_source = put 0 (Run User (bind CancellationTokenSource_ctor (\<lambda>_. Return ()))
      # frames ?I 0) (base ?I) empty_memory ?I"
    by (simp add: start_program_def make_source_def put_def initial_pworld_def)
  moreover have "prog_reachable any_client 1 (start_program make_source)"
    by (rule start_reachable) (simp_all add: any_client_def)
  ultimately have r: "prog_reachable any_client 1 (put 0 (Run User (bind CancellationTokenSource_ctor (\<lambda>_. Return ()))
      # frames ?I 0) (base ?I) empty_memory ?I)" by simp
  have new: "new_address (base ?I) 8" "new_address (base ?I) 16"
    by (simp_all add: new_address_def initial_pworld_def initial_fworld_def)
  have 1: "moves any_client (\<lambda>_ _. ReturnVoid) 0 [8, 16, 0, 0, 0]
      (put 0 (Run User (bind CancellationTokenSource_ctor (\<lambda>_. Return ())) # frames ?I 0)
        (base ?I) empty_memory ?I)
    = Some (scene ?I 0 8 16 (source_at Pending 16 None) (token_at Pending 0 None) [] [Run User (Return ())]
        (construct_task 8 (TokenSourceTask 16) (construct_task 16 TokenTask empty_memory)) [Created 8, Created 16, Added 8 16])"
    by (rule source_created [OF _ new any]) simp
  have 2: "moves any_client (\<lambda>_ _. ReturnVoid) 0 [0]
      (scene ?I 0 8 16 (source_at Pending 16 None) (token_at Pending 0 None) [] [Run User (Return ())]
        (construct_task 8 (TokenSourceTask 16) (construct_task 16 TokenTask empty_memory)) [Created 8, Created 16, Added 8 16])
    = Some token_world" by (simp add: scene_def token_world_def popped_def put_def)
  show ?thesis
    by (rule prog_reachable_steps [OF rtranclp_trans [OF moves_steps [OF 1] moves_steps [OF 2]] r]) simp_all
qed

theorem cancellation_token_tells_witness:
  "\<exists>W'. prog_reachable any_client 1 W' \<and> reads (CancellationToken_IsCanceled 1 16) W' = Returns True"
proof -
  have "reads (CancellationToken_IsCanceled (Suc 0) 16) token_world = Returns False
    \<and> (\<exists>W'. (prog_step any_client 1)\<^sup>*\<^sup>* token_world W' \<and> frames W' = frames token_world \<and> is_done (base W') 16
         \<and> reads (CancellationToken_IsCanceled (Suc 0) 16) W' = Returns True)"
    by (rule cancellation_token_tells [where p = 8 and c = 16 and tid = 0 and cancel = True])
      (simp_all add: token_world_def scene_def initial_pworld_def any_client_def construct_task_def
        ContinuationInvoked_def ContinuationMask_def StateMask_def)
  then show ?thesis using token_world_reachable prog_reachable_steps by fastforce
qed

text \<open>A token that was default constructed has no state: asking it dereferences the null pointer.\<close>

lemma IsCanceled_empty_token:
  "heap (base W) 0 = None \<Longrightarrow> reads (CancellationToken_IsCanceled depth 0) W = Crashes NullDereference"
  by (simp add: reads_def CancellationToken_IsCanceled_def with_future_def)

end
