(* ===== verification/Token_Chains.thy ===== *)
theory Token_Chains
  imports Cancellation_Token
begin

text \<open>
  What \<open>WhenAny\<close> and \<open>WhenAll\<close> do to a future that has continuations already: a cancellation token is
  such a future, as every \<open>WhenCanceled\<close> and \<open>WhenChanged\<close> adds to the same one. Two programs, step
  by step; their futures are a source at 8, its token at 16, the continuation of \<open>WhenCanceled\<close> at
  24, a promise at 32 and the future of \<open>WhenAny\<close> or \<open>WhenAll\<close> at 40.
\<close>

section \<open>A lost action\<close>

definition bool_type :: value_type where
  "bool_type = \<lparr>type_size = 1, type_destroy = False\<rparr>"

text \<open>What the clients do once there is a source \<open>s\<close>.\<close>

definition lost_program :: "ptr \<Rightarrow> (nat, nat, unit) prog" where
  "lost_program s =
     bind (CancellationTokenSource_GetToken s) (\<lambda>t.
     bind (CancellationToken_WhenCanceled True 8 t 0) (\<lambda>_. bind (Promise_ctor bool_type) (\<lambda>p.
     bind (WhenAny bool_type [CancellationToken_WhenChanged t, p]) (\<lambda>_. CancellationTokenSource_Cancel s))))"

definition stuck_program :: "ptr \<Rightarrow> (nat, nat, unit) prog" where
  "stuck_program s =
     bind (CancellationTokenSource_GetToken s) (\<lambda>t.
     bind (CancellationToken_WhenCanceled True 8 t 0) (\<lambda>_. bind (Promise_ctor bool_type) (\<lambda>p.
     bind (WhenAll 1 1 [p, CancellationToken_WhenChanged t]) (\<lambda>_. Promise_SetError p (Some 5)))))"

definition tokenl :: "FutureState \<Rightarrow> ptr \<Rightarrow> ptr \<Rightarrow> nat FutureImpl" where
  "tokenl s link cont = (token_at s link None)\<lparr>m_stateAndContinuation := Make s cont\<rparr>"

definition anyf :: "FutureState \<Rightarrow> ptr \<Rightarrow> nat FutureImpl" where
  "anyf s link = \<lparr>m_traits = FutureTraitsProvider IsMultiPost 1 False False False True True,
     m_stateAndContinuation = Make s 0, m_link = link, m_error = None, m_taskSize = 0, callback = None\<rparr>"

definition lost_world :: "nat FutureImpl \<Rightarrow> nat FutureImpl \<Rightarrow> nat FutureImpl \<Rightarrow> nat FutureImpl \<Rightarrow> ptr list
    \<Rightarrow> (nat, nat) frame list \<Rightarrow> nat memory \<Rightarrow> nat fevent list \<Rightarrow> (nat, nat) pworld" where
  "lost_world S T P A ts fr m es =
     \<lparr>base = \<lparr>heap = [8 \<mapsto> S, 16 \<mapsto> T, 24 \<mapsto> then_at void_type True False Pending 0 None 8 None, 32 \<mapsto> P, 40 \<mapsto> A],
        tls = (\<lambda>_. [])(0 := ts), fstack = (\<lambda>_. [])(0 := erase fr), flog = es\<rparr>, memory = m,
      frames = (\<lambda>_. [])(0 := fr)\<rparr>"

definition lost_memory :: "nat memory" where
  "lost_memory = empty_memory\<lparr>task_of := (\<lambda>_. NoTask)(8 := TokenSourceTask 16, 16 := TokenTask,
     24 := ThenTask \<lparr>Exec = Inline, throwing = False, Callback = 0\<rparr> ArgValueRef, 40 := WhenAnyTask False)\<rparr>"

lemma aligned_more [simp]: "aligned 32" "aligned 40"
  by (simp_all add: aligned_def ContinuationMask_def StateMask_def)

lemmas lost_defs = source_defs then_at_def Promise.then_traits_def lost_world_def tokenl_def anyf_def promise_at_def
  bool_type_def void_type_def verify_def call_def update_def any_client_def Make_Pending_0

definition lost_log :: "nat fevent list" where
  "lost_log = [Created 8, Created 16, Added 8 16, Created 24, Added 16 24, Created 32, Created 40, Added 16 40, Added 32 40]"

definition lost_start :: "(nat, nat) pworld" where
  "lost_start = lost_world (source_at Pending 16 None) (tokenl Pending 0 40) (promise_at bool_type Pending 40)
      (anyf Pending 0) [] [Run User (CancellationTokenSource_Cancel 8)] lost_memory lost_log"

lemma lost_cancel: "moves any_client (\<lambda>_ _. ReturnVoid) 0 [0,0,0]
     (lost_world (source_at Pending 16 None) (tokenl Pending 0 40) P A [] [Run User (CancellationTokenSource_Cancel 8)] m es)
  = Some (lost_world (source_at Succeeded ContinuationInvoked None) (tokenl Pending 0 40) P A [] 
      [Lib (DoPostContinuation 8 16), Run User (Return ())] m (es @ [Completed 8 Succeeded]))"
  by (simp add: lost_defs CancellationTokenSource_Cancel_def ContinuationInvoked_def ContinuationMask_def StateMask_def)

lemma lost_token: 
  assumes "task_of m 16 = TokenTask"
  shows "moves any_client (\<lambda>_ _. ReturnVoid) 0 [0,0,0,0,0,0]
     (lost_world (source_at Succeeded ContinuationInvoked None) (tokenl Pending 0 40) P A [] 
      [Lib (DoPostContinuation 8 16), Run User (Return ())] m es)
  = Some (lost_world (source_at Succeeded ContinuationInvoked None) (tokenl Succeeded 8 ContinuationInvoked) P A [16, 16] 
      (Lib (DoAfterSuccess 16 40) # Run (Task 16) (Return ()) # rest_of 8) (construct_value 16 (BoolValue True) m) 
   (es @ [Delivered 8 16, TaskInvoked 16 8, ValueStarted 16, Completed 16 Succeeded]))"
  using assms
  by (simp add: lost_defs rest_of_def task_invoke_def CancellationTokenTask_Invoke_def IFuture_SetValue_def ContinuationInvoked_def ContinuationMask_def StateMask_def)


lemmas lost_numerals = ContinuationInvoked_def ContinuationMask_def StateMask_def

lemma lost_any:
  assumes "task_of m 40 = WhenAnyTask False"
  shows "moves any_client (\<lambda>_ _. ReturnVoid) 0 [0, 0, 0, 0]
     (lost_world S (tokenl Succeeded 8 ContinuationInvoked) P (anyf Pending 0) [16, 16] (Lib (DoAfterSuccess 16 40) # fr) m es)
   = Some (lost_world S (tokenl Succeeded 0 ContinuationInvoked) P (anyf Pending 0) [40, 16, 16]
      (Run (Task 40) (WhenAny_Invoke 1 40 16) # Lib DoLeaveCurrent # Lib (DoPostContinuation 16 0) # fr) m
      (es @ [Delivered 16 40, TaskInvoked 40 16]))"
  using assms by (simp add: lost_defs task_invoke_def lost_numerals)

lemma lost_any_set:
  assumes "slots m 16 = Some (BoolValue True)"
  shows "moves any_client (\<lambda>_ _. ReturnVoid) 0 [0, 0, 0, 0]
     (lost_world S (tokenl Succeeded 0 ContinuationInvoked) P (anyf Pending 0) [40, 16, 16]
      (Run (Task 40) (WhenAny_Invoke 1 40 16) # fr) m es)
   = Some (lost_world S (tokenl Succeeded 0 ContinuationInvoked) P (anyf Succeeded 0) [40, 16, 16]
      (Lib (DoAfterSuccess 40 0) # Run (Task 40) (Return ()) # fr)
      (construct_value 40 (BoolValue True) (construct_value 16 (BoolValue True) m))
      (es @ [ValueStarted 40, Completed 40 Succeeded]))"
  using assms by (simp add: lost_defs WhenAny_Invoke_def move_value_def)

lemma lost_wind_up:
  "moves any_client (\<lambda>_ _. ReturnVoid) 0 [0, 0, 0, 0]
     (lost_world S T P (anyf Succeeded 0) ts (Lib (DoAfterSuccess 40 0) # Run (Task 40) (Return ()) # fr) m es)
   = Some (lost_world S T P (anyf Succeeded 0) ts fr m es)"
  "moves any_client (\<lambda>_ _. ReturnVoid) 0 [0, 0, 0, 0, 0, 0, 0]
     (lost_world S T P A [40, 16, 16] (Lib DoLeaveCurrent # Lib (DoPostContinuation 16 0)
        # Run (Task 16) (Return ()) # rest_of 8) m es)
   = Some (lost_world S T P A [] [] m es)"
  by (simp_all add: lost_defs rest_of_def)


lemma lost_created:
  "moves any_client (\<lambda>_ _. ReturnVoid) 0 [0, 24, 0, 0, 32, 40, 0, 0, 0]
     (scene initial_pworld 0 8 16 (source_at Pending 16 None) (token_at Pending 0 None) []
       [Run User (lost_program 8)]
       (construct_task 8 (TokenSourceTask 16) (construct_task 16 TokenTask empty_memory))
       [Created 8, Created 16, Added 8 16])
   = Some lost_start"
  by (simp add: lost_program_def lost_defs lost_start_def lost_memory_def lost_log_def CancellationTokenSource_GetToken_def CancellationToken_WhenCanceled_def Future_Then_def 
      CancellationToken_WhenChanged_def Promise_ctor_def WhenAny_def FutureTaskCatch_present_def construct_task_def empty_memory_def
     lost_numerals)


definition allf :: "nat FutureImpl" where
  "allf = \<lparr>m_traits = when_all_traits 16,
     m_stateAndContinuation = Make Pending 0, m_link = 24, m_error = None, m_taskSize = 26, callback = None\<rparr>"

definition stuck_memory :: "nat memory" where
  "stuck_memory = empty_memory\<lparr>task_of := (\<lambda>_. NoTask)(8 := TokenSourceTask 16, 16 := TokenTask,
     24 := ThenTask \<lparr>Exec = Inline, throwing = False, Callback = 0\<rparr> ArgValueRef,
     40 := WhenAllTask (OfArray 1 1) (new_when_all [32, 16]))\<rparr>"

definition stuck_log :: "nat fevent list" where
  "stuck_log = [Created 8, Created 16, Added 8 16, Created 24, Added 16 24, Created 32, Created 40, Added 32 40, Added 16 40]"

definition erring :: "FutureState \<Rightarrow> ptr \<Rightarrow> nat option \<Rightarrow> nat FutureImpl" where
  "erring s cont e = (promise_at bool_type s cont)\<lparr>m_error := e\<rparr>"

lemma stuck_created:
  "moves any_client (\<lambda>_ _. ReturnVoid) 0 [0, 24, 0, 0, 32, 40, 0, 0, 0]
     (scene initial_pworld 0 8 16 (source_at Pending 16 None) (token_at Pending 0 None) []
       [Run User (stuck_program 8)]
       (construct_task 8 (TokenSourceTask 16) (construct_task 16 TokenTask empty_memory))
       [Created 8, Created 16, Added 8 16])
   = Some (lost_world (source_at Pending 16 None) (tokenl Pending 0 40) (erring Pending 40 None) allf []
       [Run User (Promise_SetError 32 (Some 5))] stuck_memory stuck_log)"
  by (simp add: stuck_program_def lost_defs stuck_memory_def stuck_log_def CancellationTokenSource_GetToken_def
      CancellationToken_WhenCanceled_def Future_Then_def erring_def allf_def when_all_traits_def WhenAll_GetTaskSize_def
      CancellationToken_WhenChanged_def Promise_ctor_def WhenAll_def FutureTaskCatch_present_def construct_task_def
      empty_memory_def WhenAll_GetAlignedSize_def WhenAllFutureTask_size_def lost_numerals)

lemma stuck_fails:
  "moves any_client (\<lambda>_ _. ReturnVoid) 0 [0, 0, 0, 0, 0]
     (lost_world S T (erring Pending 40 None) A [] [Run User (Promise_SetError 32 (Some 5))] m es)
   = Some (lost_world S T (erring Failed ContinuationInvoked (Some 5)) A []
       [Lib (DoPostContinuation 32 40), Run User (Return ())] m (es @ [Completed 32 Failed]))"
  by (simp add: lost_defs erring_def Promise_SetError_def lost_numerals)

lemma stuck_ignored:
  assumes "task_of m 40 = WhenAllTask (OfArray 1 1) t"
  shows "moves any_client (\<lambda>_ _. ReturnVoid) 0 [0, 0, 0, 0, 0, 0, 0]
     (lost_world S T (erring Failed ContinuationInvoked (Some 5)) allf []
       [Lib (DoPostContinuation 32 40), Run User (Return ())] m es)
   = Some (lost_world S T (erring Failed ContinuationInvoked (Some 5)) allf [] [] m
       (es @ [Delivered 32 40, TaskCaught 40]))"
  using assms
  by (simp add: lost_defs erring_def allf_def task_catch_def WhenAllTaskCatch_Catch_def when_all_traits_def
      UnexpectedState_def lost_numerals)


section \<open>Both runs from the start\<close>

lemma token_start:
  "start_program (bind CancellationTokenSource_ctor k)
     = put 0 (Run User (bind CancellationTokenSource_ctor k) # frames (initial_pworld :: (nat, nat) pworld) 0)
         (base (initial_pworld :: (nat, nat) pworld)) empty_memory initial_pworld"
  by (simp add: start_program_def put_def initial_pworld_def)

lemma token_program_starts:
  fixes k :: "ptr \<Rightarrow> (nat, nat, unit) prog"
  shows "prog_reachable any_client 1
     (scene initial_pworld 0 8 16 (source_at Pending 16 None) (token_at Pending 0 None) [] [Run User (k 8)]
       (construct_task 8 (TokenSourceTask 16) (construct_task 16 TokenTask empty_memory))
       [Created 8, Created 16, Added 8 16])"
proof -
  let ?I = "initial_pworld :: (nat, nat) pworld"
  have any: "may_call any_client o1 w x" for o1 w x by (simp add: any_client_def)
  have new: "new_address (base ?I) 8" "new_address (base ?I) 16"
    by (simp_all add: new_address_def initial_pworld_def initial_fworld_def)
  have "prog_reachable any_client 1 (start_program (bind CancellationTokenSource_ctor k))"
    by (rule start_reachable) (simp_all add: any_client_def)
  then have r: "prog_reachable any_client 1 (put 0 (Run User (bind CancellationTokenSource_ctor k) # frames ?I 0)
      (base ?I) empty_memory ?I)" unfolding token_start .
  have "(prog_step any_client 1)\<^sup>*\<^sup>*
      (put 0 (Run User (bind CancellationTokenSource_ctor k) # frames ?I 0) (base ?I) empty_memory ?I)
      (scene ?I 0 8 16 (source_at Pending 16 None) (token_at Pending 0 None) [] [Run User (k 8)]
        (construct_task 8 (TokenSourceTask 16) (construct_task 16 TokenTask empty_memory))
        [Created 8, Created 16, Added 8 16])"
    by (rule moves_steps [OF source_created [OF _ new any]]) simp_all
  then show ?thesis using r by (rule prog_reachable_steps)
qed

lemma more_moves:
  assumes "prog_reachable any_client 1 W" and "moves any_client ans 0 fs W = Some W'"
  shows "prog_reachable any_client 1 W'"
  by (rule prog_reachable_steps [OF moves_steps [OF assms(2)] assms(1)]) simp

text \<open>
  C20: There is a run in which an action registered with a cancellation token is never called: a
  client calls \<open>WhenCanceled\<close>, another passes \<open>WhenChanged\<close> of the same token to \<open>WhenAny\<close>, and the
  source is cancelled. In the end all threads are idle and the token says it was cancelled, but
  the continuation with the action, added to the token, is pending and was not called.
\<close>

theorem cancellation_action_lost:
  "\<exists>W. prog_reachable any_client 1 W \<and> (\<forall>u. frames W u = [])
    \<and> reads (CancellationToken_IsCanceled 1 16) W = Returns True
    \<and> Added 16 24 \<in> set (flog (base W)) \<and> map_option fstate (heap (base W) 24) = Some Pending
    \<and> task_calls 24 (flog (base W)) = 0"
proof -
  note more = more_moves [where ans = "\<lambda>_ _. ReturnVoid"]
  have 1: "prog_reachable any_client 1 lost_start"
    by (rule more [OF token_program_starts [where k = lost_program] lost_created])
  note 2 = more [OF more [OF 1 [unfolded lost_start_def] lost_cancel] lost_token]
  have m: "task_of lost_memory 16 = TokenTask"
    "task_of (construct_value 16 (BoolValue True) lost_memory) 40 = WhenAnyTask False"
    "slots (construct_value 16 (BoolValue True) lost_memory) 16 = Some (BoolValue True)"
    by (simp_all add: lost_memory_def construct_value_def)
  note 3 = more [OF more [OF 2 [OF m(1)] lost_any [OF m(2)]] lost_any_set [OF m(3)]]
  note 4 = more [OF more [OF 3 lost_wind_up(1)] lost_wind_up(2)]
  show ?thesis
    by (rule exI, rule conjI [OF 4])
      (auto simp: reads_def CancellationToken_IsCanceled_def lost_defs lost_log_def lost_memory_def construct_value_def)
qed

text \<open>
  There is a run in which \<open>WhenAll\<close> does not notice that one of its parents failed: its other
  parent is the future of a cancellation token with a registered action. When all threads are
  idle again the promise has failed, and the future of \<open>WhenAll\<close> is still pending.
\<close>

theorem when_all_misses_failure:
  "\<exists>W. prog_reachable any_client 1 W \<and> (\<forall>u. frames W u = [])
    \<and> task_of (memory W) 40 = WhenAllTask (OfArray 1 1) (new_when_all [32, 16])
    \<and> map_option fstate (heap (base W) 32) = Some Failed \<and> TaskCaught 40 \<in> set (flog (base W))
    \<and> map_option fstate (heap (base W) 40) = Some Pending"
proof -
  note more = more_moves [where ans = "\<lambda>_ _. ReturnVoid"]
  have m: "task_of stuck_memory 40 = WhenAllTask (OfArray 1 1) (new_when_all [32, 16])"
    by (simp add: stuck_memory_def)
  note 1 = more [OF token_program_starts [where k = stuck_program] stuck_created]
  note 2 = more [OF more [OF 1 stuck_fails] stuck_ignored [OF m]]
  show ?thesis
    by (rule exI, rule conjI [OF 2])
      (use m in \<open>auto simp: lost_world_def erring_def promise_at_def allf_def fstate_def stuck_log_def\<close>)
qed

end
