(* ===== verification/Guid.thy ===== *)
theory Guid
  imports Mso_Prelude "HOL-Library.Char_ord"
begin

unbundle bit_operations_syntax

text \<open>
  GUIDs (\<open>libs/guid/include/guid/msoGuidDetails.h\<close>, \<open>libs/platform_posix/include/guiddef.h\<close>): the
  parser of GUID literals that runs at compile time, and the comparisons.
\<close>

section \<open>The type\<close>

record GUID =
  Data1 :: "32 word"
  Data2 :: "16 word"
  Data3 :: "16 word"
  Data4 :: "8 word list"

text \<open>\<open>Data4\<close> is an array of eight bytes.\<close>

definition guid_ok :: "GUID \<Rightarrow> bool" where
  "guid_ok g \<longleftrightarrow> length (Data4 g) = 8"

section \<open>Reading a literal\<close>

definition H2U :: "8 word list" where
  "H2U = replicate 48 0 @ [0, 1, 2, 3, 4, 5, 6, 7, 8, 9] @ replicate 7 0 @ [10, 11, 12, 13, 14, 15]
     @ replicate 26 0 @ [10, 11, 12, 13, 14, 15] @ replicate 153 0"

text \<open>A byte of the table is promoted to an \<open>int\<close> of 32 bits before it is shifted.\<close>

definition hex_at :: "string \<Rightarrow> nat \<Rightarrow> 32 word" where
  "hex_at g i = ucast (H2U ! of_char (g ! i))"

definition read_places :: "nat list" where
  "read_places = [0..<8] @ [9..<13] @ [14..<18] @ [19..<23] @ [24..<36]"

definition byte_at :: "string \<Rightarrow> nat \<Rightarrow> 8 word" where
  "byte_at g i = ucast (push_bit 4 (hex_at g i) OR hex_at g (i + 1))"

definition short_at :: "string \<Rightarrow> nat \<Rightarrow> 16 word" where
  "short_at g i = ucast (push_bit 12 (hex_at g i) OR push_bit 8 (hex_at g (i + 1)) OR push_bit 4 (hex_at g (i + 2))
     OR hex_at g (i + 3))"

definition int_at :: "string \<Rightarrow> nat \<Rightarrow> 32 word" where
  "int_at g i = push_bit 28 (hex_at g i) OR push_bit 24 (hex_at g (i + 1)) OR push_bit 20 (hex_at g (i + 2))
     OR push_bit 16 (hex_at g (i + 3)) OR push_bit 12 (hex_at g (i + 4)) OR push_bit 8 (hex_at g (i + 5))
     OR push_bit 4 (hex_at g (i + 6)) OR hex_at g (i + 7)"

text \<open>
  A \<open>char\<close> is signed: one that is not ASCII is a negative index. The places between the digits
  are not looked at.
\<close>

definition StringToGuid :: "string \<Rightarrow> GUID outcome" where
  "StringToGuid g =
     (if list_all (\<lambda>i. of_char (g ! i) < (128 :: nat)) read_places
      then Returns \<lparr>Data1 = int_at g 0, Data2 = short_at g 9, Data3 = short_at g 14,
             Data4 = map (byte_at g) [19, 21, 24, 26, 28, 30, 32, 34]\<rparr>
      else Crashes OutOfBounds)"

section \<open>Comparing\<close>

text \<open>The sixteen bytes of a GUID in the memory of a little-endian machine.\<close>

definition short_bytes :: "16 word \<Rightarrow> 8 word list" where
  "short_bytes x = [ucast x, ucast (drop_bit 8 x)]"

definition int_bytes :: "32 word \<Rightarrow> 8 word list" where
  "int_bytes x = [ucast x, ucast (drop_bit 8 x), ucast (drop_bit 16 x), ucast (drop_bit 24 x)]"

definition guid_bytes :: "GUID \<Rightarrow> 8 word list" where
  "guid_bytes g = int_bytes (Data1 g) @ short_bytes (Data2 g) @ short_bytes (Data3 g) @ Data4 g"

text \<open>\<open>memcmp\<close> of the sixteen bytes.\<close>

definition IsEqualGUID :: "GUID \<Rightarrow> GUID \<Rightarrow> bool" where
  "IsEqualGUID rguid1 rguid2 \<longleftrightarrow> take 16 (guid_bytes rguid1) = take 16 (guid_bytes rguid2)"

text \<open>
  The inline comparison reads four \<open>unsigned long\<close>s of \<open>sizeLong\<close> bytes from each: its answer
  depends on the bytes behind the GUIDs where they have eight.
\<close>

fun longs_equal :: "nat \<Rightarrow> 8 word list \<Rightarrow> 8 word list \<Rightarrow> nat \<Rightarrow> bool outcome" where
  "longs_equal sizeLong b1 b2 0 = Returns True"
| "longs_equal sizeLong b1 b2 (Suc n) =
     (if length b1 < sizeLong \<or> length b2 < sizeLong then Crashes OutOfBounds
      else if take sizeLong b1 = take sizeLong b2
      then longs_equal sizeLong (drop sizeLong b1) (drop sizeLong b2) n else Returns False)"

definition InlineIsEqualGUID :: "nat \<Rightarrow> GUID \<Rightarrow> GUID \<Rightarrow> bool outcome" where
  "InlineIsEqualGUID sizeLong rguid1 rguid2 = longs_equal sizeLong (guid_bytes rguid1) (guid_bytes rguid2) 4"

lemma same_byte:
  fixes x y :: "'a :: len word"
  assumes "ucast (drop_bit k x) = (ucast (drop_bit k y) :: 8 word)" and "k \<le> n" and "n < k + 8"
  shows "bit x n = bit y n"
proof -
  have "n - k < 8" and "k + (n - k) = n" using assms(2,3) by simp_all
  then show ?thesis using arg_cong [OF assms(1), of "\<lambda>b. bit b (n - k)"] by (simp add: bit_simps)
qed

lemma short_bytes_inject: "short_bytes x = short_bytes y \<longleftrightarrow> x = y"
proof
  assume "short_bytes x = short_bytes y"
  then have eq: "ucast (drop_bit 0 x) = (ucast (drop_bit 0 y) :: 8 word)"
    "ucast (drop_bit 8 x) = (ucast (drop_bit 8 y) :: 8 word)"
    by (simp_all add: short_bytes_def)
  show "x = y"
  proof (rule bit_word_eqI)
    fix n assume "n < LENGTH(16)"
    then show "bit x n = bit y n"
      using same_byte [OF eq(1), of n] same_byte [OF eq(2), of n] by (cases "n < 8") simp_all
  qed
qed simp

lemma int_bytes_inject: "int_bytes x = int_bytes y \<longleftrightarrow> x = y"
proof
  assume "int_bytes x = int_bytes y"
  then have eq: "ucast (drop_bit 0 x) = (ucast (drop_bit 0 y) :: 8 word)"
    "ucast (drop_bit 8 x) = (ucast (drop_bit 8 y) :: 8 word)"
    "ucast (drop_bit 16 x) = (ucast (drop_bit 16 y) :: 8 word)" "ucast (drop_bit 24 x) = (ucast (drop_bit 24 y) :: 8 word)"
    by (simp_all add: int_bytes_def)
  show "x = y"
  proof (rule bit_word_eqI)
    fix n assume n: "n < LENGTH(32)"
    consider "n < 8" | "8 \<le> n" "n < 16" | "16 \<le> n" "n < 24" | "24 \<le> n" by linarith
    then show "bit x n = bit y n"
      using n same_byte [OF eq(1), of n] same_byte [OF eq(2), of n] same_byte [OF eq(3), of n] same_byte [OF eq(4), of n]
      by cases simp_all
  qed
qed simp

lemma length_guid_bytes: "guid_ok g \<Longrightarrow> length (guid_bytes g) = 16"
  by (simp add: guid_bytes_def int_bytes_def short_bytes_def guid_ok_def)

lemma guid_bytes_inject: "guid_bytes g = guid_bytes h \<longleftrightarrow> g = h"
  by (cases g; cases h)
    (auto simp: guid_bytes_def append_eq_append_conv int_bytes_inject short_bytes_inject
      int_bytes_def short_bytes_def simp flip: int_bytes_inject short_bytes_inject)

lemma IsEqualGUID_iff: "guid_ok g \<Longrightarrow> guid_ok h \<Longrightarrow> IsEqualGUID g h \<longleftrightarrow> g = h"
  by (simp add: IsEqualGUID_def length_guid_bytes guid_bytes_inject)

section \<open>The spelling of a GUID\<close>

text \<open>
  What the documentation asks for: digits in groups, in capitals or not, here chosen for every
  place by \<open>up\<close>.
\<close>

definition hex_char :: "bool \<Rightarrow> nat \<Rightarrow> char" where
  "hex_char upper d = char_of (if d < 10 then 48 + d else if upper then 55 + d else 87 + d)"

definition nibble :: "nat \<Rightarrow> 'a :: len word \<Rightarrow> nat" where
  "nibble k x = unat (drop_bit (4 * k) x AND 15)"

definition spell :: "(nat \<Rightarrow> bool) \<Rightarrow> GUID \<Rightarrow> string" where
  "spell up g =
     (let a = (\<lambda>i k x. hex_char (up i) (nibble k (x :: 32 word))); b = (\<lambda>i k x. hex_char (up i) (nibble k (x :: 16 word)));
          c = (\<lambda>i k x. hex_char (up i) (nibble k (x :: 8 word)))
      in [a 0 7 (Data1 g), a 1 6 (Data1 g), a 2 5 (Data1 g), a 3 4 (Data1 g),
        a 4 3 (Data1 g), a 5 2 (Data1 g), a 6 1 (Data1 g), a 7 0 (Data1 g),
        CHR ''-'', b 9 3 (Data2 g), b 10 2 (Data2 g), b 11 1 (Data2 g),
        b 12 0 (Data2 g), CHR ''-'', b 14 3 (Data3 g), b 15 2 (Data3 g),
        b 16 1 (Data3 g), b 17 0 (Data3 g), CHR ''-'', c 19 1 (Data4 g ! 0),
        c 20 0 (Data4 g ! 0), c 21 1 (Data4 g ! 1), c 22 0 (Data4 g ! 1), CHR ''-'',
        c 24 1 (Data4 g ! 2), c 25 0 (Data4 g ! 2), c 26 1 (Data4 g ! 3), c 27 0 (Data4 g ! 3),
        c 28 1 (Data4 g ! 4), c 29 0 (Data4 g ! 4), c 30 1 (Data4 g ! 5), c 31 0 (Data4 g ! 5),
        c 32 1 (Data4 g ! 6), c 33 0 (Data4 g ! 6), c 34 1 (Data4 g ! 7), c 35 0 (Data4 g ! 7)])"

lemma nibble_less: "nibble k x < 16"
proof -
  have "drop_bit (4 * k) x AND 15 = take_bit 4 (drop_bit (4 * k) x)"
    by (simp add: take_bit_eq_mask mask_eq_exp_minus_1)
  then show ?thesis using take_bit_nat_less_exp [of 4] by (simp add: nibble_def unsigned_take_bit_eq)
qed

lemma H2U_blocks: "H2U = replicate 48 0 @ map of_nat [0..<10] @ replicate 7 0 @ map of_nat [10..<16]
    @ replicate 26 0 @ map of_nat [10..<16] @ replicate 153 0"
proof -
  have "map of_nat [0..<10] = [0, 1, 2, 3, 4, 5, 6, 7, 8, 9 :: 8 word]" by (simp add: upt_rec)
  moreover have "map of_nat [10..<16] = [10, 11, 12, 13, 14, 15 :: 8 word]" by (simp add: upt_rec)
  ultimately show ?thesis by (simp add: H2U_def)
qed

lemma of_hex_char: "d < 16 \<Longrightarrow> of_char (hex_char u d) = (if d < 10 then 48 + d else if u then 55 + d else 87 + d)"
  by (simp add: hex_char_def)

lemma H2U_hex_char:
  assumes "d < 16"
  shows "H2U ! of_char (hex_char u d) = of_nat d" and "of_char (hex_char u d) < (128 :: nat)"
  unfolding of_hex_char [OF assms] H2U_blocks using assms by (auto simp: nth_append simp del: upt_rec_numeral)

lemma hex_at_char: "d < 16 \<Longrightarrow> g ! i = hex_char u d \<Longrightarrow> hex_at g i = of_nat d"
  by (simp add: hex_at_def H2U_hex_char(1) unsigned_of_nat take_bit_nat_eq_self)

lemma nibble_word: "(of_nat (nibble k x) :: 32 word) = ucast (take_bit 4 (drop_bit (4 * k) x))" for x :: "'a :: len word"
proof -
  have "drop_bit (4 * k) x AND 15 = take_bit 4 (drop_bit (4 * k) x)"
    by (simp add: take_bit_eq_mask mask_eq_exp_minus_1)
  moreover have "of_nat (unat y) = (ucast y :: 32 word)" for y :: "'a word" by transfer simp
  ultimately show ?thesis by (simp add: nibble_def)
qed

lemma bit_nibble: "bit (push_bit j (ucast (take_bit 4 (drop_bit j x)) :: 'b :: len word)) n
    \<longleftrightarrow> j \<le> n \<and> n < j + 4 \<and> n < LENGTH('b) \<and> bit x n" for x :: "'a :: len word"
  by (auto simp: bit_simps intro: less_imp_diff_less)

lemma int_of_nibbles:
  fixes x :: "32 word"
  defines "p \<equiv> \<lambda>j. push_bit j (ucast (take_bit 4 (drop_bit j x)) :: 32 word)"
  shows "p 28 OR p 24 OR p 20 OR p 16 OR p 12 OR p 8 OR p 4 OR p 0 = x"
proof (rule bit_word_eqI)
  fix n assume n: "n < LENGTH(32)"
  consider "n < 4" | "4 \<le> n \<and> n < 8" | "8 \<le> n \<and> n < 12" | "12 \<le> n \<and> n < 16" | "16 \<le> n \<and> n < 20"
    | "20 \<le> n \<and> n < 24" | "24 \<le> n \<and> n < 28" | "28 \<le> n" by linarith
  then show "bit (p 28 OR p 24 OR p 20 OR p 16 OR p 12 OR p 8 OR p 4 OR p 0) n = bit x n"
    unfolding p_def bit_or_iff bit_nibble using n by cases simp_all
qed

lemma short_of_nibbles:
  fixes x :: "16 word"
  defines "p \<equiv> \<lambda>j. push_bit j (ucast (take_bit 4 (drop_bit j x)) :: 32 word)"
  shows "ucast (p 12 OR p 8 OR p 4 OR p 0) = x"
proof (rule bit_word_eqI)
  fix n assume n: "n < LENGTH(16)"
  consider "n < 4" | "4 \<le> n \<and> n < 8" | "8 \<le> n \<and> n < 12" | "12 \<le> n" by linarith
  then show "bit (ucast (p 12 OR p 8 OR p 4 OR p 0) :: 16 word) n = bit x n"
    unfolding p_def bit_ucast_iff bit_or_iff bit_nibble using n by cases simp_all
qed

lemma byte_of_nibbles:
  fixes x :: "8 word"
  defines "p \<equiv> \<lambda>j. push_bit j (ucast (take_bit 4 (drop_bit j x)) :: 32 word)"
  shows "ucast (p 4 OR p 0) = x"
proof (rule bit_word_eqI)
  fix n assume n: "n < LENGTH(8)"
  consider "n < 4" | "4 \<le> n" by linarith
  then show "bit (ucast (p 4 OR p 0) :: 8 word) n = bit x n"
    unfolding p_def bit_ucast_iff bit_or_iff bit_nibble using n by cases simp_all
qed

lemma hex_at_nibble: "g ! i = hex_char u (nibble k x) \<Longrightarrow> hex_at g i = ucast (take_bit 4 (drop_bit (4 * k) x))"
  using hex_at_char [OF nibble_less] nibble_word by metis

lemma int_at_spelled:
  assumes "list_all (\<lambda>k. s ! (i + k) = hex_char (up (i + k)) (nibble (7 - k) x)) [0, 1, 2, 3, 4, 5, 6, 7]"
  shows "int_at s i = x"
  using assms hex_at_nibble [of s _ _ _ x] int_of_nibbles [of x]
  by (simp add: int_at_def)

lemma short_at_spelled:
  assumes "list_all (\<lambda>k. s ! (i + k) = hex_char (up (i + k)) (nibble (3 - k) x)) [0, 1, 2, 3]"
  shows "short_at s i = x"
  using assms hex_at_nibble [of s _ _ _ x] short_of_nibbles [of x]
  by (simp add: short_at_def)

lemma byte_at_spelled:
  assumes "s ! i = hex_char (up i) (nibble 1 x)" and "s ! (i + 1) = hex_char (up (i + 1)) (nibble 0 x)"
  shows "byte_at s i = x"
  using hex_at_nibble [OF assms(1)] hex_at_nibble [OF assms(2)] byte_of_nibbles [of x]
  by (simp add: byte_at_def)

lemma spell_read:
  assumes "guid_ok g"
  shows "StringToGuid (spell up g) = Returns g \<and> length (spell up g) = 36"
proof
  show len: "length (spell up g) = 36" by (simp add: spell_def)
  have "list_all (\<lambda>c. of_char c < (128 :: nat)) (spell up g)"
    by (simp add: spell_def H2U_hex_char(2) [OF nibble_less])
  then have "\<forall>i < 36. of_char (spell up g ! i) < (128 :: nat)" using len by (simp add: list_all_length)
  moreover have "\<forall>i \<in> set read_places. i < 36" by (simp add: read_places_def)
  ultimately have ascii: "list_all (\<lambda>i. of_char (spell up g ! i) < (128 :: nat)) read_places"
    unfolding list_all_iff by blast
  have 1: "int_at (spell up g) 0 = Data1 g" by (rule int_at_spelled [where up = up]) (simp add: spell_def)
  have 2: "short_at (spell up g) 9 = Data2 g" "short_at (spell up g) 14 = Data3 g"
    by (rule short_at_spelled [where up = up], simp add: spell_def)+
  have 3: "map (byte_at (spell up g)) [19, 21, 24, 26, 28, 30, 32, 34] = map ((!) (Data4 g)) [0, 1, 2, 3, 4, 5, 6, 7]"
    using byte_at_spelled [of "spell up g" _ up] by (simp add: spell_def)
  obtain a b c d e f h i where bs: "Data4 g = [a, b, c, d, e, f, h, i]"
    using assms by (auto simp: guid_ok_def eval_nat_numeral length_Suc_conv)
  show "StringToGuid (spell up g) = Returns g"
    using ascii 1 2 3 by (simp add: StringToGuid_def bs)
qed

text \<open>
  C29: A GUID written as the documentation asks, in groups of hexadecimal digits, each in capitals or
  not, is read back, and two GUIDs, each read from a spelling of its own, compare equal exactly if
  they are.
\<close>

theorem GUID_roundtrip:
  assumes "guid_ok g" and "guid_ok h"
  shows "StringToGuid (spell up g) = Returns g \<and> length (spell up g) = 36
    \<and> (and_then (StringToGuid (spell up g)) (\<lambda>g1. and_then (StringToGuid (spell up1 h)) (\<lambda>h1.
          Returns (IsEqualGUID g1 h1))) = Returns (g = h))"
  using spell_read [OF assms(1), of up] spell_read [OF assms(2), of up1] IsEqualGUID_iff [OF assms] by simp

lemma GUID_roundtrip_witness:
  "let g = \<lparr>Data1 = 0x423023e6, Data2 = 0x5c16, Data3 = 0x4efe, Data4 = [0xb9, 0x5a, 0xde, 0xec, 0x04, 0x3b, 0x7e, 0xa7]\<rparr>;
       h = g\<lparr>Data3 := 0x4eff\<rparr>
   in StringToGuid (spell (\<lambda>i. even i) g) = Returns g
     \<and> and_then (StringToGuid (spell (\<lambda>i. even i) g)) (\<lambda>g1. and_then (StringToGuid (spell (\<lambda>i. True) h)) (\<lambda>h1.
          Returns (IsEqualGUID g1 h1))) = Returns False"
proof -
  let ?g = "\<lparr>Data1 = 0x423023e6, Data2 = 0x5c16, Data3 = 0x4efe, Data4 = [0xb9, 0x5a, 0xde, 0xec, 0x04, 0x3b, 0x7e, 0xa7]\<rparr>"
  have ok: "guid_ok ?g" "guid_ok (?g\<lparr>Data3 := 0x4eff\<rparr>)" and ne: "(?g = ?g\<lparr>Data3 := 0x4eff\<rparr>) = False"
    by (simp_all add: guid_ok_def)
  show ?thesis using GUID_roundtrip [OF ok, of even "\<lambda>i. True"] unfolding Let_def ne by blast
qed

text \<open>The inline comparison is right where an \<open>unsigned long\<close> has four bytes; with eight it reads past the end.\<close>

lemma InlineIsEqualGUID_32:
  assumes "guid_ok g" and "guid_ok h"
  shows "InlineIsEqualGUID 4 g h = Returns (g = h)"
proof -
  have step: "longs_equal 4 x y (Suc n) = (if take 4 x = take 4 y then longs_equal 4 (drop 4 x) (drop 4 y) n else Returns False)"
    if "4 \<le> length x" and "4 \<le> length y" for x y n using that by simp
  have "longs_equal 4 x y n = Returns (x = y)" if "length x = 4 * n" and "length y = 4 * n" for x y n
    using that
  proof (induction n arbitrary: x y)
    case (Suc n)
    have "x = y \<longleftrightarrow> take 4 x = take 4 y \<and> drop 4 x = drop 4 y" by (metis append_take_drop_id)
    then show ?case using Suc.IH [of "drop 4 x" "drop 4 y"] Suc.prems by (simp add: step del: longs_equal.simps)
  qed simp
  then show ?thesis
    using assms by (simp add: InlineIsEqualGUID_def length_guid_bytes guid_bytes_inject)
qed

lemma InlineIsEqualGUID_64:
  assumes "guid_ok g"
  shows "InlineIsEqualGUID 8 g g = Crashes OutOfBounds"
  using length_guid_bytes [OF assms] by (simp add: InlineIsEqualGUID_def eval_nat_numeral)

end
