(* ===== verification/Query_Cast.thy ===== *)
theory Query_Cast
  imports Ref_Count Guid
begin

text \<open>
  \<open>QueryInterface\<close> and \<open>query_cast\<close> (\<open>libs/object/include/object/queryCast.h\<close>, \<open>unknownObject.h\<close>,
  \<open>libs/comUtil/include/comUtil/qiCastCore.h\<close>): the search for a type by its GUID in the bases of a
  class, which templates unfold at compile time, written as recursions over the class.
\<close>

section \<open>Classes\<close>

text \<open>
  A class with its bases, each at an offset. A user's interface has no \<open>QueryCast\<close>; a user's class has
  the one of its \<open>n\<close>-th base. The others are the templates of \<open>queryCast.h\<close>: \<open>Chain\<close> is
  \<open>QueryCastChain\<close> with the bases of its type that can be queried, \<open>Derived\<close> is \<open>QueryCastDerived\<close>, for a
  class in which it has the given offset, \<open>WithGuid\<close> is \<open>QueryCastGuid\<close>, \<open>Hidden\<close> is \<open>QueryCastHidden\<close> and
  \<open>CastList\<close> is \<open>QueryCastList\<close>, which \<open>UnknownObject\<close> is with simple counting; \<open>WeakRefObject\<close> is
  \<open>UnknownObject\<close> with weak references.
\<close>

datatype ctype =
    Interface "GUID option" "(ptr \<times> ctype) list"
  | Class "GUID option" nat "(ptr \<times> ctype) list"
  | Chain ctype "(ptr \<times> ctype) list"
  | Derived GUID ptr
  | WithGuid GUID ctype
  | Hidden ctype
  | CastList "(ptr \<times> ctype) list"
  | WeakRefObject "(ptr \<times> ctype) list"

fun bases_of :: "ctype \<Rightarrow> (ptr \<times> ctype) list" where
  "bases_of (Interface g bs) = bs"
| "bases_of (Class g i bs) = bs"
| "bases_of (Chain t bs) = [(0, t)]"
| "bases_of (Derived g off) = []"
| "bases_of (WithGuid g t) = [(0, t)]"
| "bases_of (Hidden t) = [(0, t)]"
| "bases_of (CastList bs) = bs"
| "bases_of (WeakRefObject bs) = bs"

lemma bases_smaller: "(off, b) \<in> set (bases_of t) \<Longrightarrow> size b < size t"
  by (cases t) (auto dest!: size_list_estimation' [OF _ order_refl, of _ _ "size_prod (\<lambda>_. 0) size"])

text \<open>The subobjects of a class with their offsets, itself included.\<close>

function subobjects :: "ctype \<Rightarrow> (ptr \<times> ctype) list" where
  "subobjects t = (0, t) # concat (map (\<lambda>(off, b). map (\<lambda>(off1, b1). (off + off1, b1)) (subobjects b)) (bases_of t))"
  by auto
termination by (relation "measure size") (auto dest: bases_smaller)

declare subobjects.simps [simp del]

section \<open>Types and their GUIDs\<close>

definition IID_IUnknown :: GUID where
  "IID_IUnknown = \<lparr>Data1 = 0, Data2 = 0, Data3 = 0, Data4 = [0xC0, 0, 0, 0, 0, 0, 0, 0x46]\<rparr>"

definition IID_ObjectWeakRef :: GUID where
  "IID_ObjectWeakRef = \<lparr>Data1 = 0x3063C26C, Data2 = 0xDB10, Data3 = 0x4BCC,
     Data4 = [0xAF, 0x5C, 0x34, 0x0E, 0x4D, 0x7A, 0xA0, 0xF6]\<rparr>"

definition IID_QueryCastBridge :: GUID where
  "IID_QueryCastBridge = \<lparr>Data1 = 0xA39D5FC8, Data2 = 0x0641, Data3 = 0x4EEE,
     Data4 = [0x8C, 0x97, 0xDD, 0xEF, 0x11, 0x4D, 0x48, 0x7D]\<rparr>"

fun type_guid :: "ctype \<Rightarrow> GUID option" where
  "type_guid (Interface g bs) = g"
| "type_guid (Class g i bs) = g"
| "type_guid _ = None"

section \<open>Query casts\<close>

text \<open>\<open>GuidQueryCast\<close>, for a type that has a GUID and for one that has none.\<close>

definition GuidQueryCast :: "ctype \<Rightarrow> ptr \<Rightarrow> GUID \<Rightarrow> ptr" where
  "GuidQueryCast t obj riid =
     (case type_guid t of None \<Rightarrow> 0 | Some g \<Rightarrow> if IsEqualGUID riid g then obj else 0)"

definition or_by_guid :: "ctype \<Rightarrow> ptr \<Rightarrow> GUID \<Rightarrow> ptr \<Rightarrow> ptr" where
  "or_by_guid t obj riid result = (if result \<noteq> 0 then result else GuidQueryCast t obj riid)"

fun first_found :: "ptr list \<Rightarrow> ptr" where
  "first_found [] = 0"
| "first_found (result # rs) = (if result \<noteq> 0 then result else first_found rs)"

text \<open>
  The method \<open>QueryCast\<close> of each class; an interface has none, which finds nothing. \<open>weakRef\<close> reads the
  pointer to the counters in front of an object.
\<close>

fun QueryCast :: "(ptr \<Rightarrow> ptr) \<Rightarrow> ctype \<Rightarrow> ptr \<Rightarrow> GUID \<Rightarrow> ptr" where
  "QueryCast weakRef (Interface g bs) obj riid = 0"
| "QueryCast weakRef (Class g i bs) obj riid =
     (if i < length bs then map (\<lambda>(off, b). QueryCast weakRef b (obj + off) riid) bs ! i else 0)"
| "QueryCast weakRef (Chain t bs) obj riid =
     first_found (map (\<lambda>(off, b). or_by_guid b (obj + off) riid (QueryCast weakRef b (obj + off) riid)) ((0, t) # bs))"
| "QueryCast weakRef (Derived g off) obj riid = (if IsEqualGUID riid g then obj - off else 0)"
| "QueryCast weakRef (WithGuid g t) obj riid = (if IsEqualGUID g riid then obj else 0)"
| "QueryCast weakRef (Hidden t) obj riid = 0"
| "QueryCast weakRef (CastList bs) obj riid =
     first_found (map (\<lambda>(off, b). or_by_guid b (obj + off) riid (QueryCast weakRef b (obj + off) riid)) bs)"
| "QueryCast weakRef (WeakRefObject bs) obj riid =
     (if IsEqualGUID riid IID_ObjectWeakRef then weakRef obj
      else first_found (map (\<lambda>(off, b). or_by_guid b (obj + off) riid (QueryCast weakRef b (obj + off) riid)) bs))"

definition QueryCastHelper_QueryCast :: "(ptr \<Rightarrow> ptr) \<Rightarrow> ctype \<Rightarrow> ptr \<Rightarrow> GUID \<Rightarrow> ptr" where
  "QueryCastHelper_QueryCast weakRef t obj riid = or_by_guid t obj riid (QueryCast weakRef t obj riid)"

section \<open>The first \<open>IUnknown\<close>\<close>

definition is_IUnknown :: "ctype \<Rightarrow> bool" where
  "is_IUnknown t \<longleftrightarrow> (case t of Interface (Some g) bs \<Rightarrow> IsEqualGUID g IID_IUnknown | _ \<Rightarrow> False)"

definition derives_from_IUnknown :: "ctype \<Rightarrow> bool" where
  "derives_from_IUnknown t \<longleftrightarrow> list_ex (\<lambda>(off, b). is_IUnknown b) (subobjects t)"

text \<open>\<open>static_cast<IUnknown*>\<close>; a program in which a class has several does not compile.\<close>

definition static_cast_IUnknown :: "ctype \<Rightarrow> ptr \<Rightarrow> ptr" where
  "static_cast_IUnknown t source =
     (case filter (\<lambda>(off, b). is_IUnknown b) (subobjects t) of [] \<Rightarrow> 0 | (off, b) # _ \<Rightarrow> source + off)"

fun has_StaticCastElseNull :: "ctype \<Rightarrow> bool" where
  "has_StaticCastElseNull (Interface g bs) = False"
| "has_StaticCastElseNull (Class g i bs) =
     (if i < length bs then map (\<lambda>(off, b). has_StaticCastElseNull b) bs ! i else False)"
| "has_StaticCastElseNull (Chain t bs) = has_StaticCastElseNull t"
| "has_StaticCastElseNull (Derived g off) = False"
| "has_StaticCastElseNull (WithGuid g t) = has_StaticCastElseNull t"
| "has_StaticCastElseNull (Hidden t) = has_StaticCastElseNull t"
| "has_StaticCastElseNull (CastList bs) = True"
| "has_StaticCastElseNull (WeakRefObject bs) = True"

fun CastFirst :: "(bool \<times> ptr) list \<Rightarrow> ptr" where
  "CastFirst [] = 0"
| "CastFirst ((isConvertible, p) # rs) = (if isConvertible then p else CastFirst rs)"

text \<open>\<open>StaticCastHelper::Cast\<close>, with the method \<open>StaticCastElseNull\<close> of the classes that have it.\<close>

fun StaticCastHelper_Cast :: "ctype \<Rightarrow> ptr \<Rightarrow> ptr" where
  "StaticCastHelper_Cast (Interface g bs) source = static_cast_IUnknown (Interface g bs) source"
| "StaticCastHelper_Cast (Class g i bs) source =
     (if has_StaticCastElseNull (Class g i bs)
      then map (\<lambda>(off, b). StaticCastHelper_Cast b (source + off)) bs ! i
      else static_cast_IUnknown (Class g i bs) source)"
| "StaticCastHelper_Cast (Chain t bs) source =
     (if has_StaticCastElseNull t then StaticCastHelper_Cast t source else static_cast_IUnknown (Chain t bs) source)"
| "StaticCastHelper_Cast (Derived g off) source = static_cast_IUnknown (Derived g off) source"
| "StaticCastHelper_Cast (WithGuid g t) source =
     (if has_StaticCastElseNull t then StaticCastHelper_Cast t source else static_cast_IUnknown (WithGuid g t) source)"
| "StaticCastHelper_Cast (Hidden t) source =
     (if has_StaticCastElseNull t then StaticCastHelper_Cast t source else static_cast_IUnknown (Hidden t) source)"
| "StaticCastHelper_Cast (CastList bs) source =
     CastFirst (map (\<lambda>(off, b). (derives_from_IUnknown b, StaticCastHelper_Cast b (source + off))) bs)"
| "StaticCastHelper_Cast (WeakRefObject bs) source =
     CastFirst (map (\<lambda>(off, b). (derives_from_IUnknown b, StaticCastHelper_Cast b (source + off))) bs)"

section \<open>What a query cast finds\<close>

text \<open>A type goes by a GUID if it is its own or the one \<open>QueryCastGuid\<close> gives it.\<close>

fun goes_by :: "ctype \<Rightarrow> GUID \<Rightarrow> bool" where
  "goes_by (Interface g bs) riid = (case g of None \<Rightarrow> False | Some i \<Rightarrow> IsEqualGUID riid i)"
| "goes_by (Class g n bs) riid = (case g of None \<Rightarrow> False | Some i \<Rightarrow> IsEqualGUID riid i)"
| "goes_by (WithGuid g t) riid = IsEqualGUID riid g"
| "goes_by _ riid = False"

lemma IsEqualGUID_sym: "IsEqualGUID g h = IsEqualGUID h g"
  by (auto simp: IsEqualGUID_def)

text \<open>
  What an address found stands for: a subobject of the type asked for, the class around a
  \<open>QueryCastDerived\<close>, or the counters of the object.
\<close>

definition stands_for :: "(ptr \<Rightarrow> ptr) \<Rightarrow> ctype \<Rightarrow> ptr \<Rightarrow> GUID \<Rightarrow> ptr \<Rightarrow> bool" where
  "stands_for weakRef b at riid p \<longleftrightarrow>
     (p = at \<and> goes_by b riid)
   \<or> (case b of
        Derived g d \<Rightarrow> IsEqualGUID riid g \<and> p = at - d
      | WeakRefObject bs \<Rightarrow> IsEqualGUID riid IID_ObjectWeakRef \<and> p = weakRef at
      | _ \<Rightarrow> False)"

definition found_in :: "(ptr \<Rightarrow> ptr) \<Rightarrow> ctype \<Rightarrow> ptr \<Rightarrow> GUID \<Rightarrow> ptr \<Rightarrow> bool" where
  "found_in weakRef t obj riid p \<longleftrightarrow> (\<exists>off b. (off, b) \<in> set (subobjects t) \<and> stands_for weakRef b (obj + off) riid p)"

lemma subobjects_self: "(0, t) \<in> set (subobjects t)"
  by (subst subobjects.simps) simp

lemma subobjects_base:
  "(off, b) \<in> set (bases_of t) \<Longrightarrow> (off1, b1) \<in> set (subobjects b) \<Longrightarrow> (off + off1, b1) \<in> set (subobjects t)"
  by (subst subobjects.simps) force

lemma found_in_self: "stands_for weakRef t obj riid p \<Longrightarrow> found_in weakRef t obj riid p"
  unfolding found_in_def using subobjects_self [of t] by (intro exI [of _ 0] exI [of _ t]) simp

lemma found_in_base:
  assumes "(off, b) \<in> set (bases_of t)" and "found_in weakRef b (obj + off) riid p"
  shows "found_in weakRef t obj riid p"
  using assms(2) subobjects_base [OF assms(1)] unfolding found_in_def by (metis add.assoc)

lemma first_found_in: "first_found rs = p \<Longrightarrow> p \<noteq> 0 \<Longrightarrow> p \<in> set rs"
  by (induction rs) (auto split: if_splits)

lemma or_by_guid_in:
  assumes "or_by_guid t obj riid r \<noteq> 0" and "r \<noteq> 0 \<Longrightarrow> found_in weakRef t obj riid r"
  shows "found_in weakRef t obj riid (or_by_guid t obj riid r)"
  using assms found_in_self [of weakRef t obj riid obj]
  by (cases t) (auto simp: or_by_guid_def GuidQueryCast_def stands_for_def split: option.splits if_splits)

lemma subobjects_cases:
  assumes "(off, b) \<in> set (subobjects t)"
  obtains (self) "off = 0" and "b = t"
  | (base) off1 b1 off2 where "(off1, b1) \<in> set (bases_of t)" and "(off2, b) \<in> set (subobjects b1)" and "off = off1 + off2"
  using assms by (subst (asm) subobjects.simps) auto

lemma subobjects_trans:
  "(off, b) \<in> set (subobjects t) \<Longrightarrow> (off1, b1) \<in> set (subobjects b) \<Longrightarrow> (off + off1, b1) \<in> set (subobjects t)"
proof (induction t arbitrary: off rule: subobjects.induct)
  case (1 t)
  from 1(2) show ?case
  proof (cases rule: subobjects_cases)
    case self
    with 1(3) show ?thesis by simp
  next
    case (base o1 b2 o2)
    then have "(o2 + off1, b1) \<in> set (subobjects b2)" using 1(1) [OF base(1) refl base(2) 1(3)] by simp
    with base show ?thesis using subobjects_base [OF base(1)] by (simp add: add.assoc)
  qed
qed

lemma found_in_subobject:
  assumes "(off, b) \<in> set (subobjects t)" and "found_in weakRef b (obj + off) riid p"
  shows "found_in weakRef t obj riid p"
  using assms(2) subobjects_trans [OF assms(1)] unfolding found_in_def by (metis add.assoc)

lemma first_subobject_in:
  assumes "first_found (map (\<lambda>(off, b). or_by_guid b (obj + off) riid (QueryCast weakRef b (obj + off) riid)) bs) = p"
    and "p \<noteq> 0" and "set bs \<subseteq> set (subobjects t)"
    and "\<And>off b. (off, b) \<in> set bs \<Longrightarrow> QueryCast weakRef b (obj + off) riid \<noteq> 0
          \<Longrightarrow> found_in weakRef b (obj + off) riid (QueryCast weakRef b (obj + off) riid)"
  shows "found_in weakRef t obj riid p"
proof -
  obtain off b where b: "(off, b) \<in> set bs" and p: "p = or_by_guid b (obj + off) riid (QueryCast weakRef b (obj + off) riid)"
    using first_found_in [OF assms(1,2)] by auto
  have "found_in weakRef b (obj + off) riid p"
    unfolding p by (rule or_by_guid_in) (use assms(2) p assms(4) [OF b] in auto)
  then show ?thesis using b assms(3) found_in_subobject by blast
qed

text \<open>The bases a chain names are bases of its type, and a class takes \<open>QueryCast\<close> from a base it has.\<close>

fun names_bases :: "ctype \<Rightarrow> bool" where
  "names_bases (Chain t bs) \<longleftrightarrow> list_all (\<lambda>b. b \<in> set (subobjects t)) bs"
| "names_bases (Class g i bs) \<longleftrightarrow> i < length bs"
| "names_bases _ \<longleftrightarrow> True"

definition compiles :: "ctype \<Rightarrow> bool" where
  "compiles t \<longleftrightarrow> list_all (\<lambda>(off, b). names_bases b) (subobjects t)"

lemma compiles_subobject: "compiles t \<Longrightarrow> (off, b) \<in> set (subobjects t) \<Longrightarrow> compiles b"
  using subobjects_trans by (fastforce simp: compiles_def list_all_iff)

lemma compiles_self: "compiles t \<Longrightarrow> names_bases t"
  using subobjects_self by (fastforce simp: compiles_def list_all_iff)

lemma bases_subobjects: "set (bases_of t) \<subseteq> set (subobjects t)"
  using subobjects_base [OF _ subobjects_self] by fastforce

lemma chain_subobjects: "compiles (Chain t bs) \<Longrightarrow> set ((0, t) # bs) \<subseteq> set (subobjects (Chain t bs))"
  using compiles_self [of "Chain t bs"] subobjects_base [of 0 t "Chain t bs"] bases_subobjects [of "Chain t bs"]
  by (force simp: list_all_iff)

lemma QueryCast_found:
  assumes "compiles t" and "QueryCast weakRef t obj riid \<noteq> 0"
  shows "found_in weakRef t obj riid (QueryCast weakRef t obj riid)"
  using assms
proof (induction weakRef t obj riid rule: QueryCast.induct)
  case (2 weakRef g i bs obj riid)
  let ?b = "bs ! i"
  have i: "i < length bs" and nz: "QueryCast weakRef (snd ?b) (obj + fst ?b) riid \<noteq> 0"
    using 2(3) by (auto split: if_splits simp: split_def)
  have base: "(fst ?b, snd ?b) \<in> set (bases_of (Class g i bs))" using i by simp
  then have "compiles (snd ?b)" using 2(2) compiles_subobject bases_subobjects by blast
  then have "found_in weakRef (snd ?b) (obj + fst ?b) riid (QueryCast weakRef (snd ?b) (obj + fst ?b) riid)"
    using 2(1) [OF i, of ?b "fst ?b" "snd ?b"] nz i by simp
  then show ?case using found_in_base [OF base] i by (simp add: split_def)
next
  case (3 weakRef t bs obj riid)
  show ?case
    by (rule first_subobject_in [OF QueryCast.simps(3) [symmetric] 3(3) chain_subobjects [OF 3(2)]])
      (use 3(1) compiles_subobject [OF 3(2)] chain_subobjects [OF 3(2)] in blast)
next
  case (7 weakRef bs obj riid)
  have s: "set bs \<subseteq> set (subobjects (CastList bs))" using bases_subobjects [of "CastList bs"] by simp
  show ?case
    by (rule first_subobject_in [OF QueryCast.simps(7) [symmetric] 7(3) s])
      (use 7(1) compiles_subobject [OF 7(2)] s in blast)
next
  case (8 weakRef bs obj riid)
  have s: "set bs \<subseteq> set (subobjects (WeakRefObject bs))" using bases_subobjects [of "WeakRefObject bs"] by simp
  show ?case
  proof (cases "IsEqualGUID riid IID_ObjectWeakRef")
    case True
    then show ?thesis by (intro found_in_self) (simp add: stands_for_def)
  next
    case False
    then show ?thesis
      using 8(3) first_subobject_in [OF refl _ s, of obj riid weakRef] 8(1) [OF False] compiles_subobject [OF 8(2)] s
      by (simp) blast
  qed
qed (auto simp: stands_for_def IsEqualGUID_sym split: if_splits intro!: found_in_self)

text \<open>
  \<open>static_cast<T*>(this)\<close> in \<open>QueryCastDerived<T>\<close> wants a \<open>T\<close> around it. No part of an object is at
  the null address.
\<close>

definition well_placed :: "ctype \<Rightarrow> bool" where
  "well_placed t \<longleftrightarrow> list_all (\<lambda>(off, b). case b of
       Derived g d \<Rightarrow> list_ex (\<lambda>(off1, b1). off1 = off - d \<and> goes_by b1 g) (subobjects t)
     | _ \<Rightarrow> True) (subobjects t)"

definition part_in_memory :: "(ptr \<Rightarrow> ptr) \<Rightarrow> ptr \<Rightarrow> ctype \<Rightarrow> bool" where
  "part_in_memory weakRef at b \<longleftrightarrow> at \<noteq> 0 \<and> (case b of
       Derived g d \<Rightarrow> at - d \<noteq> 0
     | WeakRefObject bs \<Rightarrow> weakRef at \<noteq> 0
     | _ \<Rightarrow> True)"

definition in_memory :: "(ptr \<Rightarrow> ptr) \<Rightarrow> ctype \<Rightarrow> ptr \<Rightarrow> bool" where
  "in_memory weakRef t obj \<longleftrightarrow> list_all (\<lambda>(off, b). part_in_memory weakRef (obj + off) b) (subobjects t)"

lemma in_memoryD: "in_memory weakRef t obj \<Longrightarrow> (off, b) \<in> set (subobjects t) \<Longrightarrow> part_in_memory weakRef (obj + off) b"
  by (auto simp: in_memory_def list_all_iff)

lemma in_memory_subobject:
  assumes "in_memory weakRef t obj" and "(off, b) \<in> set (subobjects t)"
  shows "in_memory weakRef b (obj + off)"
  using in_memoryD [OF assms(1) subobjects_trans [OF assms(2)]]
  by (auto simp: in_memory_def list_all_iff add.assoc)

lemma in_memory_self: "in_memory weakRef t obj \<Longrightarrow> part_in_memory weakRef obj t"
  using in_memoryD [OF _ subobjects_self, of weakRef t obj] by simp

lemma in_memory_nonnull: "in_memory weakRef t obj \<Longrightarrow> obj \<noteq> 0"
  using in_memory_self by (auto simp: part_in_memory_def)

lemma goes_by_equal: "goes_by t g \<Longrightarrow> IsEqualGUID riid g \<Longrightarrow> goes_by t riid"
  by (cases t) (auto simp: IsEqualGUID_def split: option.splits)

text \<open>So a query cast gives the address of a subobject of the type asked for, or of the counters.\<close>

lemma QueryCast_sound:
  assumes "compiles t" and "well_placed t" and "QueryCast weakRef t obj riid \<noteq> 0"
  shows "(\<exists>off b. (off, b) \<in> set (subobjects t) \<and> goes_by b riid \<and> QueryCast weakRef t obj riid = obj + off)
    \<or> (\<exists>off bs. (off, WeakRefObject bs) \<in> set (subobjects t) \<and> IsEqualGUID riid IID_ObjectWeakRef
          \<and> QueryCast weakRef t obj riid = weakRef (obj + off))"
proof -
  let ?p = "QueryCast weakRef t obj riid"
  obtain off b where b: "(off, b) \<in> set (subobjects t)" and s: "stands_for weakRef b (obj + off) riid ?p"
    using QueryCast_found [OF assms(1,3)] unfolding found_in_def by blast
  from s consider (self) "?p = obj + off" and "goes_by b riid"
    | (derived) g d where "b = Derived g d" and "IsEqualGUID riid g" and "?p = obj + off - d"
    | (weak) bs where "b = WeakRefObject bs" and "IsEqualGUID riid IID_ObjectWeakRef" and "?p = weakRef (obj + off)"
    unfolding stands_for_def by (cases b) simp_all
  then show ?thesis
  proof cases
    case derived
    then obtain b1 where "(off - d, b1) \<in> set (subobjects t)" and "goes_by b1 g"
      using assms(2) b unfolding well_placed_def list_all_iff list_ex_iff by fastforce
    then show ?thesis using derived goes_by_equal [of b1 g riid] by (metis add_diff_eq)
  qed (use b in blast)+
qed

section \<open>What can be asked for\<close>

definition with_type_guid :: "ctype \<Rightarrow> GUID list \<Rightarrow> GUID list" where
  "with_type_guid b gs = gs @ (case type_guid b of None \<Rightarrow> [] | Some g \<Rightarrow> [g])"

fun answers :: "ctype \<Rightarrow> GUID list" where
  "answers (Interface g bs) = []"
| "answers (Class g i bs) = (if i < length bs then map (\<lambda>(off, b). answers b) bs ! i else [])"
| "answers (Chain t bs) = concat (map (\<lambda>(off, b). with_type_guid b (answers b)) ((0, t) # bs))"
| "answers (Derived g off) = [g]"
| "answers (WithGuid g t) = [g]"
| "answers (Hidden t) = []"
| "answers (CastList bs) = concat (map (\<lambda>(off, b). with_type_guid b (answers b)) bs)"
| "answers (WeakRefObject bs) = IID_ObjectWeakRef # concat (map (\<lambda>(off, b). with_type_guid b (answers b)) bs)"

definition among :: "GUID \<Rightarrow> GUID list \<Rightarrow> bool" where
  "among riid gs \<longleftrightarrow> list_ex (IsEqualGUID riid) gs"

lemma among_simps [simp]:
  "among riid [] = False" "among riid (g # gs) \<longleftrightarrow> IsEqualGUID riid g \<or> among riid gs"
  "among riid (gs @ hs) \<longleftrightarrow> among riid gs \<or> among riid hs"
  by (simp_all add: among_def)

lemma among_concat [simp]: "among riid (concat gss) \<longleftrightarrow> list_ex (among riid) gss"
  by (induction gss) simp_all

lemma first_found_iff: "first_found rs \<noteq> 0 \<longleftrightarrow> list_ex (\<lambda>r. r \<noteq> 0) rs"
  by (induction rs) simp_all

lemma or_by_guid_iff:
  "obj \<noteq> 0 \<Longrightarrow> (r \<noteq> 0 \<longleftrightarrow> among riid gs) \<Longrightarrow> or_by_guid t obj riid r \<noteq> 0 \<longleftrightarrow> among riid (with_type_guid t gs)"
  by (auto simp: or_by_guid_def GuidQueryCast_def with_type_guid_def split: option.splits)

lemma first_base_iff:
  assumes "\<And>off b. (off, b) \<in> set bs \<Longrightarrow> obj + off \<noteq> 0"
    and "\<And>off b. (off, b) \<in> set bs \<Longrightarrow> QueryCast weakRef b (obj + off) riid \<noteq> 0 \<longleftrightarrow> among riid (answers b)"
  shows "first_found (map (\<lambda>(off, b). or_by_guid b (obj + off) riid (QueryCast weakRef b (obj + off) riid)) bs) \<noteq> 0
    \<longleftrightarrow> list_ex (among riid) (map (\<lambda>(off, b). with_type_guid b (answers b)) bs)"
proof -
  have "or_by_guid b (obj + off) riid (QueryCast weakRef b (obj + off) riid) \<noteq> 0
      \<longleftrightarrow> among riid (with_type_guid b (answers b))" if "(off, b) \<in> set bs" for off b
    using or_by_guid_iff assms that by blast
  then show ?thesis unfolding first_found_iff by (auto simp: list_ex_iff split_def)
qed

lemma QueryCast_answers:
  assumes "compiles t" and "in_memory weakRef t obj"
  shows "QueryCast weakRef t obj riid \<noteq> 0 \<longleftrightarrow> among riid (answers t)"
  using assms
proof (induction weakRef t obj riid rule: QueryCast.induct)
  case (2 weakRef g i bs obj riid)
  let ?b = "bs ! i"
  have i: "i < length bs" using compiles_self [OF 2(2)] by simp
  then have base: "(fst ?b, snd ?b) \<in> set (subobjects (Class g i bs))"
    using bases_subobjects [of "Class g i bs"] by (metis bases_of.simps(2) nth_mem prod.collapse subsetD)
  have "QueryCast weakRef (snd ?b) (obj + fst ?b) riid \<noteq> 0 \<longleftrightarrow> among riid (answers (snd ?b))"
    using 2(1) [OF i, of ?b "fst ?b" "snd ?b"] i compiles_subobject [OF 2(2) base] in_memory_subobject [OF 2(3) base] by simp
  then show ?case using i by (simp add: split_def)
next
  case (3 weakRef t bs obj riid)
  note s = chain_subobjects [OF 3(2)]
  show ?case unfolding QueryCast.simps(3) answers.simps(3) among_concat
    by (rule first_base_iff)
      (use s in_memory_subobject [OF 3(3)] in_memory_nonnull compiles_subobject [OF 3(2)] 3(1) in blast)+
next
  case (7 weakRef bs obj riid)
  have s: "set bs \<subseteq> set (subobjects (CastList bs))" using bases_subobjects [of "CastList bs"] by simp
  show ?case unfolding QueryCast.simps(7) answers.simps(7) among_concat
    by (rule first_base_iff)
      (use s in_memory_subobject [OF 7(3)] in_memory_nonnull compiles_subobject [OF 7(2)] 7(1) in blast)+
next
  case (8 weakRef bs obj riid)
  have s: "set bs \<subseteq> set (subobjects (WeakRefObject bs))" using bases_subobjects [of "WeakRefObject bs"] by simp
  have "weakRef obj \<noteq> 0" using in_memory_self [OF 8(3)] by (simp add: part_in_memory_def)
  moreover have "\<not> IsEqualGUID riid IID_ObjectWeakRef \<Longrightarrow>
      first_found (map (\<lambda>(off, b). or_by_guid b (obj + off) riid (QueryCast weakRef b (obj + off) riid)) bs) \<noteq> 0
    \<longleftrightarrow> list_ex (among riid) (map (\<lambda>(off, b). with_type_guid b (answers b)) bs)"
    by (rule first_base_iff)
      (use s in_memory_subobject [OF 8(3)] in_memory_nonnull compiles_subobject [OF 8(2)] 8(1) in blast)+
  ultimately show ?case by simp
next
  case (4 weakRef g off obj riid)
  then show ?case using in_memory_self [OF 4(2)] by (simp add: part_in_memory_def)
next
  case (5 weakRef g t obj riid)
  then show ?case using in_memory_nonnull [OF 5(2)] by (simp add: IsEqualGUID_sym)
qed simp_all

end
