(* ===== verification/Query_Interface.thy ===== *)
theory Query_Interface
  imports Query_Cast
begin

text \<open>
  \<open>QueryInterface\<close> of \<open>UnknownObject\<close> (\<open>libs/object/include/object/unknownObject.h\<close>), and the casts built
  on it: \<open>query_cast\<close> (\<open>queryCast.h\<close>) and \<open>qi_cast\<close> with its relatives
  (\<open>libs/comUtil/include/comUtil/qiCastCore.h\<close>).
\<close>

section \<open>Results\<close>

text \<open>\<open>HRESULT\<close> is a signed integer of 32 bits.\<close>

type_synonym HRESULT = "32 word"

definition S_OK :: HRESULT where
  "S_OK = 0"

definition E_NOINTERFACE :: HRESULT where
  "E_NOINTERFACE = 0x80004002"

definition E_FAIL :: HRESULT where
  "E_FAIL = 0x80004005"

definition E_POINTER :: HRESULT where
  "E_POINTER = 0x80004003"

definition FAILED :: "HRESULT \<Rightarrow> bool" where
  "FAILED hr \<longleftrightarrow> sint hr < 0"

definition SUCCEEDED :: "HRESULT \<Rightarrow> bool" where
  "SUCCEEDED hr \<longleftrightarrow> sint hr \<ge> 0"

lemma FAILED_simps [simp]: "\<not> FAILED S_OK" "FAILED E_NOINTERFACE" "FAILED E_FAIL" "FAILED E_POINTER"
  "S_OK \<noteq> E_NOINTERFACE" "E_NOINTERFACE \<noteq> S_OK" "E_FAIL \<noteq> S_OK" "E_POINTER \<noteq> S_OK"
  by (simp_all add: FAILED_def S_OK_def E_NOINTERFACE_def E_FAIL_def E_POINTER_def)

lemma SUCCEEDED_iff: "SUCCEEDED hr \<longleftrightarrow> \<not> FAILED hr"
  by (auto simp: SUCCEEDED_def FAILED_def)

section \<open>Objects\<close>

text \<open>
  An interface pointer points into an object, whose \<open>UnknownObject\<close> class is known to its virtual
  table. \<open>AddRef\<close> and \<open>Release\<close> through it are those of the object.
\<close>

type_synonym object_map = "ptr \<Rightarrow> (ptr \<times> ctype) option"

definition StaticCastElseNull :: "ctype \<Rightarrow> ptr \<Rightarrow> ptr" where
  "StaticCastElseNull t obj = StaticCastHelper_Cast t obj"

text \<open>
  \<open>ppvObject\<close> is whether the caller passes an address for the result. If \<open>riid\<close> is that of the
  bridge, it is the address of one, which holds \<open>ObjectId\<close>, and no reference is added.
\<close>

definition QueryInterfaceHelper_QueryInterface ::
  "'h IRefCounted \<Rightarrow> (ptr \<Rightarrow> ptr) \<Rightarrow> ctype \<Rightarrow> ptr \<Rightarrow> GUID \<Rightarrow> bool \<Rightarrow> GUID \<Rightarrow> 'h \<Rightarrow> (HRESULT \<times> ptr \<times> 'h) outcome" where
  "QueryInterfaceHelper_QueryInterface I weakRef t obj riid ppvObject ObjectId h =
     and_then (verify_else_crash ppvObject ''ppvObject must not be null.'') (\<lambda>_.
       let isBridge = IsEqualGUID riid IID_QueryCastBridge;
           intfGuid = (if isBridge then ObjectId else riid);
           result = (if IsEqualGUID intfGuid IID_IUnknown then StaticCastElseNull t obj else QueryCast weakRef t obj intfGuid)
       in if result = 0 then Returns (E_NOINTERFACE, result, h)
          else if \<not> isBridge then and_then (AddRef I obj h) (\<lambda>h1. Returns (S_OK, result, h1))
          else Returns (S_OK, result, h))"

text \<open>The variants of \<open>UnknownObject\<close> without queries leave the result as it was.\<close>

definition UnknownObject_QueryInterface_NoQuery :: "ptr \<Rightarrow> 'h \<Rightarrow> (HRESULT \<times> ptr \<times> 'h) outcome" where
  "UnknownObject_QueryInterface_NoQuery result h = Returns (E_FAIL, result, h)"

text \<open>\<open>AgileUnknownObject\<close> outside of Windows.\<close>

definition AgileUnknownObject_QueryInterface ::
  "'h IRefCounted \<Rightarrow> (ptr \<Rightarrow> ptr) \<Rightarrow> ctype \<Rightarrow> ptr \<Rightarrow> GUID \<Rightarrow> bool \<Rightarrow> GUID \<Rightarrow> 'h \<Rightarrow> (HRESULT \<times> ptr \<times> 'h) outcome" where
  "AgileUnknownObject_QueryInterface I weakRef t obj riid ppvObject ObjectId h =
     and_then (QueryInterfaceHelper_QueryInterface I weakRef t obj riid ppvObject ObjectId h) (\<lambda>(hr, result, h1).
       if hr = S_OK then Returns (hr, result, h1) else Returns (E_NOINTERFACE, result, h1))"

text \<open>Calls through an interface pointer.\<close>

definition call_QueryInterface ::
  "'h IRefCounted \<Rightarrow> (ptr \<Rightarrow> ptr) \<Rightarrow> object_map \<Rightarrow> ptr \<Rightarrow> GUID \<Rightarrow> GUID \<Rightarrow> 'h \<Rightarrow> (HRESULT \<times> ptr \<times> 'h) outcome" where
  "call_QueryInterface I weakRef objects p riid ObjectId h =
     (case objects p of None \<Rightarrow> Crashes DanglingPointer
      | Some (obj, t) \<Rightarrow> QueryInterfaceHelper_QueryInterface I weakRef t obj riid True ObjectId h)"

definition release_pointer :: "'h IRefCounted \<Rightarrow> object_map \<Rightarrow> ptr \<Rightarrow> 'h \<Rightarrow> 'h outcome" where
  "release_pointer I objects p h =
     (if p = 0 then Returns h
      else case objects p of None \<Rightarrow> Crashes DanglingPointer | Some (obj, t) \<Rightarrow> Release I obj h)"

section \<open>Casts\<close>

definition query_cast_pointer ::
  "'h IRefCounted \<Rightarrow> (ptr \<Rightarrow> ptr) \<Rightarrow> object_map \<Rightarrow> ptr \<Rightarrow> GUID \<Rightarrow> 'h \<Rightarrow> (ptr \<times> 'h) outcome" where
  "query_cast_pointer I weakRef objects source target h =
     (if source \<noteq> 0
      then and_then (call_QueryInterface I weakRef objects source IID_QueryCastBridge target h) (\<lambda>(hr, result, h1).
             Returns (if hr = S_OK then result else 0, h1))
      else Returns (0, h))"

definition query_cast_reference ::
  "'h IRefCounted \<Rightarrow> (ptr \<Rightarrow> ptr) \<Rightarrow> object_map \<Rightarrow> ptr \<Rightarrow> GUID \<Rightarrow> 'h \<Rightarrow> (ptr \<times> 'h) outcome" where
  "query_cast_reference I weakRef objects source target h =
     and_then (call_QueryInterface I weakRef objects source IID_QueryCastBridge target h) (\<lambda>(hr, result, h1).
     and_then (verify_else_crash (SUCCEEDED hr) '''') (\<lambda>_.
     and_then (verify_else_crash (result \<noteq> 0) ''Query cast failed for a reference type.'') (\<lambda>_.
       Returns (result, h1))))"

text \<open>The result of \<open>qi_cast\<close> is a \<open>CntPtr\<close>: the reference belongs to the caller.\<close>

definition qi_cast ::
  "'h IRefCounted \<Rightarrow> (ptr \<Rightarrow> ptr) \<Rightarrow> object_map \<Rightarrow> ptr \<Rightarrow> GUID \<Rightarrow> 'h \<Rightarrow> (ptr \<times> 'h) outcome" where
  "qi_cast I weakRef objects piSource riid h =
     (if piSource \<noteq> 0
      then and_then (call_QueryInterface I weakRef objects piSource riid riid h) (\<lambda>(hr, spTarget, h1).
             if FAILED hr then and_then (release_pointer I objects spTarget h1) (\<lambda>h2. Returns (0, h2))
             else Returns (spTarget, h1))
      else Returns (0, h))"

definition qi_cast_or_crash ::
  "'h IRefCounted \<Rightarrow> (ptr \<Rightarrow> ptr) \<Rightarrow> object_map \<Rightarrow> ptr \<Rightarrow> GUID \<Rightarrow> 'h \<Rightarrow> (ptr \<times> 'h) outcome" where
  "qi_cast_or_crash I weakRef objects piSource riid h =
     and_then (qi_cast I weakRef objects piSource riid h) (\<lambda>(target, h1).
     and_then (verify_else_crash (target \<noteq> 0) ''Query interface failed.'') (\<lambda>_. Returns (target, h1)))"

text \<open>For interfaces whose \<open>QueryInterface\<close> does not count; the result is a plain pointer.\<close>

definition simpleqi_cast ::
  "'h IRefCounted \<Rightarrow> (ptr \<Rightarrow> ptr) \<Rightarrow> object_map \<Rightarrow> ptr \<Rightarrow> GUID \<Rightarrow> 'h \<Rightarrow> (ptr \<times> 'h) outcome" where
  "simpleqi_cast I weakRef objects piSource riid h =
     (if piSource \<noteq> 0
      then and_then (call_QueryInterface I weakRef objects piSource riid riid h) (\<lambda>(hr, pTarget, h1).
             Returns (if FAILED hr then 0 else pTarget, h1))
      else Returns (0, h))"

text \<open>The target is cleared before the query is made; the new target comes with the result.\<close>

definition HrQueryFrom ::
  "'h IRefCounted \<Rightarrow> (ptr \<Rightarrow> ptr) \<Rightarrow> object_map \<Rightarrow> ptr \<Rightarrow> ptr \<Rightarrow> GUID \<Rightarrow> 'h \<Rightarrow> (HRESULT \<times> ptr \<times> 'h) outcome" where
  "HrQueryFrom I weakRef objects target pOther riid h =
     (if pOther = 0 then Returns (E_POINTER, target, h)
      else and_then (release_pointer I objects target h) (\<lambda>h1.
           call_QueryInterface I weakRef objects pOther riid riid h1))"

definition FQueryFrom ::
  "'h IRefCounted \<Rightarrow> (ptr \<Rightarrow> ptr) \<Rightarrow> object_map \<Rightarrow> ptr \<Rightarrow> ptr \<Rightarrow> GUID \<Rightarrow> 'h \<Rightarrow> (bool \<times> ptr \<times> 'h) outcome" where
  "FQueryFrom I weakRef objects target pOther riid h =
     and_then (HrQueryFrom I weakRef objects target pOther riid h) (\<lambda>(hr, result, h1).
       Returns (SUCCEEDED hr, result, h1))"

text \<open>The two \<open>IUnknown\<close> pointers are released on return, the second first.\<close>

definition AreEqualObjects ::
  "'h IRefCounted \<Rightarrow> (ptr \<Rightarrow> ptr) \<Rightarrow> object_map \<Rightarrow> ptr \<Rightarrow> ptr \<Rightarrow> 'h \<Rightarrow> (bool \<times> 'h) outcome" where
  "AreEqualObjects I weakRef objects pLeft pRight h =
     (if pLeft = pRight then Returns (True, h)
      else if pLeft = 0 \<or> pRight = 0 then Returns (False, h)
      else and_then (qi_cast I weakRef objects pLeft IID_IUnknown h) (\<lambda>(punk1, h1).
        if punk1 = 0 then Returns (False, h1)
        else and_then (qi_cast I weakRef objects pRight IID_IUnknown h1) (\<lambda>(punk2, h2).
          and_then (release_pointer I objects punk2 h2) (\<lambda>h3.
          and_then (release_pointer I objects punk1 h3) (\<lambda>h4.
            Returns (if punk2 = 0 then False else punk1 = punk2, h4))))))"

section \<open>The first \<open>IUnknown\<close>\<close>

lemma derives_base:
  "(off, b) \<in> set (bases_of t) \<Longrightarrow> derives_from_IUnknown b \<Longrightarrow> derives_from_IUnknown t"
  using subobjects_base unfolding derives_from_IUnknown_def list_ex_iff by fastforce

lemma static_cast_IUnknown_in:
  assumes "derives_from_IUnknown t"
  shows "\<exists>off b. (off, b) \<in> set (subobjects t) \<and> is_IUnknown b \<and> static_cast_IUnknown t source = source + off"
proof -
  let ?bs = "filter (\<lambda>(off, b). is_IUnknown b) (subobjects t)"
  from assms have "?bs \<noteq> []" by (auto simp: derives_from_IUnknown_def list_ex_iff filter_empty_conv)
  then obtain off b bs where "?bs = (off, b) # bs" by (cases ?bs) auto
  moreover from this have "(off, b) \<in> set ?bs" by (metis list.set_intros(1))
  then have "(off, b) \<in> set (subobjects t) \<and> is_IUnknown b" by auto
  ultimately show ?thesis by (intro exI [of _ off] exI [of _ b]) (auto simp: static_cast_IUnknown_def)
qed

definition an_IUnknown :: "ctype \<Rightarrow> ptr \<Rightarrow> ptr \<Rightarrow> bool" where
  "an_IUnknown t source p \<longleftrightarrow> (\<exists>off b. (off, b) \<in> set (subobjects t) \<and> is_IUnknown b \<and> p = source + off)"

lemma an_IUnknown_base:
  assumes "(off, b) \<in> set (bases_of t)" and "an_IUnknown b (source + off) p"
  shows "an_IUnknown t source p"
  using assms(2) subobjects_base [OF assms(1)] unfolding an_IUnknown_def by (metis add.assoc)

lemma CastFirst_in: "\<exists>p. (True, p) \<in> set rs \<Longrightarrow> (True, CastFirst rs) \<in> set rs"
proof (induction rs)
  case (Cons r rs)
  then show ?case by (cases r) (auto split: if_splits)
qed simp

lemma first_cast_in:
  assumes "\<exists>off b. (off, b) \<in> set bs \<and> derives_from_IUnknown b" and "set bs \<subseteq> set (bases_of t)"
    and "\<And>off b. (off, b) \<in> set bs \<Longrightarrow> derives_from_IUnknown b \<Longrightarrow> an_IUnknown b (source + off) (StaticCastHelper_Cast b (source + off))"
  shows "an_IUnknown t source (CastFirst (map (\<lambda>(off, b). (derives_from_IUnknown b, StaticCastHelper_Cast b (source + off))) bs))"
proof -
  let ?rs = "map (\<lambda>(off, b). (derives_from_IUnknown b, StaticCastHelper_Cast b (source + off))) bs"
  have "\<exists>p. (True, p) \<in> set ?rs" using assms(1) by force
  from CastFirst_in [OF this] obtain off b where b: "(off, b) \<in> set bs" "derives_from_IUnknown b"
    and c: "CastFirst ?rs = StaticCastHelper_Cast b (source + off)" by auto
  show ?thesis unfolding c by (rule an_IUnknown_base [OF _ assms(3) [OF b]]) (use assms(2) b in blast)
qed

text \<open>A class that takes its members from a base it can be cast with derives from \<open>IUnknown\<close> through that base.\<close>

fun casts_agree :: "ctype \<Rightarrow> bool" where
  "casts_agree (Class g i bs) \<longleftrightarrow> has_StaticCastElseNull (Class g i bs) \<longrightarrow> derives_from_IUnknown (snd (bs ! i))"
| "casts_agree _ \<longleftrightarrow> True"

definition one_way_to_IUnknown :: "ctype \<Rightarrow> bool" where
  "one_way_to_IUnknown t \<longleftrightarrow> list_all (\<lambda>(off, b). casts_agree b) (subobjects t)"

lemma one_way_subobject: "one_way_to_IUnknown t \<Longrightarrow> (off, b) \<in> set (subobjects t) \<Longrightarrow> one_way_to_IUnknown b"
  using subobjects_trans by (fastforce simp: one_way_to_IUnknown_def list_all_iff)

lemma one_way_base: "one_way_to_IUnknown t \<Longrightarrow> (off, b) \<in> set (bases_of t) \<Longrightarrow> one_way_to_IUnknown b"
  using one_way_subobject bases_subobjects by blast

lemma compiles_base: "compiles t \<Longrightarrow> (off, b) \<in> set (bases_of t) \<Longrightarrow> compiles b"
  using compiles_subobject bases_subobjects by blast

lemma one_way_self: "one_way_to_IUnknown t \<Longrightarrow> casts_agree t"
  using subobjects_self by (fastforce simp: one_way_to_IUnknown_def list_all_iff)

lemma derives_iff:
  "derives_from_IUnknown t \<longleftrightarrow> is_IUnknown t \<or> (\<exists>off b. (off, b) \<in> set (bases_of t) \<and> derives_from_IUnknown b)"
proof
  assume "derives_from_IUnknown t"
  then obtain off b where b: "(off, b) \<in> set (subobjects t)" and "is_IUnknown b"
    by (auto simp: derives_from_IUnknown_def list_ex_iff)
  then show "is_IUnknown t \<or> (\<exists>off b. (off, b) \<in> set (bases_of t) \<and> derives_from_IUnknown b)"
    by (cases rule: subobjects_cases [OF b]) (force simp: derives_from_IUnknown_def list_ex_iff)+
next
  assume "is_IUnknown t \<or> (\<exists>off b. (off, b) \<in> set (bases_of t) \<and> derives_from_IUnknown b)"
  then show "derives_from_IUnknown t"
    using derives_base subobjects_self by (fastforce simp: derives_from_IUnknown_def list_ex_iff)
qed

lemma static_cast_an_IUnknown: "derives_from_IUnknown t \<Longrightarrow> an_IUnknown t source (static_cast_IUnknown t source)"
  using static_cast_IUnknown_in unfolding an_IUnknown_def by blast

lemma Cast_only_base:
  assumes "bases_of t = [(0, b)]" and "\<not> is_IUnknown t" and "derives_from_IUnknown t"
    and "derives_from_IUnknown b \<Longrightarrow> has_StaticCastElseNull b \<Longrightarrow> an_IUnknown b source p"
  shows "an_IUnknown t source (if has_StaticCastElseNull b then p else static_cast_IUnknown t source)"
proof -
  have "derives_from_IUnknown b" using assms(1-3) derives_iff [of t] by simp
  then show ?thesis
    using an_IUnknown_base [of 0 b t source p] assms(1,4) static_cast_an_IUnknown [OF assms(3)] by simp
qed

lemma Cast_an_IUnknown:
  assumes "derives_from_IUnknown t" and "compiles t" and "one_way_to_IUnknown t"
  shows "an_IUnknown t source (StaticCastHelper_Cast t source)"
  using assms
proof (induction t source rule: StaticCastHelper_Cast.induct)
  case (2 g i bs source)
  show ?case
  proof (cases "has_StaticCastElseNull (Class g i bs)")
    case True
    let ?b = "bs ! i"
    have i: "i < length bs" using compiles_self [OF 2(3)] by simp
    then have base: "(fst ?b, snd ?b) \<in> set (bases_of (Class g i bs))" by simp
    have "derives_from_IUnknown (snd ?b)" using one_way_self [OF 2(4)] True by simp
    then have "an_IUnknown (snd ?b) (source + fst ?b) (StaticCastHelper_Cast (snd ?b) (source + fst ?b))"
      using 2(1) [OF True, of ?b "fst ?b" "snd ?b"] i compiles_subobject [OF 2(3)] bases_subobjects base
        one_way_base [OF 2(4) base] by (metis nth_mem prod.collapse subsetD)
    then show ?thesis using an_IUnknown_base [OF base] True i by (simp add: split_def)
  qed (use static_cast_an_IUnknown [OF 2(2)] in simp)
next
  case (3 t bs source)
  have base: "(0, t) \<in> set (bases_of (Chain t bs))" by simp
  show ?case unfolding StaticCastHelper_Cast.simps(3)
    by (rule Cast_only_base)
      (use 3 compiles_base [OF 3(3) base] one_way_base [OF 3(4) base] in \<open>simp_all add: is_IUnknown_def\<close>)
next
  case (5 g t source)
  have base: "(0, t) \<in> set (bases_of (WithGuid g t))" by simp
  show ?case unfolding StaticCastHelper_Cast.simps(5)
    by (rule Cast_only_base)
      (use 5 compiles_base [OF 5(3) base] one_way_base [OF 5(4) base] in \<open>simp_all add: is_IUnknown_def\<close>)
next
  case (6 t source)
  have base: "(0, t) \<in> set (bases_of (Hidden t))" by simp
  show ?case unfolding StaticCastHelper_Cast.simps(6)
    by (rule Cast_only_base)
      (use 6 compiles_base [OF 6(3) base] one_way_base [OF 6(4) base] in \<open>simp_all add: is_IUnknown_def\<close>)
next
  case (7 bs source)
  show ?case unfolding StaticCastHelper_Cast.simps(7)
  proof (rule first_cast_in)
    show "\<exists>off b. (off, b) \<in> set bs \<and> derives_from_IUnknown b"
      using 7(2) by (simp add: derives_iff [of "CastList bs"] is_IUnknown_def)
    show "an_IUnknown b (source + off) (StaticCastHelper_Cast b (source + off))"
      if "(off, b) \<in> set bs" and "derives_from_IUnknown b" for off b
      using 7(1) [OF that(1) refl that(2)] compiles_subobject [OF 7(3)] one_way_base [OF 7(4)] that(1)
        bases_subobjects [of "CastList bs"] by auto
  qed simp
next
  case (8 bs source)
  show ?case unfolding StaticCastHelper_Cast.simps(8)
  proof (rule first_cast_in)
    show "\<exists>off b. (off, b) \<in> set bs \<and> derives_from_IUnknown b"
      using 8(2) by (simp add: derives_iff [of "WeakRefObject bs"] is_IUnknown_def)
    show "an_IUnknown b (source + off) (StaticCastHelper_Cast b (source + off))"
      if "(off, b) \<in> set bs" and "derives_from_IUnknown b" for off b
      using 8(1) [OF that(1) refl that(2)] compiles_subobject [OF 8(3)] one_way_base [OF 8(4)] that(1)
        bases_subobjects [of "WeakRefObject bs"] by auto
  qed simp
qed (use static_cast_an_IUnknown in auto)

section \<open>What queries promise\<close>

text \<open>What the result of a query for \<open>riid\<close> may be.\<close>

definition asked_for :: "(ptr \<Rightarrow> ptr) \<Rightarrow> ctype \<Rightarrow> ptr \<Rightarrow> GUID \<Rightarrow> ptr \<Rightarrow> bool" where
  "asked_for weakRef t obj riid p \<longleftrightarrow>
     list_ex (\<lambda>(off, b). (p = obj + off \<and> goes_by b riid)
       \<or> ((case b of WeakRefObject bs \<Rightarrow> True | _ \<Rightarrow> False) \<and> IsEqualGUID riid IID_ObjectWeakRef \<and> p = weakRef (obj + off)))
       (subobjects t)"

text \<open>What the compiler and the memory see to for the class of an object.\<close>

definition object_ok :: "(ptr \<Rightarrow> ptr) \<Rightarrow> ctype \<Rightarrow> ptr \<Rightarrow> bool" where
  "object_ok weakRef t obj \<longleftrightarrow> compiles t \<and> well_placed t \<and> one_way_to_IUnknown t \<and> derives_from_IUnknown t
     \<and> in_memory weakRef t obj"

lemma IsEqualGUID_consts [simp]: "\<not> IsEqualGUID IID_IUnknown IID_QueryCastBridge" "IsEqualGUID g g"
  by (simp_all add: IsEqualGUID_def guid_bytes_def int_bytes_def IID_IUnknown_def IID_QueryCastBridge_def)

lemma an_IUnknown_asked_for:
  assumes "an_IUnknown t obj p" and "IsEqualGUID riid IID_IUnknown"
  shows "asked_for weakRef t obj riid p"
proof -
  obtain off b where "(off, b) \<in> set (subobjects t)" and b: "is_IUnknown b" and "p = obj + off"
    using assms(1) unfolding an_IUnknown_def by blast
  moreover have "goes_by b riid"
    using b assms(2) by (cases b) (auto simp: is_IUnknown_def IsEqualGUID_def split: option.splits)
  ultimately show ?thesis by (force simp: asked_for_def list_ex_iff)
qed

lemma an_IUnknown_nonnull: "in_memory weakRef t obj \<Longrightarrow> an_IUnknown t obj p \<Longrightarrow> p \<noteq> 0"
  unfolding an_IUnknown_def using in_memory_nonnull [OF in_memory_subobject, of weakRef t obj] by metis

lemma QueryCast_asked_for:
  assumes "compiles t" and "well_placed t" and "QueryCast weakRef t obj riid \<noteq> 0"
  shows "asked_for weakRef t obj riid (QueryCast weakRef t obj riid)"
  using QueryCast_sound [OF assms]
proof (elim disjE exE conjE)
  fix off b
  assume "(off, b) \<in> set (subobjects t)" and "goes_by b riid" and "QueryCast weakRef t obj riid = obj + off"
  then show ?thesis unfolding asked_for_def list_ex_iff by (intro bexI [of _ "(off, b)"]) simp_all
next
  fix off bs
  assume "(off, WeakRefObject bs) \<in> set (subobjects t)" and "IsEqualGUID riid IID_ObjectWeakRef"
    and "QueryCast weakRef t obj riid = weakRef (obj + off)"
  then show ?thesis unfolding asked_for_def list_ex_iff by (intro bexI [of _ "(off, WeakRefObject bs)"]) simp_all
qed

context ref_counted
begin

lemma query_interface:
  assumes "object_ok weakRef t obj" and "ok h" and "0 < refs h obj" and "refs h obj < 2 ^ 32 - 2"
    and "\<not> IsEqualGUID riid IID_QueryCastBridge"
  shows "\<exists>hr p h'. QueryInterfaceHelper_QueryInterface I weakRef t obj riid True riid h = Returns (hr, p, h')
    \<and> QueryInterfaceHelper_QueryInterface I weakRef t obj IID_QueryCastBridge True riid h = Returns (hr, p, h)
    \<and> hr = (if p \<noteq> 0 then S_OK else E_NOINTERFACE)
    \<and> (p \<noteq> 0 \<longleftrightarrow> IsEqualGUID riid IID_IUnknown \<or> among riid (answers t))
    \<and> (p \<noteq> 0 \<longrightarrow> asked_for weakRef t obj riid p)
    \<and> ok h' \<and> refs h' = (if p \<noteq> 0 then (refs h)(obj := refs h obj + 1) else refs h)"
proof -
  define p where "p = (if IsEqualGUID riid IID_IUnknown then StaticCastElseNull t obj else QueryCast weakRef t obj riid)"
  obtain h1 where a: "AddRef I obj h = Returns h1" "ok h1" "refs h1 = (refs h)(obj := refs h obj + 1)"
    using add_ref [OF assms(2-4)] by blast
  have u: "an_IUnknown t obj (StaticCastElseNull t obj)"
    using Cast_an_IUnknown assms(1) by (simp add: object_ok_def StaticCastElseNull_def)
  then have "StaticCastElseNull t obj \<noteq> 0" using an_IUnknown_nonnull assms(1) by (auto simp: object_ok_def)
  then have found: "p \<noteq> 0 \<longleftrightarrow> IsEqualGUID riid IID_IUnknown \<or> among riid (answers t)"
    using QueryCast_answers [of t weakRef obj riid] assms(1) by (simp add: object_ok_def p_def)
  have asked: "p \<noteq> 0 \<Longrightarrow> asked_for weakRef t obj riid p"
    using an_IUnknown_asked_for [OF u] QueryCast_asked_for [of t weakRef obj riid] assms(1)
    by (auto simp: object_ok_def p_def split: if_splits)
  have "QueryInterfaceHelper_QueryInterface I weakRef t obj riid True riid h =
      (if p = 0 then Returns (E_NOINTERFACE, p, h) else Returns (S_OK, p, h1))"
    using assms(5) a(1) by (simp add: QueryInterfaceHelper_QueryInterface_def Let_def p_def)
  moreover have "QueryInterfaceHelper_QueryInterface I weakRef t obj IID_QueryCastBridge True riid h =
      (if p = 0 then Returns (E_NOINTERFACE, p, h) else Returns (S_OK, p, h))"
    by (simp add: QueryInterfaceHelper_QueryInterface_def Let_def p_def)
  ultimately show ?thesis using found asked a(2,3) assms(2) by (cases "p = 0") auto
qed

end

text \<open>
  An interface pointer names its object: every part that derives from \<open>IUnknown\<close> leads back to it.
\<close>

definition laid_out :: "(ptr \<Rightarrow> ptr) \<Rightarrow> object_map \<Rightarrow> bool" where
  "laid_out weakRef objects \<longleftrightarrow> objects 0 = None \<and> (\<forall>p obj t. objects p = Some (obj, t) \<longrightarrow>
     object_ok weakRef t obj
     \<and> (\<forall>off b. (off, b) \<in> set (subobjects t) \<longrightarrow> derives_from_IUnknown b \<longrightarrow> objects (obj + off) = Some (obj, t)))"

lemma laid_outD:
  assumes "laid_out weakRef objects" and "objects p = Some (obj, t)"
  shows "object_ok weakRef t obj" and "p \<noteq> 0" and "objects obj = Some (obj, t)"
    and "an_IUnknown t obj q \<Longrightarrow> objects q = Some (obj, t)"
proof -
  note a = assms(1) [unfolded laid_out_def, THEN conjunct2, rule_format, OF assms(2)]
  show "object_ok weakRef t obj" using a by blast
  show "p \<noteq> 0" using assms by (auto simp: laid_out_def)
  show "objects obj = Some (obj, t)"
    using conjunct2 [OF a, rule_format, OF subobjects_self] a by (simp add: object_ok_def)
  show "objects q = Some (obj, t)" if u: "an_IUnknown t obj q"
  proof -
    obtain off b where "(off, b) \<in> set (subobjects t)" and "is_IUnknown b" and "q = obj + off"
      using u unfolding an_IUnknown_def by blast
    then show ?thesis using conjunct2 [OF a, rule_format] derives_iff [of b] by blast
  qed
qed

context ref_counted
begin

lemma qi_cast_IUnknown:
  assumes "laid_out weakRef objects" and "objects p = Some (obj, t)"
    and "ok h" and "0 < refs h obj" and "refs h obj < 2 ^ 32 - 2"
  shows "\<exists>h'. qi_cast I weakRef objects p IID_IUnknown h = Returns (StaticCastElseNull t obj, h')
    \<and> ok h' \<and> refs h' = (refs h)(obj := refs h obj + 1)
    \<and> StaticCastElseNull t obj \<noteq> 0 \<and> objects (StaticCastElseNull t obj) = Some (obj, t)"
proof -
  note l = laid_outD [OF assms(1,2)]
  obtain h1 where a: "AddRef I obj h = Returns h1" "ok h1" "refs h1 = (refs h)(obj := refs h obj + 1)"
    using add_ref [OF assms(3-5)] by blast
  have u: "an_IUnknown t obj (StaticCastElseNull t obj)"
    using Cast_an_IUnknown l(1) by (simp add: object_ok_def StaticCastElseNull_def)
  then have "StaticCastElseNull t obj \<noteq> 0" using an_IUnknown_nonnull l(1) by (auto simp: object_ok_def)
  then show ?thesis using l(2) l(4) [OF u] a assms(2)
    by (simp add: qi_cast_def call_QueryInterface_def QueryInterfaceHelper_QueryInterface_def Let_def)
qed

lemma release_pointer_ok:
  assumes "objects p = Some (obj, t)" and "p \<noteq> 0" and "ok h" and "0 < refs h obj"
  shows "\<exists>h'. release_pointer I objects p h = Returns h' \<and> ok h' \<and> refs h' = (refs h)(obj := refs h obj - 1)"
  using release [OF assms(3,4)] assms(1,2) by (simp add: release_pointer_def)

lemma equal_objects:
  assumes "laid_out weakRef objects" and "objects p = Some (obj1, t1)" and "objects q = Some (obj2, t2)"
    and "ok h" and "0 < refs h obj1" and "0 < refs h obj2" and "refs h obj1 < 2 ^ 32 - 3" and "refs h obj2 < 2 ^ 32 - 3"
  shows "\<exists>h'. AreEqualObjects I weakRef objects p q h = Returns (obj1 = obj2, h') \<and> ok h' \<and> refs h' = refs h"
proof (cases "p = q")
  case True
  then show ?thesis using assms(2-4) by (simp add: AreEqualObjects_def)
next
  case False
  let ?u1 = "StaticCastElseNull t1 obj1" and ?u2 = "StaticCastElseNull t2 obj2"
  obtain h1 where 1: "qi_cast I weakRef objects p IID_IUnknown h = Returns (?u1, h1)" "ok h1"
      "refs h1 = (refs h)(obj1 := refs h obj1 + 1)" "?u1 \<noteq> 0" "objects ?u1 = Some (obj1, t1)"
    using qi_cast_IUnknown [OF assms(1,2,4,5)] assms(7) by auto
  have "0 < refs h1 obj2" and "refs h1 obj2 < 2 ^ 32 - 2" using 1(3) assms(5-8) by auto
  then obtain h2 where 2: "qi_cast I weakRef objects q IID_IUnknown h1 = Returns (?u2, h2)" "ok h2"
      "refs h2 = (refs h1)(obj2 := refs h1 obj2 + 1)" "?u2 \<noteq> 0" "objects ?u2 = Some (obj2, t2)"
    using qi_cast_IUnknown [OF assms(1,3) 1(2)] by blast
  obtain h3 where 3: "release_pointer I objects ?u2 h2 = Returns h3" "ok h3" "refs h3 = refs h1"
    using release_pointer_ok [where objects = objects and p = ?u2, OF 2(5,4,2)] 2(3) by auto
  obtain h4 where 4: "release_pointer I objects ?u1 h3 = Returns h4" "ok h4" "refs h4 = refs h"
    using release_pointer_ok [where objects = objects and p = ?u1, OF 1(5,4) 3(2)] 1(3) 3(3) by auto
  have "?u1 = ?u2 \<longleftrightarrow> obj1 = obj2"
  proof
    assume "?u1 = ?u2"
    then have "Some (obj1, t1) = Some (obj2, t2)" using 1(5) 2(5) by metis
    then show "obj1 = obj2" by blast
  next
    assume "obj1 = obj2"
    with laid_outD(3) [OF assms(1,2)] laid_outD(3) [OF assms(1,3)] show "?u1 = ?u2" by simp
  qed
  then show ?thesis
    using False 1(1,4) 2(1,4) 3(1) 4 laid_outD(2) [OF assms(1,2)] laid_outD(2) [OF assms(1,3)]
    by (simp add: AreEqualObjects_def)
qed

end

text \<open>
  C27: A query of an object with simple counting for a GUID, other than that of the bridge, finds
  something exactly if it is asked for \<open>IUnknown\<close> or for a GUID the class answers to. What it finds is
  a part of the object of the type that goes by this GUID, the object has one reference more, and
  otherwise nothing changes. A query cast finds the same and changes nothing.
\<close>

theorem query_interface_finds:
  assumes "object_ok weakRef t obj" and "0 < simple_refs h obj" and "simple_refs h obj < 2 ^ 32 - 2"
    and "\<not> IsEqualGUID riid IID_QueryCastBridge"
  shows "\<exists>hr p h'. QueryInterfaceHelper_QueryInterface SimpleRefCount weakRef t obj riid True riid h = Returns (hr, p, h')
    \<and> QueryInterfaceHelper_QueryInterface SimpleRefCount weakRef t obj IID_QueryCastBridge True riid h = Returns (hr, p, h)
    \<and> hr = (if p \<noteq> 0 then S_OK else E_NOINTERFACE)
    \<and> (p \<noteq> 0 \<longleftrightarrow> IsEqualGUID riid IID_IUnknown \<or> among riid (answers t))
    \<and> (p \<noteq> 0 \<longrightarrow> asked_for weakRef t obj riid p)
    \<and> simple_refs h' = (if p \<noteq> 0 then (simple_refs h)(obj := simple_refs h obj + 1) else simple_refs h)"
  using simple.query_interface [OF assms(1) TrueI assms(2-4)] by simp

text \<open>
  C28: Two interface pointers are found equal exactly if they point into the same object, whatever
  its class and whichever of its parts they point to, and no reference is lost or left.
\<close>

theorem AreEqualObjects_iff_same:
  assumes "laid_out weakRef objects" and "objects p = Some (obj1, t1)" and "objects q = Some (obj2, t2)"
    and "weak_heap_ok h" and "0 < strong_refs h obj1" and "0 < strong_refs h obj2"
    and "strong_refs h obj1 < 2 ^ 32 - 3" and "strong_refs h obj2 < 2 ^ 32 - 3"
  shows "\<exists>h'. AreEqualObjects object_strong weakRef objects p q h = Returns (obj1 = obj2, h') \<and> strong_refs h' = strong_refs h"
  using object.equal_objects [OF assms] by blast

text \<open>
  A target that holds the last reference to the object that is asked loses it before the query:
  \<open>HrQueryFrom\<close> then uses an object that was deleted.
\<close>

lemma HrQueryFrom_own_target:
  assumes "objects p = Some (obj, t)" and "p \<noteq> 0" and "m_refCount h obj = Some 1"
    and "\<not> IsEqualGUID riid IID_QueryCastBridge" and "\<not> IsEqualGUID riid IID_IUnknown" and "QueryCast weakRef t obj riid \<noteq> 0"
  shows "HrQueryFrom SimpleRefCount weakRef objects p p riid h = Crashes DanglingPointer"
  using assms by (simp add: HrQueryFrom_def release_pointer_def call_QueryInterface_def QueryInterfaceHelper_QueryInterface_def
      SimpleRefCount_def SimpleRefCount_Release_def SimpleRefCount_Delete_def SimpleRefCount_AddRef_def with_count_def Let_def)

section \<open>An example\<close>

text \<open>
  \<open>class Foo : UnknownObject<QueryCastDerived<Foo>, QueryCastChain<IDerived, IBase>, IOther>\<close>, as a \<open>CastList\<close>
  at address 4096.
\<close>

definition example_guid :: "32 word \<Rightarrow> GUID" where
  "example_guid n = \<lparr>Data1 = n, Data2 = 0, Data3 = 0, Data4 = [1, 2, 3, 4, 5, 6, 7, 8]\<rparr>"

definition IUnknown_type :: ctype where
  "IUnknown_type = Interface (Some IID_IUnknown) []"

definition IBase_type :: ctype where
  "IBase_type = Interface (Some (example_guid 1)) [(0, IUnknown_type)]"

definition IDerived_type :: ctype where
  "IDerived_type = Interface (Some (example_guid 2)) [(0, IBase_type)]"

definition IOther_type :: ctype where
  "IOther_type = Interface (Some (example_guid 3)) [(0, IUnknown_type)]"

definition example_type :: ctype where
  "example_type = CastList [(0, Chain IDerived_type [(0, IBase_type)]), (8, IOther_type)]"

fun below :: "(ptr \<times> ctype) list \<Rightarrow> (ptr \<times> ctype) list" where
  "below [] = []"
| "below ((off, b) # bs) = map (\<lambda>(off1, b1). (off + off1, b1)) (subobjects b) @ below bs"

lemma subobjects_below: "subobjects t = (0, t) # below (bases_of t)"
proof -
  have "concat (map (\<lambda>(off, b). map (\<lambda>(off1, b1). (off + off1, b1)) (subobjects b)) bs) = below bs" for bs
    by (induction bs rule: below.induct) simp_all
  then show ?thesis by (subst subobjects.simps) simp
qed

lemma example_subobjects: "subobjects example_type =
  [(0, example_type), (0, Chain IDerived_type [(0, IBase_type)]), (0, IDerived_type), (0, IBase_type), (0, IUnknown_type),
   (8, IOther_type), (8, IUnknown_type)]"
  by (simp add: subobjects_below example_type_def IDerived_type_def IBase_type_def IUnknown_type_def IOther_type_def)

lemma example_GUIDs [simp]:
  "\<not> IsEqualGUID IID_IUnknown (example_guid n)" "\<not> IsEqualGUID (example_guid n) IID_IUnknown"
  "\<not> IsEqualGUID (example_guid n) IID_QueryCastBridge" "\<not> IsEqualGUID (example_guid n) IID_ObjectWeakRef"
  by (simp_all add: IsEqualGUID_iff guid_ok_def IID_IUnknown_def IID_QueryCastBridge_def IID_ObjectWeakRef_def
      example_guid_def)

lemma example_ok: "object_ok (\<lambda>_. 0) example_type 4096"
  unfolding object_ok_def compiles_def well_placed_def one_way_to_IUnknown_def derives_from_IUnknown_def in_memory_def
    example_subobjects
  by (simp add: example_type_def IDerived_type_def IBase_type_def IUnknown_type_def IOther_type_def
      subobjects_below is_IUnknown_def part_in_memory_def)

definition example_heap :: counted_heap where
  "example_heap = \<lparr>m_refCount = (\<lambda>_. None)(4096 \<mapsto> 1), deleted = []\<rparr>"

lemma query_interface_finds_witness:
  "\<exists>p h'. QueryInterfaceHelper_QueryInterface SimpleRefCount (\<lambda>_. 0) example_type 4096 (example_guid 1) True (example_guid 1)
      example_heap = Returns (S_OK, p, h') \<and> p \<noteq> 0 \<and> simple_refs h' 4096 = 2"
proof -
  have "simple_refs example_heap 4096 = 1" by (simp add: simple_refs_def example_heap_def)
  moreover have "among (example_guid 1) (answers example_type)"
    by (simp add: example_type_def IDerived_type_def IBase_type_def with_type_guid_def)
  ultimately show ?thesis
    using query_interface_finds [OF example_ok, of example_heap "example_guid 1"] by auto
qed

definition example_objects :: object_map where
  "example_objects p = (if p = 4096 \<or> p = 4104 then Some (4096, example_type)
     else if p = 8192 \<or> p = 8200 then Some (8192, example_type) else None)"

lemma example_laid_out: "laid_out (\<lambda>_. 0) example_objects"
proof -
  have ok: "object_ok (\<lambda>_. 0) example_type 8192"
    unfolding object_ok_def compiles_def well_placed_def one_way_to_IUnknown_def derives_from_IUnknown_def in_memory_def
      example_subobjects
    by (simp add: example_type_def IDerived_type_def IBase_type_def IUnknown_type_def IOther_type_def
        subobjects_below is_IUnknown_def part_in_memory_def)
  show ?thesis
    unfolding laid_out_def using example_ok ok by (auto simp: example_objects_def example_subobjects)
qed

definition example_weak_heap :: weak_heap where
  "example_weak_heap = WeakRefCountPolicy_AllocateMemory 8192 (WeakRefCountPolicy_AllocateMemory 4096
     \<lparr>blocks = (\<lambda>_. None), weakRefSlot = (\<lambda>_. False), destroyed = [], freed = []\<rparr>)"

lemma AreEqualObjects_iff_same_witness:
  "(\<exists>h'. AreEqualObjects object_strong (\<lambda>_. 0) example_objects 4096 4104 example_weak_heap = Returns (True, h'))
   \<and> (\<exists>h'. AreEqualObjects object_strong (\<lambda>_. 0) example_objects 4104 8200 example_weak_heap = Returns (False, h'))"
proof -
  have h: "weak_heap_ok example_weak_heap" "strong_refs example_weak_heap 4096 = 1" "strong_refs example_weak_heap 8192 = 1"
    by (auto simp: example_weak_heap_def WeakRefCountPolicy_AllocateMemory_def set_block_def weak_heap_ok_def block_ok_def
        strong_refs_def split: if_splits)
  have o: "example_objects 4096 = Some (4096, example_type)" "example_objects 4104 = Some (4096, example_type)"
    "example_objects 8200 = Some (8192, example_type)" by (simp_all add: example_objects_def)
  show ?thesis
    using AreEqualObjects_iff_same [OF example_laid_out o(1,2) h(1)] AreEqualObjects_iff_same [OF example_laid_out o(2,3) h(1)] h
    by auto
qed

end
