(* ===== verification/Active_Object.thy ===== *)
theory Active_Object
  imports Ref_Count Queue_Service
begin

text \<open>
  Active objects (\<open>libs/activeObject/include/activeObject/activeObject.h\<close>, \<open>src/activeObject.cpp\<close>): an
  object tied to a serial dispatch queue, in which its \<open>Initialize\<close>, its \<open>Finalize\<close> and its callbacks
  run. Any number of threads make the object, call it, share and drop references to it, and one of
  them at a time runs the tasks of the queue.
\<close>

section \<open>State\<close>

text \<open>
  The tasks an active object gives to its queue: the function objects of \<open>Make\<close> and \<open>InvokeInQueue\<close>
  hold a weak reference, that of \<open>InvokeInQueueStrong\<close> a strong one, and that of the deleter none.
\<close>

datatype atask = InitTask | WeakTask nat | StrongTask nat | FinalizeTask | OtherTask nat

text \<open>The code of the user that the library calls.\<close>

datatype ucode = Initialize | Finalize | Callback nat | Destructor "nat option" | OnDestructed nat | Other nat

text \<open>
  What is on the stack of a thread: user code, and the calls still to be made. \<open>AMade\<close> is the return
  of \<open>Make\<close>, \<open>ALeave\<close> the end of the context of a task, and \<open>AWait\<close> the wait for an event.
\<close>

datatype awork =
    AUser ucode
  | ARun atask
  | ACancel atask
  | AMade
  | ARelease
  | ADelete
  | ADestruct
  | ALeave
  | AWait nat

datatype aevent = EInitialize | EFinalize | ECallback nat | EDestructed | EOnDestructed nat | ESet nat

text \<open>
  The members of the object and its strong count; \<open>clients\<close> counts the references that clients hold.
  The queue is the abstract queue that \<open>QueueService\<close> implements: the waiting tasks, the way it was
  shut down, and the thread that runs a task of it in a context of its own.
\<close>

record active_world =
  refCount :: "32 word"
  clients :: nat
  made :: bool
  destructed :: bool
  m_hasInitialize :: bool
  m_hasFinalize :: bool
  m_isInitialized :: bool
  m_onDestructed :: "nat option"
  tasks :: "atask list"
  shutdownAction :: "PendingTaskAction option"
  runner :: "thread_id option"
  works :: "thread_id \<Rightarrow> awork list"
  history :: "aevent list"

definition active_world_new :: active_world where
  "active_world_new = \<lparr>refCount = 0, clients = 0, made = False, destructed = False, m_hasInitialize = False,
     m_hasFinalize = False, m_isInitialized = False, m_onDestructed = None, tasks = [], shutdownAction = None,
     runner = None, works = (\<lambda>_. []), history = []\<rparr>"

definition happens :: "aevent \<Rightarrow> active_world \<Rightarrow> active_world" where
  "happens e w = w\<lparr>history := history w @ [e]\<rparr>"

definition with_object :: "active_world \<Rightarrow> 'b outcome \<Rightarrow> 'b outcome" where
  "with_object w k = (if made w \<and> \<not> destructed w then k else Crashes DanglingPointer)"

section \<open>The queue\<close>

text \<open>
  \<open>InvokeElsePost\<close> of the queue. The thread \<open>own\<close> of a looper has access to its queue outside of a
  task too; the threads of a pool have none.
\<close>

definition Queue_InvokeElsePost ::
  "thread_id option \<Rightarrow> thread_id \<Rightarrow> atask \<Rightarrow> active_world \<Rightarrow> awork list \<times> active_world" where
  "Queue_InvokeElsePost own tid t w =
     (if runner w = Some tid then ([ARun t], w)
      else if own = Some tid then ([ARun t, ALeave], w\<lparr>runner := Some tid\<rparr>)
      else if shutdownAction w = None then ([], w\<lparr>tasks := tasks w @ [t]\<rparr>)
      else ([ACancel t], w))"

definition Queue_Post :: "atask \<Rightarrow> active_world \<Rightarrow> awork list \<times> active_world" where
  "Queue_Post t w =
     (if shutdownAction w = None then ([], w\<lparr>tasks := tasks w @ [t]\<rparr>) else ([ACancel t], w))"

definition Queue_Shutdown :: "PendingTaskAction \<Rightarrow> active_world \<Rightarrow> awork list \<times> active_world" where
  "Queue_Shutdown a w =
     (if a = CancelPending then (map ACancel (tasks w), w\<lparr>shutdownAction := Some a, tasks := []\<rparr>)
      else ([], w\<lparr>shutdownAction := Some a\<rparr>))"

section \<open>Making and deleting\<close>

text \<open>
  \<open>ActiveObjectMakePolicy::Make\<close>. The new object has the one reference that \<open>Make\<close> returns.
\<close>

definition ActiveObjectMakePolicy_Make ::
  "thread_id option \<Rightarrow> thread_id \<Rightarrow> bool \<Rightarrow> bool \<Rightarrow> active_world \<Rightarrow> awork list \<times> active_world" where
  "ActiveObjectMakePolicy_Make own tid hasInitialize hasFinalize w =
     (let w1 = w\<lparr>made := True, refCount := 1, m_hasInitialize := hasInitialize, m_hasFinalize := hasFinalize\<rparr>
      in if hasInitialize
         then (case Queue_InvokeElsePost own tid InitTask w1 of (new, w2) \<Rightarrow> (new @ [AMade], w2))
         else ([AMade], w1\<lparr>m_isInitialized := True\<rparr>))"

definition ActiveObjectDeleter_Delete ::
  "thread_id option \<Rightarrow> thread_id \<Rightarrow> active_world \<Rightarrow> (awork list \<times> active_world) outcome" where
  "ActiveObjectDeleter_Delete own tid w = with_object w
     (if m_isInitialized w \<and> m_hasFinalize w then Returns (Queue_InvokeElsePost own tid FinalizeTask w)
      else Returns ([ADestruct], w))"

text \<open>
  \<open>DestructObject\<close> takes the callback out of the object, runs the destructors and calls it. That of
  the base class checks that no other was set meanwhile.
\<close>

definition ActiveObjectBase_DestructObject :: "active_world \<Rightarrow> (awork list \<times> active_world) outcome" where
  "ActiveObjectBase_DestructObject w = with_object w
     (Returns ([AUser (Destructor (m_onDestructed w))], w\<lparr>m_onDestructed := None\<rparr>))"

definition ActiveObjectBase_dtor :: "active_world \<Rightarrow> unit outcome" where
  "ActiveObjectBase_dtor w =
     verify_else_crash (m_onDestructed w = None) ''The OnDestructed must be removed in the type Deleter.''"

definition after_destructor :: "nat option \<Rightarrow> active_world \<Rightarrow> (awork list \<times> active_world) outcome" where
  "after_destructor onDestructed w = with_object w (and_then (ActiveObjectBase_dtor w) (\<lambda>_.
     let w1 = happens EDestructed (w\<lparr>destructed := True\<rparr>)
     in case onDestructed of None \<Rightarrow> Returns ([], w1)
        | Some f \<Rightarrow> Returns ([AUser (OnDestructed f)], happens (EOnDestructed f) w1)))"

text \<open>\<open>Release\<close> of the counters; the last one deletes the object. \<open>GetStrongPtr\<close> of a weak pointer.\<close>

definition active_Release :: "active_world \<Rightarrow> awork list \<times> active_world" where
  "active_Release w =
     (let count = refCount w - 1 in (if count = 0 then [ADelete] else [], w\<lparr>refCount := count\<rparr>))"

definition IncrementRefCountIfNotZero :: "active_world \<Rightarrow> bool \<times> active_world" where
  "IncrementRefCountIfNotZero w =
     (let count = refCount w in if count = 0 then (False, w) else (True, w\<lparr>refCount := count + 1\<rparr>))"

section \<open>Calls of the object\<close>

definition SetOnDestructedOnce :: "nat \<Rightarrow> active_world \<Rightarrow> active_world outcome" where
  "SetOnDestructedOnce f w = with_object w
     (and_then (verify_else_crash (m_onDestructed w = None) ''The OnDestructed can be assigned only once.'') (\<lambda>_.
        Returns (happens (ESet f) (w\<lparr>m_onDestructed := Some f\<rparr>))))"

definition InvokeInQueue ::
  "thread_id option \<Rightarrow> thread_id \<Rightarrow> nat \<Rightarrow> active_world \<Rightarrow> (awork list \<times> active_world) outcome" where
  "InvokeInQueue own tid c w = with_object w (Returns (Queue_InvokeElsePost own tid (WeakTask c) w))"

definition InvokeInQueueStrong ::
  "thread_id option \<Rightarrow> thread_id \<Rightarrow> nat \<Rightarrow> active_world \<Rightarrow> (awork list \<times> active_world) outcome" where
  "InvokeInQueueStrong own tid c w = with_object w
     (Returns (Queue_InvokeElsePost own tid (StrongTask c) (w\<lparr>refCount := refCount w + 1\<rparr>)))"

text \<open>\<open>ReleaseAndWait\<close>: the event number \<open>f\<close> is set by the callback \<open>f\<close>.\<close>

definition ReleaseAndWait :: "nat \<Rightarrow> active_world \<Rightarrow> (awork list \<times> active_world) outcome" where
  "ReleaseAndWait f w =
     and_then (SetOnDestructedOnce f w) (\<lambda>w1. Returns ([ARelease, AWait f], w1\<lparr>clients := clients w1 - 1\<rparr>))"

datatype aop =
    OpMake bool bool
  | OpAddRef
  | OpRelease
  | OpInvokeInQueue nat
  | OpInvokeInQueueStrong nat
  | OpSetOnDestructedOnce nat
  | OpReleaseAndWait nat
  | OpPost nat
  | OpShutdown PendingTaskAction

fun exec_op :: "thread_id option \<Rightarrow> thread_id \<Rightarrow> aop \<Rightarrow> active_world \<Rightarrow> (awork list \<times> active_world) outcome" where
  "exec_op own tid (OpMake i f) w = Returns (ActiveObjectMakePolicy_Make own tid i f w)"
| "exec_op own tid OpAddRef w = with_object w (Returns ([], w\<lparr>refCount := refCount w + 1, clients := clients w + 1\<rparr>))"
| "exec_op own tid OpRelease w = with_object w (Returns ([ARelease], w\<lparr>clients := clients w - 1\<rparr>))"
| "exec_op own tid (OpInvokeInQueue c) w = InvokeInQueue own tid c w"
| "exec_op own tid (OpInvokeInQueueStrong c) w = InvokeInQueueStrong own tid c w"
| "exec_op own tid (OpSetOnDestructedOnce f) w = and_then (SetOnDestructedOnce f w) (\<lambda>w1. Returns ([], w1))"
| "exec_op own tid (OpReleaseAndWait f) w = ReleaseAndWait f w"
| "exec_op own tid (OpPost k) w = Returns (Queue_Post (OtherTask k) w)"
| "exec_op own tid (OpShutdown a) w = Returns (Queue_Shutdown a w)"

section \<open>Steps of the threads\<close>

text \<open>
  What a task does when it is invoked, up to the user code. The function object is destroyed behind
  the call, in the context of the task.
\<close>

fun invoke_task :: "atask \<Rightarrow> active_world \<Rightarrow> (awork list \<times> active_world) outcome" where
  "invoke_task InitTask w =
     (case IncrementRefCountIfNotZero w of
        (True, w1) \<Rightarrow> with_object w (Returns ([AUser Initialize], happens EInitialize w1))
      | (False, w1) \<Rightarrow> Returns ([], w1))"
| "invoke_task (WeakTask c) w =
     (case IncrementRefCountIfNotZero w of
        (True, w1) \<Rightarrow> Returns ([AUser (Callback c)], happens (ECallback c) w1)
      | (False, w1) \<Rightarrow> Returns ([], w1))"
| "invoke_task (StrongTask c) w = Returns ([AUser (Callback c)], happens (ECallback c) w)"
| "invoke_task FinalizeTask w = with_object w (Returns ([AUser Finalize], happens EFinalize w))"
| "invoke_task (OtherTask k) w = Returns ([AUser (Other k)], w)"

text \<open>Only the task of the deleter has a function for cancelling it. The others are destroyed.\<close>

fun cancel_task :: "atask \<Rightarrow> active_world \<Rightarrow> awork list \<times> active_world" where
  "cancel_task FinalizeTask w = ([ADestruct], w)"
| "cancel_task (StrongTask c) w = active_Release w"
| "cancel_task _ w = ([], w)"

text \<open>What follows when user code returns.\<close>

fun after_user :: "ucode \<Rightarrow> active_world \<Rightarrow> (awork list \<times> active_world) outcome" where
  "after_user Initialize w = with_object w (Returns ([ARelease], w\<lparr>m_isInitialized := True\<rparr>))"
| "after_user Finalize w = Returns ([ADestruct], w)"
| "after_user (Callback c) w = Returns (active_Release w)"
| "after_user (Destructor f) w = after_destructor f w"
| "after_user (OnDestructed f) w = Returns ([], w)"
| "after_user (Other k) w = Returns ([], w)"

fun exec_awork :: "thread_id option \<Rightarrow> thread_id \<Rightarrow> awork \<Rightarrow> active_world \<Rightarrow> (awork list \<times> active_world) outcome" where
  "exec_awork own tid (AUser u) w = after_user u w"
| "exec_awork own tid (ARun t) w = invoke_task t w"
| "exec_awork own tid (ACancel t) w = Returns (cancel_task t w)"
| "exec_awork own tid AMade w = Returns ([], w\<lparr>clients := clients w + 1\<rparr>)"
| "exec_awork own tid ARelease w = Returns (active_Release w)"
| "exec_awork own tid ADelete w = ActiveObjectDeleter_Delete own tid w"
| "exec_awork own tid ADestruct w = ActiveObjectBase_DestructObject w"
| "exec_awork own tid ALeave w = Returns ([], w\<lparr>runner := None\<rparr>)"
| "exec_awork own tid (AWait f) w = Returns ([], w)"

text \<open>
  User code calls the object where it has a reference, or in \<open>Finalize\<close> and the destructor, where
  the object is still there but counted no more: weak references may be made of it even then.
\<close>

fun in_user_code :: "awork list \<Rightarrow> bool" where
  "in_user_code [] = True"
| "in_user_code (AUser u # xs) = True"
| "in_user_code _ = False"

fun being_destroyed :: "awork list \<Rightarrow> bool" where
  "being_destroyed (AUser Finalize # xs) = True"
| "being_destroyed (AUser (Destructor f) # xs) = True"
| "being_destroyed _ = False"

fun may_call :: "aop \<Rightarrow> awork list \<Rightarrow> active_world \<Rightarrow> bool" where
  "may_call (OpMake i f) xs w = (\<not> made w)"
| "may_call OpRelease xs w = (0 < clients w)"
| "may_call (OpReleaseAndWait f) xs w = (0 < clients w)"
| "may_call (OpInvokeInQueue c) xs w = (refCount w \<noteq> 0 \<or> being_destroyed xs)"
| "may_call (OpSetOnDestructedOnce f) xs w = (refCount w \<noteq> 0 \<or> being_destroyed xs)"
| "may_call (OpPost k) xs w = True"
| "may_call (OpShutdown a) xs w = True"
| "may_call _ xs w = (refCount w \<noteq> 0)"

text \<open>A wait goes on when its event was set.\<close>

fun goes_on :: "awork \<Rightarrow> active_world \<Rightarrow> bool" where
  "goes_on (AWait f) w = (EOnDestructed f \<in> set (history w))"
| "goes_on _ w = True"

definition push :: "thread_id \<Rightarrow> awork list \<Rightarrow> awork list \<Rightarrow> active_world \<Rightarrow> active_world" where
  "push tid new xs w = w\<lparr>works := (works w)(tid := new @ xs)\<rparr>"

text \<open>
  The steps of \<open>n\<close> threads: user code makes a call, a thread goes on with its work, or a thread
  without work takes a task from the queue. The count stays below the top of its 32 bits.
\<close>

inductive active_step :: "thread_id option \<Rightarrow> nat \<Rightarrow> active_world \<Rightarrow> active_world \<Rightarrow> bool" for own n where
  call: "tid < n \<Longrightarrow> unat (refCount w) < 2 ^ 32 - 1 \<Longrightarrow> in_user_code (works w tid) \<Longrightarrow> may_call op (works w tid) w
    \<Longrightarrow> exec_op own tid op w = Returns (new, w1) \<Longrightarrow> active_step own n w (push tid new (works w tid) w1)"
| work: "tid < n \<Longrightarrow> unat (refCount w) < 2 ^ 32 - 1 \<Longrightarrow> works w tid = x # xs \<Longrightarrow> goes_on x w
    \<Longrightarrow> exec_awork own tid x w = Returns (new, w1) \<Longrightarrow> active_step own n w (push tid new xs w1)"
| take: "tid < n \<Longrightarrow> works w tid = [] \<Longrightarrow> own = None \<or> own = Some tid \<Longrightarrow> runner w = None \<Longrightarrow> tasks w = t # ts
    \<Longrightarrow> active_step own n w (push tid [ARun t, ALeave] [] (w\<lparr>runner := Some tid, tasks := ts\<rparr>))"

inductive active_reachable :: "thread_id option \<Rightarrow> nat \<Rightarrow> active_world \<Rightarrow> bool" for own n where
  start: "active_reachable own n active_world_new"
| step: "active_reachable own n w \<Longrightarrow> active_step own n w w' \<Longrightarrow> active_reachable own n w'"

end
