(* ===== verification/Active_Object_Life.thy ===== *)
theory Active_Object_Life
  imports Active_Object
begin

text \<open>
  The invariants of active objects: every reference is counted, the events of a life come in order,
  code runs where it belongs, and nothing that has to happen at the end is forgotten. A reachable
  state has them all: \<open>alive_reachable\<close>, \<open>queue_reachable\<close>, \<open>callbacks_reachable\<close>, \<open>flags_reachable\<close>,
  \<open>waits_reachable\<close>, \<open>settled_reachable\<close>.
\<close>

section \<open>Counting what threads and tasks hold\<close>

definition total :: "(awork \<Rightarrow> nat) \<Rightarrow> nat \<Rightarrow> active_world \<Rightarrow> nat" where
  "total f n w = (\<Sum>tid<n. sum_list (map f (works w tid))) + sum_list (map (\<lambda>t. f (ARun t)) (tasks w))"

lemma total_push:
  assumes "tid < n" and "works w tid = ys" and "works w1 = works w"
  shows "total f n (push tid new xs w1) + sum_list (map f ys) + sum_list (map (\<lambda>t. f (ARun t)) (tasks w))
    = total f n w + sum_list (map f new) + sum_list (map f xs) + sum_list (map (\<lambda>t. f (ARun t)) (tasks w1))"
  using sum_one_thread [OF assms(1), of "\<lambda>u. sum_list (map f (works (push tid new xs w1) u))"
      "\<lambda>u. sum_list (map f (works w u))"] assms(2,3)
  by (simp add: total_def push_def)

text \<open>
  The strong references of threads and tasks; the ends of the object that began; those that still
  have to, with a \<open>Finalize\<close> or without; and the \<open>Initialize\<close> to come.
\<close>

fun task_refs :: "atask \<Rightarrow> nat" where
  "task_refs (StrongTask c) = 1"
| "task_refs _ = 0"

fun work_refs :: "awork \<Rightarrow> nat" where
  "work_refs (AUser Initialize) = 1"
| "work_refs (AUser (Callback c)) = 1"
| "work_refs (ARun t) = task_refs t"
| "work_refs (ACancel t) = task_refs t"
| "work_refs AMade = 1"
| "work_refs ARelease = 1"
| "work_refs _ = 0"

fun ends :: "awork \<Rightarrow> nat" where
  "ends (AUser Finalize) = 1"
| "ends (AUser (Destructor f)) = 1"
| "ends ADestruct = 1"
| "ends _ = 0"

fun to_finalize :: "awork \<Rightarrow> nat" where
  "to_finalize (ARun FinalizeTask) = 1"
| "to_finalize (ACancel FinalizeTask) = 1"
| "to_finalize ADelete = 1"
| "to_finalize _ = 0"

fun to_initialize :: "awork \<Rightarrow> nat" where
  "to_initialize (ARun InitTask) = 1"
| "to_initialize (ACancel InitTask) = 1"
| "to_initialize _ = 0"

fun to_call_destructed :: "nat \<Rightarrow> awork \<Rightarrow> nat" where
  "to_call_destructed f (AUser (Destructor (Some g))) = of_bool (f = g)"
| "to_call_destructed f _ = 0"

lemma total_pos: "tid < n \<Longrightarrow> x \<in> set (works w tid) \<Longrightarrow> f x \<le> total f n w"
proof -
  assume "tid < n" and "x \<in> set (works w tid)"
  then have "f x \<le> sum_list (map f (works w tid))" by (simp add: member_le_sum_list)
  also have "\<dots> \<le> (\<Sum>tid<n. sum_list (map f (works w tid)))"
    using \<open>tid < n\<close> by (intro member_le_sum) simp_all
  finally show ?thesis by (simp add: total_def)
qed

section \<open>The life of an object\<close>

definition times :: "aevent \<Rightarrow> active_world \<Rightarrow> nat" where
  "times e w = count_list (history w) e"

fun rank :: "aevent \<Rightarrow> nat" where
  "rank EInitialize = 0"
| "rank (ECallback c) = 0"
| "rank EFinalize = 1"
| "rank EDestructed = 2"
| "rank (EOnDestructed f) = 3"
| "rank (ESet f) = 4"

fun is_set :: "aevent \<Rightarrow> bool" where
  "is_set (ESet f) = True"
| "is_set _ = False"

lemma rank_small:
  "\<not> is_set e \<Longrightarrow> e \<noteq> EDestructed \<Longrightarrow> \<forall>f. e \<noteq> EOnDestructed f \<Longrightarrow> rank e \<le> 1"
  "\<not> is_set e \<Longrightarrow> \<forall>f. e \<noteq> EOnDestructed f \<Longrightarrow> rank e \<le> 2"
  "\<not> is_set e \<Longrightarrow> rank e \<le> 3"
  by (cases e; auto)+

definition in_order :: "aevent list \<Rightarrow> bool" where
  "in_order es \<longleftrightarrow> sorted (map rank (filter (\<lambda>e. \<not> is_set e) es))"

text \<open>The invariant, on the world and its four totals.\<close>

definition alive_ok :: "active_world \<Rightarrow> nat \<Rightarrow> nat \<Rightarrow> nat \<Rightarrow> nat \<Rightarrow> bool" where
  "alive_ok w r e fin ini \<longleftrightarrow>
     unat (refCount w) = clients w + r
   \<and> (made w \<longrightarrow> (if refCount w = 0 then e + fin + of_bool (destructed w) = 1
        else e = 0 \<and> fin = 0 \<and> \<not> destructed w))
   \<and> (\<not> made w \<longrightarrow> refCount w = 0 \<and> e = 0 \<and> fin = 0 \<and> ini = 0 \<and> \<not> destructed w \<and> history w = [] \<and> m_onDestructed w = None
        \<and> \<not> m_isInitialized w)
   \<and> times EFinalize w + fin \<le> 1
   \<and> (refCount w \<noteq> 0 \<longrightarrow> times EFinalize w = 0)
   \<and> times EInitialize w + ini \<le> 1
   \<and> times EDestructed w = of_bool (destructed w)
   \<and> (destructed w \<longrightarrow> m_onDestructed w = None)
   \<and> (\<not> destructed w \<longrightarrow> (\<forall>f. EOnDestructed f \<notin> set (history w)))
   \<and> in_order (history w)"


text \<open>A step in terms of the totals: \<open>f\<close> changes from \<open>a\<close> to \<open>b\<close> when \<open>x\<close> is replaced by \<open>new\<close>.\<close>

definition queued :: "(awork \<Rightarrow> nat) \<Rightarrow> active_world \<Rightarrow> nat" where
  "queued f w = sum_list (map (\<lambda>t. f (ARun t)) (tasks w))"

definition counts_tasks :: "(awork \<Rightarrow> nat) \<Rightarrow> bool" where
  "counts_tasks f \<longleftrightarrow> f ALeave = 0 \<and> (\<forall>t. f (ACancel t) = f (ARun t))"

lemma counts_tasks: "counts_tasks work_refs" "counts_tasks ends" "counts_tasks to_finalize" "counts_tasks to_initialize"
  "counts_tasks (to_call_destructed f)"
proof -
  have "ends (ACancel t) = ends (ARun t) \<and> to_finalize (ACancel t) = to_finalize (ARun t)
    \<and> to_initialize (ACancel t) = to_initialize (ARun t)" for t by (cases t) simp_all
  then show "counts_tasks work_refs" "counts_tasks ends" "counts_tasks to_finalize" "counts_tasks to_initialize"
    "counts_tasks (to_call_destructed f)" by (simp_all add: counts_tasks_def)
qed

text \<open>The object without the queue and the threads.\<close>

definition core :: "active_world \<Rightarrow> active_world" where
  "core w = w\<lparr>tasks := [], shutdownAction := None, runner := None, works := (\<lambda>_. [])\<rparr>"

lemma core_updates [simp]:
  "core (w\<lparr>tasks := ts\<rparr>) = core w" "core (w\<lparr>shutdownAction := s\<rparr>) = core w" "core (w\<lparr>runner := r\<rparr>) = core w"
  "core (w\<lparr>works := f\<rparr>) = core w" "core (push tid new xs w) = core w"
  by (simp_all add: core_def push_def)

lemma core_sel [simp]:
  "refCount (core w) = refCount w" "clients (core w) = clients w" "made (core w) = made w"
  "destructed (core w) = destructed w" "m_hasInitialize (core w) = m_hasInitialize w"
  "m_hasFinalize (core w) = m_hasFinalize w" "m_isInitialized (core w) = m_isInitialized w"
  "m_onDestructed (core w) = m_onDestructed w" "history (core w) = history w"
  by (simp_all add: core_def)

lemma core_fields:
  assumes "core w1 = core w"
  shows "refCount w1 = refCount w" "clients w1 = clients w" "made w1 = made w" "destructed w1 = destructed w"
    "m_hasInitialize w1 = m_hasInitialize w" "m_hasFinalize w1 = m_hasFinalize w"
    "m_isInitialized w1 = m_isInitialized w" "m_onDestructed w1 = m_onDestructed w" "history w1 = history w"
  using assms by (metis core_sel)+

lemma alive_ok_core: "core w1 = core w \<Longrightarrow> alive_ok w1 r e fin ini = alive_ok w r e fin ini"
  unfolding alive_ok_def times_def by (simp only: core_fields [of w1 w])

lemma InvokeElsePost_effect:
  assumes "Queue_InvokeElsePost own tid t w = (new, w1)"
  shows "core w1 = core w" and "works w1 = works w"
    and "counts_tasks f \<Longrightarrow> sum_list (map f new) + queued f w1 = queued f w + f (ARun t)"
  using assms by (auto simp: Queue_InvokeElsePost_def queued_def counts_tasks_def split: if_splits)

text \<open>The object itself changes in few ways.\<close>

lemma unat_inc_32: "unat (n :: 32 word) < 2 ^ 32 - 1 \<Longrightarrow> unat (n + 1) = unat n + 1 \<and> n + 1 \<noteq> 0"
  using unat_inc [of n] inc_nonzero [of n] by simp

lemma in_order_snoc:
  assumes "in_order es" and "\<And>e'. e' \<in> set es \<Longrightarrow> \<not> is_set e' \<Longrightarrow> rank e' \<le> rank e"
  shows "in_order (es @ [e])"
  using assms by (auto simp: in_order_def sorted_append)

lemma in_order_set [simp]: "in_order (es @ [ESet f]) = in_order es"
  by (simp add: in_order_def)

definition alive :: "nat \<Rightarrow> active_world \<Rightarrow> bool" where
  "alive n w \<longleftrightarrow> alive_ok w (total work_refs n w) (total ends n w) (total to_finalize n w) (total to_initialize n w)"

text \<open>
  A step is right if it is right for what it replaces: the work \<open>x\<close>, or nothing, by new work and tasks,
  together worth \<open>k\<close>.
\<close>

lemma alive_push:
  assumes "alive n w" and "tid < n" and "works w tid = ys @ xs" and "works w1 = works w"
    and "\<And>f. counts_tasks f \<Longrightarrow> sum_list (map f new) + queued f w1 = queued f w + k f"
    and "\<And>r e fin ini. alive_ok w (r + sum_list (map work_refs ys)) (e + sum_list (map ends ys))
           (fin + sum_list (map to_finalize ys)) (ini + sum_list (map to_initialize ys))
         \<Longrightarrow> alive_ok w1 (r + k work_refs) (e + k ends) (fin + k to_finalize) (ini + k to_initialize)"
  shows "alive n (push tid new xs w1)"
proof -
  have le: "sum_list (map f ys) \<le> total f n w" for f
  proof -
    have "sum_list (map f ys) \<le> sum_list (map f (works w tid))" using assms(3) by simp
    also have "\<dots> \<le> (\<Sum>tid<n. sum_list (map f (works w tid)))" using assms(2) by (intro member_le_sum) simp_all
    finally show ?thesis by (simp add: total_def)
  qed
  have t: "total f n (push tid new xs w1) = total f n w - sum_list (map f ys) + k f" if "counts_tasks f" for f
    using total_push [OF assms(2,3,4), of f new xs] assms(5) [OF that] le [of f] by (simp add: queued_def)
  have "alive_ok w1 (total work_refs n w - sum_list (map work_refs ys) + k work_refs)
      (total ends n w - sum_list (map ends ys) + k ends) (total to_finalize n w - sum_list (map to_finalize ys) + k to_finalize)
      (total to_initialize n w - sum_list (map to_initialize ys) + k to_initialize)"
    using assms(1) le by (intro assms(6)) (simp add: alive_def)
  then show ?thesis
    unfolding alive_def t [OF counts_tasks(1)] t [OF counts_tasks(2)] t [OF counts_tasks(3)] t [OF counts_tasks(4)]
    by (subst alive_ok_core [OF core_updates(5)])
qed

text \<open>\<open>k\<close> is what the new work is worth where no task is posted.\<close>

lemma alive_push_local:
  assumes "alive n w" and "tid < n" and "works w tid = ys @ xs" and "works w1 = works w" and "tasks w1 = tasks w"
    and "\<And>r e fin ini. alive_ok w (r + sum_list (map work_refs ys)) (e + sum_list (map ends ys))
           (fin + sum_list (map to_finalize ys)) (ini + sum_list (map to_initialize ys))
         \<Longrightarrow> alive_ok w1 (r + sum_list (map work_refs new)) (e + sum_list (map ends new))
           (fin + sum_list (map to_finalize new)) (ini + sum_list (map to_initialize new))"
  shows "alive n (push tid new xs w1)"
  by (rule alive_push [OF assms(1-4), where k = "\<lambda>f. sum_list (map f new)"])
    (simp add: queued_def assms(5), rule assms(6))

lemma alive_release:
  assumes "alive_ok w (Suc r) e fin ini" and "active_Release w = (new, w1)"
  shows "alive_ok w1 (r + sum_list (map work_refs new)) (e + sum_list (map ends new))
           (fin + sum_list (map to_finalize new)) (ini + sum_list (map to_initialize new))"
proof -
  have "0 < unat (refCount w)" using assms(1) by (simp add: alive_ok_def)
  then have u: "unat (refCount w - 1) = unat (refCount w) - 1" and nz: "refCount w \<noteq> 0" by (auto simp: unat_dec)
  have "made w" using assms(1) nz by (auto simp: alive_ok_def)
  then show ?thesis
    using assms u nz by (auto simp: alive_ok_def active_Release_def times_def Let_def)
qed


lemmas alive_defs = alive_ok_def times_def with_object_def happens_def

lemma events_before:
  assumes "alive_ok w r e fin ini" and "refCount w \<noteq> 0" and "e' \<in> set (history w)" and "\<not> is_set e'"
  shows "rank e' = 0"
proof -
  have m: "made w" using assms(1,2) by (auto simp: alive_ok_def)
  then have "\<not> destructed w" "count_list (history w) EFinalize = 0" "count_list (history w) EDestructed = 0"
    using assms(1,2) by (auto simp: alive_ok_def times_def)
  then show ?thesis using assms by (cases e') (auto simp: alive_ok_def count_list_0_iff)
qed

lemma alive_upgrade:
  assumes "alive_ok w r e fin ini" and "refCount w \<noteq> 0" and "unat (refCount w) < 2 ^ 32 - 1"
  shows "alive_ok (w\<lparr>refCount := refCount w + 1\<rparr>) (Suc r) e fin ini"
    and "alive_ok (w\<lparr>refCount := refCount w + 1, clients := clients w + 1\<rparr>) r e fin ini"
  using assms unat_inc_32 [OF assms(3)] by (auto simp: alive_defs)

lemma alive_event:
  assumes "alive_ok w r e fin ini" and "refCount w \<noteq> 0"
  shows "alive_ok (happens (ECallback c) w) r e fin ini"
    and "alive_ok w r e fin (Suc ini) \<Longrightarrow> alive_ok (happens EInitialize w) r e fin ini"
proof -
  have o: "in_order (history w @ [x])" if "\<not> is_set x" for x
    using assms(1) events_before [OF assms] by (intro in_order_snoc) (auto simp: alive_ok_def)
  have m: "made w" using assms by (auto simp: alive_ok_def)
  show "alive_ok (happens (ECallback c) w) r e fin ini"
    using assms o [of "ECallback c"] m by (auto simp: alive_defs)
  show "alive_ok (happens EInitialize w) r e fin ini" if "alive_ok w r e fin (Suc ini)"
    using that assms(2) o [of EInitialize] m by (auto simp: alive_defs)
qed


lemma Release_frame: "active_Release w = (new, w1) \<Longrightarrow> works w1 = works w \<and> tasks w1 = tasks w"
  by (auto simp: active_Release_def Let_def)

lemma alive_user:
  assumes "after_user u w = Returns (new, w1)"
    and "alive_ok w (r + work_refs (AUser u)) (e + ends (AUser u)) fin ini"
  shows "alive_ok w1 (r + sum_list (map work_refs new)) (e + sum_list (map ends new))
           (fin + sum_list (map to_finalize new)) (ini + sum_list (map to_initialize new))"
proof (cases u)
  case Initialize
  then show ?thesis using assms by (auto simp: alive_defs split: if_splits)
next
  case Finalize
  then show ?thesis using assms by auto
next
  case (Callback c)
  then show ?thesis using assms alive_release [of w r e fin ini] by simp
next
  case (Destructor onD)
  have i: "destructed w = False" "made w" "m_onDestructed w = None"
    and new: "sum_list (map work_refs new) = 0" "sum_list (map ends new) = 0" "sum_list (map to_finalize new) = 0"
      "sum_list (map to_initialize new) = 0"
    using assms(1) Destructor by (auto simp: after_destructor_def with_object_def ActiveObjectBase_dtor_def outcome_simps
        Let_def split: option.splits if_splits)
  have a: "alive_ok w r (Suc e) fin ini" using assms(2) Destructor by simp
  then have r0: "refCount w = 0" and e0: "e = 0" "fin = 0" using i by (auto simp: alive_ok_def split: if_splits)
  have h: "count_list (history w) EDestructed = 0" "\<forall>f. EOnDestructed f \<notin> set (history w)" "in_order (history w)"
    using a i by (auto simp: alive_ok_def times_def)
  then have o: "in_order (history w @ [EDestructed])"
  proof (intro in_order_snoc)
    fix e' assume "e' \<in> set (history w)" and "\<not> is_set e'"
    then show "rank e' \<le> rank EDestructed" using h(2) rank_small(2) [of e'] by auto
  qed simp
  then have o2: "in_order ((history w @ [EDestructed]) @ [EOnDestructed f])" for f
  proof (rule in_order_snoc)
    fix e' assume "e' \<in> set (history w @ [EDestructed])" and "\<not> is_set e'"
    then show "rank e' \<le> rank (EOnDestructed f)" using rank_small(3) [of e'] by simp
  qed
  let ?w = "happens EDestructed (w\<lparr>destructed := True\<rparr>)"
  have "alive_ok ?w r 0 fin ini" using a o i r0 e0 h by (auto simp: alive_defs)
  moreover have "alive_ok (happens (EOnDestructed f) ?w) r 0 fin ini" for f
    using a o2 i r0 e0 h by (auto simp: alive_defs)
  ultimately show ?thesis
    using assms(1) Destructor i e0 new by (auto simp: after_destructor_def with_object_def ActiveObjectBase_dtor_def
        Let_def split: option.splits)
next
  case (OnDestructed f)
  then show ?thesis using assms by auto
next
  case (Other k)
  then show ?thesis using assms by auto
qed

lemma alive_invoke:
  assumes "invoke_task t w = Returns (new, w1)" and "unat (refCount w) < 2 ^ 32 - 1"
    and "alive_ok w (r + task_refs t) (e + ends (ARun t)) (fin + to_finalize (ARun t)) (ini + to_initialize (ARun t))"
  shows "alive_ok w1 (r + sum_list (map work_refs new)) (e + sum_list (map ends new))
           (fin + sum_list (map to_finalize new)) (ini + sum_list (map to_initialize new))"
proof (cases t)
  case InitTask
  show ?thesis
  proof (cases "refCount w = 0")
    case True
    then show ?thesis using assms InitTask by (auto simp: IncrementRefCountIfNotZero_def Let_def alive_ok_def)
  next
    case False
    let ?w = "w\<lparr>refCount := refCount w + 1\<rparr>"
    have "alive_ok ?w (Suc r) e fin (Suc ini)" using alive_upgrade(1) [OF _ False assms(2)] assms(3) InitTask by simp
    moreover from this have "alive_ok ?w (Suc r) e fin ini" by (auto simp: alive_ok_def)
    moreover have "refCount ?w \<noteq> 0" using unat_inc_32 [OF assms(2)] by simp
    ultimately have "alive_ok (happens EInitialize ?w) (Suc r) e fin ini" using alive_event(2) by blast
    then show ?thesis
      using assms(1) False InitTask by (auto simp: IncrementRefCountIfNotZero_def Let_def with_object_def split: if_splits)
  qed
next
  case (WeakTask c)
  show ?thesis
  proof (cases "refCount w = 0")
    case True
    then show ?thesis using assms WeakTask by (auto simp: IncrementRefCountIfNotZero_def Let_def)
  next
    case False
    let ?w = "w\<lparr>refCount := refCount w + 1\<rparr>"
    have "alive_ok ?w (Suc r) e fin ini" using alive_upgrade(1) [OF _ False assms(2)] assms(3) WeakTask by simp
    moreover have "refCount ?w \<noteq> 0" using unat_inc_32 [OF assms(2)] by simp
    ultimately show ?thesis
      using alive_event(1) [of ?w] assms(1) False WeakTask by (auto simp: IncrementRefCountIfNotZero_def Let_def)
  qed
next
  case (StrongTask c)
  then have "refCount w \<noteq> 0" using assms(3) by (auto simp: alive_ok_def)
  then show ?thesis using StrongTask assms alive_event(1) [of w] by auto
next
  case FinalizeTask
  have i: "made w" "\<not> destructed w" using assms(1) FinalizeTask by (auto simp: with_object_def split: if_splits)
  have a: "alive_ok w r e (Suc fin) ini" using assms(3) FinalizeTask by simp
  then have r0: "refCount w = 0" and e0: "e = 0" and f0: "fin = 0" using i by (auto simp: alive_ok_def split: if_splits)
  have h: "count_list (history w) EFinalize = 0" "count_list (history w) EDestructed = 0"
      "\<forall>f. EOnDestructed f \<notin> set (history w)" "in_order (history w)"
    using a i by (auto simp: alive_ok_def times_def)
  then have "in_order (history w @ [EFinalize])"
  proof (intro in_order_snoc)
    fix e' assume "e' \<in> set (history w)" and "\<not> is_set e'"
    moreover have "EDestructed \<notin> set (history w)" using h(2) by (simp only: count_list_0_iff not_False_eq_True)
    ultimately show "rank e' \<le> rank EFinalize" using h(3) rank_small(1) [of e'] by auto
  qed simp
  then show ?thesis using assms(1) FinalizeTask a i r0 e0 f0 h by (auto simp: alive_defs)
next
  case (OtherTask k)
  then show ?thesis using assms by auto
qed


lemma invoke_frame: "invoke_task t w = Returns (new, w1) \<Longrightarrow> works w1 = works w \<and> tasks w1 = tasks w"
  by (cases t) (auto simp: IncrementRefCountIfNotZero_def Let_def with_object_def happens_def split: if_splits)

lemma after_user_frame: "after_user u w = Returns (new, w1) \<Longrightarrow> works w1 = works w \<and> tasks w1 = tasks w"
  by (cases u) (auto simp: with_object_def happens_def after_destructor_def outcome_simps Let_def dest: Release_frame
      split: if_splits option.splits)

lemma exec_awork_works: "exec_awork own tid x w = Returns (new, w1) \<Longrightarrow> works w1 = works w"
proof (cases x)
  case (ACancel t)
  then show "exec_awork own tid x w = Returns (new, w1) \<Longrightarrow> works w1 = works w"
    by (cases t) (auto dest: Release_frame)
qed (auto dest: invoke_frame after_user_frame Release_frame InvokeElsePost_effect(2)
    simp: ActiveObjectDeleter_Delete_def ActiveObjectBase_DestructObject_def with_object_def split: if_splits)

lemma alive_made: "alive_ok w (Suc r) e fin ini \<Longrightarrow> alive_ok (w\<lparr>clients := clients w + 1\<rparr>) r e fin ini"
  by (simp add: alive_ok_def times_def)

lemma alive_taken: "alive_ok w r e fin ini \<Longrightarrow> alive_ok (w\<lparr>m_onDestructed := None\<rparr>) r e fin ini"
  by (simp add: alive_ok_def times_def)

lemma alive_work:
  assumes "alive n w" and "tid < n" and "unat (refCount w) < 2 ^ 32 - 1" and "works w tid = x # xs"
    and "exec_awork own tid x w = Returns (new, w1)"
  shows "alive n (push tid new xs w1)"
proof -
  have f: "works w1 = works w" by (rule exec_awork_works [OF assms(5)])
  have ys: "works w tid = [x] @ xs" using assms(4) by simp
  note local = alive_push_local [OF assms(1,2) ys f]
  show ?thesis
  proof (cases x)
    case (AUser u)
    then have u: "after_user u w = Returns (new, w1)" using assms(5) by simp
    have "to_finalize (AUser u) = 0" "to_initialize (AUser u) = 0" by simp_all
    then show ?thesis using AUser after_user_frame [OF u] alive_user [OF u] by (intro local) auto
  next
    case (ARun t)
    then have u: "invoke_task t w = Returns (new, w1)" using assms(5) by simp
    show ?thesis using ARun invoke_frame [OF u] alive_invoke [OF u assms(3)] by (intro local) auto
  next
    case (ACancel t)
    then have u: "cancel_task t w = (new, w1)" using assms(5) by simp
    show ?thesis
    proof (cases "\<exists>c. t = StrongTask c")
      case True
      then show ?thesis using ACancel u Release_frame alive_release by (intro local) auto
    next
      case False
      show ?thesis
      proof (rule local)
        show "tasks w1 = tasks w" using u False by (cases t) auto
        show "alive_ok w1 (r + sum_list (map work_refs new)) (e + sum_list (map ends new))
            (fin + sum_list (map to_finalize new)) (ini + sum_list (map to_initialize new))"
          if "alive_ok w (r + sum_list (map work_refs [x])) (e + sum_list (map ends [x]))
            (fin + sum_list (map to_finalize [x])) (ini + sum_list (map to_initialize [x]))" for r e fin ini
          using that u ACancel False by (cases t) (auto simp: alive_ok_def split: if_splits)
      qed
    qed
  next
    case AMade
    then have "new = []" "w1 = w\<lparr>clients := clients w + 1\<rparr>" using assms(5) by simp_all
    then show ?thesis using AMade alive_made by (intro local) simp_all
  next
    case ARelease
    then show ?thesis using assms(5) Release_frame alive_release by (intro local) auto
  next
    case ADelete
    show ?thesis
    proof (cases "m_isInitialized w \<and> m_hasFinalize w")
      case True
      then have p: "Queue_InvokeElsePost own tid FinalizeTask w = (new, w1)"
        using assms(5) ADelete by (simp add: ActiveObjectDeleter_Delete_def with_object_def split: if_splits)
      note e = InvokeElsePost_effect [OF p]
      show ?thesis
        by (rule alive_push [OF assms(1,2) ys f, where k = "\<lambda>f. f (ARun FinalizeTask)"])
          (use e ADelete alive_ok_core [OF e(1)] in auto)
    next
      case False
      then have "new = [ADestruct]" "w1 = w"
        using assms(5) ADelete by (auto simp: ActiveObjectDeleter_Delete_def with_object_def split: if_splits)
      then show ?thesis using ADelete by (intro local) (auto simp: alive_ok_def)
    qed
  next
    case ADestruct
    then have "new = [AUser (Destructor (m_onDestructed w))]" "w1 = w\<lparr>m_onDestructed := None\<rparr>"
      using assms(5) by (simp_all add: ActiveObjectBase_DestructObject_def with_object_def split: if_splits)
    then show ?thesis using ADestruct alive_taken by (intro local) simp_all
  next
    case ALeave
    then show ?thesis using assms(5) alive_ok_core [of w1 w] by (intro local) auto
  next
    case (AWait f)
    then show ?thesis using assms(5) by (intro local) auto
  qed
qed


lemma exec_op_works: "exec_op own tid op w = Returns (new, w1) \<Longrightarrow> works w1 = works w"
  by (cases op) (auto simp: ActiveObjectMakePolicy_Make_def InvokeInQueue_def InvokeInQueueStrong_def SetOnDestructedOnce_def
      ReleaseAndWait_def Queue_Post_def Queue_Shutdown_def with_object_def happens_def outcome_simps Let_def
      dest: InvokeElsePost_effect(2) split: if_splits prod.splits)

text \<open>A call that posts a task, in a world \<open>w0\<close> that differs from \<open>w\<close> in the object only.\<close>

lemma alive_post:
  assumes "alive n w" and "tid < n" and "works w0 = works w" and "tasks w0 = tasks w"
    and "Queue_InvokeElsePost own tid t w0 = (new0, w1)" and "new = new0 @ rest"
    and "\<And>r e fin ini. alive_ok w r e fin ini \<Longrightarrow>
        alive_ok w0 (r + task_refs t + sum_list (map work_refs rest)) (e + ends (ARun t) + sum_list (map ends rest))
          (fin + to_finalize (ARun t) + sum_list (map to_finalize rest))
          (ini + to_initialize (ARun t) + sum_list (map to_initialize rest))"
  shows "alive n (push tid new (works w tid) w1)"
proof -
  note e = InvokeElsePost_effect [OF assms(5)]
  have q: "queued f w0 = queued f w" for f by (simp add: queued_def assms(4))
  show ?thesis
  proof (rule alive_push [OF assms(1,2), of "[]" "works w tid" w1, where k = "\<lambda>f. f (ARun t) + sum_list (map f rest)"])
    show "works w1 = works w" using e(2) assms(3) by simp
    show "sum_list (map f new) + queued f w1 = queued f w + (f (ARun t) + sum_list (map f rest))" if "counts_tasks f" for f
      using e(3) [OF that] assms(6) q [of f] by simp
    show "alive_ok w1 (r + (work_refs (ARun t) + sum_list (map work_refs rest)))
        (e + (ends (ARun t) + sum_list (map ends rest))) (fin + (to_finalize (ARun t) + sum_list (map to_finalize rest)))
        (ini + (to_initialize (ARun t) + sum_list (map to_initialize rest)))"
      if "alive_ok w (r + sum_list (map work_refs [])) (e + sum_list (map ends []))
        (fin + sum_list (map to_finalize [])) (ini + sum_list (map to_initialize []))" for r e fin ini
      unfolding alive_ok_core [OF e(1)] using assms(7) [of r e fin ini] that by (simp add: add.assoc)
  qed simp
qed

lemma alive_new_object:
  assumes "alive_ok w r e fin ini" and "\<not> made w"
  shows "alive_ok (w\<lparr>made := True, refCount := 1, m_hasInitialize := i, m_hasFinalize := f\<rparr>) (Suc r) e fin (Suc ini)"
    and "alive_ok (w\<lparr>made := True, refCount := 1, m_hasInitialize := i, m_hasFinalize := f, m_isInitialized := True\<rparr>)
      (Suc r) e fin ini"
  using assms by (auto simp: alive_ok_def times_def)

lemma alive_give_up:
  "alive_ok w r e fin ini \<Longrightarrow> 0 < clients w \<Longrightarrow> alive_ok (w\<lparr>clients := clients w - 1\<rparr>) (Suc r) e fin ini"
  by (simp add: alive_ok_def times_def)

lemma alive_set:
  "alive_ok w r e fin ini \<Longrightarrow> made w \<Longrightarrow> \<not> destructed w
     \<Longrightarrow> alive_ok (happens (ESet f) (w\<lparr>m_onDestructed := Some f\<rparr>)) r e fin ini"
  by (auto simp: alive_ok_def times_def happens_def)

lemma alive_op:
  assumes "alive n w" and "tid < n" and "unat (refCount w) < 2 ^ 32 - 1" and "may_call op (works w tid) w"
    and "exec_op own tid op w = Returns (new, w1)"
  shows "alive n (push tid new (works w tid) w1)"
proof -
  have f: "works w1 = works w" by (rule exec_op_works [OF assms(5)])
  have ys: "works w tid = [] @ works w tid" by simp
  note local = alive_push_local [OF assms(1,2) ys f]
  show ?thesis
  proof (cases op)
    case (OpMake i fi)
    let ?w = "w\<lparr>made := True, refCount := 1, m_hasInitialize := i, m_hasFinalize := fi\<rparr>"
    have m: "\<not> made w" using assms(4) OpMake by simp
    show ?thesis
    proof (cases i)
      case True
      obtain new0 w2 where p: "Queue_InvokeElsePost own tid InitTask ?w = (new0, w2)" by fastforce
      then have "new = new0 @ [AMade]" "w1 = w2"
        using assms(5) OpMake True by (simp_all add: ActiveObjectMakePolicy_Make_def Let_def)
      then show ?thesis
        using alive_post [OF assms(1,2) _ _ p, of new "[AMade]"] alive_new_object(1) [where i = i and f = fi, OF _ m]
        by simp
    next
      case False
      then have "new = [AMade]" "w1 = ?w\<lparr>m_isInitialized := True\<rparr>"
        using assms(5) OpMake by (auto simp: ActiveObjectMakePolicy_Make_def Let_def)
      then show ?thesis using alive_new_object(2) [OF _ m] by (intro local) simp_all
    qed
  next
    case OpAddRef
    then have "new = []" "w1 = w\<lparr>refCount := refCount w + 1, clients := clients w + 1\<rparr>" "refCount w \<noteq> 0"
      using assms(4,5) by (simp_all add: with_object_def split: if_splits)
    then show ?thesis using alive_upgrade(2) [OF _ _ assms(3)] by (intro local) simp_all
  next
    case OpRelease
    then have "new = [ARelease]" "w1 = w\<lparr>clients := clients w - 1\<rparr>" "0 < clients w"
      using assms(4,5) by (simp_all add: with_object_def split: if_splits)
    then show ?thesis using alive_give_up [of w] by (intro local) simp_all
  next
    case (OpInvokeInQueue c)
    then have "Queue_InvokeElsePost own tid (WeakTask c) w = (new, w1)"
      using assms(5) by (simp add: InvokeInQueue_def with_object_def split: if_splits)
    then show ?thesis using alive_post [OF assms(1,2) refl refl, of own "WeakTask c" new w1 new "[]"] by simp
  next
    case (OpInvokeInQueueStrong c)
    then have p: "Queue_InvokeElsePost own tid (StrongTask c) (w\<lparr>refCount := refCount w + 1\<rparr>) = (new, w1)"
      and "refCount w \<noteq> 0"
      using assms(4,5) by (simp_all add: InvokeInQueueStrong_def with_object_def split: if_splits)
    then show ?thesis
      using alive_post [OF assms(1,2) _ _ p, of new "[]"] alive_upgrade(1) [OF _ _ assms(3)] by simp
  next
    case (OpSetOnDestructedOnce d)
    then have "new = []" "w1 = happens (ESet d) (w\<lparr>m_onDestructed := Some d\<rparr>)" "made w" "\<not> destructed w"
      using assms(5) by (auto simp: SetOnDestructedOnce_def with_object_def outcome_simps split: if_splits)
    then show ?thesis using alive_set by (intro local) (simp_all add: happens_def)
  next
    case (OpReleaseAndWait d)
    let ?w = "happens (ESet d) (w\<lparr>m_onDestructed := Some d\<rparr>)"
    have "new = [ARelease, AWait d]" "w1 = ?w\<lparr>clients := clients ?w - 1\<rparr>" "made w" "\<not> destructed w" "0 < clients ?w"
      using assms(4,5) OpReleaseAndWait
      by (auto simp: ReleaseAndWait_def SetOnDestructedOnce_def with_object_def outcome_simps happens_def split: if_splits)
    then show ?thesis using alive_set [of w _ _ _ _ d] alive_give_up [of ?w]
      by (intro local) (simp_all add: happens_def)
  next
    case (OpPost k)
    have "sum_list (map f new) + queued f w1 = queued f w" if "f (ARun (OtherTask k)) = 0" "counts_tasks f" for f
      using assms(5) OpPost that by (auto simp: Queue_Post_def queued_def counts_tasks_def split: if_splits)
    moreover have "core w1 = core w" using assms(5) OpPost by (auto simp: Queue_Post_def split: if_splits)
    ultimately show ?thesis
      using alive_push [OF assms(1,2) ys f, of new "\<lambda>f. f (ARun (OtherTask k))"] alive_ok_core [of w1 w]
        assms(5) OpPost by (auto simp: Queue_Post_def queued_def counts_tasks_def split: if_splits)
  next
    case (OpShutdown a)
    have "sum_list (map f new) + queued f w1 = queued f w" if "counts_tasks f" for f
    proof -
      have "sum_list (map (f \<circ> ACancel) (tasks w)) = sum_list (map (\<lambda>t. f (ARun t)) (tasks w))"
        using that by (simp add: counts_tasks_def comp_def)
      then show ?thesis using assms(5) OpShutdown by (auto simp: Queue_Shutdown_def queued_def split: if_splits)
    qed
    moreover have "core w1 = core w" using assms(5) OpShutdown by (auto simp: Queue_Shutdown_def split: if_splits)
    ultimately show ?thesis
      using alive_push [OF assms(1,2) ys f, of new "\<lambda>f. 0"] alive_ok_core [of w1 w] by simp
  qed
qed

lemma alive_take:
  assumes "alive n w" and "tid < n" and "works w tid = []" and "tasks w = t # ts"
  shows "alive n (push tid [ARun t, ALeave] [] (w\<lparr>runner := Some tid, tasks := ts\<rparr>))"
  by (rule alive_push [OF assms(1,2), of "[]" "[]", where k = "\<lambda>f. 0"])
    (use assms(3,4) in \<open>simp_all add: queued_def counts_tasks_def alive_ok_core [of "w\<lparr>runner := Some tid, tasks := ts\<rparr>" w]\<close>)

lemma alive_reachable: "active_reachable own n w \<Longrightarrow> alive n w"
proof (induction rule: active_reachable.induct)
  case start
  show ?case by (simp add: alive_def alive_ok_def active_world_new_def total_def times_def in_order_def)
next
  case (step w w')
  from step(2) step(3) show ?case
    by cases (auto intro: alive_op alive_work alive_take)
qed


section \<open>Which code runs in the queue\<close>

fun in_queue_code :: "ucode \<Rightarrow> bool" where
  "in_queue_code Initialize = True"
| "in_queue_code Finalize = True"
| "in_queue_code (Callback c) = True"
| "in_queue_code (Other k) = True"
| "in_queue_code (Destructor f) = False"
| "in_queue_code (OnDestructed f) = False"

fun needs_queue :: "awork \<Rightarrow> bool" where
  "needs_queue (AUser u) = in_queue_code u"
| "needs_queue (ARun t) = True"
| "needs_queue _ = False"

text \<open>What needs the queue lies above the end of the context of a task.\<close>

fun placed :: "awork list \<Rightarrow> bool" where
  "placed [] = True"
| "placed (x # xs) = (placed xs \<and> (needs_queue x \<longrightarrow> ALeave \<in> set xs) \<and> (x = ALeave \<longrightarrow> ALeave \<notin> set xs))"

definition queue_ok :: "thread_id option \<Rightarrow> active_world \<Rightarrow> bool" where
  "queue_ok own w \<longleftrightarrow>
     (\<forall>tid. placed (works w tid) \<and> (ALeave \<in> set (works w tid) \<longleftrightarrow> runner w = Some tid))
   \<and> (\<forall>tid. own = Some tid \<longrightarrow> runner w = None \<or> runner w = Some tid)"

text \<open>A step stays in the context the thread is in, or enters one.\<close>

definition stays :: "thread_id \<Rightarrow> awork list \<Rightarrow> active_world \<Rightarrow> active_world \<Rightarrow> bool" where
  "stays tid new w w1 \<longleftrightarrow> runner w1 = runner w \<and> ALeave \<notin> set new \<and> (\<forall>x\<in>set new. needs_queue x \<longrightarrow> runner w = Some tid)"

definition enters :: "thread_id option \<Rightarrow> thread_id \<Rightarrow> awork list \<Rightarrow> active_world \<Rightarrow> active_world \<Rightarrow> bool" where
  "enters own tid new w w1 \<longleftrightarrow> own = Some tid \<and> runner w \<noteq> Some tid \<and> runner w1 = Some tid
     \<and> (\<exists>t rest. new = ARun t # ALeave # rest \<and> ALeave \<notin> set rest \<and> (\<forall>x\<in>set rest. \<not> needs_queue x))"

lemma placed_append:
  "placed xs \<Longrightarrow> ALeave \<notin> set new \<Longrightarrow> \<forall>x\<in>set new. needs_queue x \<longrightarrow> ALeave \<in> set xs \<Longrightarrow> placed (new @ xs)"
  by (induction new) auto

lemma placed_tl: "placed (ys @ xs) \<Longrightarrow> placed xs"
  by (induction ys) auto

lemma queue_stays:
  assumes "queue_ok own w" and "works w tid = ys @ xs" and "ALeave \<notin> set ys" and "works w1 = works w"
    and "stays tid new w w1"
  shows "queue_ok own (push tid new xs w1)"
proof -
  have p: "placed (ys @ xs)" "ALeave \<in> set xs \<longleftrightarrow> runner w = Some tid"
    using assms(1,2,3) by (auto simp: queue_ok_def dest: spec [of _ tid])
  have "placed (new @ xs)"
    using placed_append [OF placed_tl [OF p(1)], of new] assms(5) p(2) by (auto simp: stays_def)
  then show ?thesis using assms p(2) by (auto simp: queue_ok_def push_def stays_def)
qed

lemma queue_enters:
  assumes "queue_ok own w" and "works w tid = ys @ xs" and "works w1 = works w" and "enters own tid new w w1"
  shows "queue_ok own (push tid new xs w1)"
proof -
  obtain t rest where n: "new = ARun t # ALeave # rest" "ALeave \<notin> set rest" "\<forall>x\<in>set rest. \<not> needs_queue x"
    and r: "own = Some tid" "runner w \<noteq> Some tid" "runner w1 = Some tid"
    using assms(4) by (auto simp: enters_def)
  have p: "placed (ys @ xs)" "ALeave \<notin> set xs" "runner w = None"
    using assms(1,2) r by (auto simp: queue_ok_def dest: spec [of _ tid])
  have "placed (rest @ xs)" by (rule placed_append [OF placed_tl [OF p(1)]]) (use n in auto)
  then have "placed (new @ xs)" using n p(2) by auto
  then show ?thesis using assms(1,3) n r p by (auto simp: queue_ok_def push_def)
qed

lemma InvokeElsePost_queue:
  assumes "Queue_InvokeElsePost own tid t w = (new, w1)" and "ALeave \<notin> set rest" and "\<forall>x\<in>set rest. \<not> needs_queue x"
  shows "stays tid (new @ rest) w w1 \<or> enters own tid (new @ rest) w w1"
  using assms by (auto simp: Queue_InvokeElsePost_def stays_def enters_def split: if_splits)

lemma stays_core:
  assumes "runner w1 = runner w0"
  shows "stays tid new w0 w2 = stays tid new w1 w2" and "enters own tid new w0 w2 = enters own tid new w1 w2"
  using assms by (simp_all add: stays_def enters_def)

lemma op_queue:
  assumes "exec_op own tid op w = Returns (new, w1)"
  shows "stays tid new w w1 \<or> enters own tid new w w1"
proof (cases op)
  case (OpMake i f)
  let ?w = "w\<lparr>made := True, refCount := 1, m_hasInitialize := i, m_hasFinalize := f\<rparr>"
  show ?thesis
  proof (cases i)
    case True
    obtain new0 w2 where p: "Queue_InvokeElsePost own tid InitTask ?w = (new0, w2)" by fastforce
    then have "new = new0 @ [AMade]" "w1 = w2"
      using assms OpMake True by (simp_all add: ActiveObjectMakePolicy_Make_def Let_def)
    then show ?thesis using InvokeElsePost_queue [OF p, of "[AMade]"] stays_core [of w ?w] by simp
  next
    case False
    then show ?thesis using assms OpMake by (auto simp: ActiveObjectMakePolicy_Make_def Let_def stays_def)
  qed
next
  case (OpInvokeInQueue c)
  then show ?thesis
    using assms InvokeElsePost_queue [of own tid "WeakTask c" w new w1 "[]"]
    by (auto simp: InvokeInQueue_def with_object_def split: if_splits)
next
  case (OpInvokeInQueueStrong c)
  let ?w = "w\<lparr>refCount := refCount w + 1\<rparr>"
  have "stays tid new ?w w1 \<or> enters own tid new ?w w1"
    using assms OpInvokeInQueueStrong InvokeElsePost_queue [of own tid "StrongTask c" ?w new w1 "[]"]
    by (auto simp: InvokeInQueueStrong_def with_object_def split: if_splits)
  then show ?thesis using stays_core [of w ?w] by simp
qed (use assms in \<open>auto simp: stays_def with_object_def SetOnDestructedOnce_def ReleaseAndWait_def happens_def outcome_simps
      Queue_Post_def Queue_Shutdown_def split: if_splits\<close>)

lemma work_queue:
  assumes "exec_awork own tid x w = Returns (new, w1)" and "x \<noteq> ALeave" and "needs_queue x \<Longrightarrow> runner w = Some tid"
  shows "stays tid new w w1 \<or> enters own tid new w w1"
proof (cases x)
  case (AUser u)
  then show ?thesis
    using assms by (cases u) (auto simp: stays_def with_object_def active_Release_def after_destructor_def happens_def
        outcome_simps Let_def split: if_splits option.splits)
next
  case (ARun t)
  then show ?thesis
    using assms by (cases t) (auto simp: stays_def with_object_def IncrementRefCountIfNotZero_def happens_def Let_def
        split: if_splits)
next
  case (ACancel t)
  then show ?thesis using assms by (cases t) (auto simp: stays_def active_Release_def Let_def split: if_splits)
next
  case ADelete
  then show ?thesis
    using assms InvokeElsePost_queue [of own tid FinalizeTask w new w1 "[]"]
    by (auto simp: ActiveObjectDeleter_Delete_def with_object_def stays_def split: if_splits)
qed (use assms in \<open>auto simp: stays_def active_Release_def ActiveObjectBase_DestructObject_def with_object_def Let_def
      split: if_splits\<close>)

lemma queue_reachable: "active_reachable own n w \<Longrightarrow> queue_ok own w"
proof (induction rule: active_reachable.induct)
  case start
  show ?case by (simp add: queue_ok_def active_world_new_def)
next
  case (step w w')
  from step(2) show ?case
  proof cases
    case (call tid op new w1)
    have "works w tid = [] @ works w tid" by simp
    then show ?thesis
      using op_queue [OF call(6)] queue_stays [OF step(3) _ _ exec_op_works [OF call(6)]]
        queue_enters [OF step(3) _ exec_op_works [OF call(6)]] call(1) by (metis empty_iff list.set(1))
  next
    case (work tid x xs new w1)
    have f: "works w1 = works w" by (rule exec_awork_works [OF work(6)])
    have ys: "works w tid = [x] @ xs" using work(4) by simp
    have p: "placed (x # xs)" "ALeave \<in> set (x # xs) \<longleftrightarrow> runner w = Some tid"
      using step(3) work(4) by (auto simp: queue_ok_def dest: spec [of _ tid])
    show ?thesis
    proof (cases "x = ALeave")
      case True
      then have "new = []" "w1 = w\<lparr>runner := None\<rparr>" using work(6) by simp_all
      then show ?thesis using True p step(3) work(1,4) by (auto simp: queue_ok_def push_def)
    next
      case False
      have "needs_queue x \<Longrightarrow> runner w = Some tid" using p by auto
      then have "stays tid new w w1 \<or> enters own tid new w w1" by (rule work_queue [OF work(6) False])
      then show ?thesis
        using queue_stays [OF step(3) ys _ f] queue_enters [OF step(3) ys f] False work(1) by auto
    qed
  next
    case (take tid t ts)
    then show ?thesis using step(3) by (auto simp: queue_ok_def push_def)
  qed
qed


section \<open>The callback for the end\<close>

definition callbacks_due :: "nat \<Rightarrow> active_world \<Rightarrow> nat" where
  "callbacks_due f w = of_bool (m_onDestructed w = Some f) + times (EOnDestructed f) w"

lemma queued_callbacks [simp]: "queued (to_call_destructed f) w = 0"
  by (simp add: queued_def)

lemma callbacks_core:
  "core w1 = core w \<Longrightarrow> times e w1 = times e w \<and> callbacks_due f w1 = callbacks_due f w"
  unfolding callbacks_due_def times_def by (simp only: core_fields [of w1 w])

lemma InvokeElsePost_callbacks:
  assumes "Queue_InvokeElsePost own tid t w = (new, w1)"
  shows "sum_list (map (to_call_destructed f) new) = 0"
  using InvokeElsePost_effect(3) [OF assms counts_tasks(5) [of f]] by simp

lemma op_callbacks:
  assumes "exec_op own tid op w = Returns (new, w1)"
  shows "times (ESet f) w1 + callbacks_due f w
    = times (ESet f) w + callbacks_due f w1 + sum_list (map (to_call_destructed f) new)"
proof (cases op)
  case (OpMake i fi)
  let ?w = "w\<lparr>made := True, refCount := 1, m_hasInitialize := i, m_hasFinalize := fi\<rparr>"
  have same: "times (ESet f) ?w = times (ESet f) w \<and> callbacks_due f ?w = callbacks_due f w"
    by (simp add: times_def callbacks_due_def)
  show ?thesis
  proof (cases i)
    case True
    obtain new0 w2 where p: "Queue_InvokeElsePost own tid InitTask ?w = (new0, w2)" by fastforce
    then have "new = new0 @ [AMade]" "w1 = w2"
      using assms OpMake True by (simp_all add: ActiveObjectMakePolicy_Make_def Let_def)
    then show ?thesis
      using callbacks_core [OF InvokeElsePost_effect(1) [OF p]] InvokeElsePost_callbacks [OF p] same by simp
  next
    case False
    then show ?thesis using assms OpMake
      by (auto simp: ActiveObjectMakePolicy_Make_def Let_def times_def callbacks_due_def)
  qed
next
  case (OpInvokeInQueue c)
  then have p: "Queue_InvokeElsePost own tid (WeakTask c) w = (new, w1)"
    using assms by (simp add: InvokeInQueue_def with_object_def split: if_splits)
  then show ?thesis using callbacks_core [OF InvokeElsePost_effect(1) [OF p]] InvokeElsePost_callbacks [OF p] by simp
next
  case (OpInvokeInQueueStrong c)
  let ?w = "w\<lparr>refCount := refCount w + 1\<rparr>"
  have p: "Queue_InvokeElsePost own tid (StrongTask c) ?w = (new, w1)"
    using assms OpInvokeInQueueStrong by (simp add: InvokeInQueueStrong_def with_object_def split: if_splits)
  moreover have "times (ESet f) ?w = times (ESet f) w \<and> callbacks_due f ?w = callbacks_due f w"
    by (simp add: times_def callbacks_due_def)
  ultimately show ?thesis
    using callbacks_core [OF InvokeElsePost_effect(1) [OF p]] InvokeElsePost_callbacks [OF p] by simp
next
  case (OpShutdown a)
  then show ?thesis using assms by (auto simp: Queue_Shutdown_def times_def callbacks_due_def split: if_splits)
qed (use assms in \<open>auto simp: with_object_def SetOnDestructedOnce_def ReleaseAndWait_def happens_def outcome_simps
      Queue_Post_def times_def callbacks_due_def split: if_splits\<close>)

lemma work_callbacks:
  assumes "exec_awork own tid x w = Returns (new, w1)"
  shows "times (ESet f) w1 + callbacks_due f w + to_call_destructed f x
    = times (ESet f) w + callbacks_due f w1 + sum_list (map (to_call_destructed f) new)"
proof (cases x)
  case (AUser u)
  then show ?thesis
    using assms by (cases u) (auto simp: with_object_def active_Release_def after_destructor_def happens_def
        ActiveObjectBase_dtor_def outcome_simps Let_def times_def callbacks_due_def split: if_splits option.splits)
next
  case (ARun t)
  then show ?thesis
    using assms by (cases t) (auto simp: with_object_def IncrementRefCountIfNotZero_def happens_def Let_def
        times_def callbacks_due_def split: if_splits)
next
  case (ACancel t)
  then show ?thesis using assms by (cases t) (auto simp: active_Release_def Let_def times_def callbacks_due_def split: if_splits)
next
  case ADelete
  then consider "Queue_InvokeElsePost own tid FinalizeTask w = (new, w1)" | "new = [ADestruct]" "w1 = w"
    using assms by (auto simp: ActiveObjectDeleter_Delete_def with_object_def split: if_splits)
  then show ?thesis
  proof cases
    case 1
    then show ?thesis
      using ADelete callbacks_core [OF InvokeElsePost_effect(1) [OF 1]] InvokeElsePost_callbacks [OF 1] by simp
  qed (simp add: ADelete)
next
  case ADestruct
  then show ?thesis
    using assms by (cases "m_onDestructed w")
      (auto simp: ActiveObjectBase_DestructObject_def with_object_def times_def callbacks_due_def split: if_splits)
qed (use assms in \<open>auto simp: active_Release_def with_object_def Let_def times_def callbacks_due_def split: if_splits\<close>)

lemma callbacks_reachable:
  "active_reachable own n w \<Longrightarrow> times (ESet f) w = callbacks_due f w + total (to_call_destructed f) n w"
proof (induction rule: active_reachable.induct)
  case start
  show ?case by (simp add: active_world_new_def total_def times_def callbacks_due_def)
next
  case (step w w')
  have push: "times e (push tid new xs w1) = times e w1" "callbacks_due f (push tid new xs w1) = callbacks_due f w1"
    for e tid new xs w1 by (simp_all add: push_def times_def callbacks_due_def)
  from step(2) show ?case
  proof cases
    case (call tid op new w1)
    then show ?thesis
      using total_push [OF call(2) refl exec_op_works [OF call(6)], of "to_call_destructed f" new "works w tid"]
        op_callbacks [OF call(6), of f] step(3) push by simp
  next
    case (work tid x xs new w1)
    then show ?thesis
      using total_push [OF work(2,4) exec_awork_works [OF work(6)], of "to_call_destructed f" new xs]
        work_callbacks [OF work(6), of f] step(3) push by simp
  next
    case (take tid t ts)
    then show ?thesis
      using total_push [OF take(2,3), of "w\<lparr>runner := Some tid, tasks := ts\<rparr>" "to_call_destructed f" "[ARun t, ALeave]" "[]"]
        step(3) push by (simp add: times_def callbacks_due_def)
  qed
qed


section \<open>Initialize before Finalize\<close>

fun promised :: "active_world \<Rightarrow> awork \<Rightarrow> bool" where
  "promised w (AUser Initialize) = (EInitialize \<in> set (history w))"
| "promised w (ARun FinalizeTask) = (m_isInitialized w \<and> m_hasFinalize w)"
| "promised w (ARun InitTask) = m_hasInitialize w"
| "promised w x = True"

definition flags_ok :: "nat \<Rightarrow> active_world \<Rightarrow> bool" where
  "flags_ok n w \<longleftrightarrow>
     (\<forall>tid<n. \<forall>x\<in>set (works w tid). promised w x) \<and> (\<forall>t\<in>set (tasks w). promised w (ARun t))
   \<and> (m_isInitialized w \<and> m_hasInitialize w \<longrightarrow> EInitialize \<in> set (history w))
   \<and> (EFinalize \<in> set (history w) \<longrightarrow> m_isInitialized w \<and> m_hasFinalize w)
   \<and> (EInitialize \<in> set (history w) \<longrightarrow> m_hasInitialize w)"

definition grows :: "active_world \<Rightarrow> active_world \<Rightarrow> bool" where
  "grows w w1 \<longleftrightarrow> set (history w) \<subseteq> set (history w1) \<and> (m_isInitialized w \<longrightarrow> m_isInitialized w1)
     \<and> m_hasInitialize w1 = m_hasInitialize w \<and> m_hasFinalize w1 = m_hasFinalize w"

lemma grows_promised: "grows w w1 \<Longrightarrow> promised w x \<Longrightarrow> promised w1 x"
  by (cases "(w, x)" rule: promised.cases) (auto simp: grows_def)

text \<open>What a step adds is promised, and the flags go on telling the truth.\<close>

definition adds :: "awork list \<Rightarrow> active_world \<Rightarrow> active_world \<Rightarrow> bool" where
  "adds new w w1 \<longleftrightarrow> grows w w1 \<and> (\<forall>x\<in>set new. promised w1 x)
     \<and> (\<forall>t\<in>set (tasks w1). t \<in> set (tasks w) \<or> promised w1 (ARun t))
     \<and> (m_isInitialized w1 \<and> m_hasInitialize w1 \<longrightarrow> EInitialize \<in> set (history w1))
     \<and> (EFinalize \<in> set (history w1) \<longrightarrow> m_isInitialized w1 \<and> m_hasFinalize w1)
     \<and> (EInitialize \<in> set (history w1) \<longrightarrow> m_hasInitialize w1)"

lemma flags_push:
  assumes "flags_ok n w" and "works w tid = ys @ xs" and "tid < n" and "works w1 = works w" and "adds new w w1"
  shows "flags_ok n (push tid new xs w1)"
proof -
  have g: "grows w w1" using assms(5) by (simp add: adds_def)
  have p: "promised (push tid new xs w1) = promised w1"
    using grows_promised [of w1 "push tid new xs w1"] grows_promised [of "push tid new xs w1" w1]
    by (auto simp: grows_def push_def)
  have "\<forall>x\<in>set xs. promised w1 x"
    using assms(1,2,3) grows_promised [OF g] by (force simp: flags_ok_def)
  moreover have "\<forall>u<n. \<forall>x\<in>set (works w u). promised w1 x" "\<forall>t\<in>set (tasks w1). promised w1 (ARun t)"
    using assms(1,5) grows_promised [OF g] by (auto simp: flags_ok_def adds_def)
  ultimately show ?thesis
    unfolding flags_ok_def p using assms(4,5) by (auto simp: push_def adds_def)
qed

lemma InvokeElsePost_adds:
  assumes "Queue_InvokeElsePost own tid t w = (new, w1)" and "flags_ok n w" and "promised w (ARun t)"
  shows "adds new w w1"
proof -
  have "promised w1 (ARun t)" if "core w1 = core w"
    using assms(3) that by (cases t) (simp_all add: core_fields [of w1 w])
  then show ?thesis
    using assms by (auto simp: Queue_InvokeElsePost_def adds_def grows_def flags_ok_def split: if_splits)
qed

lemma addsI:
  assumes "flags_ok n w" and "m_hasInitialize w1 = m_hasInitialize w" and "m_hasFinalize w1 = m_hasFinalize w"
    and "set (tasks w1) \<subseteq> set (tasks w)" and "\<forall>x\<in>set new. promised w1 x" and "set (history w) \<subseteq> set (history w1)"
    and "m_isInitialized w \<Longrightarrow> m_isInitialized w1"
    and "m_isInitialized w1 \<Longrightarrow> m_isInitialized w \<or> EInitialize \<in> set (history w)"
    and "EInitialize \<in> set (history w1) \<Longrightarrow> EInitialize \<in> set (history w) \<or> m_hasInitialize w"
    and "EFinalize \<in> set (history w1) \<Longrightarrow> EFinalize \<in> set (history w) \<or> m_isInitialized w \<and> m_hasFinalize w"
  shows "adds new w w1"
  using assms unfolding adds_def grows_def flags_ok_def by blast

lemma work_adds:
  assumes "exec_awork own tid x w = Returns (new, w1)" and "flags_ok n w" and "promised w x"
  shows "adds new w w1"
proof (cases x)
  case (AUser u)
  show ?thesis
    by (rule addsI [OF assms(2)]; use AUser assms(1,3) in \<open>cases u; auto simp: with_object_def active_Release_def
        after_destructor_def happens_def outcome_simps Let_def split: if_splits option.splits\<close>)
next
  case (ARun t)
  show ?thesis
    by (rule addsI [OF assms(2)]; use ARun assms(1,3) in \<open>cases t; auto simp: with_object_def
        IncrementRefCountIfNotZero_def happens_def Let_def split: if_splits\<close>)
next
  case (ACancel t)
  show ?thesis
    by (rule addsI [OF assms(2)]; use ACancel assms(1) in \<open>cases t; auto simp: active_Release_def Let_def split: if_splits\<close>)
next
  case ADelete
  then consider "Queue_InvokeElsePost own tid FinalizeTask w = (new, w1)" "m_isInitialized w" "m_hasFinalize w"
    | "new = [ADestruct]" "w1 = w"
    using assms by (auto simp: ActiveObjectDeleter_Delete_def with_object_def split: if_splits)
  then show ?thesis
  proof cases
    case 1
    then show ?thesis using InvokeElsePost_adds [OF 1(1) assms(2)] by simp
  next
    case 2
    then show ?thesis by (intro addsI [OF assms(2)]) simp_all
  qed
qed (rule addsI [OF assms(2)]; use assms(1) in \<open>auto simp: active_Release_def ActiveObjectBase_DestructObject_def
      with_object_def Let_def split: if_splits\<close>)+

lemma flags_same_object:
  assumes "flags_ok n w" and "works w0 = works w" and "tasks w0 = tasks w" and "grows w w0" and "history w0 = history w"
    and "m_isInitialized w0 = m_isInitialized w"
  shows "flags_ok n w0"
  using assms grows_promised [OF assms(4)] by (auto simp: flags_ok_def grows_def)

lemma client_of_queue_adds:
  assumes "exec_op own tid op w = Returns (new, w1)" and "flags_ok n w"
  shows "op = OpPost k \<Longrightarrow> adds new w w1" and "op = OpShutdown a \<Longrightarrow> adds new w w1"
proof -
  assume "op = OpPost k"
  with assms show "adds new w w1" by (auto simp: adds_def grows_def flags_ok_def Queue_Post_def split: if_splits)
next
  assume "op = OpShutdown a"
  then show "adds new w w1"
    by (intro addsI [OF assms(2)]; use assms(1) in \<open>auto simp: Queue_Shutdown_def split: if_splits\<close>)
qed

lemma op_adds:
  assumes "exec_op own tid op w = Returns (new, w1)" and "flags_ok n w" and "made w"
    and "may_call op (works w tid) w"
  shows "adds new w w1"
proof (cases op)
  case (OpMake i f)
  then show ?thesis using assms(3,4) by simp
next
  case (OpInvokeInQueue c)
  then have p: "Queue_InvokeElsePost own tid (WeakTask c) w = (new, w1)"
    using assms by (simp add: InvokeInQueue_def with_object_def split: if_splits)
  then show ?thesis using InvokeElsePost_adds [OF p assms(2)] by simp
next
  case (OpInvokeInQueueStrong c)
  let ?w = "w\<lparr>refCount := refCount w + 1\<rparr>"
  have p: "Queue_InvokeElsePost own tid (StrongTask c) ?w = (new, w1)"
    using assms OpInvokeInQueueStrong by (simp add: InvokeInQueueStrong_def with_object_def split: if_splits)
  have "flags_ok n ?w" by (rule flags_same_object [OF assms(2)]) (simp_all add: grows_def)
  then have "adds new ?w w1" using InvokeElsePost_adds [OF p] by simp
  then show ?thesis by (auto simp: adds_def grows_def)
next
  case (OpShutdown a)
  then show ?thesis using client_of_queue_adds(2) [OF assms(1,2)] by simp
next
  case (OpPost k)
  then show ?thesis using client_of_queue_adds(1) [OF assms(1,2)] by simp
qed (rule addsI [OF assms(2)]; use assms(1) in \<open>auto simp: with_object_def SetOnDestructedOnce_def ReleaseAndWait_def
      happens_def outcome_simps split: if_splits\<close>)+


lemma nothing_before_Make:
  assumes "alive n w" and "\<not> made w"
  shows "tid < n \<Longrightarrow> x \<in> set (works w tid) \<Longrightarrow> promised v x" and "t \<in> set (tasks w) \<Longrightarrow> promised v (ARun t)"
proof -
  have a: "alive_ok w (total work_refs n w) (total ends n w) (total to_finalize n w) (total to_initialize n w)"
    using assms(1) by (simp add: alive_def)
  then have z: "total work_refs n w = 0" "total to_finalize n w = 0" "total to_initialize n w = 0"
    using assms(2) by (auto simp: alive_ok_def)
  show "promised v x" if "tid < n" "x \<in> set (works w tid)"
    using total_pos [OF that, of work_refs] total_pos [OF that, of to_finalize] total_pos [OF that, of to_initialize] z
    by (cases "(v, x)" rule: promised.cases) auto
  show "promised v (ARun t)" if "t \<in> set (tasks w)"
  proof -
    have "f (ARun t) \<le> total f n w" for f
    proof -
      have "f (ARun t) \<in> set (map (\<lambda>t. f (ARun t)) (tasks w))" using that by simp
      from member_le_sum_list [OF this] show ?thesis by (simp add: total_def)
    qed
    from this [of to_finalize] this [of to_initialize] z show ?thesis by (cases t) auto
  qed
qed

lemma Make_flags:
  assumes "exec_op own tid (OpMake i f) w = Returns (new, w1)" and "alive n w" and "\<not> made w" and "tid < n"
  shows "flags_ok n (push tid new (works w tid) w1)"
proof -
  let ?w = "w\<lparr>made := True, refCount := 1, m_hasInitialize := i, m_hasFinalize := f\<rparr>"
  have h: "history w = []" "\<not> m_isInitialized w" using assms(2,3) by (simp_all add: alive_def alive_ok_def)
  note p = nothing_before_Make [OF assms(2,3)]
  have w: "flags_ok n ?w" using p h by (auto simp: flags_ok_def)
  show ?thesis
  proof (cases i)
    case True
    obtain new0 w2 where q: "Queue_InvokeElsePost own tid InitTask ?w = (new0, w2)" by fastforce
    then have n: "new = new0 @ [AMade]" "w1 = w2"
      using assms(1) True by (simp_all add: ActiveObjectMakePolicy_Make_def Let_def)
    have "adds new0 ?w w2" by (rule InvokeElsePost_adds [OF q w]) (simp add: True)
    then have "adds new ?w w1" by (simp add: n adds_def)
    then show ?thesis using flags_push [OF w, of tid "[]" "works w tid" w1 new] exec_op_works [OF assms(1)] assms(4) by simp
  next
    case False
    then have n: "new = [AMade]" "w1 = ?w\<lparr>m_isInitialized := True\<rparr>"
      using assms(1) by (auto simp: ActiveObjectMakePolicy_Make_def Let_def)
    then have "adds new ?w w1" using w False h by (auto simp: adds_def grows_def flags_ok_def)
    then show ?thesis using flags_push [OF w, of tid "[]" "works w tid" w1 new] exec_op_works [OF assms(1)] assms(4) by simp
  qed
qed

lemma made_before:
  assumes "exec_op own tid op w = Returns (new, w1)" and "alive n w" and "\<not> made w" and "may_call op (works w tid) w"
  shows "(\<exists>i f. op = OpMake i f) \<or> (\<exists>k. op = OpPost k) \<or> (\<exists>a. op = OpShutdown a)"
  using assms(1,3) by (cases op) (simp_all add: with_object_def InvokeInQueue_def InvokeInQueueStrong_def
      SetOnDestructedOnce_def ReleaseAndWait_def)

lemma flags_reachable: "active_reachable own n w \<Longrightarrow> flags_ok n w"
proof (induction rule: active_reachable.induct)
  case start
  show ?case by (simp add: active_world_new_def flags_ok_def)
next
  case (step w w')
  note al = alive_reachable [OF step(1)]
  from step(2) show ?case
  proof cases
    case (call tid op new w1)
    have ys: "works w tid = [] @ works w tid" by simp
    show ?thesis
    proof (cases "\<exists>i f. op = OpMake i f")
      case True
      then show ?thesis using Make_flags [OF _ al _ call(2)] call by auto
    next
      case False
      have "adds new w w1"
      proof (cases "made w")
        case True
        then show ?thesis by (rule op_adds [OF call(6) step(3) _ call(5)])
      next
        case m: False
        then obtain k a where "op = OpPost k \<or> op = OpShutdown a"
          using made_before [OF call(6) al m call(5)] False by blast
        then show ?thesis using client_of_queue_adds [OF call(6) step(3)] by blast
      qed
      then show ?thesis using flags_push [OF step(3) ys call(2) exec_op_works [OF call(6)]] call(1) by simp
    qed
  next
    case (work tid x xs new w1)
    have "promised w x" using step(3) work(2,4) by (simp add: flags_ok_def)
    then show ?thesis
      using flags_push [OF step(3) _ work(2) exec_awork_works [OF work(6)] work_adds [OF work(6) step(3)], of "[x]" xs] work(1,4)
      by simp
  next
    case (take tid t ts)
    have "flags_ok n w" by (rule step(3))
    then have "adds [ARun t, ALeave] w (w\<lparr>runner := Some tid, tasks := ts\<rparr>)"
      using take(6) by (cases t) (auto simp: adds_def grows_def flags_ok_def)
    then show ?thesis
      using flags_push [OF step(3), of tid "[]" "[]" "w\<lparr>runner := Some tid, tasks := ts\<rparr>" "[ARun t, ALeave]"] take by simp
  qed
qed


section \<open>The object is there\<close>

lemma counted_object: "alive_ok w r e fin ini \<Longrightarrow> refCount w \<noteq> 0 \<Longrightarrow> made w \<and> \<not> destructed w"
  by (auto simp: alive_ok_def)

lemma wanted_object:
  assumes "alive n w" and "tid < n" and "x \<in> set (works w tid)" and "0 < work_refs x \<or> 0 < ends x \<or> 0 < to_finalize x"
  shows "made w \<and> \<not> destructed w"
proof -
  have a: "alive_ok w (total work_refs n w) (total ends n w) (total to_finalize n w) (total to_initialize n w)"
    using assms(1) by (simp add: alive_def)
  have "0 < total work_refs n w \<or> 0 < total ends n w \<or> 0 < total to_finalize n w"
    using assms(4) total_pos [OF assms(2,3), of work_refs] total_pos [OF assms(2,3), of ends]
      total_pos [OF assms(2,3), of to_finalize] by auto
  then show ?thesis using a by (auto simp: alive_ok_def split: if_splits)
qed

lemma being_destroyed_ends: "being_destroyed xs \<Longrightarrow> \<exists>x\<in>set xs. 0 < ends x"
  by (cases xs rule: being_destroyed.cases) auto

lemma caller_has_object:
  assumes "alive n w" and "tid < n" and "refCount w \<noteq> 0 \<or> being_destroyed (works w tid) \<or> 0 < clients w"
  shows "made w \<and> \<not> destructed w"
proof (cases "being_destroyed (works w tid)")
  case True
  then show ?thesis using being_destroyed_ends wanted_object [OF assms(1,2)] by blast
next
  case False
  have a: "alive_ok w (total work_refs n w) (total ends n w) (total to_finalize n w) (total to_initialize n w)"
    using assms(1) by (simp add: alive_def)
  then have "unat (refCount w) = clients w + total work_refs n w" by (simp only: alive_ok_def)
  then have "refCount w \<noteq> 0" using assms(3) False by (cases "refCount w = 0") simp_all
  then show ?thesis using counted_object [OF a] by blast
qed

definition set_twice :: crash_reason where
  "set_twice = VerifyElseCrash ''The OnDestructed can be assigned only once.''"

definition set_too_late :: crash_reason where
  "set_too_late = VerifyElseCrash ''The OnDestructed must be removed in the type Deleter.''"

lemma op_crash:
  assumes "alive n w" and "tid < n" and "may_call op (works w tid) w" and "exec_op own tid op w = Crashes c"
  shows "c = set_twice \<and> m_onDestructed w \<noteq> None"
proof -
  have "made w \<and> \<not> destructed w" if "op \<notin> range OpPost" "op \<notin> range OpShutdown" "\<forall>i f. op \<noteq> OpMake i f"
    using caller_has_object [OF assms(1,2)] assms(3) that by (cases op) auto
  then show ?thesis
    using assms(4) by (cases op) (auto simp: with_object_def InvokeInQueue_def InvokeInQueueStrong_def
        SetOnDestructedOnce_def ReleaseAndWait_def set_twice_def verify_else_crash_def outcome_simps split: if_splits)
qed

lemma work_crash:
  assumes "alive n w" and "tid < n" and "works w tid = x # xs" and "exec_awork own tid x w = Crashes c"
  shows "c = set_too_late \<and> m_onDestructed w \<noteq> None"
proof -
  have x: "x \<in> set (works w tid)" using assms(3) by simp
  note o = wanted_object [OF assms(1,2) x]
  have a: "alive_ok w (total work_refs n w) (total ends n w) (total to_finalize n w) (total to_initialize n w)"
    using assms(1) by (simp add: alive_def)
  show ?thesis
  proof (cases x)
    case (AUser u)
    then show ?thesis
      using assms(4) o by (cases u) (auto simp: with_object_def after_destructor_def ActiveObjectBase_dtor_def
          set_too_late_def verify_else_crash_def outcome_simps Let_def split: if_splits option.splits)
  next
    case (ARun t)
    show ?thesis
    proof (cases t)
      case InitTask
      then show ?thesis
        using assms(4) ARun counted_object [OF a]
        by (auto simp: with_object_def IncrementRefCountIfNotZero_def Let_def split: if_splits)
    qed (use assms(4) ARun o in \<open>auto simp: with_object_def IncrementRefCountIfNotZero_def Let_def split: if_splits\<close>)
  qed (use assms(4) o in \<open>auto simp: with_object_def ActiveObjectDeleter_Delete_def ActiveObjectBase_DestructObject_def
        split: if_splits\<close>)
qed

section \<open>Waiting for the end\<close>

definition waits_ok :: "active_world \<Rightarrow> bool" where
  "waits_ok w \<longleftrightarrow> (\<forall>tid f. AWait f \<in> set (works w tid) \<longrightarrow> ESet f \<in> set (history w))"

lemma InvokeElsePost_waits:
  "Queue_InvokeElsePost own tid t w = (new, w1) \<Longrightarrow> AWait f \<notin> set new"
  by (auto simp: Queue_InvokeElsePost_def split: if_splits)

lemma op_waits: "exec_op own tid op w = Returns (new, w1) \<Longrightarrow> AWait f \<in> set new \<Longrightarrow> ESet f \<in> set (history w1)"
  by (cases op) (auto simp: ActiveObjectMakePolicy_Make_def InvokeInQueue_def InvokeInQueueStrong_def SetOnDestructedOnce_def
      ReleaseAndWait_def Queue_Post_def Queue_Shutdown_def with_object_def happens_def outcome_simps Let_def
      dest: InvokeElsePost_waits split: if_splits prod.splits)

lemma work_waits:
  assumes "exec_awork own tid x w = Returns (new, w1)"
  shows "AWait f \<notin> set new"
proof (cases x)
  case (AUser u)
  then show ?thesis using assms by (cases u) (auto simp: with_object_def active_Release_def after_destructor_def
        outcome_simps Let_def split: if_splits option.splits)
next
  case (ARun t)
  then show ?thesis using assms by (cases t) (auto simp: with_object_def IncrementRefCountIfNotZero_def Let_def split: if_splits)
next
  case (ACancel t)
  then show ?thesis using assms by (cases t) (auto simp: active_Release_def Let_def split: if_splits)
qed (use assms in \<open>auto simp: active_Release_def ActiveObjectDeleter_Delete_def ActiveObjectBase_DestructObject_def
      with_object_def Let_def dest: InvokeElsePost_waits split: if_splits\<close>)

lemma history_grows:
  shows "exec_op own tid op w = Returns (new, w1) \<Longrightarrow> set (history w) \<subseteq> set (history w1)"
    and "exec_awork own tid x w = Returns (new, w1) \<Longrightarrow> set (history w) \<subseteq> set (history w1)"
proof -
  have same: "Queue_InvokeElsePost own tid t v = (l, v1) \<Longrightarrow> history v1 = history v" for t v l v1
    using InvokeElsePost_effect(1) core_fields(9) by metis
  show "exec_op own tid op w = Returns (new, w1) \<Longrightarrow> set (history w) \<subseteq> set (history w1)"
    by (cases op) (auto simp: ActiveObjectMakePolicy_Make_def InvokeInQueue_def InvokeInQueueStrong_def
        SetOnDestructedOnce_def ReleaseAndWait_def Queue_Post_def Queue_Shutdown_def with_object_def happens_def
        outcome_simps Let_def dest!: same split: if_splits prod.splits)
  assume e: "exec_awork own tid x w = Returns (new, w1)"
  show "set (history w) \<subseteq> set (history w1)"
  proof (cases x)
    case (AUser u)
    then show ?thesis using e by (cases u) (auto simp: with_object_def active_Release_def after_destructor_def
          happens_def outcome_simps Let_def split: if_splits option.splits)
  next
    case (ARun t)
    then show ?thesis using e by (cases t) (auto simp: with_object_def IncrementRefCountIfNotZero_def happens_def
          Let_def split: if_splits)
  next
    case (ACancel t)
    then show ?thesis using e by (cases t) (auto simp: active_Release_def Let_def split: if_splits)
  qed (use e in \<open>auto simp: active_Release_def ActiveObjectDeleter_Delete_def ActiveObjectBase_DestructObject_def
      with_object_def Let_def dest!: same split: if_splits\<close>)
qed

lemma waits_reachable: "active_reachable own n w \<Longrightarrow> waits_ok w"
proof (induction rule: active_reachable.induct)
  case start
  show ?case by (simp add: waits_ok_def active_world_new_def)
next
  case (step w w')
  from step(2) show ?case
  proof cases
    case (call tid op new w1)
    then show ?thesis
      using step(3) op_waits [OF call(6)] history_grows(1) [OF call(6)] exec_op_works [OF call(6)]
      by (auto simp: waits_ok_def push_def split: if_splits)
  next
    case (work tid x xs new w1)
    have "AWait f \<in> set xs \<Longrightarrow> ESet f \<in> set (history w)" for f
      using step(3) work(4) by (auto simp: waits_ok_def dest: spec [of _ tid])
    then show ?thesis
      using step(3) work(1) work_waits [OF work(6)] history_grows(2) [OF work(6)] exec_awork_works [OF work(6)]
      by (auto simp: waits_ok_def push_def split: if_splits)
  next
    case (take tid t ts)
    then show ?thesis using step(3) by (auto simp: waits_ok_def push_def)
  qed
qed


section \<open>Finalize before the end\<close>

definition final :: "active_world \<Rightarrow> bool" where
  "final w \<longleftrightarrow> (m_isInitialized w \<and> m_hasFinalize w \<longrightarrow> EFinalize \<in> set (history w) \<or> shutdownAction w \<noteq> None)"

fun settled :: "active_world \<Rightarrow> awork \<Rightarrow> bool" where
  "settled w (ACancel t) = (shutdownAction w \<noteq> None)"
| "settled w (AUser Finalize) = (EFinalize \<in> set (history w))"
| "settled w ADestruct = final w"
| "settled w (AUser (Destructor f)) = final w"
| "settled w x = True"

definition settled_ok :: "nat \<Rightarrow> active_world \<Rightarrow> bool" where
  "settled_ok n w \<longleftrightarrow> (\<forall>tid<n. \<forall>x\<in>set (works w tid). settled w x) \<and> (destructed w \<longrightarrow> final w)"

text \<open>
  A step forgets nothing. It changes the flags only when the object is not coming to its end.
\<close>

definition later :: "active_world \<Rightarrow> active_world \<Rightarrow> bool" where
  "later w w1 \<longleftrightarrow> set (history w) \<subseteq> set (history w1) \<and> (shutdownAction w \<noteq> None \<longrightarrow> shutdownAction w1 \<noteq> None)"

definition same_flags :: "active_world \<Rightarrow> active_world \<Rightarrow> bool" where
  "same_flags w w1 \<longleftrightarrow> m_isInitialized w1 = m_isInitialized w \<and> m_hasFinalize w1 = m_hasFinalize w"

lemma later_final: "later w w1 \<Longrightarrow> same_flags w w1 \<Longrightarrow> final w \<Longrightarrow> final w1"
  unfolding later_def same_flags_def final_def by auto

lemma later_settled:
  assumes "later w w1" and "settled w x" and "same_flags w w1 \<or> ends x = 0"
  shows "settled w1 x"
  using assms(1-3) later_final [OF assms(1)]
  by (cases "(w, x)" rule: settled.cases) (auto simp: later_def)

lemma settled_push:
  assumes "settled_ok n w" and "works w tid = ys @ xs" and "tid < n" and "works w1 = works w" and "later w w1"
    and "same_flags w w1 \<or> (\<forall>u<n. \<forall>x\<in>set (works w u). ends x = 0)"
    and "\<forall>x\<in>set new. settled w1 x" and "destructed w1 \<longrightarrow> final w1"
  shows "settled_ok n (push tid new xs w1)"
proof -
  have f: "final (push tid new xs w1) = final w1" by (simp add: final_def push_def)
  then have s: "settled (push tid new xs w1) x = settled w1 x" for x
    by (cases "(w1, x)" rule: settled.cases) (simp_all, simp_all add: push_def)
  have old: "\<forall>u<n. \<forall>x\<in>set (works w u). settled w1 x"
    using assms(1,6) later_settled [OF assms(5)] by (auto simp: settled_ok_def)
  then have "\<forall>x\<in>set xs. settled w1 x" using assms(2,3) by force
  with old show ?thesis
    unfolding settled_ok_def f s using assms(4,7,8) by (auto simp: push_def)
qed

lemma InvokeElsePost_settled:
  assumes "Queue_InvokeElsePost own tid t w = (new, w1)"
  shows "later w w1" and "same_flags w w1" and "\<forall>x\<in>set new. settled w1 x" and "destructed w1 = destructed w"
  using assms by (auto simp: Queue_InvokeElsePost_def later_def same_flags_def split: if_splits)

lemma active_Release_settled:
  assumes "active_Release w = (new, w1)"
  shows "later w w1" and "same_flags w w1" and "\<forall>x\<in>set new. settled w1 x" and "destructed w1 = destructed w"
  using assms by (auto simp: active_Release_def later_def same_flags_def Let_def)

text \<open>The steps but those that set a flag.\<close>

lemma work_settled:
  assumes "exec_awork own tid x w = Returns (new, w1)" and "settled w x" and "x \<noteq> AUser Initialize"
    and "destructed w \<longrightarrow> final w"
  shows "later w w1 \<and> same_flags w w1 \<and> (\<forall>x\<in>set new. settled w1 x) \<and> (destructed w1 \<longrightarrow> final w1)"
proof (cases x)
  case (AUser u)
  show ?thesis
  proof (cases u)
    case (Callback c)
    then have "active_Release w = (new, w1)" using AUser assms(1) by simp
    from active_Release_settled [OF this] show ?thesis using later_final assms(4) by blast
  next
    case (Destructor f)
    then show ?thesis using AUser assms
      by (auto simp: after_destructor_def with_object_def outcome_simps Let_def happens_def later_def same_flags_def
          final_def split: if_splits option.splits)
  qed (use AUser assms in \<open>auto simp: later_def same_flags_def final_def\<close>)
next
  case (ARun t)
  then show ?thesis
    using assms by (cases t) (auto simp: with_object_def IncrementRefCountIfNotZero_def happens_def Let_def later_def
        same_flags_def final_def split: if_splits)
next
  case (ACancel t)
  show ?thesis
  proof (cases "\<exists>c. t = StrongTask c")
    case True
    then have "active_Release w = (new, w1)" using ACancel assms(1) by auto
    from active_Release_settled [OF this] show ?thesis using later_final assms(4) by blast
  next
    case False
    then show ?thesis using ACancel assms by (cases t) (auto simp: later_def same_flags_def final_def)
  qed
next
  case ARelease
  then have "active_Release w = (new, w1)" using assms(1) by simp
  from active_Release_settled [OF this] show ?thesis using later_final assms(4) by blast
next
  case ADelete
  then consider "Queue_InvokeElsePost own tid FinalizeTask w = (new, w1)"
    | "new = [ADestruct]" "w1 = w" "\<not> (m_isInitialized w \<and> m_hasFinalize w)"
    using assms by (auto simp: ActiveObjectDeleter_Delete_def with_object_def split: if_splits)
  then show ?thesis
  proof cases
    case 1
    from InvokeElsePost_settled [OF this] show ?thesis using later_final assms(4) by blast
  next
    case 2
    then show ?thesis by (auto simp: later_def same_flags_def final_def)
  qed
qed (use assms in \<open>auto simp: ActiveObjectBase_DestructObject_def with_object_def later_def same_flags_def final_def
      split: if_splits\<close>)

lemma op_settled:
  assumes "exec_op own tid op w = Returns (new, w1)" and "\<forall>i f. op \<noteq> OpMake i f" and "destructed w \<longrightarrow> final w"
  shows "later w w1 \<and> same_flags w w1 \<and> (\<forall>x\<in>set new. settled w1 x) \<and> (destructed w1 \<longrightarrow> final w1)"
proof (cases op)
  case (OpInvokeInQueue c)
  then have "Queue_InvokeElsePost own tid (WeakTask c) w = (new, w1)"
    using assms by (simp add: InvokeInQueue_def with_object_def split: if_splits)
  from InvokeElsePost_settled [OF this] show ?thesis using later_final assms(3) by blast
next
  case (OpInvokeInQueueStrong c)
  let ?w = "w\<lparr>refCount := refCount w + 1\<rparr>"
  have p: "Queue_InvokeElsePost own tid (StrongTask c) ?w = (new, w1)"
    using assms OpInvokeInQueueStrong by (simp add: InvokeInQueueStrong_def with_object_def split: if_splits)
  then have "later w w1" "same_flags w w1" "destructed w1 = destructed w"
    using InvokeElsePost_settled [OF p] by (simp_all add: later_def same_flags_def)
  then show ?thesis using InvokeElsePost_settled(3) [OF p] later_final assms(3) by blast
next
  case (OpMake i f)
  then show ?thesis using assms(2) by simp
qed (use assms in \<open>auto simp: with_object_def SetOnDestructedOnce_def ReleaseAndWait_def happens_def outcome_simps
      Queue_Post_def Queue_Shutdown_def later_def same_flags_def final_def split: if_splits\<close>)

lemma no_ends:
  assumes "alive n w" and "refCount w \<noteq> 0 \<or> \<not> made w" and "u < n" and "x \<in> set (works w u)"
  shows "ends x = 0" and "\<not> destructed w"
proof -
  have a: "alive_ok w (total work_refs n w) (total ends n w) (total to_finalize n w) (total to_initialize n w)"
    using assms(1) by (simp add: alive_def)
  then have "total ends n w = 0 \<and> \<not> destructed w" using assms(2) by (auto simp: alive_ok_def)
  then show "ends x = 0" "\<not> destructed w" using total_pos [OF assms(3,4), of ends] by simp_all
qed


lemma not_destructed: "alive n w \<Longrightarrow> refCount w \<noteq> 0 \<or> \<not> made w \<Longrightarrow> \<not> destructed w"
  by (auto simp: alive_def alive_ok_def)

lemma Make_settled:
  assumes "exec_op own tid (OpMake i f) w = Returns (new, w1)" and "\<not> destructed w"
  shows "later w w1 \<and> (\<forall>x\<in>set new. settled w1 x) \<and> (destructed w1 \<longrightarrow> final w1)"
proof -
  let ?w = "w\<lparr>made := True, refCount := 1, m_hasInitialize := i, m_hasFinalize := f\<rparr>"
  show ?thesis
  proof (cases i)
    case True
    obtain new0 w2 where p: "Queue_InvokeElsePost own tid InitTask ?w = (new0, w2)" by fastforce
    then have n: "new = new0 @ [AMade]" "w1 = w2"
      using assms(1) True by (simp_all add: ActiveObjectMakePolicy_Make_def Let_def)
    from InvokeElsePost_settled [OF p] show ?thesis using n assms(2) by (auto simp: later_def)
  next
    case False
    then show ?thesis using assms by (auto simp: ActiveObjectMakePolicy_Make_def Let_def later_def)
  qed
qed

lemma settled_reachable: "active_reachable own n w \<Longrightarrow> settled_ok n w"
proof (induction rule: active_reachable.induct)
  case start
  show ?case by (simp add: settled_ok_def active_world_new_def)
next
  case (step w w')
  note al = alive_reachable [OF step(1)]
  have d: "destructed w \<longrightarrow> final w" using step(3) by (simp add: settled_ok_def)
  from step(2) show ?case
  proof cases
    case (call tid op new w1)
    have ys: "works w tid = [] @ works w tid" by simp
    note push = settled_push [OF step(3) ys call(2) exec_op_works [OF call(6)]]
    show ?thesis
    proof (cases "\<exists>i f. op = OpMake i f")
      case True
      then have m: "\<not> made w" using call(5) by auto
      have s: "later w w1 \<and> (\<forall>x\<in>set new. settled w1 x) \<and> (destructed w1 \<longrightarrow> final w1)"
        using True Make_settled call(6) not_destructed [OF al] m by blast
      then show ?thesis using push no_ends(1) [OF al] m call(1) by simp
    next
      case False
      then show ?thesis using push op_settled [OF call(6) _ d] call(1) by auto
    qed
  next
    case (work tid x xs new w1)
    have ys: "works w tid = [x] @ xs" using work(4) by simp
    note push = settled_push [OF step(3) ys work(2) exec_awork_works [OF work(6)]]
    show ?thesis
    proof (cases "x = AUser Initialize")
      case True
      then have new: "new = [ARelease]" "w1 = w\<lparr>m_isInitialized := True\<rparr>"
        using work(6) by (simp_all add: with_object_def split: if_splits)
      have "alive_ok w (total work_refs n w) (total ends n w) (total to_finalize n w) (total to_initialize n w)"
        using al by (simp add: alive_def)
      then have "unat (refCount w) = clients w + total work_refs n w" by (simp only: alive_ok_def)
      moreover have "0 < total work_refs n w" using total_pos [OF work(2), of x w work_refs] work(4) True by simp
      ultimately have nz: "refCount w \<noteq> 0" by auto
      have "later w w1" "destructed w1 = destructed w" "\<forall>x\<in>set new. settled w1 x" using new by (simp_all add: later_def)
      then show ?thesis using push no_ends(1) [OF al] not_destructed [OF al] nz work(1) by simp
    next
      case False
      have "settled w x" using step(3) work(2,4) by (simp add: settled_ok_def)
      from work_settled [OF work(6) this False d] show ?thesis using push work(1) by simp
    qed
  next
    case (take tid t ts)
    then show ?thesis
      using settled_push [OF step(3), of tid "[]" "[]" "w\<lparr>runner := Some tid, tasks := ts\<rparr>" "[ARun t, ALeave]"] d
      by (auto simp: later_def same_flags_def final_def)
  qed
qed

end
