(* ===== verification/Active_Object_Guarantees.thy ===== *)
theory Active_Object_Guarantees
  imports Active_Object_Life
begin

text \<open>
  What active objects promise, on every state that threads, clients and the queue can reach; and the
  accessors that check the queue they run in.
\<close>

section \<open>Runs\<close>

datatype aact = Calls thread_id aop | Works thread_id | Takes thread_id

fun exec_act :: "thread_id option \<Rightarrow> nat \<Rightarrow> aact \<Rightarrow> active_world \<Rightarrow> active_world option" where
  "exec_act own n (Calls tid op) w =
     (if tid < n \<and> refCount w < 0xFFFFFFFF \<and> in_user_code (works w tid) \<and> may_call op (works w tid) w
      then (case exec_op own tid op w of Returns (new, w1) \<Rightarrow> Some (push tid new (works w tid) w1) | _ \<Rightarrow> None)
      else None)"
| "exec_act own n (Works tid) w =
     (if tid < n \<and> refCount w < 0xFFFFFFFF
      then (case works w tid of [] \<Rightarrow> None
            | x # xs \<Rightarrow> if goes_on x w
                then (case exec_awork own tid x w of Returns (new, w1) \<Rightarrow> Some (push tid new xs w1) | _ \<Rightarrow> None)
                else None)
      else None)"
| "exec_act own n (Takes tid) w =
     (if tid < n \<and> works w tid = [] \<and> (own = None \<or> own = Some tid) \<and> runner w = None
      then (case tasks w of [] \<Rightarrow> None
            | t # ts \<Rightarrow> Some (push tid [ARun t, ALeave] [] (w\<lparr>runner := Some tid, tasks := ts\<rparr>)))
      else None)"

fun exec_acts :: "thread_id option \<Rightarrow> nat \<Rightarrow> aact list \<Rightarrow> active_world \<Rightarrow> active_world option" where
  "exec_acts own n [] w = Some w"
| "exec_acts own n (a # as) w = (case exec_act own n a w of None \<Rightarrow> None | Some w1 \<Rightarrow> exec_acts own n as w1)"

lemma below_top: "refCount w < 0xFFFFFFFF \<Longrightarrow> unat (refCount w) < 2 ^ 32 - 1"
  by (simp add: word_less_nat_alt)

lemma exec_act_step: "exec_act own n a w = Some w1 \<Longrightarrow> active_step own n w w1"
proof (cases a)
  case (Calls tid op)
  assume "exec_act own n a w = Some w1"
  then show ?thesis using Calls
    by (auto split: if_splits outcome.splits prod.splits dest: below_top intro: active_step.call)
next
  case (Works tid)
  assume "exec_act own n a w = Some w1"
  then show ?thesis using Works
    by (auto split: if_splits outcome.splits prod.splits list.splits dest: below_top intro: active_step.work)
next
  case (Takes tid)
  assume "exec_act own n a w = Some w1"
  then show ?thesis using Takes by (auto split: if_splits list.splits intro: active_step.take)
qed

lemma exec_acts_reachable:
  "active_reachable own n w \<Longrightarrow> exec_acts own n as w = Some w1 \<Longrightarrow> active_reachable own n w1"
proof (induction as arbitrary: w)
  case (Cons a as)
  then obtain w2 where "exec_act own n a w = Some w2" "exec_acts own n as w2 = Some w1"
    by (auto split: option.splits)
  then show ?case using Cons.IH active_reachable.step [OF Cons.prems(1) exec_act_step] by blast
qed simp

text \<open>
  A run of two threads: the client makes an object, waits until it is initialized, calls it, gives
  it up and waits for its end, while a thread of the pool does the work of the queue.
\<close>

definition life_of_object :: "aact list" where
  "life_of_object = [Calls 0 (OpMake True True), Works 0, Takes 1, Works 1, Works 1, Works 1, Works 1,
     Calls 0 (OpInvokeInQueueStrong 5), Calls 0 (OpReleaseAndWait 9), Works 0,
     Takes 1, Works 1, Works 1, Works 1, Works 1, Works 1, Works 1, Works 1, Works 1, Works 1]"

definition object_world :: "nat \<Rightarrow> active_world" where
  "object_world k = the (exec_acts None 2 (take k life_of_object) active_world_new)"

lemma object_world_reachable:
  assumes "exec_acts None 2 (take k life_of_object) active_world_new \<noteq> None"
  shows "active_reachable None 2 (object_world k)"
  using assms exec_acts_reachable [OF active_reachable.start] by (auto simp: object_world_def)

section \<open>Guarantees\<close>

text \<open>
  C21: The life of an active object. However threads, clients and the queue interleave, the strong
  count is the number of references that clients, tasks and calls hold. \<open>Initialize\<close>, \<open>Finalize\<close> and
  the destructors run once at most. \<open>Initialize\<close> and all the callbacks come before \<open>Finalize\<close>,
  \<open>Finalize\<close> before the destructors, and the callbacks for the end after them; callbacks run any
  number of times, and nothing is said of their order with \<open>Initialize\<close>: in an object made outside of its queue one may come first.
  \<open>Finalize\<close> runs only for an object that was initialized, and neither it nor the destructors run
  while the object is referenced.
\<close>

theorem active_object_life:
  assumes "active_reachable own n w"
  shows "unat (refCount w) = clients w + total work_refs n w
    \<and> times EInitialize w \<le> 1 \<and> times EFinalize w \<le> 1 \<and> times EDestructed w = of_bool (destructed w)
    \<and> in_order (history w)
    \<and> (EFinalize \<in> set (history w) \<longrightarrow> m_hasFinalize w \<and> (m_hasInitialize w \<longrightarrow> EInitialize \<in> set (history w)))
    \<and> (refCount w \<noteq> 0 \<longrightarrow> EFinalize \<notin> set (history w) \<and> \<not> destructed w)"
proof -
  have a: "alive_ok w (total work_refs n w) (total ends n w) (total to_finalize n w) (total to_initialize n w)"
    using alive_reachable [OF assms] by (simp add: alive_def)
  then have "refCount w \<noteq> 0 \<longrightarrow> EFinalize \<notin> set (history w)"
    by (auto simp: alive_ok_def times_def count_list_0_iff)
  with a flags_reachable [OF assms] counted_object [OF a] show ?thesis
    by (auto simp: alive_ok_def flags_ok_def)
qed

lemma active_object_life_witness:
  "times EFinalize (object_world 15) = 1 \<and> EInitialize \<in> set (history (object_world 15)) \<and> m_hasInitialize (object_world 15)
   \<and> in_order (history (object_world 15))"
proof -
  have r: "active_reachable None 2 (object_world 15)" by (rule object_world_reachable) code_simp
  have "EFinalize \<in> set (history (object_world 15))" "m_hasInitialize (object_world 15)"
    "times EFinalize (object_world 15) = 1" by code_simp+
  then show ?thesis using active_object_life [OF r] by auto
qed

text \<open>
  C23: The code of an active object runs in its queue. A thread that runs \<open>Initialize\<close>, \<open>Finalize\<close> or a
  callback is the one that runs a task of the queue, so no two threads are in such code at once.
\<close>

theorem active_object_in_queue:
  assumes "active_reachable own n w" and "AUser u \<in> set (works w tid)" and "in_queue_code u"
  shows "runner w = Some tid \<and> (\<forall>tid1 u1. AUser u1 \<in> set (works w tid1) \<and> in_queue_code u1 \<longrightarrow> tid1 = tid)"
proof -
  have p: "placed xs \<Longrightarrow> AUser v \<in> set xs \<Longrightarrow> in_queue_code v \<Longrightarrow> ALeave \<in> set xs" for xs v
    by (induction xs) auto
  have r: "runner w = Some tid1" if "AUser u1 \<in> set (works w tid1)" "in_queue_code u1" for tid1 u1
    using queue_reachable [OF assms(1)] p [OF _ that] by (auto simp: queue_ok_def)
  show ?thesis using r [OF assms(2,3)] r by auto
qed

lemma active_object_in_queue_witness:
  "runner (object_world 15) = Some 1"
proof -
  have r: "active_reachable None 2 (object_world 15)" by (rule object_world_reachable) code_simp
  have "AUser Finalize \<in> set (works (object_world 15) 1)" by code_simp
  with active_object_in_queue [OF r this] show ?thesis by simp
qed

text \<open>
  C22: Nobody waits for the end of an active object in vain. When no client holds the object and no
  thread or task has anything left to do, but threads may wait in \<open>ReleaseAndWait\<close>, the object was
  destroyed, each callback set for the end was called as often as it was set, so that those threads
  go on, and \<open>Finalize\<close> had run, if the object has one and was initialized, unless the queue was shut
  down. An object whose last reference goes before its \<open>Initialize\<close> runs is destroyed without \<open>Finalize\<close>.
\<close>

theorem active_object_destroyed:
  assumes "active_reachable own n w" and "made w" and "clients w = 0" and "tasks w = []"
    and "\<forall>tid<n. works w tid = [] \<or> (\<exists>f. works w tid = [AWait f])"
  shows "destructed w \<and> (\<forall>f. times (EOnDestructed f) w = times (ESet f) w)
    \<and> (\<forall>tid<n. \<forall>x\<in>set (works w tid). goes_on x w)
    \<and> (m_isInitialized w \<and> m_hasFinalize w \<longrightarrow> EFinalize \<in> set (history w) \<or> shutdownAction w \<noteq> None)"
proof -
  have z: "total f n w = 0" if "\<And>d. f (AWait d) = 0" for f
    using assms(4,5) that by (force simp: total_def)
  then have t: "total work_refs n w = 0" "total ends n w = 0" "total to_finalize n w = 0"
    "\<And>d. total (to_call_destructed d) n w = 0" by simp_all
  have a: "alive_ok w (total work_refs n w) (total ends n w) (total to_finalize n w) (total to_initialize n w)"
    using alive_reachable [OF assms(1)] by (simp add: alive_def)
  have "unat (refCount w) = 0" using a t(1) assms(3) by (simp only: alive_ok_def)
  then have d: "destructed w" using a t assms(2) by (cases "destructed w") (auto simp: alive_ok_def unat_0_iff)
  then have "m_onDestructed w = None" using a by (simp only: alive_ok_def)
  then have c: "times (ESet f) w = times (EOnDestructed f) w" for f
    using callbacks_reachable [OF assms(1), of f] t(4) by (simp add: callbacks_due_def)
  have "goes_on x w" if u: "tid < n" "x \<in> set (works w tid)" for tid x
  proof -
    obtain f where x: "x = AWait f" "works w tid = [AWait f]" using assms(5) u by force
    then have "AWait f \<in> set (works w tid)" by simp
    then have "ESet f \<in> set (history w)" using waits_reachable [OF assms(1)] unfolding waits_ok_def by blast
    then have "EOnDestructed f \<in> set (history w)" using c [of f] by (metis times_def count_list_0_iff)
    then show ?thesis using x(1) by simp
  qed
  moreover have "final w" using settled_reachable [OF assms(1)] d by (simp add: settled_ok_def)
  ultimately show ?thesis using d c by (auto simp: final_def)
qed

lemma active_object_destroyed_witness:
  "destructed (object_world 20) \<and> times (EOnDestructed 9) (object_world 20) = 1 \<and> goes_on (AWait 9) (object_world 20)"
proof -
  let ?w = "object_world 20"
  have r: "active_reachable None 2 ?w" by (rule object_world_reachable) code_simp
  have w0: "works ?w 0 = [AWait 9]" by code_simp
  have w1: "works ?w 1 = []" by code_simp
  have w: "\<forall>tid<2. works ?w tid = [] \<or> (\<exists>f. works ?w tid = [AWait f])"
    using w0 w1 by (auto simp: less_2_cases_iff)
  have m: "made ?w" "clients ?w = 0" "tasks ?w = []" "times (ESet 9) ?w = 1" by code_simp+
  have "destructed ?w \<and> (\<forall>f. times (EOnDestructed f) ?w = times (ESet f) ?w)
    \<and> (\<forall>tid<2. \<forall>x\<in>set (works ?w tid). goes_on x ?w)"
    using active_object_destroyed [OF r m(1-3) w] by blast
  then show ?thesis using w0 m(4) by (metis list.set_intros(1) zero_less_numeral)
qed

text \<open>
  C24: Active objects are never used after they are destroyed. A thread crashes only if a callback for
  the end is set while there is one, which is told when it is set or, when it is set by a destructor,
  at the end of it.
\<close>

theorem active_object_crashes:
  assumes "active_reachable own n w" and "tid < n"
  shows "(may_call op (works w tid) w \<and> exec_op own tid op w = Crashes c \<longrightarrow> c = set_twice \<and> m_onDestructed w \<noteq> None)
    \<and> (works w tid = x # xs \<and> exec_awork own tid x w = Crashes c \<longrightarrow> c = set_too_late \<and> m_onDestructed w \<noteq> None)"
  using op_crash [OF alive_reachable [OF assms(1)] assms(2)] work_crash [OF alive_reachable [OF assms(1)] assms(2)]
  by blast

lemma active_object_crashes_witness:
  "m_onDestructed (object_world 10) \<noteq> None"
proof -
  have r: "active_reachable None 2 (object_world 10)" by (rule object_world_reachable) code_simp
  have "(case exec_op None 0 (OpSetOnDestructedOnce 9) (object_world 10) of Crashes c \<Rightarrow> c = set_twice | _ \<Rightarrow> False)"
    by code_simp
  then have c: "exec_op None 0 (OpSetOnDestructedOnce 9) (object_world 10) = Crashes set_twice"
    by (simp split: outcome.splits)
  have m: "may_call (OpSetOnDestructedOnce 9) (works (object_world 10) 0) (object_world 10)" by code_simp
  show ?thesis
    using conjunct1 [OF active_object_crashes [OF r, of 0 "OpSetOnDestructedOnce 9" set_twice "ALeave" "[]"]] c m by simp
qed

section \<open>Callbacks before Initialize\<close>

text \<open>
  An object made outside of its queue, and given to code that runs in it before the task that
  initializes it: its callbacks run at once.
\<close>

definition early_calls :: "aact list" where
  "early_calls = [Calls 0 (OpPost 7), Takes 1, Works 1, Calls 0 (OpMake True True), Works 0, Calls 1 (OpInvokeInQueue 5), Works 1]"

text \<open>
  C40: There is a run in which a callback of an active object runs before its \<open>Initialize\<close>, and the
  client that calls it holds a reference that \<open>Make\<close> returned.
\<close>

theorem callback_before_Initialize:
  "\<exists>w. active_reachable None 2 w \<and> m_hasInitialize w \<and> history w = [ECallback 5] \<and> clients w = 1
     \<and> AUser (Callback 5) \<in> set (works w 1) \<and> tasks w = [InitTask]"
proof -
  let ?w = "the (exec_acts None 2 early_calls active_world_new)"
  have "exec_acts None 2 early_calls active_world_new \<noteq> None" by code_simp
  then have "active_reachable None 2 ?w" using exec_acts_reachable [OF active_reachable.start] by auto
  moreover have "m_hasInitialize ?w" "history ?w = [ECallback 5]" "clients ?w = 1" "tasks ?w = [InitTask]"
    "AUser (Callback 5) \<in> set (works ?w 1)" by code_simp+
  ultimately show ?thesis by blast
qed

section \<open>Checking the queue\<close>

definition ActiveObjectBase_IsInQueue :: "nat \<Rightarrow> TaskContext list \<Rightarrow> bool" where
  "ActiveObjectBase_IsInQueue queue tls = QueueService_IsCurrentQueue queue tls"

definition ActiveObjectBase_VerifyIsInQueueElseCrash :: "nat \<Rightarrow> TaskContext list \<Rightarrow> unit outcome" where
  "ActiveObjectBase_VerifyIsInQueueElseCrash queue tls =
     verify_else_crash (ActiveObjectBase_IsInQueue queue tls) ''The code must run in object's queue.''"

text \<open>
  The function for any queue asks the static \<open>CurrentQueue()\<close>, which has a state in every queue.
\<close>

definition VerifyIsInQueueElseCrash :: "nat \<Rightarrow> TaskContext list \<Rightarrow> unit outcome" where
  "VerifyIsInQueueElseCrash queue tls =
     verify_else_crash (TaskContext_CurrentQueue tls \<noteq> None) ''The code must run in specified queue.''"

record 'a ActiveField =
  af_value :: 'a
  af_queue :: nat

definition ActiveField_Load :: "TaskContext list \<Rightarrow> 'a ActiveField \<Rightarrow> 'a outcome" where
  "ActiveField_Load tls f = and_then (VerifyIsInQueueElseCrash (af_queue f) tls) (\<lambda>_. Returns (af_value f))"

definition ActiveField_Store :: "TaskContext list \<Rightarrow> 'a \<Rightarrow> 'a ActiveField \<Rightarrow> 'a ActiveField outcome" where
  "ActiveField_Store tls v f =
     and_then (VerifyIsInQueueElseCrash (af_queue f) tls) (\<lambda>_. Returns (f\<lparr>af_value := v\<rparr>))"

definition ActiveField_Exchange :: "TaskContext list \<Rightarrow> 'a \<Rightarrow> 'a ActiveField \<Rightarrow> ('a \<times> 'a ActiveField) outcome" where
  "ActiveField_Exchange tls v f =
     and_then (VerifyIsInQueueElseCrash (af_queue f) tls) (\<lambda>_. Returns (af_value f, f\<lparr>af_value := v\<rparr>))"

text \<open>A field that other threads may read has a mutex; a lock names its mutex and whether it owns it.\<close>

record 'a ActiveReadableField = "'a ActiveField" +
  m_readMutex :: nat

type_synonym unique_lock = "nat option \<times> bool"

definition verify_lock :: "unique_lock \<Rightarrow> 'a ActiveReadableField \<Rightarrow> unit outcome" where
  "verify_lock lock f =
     verify_else_crash (fst lock = Some (m_readMutex f) \<and> snd lock) ''The lock must own specified mutex.''"

definition ActiveReadableField_Load :: "TaskContext list \<Rightarrow> 'a ActiveReadableField \<Rightarrow> 'a outcome" where
  "ActiveReadableField_Load tls f = and_then (VerifyIsInQueueElseCrash (af_queue f) tls) (\<lambda>_. Returns (af_value f))"

definition ActiveReadableField_LoadWithLock :: "unique_lock option \<Rightarrow> 'a ActiveReadableField \<Rightarrow> 'a outcome" where
  "ActiveReadableField_LoadWithLock lock f =
     (case lock of None \<Rightarrow> Returns (af_value f)
      | Some l \<Rightarrow> and_then (verify_lock l f) (\<lambda>_. Returns (af_value f)))"

definition ActiveReadableField_Exchange ::
  "TaskContext list \<Rightarrow> 'a \<Rightarrow> unique_lock option \<Rightarrow> 'a ActiveReadableField \<Rightarrow> ('a \<times> 'a ActiveReadableField) outcome" where
  "ActiveReadableField_Exchange tls v lock f =
     and_then (VerifyIsInQueueElseCrash (af_queue f) tls) (\<lambda>_.
     and_then (case lock of None \<Rightarrow> Returns () | Some l \<Rightarrow> verify_lock l f) (\<lambda>_.
       Returns (af_value f, f\<lparr>af_value := v\<rparr>)))"

text \<open>A task of any queue may write a field; a thread that runs no task may not.\<close>

lemma ActiveField_any_queue:
  "ActiveField_Store (TaskContext_enter queue endTime tls) v f = Returns (f\<lparr>af_value := v\<rparr>)"
  "ActiveField_Store [] v f = Crashes (VerifyElseCrash ''The code must run in specified queue.'')"
  by (simp_all add: ActiveField_Store_def VerifyIsInQueueElseCrash_def TaskContext_CurrentQueue_def
      TaskContext_CurrentContext_def TaskContext_enter_def)

text \<open>What was exchanged comes back, whoever reads it, and the queue of the object is checked exactly.\<close>

lemma ActiveReadableField_Exchange_then_Load:
  assumes "ActiveReadableField_Exchange tls v lock f = Returns (old, f1)"
  shows "old = af_value f \<and> ActiveReadableField_LoadWithLock None f1 = Returns v
    \<and> ActiveReadableField_Load tls f1 = Returns v"
  using assms by (auto simp: ActiveReadableField_Exchange_def ActiveReadableField_LoadWithLock_def
      ActiveReadableField_Load_def outcome_simps VerifyIsInQueueElseCrash_def)

lemma ActiveObject_own_queue:
  "ActiveObjectBase_VerifyIsInQueueElseCrash queue tls = Returns () \<longleftrightarrow> TaskContext_CurrentQueue tls = Some queue"
  by (simp add: ActiveObjectBase_VerifyIsInQueueElseCrash_def ActiveObjectBase_IsInQueue_def outcome_simps
      QueueService_IsCurrentQueue_def)

end
