(* ===== verification/Smart_Holder.thy ===== *)
theory Smart_Holder
  imports Counted_Ptr "HOL-Library.Multiset"
begin

text \<open>
  \<open>THolder\<close> and \<open>THolderPair\<close> (\<open>libs/smartPtr/include/smartPtr/smartPointerBase.h\<close>), which hold a
  resource and free it with a function of the client: the classes of \<open>smartPointers.h\<close> and
  \<open>smartHandles.h\<close> are holders with such functions. What is freed may call back, into the same holder
  too, so a method is a list of pieces of work, with the code of the client in between.
\<close>

section \<open>Empty values\<close>

text \<open>
  \<open>EmptyTraits\<close> (\<open>libs/typeTraits/include/typeTraits/typeTraits.h\<close>): the empty value, the test, and
  what \<open>Empty\<close> makes of a variable. The laws are what a holder relies on.
\<close>

record 'v EmptyTraits =
  EmptyVal :: 'v
  IsEmpty :: "'v \<Rightarrow> bool"
  Empty :: "'v \<Rightarrow> 'v"

locale empty_traits =
  fixes E :: "'v EmptyTraits"
  assumes empty_val: "IsEmpty E (EmptyVal E)" and emptied: "IsEmpty E (Empty E v)"

definition SimpleEmptyTraits :: "'v \<Rightarrow> 'v EmptyTraits" where
  "SimpleEmptyTraits e = \<lparr>EmptyVal = e, IsEmpty = (\<lambda>t. t = e), Empty = (\<lambda>t. e)\<rparr>"

definition PointerEmptyTraits :: "ptr EmptyTraits" where
  "PointerEmptyTraits = SimpleEmptyTraits 0"

text \<open>\<open>THolderPairData\<close>: a pair is empty if its pointer is.\<close>

record ('s, 'd) THolderPairData =
  pT :: 's
  pData :: 'd

definition PairEmptyTraits :: "'s EmptyTraits \<Rightarrow> 'd EmptyTraits \<Rightarrow> ('s, 'd) THolderPairData EmptyTraits" where
  "PairEmptyTraits S D =
     \<lparr>EmptyVal = \<lparr>pT = EmptyVal S, pData = EmptyVal D\<rparr>, IsEmpty = (\<lambda>t. IsEmpty S (pT t)),
      Empty = (\<lambda>t. t\<lparr>pT := Empty S (pT t), pData := Empty D (pData t)\<rparr>)\<rparr>"

interpretation simple_values: empty_traits "SimpleEmptyTraits e"
  by unfold_locales (simp_all add: SimpleEmptyTraits_def)

interpretation pointers: empty_traits PointerEmptyTraits
  by unfold_locales (simp_all add: PointerEmptyTraits_def SimpleEmptyTraits_def)

interpretation pairs: empty_traits "PairEmptyTraits PointerEmptyTraits D"
  by unfold_locales (simp_all add: PairEmptyTraits_def PointerEmptyTraits_def SimpleEmptyTraits_def)

section \<open>State\<close>

text \<open>
  The holders by number, those that are constructed; the resources that belong to the client; those
  that were freed, in order; and those that nobody will free. \<open>HPlaceAt\<close> and \<open>HEnd\<close> are what is left
  of a method after the function that frees.
\<close>

datatype 'v hwork =
    HInFree 'v
  | HPlaceAt nat 'v
  | HEnd nat

record 'v holder_world =
  m_pT :: "nat \<Rightarrow> 'v option"
  client :: "'v multiset"
  freed :: "'v list"
  leaked :: "'v multiset"
  hworks :: "'v hwork list"

definition with_holder :: "nat \<Rightarrow> 'v holder_world \<Rightarrow> ('v \<Rightarrow> 'b outcome) \<Rightarrow> 'b outcome" where
  "with_holder x w k = (case m_pT w x of None \<Rightarrow> Crashes NotConstructed | Some v \<Rightarrow> k v)"

definition set_holder :: "nat \<Rightarrow> 'v option \<Rightarrow> 'v holder_world \<Rightarrow> 'v holder_world" where
  "set_holder x v w = w\<lparr>m_pT := (m_pT w)(x := v)\<rparr>"

text \<open>What the client hands over, and gets back; the empty value is nothing to own.\<close>

definition worth :: "'v EmptyTraits \<Rightarrow> 'v \<Rightarrow> 'v multiset" where
  "worth E v = (if IsEmpty E v then {#} else {#v#})"

definition hand_over :: "'v EmptyTraits \<Rightarrow> 'v \<Rightarrow> 'v holder_world \<Rightarrow> 'v holder_world" where
  "hand_over E v w = w\<lparr>client := client w - worth E v\<rparr>"

definition give_back :: "'v EmptyTraits \<Rightarrow> 'v \<Rightarrow> 'v holder_world \<Rightarrow> 'v holder_world" where
  "give_back E v w = w\<lparr>client := client w + worth E v\<rparr>"

definition lose :: "'v EmptyTraits \<Rightarrow> 'v \<Rightarrow> 'v holder_world \<Rightarrow> 'v holder_world" where
  "lose E v w = w\<lparr>leaked := leaked w + worth E v\<rparr>"

section \<open>Methods\<close>

text \<open>
  \<open>Clear\<close> detaches the value before it frees it. \<open>Place\<close> takes the place of what is there.
\<close>

definition THolder_Detach :: "'v EmptyTraits \<Rightarrow> nat \<Rightarrow> 'v holder_world \<Rightarrow> ('v \<times> 'v holder_world) outcome" where
  "THolder_Detach E x w = with_holder x w (\<lambda>v. Returns (v, set_holder x (Some (Empty E v)) w))"

definition THolder_Clear :: "'v EmptyTraits \<Rightarrow> nat \<Rightarrow> 'v holder_world \<Rightarrow> ('v hwork list \<times> 'v holder_world) outcome" where
  "THolder_Clear E x w = with_holder x w (\<lambda>v.
     if IsEmpty E v then Returns ([], w)
     else and_then (THolder_Detach E x w) (\<lambda>(t, w1). Returns ([HInFree t], w1\<lparr>freed := freed w1 @ [t]\<rparr>)))"

definition THolder_Place :: "'v EmptyTraits \<Rightarrow> nat \<Rightarrow> 'v \<Rightarrow> 'v holder_world \<Rightarrow> 'v holder_world outcome" where
  "THolder_Place E x val w = with_holder x w (\<lambda>v. Returns (set_holder x (Some val) (lose E v w)))"

definition THolder_Attach ::
  "'v EmptyTraits \<Rightarrow> nat \<Rightarrow> 'v \<Rightarrow> 'v holder_world \<Rightarrow> ('v hwork list \<times> 'v holder_world) outcome" where
  "THolder_Attach E x val w = and_then (THolder_Clear E x w) (\<lambda>(new, w1). Returns (new @ [HPlaceAt x val], w1))"

definition THolder_assign ::
  "'v EmptyTraits \<Rightarrow> nat \<Rightarrow> 'v \<Rightarrow> 'v holder_world \<Rightarrow> ('v hwork list \<times> 'v holder_world) outcome" where
  "THolder_assign E x val w = and_then (THolder_Clear E x w) (\<lambda>(new, w1). Returns (new @ [HPlaceAt x val], w1))"

definition THolder_TransferFrom ::
  "'v EmptyTraits \<Rightarrow> nat \<Rightarrow> nat \<Rightarrow> 'v holder_world \<Rightarrow> ('v hwork list \<times> 'v holder_world) outcome" where
  "THolder_TransferFrom E x from w =
     and_then (THolder_Detach E from w) (\<lambda>(v, w1). THolder_Attach E x v w1)"

definition THolder_Swap :: "nat \<Rightarrow> nat \<Rightarrow> 'v holder_world \<Rightarrow> 'v holder_world outcome" where
  "THolder_Swap x from w = with_holder x w (\<lambda>val. with_holder from w (\<lambda>v.
     Returns (set_holder from (Some val) (set_holder x (Some v) w))))"

definition THolder_ctor :: "'v EmptyTraits \<Rightarrow> nat \<Rightarrow> 'v holder_world \<Rightarrow> 'v holder_world" where
  "THolder_ctor E x w = set_holder x (Some (EmptyVal E)) w"

definition THolder_ctor_value :: "nat \<Rightarrow> 'v \<Rightarrow> 'v holder_world \<Rightarrow> 'v holder_world" where
  "THolder_ctor_value x val w = set_holder x (Some val) w"

definition THolder_ctor_move :: "'v EmptyTraits \<Rightarrow> nat \<Rightarrow> nat \<Rightarrow> 'v holder_world \<Rightarrow> 'v holder_world outcome" where
  "THolder_ctor_move E x from w =
     and_then (THolder_Detach E from w) (\<lambda>(v, w1). Returns (set_holder x (Some v) w1))"

text \<open>The destructor, \<open>EmptySafe\<close>, empties the holder as \<open>Clear\<close> does; then the holder is gone.\<close>

definition THolder_dtor :: "'v EmptyTraits \<Rightarrow> nat \<Rightarrow> 'v holder_world \<Rightarrow> ('v hwork list \<times> 'v holder_world) outcome" where
  "THolder_dtor E x w = with_holder x w (\<lambda>val.
     if IsEmpty E val then Returns ([HEnd x], w)
     else Returns ([HInFree val, HEnd x], (set_holder x (Some (Empty E val)) w)\<lparr>freed := freed w @ [val]\<rparr>))"

definition THolder_arrow :: "'v EmptyTraits \<Rightarrow> nat \<Rightarrow> 'v holder_world \<Rightarrow> 'v outcome" where
  "THolder_arrow E x w = with_holder x w (\<lambda>v.
     and_then (verify_else_crash (\<not> IsEmpty E v) '''') (\<lambda>_. Returns v))"

text \<open>
  \<open>GetAddressOf\<close> is for functions that return a resource through a pointer; what they write takes the
  place of what is there. \<open>ClearAndGetAddressOf\<close> frees it first.
\<close>

definition THolder_GetAddressOf :: "nat \<Rightarrow> 'v holder_world \<Rightarrow> nat outcome" where
  "THolder_GetAddressOf x w = with_holder x w (\<lambda>v. Returns x)"

definition THolder_ClearAndGetAddressOf ::
  "'v EmptyTraits \<Rightarrow> nat \<Rightarrow> 'v holder_world \<Rightarrow> ('v hwork list \<times> 'v holder_world) outcome" where
  "THolder_ClearAndGetAddressOf E x w = THolder_Clear E x w"

definition write_address :: "'v EmptyTraits \<Rightarrow> nat \<Rightarrow> 'v \<Rightarrow> 'v holder_world \<Rightarrow> 'v holder_world outcome" where
  "write_address E x v w = THolder_Place E x v w"

section \<open>Pairs\<close>

text \<open>\<open>THolderPair\<close> calls the holder of the pair.\<close>

definition THolderPair_Place ::
  "('s, 'd) THolderPairData EmptyTraits \<Rightarrow> nat \<Rightarrow> 's \<Rightarrow> 'd \<Rightarrow> ('s, 'd) THolderPairData holder_world
     \<Rightarrow> ('s, 'd) THolderPairData holder_world outcome" where
  "THolderPair_Place E x p d w = THolder_Place E x \<lparr>pT = p, pData = d\<rparr> w"

definition THolderPair_Attach ::
  "('s, 'd) THolderPairData EmptyTraits \<Rightarrow> nat \<Rightarrow> 's \<Rightarrow> 'd \<Rightarrow> ('s, 'd) THolderPairData holder_world
     \<Rightarrow> (('s, 'd) THolderPairData hwork list \<times> ('s, 'd) THolderPairData holder_world) outcome" where
  "THolderPair_Attach E x p d w = THolder_Attach E x \<lparr>pT = p, pData = d\<rparr> w"

definition THolderPair_ctor ::
  "('s, 'd) THolderPairData EmptyTraits \<Rightarrow> nat \<Rightarrow> 's \<Rightarrow> 'd \<Rightarrow> ('s, 'd) THolderPairData holder_world
     \<Rightarrow> (('s, 'd) THolderPairData hwork list \<times> ('s, 'd) THolderPairData holder_world) outcome" where
  "THolderPair_ctor E x p d w = THolderPair_Attach E x p d (THolder_ctor E x w)"

definition THolderPair_Detach ::
  "('s, 'd) THolderPairData EmptyTraits \<Rightarrow> nat \<Rightarrow> ('s, 'd) THolderPairData holder_world
     \<Rightarrow> ('s \<times> 'd \<times> ('s, 'd) THolderPairData holder_world) outcome" where
  "THolderPair_Detach E x w = with_holder x w (\<lambda>v. let d = pData v in
     and_then (THolder_Detach E x w) (\<lambda>(p, w1). Returns (pT p, d, w1)))"

definition THolderPair_GetAddressOf ::
  "nat \<Rightarrow> 'd \<Rightarrow> ('s, 'd) THolderPairData holder_world \<Rightarrow> ('s, 'd) THolderPairData holder_world outcome" where
  "THolderPair_GetAddressOf x d w = with_holder x w (\<lambda>v. Returns (set_holder x (Some (v\<lparr>pData := d\<rparr>)) w))"

text \<open>What a pair gives up is what it was given, with its data, and freed with it.\<close>

lemma THolderPair_data:
  assumes "m_pT w x = Some v" and "IsEmpty E v"
  shows "and_then (THolderPair_Place E x p d w) (THolderPair_Detach E x)
    = Returns (p, d, set_holder x (Some (Empty E \<lparr>pT = p, pData = d\<rparr>)) (lose E v w))"
  using assms by (simp add: THolderPair_Place_def THolder_Place_def THolderPair_Detach_def THolder_Detach_def
      with_holder_def set_holder_def lose_def)

section \<open>Steps\<close>

datatype 'v hop =
    OCtor nat
  | OCtorValue nat 'v
  | OCtorMove nat nat
  | ODtor nat
  | OClear nat
  | OAssign nat 'v
  | OTransferFrom nat nat
  | OSwap nat nat
  | OPlace nat 'v
  | OAttach nat 'v
  | ODetach nat
  | OWriteAddress nat 'v

definition no_work :: "'w outcome \<Rightarrow> ('v hwork list \<times> 'w) outcome" where
  "no_work m = and_then m (\<lambda>w. Returns ([], w))"

fun exec_hop :: "'v EmptyTraits \<Rightarrow> 'v hop \<Rightarrow> 'v holder_world \<Rightarrow> ('v hwork list \<times> 'v holder_world) outcome" where
  "exec_hop E (OCtor x) w = Returns ([], THolder_ctor E x w)"
| "exec_hop E (OCtorValue x v) w = Returns ([], THolder_ctor_value x v (hand_over E v w))"
| "exec_hop E (OCtorMove x y) w = no_work (THolder_ctor_move E x y w)"
| "exec_hop E (ODtor x) w = THolder_dtor E x w"
| "exec_hop E (OClear x) w = THolder_Clear E x w"
| "exec_hop E (OAssign x v) w = THolder_assign E x v (hand_over E v w)"
| "exec_hop E (OTransferFrom x y) w = THolder_TransferFrom E x y w"
| "exec_hop E (OSwap x y) w = no_work (THolder_Swap x y w)"
| "exec_hop E (OPlace x v) w = no_work (THolder_Place E x v (hand_over E v w))"
| "exec_hop E (OAttach x v) w = THolder_Attach E x v (hand_over E v w)"
| "exec_hop E (ODetach x) w = and_then (THolder_Detach E x w) (\<lambda>(v, w1). Returns ([], give_back E v w1))"
| "exec_hop E (OWriteAddress x v) w = no_work (write_address E x v (hand_over E v w))"

text \<open>
  A client gives only what it owns, constructs a holder where there is none, and does not touch one
  whose destructor has begun.
\<close>

definition ending :: "nat \<Rightarrow> 'v holder_world \<Rightarrow> bool" where
  "ending x w \<longleftrightarrow> HEnd x \<in> set (hworks w)"

definition gives :: "'v EmptyTraits \<Rightarrow> 'v \<Rightarrow> 'v holder_world \<Rightarrow> bool" where
  "gives E v w \<longleftrightarrow> worth E v \<subseteq># client w"

fun hop_allowed :: "'v EmptyTraits \<Rightarrow> 'v hop \<Rightarrow> 'v holder_world \<Rightarrow> bool" where
  "hop_allowed E (OCtor x) w = (m_pT w x = None)"
| "hop_allowed E (OCtorValue x v) w = (m_pT w x = None \<and> gives E v w)"
| "hop_allowed E (OCtorMove x y) w = (m_pT w x = None)"
| "hop_allowed E (ODtor x) w = (\<not> ending x w)"
| "hop_allowed E (OAssign x v) w = gives E v w"
| "hop_allowed E (OPlace x v) w = gives E v w"
| "hop_allowed E (OAttach x v) w = gives E v w"
| "hop_allowed E (OWriteAddress x v) w = gives E v w"
| "hop_allowed E _ w = True"

fun exec_hwork :: "'v EmptyTraits \<Rightarrow> 'v hwork \<Rightarrow> 'v holder_world \<Rightarrow> 'v holder_world outcome" where
  "exec_hwork E (HInFree v) w = Returns w"
| "exec_hwork E (HPlaceAt x v) w = THolder_Place E x v w"
| "exec_hwork E (HEnd x) w = with_holder x w (\<lambda>v. Returns (set_holder x None (lose E v w)))"

fun in_client :: "'v hwork list \<Rightarrow> bool" where
  "in_client [] = True"
| "in_client (HInFree v # ws) = True"
| "in_client _ = False"

inductive holder_step :: "'v EmptyTraits \<Rightarrow> 'v holder_world \<Rightarrow> 'v holder_world \<Rightarrow> bool" for E where
  call: "in_client (hworks w) \<Longrightarrow> hop_allowed E op w \<Longrightarrow> exec_hop E op w = Returns (new, w1)
    \<Longrightarrow> holder_step E w (w1\<lparr>hworks := new @ hworks w\<rparr>)"
| work: "hworks w = h # hs \<Longrightarrow> exec_hwork E h w = Returns w1 \<Longrightarrow> holder_step E w (w1\<lparr>hworks := hs\<rparr>)"

inductive holder_reachable :: "'v EmptyTraits \<Rightarrow> 'v multiset \<Rightarrow> 'v holder_world \<Rightarrow> bool" for E R where
  start: "holder_reachable E R \<lparr>m_pT = (\<lambda>_. None), client = R, freed = [], leaked = {#}, hworks = []\<rparr>"
| step: "holder_reachable E R w \<Longrightarrow> holder_step E w w' \<Longrightarrow> holder_reachable E R w'"


section \<open>Every resource has one place\<close>

fun work_holds :: "'v hwork \<Rightarrow> 'v list" where
  "work_holds (HPlaceAt x v) = [v]"
| "work_holds _ = []"

definition in_works :: "'v holder_world \<Rightarrow> 'v \<Rightarrow> nat" where
  "in_works w v = count_list (concat (map work_holds (hworks w))) v"

definition places :: "'v holder_world \<Rightarrow> 'v \<Rightarrow> nat" where
  "places w v = count (client w) v + holders (m_pT w) v + in_works w v + count_list (freed w) v + count (leaked w) v"

definition kept :: "'v EmptyTraits \<Rightarrow> 'v multiset \<Rightarrow> 'v holder_world \<Rightarrow> bool" where
  "kept E R w \<longleftrightarrow> (\<forall>v. \<not> IsEmpty E v \<longrightarrow> finite (dom (m_pT w)) \<and> places w v = count R v)"

lemma count_worth: "\<not> IsEmpty E v \<Longrightarrow> count (worth E u) v = of_bool (u = v)"
  by (auto simp: worth_def)

lemma holders_set:
  assumes "finite (dom (m_pT w))"
  shows "holders (m_pT (set_holder x u w)) v + of_bool (m_pT w x = Some v) = holders (m_pT w) v + of_bool (u = Some v)"
  using holders_update [OF assms, of x u v] by (simp add: set_holder_def)


lemmas THolder_defs = THolder_Detach_def THolder_Clear_def THolder_Place_def THolder_Attach_def THolder_assign_def
  THolder_TransferFrom_def THolder_Swap_def THolder_ctor_def THolder_ctor_value_def THolder_ctor_move_def THolder_dtor_def
  with_holder_def set_holder_def hand_over_def give_back_def lose_def worth_def gives_def ending_def no_work_def
  write_address_def

lemma with_holder_Returns: "with_holder x w k = Returns y \<longleftrightarrow> (\<exists>v. m_pT w x = Some v \<and> k v = Returns y)"
  by (auto simp: with_holder_def split: option.splits)

text \<open>
  \<open>moves u k l w w1\<close>: counting \<open>k\<close> resources \<open>u\<close> in hand before and \<open>l\<close> after, none is lost or made.
\<close>

definition moves :: "'v \<Rightarrow> nat \<Rightarrow> nat \<Rightarrow> 'v holder_world \<Rightarrow> 'v holder_world \<Rightarrow> bool" where
  "moves u k l w w1 \<longleftrightarrow> (finite (dom (m_pT w)) \<longrightarrow> finite (dom (m_pT w1)) \<and> places w1 u + l = places w u + k)
     \<and> hworks w1 = hworks w"

lemma moves_trans: "moves u k l w w1 \<Longrightarrow> moves u k1 l1 w1 w2 \<Longrightarrow> moves u (k + k1) (l + l1) w w2"
  by (auto simp: moves_def)

lemma moves_cancel: "moves u (k + m) (l + m) w w1 \<Longrightarrow> moves u k l w w1"
  by (simp add: moves_def)

lemma moves_refl: "moves u 0 0 w w"
  by (simp add: moves_def)

lemma moves_set:
  "m_pT w x = v \<Longrightarrow> moves u (of_bool (v1 = Some u)) (of_bool (v = Some u)) w (set_holder x v1 w)"
  using holders_set [of w x v1 u] by (auto simp: moves_def places_def set_holder_def in_works_def)

lemma moves_Detach:
  assumes "empty_traits E" and "THolder_Detach E x w = Returns (v, w1)" and "\<not> IsEmpty E u"
  shows "moves u 0 (of_bool (v = u)) w w1"
proof -
  have v: "m_pT w x = Some v" "w1 = set_holder x (Some (Empty E v)) w"
    using assms(2) by (auto simp: THolder_Detach_def with_holder_Returns)
  have "Empty E v \<noteq> u" using empty_traits.emptied [OF assms(1), of v] assms(3) by auto
  then show ?thesis using moves_set [OF v(1), of u "Some (Empty E v)"] v(2) by simp
qed

lemma moves_Place:
  assumes "THolder_Place E x v w = Returns w1" and "\<not> IsEmpty E u"
  shows "moves u (of_bool (v = u)) 0 w w1"
proof -
  obtain v0 where v: "m_pT w x = Some v0" "w1 = set_holder x (Some v) (lose E v0 w)"
    using assms(1) by (auto simp: THolder_Place_def with_holder_Returns)
  have "moves u (of_bool (v0 = u)) 0 w (lose E v0 w)"
    using count_worth [OF assms(2), of v0] by (simp add: moves_def places_def lose_def in_works_def)
  moreover have "moves u (of_bool (v = u)) (of_bool (v0 = u)) (lose E v0 w) w1"
    using moves_set [of "lose E v0 w" x "Some v0" u "Some v"] v by (simp add: lose_def)
  ultimately show ?thesis using moves_trans moves_cancel [of u "of_bool (v = u)" "of_bool (v0 = u)" 0] by fastforce
qed

definition new_holds :: "'v hwork list \<Rightarrow> 'v \<Rightarrow> nat" where
  "new_holds new u = count_list (concat (map work_holds new)) u"

lemma new_holds_simps [simp]:
  "new_holds [] u = 0" "new_holds (HInFree v # ws) u = new_holds ws u" "new_holds (HEnd x # ws) u = new_holds ws u"
  "new_holds (HPlaceAt x v # ws) u = of_bool (v = u) + new_holds ws u" "new_holds (ws @ vs) u = new_holds ws u + new_holds vs u"
  by (simp_all add: new_holds_def)

lemma moves_Clear:
  assumes "empty_traits E" and "THolder_Clear E x w = Returns (new, w1)" and "\<not> IsEmpty E u"
  shows "moves u 0 0 w w1 \<and> new_holds new u = 0"
proof -
  obtain v where v: "m_pT w x = Some v" using assms(2) by (auto simp: THolder_Clear_def with_holder_Returns)
  show ?thesis
  proof (cases "IsEmpty E v")
    case True
    then show ?thesis using assms(2) v by (auto simp: THolder_Clear_def with_holder_def moves_refl)
  next
    case False
    then obtain w2 where w2: "THolder_Detach E x w = Returns (v, w2)" "new = [HInFree v]" "w1 = w2\<lparr>freed := freed w2 @ [v]\<rparr>"
      using assms(2) v by (auto simp: THolder_Clear_def THolder_Detach_def with_holder_def)
    have "moves u (of_bool (v = u)) 0 w2 w1" using w2(3) by (auto simp: moves_def places_def in_works_def)
    then show ?thesis
      using moves_trans [OF moves_Detach [OF assms(1) w2(1) assms(3)]] moves_cancel [of u 0 "of_bool (v = u)" 0] w2(2) by fastforce
  qed
qed

lemma moves_Attach:
  assumes "empty_traits E" and "THolder_Attach E x v w = Returns (new, w1)" and "\<not> IsEmpty E u"
  shows "moves u 0 0 w w1 \<and> new_holds new u = of_bool (v = u)"
proof -
  obtain new0 where "THolder_Clear E x w = Returns (new0, w1)" "new = new0 @ [HPlaceAt x v]"
    using assms(2) by (auto simp: THolder_Attach_def outcome_simps)
  then show ?thesis using moves_Clear [OF assms(1) _ assms(3)] by simp
qed

lemma moves_hand_over:
  assumes "gives E v w" and "\<not> IsEmpty E u"
  shows "moves u 0 (of_bool (v = u)) w (hand_over E v w)"
proof -
  have "count (worth E v) u \<le> count (client w) u" using assms(1) by (simp add: gives_def mset_subset_eq_count)
  then show ?thesis using count_worth [OF assms(2), of v]
    by (simp add: moves_def places_def hand_over_def in_works_def)
qed

lemma moves_give_back: "\<not> IsEmpty E u \<Longrightarrow> moves u (of_bool (v = u)) 0 w (give_back E v w)"
  using count_worth [of E u v] by (simp add: moves_def places_def give_back_def in_works_def)

lemma moves_hand_then:
  assumes "gives E v w" and "\<not> IsEmpty E u" and "moves u (of_bool (v = u)) k (hand_over E v w) w1"
  shows "moves u 0 k w w1"
  using moves_trans [OF moves_hand_over [OF assms(1,2)] assms(3)] moves_cancel [of u 0 "of_bool (v = u)" k]
  by (simp add: add.commute)

lemma moves_put: "moves u 0 0 w w1 \<Longrightarrow> moves u (k :: nat) k w w1"
  by (simp add: moves_def)

lemma no_work_Returns: "no_work m = Returns (new, w1) \<longleftrightarrow> new = [] \<and> m = Returns w1"
  by (auto simp: no_work_def outcome_simps)


lemma moves_dtor:
  assumes "empty_traits E" and "THolder_dtor E x w = Returns (new, w1)" and "\<not> IsEmpty E u"
  shows "moves u 0 0 w w1 \<and> new_holds new u = 0"
proof -
  obtain v where v: "m_pT w x = Some v" using assms(2) by (auto simp: THolder_dtor_def with_holder_Returns)
  show ?thesis
  proof (cases "IsEmpty E v")
    case True
    then show ?thesis using assms(2) v by (auto simp: THolder_dtor_def with_holder_def moves_refl)
  next
    case False
    let ?w = "set_holder x (Some (Empty E v)) w"
    have w1: "new = [HInFree v, HEnd x]" "w1 = ?w\<lparr>freed := freed w @ [v]\<rparr>"
      using assms(2) v False by (auto simp: THolder_dtor_def with_holder_def)
    have "THolder_Detach E x w = Returns (v, ?w)" using v by (simp add: THolder_Detach_def with_holder_def)
    note d = moves_Detach [OF assms(1) this assms(3)]
    have "freed ?w = freed w" by (simp add: set_holder_def)
    then have "moves u (of_bool (v = u)) 0 ?w w1" using w1(2) by (auto simp: moves_def places_def in_works_def)
    then show ?thesis
      using moves_trans [OF d] moves_cancel [of u 0 "of_bool (v = u)" 0] w1(1) by fastforce
  qed
qed

lemma moves_TransferFrom:
  assumes "empty_traits E" and "THolder_TransferFrom E x y w = Returns (new, w1)" and "\<not> IsEmpty E u"
  shows "moves u 0 (new_holds new u) w w1"
proof -
  obtain v w2 where d: "THolder_Detach E y w = Returns (v, w2)" "THolder_Attach E x v w2 = Returns (new, w1)"
    using assms(2) by (auto simp: THolder_TransferFrom_def outcome_simps)
  have "moves u 0 0 w2 w1" "new_holds new u = of_bool (v = u)"
    using moves_Attach [OF assms(1) d(2) assms(3)] by simp_all
  then show ?thesis using moves_trans [OF moves_Detach [OF assms(1) d(1) assms(3)]] by fastforce
qed

lemma moves_ctor_move:
  assumes "empty_traits E" and "THolder_ctor_move E x y w = Returns w1" and "m_pT w x = None" and "\<not> IsEmpty E u"
  shows "moves u 0 0 w w1"
proof -
  obtain v w2 where d: "THolder_Detach E y w = Returns (v, w2)" "w1 = set_holder x (Some v) w2"
    using assms(2) by (auto simp: THolder_ctor_move_def outcome_simps)
  have "m_pT w2 x = None" using d(1) assms(3) by (auto simp: THolder_Detach_def with_holder_Returns set_holder_def)
  then have "moves u (of_bool (v = u)) 0 w2 w1" using moves_set [of w2 x None u "Some v"] d(2) by simp
  then show ?thesis
    using moves_trans [OF moves_Detach [OF assms(1) d(1) assms(4)]] moves_cancel [of u 0 "of_bool (v = u)" 0] by fastforce
qed

lemma moves_Swap:
  assumes "THolder_Swap x y w = Returns w1"
  shows "moves u 0 0 w w1"
proof -
  obtain p q where p: "m_pT w x = Some p" "m_pT w y = Some q" "w1 = set_holder y (Some p) (set_holder x (Some q) w)"
    using assms by (auto simp: THolder_Swap_def with_holder_Returns)
  then show ?thesis using holders_swap [of "m_pT w" x p y q u]
    by (auto simp: moves_def places_def in_works_def set_holder_def)
qed

lemma moves_hop:
  assumes "empty_traits E" and "exec_hop E op w = Returns (new, w1)" and "hop_allowed E op w" and "\<not> IsEmpty E u"
  shows "moves u 0 (new_holds new u) w w1"
proof (cases op)
  case (OCtor x)
  have "EmptyVal E \<noteq> u" using empty_traits.empty_val [OF assms(1)] assms(4) by auto
  then show ?thesis using OCtor assms(2,3) moves_set [of w x None u "Some (EmptyVal E)"] by (auto simp: THolder_ctor_def)
next
  case (OCtorValue x v)
  then have "moves u (of_bool (v = u)) 0 (hand_over E v w) w1" "new = []"
    using assms(2,3) moves_set [of "hand_over E v w" x None u "Some v"]
    by (auto simp: THolder_ctor_value_def hand_over_def)
  then show ?thesis using moves_hand_then [OF _ assms(4)] OCtorValue assms(3) by auto
next
  case (OCtorMove x y)
  then show ?thesis using assms(2,3) moves_ctor_move [OF assms(1) _ _ assms(4)] by (auto simp: no_work_Returns)
next
  case (ODtor x)
  then show ?thesis using assms(2) moves_dtor [OF assms(1) _ assms(4), of x w new w1] by simp
next
  case (OClear x)
  then show ?thesis using assms(2) moves_Clear [OF assms(1) _ assms(4), of x w new w1] by simp
next
  case (OAssign x v)
  then have "THolder_Attach E x v (hand_over E v w) = Returns (new, w1)"
    using assms(2) by (simp add: THolder_Attach_def THolder_assign_def)
  from moves_Attach [OF assms(1) this assms(4)] show ?thesis
    using moves_hand_then [OF _ assms(4), of v w] moves_put [of u] OAssign assms(3) by fastforce
next
  case (OTransferFrom x y)
  then show ?thesis using assms(2) moves_TransferFrom [OF assms(1) _ assms(4)] by simp
next
  case (OSwap x y)
  then show ?thesis using assms(2) moves_Swap by (auto simp: no_work_Returns)
next
  case (OPlace x v)
  then have "THolder_Place E x v (hand_over E v w) = Returns w1" "new = []" using assms(2) by (simp_all add: no_work_Returns)
  then show ?thesis using moves_hand_then [OF _ assms(4)] moves_Place [OF _ assms(4)] OPlace assms(3) by fastforce
next
  case (OAttach x v)
  then have "THolder_Attach E x v (hand_over E v w) = Returns (new, w1)" using assms(2) by simp
  from moves_Attach [OF assms(1) this assms(4)] show ?thesis
    using moves_hand_then [OF _ assms(4), of v w] moves_put [of u] OAttach assms(3) by fastforce
next
  case (ODetach x)
  then obtain v w2 where d: "THolder_Detach E x w = Returns (v, w2)" "new = []" "w1 = give_back E v w2"
    using assms(2) by (auto simp: outcome_simps)
  show ?thesis
    using moves_trans [OF moves_Detach [OF assms(1) d(1) assms(4)] moves_give_back [OF assms(4), of v w2]]
      moves_cancel [of u 0 "of_bool (v = u)" 0] d(2,3) by fastforce
next
  case (OWriteAddress x v)
  then have "THolder_Place E x v (hand_over E v w) = Returns w1" "new = []"
    using assms(2) by (simp_all add: no_work_Returns write_address_def)
  then show ?thesis using moves_hand_then [OF _ assms(4)] moves_Place [OF _ assms(4)] OWriteAddress assms(3) by fastforce
qed

lemma moves_work:
  assumes "exec_hwork E h w = Returns w1" and "\<not> IsEmpty E u"
  shows "moves u (count_list (work_holds h) u) 0 w w1"
proof (cases h)
  case (HInFree v)
  then show ?thesis using assms by (simp add: moves_refl)
next
  case (HPlaceAt x v)
  then show ?thesis using assms moves_Place [of E x v w w1 u] by (cases "v = u") simp_all
next
  case (HEnd x)
  then obtain v where v: "m_pT w x = Some v" "w1 = set_holder x None (lose E v w)"
    using assms by (auto simp: with_holder_Returns)
  have "moves u (of_bool (v = u)) 0 w (lose E v w)"
    using count_worth [OF assms(2), of v] by (simp add: moves_def places_def lose_def in_works_def)
  moreover have "moves u 0 (of_bool (v = u)) (lose E v w) w1"
    using moves_set [of "lose E v w" x "Some v" u None] v by (simp add: lose_def)
  ultimately show ?thesis
    using moves_trans moves_cancel [of u 0 "of_bool (v = u)" 0] HEnd by fastforce
qed

lemma kept_reachable:
  assumes "empty_traits E" and "holder_reachable E R w"
  shows "kept E R w"
  using assms(2)
proof (induction rule: holder_reachable.induct)
  case start
  show ?case by (simp add: kept_def places_def holders_def in_works_def)
next
  case (step w w')
  have old: "\<not> IsEmpty E u \<Longrightarrow> finite (dom (m_pT w)) \<and> places w u = count R u" for u using step(3) by (simp add: kept_def)
  from step(2) show ?case
  proof cases
    case (call op new w1)
    have "finite (dom (m_pT w')) \<and> places w' u = count R u" if u: "\<not> IsEmpty E u" for u
      using moves_hop [OF assms(1) call(4,3) u] old [OF u] call(1)
      by (auto simp: moves_def places_def in_works_def new_holds_def)
    then show ?thesis by (simp add: kept_def)
  next
    case (work h hs w1)
    have "finite (dom (m_pT w')) \<and> places w' u = count R u" if u: "\<not> IsEmpty E u" for u
      using moves_work [OF work(3) u] old [OF u] work(1,2) by (auto simp: moves_def places_def in_works_def)
    then show ?thesis by (simp add: kept_def)
  qed
qed


lemma Clear_freed: "THolder_Clear E x w = Returns (new, w1) \<Longrightarrow> set (freed w1) \<subseteq> set (freed w) \<union> {v. \<not> IsEmpty E v}"
  by (auto simp: THolder_Clear_def THolder_Detach_def with_holder_Returns outcome_simps set_holder_def split: if_splits)

lemma hop_freed:
  assumes "exec_hop E op w = Returns (new, w1)"
  shows "set (freed w1) \<subseteq> set (freed w) \<union> {v. \<not> IsEmpty E v}"
proof -
  have attach: "set (freed w2) \<subseteq> set (freed v) \<union> {u. \<not> IsEmpty E u}"
    if "THolder_Attach E x u v = Returns (l, w2)" for x u v l w2
    using that Clear_freed [of E x v] by (auto simp: THolder_Attach_def outcome_simps)
  have detach: "freed w2 = freed v" if "THolder_Detach E x v = Returns (u, w2)" for x u v w2
    using that by (auto simp: THolder_Detach_def with_holder_Returns set_holder_def)
  have place: "freed w2 = freed v" if "THolder_Place E x u v = Returns w2" for x u v w2
    using that by (auto simp: THolder_Place_def with_holder_Returns set_holder_def lose_def)
  have hand: "freed (hand_over E v w) = freed w" "freed (give_back E v w) = freed w" for v w
    by (simp_all add: hand_over_def give_back_def)
  show ?thesis
  proof (cases op)
    case (OTransferFrom x y)
    then obtain v w2 where "THolder_Detach E y w = Returns (v, w2)" "THolder_Attach E x v w2 = Returns (new, w1)"
      using assms by (auto simp: THolder_TransferFrom_def outcome_simps)
    then show ?thesis using attach detach by metis
  next
    case (OAssign x v)
    then have "THolder_Attach E x v (hand_over E v w) = Returns (new, w1)"
      using assms by (simp add: THolder_Attach_def THolder_assign_def)
    from attach [OF this] show ?thesis by (simp add: hand)
  next
    case (OAttach x v)
    then show ?thesis using attach [of x v "hand_over E v w"] assms by (simp add: hand)
  next
    case (OClear x)
    then show ?thesis using Clear_freed [of E x w] assms by simp
  next
    case (ODtor x)
    then show ?thesis using assms by (auto simp: THolder_dtor_def with_holder_Returns set_holder_def split: if_splits)
  next
    case (OCtorMove x y)
    then show ?thesis using assms by (auto simp: THolder_ctor_move_def no_work_Returns outcome_simps set_holder_def dest: detach)
  next
    case (ODetach x)
    then show ?thesis using assms by (auto simp: outcome_simps hand dest: detach)
  next
    case (OSwap x y)
    then show ?thesis using assms by (auto simp: THolder_Swap_def no_work_Returns with_holder_Returns set_holder_def)
  qed (use assms in \<open>auto simp: no_work_Returns write_address_def hand set_holder_def THolder_ctor_def
      THolder_ctor_value_def dest: place\<close>)
qed

lemma freed_reachable: "holder_reachable E R w \<Longrightarrow> v \<in> set (freed w) \<Longrightarrow> \<not> IsEmpty E v"
proof (induction rule: holder_reachable.induct)
  case (step w w')
  from step(2) show ?case
  proof cases
    case (call op new w1)
    then show ?thesis using hop_freed [OF call(4)] step(3,4) by auto
  next
    case (work h hs w1)
    then have "freed w1 = freed w"
      by (cases h) (auto simp: THolder_Place_def with_holder_Returns set_holder_def lose_def)
    then show ?thesis using step(3,4) work(1) by simp
  qed
qed simp

lemma distinct_if_counts: "(\<And>v. count_list xs v \<le> 1) \<Longrightarrow> distinct xs"
proof (induction xs)
  case (Cons x xs)
  have "count_list xs v \<le> 1" for v using Cons.prems [of v] by (simp split: if_splits)
  moreover have "count_list xs x = 0" using Cons.prems [of x] by simp
  ultimately show ?case using Cons.IH by (simp add: count_list_0_iff)
qed simp

text \<open>The promise, for any kind of value that has an empty one.\<close>

context empty_traits
begin

lemma one_place:
  assumes "holder_reachable E R w" and "\<And>v. count R v \<le> 1"
  shows "distinct (freed w)
    \<and> (\<forall>v\<in>set (freed w). v \<notin># client w \<and> (\<forall>x. m_pT w x \<noteq> Some v))
    \<and> (\<forall>x y v. m_pT w x = Some v \<and> m_pT w y = Some v \<and> \<not> IsEmpty E v \<longrightarrow> x = y)"
proof -
  have k: "finite (dom (m_pT w)) \<and> places w v = count R v" if "\<not> IsEmpty E v" for v
    using kept_reachable [OF _ assms(1)] that empty_traits_axioms by (simp add: kept_def)
  have one: "places w v \<le> 1" if "\<not> IsEmpty E v" for v using k [OF that] assms(2) [of v] by simp
  have f: "\<not> IsEmpty E v" if "v \<in> set (freed w)" for v by (rule freed_reachable [OF assms(1) that])
  have "count_list (freed w) v \<le> 1" for v
  proof (cases "v \<in> set (freed w)")
    case True
    then show ?thesis using one [OF f [OF True]] by (simp add: places_def)
  qed (simp add: count_list_0_iff)
  then have "distinct (freed w)" by (rule distinct_if_counts)
  moreover have "v \<notin># client w \<and> (\<forall>x. m_pT w x \<noteq> Some v)" if v: "v \<in> set (freed w)" for v
  proof -
    have "0 < count_list (freed w) v" using v by (metis count_list_0_iff gr0I)
    then have "count (client w) v = 0" "holders (m_pT w) v = 0" using one [OF f [OF v]] by (simp_all add: places_def)
    then show ?thesis using holders_pos [of "m_pT w" _ v] k [OF f [OF v]] by (auto simp: not_in_iff)
  qed
  moreover have "x = y" if "m_pT w x = Some v" "m_pT w y = Some v" "\<not> IsEmpty E v" for x y v
  proof -
    have "card {c. m_pT w c = Some v} \<le> 1" using one [OF that(3)] by (simp add: places_def holders_def)
    moreover have "finite {c. m_pT w c = Some v}" by (rule finite_holders [OF conjunct1 [OF k [OF that(3)]]])
    ultimately show ?thesis using that(1,2) card_le_Suc0_iff_eq [of "{c. m_pT w c = Some v}"] by auto
  qed
  ultimately show ?thesis by blast
qed

lemma all_freed:
  assumes "holder_reachable E R w" and "\<And>v. v \<in># R \<Longrightarrow> \<not> IsEmpty E v"
    and "m_pT w = (\<lambda>_. None)" and "client w = {#}" and "leaked w = {#}" and "hworks w = []"
  shows "mset (freed w) = R"
proof (rule multiset_eqI)
  fix v
  show "count (mset (freed w)) v = count R v"
  proof (cases "IsEmpty E v")
    case True
    then have "v \<notin> set (freed w)" "v \<notin># R" using freed_reachable [OF assms(1)] assms(2) by auto
    then show ?thesis by (simp add: not_in_iff count_mset_0_iff)
  next
    case False
    then have "places w v = count R v"
      using kept_reachable [OF _ assms(1)] empty_traits_axioms by (simp add: kept_def)
    then show ?thesis using assms(3-6) by (simp add: places_def holders_def in_works_def count_mset)
  qed
qed

end


section \<open>Values a holder has already\<close>

text \<open>
  A holder can be moved to itself: it is emptied before it is cleared. But it must not be assigned the
  value it holds, which it frees and goes on to hold.
\<close>

lemma transfer_to_itself:
  assumes "empty_traits E" and "m_pT w x = Some v"
  shows "and_then (THolder_TransferFrom E x x w) (\<lambda>(new, w1). Returns new) = Returns [HPlaceAt x v]"
    and "and_then (THolder_TransferFrom E x x w) (\<lambda>(new, w1). THolder_Place E x v w1) = Returns w"
  using assms empty_traits.emptied [OF assms(1), of v]
  by (auto simp: THolder_defs fun_upd_idem)

lemma assign_own_value:
  assumes "empty_traits E" and "m_pT w x = Some v" and "\<not> IsEmpty E v"
  shows "\<exists>w1 w2. THolder_assign E x v w = Returns ([HInFree v, HPlaceAt x v], w1) \<and> v \<in> set (freed w1)
    \<and> THolder_Place E x v w1 = Returns w2 \<and> m_pT w2 x = Some v \<and> v \<in> set (freed w2)"
  using assms by (simp add: THolder_defs)

text \<open>
  \<open>Attach\<close> does not look at the holder again after it has freed: what the function that frees puts into
  the holder is lost.
\<close>

lemma refilled_holder_leaks:
  assumes "m_pT w x = Some u" and "\<not> IsEmpty E u" and "exec_hwork E (HPlaceAt x v) w = Returns w1"
  shows "leaked w1 = leaked w + {#u#} \<and> m_pT w1 x = Some v"
  using assms by (auto simp: THolder_defs)

section \<open>Guarantees\<close>

definition example_calls :: "ptr hop list" where
  "example_calls = [OCtorValue 0 16, OCtor 1, OAttach 1 32, OTransferFrom 1 0]"

definition example_start :: "ptr holder_world" where
  "example_start = \<lparr>m_pT = (\<lambda>_. None), client = {#16, 32#}, freed = [], leaked = {#}, hworks = []\<rparr>"

text \<open>A run: a call, and then all the work it leaves.\<close>

fun do_works :: "nat \<Rightarrow> 'v EmptyTraits \<Rightarrow> 'v holder_world \<Rightarrow> 'v holder_world outcome" where
  "do_works 0 E w = Unfinished"
| "do_works (Suc n) E w = (case hworks w of [] \<Rightarrow> Returns w
     | h # hs \<Rightarrow> and_then (exec_hwork E h w) (\<lambda>w1. do_works n E (w1\<lparr>hworks := hs\<rparr>)))"

fun do_calls :: "'v EmptyTraits \<Rightarrow> 'v hop list \<Rightarrow> 'v holder_world \<Rightarrow> 'v holder_world outcome" where
  "do_calls E [] w = Returns w"
| "do_calls E (op # ops) w =
     (if hworks w = [] \<and> hop_allowed E op w
      then and_then (exec_hop E op w) (\<lambda>(new, w1). and_then (do_works 4 E (w1\<lparr>hworks := new\<rparr>)) (do_calls E ops))
      else Unfinished)"

lemma do_works_4: "do_works 4 E w = do_works (Suc (Suc (Suc (Suc 0)))) E w"
  by (simp add: numeral_eq_Suc)

lemma do_works_reachable:
  "holder_reachable E R w \<Longrightarrow> do_works n E w = Returns w1 \<Longrightarrow> holder_reachable E R w1"
proof (induction n arbitrary: w)
  case (Suc n)
  show ?case
  proof (cases "hworks w")
    case (Cons h hs)
    then obtain w2 where "exec_hwork E h w = Returns w2" "do_works n E (w2\<lparr>hworks := hs\<rparr>) = Returns w1"
      using Suc.prems(2) by (auto simp: outcome_simps)
    then show ?thesis using Suc.IH holder_reachable.step [OF Suc.prems(1) holder_step.work [OF Cons]] by blast
  qed (use Suc.prems in simp)
qed simp

lemma do_calls_reachable:
  "holder_reachable E R w \<Longrightarrow> do_calls E ops w = Returns w1 \<Longrightarrow> holder_reachable E R w1"
proof (induction ops arbitrary: w)
  case (Cons op ops)
  then obtain new w2 w3 where c: "hworks w = []" "hop_allowed E op w" "exec_hop E op w = Returns (new, w2)"
      "do_works 4 E (w2\<lparr>hworks := new\<rparr>) = Returns w3" "do_calls E ops w3 = Returns w1"
    by (auto simp: outcome_simps split: if_splits)
  then have "holder_reachable E R (w2\<lparr>hworks := new\<rparr>)"
    using holder_reachable.step [OF Cons.prems(1) holder_step.call [OF _ c(2,3)]] by simp
  then show ?case using Cons.IH do_works_reachable c(4,5) by blast
qed simp

text \<open>
  C30: A holder of pointers frees each resource once. If the client owns distinct resources and gives
  a holder only what it owns, then, whatever the functions that free do, no resource is freed twice,
  none that was freed is still held or owned, and no two holders hold the same one. When all holders
  are gone and nothing was lost or taken back, all were freed.
\<close>

theorem holders_free_once:
  assumes "holder_reachable PointerEmptyTraits R w" and "\<And>v. count R v \<le> 1" and "0 \<notin># R"
  shows "distinct (freed w)
    \<and> (\<forall>v\<in>set (freed w). v \<notin># client w \<and> (\<forall>x. m_pT w x \<noteq> Some v))
    \<and> (\<forall>x y v. m_pT w x = Some v \<and> m_pT w y = Some v \<and> v \<noteq> 0 \<longrightarrow> x = y)
    \<and> (m_pT w = (\<lambda>_. None) \<and> client w = {#} \<and> leaked w = {#} \<and> hworks w = [] \<longrightarrow> mset (freed w) = R)"
proof -
  have e: "IsEmpty PointerEmptyTraits v \<longleftrightarrow> v = 0" for v by (simp add: PointerEmptyTraits_def SimpleEmptyTraits_def)
  have "v \<in># R \<Longrightarrow> \<not> IsEmpty PointerEmptyTraits v" for v using assms(3) e by auto
  then show ?thesis using pointers.one_place [OF assms(1,2)] pointers.all_freed [OF assms(1)] unfolding e by blast
qed

lemma holders_free_once_witness:
  "\<exists>w. do_calls PointerEmptyTraits example_calls example_start = Returns w \<and> freed w = [32] \<and> m_pT w 1 = Some 16
     \<and> (\<forall>x. m_pT w x \<noteq> Some 32)"
proof -
  let ?w = "example_start\<lparr>m_pT := [1 \<mapsto> 16, 0 \<mapsto> 0], client := {#}, freed := [32]\<rparr>"
  have "m_pT ?w = [0 \<mapsto> 0, 1 \<mapsto> 16]" by (auto simp: fun_eq_iff)
  have c: "do_calls PointerEmptyTraits example_calls example_start = Returns ?w"
    by (simp add: example_calls_def example_start_def PointerEmptyTraits_def SimpleEmptyTraits_def do_works_4
        THolder_defs fun_upd_twist)
  have "holder_reachable PointerEmptyTraits {#16, 32#} example_start"
    unfolding example_start_def by (rule holder_reachable.start)
  from do_calls_reachable [OF this c] have r: "holder_reachable PointerEmptyTraits {#16, 32#} ?w" .
  have "\<forall>x. m_pT ?w x \<noteq> Some 32" using holders_free_once [OF r] by simp
  then show ?thesis using c by simp
qed

end
