(* ===== verification/Object_Make.thy ===== *)
theory Object_Make
  imports Ref_Count
begin

text \<open>
  Making objects (\<open>libs/object/include/object/make.h\<close>, and the memory guards and allocation of
  \<open>objectRefCount.h\<close> and \<open>objectWithWeakRef.h\<close>). A new object starts as memory that a guard
  owns; a policy runs the constructor, and for some types \<open>InitializeThis\<close>, which may throw; the
  destructor of the guard takes back what was not handed out. The code of the type and the choice
  of an address by the allocator are parameters.
\<close>

section \<open>Exceptions, guards and policies\<close>

text \<open>How a call that may throw ends: with a value, or with an exception of the code of the type.\<close>

datatype 'a attempt = Completes 'a | Throws_exception

text \<open>The memory guards: \<open>SimpleRefCountMemoryGuard\<close> has no container.\<close>

record memory_guard =
  ObjMemory :: ptr
  Obj :: ptr
  Container :: ptr

definition empty_guard :: memory_guard where
  "empty_guard = \<lparr>ObjMemory = 0, Obj = 0, Container = 0\<rparr>"

text \<open>
  A reference counting policy: allocation with an argument of the allocator, what construction and
  destruction of the counting base class do, and the destructor of its guard.
\<close>

record ('a, 'h) RefCountPolicy =
  AllocateMemory :: "'a \<Rightarrow> 'h \<Rightarrow> (memory_guard \<times> 'h) outcome"
  base_ctor :: "ptr \<Rightarrow> 'h \<Rightarrow> 'h"
  base_dtor :: "ptr \<Rightarrow> 'h \<Rightarrow> 'h"
  MemoryGuard_dtor :: "memory_guard \<Rightarrow> 'h \<Rightarrow> 'h outcome"

text \<open>The code of a type: its constructor and \<open>InitializeThis\<close>, each of which tells whether it returned.\<close>

type_synonym 'h type_code = "ptr \<Rightarrow> 'h \<Rightarrow> (bool \<times> 'h) outcome"

record 'h made_type =
  T_ctor :: "'h type_code"
  T_InitializeThis :: "'h type_code"

section \<open>The make policies\<close>

text \<open>
  \<open>::new (memory) T(...)\<close>: the counting base class is built first; when the constructor throws,
  it is destroyed again and the destructor of the type does not run.
\<close>

definition placement_new :: "('a, 'h) RefCountPolicy \<Rightarrow> 'h made_type \<Rightarrow> ptr \<Rightarrow> 'h \<Rightarrow> (bool \<times> 'h) outcome" where
  "placement_new P T p h = and_then (T_ctor T p (base_ctor P p h)) (\<lambda>(done, h1).
     Returns (if done then (True, h1) else (False, base_dtor P p h1)))"

definition ThrowCtor_Make ::
  "('a, 'h) RefCountPolicy \<Rightarrow> 'h made_type \<Rightarrow> memory_guard \<Rightarrow> 'h \<Rightarrow> (unit attempt \<times> memory_guard \<times> 'h) outcome" where
  "ThrowCtor_Make P T g h = and_then (placement_new P T (ObjMemory g) h) (\<lambda>(done, h1).
     Returns (if done then (Completes (), g\<lparr>Obj := ObjMemory g, ObjMemory := 0\<rparr>, h1) else (Throws_exception, g, h1)))"

definition ThrowCtorAndInitializeThis_Make ::
  "('a, 'h) RefCountPolicy \<Rightarrow> 'h made_type \<Rightarrow> memory_guard \<Rightarrow> 'h \<Rightarrow> (unit attempt \<times> memory_guard \<times> 'h) outcome" where
  "ThrowCtorAndInitializeThis_Make P T g h = and_then (placement_new P T (ObjMemory g) h) (\<lambda>(done, h1).
     if \<not> done then Returns (Throws_exception, g, h1)
     else let g1 = g\<lparr>Obj := ObjMemory g, ObjMemory := 0\<rparr>
       in and_then (T_InitializeThis T (Obj g1) h1) (\<lambda>(done, h2).
         Returns (if done then Completes () else Throws_exception, g1, h2)))"

text \<open>The policies that do not throw are \<open>noexcept\<close>: an exception ends the process.\<close>

definition NoThrowCtor_Make ::
  "('a, 'h) RefCountPolicy \<Rightarrow> 'h made_type \<Rightarrow> memory_guard \<Rightarrow> 'h \<Rightarrow> (unit attempt \<times> memory_guard \<times> 'h) outcome" where
  "NoThrowCtor_Make P T g h = and_then (placement_new P T (ObjMemory g) h) (\<lambda>(done, h1).
     if done then Returns (Completes (), g\<lparr>Obj := ObjMemory g, ObjMemory := 0\<rparr>, h1)
     else Crashes (VerifyElseCrash ''std::terminate''))"

definition NoThrowCtorAndInitializeThis_Make ::
  "('a, 'h) RefCountPolicy \<Rightarrow> 'h made_type \<Rightarrow> memory_guard \<Rightarrow> 'h \<Rightarrow> (unit attempt \<times> memory_guard \<times> 'h) outcome" where
  "NoThrowCtorAndInitializeThis_Make P T g h = and_then (placement_new P T (ObjMemory g) h) (\<lambda>(done, h1).
     if \<not> done then Crashes (VerifyElseCrash ''std::terminate'')
     else let g1 = g\<lparr>Obj := ObjMemory g, ObjMemory := 0\<rparr>
       in and_then (T_InitializeThis T (Obj g1) h1) (\<lambda>(done, h2).
         if done then Returns (Completes (), g1, h2) else Crashes (VerifyElseCrash ''std::terminate'')))"

type_synonym ('a, 'h) make_policy =
  "('a, 'h) RefCountPolicy \<Rightarrow> 'h made_type \<Rightarrow> memory_guard \<Rightarrow> 'h \<Rightarrow> (unit attempt \<times> memory_guard \<times> 'h) outcome"

section \<open>Make\<close>

text \<open>
  The rest of every \<open>Make\<close>: the policy, and the destructor of the guard on each way out. The pointer
  that is returned takes the reference of the guard; 0 is the null pointer.
\<close>

definition Make_in_memory ::
  "('a, 'h) RefCountPolicy \<Rightarrow> ('a, 'h) make_policy \<Rightarrow> 'h made_type \<Rightarrow> memory_guard \<Rightarrow> 'h \<Rightarrow> (ptr attempt \<times> 'h) outcome" where
  "Make_in_memory P M T g h = and_then (M P T g h) (\<lambda>(r, g1, h1).
     case r of
       Throws_exception \<Rightarrow> and_then (MemoryGuard_dtor P g1 h1) (\<lambda>h2. Returns (Throws_exception, h2))
     | Completes _ \<Rightarrow> let result = Obj g1; g2 = g1\<lparr>Obj := 0\<rparr>
         in and_then (MemoryGuard_dtor P g2 h1) (\<lambda>h2. Returns (Completes result, h2)))"

definition Mso_MakeAlloc ::
  "('a, 'h) RefCountPolicy \<Rightarrow> ('a, 'h) make_policy \<Rightarrow> 'h made_type \<Rightarrow> 'a \<Rightarrow> 'h \<Rightarrow> (ptr attempt \<times> 'h) outcome" where
  "Mso_MakeAlloc P M T allocArg h = and_then (AllocateMemory P allocArg h) (\<lambda>(g, h1).
     and_then (verify_else_crash (ObjMemory g \<noteq> 0) ''allocation'') (\<lambda>_. Make_in_memory P M T g h1))"

definition Mso_Make ::
  "(unit, 'h) RefCountPolicy \<Rightarrow> (unit, 'h) make_policy \<Rightarrow> 'h made_type \<Rightarrow> 'h \<Rightarrow> (ptr attempt \<times> 'h) outcome" where
  "Mso_Make P M T h = and_then (AllocateMemory P () h) (\<lambda>(g, h1).
     and_then (verify_else_crash (ObjMemory g \<noteq> 0) ''allocation'') (\<lambda>_. Make_in_memory P M T g h1))"

definition Mso_MakeAllocElseNull ::
  "('a, 'h) RefCountPolicy \<Rightarrow> ('a, 'h) make_policy \<Rightarrow> 'h made_type \<Rightarrow> 'a \<Rightarrow> 'h \<Rightarrow> (ptr attempt \<times> 'h) outcome" where
  "Mso_MakeAllocElseNull P M T allocArg h = and_then (AllocateMemory P allocArg h) (\<lambda>(g, h1).
     if ObjMemory g \<noteq> 0 then Make_in_memory P M T g h1
     else and_then (MemoryGuard_dtor P g h1) (\<lambda>h2. Returns (Completes 0, h2)))"

definition Mso_MakeElseNull ::
  "(unit, 'h) RefCountPolicy \<Rightarrow> (unit, 'h) make_policy \<Rightarrow> 'h made_type \<Rightarrow> 'h \<Rightarrow> (ptr attempt \<times> 'h) outcome" where
  "Mso_MakeElseNull P M T h = and_then (AllocateMemory P () h) (\<lambda>(g, h1).
     if ObjMemory g \<noteq> 0 then Make_in_memory P M T g h1
     else and_then (MemoryGuard_dtor P g h1) (\<lambda>h2. Returns (Completes 0, h2)))"

section \<open>Simple counting\<close>

text \<open>
  The memory of objects with one counter: the objects, blocks that hold no object, and the
  addresses of blocks that were given back without a destructor. An object and its memory go
  together in \<open>SimpleRefCount_Delete\<close>.
\<close>

record object_memory =
  objects :: counted_heap
  raw :: "ptr set"
  dropped :: "ptr list"

text \<open>The allocator of the policy: it chooses an address, or 0.\<close>

definition MakeAllocator_Allocate :: "('a \<Rightarrow> object_memory \<Rightarrow> ptr) \<Rightarrow> 'a \<Rightarrow> object_memory \<Rightarrow> ptr \<times> object_memory" where
  "MakeAllocator_Allocate pick a m =
     (let p = pick a m in (p, if p = 0 then m else m\<lparr>raw := insert p (raw m)\<rparr>))"

definition MakeAllocator_Deallocate :: "ptr \<Rightarrow> object_memory \<Rightarrow> object_memory" where
  "MakeAllocator_Deallocate p m = m\<lparr>raw := raw m - {p}, dropped := dropped m @ [p]\<rparr>"

definition SimpleRefCountPolicy_AllocateMemory ::
  "('a \<Rightarrow> object_memory \<Rightarrow> ptr) \<Rightarrow> 'a \<Rightarrow> object_memory \<Rightarrow> (memory_guard \<times> object_memory) outcome" where
  "SimpleRefCountPolicy_AllocateMemory pick a m =
     (let (p, m1) = MakeAllocator_Allocate pick a m in Returns (empty_guard\<lparr>ObjMemory := p\<rparr>, m1))"

definition RefCountedObject_ctor :: "ptr \<Rightarrow> object_memory \<Rightarrow> object_memory" where
  "RefCountedObject_ctor p m = m\<lparr>raw := raw m - {p},
     objects := (objects m)\<lparr>m_refCount := (m_refCount (objects m))(p \<mapsto> 1)\<rparr>\<rparr>"

definition RefCountedObject_dtor :: "ptr \<Rightarrow> object_memory \<Rightarrow> object_memory" where
  "RefCountedObject_dtor p m = m\<lparr>raw := insert p (raw m),
     objects := (objects m)\<lparr>m_refCount := (m_refCount (objects m))(p := None)\<rparr>\<rparr>"

definition SimpleRefCountMemoryGuard_dtor :: "memory_guard \<Rightarrow> object_memory \<Rightarrow> object_memory outcome" where
  "SimpleRefCountMemoryGuard_dtor g m =
     (if ObjMemory g \<noteq> 0 then Returns (MakeAllocator_Deallocate (ObjMemory g) m)
      else if Obj g \<noteq> 0 then
        and_then (SimpleRefCount_Release (Obj g) (objects m)) (\<lambda>h. Returns (m\<lparr>objects := h\<rparr>))
      else Returns m)"

definition SimpleRefCountPolicy :: "('a \<Rightarrow> object_memory \<Rightarrow> ptr) \<Rightarrow> ('a, object_memory) RefCountPolicy" where
  "SimpleRefCountPolicy pick = \<lparr>AllocateMemory = SimpleRefCountPolicy_AllocateMemory pick,
     base_ctor = RefCountedObject_ctor, base_dtor = RefCountedObject_dtor,
     MemoryGuard_dtor = SimpleRefCountMemoryGuard_dtor\<rparr>"

section \<open>Counting with weak references\<close>




text \<open>\<open>MakeWeakRefObject\<close> is \<open>Make\<close> in the container its caller names, and so is \<open>MakeAllocWeakRefObject\<close>.\<close>

definition MakeWeakRefObject ::
  "(unit, 'h) RefCountPolicy \<Rightarrow> (unit, 'h) make_policy \<Rightarrow> 'h made_type \<Rightarrow> 'h \<Rightarrow> (ptr attempt \<times> 'h) outcome" where
  "MakeWeakRefObject P M T h = and_then (AllocateMemory P () h) (\<lambda>(g, h1).
     and_then (verify_else_crash (ObjMemory g \<noteq> 0) ''allocation'') (\<lambda>_. Make_in_memory P M T g h1))"

definition MakeAllocWeakRefObject ::
  "('a, 'h) RefCountPolicy \<Rightarrow> ('a, 'h) make_policy \<Rightarrow> 'h made_type \<Rightarrow> 'a \<Rightarrow> 'h \<Rightarrow> (ptr attempt \<times> 'h) outcome" where
  "MakeAllocWeakRefObject P M T allocArg h = and_then (AllocateMemory P allocArg h) (\<lambda>(g, h1).
     and_then (verify_else_crash (ObjMemory g \<noteq> 0) ''allocation'') (\<lambda>_. Make_in_memory P M T g h1))"

text \<open>\<open>Make_RefCounted\<close> is \<open>noexcept\<close>, and so is the constructor of \<open>RefCountedWrapper\<close>.\<close>

definition RefCountedWrapper :: "'h type_code \<Rightarrow> 'h made_type" where
  "RefCountedWrapper ctor = \<lparr>
     T_ctor = (\<lambda>p h. and_then (ctor p h) (\<lambda>(done, h1).
       if done then Returns (True, h1) else Crashes (VerifyElseCrash ''std::terminate''))),
     T_InitializeThis = (\<lambda>_ h. Returns (True, h))\<rparr>"

definition Make_RefCounted :: "(unit, 'h) RefCountPolicy \<Rightarrow> 'h type_code \<Rightarrow> 'h \<Rightarrow> (ptr \<times> 'h) outcome" where
  "Make_RefCounted P ctor h = and_then (Mso_Make P ThrowCtor_Make (RefCountedWrapper ctor) h) (\<lambda>(r, h1).
     case r of Completes p \<Rightarrow> Returns (p, h1) | Throws_exception \<Rightarrow> Crashes (VerifyElseCrash ''std::terminate''))"

section \<open>The interface of a policy\<close>

text \<open>
  What can be seen of the memory: the strong and the weak references to an address, and how often
  the destructor of the object there has run and how often its memory has been given back.
\<close>

record 'h memory_view =
  ok :: "'h \<Rightarrow> bool"
  refs :: "'h \<Rightarrow> ptr \<Rightarrow> nat"
  weaks :: "'h \<Rightarrow> ptr \<Rightarrow> nat"
  runs :: "'h \<Rightarrow> ptr \<Rightarrow> nat"
  frees :: "'h \<Rightarrow> ptr \<Rightarrow> nat"

text \<open>
  The code of a type, run with \<open>k\<close> references and \<open>j\<close> weak references to the object: whether it
  returns, and how many references of each kind it leaves with others. It does not destroy the
  object under construction.
\<close>

definition code_keeps :: "'h memory_view \<Rightarrow> 'h type_code \<Rightarrow> ptr \<Rightarrow> nat \<Rightarrow> nat \<Rightarrow> bool \<Rightarrow> nat \<Rightarrow> nat \<Rightarrow> bool" where
  "code_keeps V f p k j b n w \<longleftrightarrow> (\<forall>h. ok V h \<longrightarrow> refs V h p = k \<longrightarrow> weaks V h p = j \<longrightarrow>
     (\<exists>h'. f p h = Returns (b, h') \<and> ok V h' \<and> refs V h' p = k + n \<and> weaks V h' p = j + w
       \<and> runs V h' p = runs V h p \<and> frees V h' p = frees V h p))"

lemma code_keepsD:
  assumes "code_keeps V f p k j b n w" and "ok V h" and "refs V h p = k" and "weaks V h p = j"
  obtains h' where "f p h = Returns (b, h')" "ok V h'" "refs V h' p = k + n" "weaks V h' p = j + w"
    "runs V h' p = runs V h p" "frees V h' p = frees V h p"
  using assms unfolding code_keeps_def by blast

text \<open>
  What \<open>Make\<close> relies on. Memory from the allocator becomes an object with one reference. A guard
  that still owns the memory gives it back without the destructor; one that owns the object gives
  up one reference; one that owns nothing does nothing.
\<close>

locale making =
  fixes P :: "('a, 'h) RefCountPolicy" and V :: "'h memory_view"
    and pick :: "'a \<Rightarrow> 'h \<Rightarrow> ptr" and unused :: "'h \<Rightarrow> ptr \<Rightarrow> bool" and guard_for :: "ptr \<Rightarrow> memory_guard"
  assumes no_memory: "pick a h = 0 \<Longrightarrow> AllocateMemory P a h = Returns (empty_guard, h)"
    and memory: "ok V h \<Longrightarrow> pick a h = p \<Longrightarrow> p \<noteq> 0 \<Longrightarrow> unused h p \<Longrightarrow>
      \<exists>h1. AllocateMemory P a h = Returns (guard_for p, h1) \<and> ok V (base_ctor P p h1)
        \<and> refs V (base_ctor P p h1) p = 1 \<and> weaks V (base_ctor P p h1) p = 0
        \<and> runs V (base_ctor P p h1) p = runs V h p \<and> frees V (base_ctor P p h1) p = frees V h p"
    and guard_for: "ObjMemory (guard_for p) = p"
    and memory_back: "ok V h \<Longrightarrow> refs V h p = 1 \<Longrightarrow> weaks V h p = 0 \<Longrightarrow> p \<noteq> 0 \<Longrightarrow>
      \<exists>h'. MemoryGuard_dtor P (guard_for p) (base_dtor P p h) = Returns h' \<and> ok V h'
        \<and> refs V h' p = 0 \<and> runs V h' p = runs V h p \<and> frees V h' p = frees V h p + 1"
    and object_back: "ok V h \<Longrightarrow> 0 < refs V h p \<Longrightarrow> p \<noteq> 0 \<Longrightarrow>
      \<exists>h'. MemoryGuard_dtor P ((guard_for p)\<lparr>Obj := p, ObjMemory := 0\<rparr>) h = Returns h' \<and> ok V h'
        \<and> refs V h' p = refs V h p - 1 \<and> runs V h' p = runs V h p + of_bool (refs V h p = 1)
        \<and> frees V h' p = frees V h p + of_bool (refs V h p = 1 \<and> weaks V h p = 0)"
    and nothing_back: "ObjMemory g = 0 \<Longrightarrow> Obj g = 0 \<Longrightarrow> MemoryGuard_dtor P g h = Returns h"
begin

lemma nothing_back_empty: "MemoryGuard_dtor P empty_guard h = Returns h"
  by (simp add: nothing_back empty_guard_def)

text \<open>With memory the variants agree; a stateless allocator is one whose argument carries nothing.\<close>

lemma MakeAllocElseNull_memory:
  assumes "ok V h" and "pick a h = p" and "p \<noteq> 0" and "unused h p"
  shows "Mso_MakeAllocElseNull P M T a h = Mso_MakeAlloc P M T a h"
proof -
  obtain h1 where "AllocateMemory P a h = Returns (guard_for p, h1)" using memory [OF assms] by blast
  with assms(3) show ?thesis by (simp add: Mso_MakeAlloc_def Mso_MakeAllocElseNull_def guard_for)
qed

lemma MakeAlloc_no_memory:
  assumes "pick a h = 0"
  shows "Mso_MakeAlloc P M T a h = Crashes (VerifyElseCrash ''allocation'')"
    and "Mso_MakeAllocElseNull P M T a h = Returns (Completes 0, h)"
  by (simp_all add: Mso_MakeAlloc_def Mso_MakeAllocElseNull_def no_memory [OF assms] nothing_back_empty)
    (simp_all add: empty_guard_def)

text \<open>What a type does under the policy with \<open>InitializeThis\<close>.\<close>

lemma MakeAlloc_InitializeThis:
  assumes "ok V h" and "pick a h = p" and "p \<noteq> 0" and "unused h p"
    and ctor: "code_keeps V (T_ctor T) p 1 0 b1 n1 w1" and failed: "\<not> b1 \<Longrightarrow> n1 = 0 \<and> w1 = 0"
    and init: "code_keeps V (T_InitializeThis T) p (1 + n1) w1 b2 n2 w2"
  shows "\<exists>h'. Mso_MakeAlloc P ThrowCtorAndInitializeThis_Make T a h
        = Returns (if b1 \<and> b2 then Completes p else Throws_exception, h')
      \<and> refs V h' p = (if b1 then n1 + n2 + of_bool b2 else 0)
      \<and> runs V h' p = runs V h p + of_bool (b1 \<and> \<not> b2 \<and> n1 + n2 = 0)
      \<and> frees V h' p = frees V h p + of_bool (\<not> b1 \<or> \<not> b2 \<and> n1 + n2 = 0 \<and> w1 + w2 = 0)"
proof -
  obtain h1 where h1: "AllocateMemory P a h = Returns (guard_for p, h1)" and built: "ok V (base_ctor P p h1)"
    "refs V (base_ctor P p h1) p = 1" "weaks V (base_ctor P p h1) p = 0"
    "runs V (base_ctor P p h1) p = runs V h p" "frees V (base_ctor P p h1) p = frees V h p"
    using memory [OF assms(1-4)] by blast
  obtain h2 where h2: "T_ctor T p (base_ctor P p h1) = Returns (b1, h2)" "ok V h2" "refs V h2 p = 1 + n1"
    "weaks V h2 p = w1" "runs V h2 p = runs V h p" "frees V h2 p = frees V h p"
    using code_keepsD [OF ctor built(1-3)] built(4,5) by auto
  note run = Mso_MakeAlloc_def Make_in_memory_def ThrowCtorAndInitializeThis_Make_def placement_new_def
    h1 h2(1) guard_for \<open>p \<noteq> 0\<close>
  show ?thesis
  proof (cases b1)
    case False
    with failed h2 obtain h3 where "MemoryGuard_dtor P (guard_for p) (base_dtor P p h2) = Returns h3"
      "refs V h3 p = 0" "runs V h3 p = runs V h2 p" "frees V h3 p = frees V h2 p + 1"
      using memory_back [OF h2(2) _ _ \<open>p \<noteq> 0\<close>] by auto
    with False h2 show ?thesis by (simp add: run)
  next
    case True
    obtain h3 where h3: "T_InitializeThis T p h2 = Returns (b2, h3)" "ok V h3" "refs V h3 p = 1 + n1 + n2"
      "weaks V h3 p = w1 + w2" "runs V h3 p = runs V h p" "frees V h3 p = frees V h p"
      using code_keepsD [OF init h2(2-4)] h2(5,6) by auto
    obtain h4 where "MemoryGuard_dtor P ((guard_for p)\<lparr>Obj := p, ObjMemory := 0\<rparr>) h3 = Returns h4"
      "refs V h4 p = refs V h3 p - 1" "runs V h4 p = runs V h3 p + of_bool (refs V h3 p = 1)"
      "frees V h4 p = frees V h3 p + of_bool (refs V h3 p = 1 \<and> weaks V h3 p = 0)"
      using object_back [OF h3(2) _ \<open>p \<noteq> 0\<close>] h3(3) by auto
    with True h3 show ?thesis
      by (auto simp: run Let_def nothing_back)
  qed
qed

end

section \<open>The two policies\<close>

definition simple_view :: "object_memory memory_view" where
  "simple_view = \<lparr>ok = (\<lambda>m. True), refs = (\<lambda>m. simple_refs (objects m)), weaks = (\<lambda>m p. 0),
     runs = (\<lambda>m. count_list (deleted (objects m))),
     frees = (\<lambda>m p. count_list (deleted (objects m)) p + count_list (dropped m) p)\<rparr>"


lemma count_list_snoc: "count_list (xs @ [x]) y = count_list xs y + of_bool (x = y)"
  by simp

lemma unat_is_1: "unat (n :: 32 word) = 1 \<longleftrightarrow> n = 1"
  by (metis unat_1 word_unat_eq_iff)

interpretation simple: making "SimpleRefCountPolicy pick" simple_view pick
  "\<lambda>m p. m_refCount (objects m) p = None \<and> p \<notin> raw m" "\<lambda>p. empty_guard\<lparr>ObjMemory := p\<rparr>" for pick
proof unfold_locales
  note defs = SimpleRefCountPolicy_def simple_view_def SimpleRefCountPolicy_AllocateMemory_def
    MakeAllocator_Allocate_def RefCountedObject_ctor_def RefCountedObject_dtor_def simple_refs_def
    SimpleRefCountMemoryGuard_dtor_def MakeAllocator_Deallocate_def empty_guard_def Let_def
    SimpleRefCount_Release_def SimpleRefCount_Delete_def with_count_def
  fix a h p g
  show "AllocateMemory (SimpleRefCountPolicy pick) a h = Returns (empty_guard, h)" if "pick a h = 0"
    using that by (simp add: defs)
  show "\<exists>h1. AllocateMemory (SimpleRefCountPolicy pick) a h = Returns (empty_guard\<lparr>ObjMemory := p\<rparr>, h1)
      \<and> ok simple_view (base_ctor (SimpleRefCountPolicy pick) p h1)
      \<and> refs simple_view (base_ctor (SimpleRefCountPolicy pick) p h1) p = 1
      \<and> weaks simple_view (base_ctor (SimpleRefCountPolicy pick) p h1) p = 0
      \<and> runs simple_view (base_ctor (SimpleRefCountPolicy pick) p h1) p = runs simple_view h p
      \<and> frees simple_view (base_ctor (SimpleRefCountPolicy pick) p h1) p = frees simple_view h p"
    if "pick a h = p" and "p \<noteq> 0"
    using that by (simp add: defs)
  show "ObjMemory (empty_guard\<lparr>ObjMemory := p\<rparr>) = p" by simp
  show "\<exists>h'. MemoryGuard_dtor (SimpleRefCountPolicy pick) (empty_guard\<lparr>ObjMemory := p\<rparr>)
        (base_dtor (SimpleRefCountPolicy pick) p h) = Returns h' \<and> ok simple_view h'
      \<and> refs simple_view h' p = 0 \<and> runs simple_view h' p = runs simple_view h p
      \<and> frees simple_view h' p = frees simple_view h p + 1"
    if "refs simple_view h p = 1" and "p \<noteq> 0"
    using that by (simp add: defs)
  show "\<exists>h'. MemoryGuard_dtor (SimpleRefCountPolicy pick) ((empty_guard\<lparr>ObjMemory := p\<rparr>)\<lparr>Obj := p, ObjMemory := 0\<rparr>) h
        = Returns h' \<and> ok simple_view h'
      \<and> refs simple_view h' p = refs simple_view h p - 1
      \<and> runs simple_view h' p = runs simple_view h p + of_bool (refs simple_view h p = 1)
      \<and> frees simple_view h' p = frees simple_view h p + of_bool (refs simple_view h p = 1 \<and> weaks simple_view h p = 0)"
    if pos: "0 < refs simple_view h p" and "p \<noteq> 0"
  proof -
    obtain n where n: "m_refCount (objects h) p = Some n" "0 < unat n"
      using pos by (auto simp: defs split: option.splits)
    show ?thesis
    proof (cases "n = 1")
      case True
      with n \<open>p \<noteq> 0\<close> show ?thesis by (simp add: defs)
    next
      case False
      with n have "unat n \<noteq> 1" by (simp only: unat_is_1 not_False_eq_True)
      with n False \<open>p \<noteq> 0\<close> unat_dec [of n] dec_zero [of n] show ?thesis by (simp add: defs)
    qed
  qed
  show "MemoryGuard_dtor (SimpleRefCountPolicy pick) g h = Returns h" if "ObjMemory g = 0" and "Obj g = 0"
    using that by (simp add: defs)
qed



section \<open>Property\<close>

lemma Make_is_MakeAlloc:
  "Mso_Make P M T h = Mso_MakeAlloc P M T () h" "Mso_MakeElseNull P M T h = Mso_MakeAllocElseNull P M T () h"
  "MakeWeakRefObject P M T h = Mso_Make P M T h" "MakeAllocWeakRefObject P1 M1 T a h = Mso_MakeAlloc P1 M1 T a h"
  by (simp_all add: Mso_Make_def Mso_MakeAlloc_def Mso_MakeElseNull_def Mso_MakeAllocElseNull_def
      MakeWeakRefObject_def MakeAllocWeakRefObject_def)

text \<open>The policies that must not throw end the process instead, and otherwise do what the others do.\<close>

lemma NoThrow_policies:
  "NoThrowCtor_Make P T g h = and_then (ThrowCtor_Make P T g h) (\<lambda>(r, g1, h1).
     if r = Throws_exception then Crashes (VerifyElseCrash ''std::terminate'') else Returns (r, g1, h1))"
  "NoThrowCtorAndInitializeThis_Make P T g h = and_then (ThrowCtorAndInitializeThis_Make P T g h) (\<lambda>(r, g1, h1).
     if r = Throws_exception then Crashes (VerifyElseCrash ''std::terminate'') else Returns (r, g1, h1))"
proof -
  show "NoThrowCtor_Make P T g h = and_then (ThrowCtor_Make P T g h) (\<lambda>(r, g1, h1).
     if r = Throws_exception then Crashes (VerifyElseCrash ''std::terminate'') else Returns (r, g1, h1))"
    by (cases "placement_new P T (ObjMemory g) h") (auto simp: NoThrowCtor_Make_def ThrowCtor_Make_def)
  show "NoThrowCtorAndInitializeThis_Make P T g h = and_then (ThrowCtorAndInitializeThis_Make P T g h) (\<lambda>(r, g1, h1).
     if r = Throws_exception then Crashes (VerifyElseCrash ''std::terminate'') else Returns (r, g1, h1))"
  proof (cases "placement_new P T (ObjMemory g) h")
    case (Returns x)
    then show ?thesis
      by (cases "T_InitializeThis T (ObjMemory g) (snd x)")
        (auto simp: NoThrowCtorAndInitializeThis_Make_def ThrowCtorAndInitializeThis_Make_def Let_def split: prod.split)
  qed (simp_all add: NoThrowCtorAndInitializeThis_Make_def ThrowCtorAndInitializeThis_Make_def)
qed

text \<open>Objects with one counter: what the property below says of those with weak references.\<close>

lemma simple_object_made_or_undone:
  assumes "pick a m = p" and "p \<noteq> 0" and "m_refCount (objects m) p = None" and "p \<notin> raw m"
    and "code_keeps simple_view (T_ctor T) p 1 0 b1 n1 0" and "\<not> b1 \<Longrightarrow> n1 = 0"
    and "code_keeps simple_view (T_InitializeThis T) p (1 + n1) 0 b2 n2 0"
  shows "\<exists>m'. Mso_MakeAlloc (SimpleRefCountPolicy pick) ThrowCtorAndInitializeThis_Make T a m
        = Returns (if b1 \<and> b2 then Completes p else Throws_exception, m')
      \<and> simple_refs (objects m') p = (if b1 then n1 + n2 + of_bool b2 else 0)
      \<and> count_list (deleted (objects m')) p = count_list (deleted (objects m)) p + of_bool (b1 \<and> \<not> b2 \<and> n1 + n2 = 0)"
  using simple.MakeAlloc_InitializeThis [of m pick a p T b1 n1 0 b2 n2 0] assms by (auto simp: simple_view_def)





end
