(* ===== verification/Spec2Isabelle.thy ===== *)
theory Spec2Isabelle
  imports Queue_Guarantees Future_Guarantees Future_Ref_Guarantees Future_Callback Weak_Ptr_Guarantees
    Maybe_Guarantees Error_Guarantees Tag_Utils
    Thread_Pool_Guarantees Windows_Pool Looper Dispatch_Api Token_Chains Query_Interface
    Active_Object_Guarantees Smart_Holder Object_Make
begin

text \<open>
  A verification development for Mso, a C++ library of liblets: small libraries for asynchronous
  code and object lifetime. All paths are under \<open>src/libs\<close>.

  \<^bold>\<open>The program.\<close> A dispatch queue (\<open>dispatchQueue\<close>) runs tasks one at a time, or several at once, on
  threads of a scheduler. A future (\<open>future\<close>) is a value that comes later; its continuations are
  futures again, posted to an executor, often a dispatch queue, when their parent is done. Queues,
  futures and everything they share are reference counted objects (\<open>object\<close>), held by smart pointers
  (\<open>smartPtr\<close>, \<open>object/weakPtr.h\<close>). A future ends with a value or with an error code (\<open>errorCode\<close>),
  together a \<open>Maybe\<close>. Broken contracts crash the process (\<open>crash\<close>), with a tag that names the place
  (\<open>tagUtils\<close>).

  \<^bold>\<open>How it is modelled.\<close> A call is a function from a state to an \<open>outcome\<close> (theory \<open>Mso_Prelude\<close>): it
  returns, or crashes with a reason. The reasons are the checks the code makes (\<open>VerifyElseCrash\<close>)
  and the errors it does not check for: a null or dangling pointer, an index out of range, signed
  overflow, a variable that holds no object. Counters have their 32 bits, addresses and the packed
  state of a future their 64. The build is a release build: checks inside \<open>Debug(...)\<close> are left out.
  Threads are interleaved at the granularity of a lock region of the queue and of one atomic
  exchange of a future, and threads of a scheduler between two regions of its mutex or its atomics;
  smart pointers and error codes are sequential programs over shared objects.

  \<^bold>\<open>Dispatch queues.\<close>
  \<^item> \<open>Task_Queue\<close>: \<open>TaskReadBuffer\<close> and \<open>TaskQueue\<close> (\<open>dispatchQueue/src/taskQueue.*\<close>), every method, and
    the locale \<open>fifo\<close> of a first-in first-out queue with the two-buffer queue as its interpretation.
  \<^item> \<open>Dispatch_Task\<close>: task objects, task batches and task contexts (\<open>taskBatch.*\<close>, \<open>taskContext.*\<close>).
  \<^item> \<open>Queue_Service\<close>: every method of \<open>QueueService\<close> (\<open>queueService.*\<close>), one definition each. A method
    returns the items of work it leaves to do outside of the lock.
  \<^item> \<open>Queue_System\<close>: any number of threads that call a queue and run its tasks, as a step relation
    with an environment that chooses what tasks do and a scheduler that records its calls.
  \<^item> \<open>Queue_Properties\<close>, \<open>Queue_Guarantees\<close>: the invariant of the system; no task is lost or run twice,
    each call does to the queue what it does to an abstract list of tasks, the scheduler is woken often enough, what crashes,
    which queue is the current one, shutdown is final; and what batching and local values really do.
  \<^item> \<open>Scheduler_System\<close>: a queue together with its scheduler and its clients: clients call methods of
    the queue or drop their references, which leaves calls of the scheduler to be delivered; threads of
    the scheduler take tasks from the queue. The locale \<open>dispatch_scheduler\<close> states what a scheduler
    promises; in it, \<open>every_task_runs\<close>: without further calls every run ends, with all tasks taken.
  \<^item> \<open>Thread_Pool\<close>, \<open>Windows_Pool\<close>, \<open>Looper\<close>: the schedulers (\<open>dispatchQueue/src/threadPoolScheduler_*\<close>,
    \<open>looperScheduler.cpp\<close>), each an interpretation of \<open>dispatch_scheduler\<close>; \<open>Thread_Pool_Guarantees\<close> has
    the bound on concurrency too, and the runs in which a shutdown loses a task and in which the
    thread that drops the last reference blocks itself.
  \<^item> \<open>Event_Handle\<close>: the events a looper waits for (\<open>eventWaitHandle\<close>): no thread is left blocked on an
    event that is set, and no signal is used twice.
  \<^item> \<open>Dispatch_Api\<close>: the classes a client uses (\<open>dispatchQueue/dispatchQueue.h\<close>), as calls of the service in
    order, and what its guards for suspensions and batches really do; \<open>ThreadMutex\<close> (\<open>threadMutex.h\<close>).

  \<^bold>\<open>Futures.\<close>
  \<^item> \<open>Future_State\<close>: the packed state word and the memory layout of \<open>MakeFuture\<close>.
  \<^item> \<open>Future_Impl\<close>: a future object and the decision each transition takes on the state it reads.
  \<^item> \<open>Future_System\<close>: the methods of \<open>FutureImpl\<close> and \<open>FutureCallback\<close> as steps of any number of threads,
    with a client that makes any call at any time.
  \<^item> \<open>Future_Transitions\<close>, \<open>Future_Once\<close>, \<open>Future_Chains\<close>, \<open>Future_Guarantees\<close>: states move only as documented,
    a future completes once, its task is called once, each continuation is posted once and gets the
    result of its parent, errors travel down a chain, and where a multi-post chain loses futures.
  \<^item> \<open>Future_Ref\<close>, \<open>Future_Ref_Guarantees\<close>: the counters in front of a future and weak pointers to
    futures, which are counted pointers over the weak count.
  \<^item> \<open>Future_Callback\<close>: the function object given to an executor; it completes its future once.

  \<^bold>\<open>Programs over futures.\<close> The code that calls \<open>FutureImpl\<close> is written as programs: resumptions that call
  a method of a future, read or change the memory of the tasks and values, make a future, or call a
  function of the user, one step at a time. A world is that of \<open>Future_System\<close> with the memory and, for
  each thread, its frames; forgetting the programs gives a run of \<open>Future_System\<close>.
  \<^item> \<open>Future_Program\<close>: programs, their steps on threads, and the refinement to \<open>Future_System\<close>.
  \<^item> \<open>Future_Tasks\<close>: the functions in the traits of a future, for each kind of task: \<open>futureTask.*\<close>,
    \<open>maybeInvoker.h\<close>, \<open>executor.*\<close>, and the tasks of \<open>whenAll*\<close>, \<open>whenAny*\<close> and of cancellation tokens.
  \<^item> \<open>Promise\<close>: what clients call: promises and promise groups (\<open>promise.cpp\<close>, \<open>promiseInl.h\<close>,
    \<open>promiseGroup.cpp\<close>, \<open>promiseGroupInl.h\<close>), \<open>Then\<close>, \<open>Catch\<close>, \<open>Share\<close>, \<open>PostFuture\<close>, \<open>WhenAll\<close>, \<open>WhenAny\<close> and the
    sources of cancellation (\<open>cancellationTokenImpl.cpp\<close>).
  \<^item> \<open>When_All\<close>: the callbacks of \<open>WhenAll\<close> in any interleaving: one of them completes the future, the last.
  \<^item> \<open>Program_Runs\<close>: an executable stepper for such programs, the refinement for the library's own
    tasks, and what a continuation ends with.
  \<^item> \<open>Cancellation_Token\<close>: what a token says before and after its source is cancelled or abandoned.
  \<^item> \<open>Token_Chains\<close>: two runs in which continuations of a token are lost or miss an error.

  \<^bold>\<open>Active objects.\<close>
  \<^item> \<open>Active_Object\<close>: an object tied to a serial queue (\<open>activeObject\<close>), as steps of any number of threads
    that make it, call it, share it and run the tasks of the abstract queue that \<open>Queue_Guarantees\<close>
    proves the service to implement; the thread of a looper, which may run tasks at once, included.
  \<^item> \<open>Active_Object_Life\<close>, \<open>Active_Object_Guarantees\<close>: its invariants; references are counted, its code runs
    in the queue, each part at most once and before what has to follow it, it is destroyed once when nobody holds it, and waiters go on; the
    run in which a callback comes before \<open>Initialize\<close>; and the accessors of fields.

  \<^bold>\<open>Objects and pointers.\<close>
  \<^item> \<open>Ref_Count\<close>: the locales \<open>ref_counted\<close> and \<open>weak_counted\<close>, the laws a smart pointer relies on,
    and the counters of \<open>object/objectRefCount.h\<close> and \<open>objectWithWeakRef.h\<close> as interpretations. The futures
    (\<open>Future_Ref\<close>) and the error states (\<open>Error_Code\<close>) are interpretations too.
  \<^item> \<open>Object_Make\<close>: \<open>Make\<close> and its variants (\<open>object/make.h\<close>) with the memory guards of both ways to count,
    over the locale \<open>making\<close>: an object is made whole or undone, whatever its constructor throws.
  \<^item> \<open>Counted_Ptr\<close>, \<open>Counted_Ptr_Guarantees\<close>: \<open>CntPtr\<close>, over any \<open>ref_counted\<close> objects. \<open>good\<close> says that
    the count of an object is the number of variables that hold it and of the references the client
    owns; each operation keeps it, and is an \<open>AddRef\<close> followed by a \<open>Release\<close>.
  \<^item> \<open>Weak_Ptr\<close>, \<open>Weak_Ptr_Guarantees\<close>: \<open>WeakPtr\<close>, over any \<open>weak_counted\<close> objects.

  \<^item> \<open>Smart_Holder\<close>: \<open>THolder\<close> and \<open>THolderPair\<close> (\<open>smartPtr/smartPointerBase.h\<close>) over any values with an empty
    one (the locale \<open>empty_traits\<close>), where freeing may call back: a resource is freed once.
  \<^item> \<open>Query_Cast\<close>: classes as trees of their bases with offsets, and the searches the templates of
    \<open>object/queryCast.h\<close> unfold: \<open>QueryCast\<close> by GUID and the cast to the first \<open>IUnknown\<close>; what a cast
    finds is a part of the object of the type asked for, and it finds every GUID the class answers to.
  \<^item> \<open>Query_Interface\<close>: \<open>QueryInterface\<close> (\<open>object/unknownObject.h\<close>), \<open>query_cast\<close>, \<open>qi_cast\<close> and its relatives
    (\<open>comUtil/qiCastCore.h\<close>), over any \<open>ref_counted\<close> objects; \<open>AreEqualObjects\<close> tells objects apart.

  \<^bold>\<open>Errors, tags and GUIDs.\<close>
  \<^item> \<open>Error_Code\<close>, \<open>Error_Guarantees\<close>: error states, \<open>ErrorCode\<close> and the providers of errors.
  \<^item> \<open>Maybe\<close>, \<open>Maybe_Guarantees\<close>: \<open>Maybe<T>\<close> and \<open>Maybe<void>\<close> as a tagged union whose members are
    constructed and destroyed; the tag always tells which one is there.
  \<^item> \<open>Tag_Utils\<close>: tags to strings and back, for every character type.
  \<^item> \<open>Guid\<close>: the parser of GUID literals (\<open>guid/msoGuidDetails.h\<close>) reads every GUID from its spelling; the
    comparisons of GUIDs (\<open>platform_posix/guiddef.h\<close>).

  \<^bold>\<open>Bounds and fuel.\<close> Loops are structural recursions, and threads that may run forever are step
  relations; only \<open>GetValue\<close> of a future, which follows its links, takes fuel, one
  unit for each link. Counts of references are assumed to stay below the top of their 32
  bits where a program adds one, which \<open>live\<close> and \<open>weak_live\<close> say. The compare-and-exchange loops of
  the counters are one step: a failed exchange changes nothing and reads again.

  \<^bold>\<open>Not modelled.\<close> Swarms, lazy values and the functors, waiting for a future (\<open>futureWait.h\<close>), and the
  factories of queues. Left out for good: the annotations and compiler adapters (\<open>oacr\<close>,
  \<open>oacr_posix\<close>, \<open>compilerAdapters\<close>, \<open>cppExtensions\<close>, \<open>typeTraits\<close>), memory allocation (\<open>memoryApi\<close>),
  assertions and platform headers (\<open>debugAssertApi\<close>, \<open>platformAdapters\<close>, \<open>platform_posix\<close>), the test
  framework (\<open>motifCpp\<close>) and the Windows user interface schedulers: they have no state of the
  program's own, or only call the operating system.
\<close>

end
